(* ===== verification/Prelude.thy ===== *)
theory Prelude
  imports Main "HOL-Library.Sublist"
begin

text \<open>
  What every component of the development shares: the collections its proofs use, signed
  64-bit integers as \<open>int\<close> with the wrap-around written out, and the part of the Go standard
  library the sources call (\<open>strings\<close>, \<open>strconv\<close>, \<open>path/filepath\<close> on a POSIX host, \<open>sort.SliceStable\<close>).

  A Go string is a sequence of bytes and so is a \<open>string\<close> here. Where the library goes from
  bytes to Unicode (\<open>strings.ToLower\<close> and \<open>strings.ToUpper\<close> on text that is not ASCII) the case
  tables are an argument of the definition that needs them.
\<close>

named_theorems go_defs "definitions of the modelled Go library that proofs unfold"
named_theorems step_simps "equations that evaluate one operation of a component"

section \<open>Signed 64-bit integers\<close>

definition max_int64 :: int where
  "max_int64 = 9223372036854775807"

definition min_int64 :: int where
  "min_int64 = -9223372036854775808"

definition is_int64 :: "int \<Rightarrow> bool" where
  "is_int64 n \<longleftrightarrow> min_int64 \<le> n \<and> n \<le> max_int64"

text \<open>Two's complement: the value an \<open>int64\<close> holds after an operation whose exact result is \<open>n\<close>.\<close>

definition wrap64 :: "int \<Rightarrow> int" where
  "wrap64 n = (n + 9223372036854775808) mod 18446744073709551616 - 9223372036854775808"

lemma wrap64_id [simp]: "is_int64 n \<Longrightarrow> wrap64 n = n"
  by (simp add: wrap64_def is_int64_def min_int64_def max_int64_def)

lemma is_int64_wrap64 [simp]: "is_int64 (wrap64 n)"
proof -
  have "0 \<le> (n + 9223372036854775808) mod 18446744073709551616"
    and "(n + 9223372036854775808) mod 18446744073709551616 < 18446744073709551616"
    by simp_all
  then show ?thesis
    unfolding is_int64_def wrap64_def min_int64_def max_int64_def by linarith
qed

lemma is_int64I: "0 \<le> n \<Longrightarrow> n \<le> max_int64 \<Longrightarrow> is_int64 n"
  by (simp add: is_int64_def min_int64_def)

section \<open>Results\<close>

text \<open>A Go function returning \<open>(T, error)\<close> is a value of \<open>'e + 'a\<close>; this is its early return.\<close>

definition bind_result :: "'e + 'a \<Rightarrow> ('a \<Rightarrow> 'e + 'b) \<Rightarrow> 'e + 'b" where
  "bind_result m f = (case m of Inl e \<Rightarrow> Inl e | Inr a \<Rightarrow> f a)"

lemma bind_result_simps [simp]:
  "bind_result (Inl e) f = Inl e"
  "bind_result (Inr a) f = f a"
  by (simp_all add: bind_result_def)

lemma bind_result_Inr_iff:
  "bind_result m f = Inr b \<longleftrightarrow> (\<exists>a. m = Inr a \<and> f a = Inr b)"
  by (cases m) auto

fun is_ok :: "'e + 'a \<Rightarrow> bool" where
  "is_ok (Inl _) = False"
| "is_ok (Inr _) = True"

lemma is_ok_iff: "is_ok m \<longleftrightarrow> (\<exists>a. m = Inr a)"
  by (cases m) auto

section \<open>Package strings\<close>

text \<open>\<open>strings.HasPrefix(s, p)\<close> is \<^term>\<open>prefix p s\<close> and \<open>strings.HasSuffix(s, p)\<close> is \<^term>\<open>suffix p s\<close>.\<close>

definition trim_prefix :: "string \<Rightarrow> string \<Rightarrow> string" where
  "trim_prefix p s = (if prefix p s then drop (length p) s else s)"

definition trim_suffix :: "string \<Rightarrow> string \<Rightarrow> string" where
  "trim_suffix p s = (if suffix p s then take (length s - length p) s else s)"

text \<open>\<open>strings.Cut\<close>: what is before the first \<open>sep\<close>, what is after it, and whether it occurs.\<close>

fun str_cut :: "string \<Rightarrow> string \<Rightarrow> string \<times> string \<times> bool" where
  "str_cut sep s =
     (if prefix sep s then ([], drop (length sep) s, True)
      else case s of
        [] \<Rightarrow> ([], [], False)
      | c # cs \<Rightarrow>
          (case str_cut sep cs of
             (a, b, True) \<Rightarrow> (c # a, b, True)
           | (_, _, False) \<Rightarrow> (s, [], False)))"

declare str_cut.simps [simp del]

lemma str_cut_Nil: "sep \<noteq> [] \<Longrightarrow> str_cut sep [] = ([], [], False)"
  by (subst str_cut.simps) (simp add: prefix_Nil)

text \<open>Cutting at one byte, the case every caller uses.\<close>

lemma str_cut_char_Cons:
  "str_cut [x] (c # cs) =
     (if c = x then ([], cs, True)
      else (case str_cut [x] cs of (a, b, True) \<Rightarrow> (c # a, b, True) | (_, _, False) \<Rightarrow> (c # cs, [], False)))"
  by (subst str_cut.simps) (auto split: bool.splits)

lemma str_cut_char_found:
  "x \<notin> set a \<Longrightarrow> str_cut [x] (a @ x # b) = (a, b, True)"
  by (induction a) (auto simp: str_cut_char_Cons)

lemma str_cut_char_absent:
  "x \<notin> set s \<Longrightarrow> str_cut [x] s = (s, [], False)"
  by (induction s) (auto simp: str_cut_char_Cons str_cut_Nil)

text \<open>\<open>strings.Index\<close> and \<open>strings.Contains\<close>.\<close>

fun str_index :: "string \<Rightarrow> string \<Rightarrow> nat option" where
  "str_index sub s =
     (if prefix sub s then Some 0
      else case s of [] \<Rightarrow> None | _ # cs \<Rightarrow> map_option Suc (str_index sub cs))"

declare str_index.simps [simp del]

definition str_contains :: "string \<Rightarrow> string \<Rightarrow> bool" where
  "str_contains s sub \<longleftrightarrow> str_index sub s \<noteq> None"

text \<open>\<open>strings.Split(s, sep)\<close> with a one-byte separator, and \<open>strings.Join\<close>.\<close>

fun split_on :: "char \<Rightarrow> string \<Rightarrow> string list" where
  "split_on c [] = [[]]"
| "split_on c (x # xs) =
     (if x = c then [] # split_on c xs
      else case split_on c xs of [] \<Rightarrow> [[x]] | w # ws \<Rightarrow> (x # w) # ws)"

fun str_join :: "string \<Rightarrow> string list \<Rightarrow> string" where
  "str_join sep [] = []"
| "str_join sep [w] = w"
| "str_join sep (w # ws) = w @ sep @ str_join sep ws"

lemma split_on_ne [simp]: "split_on c s \<noteq> []"
  by (induction s) (auto split: list.splits)

lemma split_on_no_sep: "w \<in> set (split_on c s) \<Longrightarrow> c \<notin> set w"
  by (induction s arbitrary: w) (auto split: if_splits list.splits)

lemma split_on_single: "c \<notin> set s \<Longrightarrow> split_on c s = [s]"
  by (induction s) auto

lemma split_on_append:
  "c \<notin> set a \<Longrightarrow> split_on c (a @ c # b) = a # split_on c b"
  by (induction a) auto

lemma split_on_append2: "split_on c (a @ c # b) = split_on c a @ split_on c b"
proof (induction a)
  case Nil
  then show ?case by simp
next
  case (Cons x a)
  then show ?case by (cases "split_on c a") auto
qed

lemma str_join_split: "str_join [c] (split_on c s) = s"
proof (induction s)
  case Nil
  then show ?case by simp
next
  case (Cons x s)
  then show ?case
    by (cases "split_on c s" rule: list.exhaust; cases "tl (split_on c s)") auto
qed

lemma str_join_Cons: "ws \<noteq> [] \<Longrightarrow> str_join sep (w # ws) = w @ sep @ str_join sep ws"
  by (cases ws) auto

lemma str_join_append:
  "xs \<noteq> [] \<Longrightarrow> ys \<noteq> [] \<Longrightarrow> str_join sep (xs @ ys) = str_join sep xs @ sep @ str_join sep ys"
  by (induction xs rule: list_nonempty_induct) (auto simp: str_join_Cons)

lemma split_join:
  "ws \<noteq> [] \<Longrightarrow> \<forall>w\<in>set ws. c \<notin> set w \<Longrightarrow> split_on c (str_join [c] ws) = ws"
  by (induction ws rule: list_nonempty_induct)
     (auto simp: split_on_single str_join_Cons split_on_append)

definition replace_char :: "char \<Rightarrow> char \<Rightarrow> string \<Rightarrow> string" where
  "replace_char a b s = map (\<lambda>c. if c = a then b else c) s"

lemma replace_char_simps [simp]:
  "replace_char a b [] = []"
  "replace_char a b (c # s) = (if c = a then b else c) # replace_char a b s"
  by (simp_all add: replace_char_def)

lemma replace_char_idem [simp]: "replace_char a b (replace_char a b s) = replace_char a b s"
  by (induction s) auto

lemma replace_char_Nil_iff [simp]: "replace_char a b s = [] \<longleftrightarrow> s = []"
  by (cases s) auto

lemma replace_char_id: "a \<notin> set s \<Longrightarrow> replace_char a b s = s"
  by (induction s) auto

end
