(* ===== verification/Go_Text.thy ===== *)
theory Go_Text
  imports Prelude
begin

text \<open>
  Bytes, numbers and white space: \<open>strings.TrimSpace\<close>, \<open>strings.ToLower\<close>, \<open>strconv.FormatInt\<close> and
  \<open>strconv.ParseInt(s, 10, 64)\<close>, with the round trip between the last two.
\<close>

section \<open>Bytes\<close>

abbreviation byte_of :: "char \<Rightarrow> nat" where
  "byte_of c \<equiv> of_char c"

definition is_ascii :: "string \<Rightarrow> bool" where
  "is_ascii s \<longleftrightarrow> list_all (\<lambda>c. byte_of c < 128) s"

definition is_digit :: "char \<Rightarrow> bool" where
  "is_digit c \<longleftrightarrow> 48 \<le> byte_of c \<and> byte_of c \<le> 57"

definition is_upper :: "char \<Rightarrow> bool" where
  "is_upper c \<longleftrightarrow> 65 \<le> byte_of c \<and> byte_of c \<le> 90"

definition is_lower :: "char \<Rightarrow> bool" where
  "is_lower c \<longleftrightarrow> 97 \<le> byte_of c \<and> byte_of c \<le> 122"

definition lower_byte :: "char \<Rightarrow> char" where
  "lower_byte c = (if is_upper c then char_of (byte_of c + 32) else c)"

definition upper_byte :: "char \<Rightarrow> char" where
  "upper_byte c = (if is_lower c then char_of (byte_of c - 32) else c)"

text \<open>
  \<open>strings.ToLower\<close> maps ASCII text byte by byte and everything else through the Unicode tables,
  which are the argument \<open>uni\<close>.
\<close>

definition to_lower :: "(string \<Rightarrow> string) \<Rightarrow> string \<Rightarrow> string" where
  "to_lower uni s = (if is_ascii s then map lower_byte s else uni s)"

definition to_upper :: "(string \<Rightarrow> string) \<Rightarrow> string \<Rightarrow> string" where
  "to_upper uni s = (if is_ascii s then map upper_byte s else uni s)"

lemma byte_of_char_of [simp]: "n < 256 \<Longrightarrow> byte_of (char_of n) = n"
  by simp

lemma is_upper_lower_byte [simp]: "\<not> is_upper (lower_byte c)"
  by (auto simp: lower_byte_def is_upper_def)

lemma lower_byte_idem [simp]: "lower_byte (lower_byte c) = lower_byte c"
  by (subst lower_byte_def) simp

lemma lower_byte_ascii: "byte_of c < 128 \<Longrightarrow> byte_of (lower_byte c) < 128"
  by (auto simp: lower_byte_def is_upper_def)

lemma is_ascii_to_lower: "is_ascii s \<Longrightarrow> is_ascii (to_lower uni s)"
  by (auto simp: is_ascii_def to_lower_def list_all_iff lower_byte_ascii)

lemma to_lower_idem: "is_ascii s \<Longrightarrow> to_lower uni (to_lower uni s) = to_lower uni s"
  using is_ascii_to_lower [of s uni] by (simp add: to_lower_def)

lemma to_lower_Nil [simp]: "to_lower uni [] = []"
  by (simp add: to_lower_def is_ascii_def)

lemma to_lower_no_upper: "is_ascii s \<Longrightarrow> \<forall>c\<in>set s. \<not> is_upper c \<Longrightarrow> to_lower uni s = s"
  by (auto simp: to_lower_def lower_byte_def intro: map_idI)

section \<open>White space\<close>

text \<open>Every code point \<open>unicode.IsSpace\<close> accepts, as its UTF-8 bytes.\<close>

definition space_encodings :: "string list" where
  "space_encodings =
     [[CHR 0x20], [CHR 0x09], [CHR 0x0A], [CHR 0x0B], [CHR 0x0C], [CHR 0x0D],
      [CHR 0xC2, CHR 0x85], [CHR 0xC2, CHR 0xA0], [CHR 0xE1, CHR 0x9A, CHR 0x80],
      [CHR 0xE2, CHR 0x80, CHR 0x80], [CHR 0xE2, CHR 0x80, CHR 0x81],
      [CHR 0xE2, CHR 0x80, CHR 0x82], [CHR 0xE2, CHR 0x80, CHR 0x83],
      [CHR 0xE2, CHR 0x80, CHR 0x84], [CHR 0xE2, CHR 0x80, CHR 0x85],
      [CHR 0xE2, CHR 0x80, CHR 0x86], [CHR 0xE2, CHR 0x80, CHR 0x87],
      [CHR 0xE2, CHR 0x80, CHR 0x88], [CHR 0xE2, CHR 0x80, CHR 0x89],
      [CHR 0xE2, CHR 0x80, CHR 0x8A], [CHR 0xE2, CHR 0x80, CHR 0xA8],
      [CHR 0xE2, CHR 0x80, CHR 0xA9], [CHR 0xE2, CHR 0x80, CHR 0xAF],
      [CHR 0xE2, CHR 0x81, CHR 0x9F], [CHR 0xE3, CHR 0x80, CHR 0x80]]"

lemma space_encodings_ne: "p \<in> set space_encodings \<Longrightarrow> p \<noteq> []"
  by (auto simp: space_encodings_def)

lemma find_space_shorter:
  "find P space_encodings = Some p \<Longrightarrow> s \<noteq> [] \<Longrightarrow> length s - length p < length s"
  by (metis find_Some_iff diff_less length_greater_0_conv nth_mem space_encodings_ne)

function trim_left :: "string \<Rightarrow> string" where
  "trim_left s =
     (if s = [] then []
      else case find (\<lambda>p. prefix p s) space_encodings of
        None \<Rightarrow> s
      | Some p \<Rightarrow> trim_left (drop (length p) s))"
  by pat_completeness auto
termination
  by (relation "measure length") (auto dest: find_space_shorter)

function trim_right :: "string \<Rightarrow> string" where
  "trim_right s =
     (if s = [] then []
      else case find (\<lambda>p. suffix p s) space_encodings of
        None \<Rightarrow> s
      | Some p \<Rightarrow> trim_right (take (length s - length p) s))"
  by pat_completeness auto
termination
  by (relation "measure length") (auto dest: find_space_shorter)

declare trim_left.simps [simp del] trim_right.simps [simp del]

definition trim_space :: "string \<Rightarrow> string" where
  "trim_space s = trim_right (trim_left s)"

lemma trim_left_Nil [simp]: "trim_left [] = []" and trim_right_Nil [simp]: "trim_right [] = []"
  by (simp_all add: trim_left.simps trim_right.simps)

lemma trim_space_Nil [simp]: "trim_space [] = []"
  by (simp add: trim_space_def)

text \<open>Text without white-space bytes at its two ends is unchanged.\<close>

definition edge_bytes :: "char set" where
  "edge_bytes = set (concat space_encodings)"

lemma trim_left_id:
  assumes "hd s \<notin> edge_bytes" shows "trim_left s = s"
proof (cases s)
  case Nil
  then show ?thesis by simp
next
  case (Cons c cs)
  have "find (\<lambda>p. prefix p s) space_encodings = None"
  proof -
    have "\<not> prefix p s" if p: "p \<in> set space_encodings" for p
    proof
      assume "prefix p s"
      with p Cons obtain p' where "p = c # p'"
        by (auto simp: prefix_Cons dest: space_encodings_ne)
      with p have "c \<in> edge_bytes" by (force simp: edge_bytes_def)
      with assms Cons show False by simp
    qed
    then show ?thesis by (auto simp: find_None_iff)
  qed
  then show ?thesis by (subst trim_left.simps) simp
qed

lemma trim_right_id:
  assumes "last s \<notin> edge_bytes" shows "trim_right s = s"
proof (cases s rule: rev_cases)
  case Nil
  then show ?thesis by simp
next
  case (snoc cs c)
  have "find (\<lambda>p. suffix p s) space_encodings = None"
  proof -
    have "\<not> suffix p s" if p: "p \<in> set space_encodings" for p
    proof
      assume "suffix p s"
      with p snoc obtain p' where "p = p' @ [c]"
        by (cases p rule: rev_cases) (auto dest: space_encodings_ne)
      with p have "c \<in> edge_bytes" by (force simp: edge_bytes_def)
      with assms snoc show False by simp
    qed
    then show ?thesis by (auto simp: find_None_iff)
  qed
  then show ?thesis by (subst trim_right.simps) simp
qed

lemma trim_space_id: "hd s \<notin> edge_bytes \<Longrightarrow> last s \<notin> edge_bytes \<Longrightarrow> trim_space s = s"
  by (simp add: trim_space_def trim_left_id trim_right_id)

lemma trim_space_all: "\<forall>c\<in>set s. c \<notin> edge_bytes \<Longrightarrow> trim_space s = s"
  by (cases "s = []") (auto intro!: trim_space_id)

lemma edge_byte_code: "c \<in> edge_bytes \<longleftrightarrow> c \<in> set (concat space_encodings)"
  by (simp add: edge_bytes_def)

lemma ascii_printable_not_edge:
  "32 < byte_of c \<Longrightarrow> byte_of c < 128 \<Longrightarrow> c \<notin> edge_bytes"
  by (auto simp: edge_bytes_def space_encodings_def)

section \<open>Decimal numbers\<close>

definition digit_char :: "nat \<Rightarrow> char" where
  "digit_char d = char_of (48 + d)"

definition digit_val :: "char \<Rightarrow> nat" where
  "digit_val c = byte_of c - 48"

fun fmt_nat :: "nat \<Rightarrow> string" where
  "fmt_nat n = (if n < 10 then [digit_char n] else fmt_nat (n div 10) @ [digit_char (n mod 10)])"

declare fmt_nat.simps [simp del]

text \<open>\<open>strconv.FormatInt(n, 10)\<close>.\<close>

definition fmt_int :: "int \<Rightarrow> string" where
  "fmt_int n = (if n < 0 then CHR ''-'' # fmt_nat (nat (- n)) else fmt_nat (nat n))"

fun parse_digits :: "nat \<Rightarrow> string \<Rightarrow> nat option" where
  "parse_digits acc [] = Some acc"
| "parse_digits acc (c # cs) =
     (if is_digit c then parse_digits (acc * 10 + digit_val c) cs else None)"

text \<open>\<open>strconv.ParseInt(s, 10, 64)\<close>, with \<open>None\<close> for both of its errors (syntax and range).\<close>

definition parse_int64 :: "string \<Rightarrow> int option" where
  "parse_int64 s =
     (case s of
        [] \<Rightarrow> None
      | c # cs \<Rightarrow>
          (let neg = (c = CHR ''-'');
               ds = (if c = CHR ''-'' \<or> c = CHR ''+'' then cs else s)
           in if ds = [] then None
              else case parse_digits 0 ds of
                None \<Rightarrow> None
              | Some n \<Rightarrow>
                  (let v = (if neg then - int n else int n)
                   in if is_int64 v then Some v else None)))"

lemma is_digit_digit_char [simp]: "d < 10 \<Longrightarrow> is_digit (digit_char d)"
  by (simp add: is_digit_def digit_char_def)

lemma digit_val_digit_char [simp]: "d < 10 \<Longrightarrow> digit_val (digit_char d) = d"
  by (simp add: digit_val_def digit_char_def)

lemma digits_fmt_nat: "c \<in> set (fmt_nat n) \<Longrightarrow> is_digit c"
proof (induction n rule: fmt_nat.induct)
  case (1 n)
  then show ?case
    by (subst (asm) (2) fmt_nat.simps) (auto split: if_splits)
qed

lemma fmt_nat_ne [simp]: "fmt_nat n \<noteq> []"
  by (subst fmt_nat.simps) simp

lemma parse_digits_append:
  "parse_digits acc (xs @ ys) = Option.bind (parse_digits acc xs) (\<lambda>a. parse_digits a ys)"
  by (induction xs arbitrary: acc) auto

lemma parse_digits_fmt_nat: "parse_digits 0 (fmt_nat n) = Some n"
proof (induction n rule: fmt_nat.induct)
  case (1 n)
  show ?case
  proof (cases "n < 10")
    case True
    then show ?thesis by (simp add: fmt_nat.simps [of n])
  next
    case False
    with 1 show ?thesis by (simp add: fmt_nat.simps [of n] parse_digits_append)
  qed
qed

lemma is_digit_not_sign: "is_digit c \<Longrightarrow> c \<noteq> CHR ''-'' \<and> c \<noteq> CHR ''+''"
  by (auto simp: is_digit_def)

lemma hd_fmt_nat: "is_digit (hd (fmt_nat n))"
  by (intro digits_fmt_nat [of _ n] hd_in_set) simp

lemma parse_fmt_int: "is_int64 n \<Longrightarrow> parse_int64 (fmt_int n) = Some n"
proof (cases "n < 0")
  case True
  assume "is_int64 n"
  with True show ?thesis
    by (simp add: parse_int64_def fmt_int_def parse_digits_fmt_nat)
next
  case False
  assume r: "is_int64 n"
  obtain c cs where f: "fmt_nat (nat n) = c # cs"
    by (meson fmt_nat_ne neq_Nil_conv)
  then have "is_digit c" using hd_fmt_nat [of "nat n"] by simp
  then have s: "c \<noteq> CHR ''-'' \<and> c \<noteq> CHR ''+''" by (rule is_digit_not_sign)
  have "parse_digits 0 (c # cs) = Some (nat n)"
    using parse_digits_fmt_nat [of "nat n"] f by simp
  with False r f s show ?thesis
    by (simp add: parse_int64_def fmt_int_def Let_def del: parse_digits.simps)
qed

lemma parse_int64_range: "parse_int64 s = Some n \<Longrightarrow> is_int64 n"
  by (auto simp: parse_int64_def Let_def split: list.splits if_splits option.splits)

lemma digit_printable: "is_digit c \<Longrightarrow> 32 < byte_of c \<and> byte_of c < 128"
  by (simp add: is_digit_def)

lemma fmt_int_chars: "c \<in> set (fmt_int n) \<Longrightarrow> is_digit c \<or> c = CHR ''-''"
  by (auto simp: fmt_int_def dest: digits_fmt_nat split: if_splits)

lemma fmt_int_nonneg_chars: "0 \<le> n \<Longrightarrow> c \<in> set (fmt_int n) \<Longrightarrow> is_digit c"
  by (auto simp: fmt_int_def dest: digits_fmt_nat)

lemma fmt_int_ne [simp]: "fmt_int n \<noteq> []"
  by (simp add: fmt_int_def)

lemma fmt_int_printable: "c \<in> set (fmt_int n) \<Longrightarrow> 32 < byte_of c \<and> byte_of c < 128"
  by (auto dest!: fmt_int_chars simp: is_digit_def)

lemma trim_space_fmt_int [simp]: "trim_space (fmt_int n) = fmt_int n"
  using fmt_int_printable ascii_printable_not_edge by (blast intro: trim_space_all)

end
