(* ===== verification/Failure_Codec.thy ===== *)
theory Failure_Codec
  imports Go_Text
begin

text \<open>
  \<open>go/rec/rec.go\<close>: the bytes of a failure payload. The writer emits one spelling of a failure; the
  reader walks the bytes once, refusing with a word and the offset it stopped at. The reader's
  state is its position, the bytes from that position on (\<open>buf[pos:]\<close>) and the nesting depth.

  The lemmas show that reading back what was written gives the same failure, and exactly for
  which failures that is so.
\<close>

section \<open>The writer\<close>

record failure =
  f_error :: string
  f_permanent :: bool
  f_cause :: string

definition quote :: char where "quote = CHR 0x22"
definition bslash :: char where "bslash = CHR 0x5C"
definition newline :: char where "newline = CHR 0x0A"

definition hex_digits :: string where "hex_digits = ''0123456789abcdef''"

definition esc_byte :: "char \<Rightarrow> string" where
  "esc_byte c =
     (if c = quote then [bslash, quote]
      else if c = bslash then [bslash, bslash]
      else if c = CHR 0x08 then [bslash, CHR ''b'']
      else if c = CHR 0x0C then [bslash, CHR ''f'']
      else if c = newline then [bslash, CHR ''n'']
      else if c = CHR 0x0D then [bslash, CHR ''r'']
      else if c = CHR 0x09 then [bslash, CHR ''t'']
      else if byte_of c < 32 then
        [bslash, CHR ''u'', CHR ''0'', CHR ''0'',
         hex_digits ! (byte_of c div 16), hex_digits ! (byte_of c mod 16)]
      else [c])"

definition esc :: "string \<Rightarrow> string \<Rightarrow> string" where
  "esc out s = out @ quote # concat (map esc_byte s) @ [quote]"

text \<open>\<open>pad\<close> counts to \<open>depth*0\<close> in the source: the indentation it writes is empty at every depth.\<close>

definition pad :: "string \<Rightarrow> nat \<Rightarrow> string" where
  "pad out depth = out @ replicate (depth * 0) (CHR '' '')"

definition enc_failure :: "string \<Rightarrow> failure \<Rightarrow> nat \<Rightarrow> string" where
  "enc_failure out0 v depth =
     (let out = out0 @ [CHR ''{'', newline];
          out = esc (pad out (depth + 1)) ''error'' @ '': '';
          out = esc out (f_error v);
          out = (if f_permanent v
                 then esc (pad (out @ [CHR '','', newline]) (depth + 1)) ''permanent'' @ '': '' @
                      (if f_permanent v then ''true'' else ''false'')
                 else out);
          out = (if f_cause v \<noteq> []
                 then esc (esc (pad (out @ [CHR '','', newline]) (depth + 1)) ''cause'' @ '': '')
                        (f_cause v)
                 else out);
          out = pad (out @ [newline]) depth
      in out @ [CHR ''}''])"

definition encode_failure :: "failure \<Rightarrow> string" where
  "encode_failure v = enc_failure [] v 0 @ [newline]"

section \<open>The reader\<close>

datatype refusal_word =
    malformed | bad_string | number_spelling | wrong_type | depth_exceeded
  | duplicate_key | duplicate_field | unknown_field | missing_field | trailing_bytes

datatype refusal = Refusal refusal_word nat

record reader =
  r_pos :: nat
  r_rest :: string
  r_depth :: nat

definition refuse :: "reader \<Rightarrow> refusal_word \<Rightarrow> refusal + 'a" where
  "refuse r w = Inl (Refusal w (r_pos r))"

definition at_byte :: "reader \<Rightarrow> char" where
  "at_byte r = (case r_rest r of [] \<Rightarrow> CHR 0x00 | c # _ \<Rightarrow> c)"

text \<open>\<open>r.pos += n\<close>.\<close>

definition advance :: "nat \<Rightarrow> reader \<Rightarrow> reader" where
  "advance n r = r\<lparr>r_pos := r_pos r + n, r_rest := drop n (r_rest r)\<rparr>"

definition is_ws :: "char \<Rightarrow> bool" where
  "is_ws c \<longleftrightarrow> c = CHR '' '' \<or> c = CHR 0x09 \<or> c = newline \<or> c = CHR 0x0D"

definition skip_ws :: "reader \<Rightarrow> reader" where
  "skip_ws r = advance (length (takeWhile is_ws (r_rest r))) r"

definition depth_limit :: nat where "depth_limit = 64"

definition enter :: "reader \<Rightarrow> refusal + reader" where
  "enter r = (let r = r\<lparr>r_depth := r_depth r + 1\<rparr>
              in if depth_limit < r_depth r then refuse r depth_exceeded else Inr r)"

definition hex_val :: "char \<Rightarrow> nat option" where
  "hex_val c =
     (let b = byte_of c in
      if 48 \<le> b \<and> b \<le> 57 then Some (b - 48)
      else if 97 \<le> b \<and> b \<le> 102 then Some (b - 97 + 10)
      else if 65 \<le> b \<and> b \<le> 70 then Some (b - 65 + 10)
      else None)"

fun hex_fold :: "nat \<Rightarrow> string \<Rightarrow> nat option" where
  "hex_fold u [] = Some u"
| "hex_fold u (c # cs) = (case hex_val c of None \<Rightarrow> None | Some d \<Rightarrow> hex_fold (u * 16 + d) cs)"

definition hex4 :: "reader \<Rightarrow> refusal + (nat \<times> reader)" where
  "hex4 r =
     (if length (r_rest r) < 4 then refuse r bad_string
      else case hex_fold 0 (take 4 (r_rest r)) of
        None \<Rightarrow> refuse r bad_string
      | Some u \<Rightarrow> Inr (u, advance 4 r))"

definition append_rune :: "string \<Rightarrow> nat \<Rightarrow> string" where
  "append_rune out cp =
     (if cp < 128 then out @ [char_of cp]
      else if cp < 2048 then out @ [char_of (192 + cp div 64), char_of (128 + cp mod 64)]
      else if cp < 65536 then
        out @ [char_of (224 + cp div 4096), char_of (128 + cp div 64 mod 64), char_of (128 + cp mod 64)]
      else out @ [char_of (240 + cp div 262144), char_of (128 + cp div 4096 mod 64),
                  char_of (128 + cp div 64 mod 64), char_of (128 + cp mod 64)])"

text \<open>The bytes after a lead byte, folded into the code point; \<open>None\<close> where one does not continue it.\<close>

fun utf8_tail :: "nat \<Rightarrow> string \<Rightarrow> nat option" where
  "utf8_tail cp [] = Some cp"
| "utf8_tail cp (c # cs) =
     (if byte_of c div 64 = 2 then utf8_tail (cp * 64 + byte_of c mod 64) cs else None)"

definition utf8_lead :: "nat \<Rightarrow> (nat \<times> nat \<times> nat) option" where
  "utf8_lead b =
     (if b div 32 = 6 then Some (2, b mod 32, 128)
      else if b div 16 = 14 then Some (3, b mod 16, 2048)
      else if b div 8 = 30 then Some (4, b mod 8, 65536)
      else None)"

function valid_utf8 :: "string \<Rightarrow> bool" where
  "valid_utf8 s =
     (case s of
        [] \<Rightarrow> True
      | c # cs \<Rightarrow>
          (if byte_of c < 128 then valid_utf8 cs
           else case utf8_lead (byte_of c) of
             None \<Rightarrow> False
           | Some (n, cp0, lowest) \<Rightarrow>
               length cs \<ge> n - 1 \<and>
               (case utf8_tail cp0 (take (n - 1) cs) of
                  None \<Rightarrow> False
                | Some cp \<Rightarrow>
                    lowest \<le> cp \<and> cp \<le> 1114111 \<and> \<not> (55296 \<le> cp \<and> cp \<le> 57343) \<and>
                    valid_utf8 (drop (n - 1) cs))))"
  by pat_completeness auto
termination
  by (relation "measure length") auto

declare valid_utf8.simps [simp del]

lemma valid_utf8_Nil [simp]: "valid_utf8 []"
  by (simp add: valid_utf8.simps)

definition read_escape :: "string \<Rightarrow> reader \<Rightarrow> refusal + (string \<times> reader)" where
  "read_escape out r0 =
     (let r = advance 1 r0 in
      case r_rest r of
        [] \<Rightarrow> refuse r malformed
      | c # _ \<Rightarrow>
          (let r = advance 1 r in
           if c = quote \<or> c = bslash \<or> c = CHR ''/'' then Inr (out @ [c], r)
           else if c = CHR ''b'' then Inr (out @ [CHR 0x08], r)
           else if c = CHR ''f'' then Inr (out @ [CHR 0x0C], r)
           else if c = CHR ''n'' then Inr (out @ [newline], r)
           else if c = CHR ''r'' then Inr (out @ [CHR 0x0D], r)
           else if c = CHR ''t'' then Inr (out @ [CHR 0x09], r)
           else if c = CHR ''u'' then
             (case hex4 r of
                Inl e \<Rightarrow> Inl e
              | Inr (u, r) \<Rightarrow>
                  if 56320 \<le> u \<and> u \<le> 57343 then refuse r bad_string
                  else if 55296 \<le> u \<and> u \<le> 56319 then
                    (if length (r_rest r) < 2 \<or> take 2 (r_rest r) \<noteq> [bslash, CHR ''u'']
                     then refuse r bad_string
                     else case hex4 (advance 2 r) of
                         Inl e \<Rightarrow> Inl e
                       | Inr (lo, r) \<Rightarrow>
                           if lo < 56320 \<or> 57343 < lo then refuse r bad_string
                           else Inr (append_rune out (65536 + (u - 55296) * 1024 + (lo - 56320)), r))
                  else Inr (append_rune out u, r))
           else refuse r bad_string))"

lemma length_advance [simp]: "length (r_rest (advance n r)) = length (r_rest r) - n"
  by (simp add: advance_def)

lemma hex4_rest: "hex4 r = Inr (u, r') \<Longrightarrow> r' = advance 4 r \<and> 4 \<le> length (r_rest r)"
  by (auto simp: hex4_def refuse_def split: if_splits option.splits)

lemma read_escape_shorter:
  assumes "read_escape out r = Inr (out', r')"
  shows "length (r_rest r') < length (r_rest r)"
proof (cases "r_rest (advance 1 r)")
  case Nil
  with assms show ?thesis by (simp add: read_escape_def refuse_def)
next
  case (Cons c cs)
  have "length (r_rest (advance 1 r)) = Suc (length cs)" using Cons by simp
  then have "Suc (Suc (length cs)) = length (r_rest r)" by simp
  with assms Cons show ?thesis
    by (auto simp: read_escape_def refuse_def Let_def split: if_splits sum.splits prod.splits
        dest!: hex4_rest)
qed

text \<open>The loop of \<open>str\<close>, entered behind the opening quote.\<close>

function read_str_loop :: "string \<Rightarrow> reader \<Rightarrow> refusal + (string \<times> reader)" where
  "read_str_loop out r =
     (case r_rest r of
        [] \<Rightarrow> refuse r malformed
      | c # _ \<Rightarrow>
          (if c = quote then
             (if valid_utf8 out then Inr (out, advance 1 r) else refuse (advance 1 r) bad_string)
           else if byte_of c < 32 then refuse r bad_string
           else if c = bslash then
             (case read_escape out r of
                Inl e \<Rightarrow> Inl e
              | Inr (out', r') \<Rightarrow> read_str_loop out' r')
           else read_str_loop (out @ [c]) (advance 1 r)))"
  by pat_completeness auto
termination
  by (relation "measure (\<lambda>(out, r). length (r_rest r))") (auto dest: read_escape_shorter)

declare read_str_loop.simps [simp del]

definition read_str :: "reader \<Rightarrow> refusal + (string \<times> reader)" where
  "read_str r =
     (if at_byte r \<noteq> quote then refuse r wrong_type else read_str_loop [] (advance 1 r))"

definition read_literal :: "string \<Rightarrow> reader \<Rightarrow> refusal + reader" where
  "read_literal w r =
     (if prefix w (r_rest r) then Inr (advance (length w) r) else refuse r malformed)"

definition read_boolean :: "reader \<Rightarrow> refusal + (bool \<times> reader)" where
  "read_boolean r =
     (if at_byte r = CHR ''t'' then map_sum id (Pair True) (read_literal ''true'' r)
      else if at_byte r = CHR ''f'' then map_sum id (Pair False) (read_literal ''false'' r)
      else refuse r wrong_type)"

lemma skip_ws_le: "length (r_rest (skip_ws r)) \<le> length (r_rest r)"
  by (simp add: skip_ws_def)

lemma read_str_loop_shorter:
  "read_str_loop out r = Inr (s, r') \<Longrightarrow> length (r_rest r') < length (r_rest r)"
proof (induction out r rule: read_str_loop.induct)
  case (1 out r)
  show ?case
  proof (cases "r_rest r")
    case Nil
    with "1.prems" show ?thesis by (simp add: read_str_loop.simps [of out r] refuse_def)
  next
    case (Cons c cs)
    consider "c = quote" | "c \<noteq> quote" "byte_of c < 32"
      | "c \<noteq> quote" "\<not> byte_of c < 32" "c = bslash"
      | "c \<noteq> quote" "\<not> byte_of c < 32" "c \<noteq> bslash" by blast
    then show ?thesis
    proof cases
      case 3
      with "1.prems" Cons obtain o2 r2 where e: "read_escape out r = Inr (o2, r2)"
        and l: "read_str_loop o2 r2 = Inr (s, r')"
        by (auto simp: read_str_loop.simps [of out r] split: sum.splits)
      from "1.IH"(1) [OF Cons _ _ _ e refl l] 3 read_escape_shorter [OF e] show ?thesis by simp
    next
      case 4
      with "1.prems" Cons have "read_str_loop (out @ [c]) (advance 1 r) = Inr (s, r')"
        by (simp add: read_str_loop.simps [of out r])
      with "1.IH"(2) [OF Cons] 4 Cons show ?thesis by simp
    qed (use "1.prems" Cons in \<open>auto simp: read_str_loop.simps [of out r] refuse_def split: if_splits\<close>)
  qed
qed

lemma read_str_shorter: "read_str r = Inr (s, r') \<Longrightarrow> length (r_rest r') < length (r_rest r)"
  by (auto simp: read_str_def refuse_def split: if_splits dest: read_str_loop_shorter)

lemma read_boolean_le: "read_boolean r = Inr (b, r') \<Longrightarrow> length (r_rest r') \<le> length (r_rest r)"
  by (auto simp: read_boolean_def read_literal_def refuse_def split: if_splits)

text \<open>
  One turn of the field loop of \<open>decodeFailure\<close>: the key, the colon and the value, with the names
  already read in \<open>seen\<close> (the three bits of the source).
\<close>

definition read_field ::
  "failure \<Rightarrow> string list \<Rightarrow> reader \<Rightarrow> refusal + (failure \<times> string list \<times> reader)" where
  "read_field v seen r0 =
     (let r = skip_ws r0 in
      if at_byte r \<noteq> quote then refuse r malformed
      else bind_result (read_str r) (\<lambda>(key, r).
        let r = skip_ws r in
        if at_byte r \<noteq> CHR '':'' then refuse r malformed
        else let r = skip_ws (advance 1 r) in
          if key = ''error'' then
            (if ''error'' \<in> set seen then refuse r duplicate_field
             else bind_result (read_str r) (\<lambda>(x, r). Inr (v\<lparr>f_error := x\<rparr>, ''error'' # seen, r)))
          else if key = ''permanent'' then
            (if ''permanent'' \<in> set seen then refuse r duplicate_field
             else bind_result (read_boolean r)
                    (\<lambda>(x, r). Inr (v\<lparr>f_permanent := x\<rparr>, ''permanent'' # seen, r)))
          else if key = ''cause'' then
            (if ''cause'' \<in> set seen then refuse r duplicate_field
             else bind_result (read_str r) (\<lambda>(x, r). Inr (v\<lparr>f_cause := x\<rparr>, ''cause'' # seen, r)))
          else refuse r unknown_field))"

lemma read_field_shorter:
  assumes "read_field v seen r = Inr (v', seen', r')"
  shows "length (r_rest r') < length (r_rest r)"
proof -
  from assms obtain key r1 where k: "read_str (skip_ws r) = Inr (key, r1)"
    by (auto simp: read_field_def refuse_def Let_def bind_result_Inr_iff split: if_splits)
  define r2 where "r2 = skip_ws (advance 1 (skip_ws r1))"
  have "length (r_rest r2) \<le> length (r_rest r1)"
    using skip_ws_le [of "advance 1 (skip_ws r1)"] skip_ws_le [of r1] by (simp add: r2_def)
  moreover from assms k have "length (r_rest r') \<le> length (r_rest r2)"
    by (auto simp: read_field_def refuse_def Let_def bind_result_Inr_iff r2_def split: if_splits
        dest!: read_str_shorter read_boolean_le)
  ultimately show ?thesis using read_str_shorter [OF k] skip_ws_le [of r] by linarith
qed

function read_fields ::
  "failure \<Rightarrow> string list \<Rightarrow> reader \<Rightarrow> refusal + (failure \<times> string list \<times> reader)" where
  "read_fields v seen r =
     (case read_field v seen r of
        Inl e \<Rightarrow> Inl e
      | Inr (v', seen', r') \<Rightarrow>
          (let r' = skip_ws r' in
           if at_byte r' \<noteq> CHR '','' then Inr (v', seen', r')
           else read_fields v' seen' (advance 1 r')))"
  by pat_completeness auto
termination
proof (relation "measure (\<lambda>(v, seen, r). length (r_rest r))", goal_cases)
  case 1
  then show ?case by simp
next
  case (2 v seen r p v' q seen' r' r'')
  then show ?case using read_field_shorter [of v seen r] skip_ws_le [of r']
    by (simp del: length_advance add: advance_def) (metis diff_le_self le_less_trans)
qed

declare read_fields.simps [simp del]

definition empty_failure :: failure where
  "empty_failure = \<lparr>f_error = [], f_permanent = False, f_cause = []\<rparr>"

definition read_failure :: "reader \<Rightarrow> refusal + (failure \<times> reader)" where
  "read_failure r0 =
     (if at_byte r0 \<noteq> CHR ''{'' then refuse r0 wrong_type
      else bind_result (enter r0) (\<lambda>r.
        let r = skip_ws (advance 1 r) in
        bind_result
          (if at_byte r \<noteq> CHR ''}'' then read_fields empty_failure [] r
           else Inr (empty_failure, [], r))
          (\<lambda>(v, seen, r).
             if at_byte r \<noteq> CHR ''}'' then refuse r malformed
             else let r = (advance 1 r)\<lparr>r_depth := r_depth r - 1\<rparr> in
               if ''error'' \<in> set seen then Inr (v, r) else refuse r missing_field)))"

definition decode_failure :: "string \<Rightarrow> refusal + failure" where
  "decode_failure bytes =
     bind_result (read_failure (skip_ws \<lparr>r_pos = 0, r_rest = bytes, r_depth = 0\<rparr>)) (\<lambda>(v, r).
       let r = skip_ws r in
       if r_rest r \<noteq> [] then refuse r trailing_bytes else Inr v)"

section \<open>Reading back what was written\<close>

lemma advance_simps [simp]:
  "r_pos (advance n r) = r_pos r + n"
  "r_rest (advance n r) = drop n (r_rest r)"
  "r_depth (advance n r) = r_depth r"
  by (simp_all add: advance_def)

lemma advance_advance [simp]: "advance m (advance n r) = advance (n + m) r"
  by (simp add: advance_def add.commute)

lemma byte_char_eq_iff: "byte_of c = byte_of d \<longleftrightarrow> c = d"
  by simp

lemma control_escape_hex:
  "\<forall>n\<in>set [0..<32].
     hex_fold 0 [CHR ''0'', CHR ''0'', hex_digits ! (n div 16), hex_digits ! (n mod 16)] = Some n"
  by code_simp

lemma hex4_control:
  assumes "byte_of c < 32"
    and "r_rest r = [CHR ''0'', CHR ''0'', hex_digits ! (byte_of c div 16),
           hex_digits ! (byte_of c mod 16)] @ tl'"
  shows "hex4 r = Inr (byte_of c, advance 4 r)"
  using control_escape_hex assms by (simp add: hex4_def)

text \<open>One byte of the text, whatever its spelling, is read back as itself.\<close>

lemma read_escape_plain:
  assumes "r_rest r = bslash # e # rest" "(e, c) \<in> set [(quote, quote), (bslash, bslash),
      (CHR ''b'', CHR 0x08), (CHR ''f'', CHR 0x0C), (CHR ''n'', newline), (CHR ''r'', CHR 0x0D),
      (CHR ''t'', CHR 0x09)]"
  shows "read_escape out r = Inr (out @ [c], advance 2 r)"
  using assms by (auto simp: read_escape_def quote_def bslash_def newline_def Let_def)

lemma read_escape_control:
  assumes "byte_of c < 32"
    and "r_rest r = [bslash, CHR ''u'', CHR ''0'', CHR ''0'', hex_digits ! (byte_of c div 16),
           hex_digits ! (byte_of c mod 16)] @ tl'"
  shows "read_escape out r = Inr (out @ [c], advance 6 r)"
  using assms hex4_control [OF assms(1), of "advance 2 r" tl']
  by (simp add: read_escape_def Let_def quote_def bslash_def append_rune_def numeral_2_eq_2 [symmetric])

lemma esc_byte_cases:
  "(\<exists>e. esc_byte c = [bslash, e] \<and> (e, c) \<in> set [(quote, quote), (bslash, bslash),
      (CHR ''b'', CHR 0x08), (CHR ''f'', CHR 0x0C), (CHR ''n'', newline), (CHR ''r'', CHR 0x0D),
      (CHR ''t'', CHR 0x09)]) \<or>
   byte_of c < 32 \<and> esc_byte c = [bslash, CHR ''u'', CHR ''0'', CHR ''0'',
         hex_digits ! (byte_of c div 16), hex_digits ! (byte_of c mod 16)] \<or>
   \<not> byte_of c < 32 \<and> c \<noteq> quote \<and> c \<noteq> bslash \<and> esc_byte c = [c]"
  by (simp add: esc_byte_def)

lemma read_str_loop_byte:
  assumes "r_rest r = esc_byte c @ rest"
  shows "read_str_loop out r = read_str_loop (out @ [c]) (advance (length (esc_byte c)) r)"
proof -
  have not_quote: "bslash \<noteq> quote" "\<not> byte_of bslash < 32" by (simp_all add: bslash_def quote_def)
  consider (short) e where "esc_byte c = [bslash, e]" "(e, c) \<in> set [(quote, quote), (bslash, bslash),
      (CHR ''b'', CHR 0x08), (CHR ''f'', CHR 0x0C), (CHR ''n'', newline), (CHR ''r'', CHR 0x0D),
      (CHR ''t'', CHR 0x09)]"
    | (control) "byte_of c < 32" "esc_byte c = [bslash, CHR ''u'', CHR ''0'', CHR ''0'',
         hex_digits ! (byte_of c div 16), hex_digits ! (byte_of c mod 16)]"
    | (self) "\<not> byte_of c < 32" "c \<noteq> quote" "c \<noteq> bslash" "esc_byte c = [c]"
    using esc_byte_cases [of c] by blast
  then show ?thesis
  proof cases
    case short
    with assms read_escape_plain [of r e rest c out] not_quote show ?thesis
      by (subst read_str_loop.simps) (simp add: numeral_2_eq_2)
  next
    case control
    have len: "length (esc_byte c) = 6" using control(2) by simp
    obtain tl' where rest: "r_rest r = bslash # tl'" using assms control(2) by simp
    have "read_escape out r = Inr (out @ [c], advance 6 r)"
      using assms control read_escape_control [of c r rest out] by simp
    then show ?thesis unfolding len
      by (subst read_str_loop.simps) (simp add: rest not_quote)
  next
    case self
    with assms show ?thesis by (subst read_str_loop.simps) simp
  qed
qed

lemma read_str_loop_esc:
  "r_rest r = concat (map esc_byte s) @ quote # rest \<Longrightarrow>
     read_str_loop out r =
       (let r' = advance (length (concat (map esc_byte s)) + 1) r
        in if valid_utf8 (out @ s) then Inr (out @ s, r') else refuse r' bad_string)"
proof (induction s arbitrary: out r)
  case Nil
  then show ?case by (subst read_str_loop.simps) (simp add: Let_def)
next
  case (Cons c s)
  then have "read_str_loop out r = read_str_loop (out @ [c]) (advance (length (esc_byte c)) r)"
    by (intro read_str_loop_byte) simp
  with Cons.IH [of "advance (length (esc_byte c)) r" "out @ [c]"] Cons.prems show ?case
    by (simp add: Let_def add.assoc)
qed

definition quoted :: "string \<Rightarrow> string" where
  "quoted s = quote # concat (map esc_byte s) @ [quote]"

lemma esc_quoted: "esc out s = out @ quoted s"
  by (simp add: esc_def quoted_def)

lemma read_str_quoted:
  assumes "r_rest r = quoted s @ rest"
  shows "read_str r =
    (let r' = advance (length (quoted s)) r
     in if valid_utf8 s then Inr (s, r') else refuse r' bad_string)"
  using assms read_str_loop_esc [of "advance 1 r" s rest "[]"]
  by (simp add: read_str_def at_byte_def quoted_def Let_def)

lemma skip_ws_stop: "\<not> is_ws (at_byte r) \<Longrightarrow> skip_ws r = r"
  by (cases "r_rest r") (simp_all add: skip_ws_def at_byte_def advance_def)

lemma skip_ws_one:
  "r_rest r = w # c # rest \<Longrightarrow> is_ws w \<Longrightarrow> \<not> is_ws c \<Longrightarrow> skip_ws r = advance 1 r"
  by (simp add: skip_ws_def)

lemma structural_bytes [simp]:
  "\<not> is_ws quote" "is_ws newline" "is_ws (CHR '' '')" "\<not> is_ws (CHR ''{'')" "\<not> is_ws (CHR ''}'')"
  "\<not> is_ws (CHR '':'')" "\<not> is_ws (CHR '','')" "\<not> is_ws (CHR ''t'')"
  "quote \<noteq> CHR ''}''" "quote \<noteq> CHR '',''" "newline \<noteq> CHR '',''"
  by (simp_all add: is_ws_def quote_def newline_def)

lemma quoted_Cons: "quoted s = quote # concat (map esc_byte s) @ [quote]"
  by (simp add: quoted_def)

lemma quoted_names:
  "quoted ''error'' = quote # ''error'' @ [quote]"
  "quoted ''permanent'' = quote # ''permanent'' @ [quote]"
  "quoted ''cause'' = quote # ''cause'' @ [quote]"
  by (simp_all add: quoted_def esc_byte_def quote_def bslash_def newline_def)

lemma valid_utf8_ascii: "is_ascii s \<Longrightarrow> valid_utf8 s"
  by (induction s) (auto simp: is_ascii_def valid_utf8.simps)

lemma valid_names [simp]:
  "valid_utf8 ''error''" "valid_utf8 ''permanent''" "valid_utf8 ''cause''"
  by (simp_all add: valid_utf8_ascii is_ascii_def)

text \<open>A field whose key is \<open>key\<close>: the reader stands on the value when the name has been dispatched.\<close>

lemma read_key:
  assumes "r_rest r = quoted key @ '': '' @ c # rest" "valid_utf8 key" "\<not> is_ws c"
  shows "read_str r = Inr (key, advance (length (quoted key)) r)"
    and "skip_ws (advance (length (quoted key)) r) = advance (length (quoted key)) r"
    and "skip_ws (advance (Suc (length (quoted key))) r) = advance (length (quoted key) + 2) r"
  using assms read_str_quoted [of r key "'': '' @ c # rest"]
    skip_ws_one [of "advance (Suc (length (quoted key))) r" "CHR '' ''" c rest]
  by (simp_all add: skip_ws_stop at_byte_def Let_def)

lemma read_field_error:
  assumes "r_rest (skip_ws r) = quoted ''error'' @ '': '' @ quoted x @ rest" "''error'' \<notin> set seen"
  shows "read_field v seen r =
    (let r' = advance (length (quoted ''error'') + 2 + length (quoted x)) (skip_ws r)
     in if valid_utf8 x then Inr (v\<lparr>f_error := x\<rparr>, ''error'' # seen, r') else refuse r' bad_string)"
proof -
  let ?r = "skip_ws r" and ?n = "length (quoted ''error'')"
  note k = read_key [of ?r "''error''" quote "concat (map esc_byte x) @ quote # rest"]
  have "read_str (advance (?n + 2) ?r) =
     (let r' = advance (length (quoted x)) (advance (?n + 2) ?r)
      in if valid_utf8 x then Inr (x, r') else refuse r' bad_string)"
    by (rule read_str_quoted [of _ x rest]) (simp add: assms)
  then show ?thesis using assms k
    by (simp add: read_field_def at_byte_def quoted_Cons [of x] quoted_names(1) Let_def refuse_def
        add.assoc)
qed

lemma read_field_cause:
  assumes "r_rest (skip_ws r) = quoted ''cause'' @ '': '' @ quoted x @ rest" "''cause'' \<notin> set seen"
  shows "read_field v seen r =
    (let r' = advance (length (quoted ''cause'') + 2 + length (quoted x)) (skip_ws r)
     in if valid_utf8 x then Inr (v\<lparr>f_cause := x\<rparr>, ''cause'' # seen, r') else refuse r' bad_string)"
proof -
  let ?r = "skip_ws r" and ?n = "length (quoted ''cause'')"
  note k = read_key [of ?r "''cause''" quote "concat (map esc_byte x) @ quote # rest"]
  have "read_str (advance (?n + 2) ?r) =
     (let r' = advance (length (quoted x)) (advance (?n + 2) ?r)
      in if valid_utf8 x then Inr (x, r') else refuse r' bad_string)"
    by (rule read_str_quoted [of _ x rest]) (simp add: assms)
  then show ?thesis using assms k
    by (simp add: read_field_def at_byte_def quoted_Cons [of x] quoted_names(3) Let_def refuse_def
        add.assoc)
qed

lemma read_field_permanent:
  assumes "r_rest (skip_ws r) = quoted ''permanent'' @ '': '' @ ''true'' @ rest"
    and "''permanent'' \<notin> set seen"
  shows "read_field v seen r =
    Inr (v\<lparr>f_permanent := True\<rparr>, ''permanent'' # seen,
         advance (length (quoted ''permanent'') + 6) (skip_ws r))"
proof -
  let ?r = "skip_ws r" and ?n = "length (quoted ''permanent'')"
  note k = read_key [of ?r "''permanent''" "CHR ''t''" "''rue'' @ rest"]
  have "read_boolean (advance (?n + 2) ?r) = Inr (True, advance 4 (advance (?n + 2) ?r))"
    using assms by (simp add: read_boolean_def read_literal_def at_byte_def)
  then show ?thesis using assms k
    by (simp add: read_field_def at_byte_def quoted_names(2) Let_def)
qed

text \<open>The tail a failure is written with, and the loop over the fields it holds.\<close>

definition cause_tail :: "failure \<Rightarrow> string" where
  "cause_tail v = (if f_cause v \<noteq> []
     then CHR '','' # newline # quoted ''cause'' @ '': '' @ quoted (f_cause v) else []) @
     newline # ''}'' @ [newline]"

definition permanent_tail :: "failure \<Rightarrow> string" where
  "permanent_tail v = (if f_permanent v
     then CHR '','' # newline # quoted ''permanent'' @ '': '' @ ''true'' else []) @ cause_tail v"

lemma encode_failure_shape:
  "encode_failure v =
     CHR ''{'' # newline # quoted ''error'' @ '': '' @ quoted (f_error v) @ permanent_tail v"
  by (simp add: encode_failure_def enc_failure_def esc_quoted pad_def permanent_tail_def
      cause_tail_def Let_def)

definition closes :: "refusal + (failure \<times> string list \<times> reader) \<Rightarrow> failure \<Rightarrow> bool" where
  "closes res v \<longleftrightarrow> (\<exists>seen r. res = Inr (v, seen, r) \<and> ''error'' \<in> set seen \<and>
     r_rest r = ''}'' @ [newline])"

definition bad_text :: "refusal + 'a \<Rightarrow> bool" where
  "bad_text res \<longleftrightarrow> (\<exists>n. res = Inl (Refusal bad_string n))"

text \<open>What the loop does once a field has been read and \<open>r\<close> is behind it.\<close>

definition after_field :: "failure \<Rightarrow> string list \<Rightarrow> reader \<Rightarrow> refusal + (failure \<times> string list \<times> reader)" where
  "after_field v seen r =
     (let r = skip_ws r in if at_byte r \<noteq> CHR '','' then Inr (v, seen, r)
      else read_fields v seen (advance 1 r))"

lemma read_fields_step:
  "read_field v seen r = Inr (v', seen', r') \<Longrightarrow> read_fields v seen r = after_field v' seen' r'"
  "read_field v seen r = Inl e \<Longrightarrow> read_fields v seen r = Inl e"
  by (simp_all add: read_fields.simps [of v seen r] after_field_def)

lemma after_field_end:
  assumes "r_rest r = newline # ''}'' @ [newline]" "''error'' \<in> set seen"
  shows "closes (after_field v seen r) v"
  using assms skip_ws_one [of r newline "CHR ''}''" "[newline]"]
  by (simp add: after_field_def closes_def at_byte_def Let_def)

lemma after_field_comma:
  assumes "r_rest r = CHR '','' # rest"
  shows "after_field v seen r = read_fields v seen (advance 1 r)"
  using assms by (simp add: after_field_def skip_ws_stop at_byte_def Let_def)

lemma after_field_cause:
  assumes "r_rest r = cause_tail w" "''error'' \<in> set seen" "''cause'' \<notin> set seen"
    "f_cause v = []"
  shows "if valid_utf8 (f_cause w) then closes (after_field v seen r) (v\<lparr>f_cause := f_cause w\<rparr>)
    else bad_text (after_field v seen r)"
proof (cases "f_cause w = []")
  case True
  with assms have same: "v\<lparr>f_cause := f_cause w\<rparr> = v" by (cases v) simp
  have "closes (after_field v seen r) v"
    using assms True after_field_end [of r seen v] by (simp add: cause_tail_def)
  then show ?thesis unfolding same using True by simp
next
  case False
  let ?x = "f_cause w" and ?r = "advance 1 r"
  from assms(1) False have rest: "r_rest r = CHR '','' # newline # quoted ''cause'' @ '': '' @ quoted ?x @
      newline # ''}'' @ [newline]"
    by (simp add: cause_tail_def)
  then have "skip_ws ?r = advance 1 ?r"
    by (intro skip_ws_one [of _ newline quote]) (simp_all add: quoted_Cons)
  with rest have sk: "r_rest (skip_ws ?r) = quoted ''cause'' @ '': '' @ quoted ?x @ newline # ''}'' @ [newline]"
    by simp
  note f = read_field_cause [OF sk assms(3), of v]
  let ?r' = "advance (length (quoted ''cause'') + 2 + length (quoted ?x)) (skip_ws ?r)"
  show ?thesis
  proof (cases "valid_utf8 ?x")
    case True
    with f have "read_fields v seen ?r = after_field (v\<lparr>f_cause := ?x\<rparr>) (''cause'' # seen) ?r'"
      by (intro read_fields_step) (simp add: Let_def)
    moreover have "closes (after_field (v\<lparr>f_cause := ?x\<rparr>) (''cause'' # seen) ?r') (v\<lparr>f_cause := ?x\<rparr>)"
      using sk assms by (intro after_field_end) simp_all
    ultimately show ?thesis using after_field_comma [OF rest] True by simp
  next
    case bad: False
    with f have "read_fields v seen ?r = refuse ?r' bad_string"
      by (auto intro!: read_fields_step simp: Let_def refuse_def)
    then show ?thesis using after_field_comma [OF rest] bad by (simp add: bad_text_def refuse_def)
  qed
qed

lemma after_field_permanent:
  assumes "r_rest r = permanent_tail w" "''error'' \<in> set seen" "''cause'' \<notin> set seen"
    "''permanent'' \<notin> set seen" "f_cause v = []" "\<not> f_permanent v"
  shows "if valid_utf8 (f_cause w)
    then closes (after_field v seen r) (v\<lparr>f_permanent := f_permanent w, f_cause := f_cause w\<rparr>)
    else bad_text (after_field v seen r)"
proof (cases "f_permanent w")
  case False
  with assms have same: "v\<lparr>f_permanent := f_permanent w\<rparr> = v" by (cases v) simp
  show ?thesis unfolding same
    using assms False after_field_cause [of r w seen v] by (simp add: permanent_tail_def)
next
  case True
  let ?r = "advance 1 r"
  from assms(1) True have rest: "r_rest r = CHR '','' # newline # quoted ''permanent'' @ '': '' @ ''true'' @ cause_tail w"
    by (simp add: permanent_tail_def)
  then have "skip_ws ?r = advance 1 ?r"
    by (intro skip_ws_one [of _ newline quote]) (simp_all add: quoted_Cons)
  with rest have sk: "r_rest (skip_ws ?r) = quoted ''permanent'' @ '': '' @ ''true'' @ cause_tail w"
    by simp
  let ?r' = "advance (length (quoted ''permanent'') + 6) (skip_ws ?r)"
  have "after_field v seen r = after_field (v\<lparr>f_permanent := True\<rparr>) (''permanent'' # seen) ?r'"
    using after_field_comma [OF rest, of v seen] read_field_permanent [OF sk assms(4), of v]
    by (simp add: read_fields_step)
  moreover have "r_rest ?r' = cause_tail w" using sk by simp
  ultimately show ?thesis
    using after_field_cause [of ?r' w "''permanent'' # seen" "v\<lparr>f_permanent := True\<rparr>"] assms True
    by (cases "valid_utf8 (f_cause w)") simp_all
qed

text \<open>
  The whole payload: it is read back as it was written exactly when the two texts it holds are
  UTF-8, and refused as a bad string otherwise.
\<close>

lemma decode_encode_failure:
  "if valid_utf8 (f_error v) \<and> valid_utf8 (f_cause v) then decode_failure (encode_failure v) = Inr v
   else bad_text (decode_failure (encode_failure v))"
proof -
  let ?r0 = "\<lparr>r_pos = 0, r_rest = encode_failure v, r_depth = 0\<rparr>"
  define r1 where "r1 = skip_ws (advance 1 \<lparr>r_pos = 0, r_rest = encode_failure v, r_depth = 1\<rparr>)"
  have "r1 = advance 2 \<lparr>r_pos = 0, r_rest = encode_failure v, r_depth = 1\<rparr>" unfolding r1_def
    by (subst skip_ws_one [of _ newline quote])
      (simp_all add: encode_failure_shape quoted_Cons numeral_2_eq_2)
  then have rest1: "r_rest r1 = quoted ''error'' @ '': '' @ quoted (f_error v) @ permanent_tail v"
    by (simp add: encode_failure_shape)
  then have a1: "at_byte r1 = quote" by (simp add: at_byte_def quoted_Cons)
  then have s1: "skip_ws r1 = r1" by (intro skip_ws_stop) simp
  define res where "res = read_fields empty_failure [] r1"
  have start: "skip_ws ?r0 = ?r0" "at_byte ?r0 = CHR ''{''"
    by (simp_all add: skip_ws_stop at_byte_def encode_failure_shape)
  have rf: "read_failure ?r0 = bind_result res (\<lambda>(v, seen, r).
       if at_byte r \<noteq> CHR ''}'' then refuse r malformed
       else let r = (advance 1 r)\<lparr>r_depth := r_depth r - 1\<rparr> in
         if ''error'' \<in> set seen then Inr (v, r) else refuse r missing_field)"
    using a1 by (simp add: read_failure_def start enter_def depth_limit_def res_def r1_def [symmetric] Let_def
        del: One_nat_def)
  from rest1 s1 have "r_rest (skip_ws r1) = quoted ''error'' @ '': '' @ quoted (f_error v) @ permanent_tail v" by simp
  note fe = read_field_error [OF this, of "[]" empty_failure, simplified]
  let ?r2 = "advance (length (quoted ''error'') + 2 + length (quoted (f_error v))) r1"
  have rest2: "r_rest ?r2 = permanent_tail v" by (simp add: rest1)
  show ?thesis
  proof (cases "valid_utf8 (f_error v)")
    case False
    with fe have "res = refuse ?r2 bad_string"
      unfolding res_def by (auto intro!: read_fields_step simp: Let_def refuse_def s1)
    with False show ?thesis by (simp add: decode_failure_def start rf bad_text_def refuse_def)
  next
    case True
    let ?v1 = "empty_failure\<lparr>f_error := f_error v\<rparr>"
    from True fe have res: "res = after_field ?v1 [''error''] ?r2"
      unfolding res_def by (intro read_fields_step) (simp add: Let_def s1)
    note ap = after_field_permanent [OF rest2, of "[''error'']" ?v1]
    have same: "?v1\<lparr>f_permanent := f_permanent v, f_cause := f_cause v\<rparr> = v" by (cases v) simp
    show ?thesis
    proof (cases "valid_utf8 (f_cause v)")
      case bad: False
      with ap have "bad_text res" by (simp add: res empty_failure_def)
      with bad show ?thesis by (auto simp: decode_failure_def start rf bad_text_def)
    next
      case good: True
      have "closes res v" using ap good unfolding same res by (simp add: empty_failure_def)
      then obtain seen r where r: "res = Inr (v, seen, r)" "''error'' \<in> set seen"
        "r_rest r = ''}'' @ [newline]" by (auto simp: closes_def)
      have "skip_ws ((advance 1 r)\<lparr>r_depth := r_depth r - 1\<rparr>) = advance 1 ((advance 1 r)\<lparr>r_depth := r_depth r - 1\<rparr>)"
        using r by (simp add: skip_ws_def)
      with r True good show ?thesis
        by (simp add: decode_failure_def start rf at_byte_def Let_def)
    qed
  qed
qed

end
