(* ===== verification/Failures.thy ===== *)
theory Failures
  imports Failure_Codec
begin

text \<open>
  Errors as values (\<open>go/fetcher.go\<close>, and the error types of \<open>go/fetchers.go\<close> and
  \<open>go/credentials.go\<close>): the package's error variables, the wrappers built by \<open>fmt.Errorf\<close> and
  \<open>errors.Join\<close>, and what \<open>errors.Is\<close> and \<open>errors.As\<close> find in them. On top of that, the two endings
  a failed download can have (\<open>Permanent\<close>), the words a failure is filed under (\<open>CauseOf\<close>), and
  the failure payload that carries both across a record.

  The lemmas show which errors are permanent, that wrapping never loses the class, and that a
  failure written and read back has the class it was written with.
\<close>

section \<open>Error values\<close>

text \<open>
  The package's error variables. Those built by \<open>forever\<close> have the type \<open>permanent\<close>;
  \<open>ErrStrandedHere\<close> and \<open>ErrNetworkUnavailable\<close> each wrap another variable.
\<close>

datatype sentinel =
    ErrNoFetcher | ErrDigestMismatch | ErrShortTransfer | ErrRefused | ErrCannotRestart
  | ErrOverrun | ErrOversize | ErrResumedMismatch | ErrEscapesRoot | ErrReservedPath | ErrForeignPath
  | ErrNestedTooDeep | ErrNotRanged | ErrUnindexable | ErrExpansion | ErrUnportableSink
  | ErrUnreachable | ErrNoTrustStore | ErrStalled | ErrWaiting | ErrNetworkUnavailable
  | ErrNoNetworkCost | ErrNoDelegator | ErrNotDelegated | ErrAlreadyDelegated | ErrStrandedHere
  | ErrClaimFalsified | ErrOutcomeUnknown | ErrRecoverableSubmissionUnavailable
  | ErrRequestRefused | ErrNoLocalArea

definition forever :: "sentinel set" where
  "forever = {ErrNoFetcher, ErrRefused, ErrEscapesRoot, ErrReservedPath, ErrNestedTooDeep,
     ErrNotRanged, ErrUnindexable, ErrExpansion}"

fun wrapped_by :: "sentinel \<Rightarrow> sentinel list" where
  "wrapped_by ErrStrandedHere = [ErrNoDelegator]"
| "wrapped_by ErrNetworkUnavailable = [ErrWaiting]"
| "wrapped_by _ = []"

text \<open>Error variables of the packages this one imports that the sources compare against.\<close>

datatype foreign =
    JobInvalid | JobNotFound | JobStaleEpoch | JobLeaseExpiry | JobLeaseHeld | JobTerminal
  | JobUnreadable | CtxCanceled | CtxDeadlineExceeded | IoEOF | OsNotExist | ZipErrFormat

text \<open>
  An error: \<open>errors.New\<close>, a package variable, a \<open>permanent{...}\<close>, \<open>fmt.Errorf\<close> with the pieces of its
  text (\<open>%w\<close> is \<open>Err\<close>, a shown error is \<open>Shown\<close>), \<open>errors.Join\<close>, a \<open>*StatusError\<close>, a
  \<open>*CredentialError\<close>, or an error some other package made: its text, whether it answers
  \<open>Timeout()\<close>, and the variables \<open>errors.Is\<close> finds in it.
\<close>

datatype err =
    Plain string
  | Var sentinel
  | Perm err
  | Errorf "part list"
  | Joined "err list"
  | StatusError int bool "part list"
  | CredentialError string string
  | Foreign string bool "foreign list"
and part =
    Lit string
  | Str string
  | Quoted string
  | Num int
  | Err err
  | Shown err

text \<open>The walk of \<open>errors.Is\<close> and \<open>errors.As\<close>: the error, then everything it unwraps to, in order.\<close>

fun visit :: "err \<Rightarrow> err list" and visit_part :: "part \<Rightarrow> err list" where
  "visit (Plain t) = [Plain t]"
| "visit (Var s) = Var s # map Var (wrapped_by s)"
| "visit (Perm e) = Perm e # visit e"
| "visit (Errorf ps) = Errorf ps # concat (map visit_part ps)"
| "visit (Joined es) = Joined es # concat (map visit es)"
| "visit (StatusError c r t) = StatusError c r t # (if r then [Var ErrRefused] else [])"
| "visit (CredentialError n c) = [CredentialError n c]"
| "visit (Foreign t b fs) = [Foreign t b fs]"
| "visit_part (Err e) = visit e"
| "visit_part (Lit _) = []"
| "visit_part (Str _) = []"
| "visit_part (Quoted _) = []"
| "visit_part (Num _) = []"
| "visit_part (Shown _) = []"

definition err_is :: "err \<Rightarrow> sentinel \<Rightarrow> bool" where
  "err_is e s \<longleftrightarrow> list_ex (\<lambda>x. x = Var s) (visit e)"

definition err_is_foreign :: "err \<Rightarrow> foreign \<Rightarrow> bool" where
  "err_is_foreign e f \<longleftrightarrow> list_ex (\<lambda>x. case x of Foreign _ _ fs \<Rightarrow> f \<in> set fs | _ \<Rightarrow> False) (visit e)"

fun is_permanent_value :: "err \<Rightarrow> bool" where
  "is_permanent_value (Perm _) = True"
| "is_permanent_value (Var s) = (s \<in> forever)"
| "is_permanent_value _ = False"

fun is_credential :: "err \<Rightarrow> bool" where
  "is_credential (CredentialError _ _) = True"
| "is_credential _ = False"

fun answers_timeout :: "err \<Rightarrow> bool" where
  "answers_timeout (Foreign _ b _) = b"
| "answers_timeout _ = False"

fun is_status :: "err \<Rightarrow> bool" where
  "is_status (StatusError _ _ _) = True"
| "is_status _ = False"

text \<open>\<open>errors.Join\<close>: nothing where every error is nil.\<close>

definition join_errs :: "err option list \<Rightarrow> err option" where
  "join_errs es = (let ks = map the (filter (\<lambda>e. e \<noteq> None) es) in if ks = [] then None else Some (Joined ks))"

text \<open>
  The text of an error. \<open>qt\<close> is \<open>strconv.Quote\<close>, the verb \<open>%q\<close>.
\<close>

fun sentinel_text :: "sentinel \<Rightarrow> string" where
  "sentinel_text ErrNoFetcher = ''download: no fetcher for this job's sources''"
| "sentinel_text ErrDigestMismatch = ''download: digest mismatch''"
| "sentinel_text ErrShortTransfer = ''download: source ended early''"
| "sentinel_text ErrRefused = ''download: the source refused''"
| "sentinel_text ErrCannotRestart = ''download: the stream restarts at zero and this request cannot rewind''"
| "sentinel_text ErrOverrun = ''download: the source sent more than the range it named''"
| "sentinel_text ErrOversize = ''download: source sent more than the expected size''"
| "sentinel_text ErrResumedMismatch = ''download: resumed bytes failed the digest; restarting from zero''"
| "sentinel_text ErrEscapesRoot = ''download: sink path escapes the store root''"
| "sentinel_text ErrReservedPath = ''download: sink path is reserved by the store''"
| "sentinel_text ErrForeignPath = ''download: sink path names another platform's filesystem''"
| "sentinel_text ErrNestedTooDeep = ''download: spec nested deeper than 1000 levels''"
| "sentinel_text ErrNotRanged = ''download: the source will not serve a bounded range''"
| "sentinel_text ErrUnindexable = ''download: this format has no index and cannot be read in place''"
| "sentinel_text ErrExpansion = ''download: archive member expands past the caller's limit''"
| "sentinel_text ErrUnportableSink = ''download: a shared store's record may only name a relative sink''"
| "sentinel_text ErrUnreachable = ''download: this machine will not reach''"
| "sentinel_text ErrNoTrustStore = ''download: no TLS trust store on this machine''"
| "sentinel_text ErrStalled = ''download: no progress within the silence budget''"
| "sentinel_text ErrWaiting = ''download: waiting for an unmetered network''"
| "sentinel_text ErrNetworkUnavailable =
     ''download: waiting for an unmetered network: the network cost source has not answered''"
| "sentinel_text ErrNoNetworkCost =
     ''download: this runner has no network cost source for a network-constrained job''"
| "sentinel_text ErrNoDelegator = ''download: no delegator for this job's sources''"
| "sentinel_text ErrNotDelegated = ''download: job is not delegated''"
| "sentinel_text ErrAlreadyDelegated = ''download: job already has an external owner''"
| "sentinel_text ErrStrandedHere =
     ''download: no delegator for this job's sources: nothing here understands''"
| "sentinel_text ErrClaimFalsified = ''download: a delegate falsified a capability it claimed''"
| "sentinel_text ErrOutcomeUnknown =
     ''download: the delegate's answer was lost and it may hold this work''"
| "sentinel_text ErrRecoverableSubmissionUnavailable =
     ''download: required recoverable external submission is unavailable''"
| "sentinel_text ErrRequestRefused = ''download: request refused''"
| "sentinel_text ErrNoLocalArea =
     ''download: this store has no local area '' @ [CHR 0xE2, CHR 0x80, CHR 0x94] @
     '' its binding announces and notifies its own way''"

fun err_text :: "(string \<Rightarrow> string) \<Rightarrow> err \<Rightarrow> string"
  and part_text :: "(string \<Rightarrow> string) \<Rightarrow> part \<Rightarrow> string" where
  "err_text qt (Plain t) = t"
| "err_text qt (Var s) = sentinel_text s"
| "err_text qt (Perm e) = err_text qt e"
| "err_text qt (Errorf ps) = concat (map (part_text qt) ps)"
| "err_text qt (Joined es) = str_join [newline] (map (err_text qt) es)"
| "err_text qt (StatusError c r t) = concat (map (part_text qt) t)"
| "err_text qt (CredentialError n c) = ''download: credential:'' @ c @ '':'' @ n"
| "err_text qt (Foreign t b fs) = t"
| "part_text qt (Lit t) = t"
| "part_text qt (Str t) = t"
| "part_text qt (Quoted t) = qt t"
| "part_text qt (Num n) = fmt_int n"
| "part_text qt (Err e) = err_text qt e"
| "part_text qt (Shown e) = err_text qt e"

section \<open>Two endings\<close>

definition Permanent :: "err \<Rightarrow> bool" where
  "Permanent e \<longleftrightarrow> list_ex is_permanent_value (visit e) \<or> err_is_foreign e JobInvalid"

definition Terminal :: "err option \<Rightarrow> err option" where
  "Terminal e = (case e of None \<Rightarrow> None | Some x \<Rightarrow> if Permanent x then e else Some (Perm x))"

text \<open>
  \<open>CredentialError.Retryable\<close> and \<open>CredentialRefusal\<close>: only \<open>unavailable\<close> leaves the attempt open.
\<close>

definition Retryable :: "string \<Rightarrow> bool" where
  "Retryable outcome \<longleftrightarrow> outcome = ''unavailable''"

definition CredentialRefusal :: "string \<Rightarrow> string \<Rightarrow> err" where
  "CredentialRefusal name outcome =
     (let e = CredentialError name outcome in if Retryable outcome then e else Perm e)"

text \<open>\<open>StatusError.Cause\<close>.\<close>

definition status_cause :: "int \<Rightarrow> bool \<Rightarrow> string" where
  "status_cause code isrefused =
     (if code = 401 \<or> code = 403 \<or> code = 407 then ''unauthorized''
      else if code = 404 \<or> code = 410 then ''not_found''
      else if 500 \<le> code then ''server_error''
      else if isrefused then ''refused''
      else ''other'')"

definition CauseOf :: "err option \<Rightarrow> string" where
  "CauseOf err =
     (case err of
        None \<Rightarrow> []
      | Some e \<Rightarrow>
          if list_ex is_credential (visit e) then ''credential''
          else if err_is e ErrDigestMismatch then ''digest_mismatch''
          else if err_is e ErrOversize then ''oversize''
          else if err_is e ErrShortTransfer then ''short_transfer''
          else (case find is_status (visit e) of
                  Some (StatusError c r _) \<Rightarrow> status_cause c r
                | _ \<Rightarrow>
                  if err_is e ErrRefused then ''refused''
                  else if list_ex answers_timeout (visit e) then ''transport''
                  else ''other''))"

section \<open>The failure payload of a record\<close>

definition FailureOf :: "(string \<Rightarrow> string) \<Rightarrow> err option \<Rightarrow> failure option" where
  "FailureOf qt err = map_option (\<lambda>e. \<lparr>f_error = err_text qt e, f_permanent = Permanent e, f_cause = []\<rparr>) err"

text \<open>\<open>Failure.Err\<close>: the error on the reading side.\<close>

definition Failure_Err :: "failure option \<Rightarrow> err option" where
  "Failure_Err f =
     map_option (\<lambda>f. if f_permanent f then Perm (Plain (f_error f)) else Plain (f_error f)) f"

lemma list_ex_concat: "list_ex P (concat xss) \<longleftrightarrow> list_ex (list_ex P) xss"
  by (induction xss) simp_all

lemma list_ex_map_Var_wrapped [simp]: "\<not> list_ex is_permanent_value (map Var (wrapped_by s))"
  by (cases s) (simp_all add: forever_def)

lemma not_foreign_wrapped:
  "\<not> list_ex (\<lambda>x. case x of Foreign _ _ fs \<Rightarrow> f \<in> set fs | _ \<Rightarrow> False) (map Var (wrapped_by s))"
  by (cases s) simp_all

lemma Permanent_simps [simp]:
  "\<not> Permanent (Plain t)"
  "Permanent (Var s) \<longleftrightarrow> s \<in> forever"
  "Permanent (Perm e)"
  "Permanent (StatusError c r u) \<longleftrightarrow> r"
  "\<not> Permanent (CredentialError n oc)"
  "Permanent (Foreign t b fs) \<longleftrightarrow> JobInvalid \<in> set fs"
  using list_ex_map_Var_wrapped [of s] not_foreign_wrapped [of JobInvalid s]
  by (simp_all add: Permanent_def err_is_foreign_def forever_def)

text \<open>Wrapping and joining neither add a class nor lose one.\<close>

fun part_err :: "part \<Rightarrow> err option" where
  "part_err (Err e) = Some e"
| "part_err _ = None"

lemma visit_part_err: "visit_part p = (case part_err p of None \<Rightarrow> [] | Some e \<Rightarrow> visit e)"
  by (cases p) simp_all

lemma visit_Errorf_ex:
  "list_ex P (visit (Errorf ps)) \<longleftrightarrow>
     P (Errorf ps) \<or> (\<exists>p\<in>set ps. \<exists>e. part_err p = Some e \<and> list_ex P (visit e))"
proof -
  have "list_ex P (concat (map visit_part ps)) \<longleftrightarrow>
      (\<exists>p\<in>set ps. \<exists>e. part_err p = Some e \<and> list_ex P (visit e))"
    by (induction ps) (auto simp: visit_part_err split: option.splits)
  then show ?thesis by simp
qed

lemma Permanent_Errorf: "Permanent (Errorf ps) \<longleftrightarrow> (\<exists>p\<in>set ps. \<exists>e. part_err p = Some e \<and> Permanent e)"
  unfolding Permanent_def err_is_foreign_def visit_Errorf_ex by auto

lemma Permanent_Joined: "Permanent (Joined es) \<longleftrightarrow> (\<exists>e\<in>set es. Permanent e)"
  by (auto simp: Permanent_def err_is_foreign_def list_ex_concat list_ex_iff)

lemma err_is_Errorf: "err_is (Errorf ps) s \<longleftrightarrow> (\<exists>p\<in>set ps. \<exists>e. part_err p = Some e \<and> err_is e s)"
  unfolding err_is_def visit_Errorf_ex by auto

lemma err_is_Joined: "err_is (Joined es) s \<longleftrightarrow> (\<exists>e\<in>set es. err_is e s)"
  by (auto simp: err_is_def list_ex_concat list_ex_iff)

lemma err_is_simps [simp]:
  "\<not> err_is (Plain t) s"
  "err_is (Var v) s \<longleftrightarrow> s = v \<or> s \<in> set (wrapped_by v)"
  "err_is (Perm e) s \<longleftrightarrow> err_is e s"
  "err_is (StatusError c r u) s \<longleftrightarrow> r \<and> s = ErrRefused"
  "\<not> err_is (CredentialError n oc) s"
  "\<not> err_is (Foreign t b fs) s"
  by (auto simp: err_is_def list_ex_iff split: if_splits)

lemma Permanent_Terminal: "e \<noteq> None \<Longrightarrow> \<exists>x. Terminal e = Some x \<and> Permanent x"
  by (auto simp: Terminal_def)

lemma Terminal_keeps: "Terminal (Some e) = Some x \<Longrightarrow> err_is x s = err_is e s"
  by (auto simp: Terminal_def split: if_splits)

lemma Terminal_text: "Terminal (Some e) = Some x \<Longrightarrow> err_text qt x = err_text qt e"
  by (auto simp: Terminal_def split: if_splits)

lemma CredentialRefusal_class: "Permanent (CredentialRefusal n c) \<longleftrightarrow> c \<noteq> ''unavailable''"
  by (simp add: CredentialRefusal_def Retryable_def Let_def)

lemma CredentialRefusal_cause: "CauseOf (Some (CredentialRefusal n c)) = ''credential''"
  by (simp add: CredentialRefusal_def CauseOf_def Let_def)

lemma Failure_Err_of: "Failure_Err (FailureOf qt e) =
    map_option (\<lambda>x. if Permanent x then Perm (Plain (err_text qt x)) else Plain (err_text qt x)) e"
  by (cases e) (simp_all add: Failure_Err_def FailureOf_def)

lemma CauseOf_vocabulary:
  "CauseOf (Some e) \<in> {''credential'', ''digest_mismatch'', ''oversize'', ''short_transfer'',
     ''unauthorized'', ''not_found'', ''refused'', ''server_error'', ''transport'', ''other''}"
  by (simp add: CauseOf_def status_cause_def split: option.split err.split)

end
