(* ===== verification/Job_Layer.thy ===== *)
theory Job_Layer
  imports Failures
begin

text \<open>
  What the sources use of the module \<open>abstraction-job\<close>, which is not part of the repository: the
  fields of a job record, and the byte-range algebra a checkpoint is written in. The algebra's
  operations are an argument (\<open>range_ops\<close>) of every definition that uses them; the locale
  \<open>range_layer\<close> states what the sources rely on. The reference algebra at the end shows that the
  laws can be met and gives the examples of the development something to compute with.
\<close>

section \<open>Byte ranges\<close>

datatype range = Range (r_start: int) (r_end: int)

type_synonym ranges = "range list"

definition bytes_of :: "range list \<Rightarrow> int set" where
  "bytes_of rs = (\<Union>r\<in>set rs. {r_start r..<r_end r})"

fun canonical :: "ranges \<Rightarrow> bool" where
  "canonical [] = True"
| "canonical [r] = (0 \<le> r_start r \<and> r_start r < r_end r)"
| "canonical (r # s # rs) =
     (0 \<le> r_start r \<and> r_start r < r_end r \<and> r_end r < r_start s \<and> canonical (s # rs))"

record range_ops =
  ro_canon :: "range list \<Rightarrow> err + ranges"
  ro_missing :: "ranges \<Rightarrow> int \<Rightarrow> int \<Rightarrow> ranges"
  ro_total :: "ranges \<Rightarrow> int"
  ro_prefix :: "ranges \<Rightarrow> int"
  ro_add :: "ranges \<Rightarrow> int \<Rightarrow> int \<Rightarrow> err + ranges"

text \<open>The prefix a canonical set proves.\<close>

fun leading :: "ranges \<Rightarrow> int" where
  "leading [] = 0"
| "leading (r # rs) = (if r_start r = 0 then r_end r else 0)"

lemma bytes_of_simps [simp]:
  "bytes_of [] = {}"
  "bytes_of (r # rs) = {r_start r..<r_end r} \<union> bytes_of rs"
  "bytes_of (xs @ ys) = bytes_of xs \<union> bytes_of ys"
  by (auto simp: bytes_of_def)

lemma canonical_Cons:
  "canonical (r # rs) \<longleftrightarrow> 0 \<le> r_start r \<and> r_start r < r_end r \<and> canonical rs \<and>
     (rs \<noteq> [] \<longrightarrow> r_end r < r_start (hd rs))"
  by (cases rs) auto

lemma canonical_beyond:
  "canonical (r # rs) \<Longrightarrow> b \<in> bytes_of rs \<Longrightarrow> r_end r < b"
proof (induction rs arbitrary: r)
  case Nil
  then show ?case by simp
next
  case (Cons s rs)
  show ?case
  proof (cases "b \<in> bytes_of rs")
    case True
    with Cons.IH [of s] Cons.prems have "r_end s < b" by simp
    with Cons.prems show ?thesis by (auto simp: canonical_Cons [of s])
  next
    case False
    with Cons.prems show ?thesis by (auto simp: canonical_Cons [of s])
  qed
qed

lemma canonical_wf: "canonical rs \<Longrightarrow> r \<in> set rs \<Longrightarrow> 0 \<le> r_start r \<and> r_start r < r_end r"
  by (induction rs) (auto simp: canonical_Cons)

lemma canonical_nonneg: "canonical rs \<Longrightarrow> b \<in> bytes_of rs \<Longrightarrow> 0 \<le> b"
  by (auto simp: bytes_of_def dest: canonical_wf)

lemma bytes_of_finite [simp]: "finite (bytes_of rs)"
  by (induction rs) auto

lemma canonical_empty_iff: "canonical rs \<Longrightarrow> bytes_of rs = {} \<longleftrightarrow> rs = []"
  by (cases rs) (auto simp: canonical_Cons)

lemma canonical_end_out: "canonical (r # rs) \<Longrightarrow> r_end r \<notin> bytes_of (r # rs)"
  using canonical_beyond [of r rs "r_end r"] by auto

text \<open>A set of bytes has one canonical spelling.\<close>

lemma canonical_unique:
  "canonical xs \<Longrightarrow> canonical ys \<Longrightarrow> bytes_of xs = bytes_of ys \<Longrightarrow> xs = ys"
proof (induction xs arbitrary: ys)
  case Nil
  then show ?case using canonical_empty_iff [of ys] by simp
next
  case (Cons x xs)
  obtain y ys' where ys: "ys = y # ys'"
    using Cons.prems canonical_empty_iff [of "x # xs"] canonical_empty_iff [of ys]
    by (cases ys) simp_all
  have least: "r_start u = r_start v" if "canonical (u # us)" "canonical (v # vs)"
      "bytes_of (u # us) = bytes_of (v # vs)" "r_start u \<le> r_start v" for u us v vs
  proof -
    have "r_start u \<in> bytes_of (v # vs)"
      using that(1,3) by (metis UnI1 atLeastLessThan_iff bytes_of_simps(2) canonical_wf list.set_intros(1) order_refl)
    then show ?thesis using that canonical_beyond [OF that(2), of "r_start u"]
      by (auto simp: canonical_Cons [of v])
  qed
  have st: "r_start x = r_start y"
    using least [OF Cons.prems(1), of y ys'] least [of y ys' x xs] Cons.prems ys by fastforce
  have ends: "r_end u \<ge> r_end v" if "canonical (u # us)" "canonical (v # vs)"
      "bytes_of (u # us) = bytes_of (v # vs)" "r_start u = r_start v" for u us v vs
  proof (rule ccontr)
    assume "\<not> r_end v \<le> r_end u"
    then have "r_end u \<in> bytes_of (v # vs)" using that by (auto simp: canonical_Cons [of u])
    with that canonical_end_out [of u us] show False by simp
  qed
  have en: "r_end x = r_end y"
    using ends [OF Cons.prems(1), of y ys'] ends [of y ys' x xs] Cons.prems ys st by fastforce
  have xy: "x = y" using st en by (cases x; cases y) simp
  have "bytes_of xs = bytes_of ys'"
  proof -
    have "bytes_of zs = bytes_of (z # zs) - {r_start z..<r_end z}" if "canonical (z # zs)" for z zs
      using canonical_beyond [OF that] by force
    with Cons.prems ys xy show ?thesis by metis
  qed
  with Cons.IH [of ys'] Cons.prems ys xy show ?case by (auto simp: canonical_Cons [of x] canonical_Cons [of y])
qed

section \<open>The laws the sources rely on\<close>

locale range_layer =
  fixes R :: range_ops
  assumes canon_law: "\<And>rs. \<forall>r\<in>set rs. 0 \<le> r_start r \<and> r_start r < r_end r \<Longrightarrow>
      \<exists>cs. ro_canon R rs = Inr cs \<and> canonical cs \<and> bytes_of cs = bytes_of rs"
    and missing_law: "\<And>rs a b. canonical rs \<Longrightarrow> 0 \<le> a \<Longrightarrow> a \<le> b \<Longrightarrow>
      canonical (ro_missing R rs a b) \<and> bytes_of (ro_missing R rs a b) = {a..<b} - bytes_of rs"
    and total_law: "\<And>rs. canonical rs \<Longrightarrow> ro_total R rs = int (card (bytes_of rs))"
    and prefix_law: "\<And>rs. canonical rs \<Longrightarrow> ro_prefix R rs = leading rs"
    and add_law: "\<And>rs a b. canonical rs \<Longrightarrow> 0 \<le> a \<Longrightarrow> a < b \<Longrightarrow>
      \<exists>cs. ro_add R rs a b = Inr cs \<and> canonical cs \<and> bytes_of cs = bytes_of rs \<union> {a..<b}"
begin

lemma canon_canonical: "canonical rs \<Longrightarrow> ro_canon R rs = Inr rs"
  using canon_law [of rs] canonical_unique canonical_wf by blast

lemma canon_Inr:
  "ro_canon R rs = Inr cs \<Longrightarrow> \<forall>r\<in>set rs. 0 \<le> r_start r \<and> r_start r < r_end r \<Longrightarrow>
     canonical cs \<and> bytes_of cs = bytes_of rs"
  using canon_law [of rs] by auto

lemma canon_snoc_prefix:
  assumes "canonical rs" "0 < n"
  shows "\<exists>cs. ro_canon R (rs @ [Range 0 n]) = Inr cs \<and> canonical cs \<and> bytes_of cs = bytes_of rs \<union> {0..<n}"
  using canon_law [of "rs @ [Range 0 n]"] canonical_wf [OF assms(1)] assms(2) by auto

lemma add_grows:
  "ro_add R rs a b = Inr cs \<Longrightarrow> canonical rs \<Longrightarrow> 0 \<le> a \<Longrightarrow> a < b \<Longrightarrow>
     canonical cs \<and> bytes_of cs = bytes_of rs \<union> {a..<b}"
  using add_law [of rs a b] by auto

lemma total_mono:
  "canonical xs \<Longrightarrow> canonical ys \<Longrightarrow> bytes_of xs \<subseteq> bytes_of ys \<Longrightarrow> ro_total R xs \<le> ro_total R ys"
  by (simp add: total_law card_mono)

lemma total_within:
  assumes "canonical rs" "bytes_of rs \<subseteq> {0..<n}" "0 \<le> n"
  shows "ro_total R rs \<le> n" and "ro_total R rs = n \<longleftrightarrow> bytes_of rs = {0..<n}"
proof -
  have le: "card (bytes_of rs) \<le> card {0..<n}" using assms by (intro card_mono) auto
  then show "ro_total R rs \<le> n" using assms by (simp add: total_law)
  show "ro_total R rs = n \<longleftrightarrow> bytes_of rs = {0..<n}"
  proof
    assume "ro_total R rs = n"
    then have "card (bytes_of rs) = card {0..<n}" using assms by (simp add: total_law)
    then show "bytes_of rs = {0..<n}" using card_subset_eq [OF _ assms(2)] by simp
  next
    assume "bytes_of rs = {0..<n}"
    then show "ro_total R rs = n" using assms by (simp add: total_law)
  qed
qed

lemma prefix_bytes: "canonical rs \<Longrightarrow> {0..<ro_prefix R rs} \<subseteq> bytes_of rs"
  by (cases rs) (auto simp: prefix_law)

lemma prefix_nonneg: "canonical rs \<Longrightarrow> 0 \<le> ro_prefix R rs"
  by (cases rs) (auto simp: prefix_law canonical_Cons)

end

section \<open>A reference algebra\<close>

fun ref_insert :: "range \<Rightarrow> ranges \<Rightarrow> ranges" where
  "ref_insert r [] = [r]"
| "ref_insert r (s # ss) =
     (if r_end r < r_start s then r # s # ss
      else if r_end s < r_start r then s # ref_insert r ss
      else ref_insert (Range (min (r_start r) (r_start s)) (max (r_end r) (r_end s))) ss)"

fun ref_missing :: "ranges \<Rightarrow> int \<Rightarrow> int \<Rightarrow> ranges" where
  "ref_missing [] a b = (if a < b then [Range a b] else [])"
| "ref_missing (r # rs) a b =
     (if b \<le> a then []
      else if r_end r \<le> a then ref_missing rs a b
      else if b \<le> r_start r then [Range a b]
      else (if a < r_start r then [Range a (r_start r)] else []) @ ref_missing rs (r_end r) b)"

definition valid_range :: "range \<Rightarrow> bool" where
  "valid_range r \<longleftrightarrow> 0 \<le> r_start r \<and> r_start r < r_end r"

definition ref_ranges :: range_ops where
  "ref_ranges = \<lparr>
     ro_canon = (\<lambda>rs. if list_all valid_range rs then Inr (foldr ref_insert rs [])
                      else Inl (Plain ''a range is not valid'')),
     ro_missing = ref_missing,
     ro_total = (\<lambda>rs. sum_list (map (\<lambda>r. r_end r - r_start r) rs)),
     ro_prefix = leading,
     ro_add = (\<lambda>rs a b. if valid_range (Range a b) then Inr (ref_insert (Range a b) rs)
                        else Inl (Plain ''a range is not valid''))\<rparr>"

lemma ref_insert_bounds:
  "canonical rs \<Longrightarrow> valid_range r \<Longrightarrow> 0 \<le> lo \<Longrightarrow> lo < r_start r \<Longrightarrow> rs \<noteq> [] \<longrightarrow> lo < r_start (hd rs) \<Longrightarrow>
     ref_insert r rs \<noteq> [] \<and> lo < r_start (hd (ref_insert r rs))"
  by (induction r rs rule: ref_insert.induct)
     (auto simp: canonical_Cons valid_range_def min_def max_def)

lemma ref_insert_canonical: "canonical rs \<Longrightarrow> valid_range r \<Longrightarrow> canonical (ref_insert r rs)"
proof (induction r rs rule: ref_insert.induct)
  case (1 r)
  then show ?case by (simp add: valid_range_def)
next
  case (2 r s ss)
  consider "r_end r < r_start s" | "\<not> r_end r < r_start s" "r_end s < r_start r"
    | "\<not> r_end r < r_start s" "\<not> r_end s < r_start r" by blast
  then show ?case
  proof cases
    case 1
    with 2 show ?thesis by (simp add: valid_range_def)
  next
    case c: 2
    have "canonical ss" "ss \<noteq> [] \<longrightarrow> r_end s < r_start (hd ss)" "valid_range s"
      using 2 by (auto simp: canonical_Cons valid_range_def)
    then show ?thesis
      using c 2 ref_insert_bounds [of ss r "r_end s"] by (auto simp: canonical_Cons valid_range_def)
  next
    case c: 3
    with 2 show ?thesis by (auto simp: canonical_Cons valid_range_def min_def max_def)
  qed
qed

lemma ref_insert_bytes:
  "canonical rs \<Longrightarrow> valid_range r \<Longrightarrow> bytes_of (ref_insert r rs) = {r_start r..<r_end r} \<union> bytes_of rs"
proof (induction r rs rule: ref_insert.induct)
  case (1 r)
  then show ?case by simp
next
  case (2 r s ss)
  have "canonical ss" "valid_range s" using 2 by (auto simp: canonical_Cons valid_range_def)
  moreover from this 2 have "valid_range (Range (min (r_start r) (r_start s)) (max (r_end r) (r_end s)))"
    by (auto simp: valid_range_def)
  moreover have "{min (r_start r) (r_start s)..<max (r_end r) (r_end s)}
      = {r_start r..<r_end r} \<union> {r_start s..<r_end s}"
    if "\<not> r_end r < r_start s" "\<not> r_end s < r_start r"
    using that 2 \<open>valid_range s\<close> by (auto simp: valid_range_def)
  ultimately show ?case using 2 by auto
qed

lemma ref_canon_correct:
  "\<forall>r\<in>set rs. valid_range r \<Longrightarrow>
     canonical (foldr ref_insert rs []) \<and> bytes_of (foldr ref_insert rs []) = bytes_of rs"
  by (induction rs) (auto simp: ref_insert_canonical ref_insert_bytes)

lemma ref_missing_correct:
  "canonical rs \<Longrightarrow> 0 \<le> a \<Longrightarrow>
     canonical (ref_missing rs a b) \<and> bytes_of (ref_missing rs a b) = {a..<b} - bytes_of rs \<and>
     (ref_missing rs a b \<noteq> [] \<longrightarrow> a \<le> r_start (hd (ref_missing rs a b)))"
proof (induction rs a b rule: ref_missing.induct)
  case (1 a b)
  then show ?case by auto
next
  case (2 r rs a b)
  note rs = canonical_beyond [OF 2(3)]
  have c: "canonical rs" "0 \<le> r_start r" "r_start r < r_end r"
    using 2(3) by (auto simp: canonical_Cons)
  consider (nothing) "b \<le> a" | (skip) "a < b" "r_end r \<le> a"
    | (before) "a < b" "a < r_end r" "b \<le> r_start r"
    | (cut) "a < b" "a < r_end r" "r_start r < b" by linarith
  then show ?case
  proof cases
    case nothing
    then show ?thesis by simp
  next
    case skip
    with 2(1) 2(4) c show ?thesis by auto
  next
    case before
    then show ?thesis using rs c 2(4) by force
  next
    case cut
    let ?tl = "ref_missing rs (r_end r) b"
    have tl: "canonical ?tl" "bytes_of ?tl = {r_end r..<b} - bytes_of rs"
      "?tl \<noteq> [] \<longrightarrow> r_end r \<le> r_start (hd ?tl)" using 2(2) cut c by auto
    have "canonical ((if a < r_start r then [Range a (r_start r)] else []) @ ?tl)"
      using tl c 2(4) by (auto simp: canonical_Cons)
    moreover have "bytes_of ((if a < r_start r then [Range a (r_start r)] else []) @ ?tl)
        = {a..<b} - bytes_of (r # rs)"
      using tl(2) rs cut c by force
    moreover have "?tl \<noteq> [] \<longrightarrow> a \<le> r_start (hd ?tl)" using tl(3) cut by linarith
    ultimately show ?thesis using cut by auto
  qed
qed

lemma ref_total_correct:
  "canonical rs \<Longrightarrow> sum_list (map (\<lambda>r. r_end r - r_start r) rs) = int (card (bytes_of rs))"
proof (induction rs)
  case Nil
  then show ?case by simp
next
  case (Cons r rs)
  have "{r_start r..<r_end r} \<inter> bytes_of rs = {}"
    using canonical_beyond [OF Cons.prems] by force
  with Cons show ?case by (simp add: canonical_Cons card_Un_disjoint)
qed

interpretation ref: range_layer ref_ranges
proof (unfold_locales, goal_cases)
  case (1 rs)
  then show ?case using ref_canon_correct [of rs]
    by (auto simp: ref_ranges_def valid_range_def list_all_iff)
next
  case (2 rs a b)
  then show ?case using ref_missing_correct [of rs a b] by (simp add: ref_ranges_def)
next
  case (3 rs)
  then show ?case by (simp add: ref_ranges_def ref_total_correct)
next
  case (4 rs)
  then show ?case by (simp add: ref_ranges_def)
next
  case (5 rs a b)
  then show ?case using ref_insert_canonical [of rs "Range a b"] ref_insert_bytes [of rs "Range a b"]
    by (auto simp: ref_ranges_def valid_range_def)
qed

lemma range_layer_ref: "range_layer ref_ranges"
  by (rule ref.range_layer_axioms)

section \<open>Job records\<close>

text \<open>
  The fields of \<open>job.Record\<close> the sources read or write. \<open>'d\<close> is the type of the two documents the
  job layer stores without reading (\<open>Spec\<close> and \<open>Checkpoint\<close>); an extension's payload is bytes.
\<close>

datatype job_state =
  StatePending | StateRunning | StateTransferred | StateComplete | StateFailed | StateCancelled

datatype want = WantRun | WantPause | WantCancel

text \<open>\<open>job.Step\<close>: which phase of a job with several is running.\<close>

record job_step =
  t_name :: string
  t_ordinal :: int
  t_of :: int
  t_done :: int
  t_total :: int

record progress =
  p_done :: int
  p_total :: int
  p_updated :: int
  p_step :: "job_step option"

record lease =
  l_owner :: string
  l_epoch :: int
  l_expires :: int

record delegation =
  d_system :: string
  d_external :: string
  d_delivered :: bool

record 'd job_record =
  j_id :: string
  j_kind :: string
  j_state :: job_state
  j_requires :: "string list"
  j_spec :: 'd
  j_checkpoint :: 'd
  j_content :: "string list"
  j_progress :: progress
  j_lease :: lease
  j_delegation :: "delegation option"
  j_want :: want
  j_error :: string
  j_extensions :: "string \<Rightarrow> string option"

end
