(* ===== verification/Record_State.thy ===== *)
theory Record_State
  imports Job_Layer
begin

text \<open>
  What a record says about its last attempt: the failure and its class under two extension keys
  (\<open>setFailure\<close>, \<open>setFailureCause\<close>, \<open>clearFailure\<close>, \<open>LastFailure\<close>, \<open>LastFailureCause\<close> of
  \<open>go/fetcher.go\<close>) and the waiting word (\<open>go/network.go\<close>).
\<close>

section \<open>The failure of the last attempt\<close>

definition FailureExtension :: string where
  "FailureExtension = ''abstraction.download/failure@1''"

definition FailureCauseExtension :: string where
  "FailureCauseExtension = ''abstraction.download/failure@2''"

definition clearFailure :: "'d job_record \<Rightarrow> 'd job_record" where
  "clearFailure rr = rr\<lparr>j_error := [],
     j_extensions := (j_extensions rr)(FailureExtension := None, FailureCauseExtension := None)\<rparr>"

definition setFailure :: "(string \<Rightarrow> string) \<Rightarrow> err option \<Rightarrow> 'd job_record \<Rightarrow> 'd job_record" where
  "setFailure qt err rr =
     (case FailureOf qt err of
        None \<Rightarrow> clearFailure rr
      | Some f \<Rightarrow> rr\<lparr>j_error := f_error f,
          j_extensions := (j_extensions rr)
            (FailureExtension := Some (encode_failure f), FailureCauseExtension := None)\<rparr>)"

definition setFailureCause :: "(string \<Rightarrow> string) \<Rightarrow> err option \<Rightarrow> 'd job_record \<Rightarrow> 'd job_record" where
  "setFailureCause qt err rr =
     (case FailureOf qt err of
        None \<Rightarrow> rr
      | Some f \<Rightarrow> rr\<lparr>j_extensions := (j_extensions rr)
          (FailureCauseExtension := Some (encode_failure (f\<lparr>f_cause := CauseOf err\<rparr>)))\<rparr>)"

definition LastFailureCause :: "'d job_record \<Rightarrow> string" where
  "LastFailureCause r =
     (case j_extensions r FailureCauseExtension of
        None \<Rightarrow> []
      | Some raw \<Rightarrow> (case decode_failure raw of Inl _ \<Rightarrow> [] | Inr f \<Rightarrow> f_cause f))"

definition LastFailure :: "'d job_record \<Rightarrow> err option" where
  "LastFailure r =
     (let prose = (if j_error r = [] then None else Some (Plain (j_error r))) in
      case j_extensions r FailureExtension of
        None \<Rightarrow> prose
      | Some raw \<Rightarrow> (case decode_failure raw of Inl _ \<Rightarrow> prose | Inr f \<Rightarrow> Failure_Err (Some f)))"

lemma extension_keys [simp]:
  "FailureExtension \<noteq> FailureCauseExtension" "FailureCauseExtension \<noteq> FailureExtension"
  by (simp_all add: FailureExtension_def FailureCauseExtension_def)

lemma decode_FailureOf:
  assumes "FailureOf qt (Some e) = Some f" "valid_utf8 (err_text qt e)"
  shows "decode_failure (encode_failure f) = Inr f"
  using assms decode_encode_failure [of f] by (auto simp: FailureOf_def)

lemma LastFailure_set:
  assumes "valid_utf8 (err_text qt e)"
  shows "LastFailure (setFailure qt (Some e) rr) =
    Some (if Permanent e then Perm (Plain (err_text qt e)) else Plain (err_text qt e))"
  using decode_FailureOf [of qt e "the (FailureOf qt (Some e))"] assms
  by (simp add: LastFailure_def setFailure_def FailureOf_def Failure_Err_def Let_def)

text \<open>Text that is not UTF-8 is written and never read back: the class of the failure is lost.\<close>

lemma LastFailure_set_bad:
  assumes "\<not> valid_utf8 (err_text qt e)"
  shows "LastFailure (setFailure qt (Some e) rr) = Some (Plain (err_text qt e))"
proof -
  let ?f = "\<lparr>f_error = err_text qt e, f_permanent = Permanent e, f_cause = []\<rparr>"
  have "bad_text (decode_failure (encode_failure ?f))"
    using decode_encode_failure [of ?f] assms by simp
  moreover have "err_text qt e \<noteq> []" using assms by auto
  ultimately show ?thesis
    by (auto simp: LastFailure_def setFailure_def FailureOf_def bad_text_def Let_def)
qed

lemma LastFailure_clear [simp]: "LastFailure (clearFailure rr) = None"
  by (simp add: LastFailure_def clearFailure_def)

lemma LastFailureCause_clear [simp]: "LastFailureCause (clearFailure rr) = []"
  by (simp add: LastFailureCause_def clearFailure_def)

lemma LastFailureCause_setFailure: "LastFailureCause (setFailure qt e rr) = []"
  by (cases e) (simp_all add: LastFailureCause_def setFailure_def FailureOf_def clearFailure_def)

lemma LastFailure_setFailureCause [simp]: "LastFailure (setFailureCause qt e rr) = LastFailure rr"
  by (cases e) (simp_all add: LastFailure_def setFailureCause_def FailureOf_def)

lemma is_ascii_CauseOf: "is_ascii (CauseOf e)"
proof (cases e)
  case None
  then show ?thesis by (simp add: CauseOf_def is_ascii_def)
next
  case (Some x)
  have "\<forall>w\<in>{''credential'', ''digest_mismatch'', ''oversize'', ''short_transfer'', ''unauthorized'',
      ''not_found'', ''refused'', ''server_error'', ''transport'', ''other''}. is_ascii w"
    by (simp add: is_ascii_def)
  with CauseOf_vocabulary [of x] Some show ?thesis by blast
qed

lemma LastFailureCause_set:
  assumes "valid_utf8 (err_text qt e)"
  shows "LastFailureCause (setFailureCause qt (Some e) rr) = CauseOf (Some e)"
proof -
  let ?f = "\<lparr>f_error = err_text qt e, f_permanent = Permanent e, f_cause = CauseOf (Some e)\<rparr>"
  have "decode_failure (encode_failure ?f) = Inr ?f"
    using decode_encode_failure [of ?f] assms valid_utf8_ascii [OF is_ascii_CauseOf] by simp
  then show ?thesis by (simp add: LastFailureCause_def setFailureCause_def FailureOf_def)
qed

lemma failure_frame:
  "j_state (setFailure qt e rr) = j_state rr" "j_lease (setFailure qt e rr) = j_lease rr"
  "j_progress (setFailure qt e rr) = j_progress rr" "j_checkpoint (setFailure qt e rr) = j_checkpoint rr"
  "j_state (setFailureCause qt e rr) = j_state rr" "j_lease (setFailureCause qt e rr) = j_lease rr"
  "j_progress (setFailureCause qt e rr) = j_progress rr"
  "j_checkpoint (setFailureCause qt e rr) = j_checkpoint rr"
  "j_state (clearFailure rr) = j_state rr" "j_lease (clearFailure rr) = j_lease rr"
  "j_progress (clearFailure rr) = j_progress rr" "j_checkpoint (clearFailure rr) = j_checkpoint rr"
  by (simp_all add: setFailure_def setFailureCause_def clearFailure_def split: option.splits)

declare failure_frame [simp]

section \<open>The waiting word\<close>

text \<open>
  The payload is one JSON string. Printable ASCII text without a character JSON or HTML escapes is
  written as itself between quotes; \<open>uni\<close> is the rest of \<open>encoding/json\<close>.
\<close>

definition json_plain :: "string \<Rightarrow> bool" where
  "json_plain s \<longleftrightarrow>
     list_all (\<lambda>c. 32 \<le> byte_of c \<and> byte_of c < 127 \<and> c \<notin> {quote, bslash, CHR ''<'', CHR ''>'', CHR ''&''}) s"

definition json_marshal :: "(string \<Rightarrow> string) \<Rightarrow> string \<Rightarrow> string" where
  "json_marshal uni s = (if json_plain s then quote # s @ [quote] else uni s)"

definition json_unmarshal :: "(string \<Rightarrow> string option) \<Rightarrow> string \<Rightarrow> string option" where
  "json_unmarshal uni raw =
     (if 2 \<le> length raw \<and> hd raw = quote \<and> last raw = quote \<and> json_plain (butlast (tl raw))
      then Some (butlast (tl raw)) else uni raw)"

definition WaitingExtension :: string where
  "WaitingExtension = ''abstraction.download/waiting@1''"

definition WaitingNetworkMetered :: string where
  "WaitingNetworkMetered = ''network:metered''"

definition WaitingNetworkUnavailable :: string where
  "WaitingNetworkUnavailable = ''network:unavailable''"

definition Waiting :: "(string \<Rightarrow> string option) \<Rightarrow> 'd job_record \<Rightarrow> string" where
  "Waiting uni r =
     (case j_extensions r WaitingExtension of
        None \<Rightarrow> []
      | Some raw \<Rightarrow> (case json_unmarshal uni raw of None \<Rightarrow> [] | Some word \<Rightarrow> word))"

definition setWaiting :: "(string \<Rightarrow> string) \<Rightarrow> string \<Rightarrow> 'd job_record \<Rightarrow> 'd job_record" where
  "setWaiting uni word rr =
     rr\<lparr>j_extensions := (j_extensions rr)(WaitingExtension := Some (json_marshal uni word))\<rparr>"

definition clearWaiting :: "'d job_record \<Rightarrow> 'd job_record" where
  "clearWaiting rr = rr\<lparr>j_extensions := (j_extensions rr)(WaitingExtension := None)\<rparr>"

definition waitingWord :: "err \<Rightarrow> string" where
  "waitingWord e = (if err_is e ErrNetworkUnavailable then WaitingNetworkUnavailable else WaitingNetworkMetered)"

lemma json_roundtrip: "json_plain s \<Longrightarrow> json_unmarshal u (json_marshal m s) = Some s"
  by (simp add: json_marshal_def json_unmarshal_def)

lemma waiting_words_plain: "json_plain (waitingWord e)"
  by (simp add: waitingWord_def WaitingNetworkMetered_def WaitingNetworkUnavailable_def json_plain_def
      quote_def bslash_def)

lemma Waiting_set: "json_plain w \<Longrightarrow> Waiting u (setWaiting m w rr) = w"
  by (simp add: Waiting_def setWaiting_def json_roundtrip)

lemma Waiting_clear [simp]: "Waiting u (clearWaiting rr) = []"
  by (simp add: Waiting_def clearWaiting_def)

lemma waiting_keys [simp]:
  "WaitingExtension \<noteq> FailureExtension" "WaitingExtension \<noteq> FailureCauseExtension"
  "FailureExtension \<noteq> WaitingExtension" "FailureCauseExtension \<noteq> WaitingExtension"
  by (simp_all add: WaitingExtension_def FailureExtension_def FailureCauseExtension_def)

lemma waiting_frame [simp]:
  "j_state (setWaiting m w rr) = j_state rr" "j_lease (setWaiting m w rr) = j_lease rr"
  "j_progress (setWaiting m w rr) = j_progress rr" "j_checkpoint (setWaiting m w rr) = j_checkpoint rr"
  "j_error (setWaiting m w rr) = j_error rr"
  "j_state (clearWaiting rr) = j_state rr" "j_lease (clearWaiting rr) = j_lease rr"
  "j_progress (clearWaiting rr) = j_progress rr" "j_checkpoint (clearWaiting rr) = j_checkpoint rr"
  "j_error (clearWaiting rr) = j_error rr"
  by (simp_all add: setWaiting_def clearWaiting_def)

text \<open>The failure and the waiting word do not disturb each other.\<close>

lemma failure_waiting_independent [simp]:
  "LastFailure (setWaiting m w rr) = LastFailure rr" "LastFailure (clearWaiting rr) = LastFailure rr"
  "Waiting u (setFailure qt e rr) = Waiting u rr" "Waiting u (clearFailure rr) = Waiting u rr"
  "Waiting u (setFailureCause qt e rr) = Waiting u rr"
  by (simp_all add: LastFailure_def setWaiting_def clearWaiting_def Waiting_def setFailure_def
      clearFailure_def setFailureCause_def split: option.splits)

end
