(* ===== verification/Go_Path.thy ===== *)
theory Go_Path
  imports Go_Text
begin

text \<open>
  Package \<open>path/filepath\<close> on a POSIX host (where it agrees with package \<open>path\<close>): \<open>Clean\<close>, \<open>Join\<close> and
  \<open>Base\<close>. \<open>Clean\<close> works on the elements between slashes with a stack, the lexical algorithm its
  documentation describes.
\<close>

definition slash :: char where "slash = CHR ''/''"

definition backslash :: char where "backslash = CHR 0x5C"

definition dot :: string where "dot = ''.''"

definition dotdot :: string where "dotdot = ''..''"

lemma slash_ne_backslash [simp]: "slash \<noteq> backslash" "backslash \<noteq> slash"
  by (simp_all add: slash_def backslash_def)

lemma dot_ne_dotdot [simp]: "dot \<noteq> dotdot" "dotdot \<noteq> dot" "dot \<noteq> []" "dotdot \<noteq> []"
  by (simp_all add: dot_def dotdot_def)

lemma slash_notin_dots [simp]: "slash \<notin> set dot" "slash \<notin> set dotdot"
  by (simp_all add: slash_def dot_def dotdot_def)

section \<open>Clean on elements\<close>

definition clean_step :: "bool \<Rightarrow> string list \<Rightarrow> string \<Rightarrow> string list" where
  "clean_step rooted st w =
     (if w = [] \<or> w = dot then st
      else if w = dotdot then
        (case st of
           [] \<Rightarrow> (if rooted then [] else [dotdot])
         | t # ts \<Rightarrow> (if t = dotdot then dotdot # st else ts))
      else w # st)"

definition clean_elems :: "bool \<Rightarrow> string list \<Rightarrow> string list" where
  "clean_elems rooted ws = rev (foldl (clean_step rooted) [] ws)"

definition path_clean :: "string \<Rightarrow> string" where
  "path_clean p =
     (if p = [] then dot
      else let rooted = prefix [slash] p;
               es = clean_elems rooted (split_on slash p)
           in if rooted then slash # str_join [slash] es
              else if es = [] then dot else str_join [slash] es)"

text \<open>\<open>filepath.Join(a, b)\<close>: empty leading arguments are skipped, and no argument gives the empty path.\<close>

definition path_join :: "string \<Rightarrow> string \<Rightarrow> string" where
  "path_join a b =
     (if a = [] then (if b = [] then [] else path_clean b)
      else path_clean (a @ slash # b))"

text \<open>\<open>path.Base\<close>: the last element, with trailing slashes dropped first.\<close>

fun strip_slashes :: "string \<Rightarrow> string" where
  "strip_slashes s = rev (dropWhile (\<lambda>c. c = slash) (rev s))"

definition path_base :: "string \<Rightarrow> string" where
  "path_base p =
     (if p = [] then dot
      else let s = strip_slashes p
           in if s = [] then [slash] else last (split_on slash s))"

section \<open>What Clean produces\<close>

text \<open>A rooted walk never keeps an empty, \<open>.\<close> or \<open>..\<close> element.\<close>

definition plain_elem :: "string \<Rightarrow> bool" where
  "plain_elem w \<longleftrightarrow> w \<noteq> [] \<and> w \<noteq> dot \<and> w \<noteq> dotdot \<and> slash \<notin> set w"

lemma plain_elemD:
  "plain_elem w \<Longrightarrow> w \<noteq> []" "plain_elem w \<Longrightarrow> w \<noteq> dotdot" "plain_elem w \<Longrightarrow> slash \<notin> set w"
  by (simp_all add: plain_elem_def)

lemma clean_step_plain:
  "\<forall>w\<in>set st. plain_elem w \<Longrightarrow> slash \<notin> set w \<Longrightarrow>
     \<forall>x\<in>set (clean_step True st w). plain_elem x"
  by (cases st; cases "w = dotdot") (simp_all add: clean_step_def plain_elem_def)

lemma foldl_clean_plain:
  "\<forall>w\<in>set st. plain_elem w \<Longrightarrow> \<forall>w\<in>set ws. slash \<notin> set w \<Longrightarrow>
     \<forall>x\<in>set (foldl (clean_step True) st ws). plain_elem x"
proof (induction ws arbitrary: st)
  case Nil
  then show ?case by simp
next
  case (Cons w ws)
  then show ?case using clean_step_plain [of st w] by simp
qed

lemma clean_elems_plain:
  "\<forall>w\<in>set ws. slash \<notin> set w \<Longrightarrow> x \<in> set (clean_elems True ws) \<Longrightarrow> plain_elem x"
  using foldl_clean_plain [of "[]" ws] by (auto simp: clean_elems_def)

lemma split_no_slash: "\<forall>w\<in>set (split_on slash p). slash \<notin> set w"
  by (auto dest: split_on_no_sep)

lemma foldl_plain_id: "\<forall>w\<in>set ws. plain_elem w \<Longrightarrow> foldl (clean_step r) st ws = rev ws @ st"
proof (induction ws arbitrary: st)
  case Nil
  then show ?case by simp
next
  case (Cons w ws)
  then have "clean_step r st w = w # st" by (simp add: clean_step_def plain_elem_def)
  with Cons show ?case by simp
qed

lemma clean_elems_plain_id: "\<forall>w\<in>set ws. plain_elem w \<Longrightarrow> clean_elems r ws = ws"
  by (simp add: clean_elems_def foldl_plain_id)

lemma clean_step_Nil [simp]: "clean_step r st [] = st"
  by (simp add: clean_step_def)

text \<open>The elements of a cleaned absolute path.\<close>

definition abs_elems :: "string \<Rightarrow> string list" where
  "abs_elems p = clean_elems True (split_on slash p)"

lemma abs_elems_plain: "w \<in> set (abs_elems p) \<Longrightarrow> plain_elem w"
  unfolding abs_elems_def using clean_elems_plain split_no_slash by blast

lemma path_clean_abs: "prefix [slash] p \<Longrightarrow> path_clean p = slash # str_join [slash] (abs_elems p)"
  by (auto simp: path_clean_def abs_elems_def Let_def)

lemma abs_elems_join:
  assumes "\<forall>w\<in>set es. plain_elem w"
  shows "abs_elems (slash # str_join [slash] es) = es"
proof (cases "es = []")
  case True
  then show ?thesis by (simp add: abs_elems_def clean_elems_def)
next
  case False
  with assms have "split_on slash (str_join [slash] es) = es"
    by (intro split_join) (auto dest: plain_elemD)
  with assms show ?thesis
    using clean_elems_plain_id [of es True] by (simp add: abs_elems_def clean_elems_def)
qed

lemma abs_elems_clean: "prefix [slash] p \<Longrightarrow> abs_elems (path_clean p) = abs_elems p"
  by (simp add: path_clean_abs abs_elems_join abs_elems_plain)

lemma path_clean_idem_abs: "prefix [slash] p \<Longrightarrow> path_clean (path_clean p) = path_clean p"
  using abs_elems_clean [of p] path_clean_abs [of "path_clean p"] path_clean_abs [of p] by simp

text \<open>Appending a relative path continues the walk from the elements already on the stack.\<close>

lemma abs_elems_append:
  "abs_elems (root @ slash # p)
     = rev (foldl (clean_step True) (rev (abs_elems root)) (split_on slash p))"
  by (simp add: abs_elems_def clean_elems_def split_on_append2)

section \<open>Walks that never climb above where they start\<close>

text \<open>
  \<open>stays ws\<close> says that reading \<open>ws\<close> from left to right never takes a \<open>..\<close> the elements before it
  have not paid for.
\<close>

fun stays_from :: "nat \<Rightarrow> string list \<Rightarrow> bool" where
  "stays_from d [] = True"
| "stays_from d (w # ws) =
     (if w = [] \<or> w = dot then stays_from d ws
      else if w = dotdot then (0 < d \<and> stays_from (d - 1) ws)
      else stays_from (Suc d) ws)"

lemma stays_foldl:
  assumes "stays_from (length st) ws" "\<forall>w\<in>set st. w \<noteq> dotdot"
  shows "foldl (clean_step True) (st @ base) ws = foldl (clean_step True) st ws @ base"
  using assms
proof (induction ws arbitrary: st)
  case Nil
  then show ?case by simp
next
  case (Cons w ws)
  show ?case
  proof (cases "w = dotdot")
    case True
    with Cons.prems obtain t ts where st: "st = t # ts" by (cases st) auto
    with Cons.prems True have "clean_step True st w = ts" "clean_step True (st @ base) w = ts @ base"
      by (auto simp: clean_step_def)
    with Cons st True show ?thesis by simp
  next
    case False
    with Cons.prems Cons.IH [of st] Cons.IH [of "w # st"] show ?thesis
      by (auto simp: clean_step_def)
  qed
qed

lemma abs_elems_stays:
  "stays_from 0 (split_on slash p) \<Longrightarrow>
     abs_elems (root @ slash # p) = abs_elems root @ clean_elems True (split_on slash p)"
  using stays_foldl [of "[]" "split_on slash p" "rev (abs_elems root)"]
  by (simp add: abs_elems_append clean_elems_def)

section \<open>Relative walks\<close>

text \<open>A relative path cleans to some climbs followed by plain elements.\<close>

definition climb_shape :: "string list \<Rightarrow> bool" where
  "climb_shape es \<longleftrightarrow> (\<exists>k rest. es = replicate k dotdot @ rest \<and> (\<forall>w\<in>set rest. plain_elem w))"

lemma climb_shape_step:
  assumes "climb_shape (rev st)" "slash \<notin> set w"
  shows "climb_shape (rev (clean_step False st w))"
proof -
  obtain k rest where s: "rev st = replicate k dotdot @ rest" "\<forall>x\<in>set rest. plain_elem x"
    using assms(1) by (auto simp: climb_shape_def)
  have st: "st = rev rest @ replicate k dotdot" using s(1) by (metis rev_append rev_replicate rev_rev_ident)
  consider "w = [] \<or> w = dot" | "w = dotdot" "rest = []" | r l where "w = dotdot" "rest = r @ [l]"
    | "w \<noteq> []" "w \<noteq> dot" "w \<noteq> dotdot" by (metis rev_exhaust)
  then show ?thesis
  proof cases
    case 1
    with assms show ?thesis by (auto simp: clean_step_def)
  next
    case 2
    then have "clean_step False st w = replicate (Suc k) dotdot"
      by (cases k) (simp_all add: st clean_step_def)
    then show ?thesis by (auto simp: climb_shape_def simp del: replicate_Suc intro!: exI [of _ "Suc k"])
  next
    case 3
    with s(2) have "clean_step False st w = rev r @ replicate k dotdot"
      by (auto simp: st clean_step_def plain_elem_def)
    with 3 s(2) show ?thesis by (auto simp: climb_shape_def)
  next
    case 4
    with assms(2) have "plain_elem w" by (simp add: plain_elem_def)
    moreover have "clean_step False st w = w # st" using 4 by (simp add: clean_step_def)
    ultimately show ?thesis using s
      by (auto simp: climb_shape_def st intro!: exI [of _ k] exI [of _ "rest @ [w]"])
  qed
qed

lemma climb_shape_clean: "\<forall>w\<in>set ws. slash \<notin> set w \<Longrightarrow> climb_shape (clean_elems False ws)"
proof (induction ws rule: rev_induct)
  case Nil
  then show ?case by (auto simp: clean_elems_def climb_shape_def)
next
  case (snoc w ws)
  then show ?case using climb_shape_step [of "foldl (clean_step False) [] ws" w] by (simp add: clean_elems_def)
qed

text \<open>Walking a path from a directory is walking its cleaned elements from there.\<close>

lemma foldl_clean_relative:
  assumes "\<forall>w\<in>set ws. slash \<notin> set w"
  shows "foldl (clean_step True) base (clean_elems False ws) = foldl (clean_step True) base ws"
  using assms
proof (induction ws rule: rev_induct)
  case Nil
  then show ?case by (simp add: clean_elems_def)
next
  case (snoc w ws)
  define st where "st = foldl (clean_step False) [] ws"
  have ih: "foldl (clean_step True) base (rev st) = foldl (clean_step True) base ws"
    using snoc by (simp add: st_def clean_elems_def)
  have sh: "climb_shape (rev st)"
    using climb_shape_clean [of ws] snoc.prems by (simp add: st_def clean_elems_def)
  have last: "t = dotdot \<or> plain_elem t" if "st = t # ts" for t ts
  proof -
    have "t \<in> set (rev st)" using that by simp
    moreover obtain k rest where "rev st = replicate k dotdot @ rest" "\<forall>w\<in>set rest. plain_elem w"
      using sh by (auto simp: climb_shape_def)
    ultimately have "t \<in> set (replicate k dotdot) \<or> t \<in> set rest" by simp
    then show ?thesis using \<open>\<forall>w\<in>set rest. plain_elem w\<close> by auto
  qed
  have step: "foldl (clean_step True) base (rev (clean_step False st w))
      = clean_step True (foldl (clean_step True) base (rev st)) w"
  proof (cases "w = dotdot")
    case False
    then show ?thesis by (simp add: clean_step_def)
  next
    case dd: True
    show ?thesis
    proof (cases st)
      case Nil
      with dd show ?thesis by (simp add: clean_step_def)
    next
      case (Cons t ts)
      show ?thesis
      proof (cases "t = dotdot")
        case True
        with dd Cons show ?thesis by (simp add: clean_step_def)
      next
        case False
        with last [OF Cons] have "plain_elem t" by simp
        then have "clean_step True X t = t # X" for X by (simp add: clean_step_def plain_elem_def)
        with False dd Cons show ?thesis by (simp add: clean_step_def)
      qed
    qed
  qed
  show ?case using step ih by (simp add: clean_elems_def st_def)
qed

lemma foldl_climb:
  "foldl (clean_step True) base (replicate k dotdot @ rest) = foldl (clean_step True) (drop k base) rest"
  if "\<forall>w\<in>set base. w \<noteq> dotdot"
  using that
proof (induction k arbitrary: base)
  case 0
  then show ?case by simp
next
  case (Suc k)
  have "clean_step True base dotdot = drop 1 base"
    using Suc.prems by (cases base) (auto simp: clean_step_def)
  with Suc.IH [of "drop 1 base"] Suc.prems show ?case
    by (auto dest: in_set_dropD)
qed

end
