(* ===== verification/Spec_Paths.thy ===== *)
theory Spec_Paths
  imports Record_State Go_Path
begin

text \<open>
  The description of a download and the paths in it (\<open>go/spec.go\<close>, \<open>go/reserved.go\<close>,
  \<open>go/local.go\<close>, \<open>go/nesting.go\<close>, \<open>MemberPath\<close> of \<open>go/slice.go\<close>): validation, the one spelling a
  path has in a record, containment of a sink under the store root, the names a sink may not have,
  and digests compared by what they mean.

  The host is a POSIX one (\<open>filepath\<close> uses \<open>/\<close>, \<open>runtime.GOOS\<close> is not \<open>windows\<close>). \<open>job.Reserved\<close> and
  \<open>job.RootName\<close> belong to the job layer and are the argument \<open>nm\<close>.
\<close>

section \<open>The description\<close>

record artifact =
  a_digest :: string
  a_size :: int

record source =
  s_scheme :: string
  s_locator :: string
  s_attrs :: "(string \<times> string) list"
  s_headers :: "(string \<times> string) list"
  s_priority :: int

record sink =
  k_partial :: string
  k_final :: string

record spec =
  sp_artifact :: artifact
  sp_sources :: "source list"
  sp_sink :: sink
  sp_request :: string
  sp_constraints :: "string option"

text \<open>A Go map read with a missing key gives the empty string. The constraints hold one word.\<close>

definition lookup :: "(string \<times> string) list \<Rightarrow> string \<Rightarrow> string" where
  "lookup m k = (case map_of m k of None \<Rightarrow> [] | Some v \<Rightarrow> v)"

definition NetworkUnmetered :: string where "NetworkUnmetered = ''unmetered''"

definition WantsUnmetered :: "spec \<Rightarrow> bool" where
  "WantsUnmetered s \<longleftrightarrow> sp_constraints s = Some NetworkUnmetered"

definition CredentialAttr :: string where "CredentialAttr = ''credential''"

definition CredentialHeaderAttr :: string where "CredentialHeaderAttr = ''credential_header''"

definition resolvedHeaders :: "string list" where
  "resolvedHeaders = [''authorization'', ''proxy-authorization'', ''cookie'', ''range'']"

fun validHeaders_from :: "(string \<Rightarrow> string) \<Rightarrow> source \<Rightarrow> (string \<times> string) list \<Rightarrow> err option" where
  "validHeaders_from uni src [] = None"
| "validHeaders_from uni src ((name, v) # hs) =
     (let lower = to_lower uni (trim_space name) in
      if lower = [] then Some (Plain ''a header needs a name'')
      else if lower \<in> set resolvedHeaders \<or>
              lower = to_lower uni (lookup (s_attrs src) CredentialHeaderAttr)
      then Some (Errorf [Lit ''header '', Quoted name,
             Lit '' is resolved on the machine that fetches, so a record may not carry it''])
      else validHeaders_from uni src hs)"

definition validHeaders :: "(string \<Rightarrow> string) \<Rightarrow> source \<Rightarrow> err option" where
  "validHeaders uni src = validHeaders_from uni src (s_headers src)"

section \<open>Path conventions\<close>

definition goos_windows :: bool where "goos_windows = False"

definition has_drive :: "string \<Rightarrow> bool" where
  "has_drive p = (case p of c # d # _ \<Rightarrow> d = CHR '':'' \<and> (is_upper c \<or> is_lower c) | _ \<Rightarrow> False)"

definition is_abs :: "string \<Rightarrow> bool" where
  "is_abs p \<longleftrightarrow> prefix [slash] p"

definition relativeEverywhere :: "string \<Rightarrow> bool" where
  "relativeEverywhere p \<longleftrightarrow>
     \<not> (prefix [slash] p \<or> prefix [backslash] p) \<and> \<not> has_drive p \<and> \<not> is_abs p"

definition windowsShaped :: "string \<Rightarrow> bool" where
  "windowsShaped p \<longleftrightarrow> prefix [backslash] p \<or> prefix [slash, slash] p \<or> has_drive p"

definition Portable :: "string \<Rightarrow> string" where
  "Portable p = (if prefix [slash] p then p else replace_char backslash slash p)"

definition PartialFor :: "string \<Rightarrow> string \<Rightarrow> string" where
  "PartialFor final jid = (if relativeEverywhere final then ''work/'' @ jid else final @ ''.part'')"

fun drop_trailing :: "string \<Rightarrow> string" where
  "drop_trailing s =
     (if 1 < length s \<and> suffix [slash] s then drop_trailing (take (length s - 1) s) else s)"

declare drop_trailing.simps [simp del]

definition comparablePath :: "string \<Rightarrow> string" where
  "comparablePath p =
     (if p = [] then []
      else let s = replace_char backslash slash p;
               isunc = prefix [slash, slash] s \<and> \<not> prefix [slash, slash, slash] s;
               unc = (if isunc then [slash] else []);
               s = (if isunc then drop 1 s else s)
           in drop_trailing (unc @ replace_char backslash slash (path_clean s)))"

definition under :: "string \<Rightarrow> string \<Rightarrow> bool" where
  "under root resolved =
     (let r = comparablePath root; c = comparablePath resolved in
      if r = [] \<or> r = dot then c \<noteq> dotdot \<and> \<not> prefix (dotdot @ [slash]) c
      else if c = r then True
      else prefix (if suffix [slash] r then r else r @ [slash]) c)"

definition resolveUnder :: "string \<Rightarrow> string \<Rightarrow> err + string" where
  "resolveUnder root p =
     (if p = [] \<or> \<not> relativeEverywhere p then Inr p
      else let resolved = path_join root (replace_char backslash slash p)
           in if under root resolved then Inr resolved
              else Inl (Errorf [Err (Var ErrEscapesRoot), Lit '': '', Str p]))"

definition probeRoot :: string where "probeRoot = ''/probe''"

fun err_of :: "'e + 'a \<Rightarrow> 'e option" where
  "err_of (Inl e) = Some e"
| "err_of (Inr _) = None"

definition EscapesRoot :: "string \<Rightarrow> err option" where
  "EscapesRoot p = err_of (resolveUnder probeRoot p)"

section \<open>Reserved and foreign names\<close>

record name_ops =
  nm_reserved :: "string \<Rightarrow> string \<Rightarrow> bool"
  nm_root_name :: "string \<Rightarrow> string"

definition besideTheStore :: "string list" where
  "besideTheStore = [''supervisor.json'', ''supervisor.json.tmp'', ''supervisor.sock'']"

definition ReservedSink :: "name_ops \<Rightarrow> string \<Rightarrow> string \<Rightarrow> err option" where
  "ReservedSink nm owner p =
     (if \<not> relativeEverywhere p then None
      else if nm_reserved nm owner p \<or> nm_root_name nm p \<in> set besideTheStore
      then Some (Errorf [Err (Var ErrReservedPath), Lit '': '', Str p])
      else None)"

definition ForeignPath :: "string \<Rightarrow> err option" where
  "ForeignPath p =
     (if p = [] \<or> relativeEverywhere p \<or> windowsShaped p = goos_windows then None
      else Some (Errorf [Err (Var ErrForeignPath), Lit '': '', Str p]))"

definition resolveSink :: "name_ops \<Rightarrow> string \<Rightarrow> string \<Rightarrow> string \<Rightarrow> err + string" where
  "resolveSink nm root owner p =
     bind_result (resolveUnder root p) (\<lambda>resolved.
       case ForeignPath p of
         Some e \<Rightarrow> Inl e
       | None \<Rightarrow> (case ReservedSink nm owner p of Some e \<Rightarrow> Inl e | None \<Rightarrow> Inr resolved))"

text \<open>\<open>Sink.Resolve\<close>, and \<open>LocalSink\<close> with the root the store's binding answers.\<close>

definition Resolve :: "name_ops \<Rightarrow> string \<Rightarrow> string \<Rightarrow> sink \<Rightarrow> err + (string \<times> string)" where
  "Resolve nm root owner s =
     bind_result (resolveSink nm root owner (k_partial s)) (\<lambda>partial.
     bind_result (resolveSink nm root owner (k_final s)) (\<lambda>final. Inr (partial, final)))"

definition localRoot :: "string option \<Rightarrow> string" where
  "localRoot scratch_root = (case scratch_root of Some r \<Rightarrow> r | None \<Rightarrow> [])"

definition LocalSink :: "name_ops \<Rightarrow> string option \<Rightarrow> string \<Rightarrow> sink \<Rightarrow> err + (string \<times> string)" where
  "LocalSink nm scratch_root owner s = Resolve nm (localRoot scratch_root) owner s"

definition PortableSink :: "sink \<Rightarrow> bool" where
  "PortableSink s \<longleftrightarrow> list_all (\<lambda>p. p = [] \<or> relativeEverywhere p) [k_final s, k_partial s]"

definition refuseUnportableSink :: "bool \<Rightarrow> sink \<Rightarrow> err option" where
  "refuseUnportableSink shared s =
     (if \<not> shared \<or> PortableSink s then None
      else let p = (if PortableSink \<lparr>k_partial = [], k_final = k_final s\<rparr> then k_partial s else k_final s)
           in Some (Errorf [Err (Var ErrUnportableSink), Lit '': '', Str p]))"

section \<open>Digests\<close>

definition is_lower_hex :: "char \<Rightarrow> bool" where
  "is_lower_hex c \<longleftrightarrow> is_digit c \<or> 97 \<le> byte_of c \<and> byte_of c \<le> 102"

definition bareHex :: "(string \<Rightarrow> string) \<Rightarrow> string \<Rightarrow> string" where
  "bareHex uni d =
     (let s = to_lower uni (trim_space d);
          s = trim_prefix ''sha256:'' s;
          s = trim_prefix ''sha256-'' s
      in if length s \<noteq> 64 then [] else if list_all is_lower_hex s then s else [])"

definition sameDigest :: "(string \<Rightarrow> string) \<Rightarrow> string \<Rightarrow> string \<Rightarrow> bool" where
  "sameDigest uni a b \<longleftrightarrow> bareHex uni a \<noteq> [] \<and> bareHex uni a = bareHex uni b"

definition NormalDigest :: "(string \<Rightarrow> string) \<Rightarrow> string \<Rightarrow> string" where
  "NormalDigest uni d = (let h = bareHex uni d in if h \<noteq> [] then ''sha256:'' @ h else [])"

section \<open>Nesting\<close>

definition SpecDepthLimit :: nat where "SpecDepthLimit = 1000"

definition nest_step :: "char \<Rightarrow> (nat \<times> bool \<times> bool) \<Rightarrow> (nat \<times> bool \<times> bool) option" where
  "nest_step c st =
     (case st of (depth, inString, escaped) \<Rightarrow>
        if inString then
          (if escaped then Some (depth, True, False)
           else if c = bslash then Some (depth, True, True)
           else if c = quote then Some (depth, False, escaped)
           else Some (depth, True, escaped))
        else if c = quote then Some (depth, True, escaped)
        else if c = CHR ''{'' \<or> c = CHR ''['' then
          (if SpecDepthLimit < depth + 1 then None else Some (depth + 1, inString, escaped))
        else if c = CHR ''}'' \<or> c = CHR '']'' then Some (depth - 1, inString, escaped)
        else Some (depth, inString, escaped))"

fun nest_walk :: "(nat \<times> bool \<times> bool) \<Rightarrow> string \<Rightarrow> err option" where
  "nest_walk st [] = None"
| "nest_walk st (c # cs) =
     (case nest_step c st of None \<Rightarrow> Some (Var ErrNestedTooDeep) | Some st' \<Rightarrow> nest_walk st' cs)"

definition RefuseDeepNesting :: "string \<Rightarrow> err option" where
  "RefuseDeepNesting b = nest_walk (0, False, False) b"

section \<open>Validation and submission\<close>

fun validSources :: "(string \<Rightarrow> string) \<Rightarrow> int \<Rightarrow> source list \<Rightarrow> err option" where
  "validSources uni i [] = None"
| "validSources uni i (src # rest) =
     (if trim_space (s_scheme src) = [] then
        Some (Errorf [Lit ''download: source '', Num i, Lit '': scheme is required''])
      else if trim_space (s_locator src) = [] then
        Some (Errorf [Lit ''download: source '', Num i, Lit '': locator is required''])
      else case validHeaders uni src of
        Some e \<Rightarrow> Some (Errorf [Lit ''download: source '', Num i, Lit '': '', Err e])
      | None \<Rightarrow> validSources uni (i + 1) rest)"

fun validPaths :: "name_ops \<Rightarrow> string \<Rightarrow> string list \<Rightarrow> err option" where
  "validPaths nm owner [] = None"
| "validPaths nm owner (p # ps) =
     (case EscapesRoot p of
        Some e \<Rightarrow> Some e
      | None \<Rightarrow> (case ReservedSink nm owner p of Some e \<Rightarrow> Some e | None \<Rightarrow> validPaths nm owner ps))"

definition ValidateFor :: "(string \<Rightarrow> string) \<Rightarrow> name_ops \<Rightarrow> string \<Rightarrow> spec \<Rightarrow> err option" where
  "ValidateFor uni nm owner s =
     (if sp_sources s = [] then Some (Errorf [Lit ''download: at least one source is required''])
      else case validSources uni 0 (sp_sources s) of
        Some e \<Rightarrow> Some e
      | None \<Rightarrow>
          if trim_space (k_final (sp_sink s)) = [] then
            Some (Errorf [Lit ''download: sink final path is required''])
          else (case validPaths nm owner [k_final (sp_sink s), k_partial (sp_sink s)] of
            Some e \<Rightarrow> Some e
          | None \<Rightarrow>
              if a_digest (sp_artifact s) \<noteq> [] \<and> \<not> prefix ''sha256:'' (a_digest (sp_artifact s)) then
                Some (Errorf [Lit ''download: digest '', Quoted (a_digest (sp_artifact s)),
                  Lit '' is not sha256:<hex>''])
              else None))"

definition Validate :: "(string \<Rightarrow> string) \<Rightarrow> name_ops \<Rightarrow> spec \<Rightarrow> err option" where
  "Validate uni nm s = ValidateFor uni nm [] s"

text \<open>
  The description and the progress total \<open>submitAs\<close> puts in the record it hands to the store.
\<close>

definition submitAs ::
  "(string \<Rightarrow> string) \<Rightarrow> name_ops \<Rightarrow> string \<Rightarrow> spec \<Rightarrow> err + (spec \<times> int)" where
  "submitAs uni nm jid s =
     (case ValidateFor uni nm jid s of
        Some e \<Rightarrow> Inl e
      | None \<Rightarrow>
          (let partial = Portable (k_partial (sp_sink s));
               final = Portable (k_final (sp_sink s));
               partial = (if partial = [] then PartialFor final jid else partial)
           in Inr (s\<lparr>sp_sink := \<lparr>k_partial = partial, k_final = final\<rparr>\<rparr>, a_size (sp_artifact s))))"

section \<open>Archive members\<close>

definition MemberPath :: "name_ops \<Rightarrow> string \<Rightarrow> string \<Rightarrow> err + string" where
  "MemberPath nm owner name =
     (let clean = trim_suffix [slash] (replace_char backslash slash name) in
      if clean = [] then Inl (Errorf [Err (Var ErrEscapesRoot), Lit '': '', Quoted name, Lit '' names nothing''])
      else if \<not> relativeEverywhere clean then Inl (Errorf [Err (Var ErrEscapesRoot), Lit '': '', Str name])
      else case EscapesRoot clean of
        Some e \<Rightarrow> Inl e
      | None \<Rightarrow> (case ReservedSink nm owner clean of Some e \<Rightarrow> Inl e | None \<Rightarrow> Inr (path_clean clean)))"

section \<open>Containment\<close>

text \<open>A rooted path no part of which reads as another convention.\<close>

definition plain_root :: "string \<Rightarrow> bool" where
  "plain_root p \<longleftrightarrow> prefix [slash] p \<and> \<not> prefix [slash, slash] p \<and> backslash \<notin> set p"

lemma drop_trailing_id: "\<not> (1 < length s \<and> suffix [slash] s) \<Longrightarrow> drop_trailing s = s"
  by (subst drop_trailing.simps) auto

lemma suffix_one_iff: "suffix [c] s \<longleftrightarrow> s \<noteq> [] \<and> last s = c"
  by (cases s rule: rev_cases) auto

lemma set_str_join: "set (str_join sep ws) \<subseteq> set sep \<union> \<Union> (set ` set ws)"
  by (induction sep ws rule: str_join.induct) auto

lemma set_split_on: "\<forall>w\<in>set (split_on c s). set w \<subseteq> set s"
proof (induction s)
  case Nil
  then show ?case by simp
next
  case (Cons x s)
  then show ?case by (cases "split_on c s") auto
qed

lemma set_clean_step: "set (clean_step r st w) \<subseteq> insert dotdot (insert w (set st))"
  by (cases st) (auto simp: clean_step_def)

lemma set_foldl_clean: "set (foldl (clean_step r) st ws) \<subseteq> insert dotdot (set ws \<union> set st)"
proof (induction ws arbitrary: st)
  case Nil
  then show ?case by auto
next
  case (Cons w ws)
  from Cons [of "clean_step r st w"] set_clean_step [of r st w] show ?case by auto
qed

lemma chars_abs_elems: "w \<in> set (abs_elems p) \<Longrightarrow> set w \<subseteq> set p \<union> set dotdot"
  using set_foldl_clean [of True "[]" "split_on slash p"] set_split_on
  unfolding abs_elems_def clean_elems_def by fastforce

lemma backslash_notin_clean: "prefix [slash] p \<Longrightarrow> backslash \<notin> set p \<Longrightarrow> backslash \<notin> set (path_clean p)"
  using set_str_join [of "[slash]" "abs_elems p"] chars_abs_elems [of _ p]
  by (auto simp: path_clean_abs dotdot_def) (auto simp: backslash_def slash_def)

lemma join_plain_ends_all:
  "es \<noteq> [] \<Longrightarrow> \<forall>w\<in>set es. plain_elem w \<Longrightarrow>
     str_join [slash] es \<noteq> [] \<and> hd (str_join [slash] es) \<noteq> slash \<and> last (str_join [slash] es) \<noteq> slash"
proof (induction es rule: list_nonempty_induct)
  case (single x)
  then show ?case by (auto simp: plain_elem_def) (metis hd_in_set, metis last_in_set)
next
  case (cons x xs)
  then have "x \<noteq> []" "slash \<notin> set x" by (auto simp: plain_elem_def)
  then have "hd x \<noteq> slash" by (metis hd_in_set)
  with cons \<open>x \<noteq> []\<close> show ?case by (simp add: str_join_Cons)
qed

lemma join_plain_ends:
  assumes "\<forall>w\<in>set es. plain_elem w" "es \<noteq> []"
  shows "str_join [slash] es \<noteq> []" "hd (str_join [slash] es) \<noteq> slash" "last (str_join [slash] es) \<noteq> slash"
  using join_plain_ends_all [OF assms(2,1)] by auto

lemma comparable_clean:
  assumes "plain_root p"
  shows "comparablePath p = path_clean p"
proof -
  let ?es = "abs_elems p"
  have rooted: "prefix [slash] p" and bs: "backslash \<notin> set p" and "\<not> prefix [slash, slash] p"
    using assms by (auto simp: plain_root_def)
  have c: "path_clean p = slash # str_join [slash] ?es" by (rule path_clean_abs [OF rooted])
  have "\<not> (1 < length (path_clean p) \<and> suffix [slash] (path_clean p))"
    using join_plain_ends(1,3) [of ?es] abs_elems_plain [of _ p]
    by (cases "?es = []") (auto simp: c suffix_one_iff)
  moreover have "p \<noteq> []" using rooted by auto
  ultimately show ?thesis
    using assms backslash_notin_clean [OF rooted bs]
    by (simp add: comparablePath_def Let_def replace_char_id plain_root_def drop_trailing_id)
qed

lemma plain_root_clean:
  assumes "prefix [slash] p" "backslash \<notin> set p"
  shows "plain_root (path_clean p)"
proof -
  have "\<not> prefix [slash, slash] (path_clean p)"
    using join_plain_ends(1,2) [of "abs_elems p"] abs_elems_plain [of _ p]
    by (cases "abs_elems p = []"; cases "str_join [slash] (abs_elems p)") (auto simp: path_clean_abs [OF assms(1)])
  with assms backslash_notin_clean [OF assms] show ?thesis
    by (simp add: plain_root_def path_clean_abs)
qed

lemma prefix_join_elems:
  assumes "\<forall>w\<in>set es. plain_elem w" "\<forall>w\<in>set fs. plain_elem w" "es \<noteq> []"
  shows "str_join [slash] fs = str_join [slash] es \<or> prefix (str_join [slash] es @ [slash]) (str_join [slash] fs)
    \<longleftrightarrow> prefix es fs"
proof
  assume l: "str_join [slash] fs = str_join [slash] es \<or>
    prefix (str_join [slash] es @ [slash]) (str_join [slash] fs)"
  have e: "split_on slash (str_join [slash] es) = es"
    using assms by (intro split_join) (auto dest: plain_elemD)
  have "fs \<noteq> []" using l join_plain_ends(1) [OF assms(1,3)] by (cases fs) auto
  then have f: "split_on slash (str_join [slash] fs) = fs"
    using assms by (intro split_join) (auto dest: plain_elemD)
  from l show "prefix es fs"
  proof
    assume "str_join [slash] fs = str_join [slash] es"
    with e f show ?thesis by simp
  next
    assume "prefix (str_join [slash] es @ [slash]) (str_join [slash] fs)"
    then obtain rest where "str_join [slash] fs = str_join [slash] es @ slash # rest"
      by (auto simp: prefix_def)
    then have "fs = es @ split_on slash rest" using f e split_on_append2 by metis
    then show ?thesis by simp
  qed
next
  assume "prefix es fs"
  then obtain gs where "fs = es @ gs" by (auto simp: prefix_def)
  then show "str_join [slash] fs = str_join [slash] es \<or>
      prefix (str_join [slash] es @ [slash]) (str_join [slash] fs)"
    using assms(3) str_join_append [of es gs "[slash]"] by (cases "gs = []") auto
qed

text \<open>The lexical check decides containment of one directory walk in another.\<close>

lemma under_iff:
  assumes "plain_root root" "plain_root p"
  shows "under root p \<longleftrightarrow> prefix (abs_elems root) (abs_elems p)"
proof -
  let ?r = "abs_elems root" and ?p = "abs_elems p"
  have r: "comparablePath root = slash # str_join [slash] ?r"
    and p: "comparablePath p = slash # str_join [slash] ?p"
    using assms by (simp_all add: comparable_clean path_clean_abs plain_root_def)
  have pr: "\<forall>w\<in>set ?r. plain_elem w" "\<forall>w\<in>set ?p. plain_elem w" by (simp_all add: abs_elems_plain)
  show ?thesis
  proof (cases "?r = []")
    case True
    then show ?thesis by (simp add: under_def Let_def r p dot_def slash_def)
  next
    case False
    have ns: "\<not> suffix [slash] (slash # str_join [slash] ?r)"
      using join_plain_ends(1,3) [OF pr(1) False] by (auto simp: suffix_one_iff)
    have nd: "slash # str_join [slash] ?r \<noteq> dot" by (simp add: dot_def slash_def)
    have "under root p \<longleftrightarrow> str_join [slash] ?p = str_join [slash] ?r \<or>
        prefix (str_join [slash] ?r @ [slash]) (str_join [slash] ?p)"
      using ns nd by (simp add: under_def Let_def r p)
    then show ?thesis using prefix_join_elems [OF pr False] by simp
  qed
qed

lemma relative_no_root: "relativeEverywhere p \<Longrightarrow> \<not> prefix [slash] p"
  by (simp add: relativeEverywhere_def)

lemma backslash_replaced [simp]: "backslash \<notin> set (replace_char backslash slash p)"
  by (induction p) auto

lemma resolve_join:
  assumes "plain_root root"
  shows "path_join root (replace_char backslash slash p) = path_clean (root @ slash # replace_char backslash slash p)"
    and "plain_root (path_clean (root @ slash # replace_char backslash slash p))"
proof -
  have "root \<noteq> []" using assms by (auto simp: plain_root_def)
  then show "path_join root (replace_char backslash slash p) = path_clean (root @ slash # replace_char backslash slash p)"
    by (simp add: path_join_def)
  have "prefix [slash] (root @ slash # replace_char backslash slash p)"
    using assms by (auto simp: plain_root_def prefix_def)
  then show "plain_root (path_clean (root @ slash # replace_char backslash slash p))"
    using assms by (intro plain_root_clean) (auto simp: plain_root_def)
qed

text \<open>A relative sink resolves exactly when the walk it names ends inside the root.\<close>

lemma resolveUnder_relative:
  assumes "plain_root root" "relativeEverywhere p" "p \<noteq> []"
  shows "resolveUnder root p =
    (let q = path_clean (root @ slash # replace_char backslash slash p)
     in if prefix (abs_elems root) (abs_elems q) then Inr q
        else Inl (Errorf [Err (Var ErrEscapesRoot), Lit '': '', Str p]))"
  using assms by (simp add: resolveUnder_def resolve_join under_iff Let_def)

lemma resolveUnder_contained:
  assumes "resolveUnder root p = Inr q" "plain_root root" "relativeEverywhere p" "p \<noteq> []"
  shows "prefix (abs_elems root) (abs_elems q)"
  using assms by (auto simp: resolveUnder_relative Let_def split: if_splits)

text \<open>A path that never climbs above where it starts resolves under every root.\<close>

lemma resolveUnder_stays:
  assumes "plain_root root" "stays_from 0 (split_on slash (replace_char backslash slash p))"
    "relativeEverywhere p" "p \<noteq> []"
  shows "\<exists>q. resolveUnder root p = Inr q \<and>
    abs_elems q = abs_elems root @ clean_elems True (split_on slash (replace_char backslash slash p))"
proof -
  let ?p = "replace_char backslash slash p"
  have rooted: "prefix [slash] (root @ slash # ?p)" using assms(1) by (auto simp: plain_root_def prefix_def)
  have "abs_elems (path_clean (root @ slash # ?p)) = abs_elems root @ clean_elems True (split_on slash ?p)"
    using abs_elems_clean [OF rooted] abs_elems_stays [OF assms(2), of root] by simp
  then show ?thesis using assms by (simp add: resolveUnder_relative Let_def)
qed

section \<open>One spelling\<close>

lemma Portable_idem: "Portable (Portable p) = Portable p"
  by (simp add: Portable_def)

lemma prefix_replace:
  "prefix [slash] (replace_char backslash slash p) \<longleftrightarrow> prefix [slash] p \<or> prefix [backslash] p"
  by (cases p) auto

lemma has_drive_replace: "has_drive (replace_char backslash slash p) = has_drive p"
  by (cases p; cases "tl p") (auto simp: has_drive_def slash_def backslash_def is_upper_def is_lower_def)

lemma relative_replace: "relativeEverywhere (replace_char backslash slash p) = relativeEverywhere p"
proof -
  have "\<not> prefix [backslash] (replace_char backslash slash p)" by (cases p) auto
  then show ?thesis by (auto simp: relativeEverywhere_def prefix_replace has_drive_replace is_abs_def)
qed

lemma relative_Portable: "relativeEverywhere (Portable p) = relativeEverywhere p"
  by (simp add: Portable_def relative_replace)

lemma resolveUnder_Portable:
  "relativeEverywhere p \<Longrightarrow> resolveUnder root (Portable p) = Inr q \<longleftrightarrow> resolveUnder root p = Inr q"
proof -
  assume rel: "relativeEverywhere p"
  then have "Portable p = replace_char backslash slash p" by (simp add: Portable_def relativeEverywhere_def)
  with rel show ?thesis by (auto simp: resolveUnder_def relative_replace Let_def)
qed

lemma relative_PartialFor: "relativeEverywhere (PartialFor p jid) = relativeEverywhere p"
proof (cases "relativeEverywhere p")
  case True
  then show ?thesis
    by (simp add: PartialFor_def relativeEverywhere_def has_drive_def is_abs_def slash_def backslash_def)
next
  case False
  then have "\<not> relativeEverywhere (p @ ''.part'')"
    by (cases p; cases "tl p") (auto simp: relativeEverywhere_def has_drive_def is_abs_def)
  with False show ?thesis by (simp add: PartialFor_def)
qed

lemma submitAs_sink:
  assumes "submitAs uni nm jid s = Inr (s', n)"
  shows "sp_sink s' = \<lparr>k_partial = (if k_partial (sp_sink s) = []
           then PartialFor (Portable (k_final (sp_sink s))) jid else Portable (k_partial (sp_sink s))),
           k_final = Portable (k_final (sp_sink s))\<rparr>"
  using assms by (auto simp: submitAs_def Let_def Portable_def split: option.splits)

section \<open>Digests by meaning\<close>

lemma bareHex_lower_hex: "bareHex uni d \<noteq> [] \<Longrightarrow> list_all is_lower_hex (bareHex uni d) \<and> length (bareHex uni d) = 64"
  by (auto simp: bareHex_def Let_def split: if_splits)

lemma lower_hex_byte: "is_lower_hex c \<Longrightarrow> 32 < byte_of c \<and> byte_of c < 128 \<and> \<not> is_upper c \<and> c \<noteq> CHR ''s''"
  by (auto simp: is_lower_hex_def is_digit_def is_upper_def)

lemma bareHex_prefixed:
  assumes "list_all is_lower_hex h" "length h = 64"
  shows "bareHex uni (''sha256:'' @ h) = h" and "bareHex uni h = h"
proof -
  have c: "\<forall>c\<in>set h. 32 < byte_of c \<and> byte_of c < 128 \<and> \<not> is_upper c \<and> c \<noteq> CHR ''s''"
    using assms(1) lower_hex_byte by (auto simp: list_all_iff)
  have np: "\<not> prefix ''sha256:'' h" "\<not> prefix ''sha256-'' h"
    using c set_mono_prefix [of "''sha256:''" h] set_mono_prefix [of "''sha256-''" h] by auto
  have id: "to_lower uni t = t \<and> trim_space t = t"
    if "\<forall>c\<in>set t. 32 < byte_of c \<and> byte_of c < 128 \<and> \<not> is_upper c" for t
    using that to_lower_no_upper [of t uni] trim_space_all [of t] ascii_printable_not_edge
    by (simp add: is_ascii_def list_all_iff)
  have "\<forall>c\<in>set ''sha256:''. 32 < byte_of c \<and> byte_of c < 128 \<and> \<not> is_upper c"
    by (simp add: is_upper_def)
  then have low: "to_lower uni (''sha256:'' @ h) = ''sha256:'' @ h" "to_lower uni h = h"
    and trim: "trim_space (''sha256:'' @ h) = ''sha256:'' @ h" "trim_space h = h"
    using id [of "''sha256:'' @ h"] id [of h] c by (simp_all only: set_append ball_Un) blast+
  with low trim np assms show "bareHex uni (''sha256:'' @ h) = h" "bareHex uni h = h"
    by (auto simp: bareHex_def trim_prefix_def Let_def)
qed

lemma bareHex_Normal: "bareHex uni (NormalDigest uni d) = bareHex uni d"
proof (cases "bareHex uni d = []")
  case True
  then show ?thesis by (simp add: NormalDigest_def bareHex_def trim_prefix_def)
next
  case False
  with bareHex_prefixed(1) [of "bareHex uni d" uni] bareHex_lower_hex [of uni d] show ?thesis
    by (simp add: NormalDigest_def)
qed

lemma NormalDigest_idem: "NormalDigest uni (NormalDigest uni d) = NormalDigest uni d"
  using bareHex_Normal [of uni d] by (simp add: NormalDigest_def [of uni "NormalDigest uni d"])
    (simp add: NormalDigest_def)

lemma sameDigest_Normal:
  "sameDigest uni a b \<longleftrightarrow> NormalDigest uni a \<noteq> [] \<and> NormalDigest uni a = NormalDigest uni b"
  by (auto simp: sameDigest_def NormalDigest_def Let_def)

section \<open>Members of an archive\<close>

lemma MemberPath_Inr:
  assumes "MemberPath nm owner name = Inr q"
  defines "c \<equiv> trim_suffix [slash] (replace_char backslash slash name)"
  shows "c \<noteq> []" "relativeEverywhere c" "EscapesRoot c = None" "ReservedSink nm owner c = None" "q = path_clean c"
  using assms by (auto simp: MemberPath_def Let_def split: if_splits option.splits)

lemma probeRoot_plain: "plain_root probeRoot"
  by (simp add: plain_root_def probeRoot_def slash_def backslash_def)

lemma abs_elems_probe: "abs_elems probeRoot = [''probe'']"
  by (simp add: abs_elems_def probeRoot_def slash_def clean_elems_def clean_step_def dot_def dotdot_def)

lemma replaced_fixed: "backslash \<notin> set c \<Longrightarrow> replace_char backslash slash c = c"
  by (rule replace_char_id)

lemma trim_suffix_set: "set (trim_suffix sfx s) \<subseteq> set s"
  by (auto simp: trim_suffix_def dest: in_set_takeD)

text \<open>
  What the stand-in root lets through: a path that does not climb, or one that climbs and comes
  back down through a directory named \<open>probe\<close>.
\<close>

lemma EscapesRoot_shape:
  assumes "EscapesRoot p = None" "relativeEverywhere p" "p \<noteq> []"
  defines "ws \<equiv> split_on slash (replace_char backslash slash p)"
  shows "\<exists>k rest. clean_elems False ws = replicate k dotdot @ rest \<and> (\<forall>w\<in>set rest. plain_elem w) \<and>
    (k = 0 \<or> (\<exists>rest'. rest = ''probe'' # rest'))"
proof -
  let ?p = "replace_char backslash slash p"
  have ns: "\<forall>w\<in>set ws. slash \<notin> set w" unfolding ws_def by (rule split_no_slash)
  obtain k rest where kr: "clean_elems False ws = replicate k dotdot @ rest" "\<forall>w\<in>set rest. plain_elem w"
    using climb_shape_clean [OF ns] by (auto simp: climb_shape_def)
  obtain q where q: "resolveUnder probeRoot p = Inr q"
    using assms(1) by (auto simp: EscapesRoot_def elim: err_of.elims)
  have rooted: "prefix [slash] (probeRoot @ slash # ?p)" by (simp add: probeRoot_def slash_def)
  have "q = path_clean (probeRoot @ slash # ?p)"
    using q resolveUnder_relative [OF probeRoot_plain assms(2,3)] by (auto simp: Let_def split: if_splits)
  then have "abs_elems q = rev (foldl (clean_step True) [''probe''] ws)"
    using abs_elems_clean [OF rooted] abs_elems_append [of probeRoot ?p] by (simp add: abs_elems_probe ws_def)
  also have "\<dots> = rev (foldl (clean_step True) (drop k [''probe'']) rest)"
    using foldl_clean_relative [OF ns, of "[''probe'']"] foldl_climb [of "[''probe'']" k rest] kr(1)
    by (simp add: dotdot_def)
  also have "\<dots> = rev (drop k [''probe'']) @ rest" using kr(2) by (simp add: foldl_plain_id)
  finally have e: "abs_elems q = rev (drop k [''probe'']) @ rest" .
  have "prefix [''probe''] (abs_elems q)"
    using resolveUnder_contained [OF q probeRoot_plain assms(2,3)] by (simp add: abs_elems_probe)
  with e have "k = 0 \<or> (\<exists>rest'. rest = ''probe'' # rest')" by (cases k; cases rest) auto
  with kr show ?thesis by blast
qed

end
