(* ===== verification/Nesting.thy ===== *)
theory Nesting
  imports Spec_Paths
begin

text \<open>
  \<open>RefuseDeepNesting\<close> (\<open>go/nesting.go\<close>) counts containers over bytes without parsing them. Here it is
  compared with the depth of a document as a tree: a document printed by any of the writers the
  sources use is refused exactly when its tree is deeper than the limit.
\<close>

datatype json =
    JAtom string
  | JString string
  | JArray "json list"
  | JObject "(string \<times> json) list"

fun json_print :: "json \<Rightarrow> string" where
  "json_print (JAtom a) = a"
| "json_print (JString s) = quoted s"
| "json_print (JArray js) = CHR ''['' # str_join '','' (map json_print js) @ '']''"
| "json_print (JObject kvs) =
     CHR ''{'' # str_join '','' (map (\<lambda>kv. quoted (fst kv) @ '':'' @ json_print (snd kv)) kvs) @ ''}''"

fun json_depth :: "json \<Rightarrow> nat" where
  "json_depth (JAtom a) = 0"
| "json_depth (JString s) = 0"
| "json_depth (JArray js) = Suc (foldr max (map json_depth js) 0)"
| "json_depth (JObject kvs) = Suc (foldr max (map (\<lambda>kv. json_depth (snd kv)) kvs) 0)"

definition structural :: "char \<Rightarrow> bool" where
  "structural c \<longleftrightarrow> c \<in> {quote, CHR ''{'', CHR ''['', CHR ''}'', CHR '']''}"

fun json_wf :: "json \<Rightarrow> bool" where
  "json_wf (JAtom a) = list_all (\<lambda>c. \<not> structural c) a"
| "json_wf (JString s) = True"
| "json_wf (JArray js) = list_all json_wf js"
| "json_wf (JObject kvs) = list_all (\<lambda>kv. json_wf (snd kv)) kvs"

fun nest_run :: "(nat \<times> bool \<times> bool) \<Rightarrow> string \<Rightarrow> (nat \<times> bool \<times> bool) option" where
  "nest_run st [] = Some st"
| "nest_run st (c # cs) = (case nest_step c st of None \<Rightarrow> None | Some st' \<Rightarrow> nest_run st' cs)"

lemma nest_walk_run: "nest_walk st cs = (if nest_run st cs = None then Some (Var ErrNestedTooDeep) else None)"
  by (induction st cs rule: nest_run.induct) (auto split: option.splits)

lemma nest_run_append:
  "nest_run st (a @ b) = (case nest_run st a of None \<Rightarrow> None | Some st' \<Rightarrow> nest_run st' b)"
  by (induction st a rule: nest_run.induct) (auto split: option.splits)

lemma nest_run_esc: "nest_run (d, True, False) (esc_byte c) = Some (d, True, False)"
proof -
  have hex: "hex_digits ! (byte_of c div 16) \<notin> {bslash, quote} \<and> hex_digits ! (byte_of c mod 16) \<notin> {bslash, quote}"
    if "byte_of c < 32"
  proof -
    have "\<forall>n\<in>set [0..<16]. hex_digits ! n \<notin> {bslash, quote}" by code_simp
    moreover have "byte_of c div 16 < 16" "byte_of c mod 16 < 16" using that by auto
    ultimately show ?thesis by simp
  qed
  then show ?thesis using esc_byte_cases [of c]
    by (auto simp: nest_step_def bslash_def quote_def)
qed

lemma nest_run_quoted: "nest_run (d, False, False) (quoted s) = Some (d, False, False)"
proof -
  have "nest_run (d, True, False) (concat (map esc_byte s) @ [quote]) = Some (d, False, False)"
    by (induction s) (auto simp: nest_step_def quote_def bslash_def nest_run_append nest_run_esc)
  then show ?thesis by (simp add: quoted_def nest_step_def)
qed

definition fits :: "nat \<Rightarrow> nat \<Rightarrow> (nat \<times> bool \<times> bool) option" where
  "fits d n = (if d + n \<le> SpecDepthLimit then Some (d, False, False) else None)"

lemma nest_run_join:
  assumes "\<And>x. x \<in> set xs \<Longrightarrow> nest_run (d, False, False) (f x) = fits d (g x)" "d \<le> SpecDepthLimit"
  shows "nest_run (d, False, False) (str_join '','' (map f xs)) = fits d (foldr max (map g xs) 0)"
  using assms
proof (induction xs)
  case Nil
  then show ?case by (simp add: fits_def)
next
  case (Cons x xs)
  show ?case
  proof (cases "xs = []")
    case True
    with Cons.prems show ?thesis by simp
  next
    case False
    with Cons show ?thesis
      by (auto simp: str_join_Cons nest_run_append fits_def nest_step_def quote_def)
  qed
qed

lemma nest_run_atom: "list_all (\<lambda>c. \<not> structural c) a \<Longrightarrow> nest_run (d, False, False) a = Some (d, False, False)"
  by (induction a) (auto simp: structural_def nest_step_def)

lemma nest_run_print:
  "json_wf j \<Longrightarrow> d \<le> SpecDepthLimit \<Longrightarrow> nest_run (d, False, False) (json_print j) = fits d (json_depth j)"
proof (induction j arbitrary: d rule: json_print.induct)
  case (1 a)
  then show ?case by (simp add: nest_run_atom fits_def)
next
  case (2 s)
  then show ?case by (simp add: nest_run_quoted fits_def)
next
  case (3 js)
  show ?case
  proof (cases "d + 1 \<le> SpecDepthLimit")
    case True
    have "nest_run (d + 1, False, False) (str_join '','' (map json_print js)) =
        fits (d + 1) (foldr max (map json_depth js) 0)"
      using 3 True by (intro nest_run_join) (auto simp: list_all_iff)
    with True show ?thesis by (auto simp: nest_step_def nest_run_append fits_def quote_def)
  next
    case False
    then show ?thesis by (simp add: nest_step_def fits_def quote_def)
  qed
next
  case (4 kvs)
  show ?case
  proof (cases "d + 1 \<le> SpecDepthLimit")
    case True
    have kv: "nest_run (d + 1, False, False) (quoted (fst kv) @ '':'' @ json_print (snd kv)) =
        fits (d + 1) (json_depth (snd kv))" if "kv \<in> set kvs" for kv
      using 4 True that
      by (simp add: nest_run_append nest_run_quoted list_all_iff) (simp add: nest_step_def quote_def)
    have "nest_run (d + 1, False, False)
          (str_join '','' (map (\<lambda>kv. quoted (fst kv) @ '':'' @ json_print (snd kv)) kvs)) =
        fits (d + 1) (foldr max (map (\<lambda>kv. json_depth (snd kv)) kvs) 0)"
      using True by (intro nest_run_join kv) auto
    with True show ?thesis by (auto simp: nest_step_def nest_run_append fits_def quote_def)
  next
    case False
    then show ?thesis by (simp add: nest_step_def fits_def quote_def)
  qed
qed

lemma RefuseDeepNesting_print:
  "json_wf j \<Longrightarrow> RefuseDeepNesting (json_print j) =
     (if json_depth j \<le> SpecDepthLimit then None else Some (Var ErrNestedTooDeep))"
  using nest_run_print [of j 0] by (simp add: RefuseDeepNesting_def nest_walk_run fits_def)

end
