(* ===== verification/Checkpoints.thy ===== *)
theory Checkpoints
  imports Spec_Paths
begin

text \<open>
  The resume point of a download (\<open>go/ranges.go\<close>, and \<open>SpecOf\<close>, \<open>CheckpointOf\<close> of \<open>go/spec.go\<close>): what a
  checkpoint claims, how it is written into a record and how it is read back.

  The job layer keeps the documents; its operations on them are the argument \<open>D\<close>, and the locale
  \<open>checkpoint_layer\<close> says what is relied on. The round trip is proved from those laws.
\<close>

record validators =
  v_etag :: string
  v_modified :: string

definition no_validators :: validators where
  "no_validators = \<lparr>v_etag = [], v_modified = []\<rparr>"

record checkpoint =
  c_prefix :: int
  c_validators :: validators
  c_verified :: ranges

definition no_checkpoint :: checkpoint where
  "no_checkpoint = \<lparr>c_prefix = 0, c_validators = no_validators, c_verified = []\<rparr>"

text \<open>
  \<open>rec.SetCheckpoint\<close> of a struct with a prefix and validators, \<open>json.Marshal\<close> of a struct with
  validators alone, \<open>rec.SetCheckpointRanges\<close>, \<open>rec.DecodeCheckpoint\<close>, \<open>rec.CheckpointRanges\<close>,
  \<open>rec.DecodeSpec\<close>, and the name \<open>job.FeatureRanges\<close>.
\<close>

record 'd doc_ops =
  do_set_checkpoint :: "int \<Rightarrow> validators \<Rightarrow> 'd job_record \<Rightarrow> err + 'd job_record"
  do_validators_doc :: "validators \<Rightarrow> 'd"
  do_set_ranges :: "ranges \<Rightarrow> 'd job_record \<Rightarrow> err + 'd job_record"
  do_decode_checkpoint :: "'d job_record \<Rightarrow> err + (int \<times> validators)"
  do_ranges :: "'d job_record \<Rightarrow> err + ranges"
  do_decode_spec :: "'d job_record \<Rightarrow> err + spec"
  do_feature :: string

section \<open>Operations\<close>

definition Proven :: "range_ops \<Rightarrow> checkpoint \<Rightarrow> err + ranges" where
  "Proven R c =
     ro_canon R (c_verified c @ (if 0 < c_prefix c then [Range 0 (c_prefix c)] else []))"

fun prefixShaped :: "ranges \<Rightarrow> bool" where
  "prefixShaped [] = True"
| "prefixShaped [r] = (r_start r = 0)"
| "prefixShaped (r # s # rs) = False"

definition containsModel :: "string list \<Rightarrow> string \<Rightarrow> bool" where
  "containsModel names wanted \<longleftrightarrow> list_ex (\<lambda>n. n = wanted) names"

definition withdrawRanges :: "'d doc_ops \<Rightarrow> 'd job_record \<Rightarrow> 'd job_record" where
  "withdrawRanges D rr =
     (if \<not> containsModel (j_content rr) (do_feature D) then rr
      else rr\<lparr>j_content := filter (\<lambda>n. n \<noteq> do_feature D) (j_content rr)\<rparr>)"

definition setCheckpoint ::
  "range_ops \<Rightarrow> 'd doc_ops \<Rightarrow> checkpoint \<Rightarrow> 'd job_record \<Rightarrow> err + 'd job_record" where
  "setCheckpoint R D cp rr =
     bind_result (Proven R cp) (\<lambda>rs.
       if prefixShaped rs then
         bind_result (do_set_checkpoint D (ro_prefix R rs) (c_validators cp) rr)
           (\<lambda>rr. Inr (withdrawRanges D rr))
       else do_set_ranges D rs (rr\<lparr>j_checkpoint := do_validators_doc D (c_validators cp)\<rparr>))"

definition CheckpointOf :: "range_ops \<Rightarrow> 'd doc_ops \<Rightarrow> 'd job_record \<Rightarrow> err + checkpoint" where
  "CheckpointOf R D r =
     bind_result (do_decode_checkpoint D r) (\<lambda>(n, v).
     bind_result (do_ranges D r) (\<lambda>rs.
       Inr \<lparr>c_prefix = ro_prefix R rs, c_validators = v, c_verified = rs\<rparr>))"

definition Kind :: string where "Kind = ''download''"

definition SpecOf :: "'d doc_ops \<Rightarrow> 'd job_record \<Rightarrow> err + spec" where
  "SpecOf D r =
     (if j_kind r \<noteq> Kind then
        Inl (Errorf [Lit ''download: job '', Str (j_id r), Lit '' is kind '', Quoted (j_kind r),
          Lit '', not '', Quoted Kind])
      else do_decode_spec D r)"

text \<open>A checkpoint of valid ranges.\<close>

definition checkpoint_wf :: "checkpoint \<Rightarrow> bool" where
  "checkpoint_wf c \<longleftrightarrow> list_all (\<lambda>r. 0 \<le> r_start r \<and> r_start r < r_end r) (c_verified c)"

definition claimed :: "checkpoint \<Rightarrow> int set" where
  "claimed c = bytes_of (c_verified c) \<union> {0..<c_prefix c}"

context range_layer
begin

lemma Proven_canonical:
  assumes "checkpoint_wf c"
  shows "\<exists>rs. Proven R c = Inr rs \<and> canonical rs \<and> bytes_of rs = claimed c"
proof -
  let ?in = "c_verified c @ (if 0 < c_prefix c then [Range 0 (c_prefix c)] else [])"
  have "\<forall>r\<in>set ?in. 0 \<le> r_start r \<and> r_start r < r_end r"
    using assms by (auto simp: checkpoint_wf_def list_all_iff)
  from canon_law [OF this] show ?thesis by (auto simp: Proven_def claimed_def split: if_splits)
qed

end

section \<open>The laws of the documents\<close>

locale checkpoint_layer = range_layer R for R :: range_ops +
  fixes D :: "'d doc_ops"
  assumes set_checkpoint_law: "\<And>n v r. 0 \<le> n \<Longrightarrow>
      \<exists>doc. do_set_checkpoint D n v r = Inr (r\<lparr>j_checkpoint := doc\<rparr>) \<and>
        do_decode_checkpoint D (r\<lparr>j_checkpoint := doc\<rparr>) = Inr (n, v)"
    and decode_law: "\<And>r r'. j_checkpoint r' = j_checkpoint r \<Longrightarrow> do_decode_checkpoint D r' = do_decode_checkpoint D r"
    and plain_ranges_law: "\<And>r n v. do_decode_checkpoint D r = Inr (n, v) \<Longrightarrow> 0 \<le> n \<Longrightarrow>
      do_feature D \<notin> set (j_content r) \<Longrightarrow> do_ranges D r = Inr (if n = 0 then [] else [Range 0 n])"
    and set_ranges_law: "\<And>rs v r. canonical rs \<Longrightarrow>
      \<exists>doc names n. do_set_ranges D rs (r\<lparr>j_checkpoint := do_validators_doc D v\<rparr>)
          = Inr (r\<lparr>j_checkpoint := doc, j_content := names\<rparr>) \<and>
        do_ranges D (r\<lparr>j_checkpoint := doc, j_content := names\<rparr>) = Inr rs \<and>
        do_decode_checkpoint D (r\<lparr>j_checkpoint := doc, j_content := names\<rparr>) = Inr (n, v)"
    and ranges_frame_law: "\<And>r r'. j_checkpoint r' = j_checkpoint r \<Longrightarrow> j_content r' = j_content r \<Longrightarrow>
      do_ranges D r' = do_ranges D r"
begin

lemma prefixShaped_bytes:
  assumes "canonical rs" "prefixShaped rs"
  shows "rs = (if ro_prefix R rs = 0 then [] else [Range 0 (ro_prefix R rs)])" "0 \<le> ro_prefix R rs"
  using assms by (cases rs rule: prefixShaped.cases; cases "hd rs"; auto simp: prefix_law)+

lemma withdraw_feature: "do_feature D \<notin> set (j_content (withdrawRanges D r))"
  by (auto simp: withdrawRanges_def containsModel_def list_ex_iff)

lemma withdraw_content: "\<exists>names. withdrawRanges D r = r\<lparr>j_content := names\<rparr>"
  by (cases r) (auto simp: withdrawRanges_def)

text \<open>What is written is read back: the same bytes, in canonical form, with the same version.\<close>

lemma setCheckpoint_reads_back:
  assumes "checkpoint_wf cp"
  shows "\<exists>rs r' doc names. Proven R cp = Inr rs \<and> setCheckpoint R D cp r = Inr r' \<and>
    r' = r\<lparr>j_checkpoint := doc, j_content := names\<rparr> \<and>
    CheckpointOf R D r' = Inr \<lparr>c_prefix = ro_prefix R rs, c_validators = c_validators cp, c_verified = rs\<rparr> \<and>
    canonical rs \<and> bytes_of rs = claimed cp"
proof -
  obtain rs where rs: "Proven R cp = Inr rs" "canonical rs" "bytes_of rs = claimed cp"
    using Proven_canonical [OF assms] by blast
  show ?thesis
  proof (cases "prefixShaped rs")
    case True
    note ps = prefixShaped_bytes [OF rs(2) True]
    obtain doc where d: "do_set_checkpoint D (ro_prefix R rs) (c_validators cp) r = Inr (r\<lparr>j_checkpoint := doc\<rparr>)"
      "do_decode_checkpoint D (r\<lparr>j_checkpoint := doc\<rparr>) = Inr (ro_prefix R rs, c_validators cp)"
      using set_checkpoint_law [OF ps(2)] by blast
    obtain names where n: "withdrawRanges D (r\<lparr>j_checkpoint := doc\<rparr>) = r\<lparr>j_checkpoint := doc, j_content := names\<rparr>"
      using withdraw_content by blast
    let ?r = "r\<lparr>j_checkpoint := doc, j_content := names\<rparr>"
    have dec: "do_decode_checkpoint D ?r = Inr (ro_prefix R rs, c_validators cp)"
      using d(2) decode_law [of ?r "r\<lparr>j_checkpoint := doc\<rparr>"] by simp
    have "do_feature D \<notin> set (j_content ?r)" using withdraw_feature n by metis
    with dec ps have "do_ranges D ?r = Inr rs" using plain_ranges_law [OF dec] by simp
    then have "CheckpointOf R D ?r = Inr \<lparr>c_prefix = ro_prefix R rs, c_validators = c_validators cp, c_verified = rs\<rparr>"
      using dec by (simp add: CheckpointOf_def)
    moreover have "setCheckpoint R D cp r = Inr ?r" using rs d n True by (simp add: setCheckpoint_def)
    ultimately show ?thesis using rs by blast
  next
    case False
    obtain doc names n where d: "do_set_ranges D rs (r\<lparr>j_checkpoint := do_validators_doc D (c_validators cp)\<rparr>)
          = Inr (r\<lparr>j_checkpoint := doc, j_content := names\<rparr>)"
      "do_ranges D (r\<lparr>j_checkpoint := doc, j_content := names\<rparr>) = Inr rs"
      "do_decode_checkpoint D (r\<lparr>j_checkpoint := doc, j_content := names\<rparr>) = Inr (n, c_validators cp)"
      using set_ranges_law [OF rs(2)] by blast
    then have "CheckpointOf R D (r\<lparr>j_checkpoint := doc, j_content := names\<rparr>)
        = Inr \<lparr>c_prefix = ro_prefix R rs, c_validators = c_validators cp, c_verified = rs\<rparr>"
      by (simp add: CheckpointOf_def)
    moreover have "setCheckpoint R D cp r = Inr (r\<lparr>j_checkpoint := doc, j_content := names\<rparr>)"
      using rs d False by (simp add: setCheckpoint_def)
    ultimately show ?thesis using rs by blast
  qed
qed

lemma CheckpointOf_wf:
  "CheckpointOf R D r = Inr c \<Longrightarrow> do_ranges D r = Inr rs \<Longrightarrow> canonical rs \<Longrightarrow>
     checkpoint_wf c \<and> claimed c = bytes_of rs"
  using prefix_bytes [of rs] canonical_wf [of rs]
  by (auto simp: CheckpointOf_def bind_result_Inr_iff checkpoint_wf_def claimed_def list_all_iff)

end

section \<open>Reference documents\<close>

datatype ref_doc = NoDoc | SpecDoc spec | CkDoc int validators "ranges option"

definition ref_feature :: string where "ref_feature = ''ranges''"

definition ref_docs :: "ref_doc doc_ops" where
  "ref_docs = \<lparr>
     do_set_checkpoint = (\<lambda>n v r. Inr (r\<lparr>j_checkpoint := CkDoc n v None\<rparr>)),
     do_validators_doc = (\<lambda>v. CkDoc 0 v None),
     do_set_ranges = (\<lambda>rs r. case j_checkpoint r of
         CkDoc n v _ \<Rightarrow> Inr (r\<lparr>j_checkpoint := CkDoc n v (Some rs),
           j_content := (if ref_feature \<in> set (j_content r) then j_content r else ref_feature # j_content r)\<rparr>)
       | _ \<Rightarrow> Inl (Plain ''no document'')),
     do_decode_checkpoint = (\<lambda>r. case j_checkpoint r of
         CkDoc n v _ \<Rightarrow> Inr (n, v) | NoDoc \<Rightarrow> Inr (0, no_validators) | SpecDoc _ \<Rightarrow> Inl (Plain ''a spec'')),
     do_ranges = (\<lambda>r. case j_checkpoint r of
         CkDoc n v rs \<Rightarrow>
           (case rs of
              Some rs \<Rightarrow> Inr (if ref_feature \<in> set (j_content r) then rs
                             else if n = 0 then [] else [Range 0 n])
            | None \<Rightarrow> Inr (if n = 0 then [] else [Range 0 n]))
       | _ \<Rightarrow> Inr []),
     do_decode_spec = (\<lambda>r. case j_spec r of SpecDoc s \<Rightarrow> Inr s | _ \<Rightarrow> Inl (Plain ''no spec'')),
     do_feature = ref_feature\<rparr>"

interpretation ref: checkpoint_layer ref_ranges ref_docs
proof (unfold_locales, goal_cases)
  case (1 n v r)
  then show ?case by (auto simp: ref_docs_def intro!: exI [of _ "CkDoc n v None"])
next
  case (2 r r')
  then show ?case by (simp add: ref_docs_def)
next
  case (3 r n v)
  then show ?case
    by (auto simp: ref_docs_def split: ref_doc.splits option.splits)
next
  case (4 rs v r)
  let ?names = "if ref_feature \<in> set (j_content r) then j_content r else ref_feature # j_content r"
  show ?case
    by (rule exI [of _ "CkDoc 0 v (Some rs)"], rule exI [of _ ?names], rule exI [of _ 0])
      (auto simp: ref_docs_def)
next
  case (5 r r')
  then show ?case by (simp add: ref_docs_def split: ref_doc.split option.split)
qed

lemma checkpoint_layer_ref: "checkpoint_layer ref_ranges ref_docs"
  by (rule ref.checkpoint_layer_axioms)

end
