(* ===== verification/Resume_Plan.thy ===== *)
theory Resume_Plan
  imports Checkpoints
begin

text \<open>
  Where a transfer resumes (\<open>go/resumepoint.go\<close>): which proven bytes are still on disk, which holes
  are left to ask for, and how much of the file may be cut. \<open>os.Stat\<close> of the partial file is an
  argument.

  The lemmas show that the bytes kept and the bytes asked for are a partition of the artifact, and
  that nothing is kept the checkpoint does not claim.
\<close>

datatype file_stat = NotExist | StatFailed err | IsDir int | IsFile int

record fetch_range =
  g_from :: int
  g_to :: int

definition open_range :: "fetch_range \<Rightarrow> bool" where
  "open_range g \<longleftrightarrow> g_to g = 0"

record resume_plan =
  rp_have :: ranges
  rp_gaps :: "fetch_range list"
  rp_trim :: int
  rp_discarded :: int
  rp_validators :: validators

definition plan_from :: "resume_plan \<Rightarrow> int" where
  "plan_from p = (case rp_gaps p of [] \<Rightarrow> rp_trim p | g # _ \<Rightarrow> g_from g)"

definition oneStream :: "resume_plan \<Rightarrow> bool" where
  "oneStream p \<longleftrightarrow>
     prefixShaped (rp_have p) \<and> (case rp_gaps p of [g] \<Rightarrow> open_range g | _ \<Rightarrow> False)"

fun clip :: "ranges \<Rightarrow> int \<Rightarrow> ranges" where
  "clip [] n = []"
| "clip (r # rs) n =
     (if n \<le> r_start r then []
      else Range (r_start r) (if n < r_end r then n else r_end r) # clip rs n)"

definition gapsFor :: "range_ops \<Rightarrow> ranges \<Rightarrow> int \<Rightarrow> fetch_range list" where
  "gapsFor R have sz =
     (if sz \<le> 0 \<or> (have \<noteq> [] \<and> sz < r_end (last have))
      then [\<lparr>g_from = ro_prefix R have, g_to = 0\<rparr>]
      else map (\<lambda>m. \<lparr>g_from = r_start m, g_to = (if sz \<le> r_end m then 0 else r_end m)\<rparr>)
             (ro_missing R have 0 sz))"

definition fresh_plan :: "range_ops \<Rightarrow> int \<Rightarrow> resume_plan" where
  "fresh_plan R sz = \<lparr>rp_have = [], rp_gaps = gapsFor R [] sz, rp_trim = 0, rp_discarded = 0,
     rp_validators = no_validators\<rparr>"

definition planResume ::
  "range_ops \<Rightarrow> string \<Rightarrow> file_stat \<Rightarrow> checkpoint \<Rightarrow> int \<Rightarrow> err + resume_plan" where
  "planResume R partial st cp sz =
     bind_result (Proven R cp) (\<lambda>have.
       if have = [] then Inr (fresh_plan R sz)
       else case st of
         NotExist \<Rightarrow> Inr (fresh_plan R sz)
       | StatFailed e \<Rightarrow> Inl e
       | IsDir _ \<Rightarrow> Inl (Errorf [Lit ''download: '', Str partial, Lit '' is a directory, not a partial file''])
       | IsFile len \<Rightarrow>
           (let have = clip have len in
            if have = [] then Inr (fresh_plan R sz)
            else let reach = r_end (last have) in
              Inr \<lparr>rp_have = have, rp_gaps = gapsFor R have sz, rp_trim = reach,
                   rp_discarded = len - reach, rp_validators = c_validators cp\<rparr>))"

section \<open>Clipping\<close>

lemma clip_hd: "clip (r # rs) n \<noteq> [] \<Longrightarrow> r_start (hd (clip (r # rs) n)) = r_start r"
  by (auto split: if_splits)

lemma clip_correct:
  "canonical rs \<Longrightarrow> canonical (clip rs n) \<and> bytes_of (clip rs n) = bytes_of rs \<inter> {..<n} \<and>
     (clip rs n \<noteq> [] \<longrightarrow> rs \<noteq> [] \<and> r_start (hd (clip rs n)) = r_start (hd rs))"
proof (induction rs)
  case Nil
  then show ?case by simp
next
  case (Cons r rs)
  note beyond = canonical_beyond [OF Cons.prems]
  from Cons have ih: "canonical (clip rs n)" "bytes_of (clip rs n) = bytes_of rs \<inter> {..<n}"
    "clip rs n \<noteq> [] \<longrightarrow> rs \<noteq> [] \<and> r_start (hd (clip rs n)) = r_start (hd rs)"
    by (auto simp: canonical_Cons)
  show ?case
  proof (cases "n \<le> r_start r")
    case True
    then have "bytes_of (r # rs) \<inter> {..<n} = {}" using beyond Cons.prems
      by (force simp: canonical_Cons)
    with True show ?thesis by simp
  next
    case False
    let ?e = "if n < r_end r then n else r_end r"
    have "0 \<le> r_start r" "r_start r < ?e" "?e \<le> r_end r"
      using False Cons.prems by (auto simp: canonical_Cons)
    moreover have "clip rs n \<noteq> [] \<longrightarrow> ?e < r_start (hd (clip rs n))"
      using ih(3) Cons.prems \<open>?e \<le> r_end r\<close> by (auto simp: canonical_Cons)
    ultimately have "canonical (clip (r # rs) n)"
      using ih(1) False by (simp add: canonical_Cons [of "Range (r_start r) ?e"])
    moreover have "bytes_of (clip (r # rs) n) = bytes_of (r # rs) \<inter> {..<n}"
      using ih(2) False beyond by auto
    ultimately show ?thesis using False by simp
  qed
qed

lemma canonical_last_max: "canonical rs \<Longrightarrow> b \<in> bytes_of rs \<Longrightarrow> b < r_end (last rs)"
proof (induction rs arbitrary: b)
  case Nil
  then show ?case by simp
next
  case (Cons r rs)
  show ?case
  proof (cases "rs = []")
    case True
    with Cons show ?thesis by simp
  next
    case False
    then have "r_end r < r_start (hd rs)" "canonical rs" using Cons.prems by (auto simp: canonical_Cons)
    moreover have "r_start (hd rs) \<in> bytes_of rs"
      using False \<open>canonical rs\<close> by (cases rs) (auto simp: canonical_Cons)
    moreover note Cons.IH [OF \<open>canonical rs\<close>, of "r_start (hd rs)"]
    ultimately have "r_end r < r_end (last rs)" by fastforce
    with Cons.IH [OF \<open>canonical rs\<close>, of b] Cons.prems(2) False show ?thesis by auto
  qed
qed

lemma canonical_last_in: "canonical rs \<Longrightarrow> rs \<noteq> [] \<Longrightarrow> r_end (last rs) - 1 \<in> bytes_of rs \<and> 0 < r_end (last rs)"
  using canonical_wf [of rs "last rs"] by (auto simp: bytes_of_def intro!: bexI [of _ "last rs"])

section \<open>What a plan asks for\<close>

text \<open>The bytes one request covers, for an artifact of a known size.\<close>

definition gap_bytes :: "int \<Rightarrow> fetch_range \<Rightarrow> int set" where
  "gap_bytes sz g = {g_from g..<(if open_range g then sz else g_to g)}"

definition gaps_bytes :: "int \<Rightarrow> fetch_range list \<Rightarrow> int set" where
  "gaps_bytes sz gs = (\<Union>g\<in>set gs. gap_bytes sz g)"

lemma canonical_suffix: "canonical (xs @ ys) \<Longrightarrow> canonical ys"
  by (induction xs) (auto simp: canonical_Cons)

lemma canonical_disjoint:
  "canonical rs \<Longrightarrow> i < j \<Longrightarrow> j < length rs \<Longrightarrow> r_end (rs ! i) < r_start (rs ! j)"
proof (induction rs arbitrary: i j)
  case Nil
  then show ?case by simp
next
  case (Cons r rs)
  show ?case
  proof (cases i)
    case 0
    from Cons.prems obtain k where k: "j = Suc k" "k < length rs" by (cases j) auto
    have "r_start (rs ! k) \<in> bytes_of rs"
      using k canonical_wf [of rs "rs ! k"] Cons.prems(1)
      by (auto simp: bytes_of_def canonical_Cons intro!: bexI [of _ "rs ! k"])
    with canonical_beyond [OF Cons.prems(1)] k 0 show ?thesis by simp
  next
    case (Suc i')
    with Cons show ?thesis by (cases j) (auto simp: canonical_Cons)
  qed
qed

context range_layer
begin

lemma gapsFor_known:
  assumes "canonical have" "0 < sz" "have = [] \<or> r_end (last have) \<le> sz"
  shows "gaps_bytes sz (gapsFor R have sz) = {0..<sz} - bytes_of have"
    and "\<forall>g\<in>set (gapsFor R have sz). 0 \<le> g_from g \<and> g_from g < sz \<and>
           (open_range g \<or> g_from g < g_to g \<and> g_to g < sz)"
proof -
  let ?ms = "ro_missing R have 0 sz"
  have m: "canonical ?ms" "bytes_of ?ms = {0..<sz} - bytes_of have"
    using missing_law [of "have" 0 sz] assms by auto
  have g: "gapsFor R have sz =
      map (\<lambda>m. \<lparr>g_from = r_start m, g_to = (if sz \<le> r_end m then 0 else r_end m)\<rparr>) ?ms"
    using assms by (auto simp: gapsFor_def)
  have wf: "0 \<le> r_start x \<and> r_start x < r_end x \<and> r_end x \<le> sz" if "x \<in> set ?ms" for x
  proof -
    have w: "0 \<le> r_start x \<and> r_start x < r_end x" using canonical_wf [OF m(1) that] .
    then have "r_end x - 1 \<in> bytes_of ?ms" using that by (auto simp: bytes_of_def)
    with m(2) w show ?thesis by auto
  qed
  have wf_lt: "r_start x < sz" if "x \<in> set ?ms" for x using wf [OF that] by linarith
  have "gap_bytes sz \<lparr>g_from = r_start x, g_to = (if sz \<le> r_end x then 0 else r_end x)\<rparr> = {r_start x..<r_end x}"
    if "x \<in> set ?ms" for x
    using wf [OF that] by (auto simp: gap_bytes_def open_range_def)
  then show "gaps_bytes sz (gapsFor R have sz) = {0..<sz} - bytes_of have"
    unfolding g m(2) [symmetric] by (auto simp: gaps_bytes_def bytes_of_def)
  show "\<forall>g\<in>set (gapsFor R have sz). 0 \<le> g_from g \<and> g_from g < sz \<and>
           (open_range g \<or> g_from g < g_to g \<and> g_to g < sz)"
    unfolding g using wf wf_lt by (auto simp: open_range_def)
qed

lemma gapsFor_unknown:
  "sz \<le> 0 \<Longrightarrow> gapsFor R have sz = [\<lparr>g_from = ro_prefix R have, g_to = 0\<rparr>]"
  by (simp add: gapsFor_def)

lemma planResume_cases:
  assumes "planResume R partial st cp sz = Inr p" "checkpoint_wf cp"
  shows "p = fresh_plan R sz \<or>
    (\<exists>len. st = IsFile len \<and> canonical (rp_have p) \<and> rp_have p \<noteq> [] \<and>
       bytes_of (rp_have p) = claimed cp \<inter> {..<len} \<and> rp_gaps p = gapsFor R (rp_have p) sz \<and>
       rp_trim p = r_end (last (rp_have p)) \<and> rp_discarded p = len - rp_trim p \<and>
       rp_validators p = c_validators cp)"
proof -
  obtain rs where rs: "Proven R cp = Inr rs" "canonical rs" "bytes_of rs = claimed cp"
    using Proven_canonical [OF assms(2)] by blast
  show ?thesis
  proof (cases "rs = [] \<or> st = NotExist")
    case True
    with assms(1) rs(1) show ?thesis by (auto simp: planResume_def split: if_splits)
  next
    case False
    with assms(1) rs(1) obtain len where st: "st = IsFile len" by (cases st) (auto simp: planResume_def)
    with False assms(1) rs clip_correct [OF rs(2), of len] show ?thesis
      by (auto simp: planResume_def Let_def split: if_splits)
  qed
qed

lemma fresh_known:
  "0 < sz \<Longrightarrow> gaps_bytes sz (rp_gaps (fresh_plan R sz)) = {0..<sz}"
  using gapsFor_known(1) [of "[]" sz] by (simp add: fresh_plan_def)

text \<open>Kept and asked for: a partition of the artifact.\<close>

lemma planResume_partition:
  assumes "planResume R partial st cp sz = Inr p" "checkpoint_wf cp" "0 < sz"
    and "rp_have p = [] \<or> r_end (last (rp_have p)) \<le> sz"
  shows "bytes_of (rp_have p) \<union> gaps_bytes sz (rp_gaps p) = {0..<sz}"
    and "bytes_of (rp_have p) \<inter> gaps_bytes sz (rp_gaps p) = {}"
proof -
  have "gaps_bytes sz (rp_gaps p) = {0..<sz} - bytes_of (rp_have p) \<and> bytes_of (rp_have p) \<subseteq> {0..<sz}"
    using planResume_cases [OF assms(1,2)]
  proof
    assume "p = fresh_plan R sz"
    with assms(3) show ?thesis using fresh_known by (simp add: fresh_plan_def)
  next
    assume "\<exists>len. st = IsFile len \<and> canonical (rp_have p) \<and> rp_have p \<noteq> [] \<and>
       bytes_of (rp_have p) = claimed cp \<inter> {..<len} \<and> rp_gaps p = gapsFor R (rp_have p) sz \<and>
       rp_trim p = r_end (last (rp_have p)) \<and> rp_discarded p = len - rp_trim p \<and>
       rp_validators p = c_validators cp"
    then have c: "canonical (rp_have p)" "rp_have p \<noteq> []" "rp_gaps p = gapsFor R (rp_have p) sz" by auto
    have "bytes_of (rp_have p) \<subseteq> {0..<sz}"
      using canonical_last_max [OF c(1)] canonical_nonneg [OF c(1)] assms(4) c(2) by force
    with gapsFor_known(1) [OF c(1) assms(3,4)] c(3) show ?thesis by simp
  qed
  then show "bytes_of (rp_have p) \<union> gaps_bytes sz (rp_gaps p) = {0..<sz}"
    and "bytes_of (rp_have p) \<inter> gaps_bytes sz (rp_gaps p) = {}" by auto
qed

text \<open>A plan trusts nothing the checkpoint does not claim and the file does not hold.\<close>

lemma planResume_trusts:
  assumes "planResume R partial st cp sz = Inr p" "checkpoint_wf cp"
  shows "bytes_of (rp_have p) \<subseteq> claimed cp"
    and "rp_have p \<noteq> [] \<Longrightarrow> \<exists>len. st = IsFile len \<and> bytes_of (rp_have p) = claimed cp \<inter> {..<len} \<and>
           rp_trim p \<le> len \<and> rp_discarded p = len - rp_trim p"
    and "\<forall>b\<in>bytes_of (rp_have p). b < rp_trim p"
proof -
  note c = planResume_cases [OF assms]
  show "bytes_of (rp_have p) \<subseteq> claimed cp" using c by (auto simp: fresh_plan_def)
  show "\<forall>b\<in>bytes_of (rp_have p). b < rp_trim p"
    using c canonical_last_max by (auto simp: fresh_plan_def)
  show "\<exists>len. st = IsFile len \<and> bytes_of (rp_have p) = claimed cp \<inter> {..<len} \<and>
      rp_trim p \<le> len \<and> rp_discarded p = len - rp_trim p" if "rp_have p \<noteq> []"
    using c that canonical_last_in [of "rp_have p"] by (auto simp: fresh_plan_def)
qed

text \<open>A rolling hash is kept only where the next byte written is the next byte of the artifact.\<close>

lemma oneStream_appends:
  assumes "planResume R partial st cp sz = Inr p" "checkpoint_wf cp" "oneStream p"
  shows "bytes_of (rp_have p) = {0..<plan_from p}" and "rp_trim p = plan_from p"
proof -
  obtain g where g: "rp_gaps p = [g]" "open_range g" "prefixShaped (rp_have p)"
    using assms(3) by (auto simp: oneStream_def split: list.splits)
  have hv: "rp_have p = [] \<and> rp_gaps p = gapsFor R [] sz \<and> rp_trim p = 0 \<or>
      (\<exists>n. 0 < n \<and> rp_have p = [Range 0 n] \<and> rp_trim p = n \<and> rp_gaps p = gapsFor R [Range 0 n] sz)"
    using planResume_cases [OF assms(1,2)] g(3)
    by (cases "rp_have p" rule: prefixShaped.cases; cases "hd (rp_have p)")
      (auto simp: fresh_plan_def)
  have key: "g_from g = ro_prefix R hv" if c: "canonical hv" and gp: "gapsFor R hv sz = [g]"
      and sh: "hv = [] \<or> (\<exists>n. hv = [Range 0 n])" for hv
  proof (cases "sz \<le> 0 \<or> (hv \<noteq> [] \<and> sz < r_end (last hv))")
    case True
    then have "gapsFor R hv sz = [\<lparr>g_from = ro_prefix R hv, g_to = 0\<rparr>]" by (auto simp: gapsFor_def)
    with gp show ?thesis by auto
  next
    case False
    then have s: "0 < sz" "hv = [] \<or> r_end (last hv) \<le> sz" by auto
    have gb: "gap_bytes sz g = {0..<sz} - bytes_of hv"
      using gapsFor_known(1) [OF c s] gp by (simp add: gaps_bytes_def)
    have fr: "0 \<le> g_from g" "g_from g < sz" using gapsFor_known(2) [OF c s] gp by auto
    have pre: "bytes_of hv = {0..<ro_prefix R hv} \<and> 0 \<le> ro_prefix R hv"
      using sh c by (auto simp: prefix_law)
    have "{g_from g..<sz} = {ro_prefix R hv..<sz}"
      using gb pre g(2) by (auto simp: gap_bytes_def)
    then have "g_from g \<in> {ro_prefix R hv..<sz}" using fr by (metis atLeastLessThan_iff order_refl)
    moreover have "ro_prefix R hv \<in> {g_from g..<sz}"
      using calculation \<open>{g_from g..<sz} = {ro_prefix R hv..<sz}\<close> by simp
    ultimately show ?thesis by simp
  qed
  from hv show "bytes_of (rp_have p) = {0..<plan_from p}"
  proof
    assume "rp_have p = [] \<and> rp_gaps p = gapsFor R [] sz \<and> rp_trim p = 0"
    with key [of "[]"] g(1) show ?thesis by (simp add: plan_from_def prefix_law)
  next
    assume "\<exists>n. 0 < n \<and> rp_have p = [Range 0 n] \<and> rp_trim p = n \<and> rp_gaps p = gapsFor R [Range 0 n] sz"
    then obtain n where "0 < n" "rp_have p = [Range 0 n]" "rp_gaps p = gapsFor R [Range 0 n] sz" by blast
    with key [of "[Range 0 n]"] g(1) show ?thesis by (simp add: plan_from_def prefix_law)
  qed
  from hv show "rp_trim p = plan_from p"
  proof
    assume "rp_have p = [] \<and> rp_gaps p = gapsFor R [] sz \<and> rp_trim p = 0"
    with key [of "[]"] g(1) show ?thesis by (simp add: plan_from_def prefix_law)
  next
    assume "\<exists>n. 0 < n \<and> rp_have p = [Range 0 n] \<and> rp_trim p = n \<and> rp_gaps p = gapsFor R [Range 0 n] sz"
    then obtain n where "0 < n" "rp_have p = [Range 0 n]" "rp_trim p = n" "rp_gaps p = gapsFor R [Range 0 n] sz" by blast
    with key [of "[Range 0 n]"] g(1) show ?thesis by (simp add: plan_from_def prefix_law)
  qed
qed

end

end
