(* ===== verification/Range_Plan.thy ===== *)
theory Range_Plan
  imports Resume_Plan
begin

text \<open>
  How an artifact is cut into ranges (first half of \<open>go/parallel.go\<close>): the grid this layer chooses,
  the partition a source publishes, merging what is too small, and the ranges left to fetch.

  Offsets are \<open>int64\<close> in the source. The one addition that can leave the type is the step of the grid
  loop; it is written with its wrap-around, and the loop may then not end.
\<close>

section \<open>Plans\<close>

definition minRangeSize :: int where "minRangeSize = 16777216"

definition maxRanges :: int where "maxRanges = 512"

definition minParallel :: int where "minParallel = 2 * minRangeSize"

definition BoundariesAttr :: string where "BoundariesAttr = ''boundaries''"

record plan =
  pl_size :: int
  pl_cuts :: "int list"

text \<open>
  The floor doubles from \<^const>\<open>minRangeSize\<close>; \<open>doublings\<close> counts how often. Within \<open>int64\<close> sizes
  the shift never overflows (\<open>rangeFloor_bounds\<close>).
\<close>

function doublings :: "int \<Rightarrow> nat \<Rightarrow> nat" where
  "doublings sz k =
     (if maxRanges < sz div (minRangeSize * 2 ^ k) then doublings sz (Suc k) else k)"
  by pat_completeness auto
termination
proof (relation "measure (\<lambda>(sz, k). nat (sz div (minRangeSize * 2 ^ k)))", goal_cases)
  case 1
  then show ?case by simp
next
  case (2 sz k)
  have "sz div (minRangeSize * 2 ^ Suc k) = sz div (minRangeSize * 2 ^ k) div 2"
    by (simp add: minRangeSize_def zdiv_zmult2_eq [symmetric] mult.assoc mult.commute)
  with 2 show ?case by (simp add: maxRanges_def del: power_Suc)
qed

declare doublings.simps [simp del]

definition rangeFloor :: "int \<Rightarrow> int" where
  "rangeFloor sz = minRangeSize * 2 ^ doublings sz 0"

partial_function (option) grid_cuts :: "int \<Rightarrow> int \<Rightarrow> int \<Rightarrow> int list option" where
  "grid_cuts step sz at =
     (if at < sz
      then Option.bind (grid_cuts step sz (wrap64 (at + step))) (\<lambda>cs. Some (at # cs))
      else Some [])"

declare grid_cuts.simps [code]

text \<open>\<open>None\<close> is a loop that never ends.\<close>

definition gridPlan :: "int \<Rightarrow> plan option" where
  "gridPlan sz =
     (let step = rangeFloor sz in
      Option.bind (grid_cuts step sz step) (\<lambda>cs. Some \<lparr>pl_size = sz, pl_cuts = cs\<rparr>))"

lemma str_cut_rest_shorter: "raw \<noteq> [] \<Longrightarrow> length (fst (snd (str_cut [c] raw))) < length raw"
proof (induction raw)
  case Nil
  then show ?case by simp
next
  case (Cons x raw)
  show ?case
  proof (cases "raw = []")
    case True
    then show ?thesis by (simp add: str_cut_char_Cons str_cut_Nil)
  next
    case False
    obtain a b f where "str_cut [c] raw = (a, b, f)" by (metis prod_cases3)
    with Cons.IH False show ?thesis by (cases f) (simp_all add: str_cut_char_Cons)
  qed
qed

function published_loop :: "int \<Rightarrow> string \<Rightarrow> int \<Rightarrow> int list \<Rightarrow> int list option" where
  "published_loop sz raw prev cuts =
     (if raw = [] then Some cuts
      else (case str_cut '','' raw of (field, rest, _) \<Rightarrow>
        (case parse_int64 (trim_space field) of
           None \<Rightarrow> None
         | Some n \<Rightarrow>
             if n \<le> prev \<or> sz \<le> n \<or> maxRanges - 1 \<le> int (length cuts) then None
             else published_loop sz rest n (cuts @ [n]))))"
  by pat_completeness auto
termination
  by (relation "measure (\<lambda>(sz, raw, prev, cuts). length raw)")
     (simp, metis in_measure case_prod_conv fst_conv snd_conv str_cut_rest_shorter)

declare published_loop.simps [simp del]

definition publishedPlan :: "source \<Rightarrow> int \<Rightarrow> plan option" where
  "publishedPlan src sz =
     (let raw = trim_space (lookup (s_attrs src) BoundariesAttr) in
      if raw = [] then None
      else case published_loop sz raw 0 [] of
        None \<Rightarrow> None
      | Some cuts \<Rightarrow> if cuts \<noteq> [] then Some \<lparr>pl_size = sz, pl_cuts = cuts\<rparr> else None)"

fun coarse_cuts :: "int \<Rightarrow> int \<Rightarrow> int \<Rightarrow> int list \<Rightarrow> int list" where
  "coarse_cuts floor sz prev [] = []"
| "coarse_cuts floor sz prev (c # cs) =
     (if c - prev < floor \<or> sz - c < floor then coarse_cuts floor sz prev cs
      else c # coarse_cuts floor sz c cs)"

definition coarsened :: "plan \<Rightarrow> plan" where
  "coarsened p = p\<lparr>pl_cuts := coarse_cuts (rangeFloor (pl_size p)) (pl_size p) 0 (pl_cuts p)\<rparr>"

fun ranges_from :: "int \<Rightarrow> int \<Rightarrow> int list \<Rightarrow> ranges" where
  "ranges_from at en [] = (if at < en then [Range at en] else [])"
| "ranges_from at en (c # cs) =
     (if c \<le> at then ranges_from at en cs
      else if en \<le> c then (if at < en then [Range at en] else [])
      else Range at c # ranges_from c en cs)"

definition rangesOf :: "plan \<Rightarrow> range \<Rightarrow> ranges" where
  "rangesOf p g = ranges_from (r_start g) (r_end g) (pl_cuts p)"

definition gaps :: "range_ops \<Rightarrow> int \<Rightarrow> ranges \<Rightarrow> ranges" where
  "gaps R sz have =
     (let proven = (case ro_canon R have of Inl _ \<Rightarrow> [] | Inr rs \<Rightarrow> rs) in ro_missing R proven 0 sz)"

fun covered :: "ranges \<Rightarrow> int" where
  "covered [] = 0"
| "covered (r # rs) = (r_end r - r_start r) + covered rs"

definition connections :: "int \<Rightarrow> int" where
  "connections n = (if 0 < n then n else 1)"

definition byPriority :: "source list \<Rightarrow> source list" where
  "byPriority ss = sort_key s_priority ss"

text \<open>\<open>resumable\<close>: the checkpoint's ranges, each cut at the length of the file on disk.\<close>

definition resumable :: "range_ops \<Rightarrow> 'd doc_ops \<Rightarrow> 'd job_record \<Rightarrow> file_stat \<Rightarrow> err + ranges" where
  "resumable R D r st =
     bind_result (do_ranges D r) (\<lambda>rs.
       let onDisk = (case st of IsFile n \<Rightarrow> n | IsDir n \<Rightarrow> n | _ \<Rightarrow> 0)
       in ro_canon R (filter (\<lambda>x. r_start x < r_end x)
            (map (\<lambda>x. Range (r_start x) (min (r_end x) onDisk)) rs)))"

text \<open>Everything left to fetch, cut so that no request straddles a boundary.\<close>

definition todo_ranges :: "range_ops \<Rightarrow> plan \<Rightarrow> ranges \<Rightarrow> ranges" where
  "todo_ranges R p have = concat (map (rangesOf p) (gaps R (pl_size p) have))"

section \<open>The floor\<close>

lemma rangeFloor_fits: "sz div rangeFloor sz \<le> maxRanges"
proof -
  have "sz div (minRangeSize * 2 ^ doublings sz k) \<le> maxRanges" for k
    by (induction sz k rule: doublings.induct) (subst doublings.simps, auto)
  then show ?thesis by (simp add: rangeFloor_def)
qed

lemma rangeFloor_min: "minRangeSize \<le> rangeFloor sz"
  by (simp add: rangeFloor_def minRangeSize_def)

lemma doublings_bound: "sz \<le> max_int64 \<Longrightarrow> k \<le> 30 \<Longrightarrow> doublings sz k \<le> 30"
proof (induction sz k rule: doublings.induct)
  case (1 sz k)
  show ?case
  proof (cases "maxRanges < sz div (minRangeSize * 2 ^ k)")
    case True
    have "k \<noteq> 30"
    proof
      assume "k = 30"
      with True have "512 < sz div 18014398509481984" by (simp add: maxRanges_def minRangeSize_def)
      with "1.prems" show False by (simp add: max_int64_def)
    qed
    with 1 True show ?thesis by (subst doublings.simps) simp
  next
    case False
    with 1 show ?thesis by (subst doublings.simps) simp
  qed
qed

lemma rangeFloor_bounds: "sz \<le> max_int64 \<Longrightarrow> rangeFloor sz \<le> 18014398509481984"
proof -
  assume "sz \<le> max_int64"
  then have "(2::int) ^ doublings sz 0 \<le> 2 ^ 30" by (intro power_increasing doublings_bound) auto
  then show ?thesis by (simp add: rangeFloor_def minRangeSize_def)
qed

section \<open>The grid\<close>

definition cuts_inside :: "int \<Rightarrow> int list \<Rightarrow> bool" where
  "cuts_inside sz cs \<longleftrightarrow> sorted_wrt (<) cs \<and> (\<forall>c\<in>set cs. 0 < c \<and> c < sz)"

lemma grid_cuts_ends:
  assumes "0 < step" "sz + step \<le> max_int64 + 1"
  shows "0 \<le> at \<Longrightarrow> \<exists>cs. grid_cuts step sz at = Some cs \<and> sorted_wrt (<) cs \<and>
    (\<forall>c\<in>set cs. at \<le> c \<and> c < sz) \<and> (\<forall>c\<in>set cs. step dvd c - at)"
proof (induction "nat (sz - at)" arbitrary: at rule: less_induct)
  case less
  show ?case
  proof (cases "at < sz")
    case False
    then show ?thesis using assms(1) by (subst grid_cuts.simps) auto
  next
    case True
    have w: "wrap64 (at + step) = at + step"
      using less.prems True assms by (intro wrap64_id is_int64I) auto
    obtain cs where cs: "grid_cuts step sz (at + step) = Some cs" "sorted_wrt (<) cs"
      "\<forall>c\<in>set cs. at + step \<le> c \<and> c < sz" "\<forall>c\<in>set cs. step dvd c - (at + step)"
      using less.hyps [of "at + step"] less.prems True assms(1) by auto
    have d: "step dvd c - at" if "step dvd c - (at + step)" for c
      using dvd_add [OF that dvd_refl] by simp
    have "grid_cuts step sz at = Some (at # cs)" using True w cs(1) by (subst grid_cuts.simps) simp
    moreover have "sorted_wrt (<) (at # cs)" using cs(2,3) assms(1) by fastforce
    moreover have "\<forall>c\<in>set (at # cs). at \<le> c \<and> c < sz" using cs(3) True assms(1) by fastforce
    moreover have "\<forall>c\<in>set (at # cs). step dvd c - at" using cs(4) d by simp
    ultimately show ?thesis by blast
  qed
qed

lemma gridPlan_ends:
  assumes "0 < sz" "sz + rangeFloor sz \<le> max_int64 + 1"
  shows "\<exists>p. gridPlan sz = Some p \<and> pl_size p = sz \<and> cuts_inside sz (pl_cuts p) \<and>
    (\<forall>c\<in>set (pl_cuts p). rangeFloor sz dvd c)"
proof -
  have f: "0 < rangeFloor sz" using rangeFloor_min [of sz] by (simp add: minRangeSize_def)
  obtain cs where cs: "grid_cuts (rangeFloor sz) sz (rangeFloor sz) = Some cs" "sorted_wrt (<) cs"
    "\<forall>c\<in>set cs. rangeFloor sz \<le> c \<and> c < sz" "\<forall>c\<in>set cs. rangeFloor sz dvd c - rangeFloor sz"
    using grid_cuts_ends [OF f assms(2) less_imp_le [OF f]] by blast
  have d: "\<forall>c\<in>set cs. rangeFloor sz dvd c"
  proof
    fix c assume "c \<in> set cs"
    with cs(4) have "rangeFloor sz dvd c - rangeFloor sz + rangeFloor sz" by (intro dvd_add) auto
    then show "rangeFloor sz dvd c" by simp
  qed
  have "\<forall>c\<in>set cs. 0 < c \<and> c < sz" using cs(3) f by fastforce
  then have "cuts_inside sz cs" using cs(2) by (simp add: cuts_inside_def)
  moreover have "gridPlan sz = Some \<lparr>pl_size = sz, pl_cuts = cs\<rparr>" by (simp add: gridPlan_def cs(1))
  ultimately show ?thesis using d by (intro exI [of _ "\<lparr>pl_size = sz, pl_cuts = cs\<rparr>"]) simp
qed

text \<open>
  At the top of the type the loop counter passes the size by wrapping to the bottom, and never ends.
\<close>

definition on_grid :: "int \<Rightarrow> bool" where
  "on_grid at \<longleftrightarrow> is_int64 at \<and> 18014398509481984 dvd at"

lemma on_grid_step: "on_grid at \<Longrightarrow> on_grid (wrap64 (at + 18014398509481984)) \<and> at < max_int64"
proof
  assume a: "on_grid at"
  have "(18014398509481984::int) dvd 18446744073709551616" "(18014398509481984::int) dvd 9223372036854775808"
    by (simp_all add: dvd_eq_mod_eq_0)
  moreover have "wrap64 n = n - 18446744073709551616 * ((n + 9223372036854775808) div 18446744073709551616)" for n
    by (simp add: wrap64_def minus_mult_div_eq_mod [symmetric])
  ultimately have "18014398509481984 dvd wrap64 (at + 18014398509481984)"
    using a by (simp add: on_grid_def dvd_diff)
  then show "on_grid (wrap64 (at + 18014398509481984))" by (simp add: on_grid_def)
  show "at < max_int64"
  proof (rule ccontr)
    assume "\<not> at < max_int64"
    with a have "at = max_int64" by (simp add: on_grid_def is_int64_def)
    with a show False by (simp add: on_grid_def max_int64_def dvd_eq_mod_eq_0)
  qed
qed

lemma grid_cuts_diverges:
  assumes "grid_cuts step sz at = Some cs"
  shows "step = 18014398509481984 \<longrightarrow> sz = max_int64 \<longrightarrow> \<not> on_grid at"
  using assms
proof (rule grid_cuts.raw_induct [rotated])
  fix grid step sz at cs
  assume ih: "\<And>a b c d. grid a b c = Some d \<Longrightarrow> a = 18014398509481984 \<longrightarrow> b = max_int64 \<longrightarrow> \<not> on_grid c"
    and eq: "(if at < sz then Option.bind (grid step sz (wrap64 (at + step))) (\<lambda>cs. Some (at # cs)) else Some []) = Some cs"
  show "step = 18014398509481984 \<longrightarrow> sz = max_int64 \<longrightarrow> \<not> on_grid at"
  proof (intro impI notI)
    assume h: "step = 18014398509481984" "sz = max_int64" "on_grid at"
    note s = on_grid_step [OF h(3)]
    from eq s h obtain cs' where "grid step sz (wrap64 (at + step)) = Some cs'"
      by (auto simp: bind_eq_Some_conv)
    from ih [OF this] s h show False by simp
  qed
qed

lemma doublings_max: "doublings max_int64 0 = 30"
  by (simp add: doublings.simps max_int64_def maxRanges_def minRangeSize_def)

lemma gridPlan_diverges: "gridPlan max_int64 = None"
proof -
  have f: "rangeFloor max_int64 = 18014398509481984"
    by (simp add: rangeFloor_def doublings_max minRangeSize_def)
  have "on_grid 18014398509481984" by (simp add: on_grid_def is_int64_def min_int64_def max_int64_def)
  then have "grid_cuts 18014398509481984 max_int64 18014398509481984 = None"
    using grid_cuts_diverges [of 18014398509481984 max_int64 18014398509481984]
    by (cases "grid_cuts 18014398509481984 max_int64 18014398509481984") auto
  then show ?thesis by (simp add: gridPlan_def f)
qed

section \<open>Published and merged cuts\<close>

lemma published_loop_ok:
  "published_loop sz raw prev cuts = Some cs \<Longrightarrow> 0 \<le> prev \<Longrightarrow> cuts_inside sz cuts \<Longrightarrow>
     \<forall>c\<in>set cuts. c \<le> prev \<Longrightarrow> int (length cuts) \<le> maxRanges - 1 \<Longrightarrow>
     cuts_inside sz cs \<and> int (length cs) \<le> maxRanges - 1"
proof (induction sz raw prev cuts rule: published_loop.induct)
  case (1 sz raw prev cuts)
  show ?case
  proof (cases "raw = []")
    case True
    with "1.prems" show ?thesis by (simp add: published_loop.simps)
  next
    case False
    obtain field rest f where cut: "str_cut '','' raw = (field, rest, f)" by (metis prod_cases3)
    with "1.prems"(1) False obtain n where n: "parse_int64 (trim_space field) = Some n" "prev < n" "n < sz"
      "int (length cuts) < maxRanges - 1" "published_loop sz rest n (cuts @ [n]) = Some cs"
      by (subst (asm) published_loop.simps) (auto split: option.splits if_splits)
    have "cuts_inside sz (cuts @ [n])"
      using "1.prems"(2-4) n by (auto simp: cuts_inside_def sorted_wrt_append)
    moreover have "\<forall>c\<in>set (cuts @ [n]). c \<le> n" using "1.prems"(4) n by auto
    ultimately show ?thesis
      using "1.IH" [OF False cut [symmetric] refl n(1)] n "1.prems"(2) by simp
  qed
qed

lemma publishedPlan_ok:
  assumes "publishedPlan src sz = Some p"
  shows "pl_size p = sz \<and> pl_cuts p \<noteq> [] \<and> cuts_inside sz (pl_cuts p) \<and>
    int (length (pl_cuts p)) < maxRanges"
  using assms published_loop_ok [of sz _ 0 "[]"]
  by (fastforce simp: publishedPlan_def Let_def cuts_inside_def maxRanges_def split: if_splits option.splits)

text \<open>Every range of a merged plan is at least the floor long, the last one included.\<close>

fun spaced :: "int \<Rightarrow> int \<Rightarrow> int \<Rightarrow> int list \<Rightarrow> bool" where
  "spaced floor sz prev [] = True"
| "spaced floor sz prev (c # cs) = (floor \<le> c - prev \<and> floor \<le> sz - c \<and> spaced floor sz c cs)"

lemma coarse_spaced: "spaced floor sz prev (coarse_cuts floor sz prev cs)"
  by (induction floor sz prev cs rule: coarse_cuts.induct) auto

lemma coarse_subset: "set (coarse_cuts floor sz prev cs) \<subseteq> set cs"
  by (induction floor sz prev cs rule: coarse_cuts.induct) auto

lemma coarse_sorted: "sorted_wrt (<) cs \<Longrightarrow> sorted_wrt (<) (coarse_cuts floor sz prev cs)"
proof (induction floor sz prev cs rule: coarse_cuts.induct)
  case (1 floor sz prev)
  then show ?case by simp
next
  case (2 floor sz prev c cs)
  then show ?case using coarse_subset [of floor sz c cs] by auto
qed

lemma coarsened_ok:
  "cuts_inside (pl_size p) (pl_cuts p) \<Longrightarrow>
     cuts_inside (pl_size p) (pl_cuts (coarsened p)) \<and> set (pl_cuts (coarsened p)) \<subseteq> set (pl_cuts p) \<and>
     spaced (rangeFloor (pl_size p)) (pl_size p) 0 (pl_cuts (coarsened p))"
  using coarse_subset [of "rangeFloor (pl_size p)" "pl_size p" 0 "pl_cuts p"]
  by (auto simp: coarsened_def cuts_inside_def coarse_spaced coarse_sorted)

section \<open>Cutting a gap\<close>

fun tiles :: "int \<Rightarrow> int \<Rightarrow> ranges \<Rightarrow> bool" where
  "tiles at en [] = (at = en)"
| "tiles at en (r # rs) = (r_start r = at \<and> at < r_end r \<and> tiles (r_end r) en rs)"

lemma ranges_from_tiles: "at < en \<Longrightarrow> tiles at en (ranges_from at en cs)"
  by (induction at en cs rule: ranges_from.induct) auto

text \<open>How often a byte is asked for.\<close>

definition asked :: "ranges \<Rightarrow> int \<Rightarrow> nat" where
  "asked rs b = length (filter (\<lambda>r. r_start r \<le> b \<and> b < r_end r) rs)"

lemma asked_simps [simp]:
  "asked [] b = 0"
  "asked (r # rs) b = (if r_start r \<le> b \<and> b < r_end r then Suc (asked rs b) else asked rs b)"
  "asked (xs @ ys) b = asked xs b + asked ys b"
  by (simp_all add: asked_def)

lemma tiles_asked: "tiles at en rs \<Longrightarrow> asked rs b = (if at \<le> b \<and> b < en then 1 else 0) \<and> at \<le> en"
  by (induction at en rs rule: tiles.induct) auto

lemma asked_zero: "b \<notin> bytes_of rs \<longleftrightarrow> asked rs b = 0"
  by (induction rs) auto

lemma canonical_asked: "canonical rs \<Longrightarrow> asked rs b = (if b \<in> bytes_of rs then 1 else 0)"
proof (induction rs)
  case Nil
  then show ?case by simp
next
  case (Cons r rs)
  then show ?case using canonical_beyond [OF Cons.prems, of b] by (auto simp: canonical_Cons)
qed

lemma rangesOf_asked:
  "r_start g < r_end g \<Longrightarrow> asked (rangesOf p g) b = (if r_start g \<le> b \<and> b < r_end g then 1 else 0)"
  using tiles_asked [OF ranges_from_tiles, of "r_start g" "r_end g" "pl_cuts p" b] by (simp add: rangesOf_def)

lemma concat_rangesOf_asked: "canonical gs \<Longrightarrow> asked (concat (map (rangesOf p) gs)) b = asked gs b"
  by (induction gs) (auto simp: canonical_Cons rangesOf_asked)

text \<open>No request crosses a cut of the plan.\<close>

lemma ranges_from_straddle:
  "sorted_wrt (<) cs \<Longrightarrow> r \<in> set (ranges_from at en cs) \<Longrightarrow> c \<in> set cs \<Longrightarrow>
     \<not> (r_start r < c \<and> c < r_end r)"
proof (induction at en cs rule: ranges_from.induct)
  case (1 at en)
  then show ?case by simp
next
  case (2 at en x cs)
  have from_at: "at \<le> r_start r" if "r \<in> set (ranges_from at en cs)" for at cs
    using that by (induction at en cs rule: ranges_from.induct) (auto split: if_splits)
  consider "x \<le> at" | "at < x" "en \<le> x" | "at < x" "x < en" by linarith
  then show ?case
  proof cases
    case 1
    with 2 from_at [of at cs] show ?thesis by (auto split: if_splits)
  next
    case c: 2
    with 2 show ?thesis by (force split: if_splits)
  next
    case c: 3
    with 2 from_at [of x cs] show ?thesis by (force split: if_splits)
  qed
qed

lemma ranges_from_wf: "r \<in> set (ranges_from at en cs) \<Longrightarrow> at \<le> r_start r \<and> r_start r < r_end r \<and> r_end r \<le> en"
  by (induction at en cs rule: ranges_from.induct) (auto split: if_splits)

lemma covered_card: "canonical rs \<Longrightarrow> covered rs = int (card (bytes_of rs))"
proof (induction rs)
  case Nil
  then show ?case by simp
next
  case (Cons r rs)
  have "{r_start r..<r_end r} \<inter> bytes_of rs = {}"
    using canonical_beyond [OF Cons.prems] by force
  with Cons show ?case by (simp add: canonical_Cons card_Un_disjoint)
qed

lemma cut_bytes:
  "bytes_of (filter (\<lambda>x. r_start x < r_end x) (map (\<lambda>x. Range (r_start x) (min (r_end x) n)) xs))
     = bytes_of xs \<inter> {..<n}"
proof (induction xs)
  case Nil
  then show ?case by simp
next
  case (Cons x xs)
  have "{r_start x..<min (r_end x) n} = {r_start x..<r_end x} \<inter> {..<n}" by auto
  with Cons show ?case by (cases "r_start x < min (r_end x) n") auto
qed

context range_layer
begin

text \<open>Every byte that is not proven is asked for once, and no other byte is asked for.\<close>

lemma todo_asked:
  assumes "canonical hv" "0 \<le> pl_size p"
  shows "asked (todo_ranges R p hv) b = (if 0 \<le> b \<and> b < pl_size p \<and> b \<notin> bytes_of hv then 1 else 0)"
proof -
  have g: "canonical (gaps R (pl_size p) hv)" "bytes_of (gaps R (pl_size p) hv) = {0..<pl_size p} - bytes_of hv"
    using missing_law [OF assms(1), of 0 "pl_size p"] assms by (auto simp: gaps_def canon_canonical)
  show ?thesis using concat_rangesOf_asked [OF g(1)] canonical_asked [OF g(1)] g(2)
    by (simp add: todo_ranges_def)
qed

lemma todo_wf:
  assumes "canonical hv" "0 \<le> pl_size p" "r \<in> set (todo_ranges R p hv)"
  shows "0 \<le> r_start r \<and> r_start r < r_end r \<and> r_end r \<le> pl_size p"
proof -
  obtain g where g: "g \<in> set (gaps R (pl_size p) hv)" "r \<in> set (rangesOf p g)"
    using assms(3) by (auto simp: todo_ranges_def)
  have gs: "canonical (gaps R (pl_size p) hv)" "bytes_of (gaps R (pl_size p) hv) = {0..<pl_size p} - bytes_of hv"
    using missing_law [OF assms(1), of 0 "pl_size p"] assms by (auto simp: gaps_def canon_canonical)
  have w: "0 \<le> r_start g \<and> r_start g < r_end g" using canonical_wf [OF gs(1) g(1)] .
  then have "r_end g - 1 \<in> bytes_of (gaps R (pl_size p) hv)" using g(1) by (auto simp: bytes_of_def)
  with gs(2) have "r_end g \<le> pl_size p" by auto
  with w ranges_from_wf [of r "r_start g" "r_end g" "pl_cuts p"] g(2) show ?thesis
    by (simp add: rangesOf_def)
qed

text \<open>What a predecessor proved is kept exactly where the file still reaches.\<close>

lemma resumable_keeps:
  assumes "do_ranges D r = Inr rs" "canonical rs"
  shows "\<exists>hv. resumable R D r st = Inr hv \<and> canonical hv \<and>
    bytes_of hv = bytes_of rs \<inter> {..<(case st of IsFile n \<Rightarrow> n | IsDir n \<Rightarrow> n | _ \<Rightarrow> 0)}"
proof -
  define n where "n = (case st of IsFile n \<Rightarrow> n | IsDir n \<Rightarrow> n | _ \<Rightarrow> (0::int))"
  let ?out = "filter (\<lambda>x. r_start x < r_end x) (map (\<lambda>x. Range (r_start x) (min (r_end x) n)) rs)"
  have "\<forall>x\<in>set ?out. 0 \<le> r_start x \<and> r_start x < r_end x"
    using canonical_wf [OF assms(2)] by auto
  moreover have "bytes_of ?out = bytes_of rs \<inter> {..<n}" by (rule cut_bytes)
  ultimately show ?thesis using canon_law [of ?out] assms(1)
    by (simp add: resumable_def n_def)
qed

end

end
