(* ===== verification/Range_Progress.thy ===== *)
theory Range_Progress
  imports Range_Plan "HOL-Library.AList"
begin

text \<open>
  Several connections filling one file under one lease (\<open>parallel\<close>, \<open>progress\<close>, \<open>arrival\<close>,
  \<open>keepLanded\<close>, \<open>proved\<close>, \<open>record\<close> of \<open>go/parallel.go\<close>), as a step relation: every lock-free stretch of a
  worker and of the checkpoint timer is one step, so every interleaving of them is a run.

  The state keeps two sets the program cannot see: the bytes written to the file and the bytes a
  sync has made durable. The invariant is that the record never claims a byte that is not durable;
  the last section shows that a run nothing failed in has proved the whole artifact when its
  workers are idle.
\<close>

section \<open>Operations on the shared state\<close>

text \<open>The \<open>Landed\<close> callback of the range starting at \<open>start\<close>.\<close>

definition arrival :: "int \<Rightarrow> int \<Rightarrow> (int \<times> int) list \<Rightarrow> (int \<times> int) list" where
  "arrival start at landed =
     (if (case map_of landed start of None \<Rightarrow> 0 | Some x \<Rightarrow> x) < at then AList.update start at landed else landed)"

definition landed_parts :: "(int \<times> int) list \<Rightarrow> ranges" where
  "landed_parts landed = map (\<lambda>(s, a). Range s a) (filter (\<lambda>(s, a). s < a) landed)"

fun add_parts :: "range_ops \<Rightarrow> ranges \<Rightarrow> ranges \<Rightarrow> err + ranges" where
  "add_parts R nxt [] = Inr nxt"
| "add_parts R nxt (p # ps) = bind_result (ro_add R nxt (r_start p) (r_end p)) (\<lambda>n. add_parts R n ps)"

text \<open>The update \<open>record\<close> hands to the store.\<close>

definition record_update ::
  "range_ops \<Rightarrow> 'd doc_ops \<Rightarrow> int \<Rightarrow> validators \<Rightarrow> ranges \<Rightarrow> int \<Rightarrow> 'd job_record \<Rightarrow> err + 'd job_record" where
  "record_update R D sz vs have now rr =
     setCheckpoint R D \<lparr>c_prefix = 0, c_validators = vs, c_verified = have\<rparr>
       (rr\<lparr>j_progress := (j_progress rr)\<lparr>p_done := covered have,
            p_total := (if p_total (j_progress rr) = 0 then sz else p_total (j_progress rr)),
            p_updated := now\<rparr>\<rparr>)"

datatype worker =
    Idle
  | Ended
  | Writing range int
  | Reporting range int
  | Fetched range
  | Synced range

datatype timer = Quiet | Read ranges | Flushed ranges

record 'd progress_state =
  ps_size :: int
  ps_validators :: validators
  ps_todo :: ranges
  ps_workers :: "nat \<Rightarrow> worker"
  ps_timer :: timer
  ps_have :: ranges
  ps_landed :: "(int \<times> int) list"
  ps_record :: "'d job_record"
  ps_failed :: bool
  ps_written :: "int set"
  ps_durable :: "int set"

text \<open>
  One step. A worker takes a range, writes and reports what it wrote, and when the whole range has
  arrived syncs the file before it records; an error ends it. The timer reads the landed offsets
  before it syncs. The store may refuse an update, and other writers may change the rest of the
  record between two of ours.
\<close>

inductive pstep ::
  "range_ops \<Rightarrow> 'd doc_ops \<Rightarrow> 'd progress_state \<Rightarrow> 'd progress_state \<Rightarrow> bool" for R D where
  take_range: "ps_workers s i = Idle \<Longrightarrow> ps_todo s = rng # rest \<Longrightarrow>
     pstep R D s (s\<lparr>ps_todo := rest, ps_workers := (ps_workers s)(i := Writing rng (r_start rng))\<rparr>)"
| write_bytes: "ps_workers s i = Writing rng at \<Longrightarrow> 0 < n \<Longrightarrow> at + n \<le> r_end rng \<Longrightarrow>
     pstep R D s (s\<lparr>ps_written := ps_written s \<union> {at..<at + n},
       ps_workers := (ps_workers s)(i := Reporting rng (at + n))\<rparr>)"
| report_landed: "ps_workers s i = Reporting rng at \<Longrightarrow>
     pstep R D s (s\<lparr>ps_landed := arrival (r_start rng) at (ps_landed s),
       ps_workers := (ps_workers s)(i := Writing rng at)\<rparr>)"
| whole_range: "ps_workers s i = Writing rng (r_end rng) \<Longrightarrow>
     pstep R D s (s\<lparr>ps_workers := (ps_workers s)(i := Fetched rng)\<rparr>)"
| fetch_fails: "ps_workers s i = Writing rng at \<Longrightarrow>
     pstep R D s (s\<lparr>ps_failed := True, ps_workers := (ps_workers s)(i := Ended)\<rparr>)"
| sync_range: "ps_workers s i = Fetched rng \<Longrightarrow>
     pstep R D s (s\<lparr>ps_durable := ps_durable s \<union> ps_written s,
       ps_workers := (ps_workers s)(i := Synced rng)\<rparr>)"
| sync_fails: "ps_workers s i = Fetched rng \<Longrightarrow>
     pstep R D s (s\<lparr>ps_failed := True, ps_workers := (ps_workers s)(i := Ended)\<rparr>)"
| record_range: "ps_workers s i = Synced rng \<Longrightarrow> ro_add R (ps_have s) (r_start rng) (r_end rng) = Inr nxt \<Longrightarrow>
     record_update R D (ps_size s) (ps_validators s) nxt now (ps_record s) = Inr r' \<Longrightarrow>
     pstep R D s (s\<lparr>ps_have := nxt, ps_landed := AList.delete (r_start rng) (ps_landed s),
       ps_record := r', ps_workers := (ps_workers s)(i := Idle)\<rparr>)"
| record_refused: "ps_workers s i = Synced rng \<Longrightarrow> ro_add R (ps_have s) (r_start rng) (r_end rng) = Inr nxt \<Longrightarrow>
     pstep R D s (s\<lparr>ps_have := nxt, ps_landed := AList.delete (r_start rng) (ps_landed s),
       ps_failed := True, ps_workers := (ps_workers s)(i := Ended)\<rparr>)"
| timer_reads: "ps_timer s = Quiet \<Longrightarrow> landed_parts (ps_landed s) \<noteq> [] \<Longrightarrow>
     pstep R D s (s\<lparr>ps_timer := Read (landed_parts (ps_landed s))\<rparr>)"
| timer_syncs: "ps_timer s = Read parts \<Longrightarrow>
     pstep R D s (s\<lparr>ps_durable := ps_durable s \<union> ps_written s, ps_timer := Flushed parts\<rparr>)"
| timer_gives_up: "pstep R D s (s\<lparr>ps_timer := Quiet\<rparr>)"
| timer_records: "ps_timer s = Flushed parts \<Longrightarrow> add_parts R (ps_have s) parts = Inr nxt \<Longrightarrow>
     covered nxt \<noteq> covered (ps_have s) \<Longrightarrow>
     record_update R D (ps_size s) (ps_validators s) nxt now (ps_record s) = Inr r' \<Longrightarrow>
     pstep R D s (s\<lparr>ps_have := nxt, ps_record := r', ps_timer := Quiet\<rparr>)"
| timer_refused: "ps_timer s = Flushed parts \<Longrightarrow> add_parts R (ps_have s) parts = Inr nxt \<Longrightarrow>
     pstep R D s (s\<lparr>ps_have := nxt, ps_timer := Quiet\<rparr>)"
| others_write: "j_checkpoint r' = j_checkpoint (ps_record s) \<Longrightarrow> j_content r' = j_content (ps_record s) \<Longrightarrow>
     pstep R D s (s\<lparr>ps_record := r'\<rparr>)"

inductive_cases pstep_elim: "pstep R D s s'"

section \<open>The invariant\<close>

fun worker_ok :: "worker \<Rightarrow> int set \<Rightarrow> int set \<Rightarrow> bool" where
  "worker_ok Idle w d = True"
| "worker_ok Ended w d = True"
| "worker_ok (Writing r at) w d = (valid_range r \<and> {r_start r..<at} \<subseteq> w)"
| "worker_ok (Reporting r at) w d = (valid_range r \<and> {r_start r..<at} \<subseteq> w)"
| "worker_ok (Fetched r) w d = (valid_range r \<and> {r_start r..<r_end r} \<subseteq> w)"
| "worker_ok (Synced r) w d = (valid_range r \<and> {r_start r..<r_end r} \<subseteq> d)"

fun timer_ok :: "timer \<Rightarrow> int set \<Rightarrow> int set \<Rightarrow> bool" where
  "timer_ok Quiet w d = True"
| "timer_ok (Read ps) w d = ((\<forall>p\<in>set ps. valid_range p) \<and> bytes_of ps \<subseteq> w)"
| "timer_ok (Flushed ps) w d = ((\<forall>p\<in>set ps. valid_range p) \<and> bytes_of ps \<subseteq> d)"

definition landed_ok :: "(int \<times> int) list \<Rightarrow> int set \<Rightarrow> bool" where
  "landed_ok l w \<longleftrightarrow> (\<forall>(s, a)\<in>set l. 0 \<le> s \<and> {s..<a} \<subseteq> w)"

text \<open>
  The bytes the record claims. A record may arrive claiming more than the file still holds (the set
  \<open>C\<close>), so a run is answerable for everything else.
\<close>

definition record_claims :: "'d doc_ops \<Rightarrow> 'd job_record \<Rightarrow> int set" where
  "record_claims D r = (case do_ranges D r of Inl _ \<Rightarrow> {} | Inr rs \<Rightarrow> bytes_of rs)"

definition pinv :: "'d doc_ops \<Rightarrow> int set \<Rightarrow> 'd progress_state \<Rightarrow> bool" where
  "pinv D C s \<longleftrightarrow> canonical (ps_have s) \<and> bytes_of (ps_have s) \<subseteq> ps_durable s \<and>
     record_claims D (ps_record s) \<subseteq> ps_durable s \<union> C \<and> landed_ok (ps_landed s) (ps_written s) \<and>
     (\<forall>i. worker_ok (ps_workers s i) (ps_written s) (ps_durable s)) \<and>
     timer_ok (ps_timer s) (ps_written s) (ps_durable s) \<and> (\<forall>r\<in>set (ps_todo s). valid_range r)"

lemma worker_ok_mono: "worker_ok k w d \<Longrightarrow> w \<subseteq> w' \<Longrightarrow> d \<subseteq> d' \<Longrightarrow> worker_ok k w' d'"
  by (cases k) auto

lemma timer_ok_mono: "timer_ok k w d \<Longrightarrow> w \<subseteq> w' \<Longrightarrow> d \<subseteq> d' \<Longrightarrow> timer_ok k w' d'"
  by (cases k) auto

lemma landed_ok_mono: "landed_ok l w \<Longrightarrow> w \<subseteq> w' \<Longrightarrow> landed_ok l w'"
  by (fastforce simp: landed_ok_def)

lemma arrival_set: "set (arrival st a l) \<subseteq> insert (st, a) (set l)"
proof -
  have "set (AList.update st a l) \<subseteq> insert (st, a) (set l)"
    by (induction l) auto
  then show ?thesis by (auto simp: arrival_def)
qed

lemma landed_ok_arrival: "landed_ok l w \<Longrightarrow> 0 \<le> st \<Longrightarrow> {st..<a} \<subseteq> w \<Longrightarrow> landed_ok (arrival st a l) w"
  unfolding landed_ok_def using arrival_set [of st a l] by blast

lemma landed_ok_delete: "landed_ok l w \<Longrightarrow> landed_ok (AList.delete k l) w"
  by (auto simp: landed_ok_def AList.delete_eq)

lemma landed_parts_ok: "landed_ok l w \<Longrightarrow>
    (\<forall>p\<in>set (landed_parts l). valid_range p) \<and> bytes_of (landed_parts l) \<subseteq> w"
  by (fastforce simp: landed_ok_def landed_parts_def valid_range_def bytes_of_def)

context checkpoint_layer
begin

lemma add_parts_grows:
  "canonical h \<Longrightarrow> \<forall>p\<in>set ps. valid_range p \<Longrightarrow> add_parts R h ps = Inr h' \<Longrightarrow>
     canonical h' \<and> bytes_of h' = bytes_of h \<union> bytes_of ps"
proof (induction ps arbitrary: h)
  case Nil
  then show ?case by simp
next
  case (Cons p ps)
  obtain n where n: "ro_add R h (r_start p) (r_end p) = Inr n" "add_parts R n ps = Inr h'"
    using Cons.prems(3) by (auto simp: bind_result_Inr_iff)
  have "canonical n \<and> bytes_of n = bytes_of h \<union> {r_start p..<r_end p}"
    using add_grows [OF n(1) Cons.prems(1)] Cons.prems(2) by (simp add: valid_range_def)
  with Cons.IH [of n] Cons.prems(2) n(2) show ?case by auto
qed

lemma record_update_claims:
  assumes "record_update R D sz vs h now r = Inr r'" "canonical h"
  shows "record_claims D r' = bytes_of h"
proof -
  have wf: "checkpoint_wf \<lparr>c_prefix = 0, c_validators = vs, c_verified = h\<rparr>"
    using canonical_wf [OF assms(2)] by (simp add: checkpoint_wf_def list_all_iff)
  obtain rs where
    "CheckpointOf R D r' = Inr \<lparr>c_prefix = ro_prefix R rs, c_validators = vs, c_verified = rs\<rparr>"
    "bytes_of rs = bytes_of h"
    using setCheckpoint_reads_back [OF wf, of "r\<lparr>j_progress := (j_progress r)\<lparr>p_done := covered h,
            p_total := (if p_total (j_progress r) = 0 then sz else p_total (j_progress r)),
            p_updated := now\<rparr>\<rparr>"] assms(1)
    by (auto simp: record_update_def claimed_def)
  then show ?thesis by (auto simp: CheckpointOf_def bind_result_Inr_iff record_claims_def)
qed

end

text \<open>
  What \<open>parallel\<close> starts from: the partial of length \<open>len\<close> with any tail past the artifact cut away, the
  ranges still missing queued, every connection idle.
\<close>

definition parallel_start ::
  "range_ops \<Rightarrow> plan \<Rightarrow> validators \<Rightarrow> int \<Rightarrow> ranges \<Rightarrow> 'd job_record \<Rightarrow> 'd progress_state" where
  "parallel_start R p vs len hv r =
     \<lparr>ps_size = pl_size p, ps_validators = vs, ps_todo = todo_ranges R p hv, ps_workers = (\<lambda>_. Idle),
      ps_timer = Quiet, ps_have = hv, ps_landed = [], ps_record = r, ps_failed = False,
      ps_written = {0..<min len (pl_size p)}, ps_durable = {0..<min len (pl_size p)}\<rparr>"

section \<open>Durability before the claim\<close>

context checkpoint_layer
begin

lemma pinv_start:
  assumes "canonical h" "0 \<le> pl_size p" "bytes_of h \<subseteq> {0..<min len (pl_size p)}"
  shows "pinv D (record_claims D r) (parallel_start R p vs len h r)"
proof -
  have "\<forall>x\<in>set (todo_ranges R p h). valid_range x"
    using todo_wf [OF assms(1,2)] by (simp add: valid_range_def less_imp_le)
  with assms show ?thesis by (simp add: pinv_def landed_ok_def parallel_start_def)
qed

lemma workers_upd:
  assumes "\<forall>i. worker_ok (f i) w d" "w \<subseteq> w'" "d \<subseteq> d'" "worker_ok k w' d'"
  shows "\<forall>j. worker_ok ((f(i := k)) j) w' d'"
  using assms worker_ok_mono [of _ w d w' d'] by simp

lemma pinv_step:
  assumes "pstep R D s s'" "pinv D C s"
  shows "pinv D C s'"
proof -
  have wk: "\<forall>i. worker_ok (ps_workers s i) (ps_written s) (ps_durable s)"
    and can: "canonical (ps_have s)" and hd: "bytes_of (ps_have s) \<subseteq> ps_durable s"
    and rec: "record_claims D (ps_record s) \<subseteq> ps_durable s \<union> C"
    and ld: "landed_ok (ps_landed s) (ps_written s)"
    and tm: "timer_ok (ps_timer s) (ps_written s) (ps_durable s)"
    and td: "\<forall>r\<in>set (ps_todo s). valid_range r"
    using assms(2) by (simp_all add: pinv_def)
  have at: "worker_ok k (ps_written s) (ps_durable s)" if "ps_workers s i = k" for i k
    using wk that by metis
  from assms(1) show ?thesis
  proof cases
    case (take_range i rng rest)
    have "\<forall>j. worker_ok (((ps_workers s)(i := Writing rng (r_start rng))) j) (ps_written s) (ps_durable s)"
      using wk td take_range by (intro workers_upd [OF wk]) auto
    with take_range can hd rec ld tm td show ?thesis by (simp add: pinv_def)
  next
    case (write_bytes i rng a n)
    let ?w = "ps_written s \<union> {a..<a + n}"
    have k: "valid_range rng \<and> {r_start rng..<a} \<subseteq> ps_written s" using at [OF write_bytes(2)] by simp
    have "{r_start rng..<a + n} \<subseteq> {r_start rng..<a} \<union> {a..<a + n}" by auto
    with k have "worker_ok (Reporting rng (a + n)) ?w (ps_durable s)" by auto
    then have "\<forall>j. worker_ok (((ps_workers s)(i := Reporting rng (a + n))) j) ?w (ps_durable s)"
      by (intro workers_upd [OF wk]) auto
    with write_bytes can hd rec landed_ok_mono [OF ld, of ?w] timer_ok_mono [OF tm, of ?w "ps_durable s"] td
    show ?thesis by (simp add: pinv_def)
  next
    case (report_landed i rng a)
    have k: "valid_range rng \<and> {r_start rng..<a} \<subseteq> ps_written s" using at [OF report_landed(2)] by simp
    then have "\<forall>j. worker_ok (((ps_workers s)(i := Writing rng a)) j) (ps_written s) (ps_durable s)"
      by (intro workers_upd [OF wk]) auto
    moreover have "landed_ok (arrival (r_start rng) a (ps_landed s)) (ps_written s)"
      using k by (intro landed_ok_arrival [OF ld]) (auto simp: valid_range_def)
    ultimately show ?thesis using report_landed can hd rec tm td by (simp add: pinv_def)
  next
    case (whole_range i rng)
    have "\<forall>j. worker_ok (((ps_workers s)(i := Fetched rng)) j) (ps_written s) (ps_durable s)"
      using at [OF whole_range(2)] by (intro workers_upd [OF wk]) auto
    with whole_range can hd rec ld tm td show ?thesis by (simp add: pinv_def)
  next
    case (fetch_fails i rng a)
    have "\<forall>j. worker_ok (((ps_workers s)(i := Ended)) j) (ps_written s) (ps_durable s)"
      by (intro workers_upd [OF wk]) auto
    with fetch_fails can hd rec ld tm td show ?thesis by (simp add: pinv_def)
  next
    case (sync_range i rng)
    let ?d = "ps_durable s \<union> ps_written s"
    have "\<forall>j. worker_ok (((ps_workers s)(i := Synced rng)) j) (ps_written s) ?d"
      using at [OF sync_range(2)] by (intro workers_upd [OF wk]) auto
    with sync_range can hd rec ld timer_ok_mono [OF tm, of "ps_written s" ?d] td
    show ?thesis by (auto simp: pinv_def)
  next
    case (sync_fails i rng)
    have "\<forall>j. worker_ok (((ps_workers s)(i := Ended)) j) (ps_written s) (ps_durable s)"
      by (intro workers_upd [OF wk]) auto
    with sync_fails can hd rec ld tm td show ?thesis by (simp add: pinv_def)
  next
    case (record_range i rng nxt now r')
    have k: "valid_range rng" "{r_start rng..<r_end rng} \<subseteq> ps_durable s" using at [OF record_range(2)] by auto
    have n: "canonical nxt" "bytes_of nxt = bytes_of (ps_have s) \<union> {r_start rng..<r_end rng}"
      using add_grows [OF record_range(3) can] k by (auto simp: valid_range_def)
    have "\<forall>j. worker_ok (((ps_workers s)(i := Idle)) j) (ps_written s) (ps_durable s)"
      by (intro workers_upd [OF wk]) auto
    with record_range n k hd tm td record_update_claims [OF record_range(4) n(1)] landed_ok_delete [OF ld]
    show ?thesis by (simp add: pinv_def le_supI1)
  next
    case (record_refused i rng nxt)
    have k: "valid_range rng" "{r_start rng..<r_end rng} \<subseteq> ps_durable s" using at [OF record_refused(2)] by auto
    have n: "canonical nxt" "bytes_of nxt = bytes_of (ps_have s) \<union> {r_start rng..<r_end rng}"
      using add_grows [OF record_refused(3) can] k by (auto simp: valid_range_def)
    have "\<forall>j. worker_ok (((ps_workers s)(i := Ended)) j) (ps_written s) (ps_durable s)"
      by (intro workers_upd [OF wk]) auto
    with record_refused n k hd tm td rec landed_ok_delete [OF ld] show ?thesis by (simp add: pinv_def)
  next
    case timer_reads
    with can hd rec ld wk td landed_parts_ok [OF ld] show ?thesis by (simp add: pinv_def)
  next
    case (timer_syncs parts)
    let ?d = "ps_durable s \<union> ps_written s"
    have "\<forall>j. worker_ok (ps_workers s j) (ps_written s) ?d"
      using wk worker_ok_mono by blast
    with timer_syncs can hd rec ld tm td show ?thesis by (auto simp: pinv_def)
  next
    case timer_gives_up
    with can hd rec ld wk td show ?thesis by (simp add: pinv_def)
  next
    case (timer_records parts nxt now r')
    have n: "canonical nxt" "bytes_of nxt = bytes_of (ps_have s) \<union> bytes_of parts"
      using add_parts_grows [OF can _ timer_records(3)] tm timer_records(2) by auto
    with timer_records hd tm td wk ld record_update_claims [OF timer_records(5) n(1)]
    show ?thesis by (simp add: pinv_def le_supI1)
  next
    case (timer_refused parts nxt)
    have n: "canonical nxt" "bytes_of nxt = bytes_of (ps_have s) \<union> bytes_of parts"
      using add_parts_grows [OF can _ timer_refused(3)] tm timer_refused(2) by auto
    with timer_refused hd tm td wk ld rec show ?thesis by (simp add: pinv_def)
  next
    case (others_write r')
    have "record_claims D r' = record_claims D (ps_record s)"
      using ranges_frame_law [OF others_write(2,3)] by (simp add: record_claims_def)
    with others_write can hd rec ld wk tm td show ?thesis by (simp add: pinv_def)
  qed
qed

lemma pinv_reachable: "(pstep R D)\<^sup>*\<^sup>* s s' \<Longrightarrow> pinv D C s \<Longrightarrow> pinv D C s'"
  by (induction rule: rtranclp_induct) (auto intro: pinv_step)

end

section \<open>Nothing is forgotten\<close>

text \<open>The bytes a worker holds, and the bytes that are proven, queued or held.\<close>

fun held :: "worker \<Rightarrow> int set" where
  "held Idle = {}"
| "held Ended = {}"
| "held (Writing r at) = {r_start r..<r_end r}"
| "held (Reporting r at) = {r_start r..<r_end r}"
| "held (Fetched r) = {r_start r..<r_end r}"
| "held (Synced r) = {r_start r..<r_end r}"

definition accounted :: "'d progress_state \<Rightarrow> int set" where
  "accounted s = bytes_of (ps_have s) \<union> bytes_of (ps_todo s) \<union> (\<Union>i. held (ps_workers s i))"

lemma held_upd: "(\<Union>j. held ((f(i := k)) j)) \<union> held (f i) \<supseteq> (\<Union>j. held (f j))"
  by (auto split: if_splits)

lemma held_upd_new: "held k \<subseteq> (\<Union>j. held ((f(i := k)) j))"
  by (metis UNIV_I UN_upper fun_upd_same)

lemma held_upd_same: "held k = held (f i) \<Longrightarrow> (\<Union>j. held ((f(i := k)) j)) = (\<Union>j. held (f j))"
  by (auto split: if_splits)

context checkpoint_layer
begin

lemma accounted_step:
  assumes "pstep R D s s'" "pinv D C s" "\<not> ps_failed s'"
  shows "\<not> ps_failed s \<and> accounted s \<subseteq> accounted s' \<and> ps_size s' = ps_size s"
proof -
  have can: "canonical (ps_have s)" using assms(2) by (simp add: pinv_def)
  have wk: "\<forall>i. worker_ok (ps_workers s i) (ps_written s) (ps_durable s)" using assms(2) by (simp add: pinv_def)
  have at: "worker_ok k (ps_written s) (ps_durable s)" if "ps_workers s i = k" for i k
    using wk that by metis
  have tm: "timer_ok (ps_timer s) (ps_written s) (ps_durable s)" using assms(2) by (simp add: pinv_def)
  from assms(1,3) show ?thesis
  proof cases
    case (take_range i rng rest)
    have "held (ps_workers s i) = {}" using take_range by simp
    with held_upd [of "ps_workers s" i "Writing rng (r_start rng)"]
      held_upd_new [of "Writing rng (r_start rng)" "ps_workers s" i] take_range assms(3)
    show ?thesis by (auto simp: accounted_def)
  next
    case (write_bytes i rng a n)
    then show ?thesis using held_upd_same [of "Reporting rng (a + n)" "ps_workers s" i] assms(3)
      by (simp add: accounted_def)
  next
    case (report_landed i rng a)
    then show ?thesis using held_upd_same [of "Writing rng a" "ps_workers s" i] assms(3)
      by (simp add: accounted_def)
  next
    case (whole_range i rng)
    then show ?thesis using held_upd_same [of "Fetched rng" "ps_workers s" i] assms(3)
      by (simp add: accounted_def)
  next
    case (sync_range i rng)
    then show ?thesis using held_upd_same [of "Synced rng" "ps_workers s" i] assms(3)
      by (simp add: accounted_def)
  next
    case (record_range i rng nxt now r')
    have "bytes_of nxt = bytes_of (ps_have s) \<union> {r_start rng..<r_end rng}"
      using add_grows [OF record_range(3) can] at [OF record_range(2)] by (auto simp: valid_range_def)
    with record_range held_upd [of "ps_workers s" i Idle] assms(3) show ?thesis
      by (auto simp: accounted_def)
  next
    case (timer_records parts nxt now r')
    have "bytes_of (ps_have s) \<subseteq> bytes_of nxt"
      using add_parts_grows [OF can _ timer_records(3)] tm timer_records(2) by auto
    with timer_records assms(3) show ?thesis by (auto simp: accounted_def)
  next
    case (timer_refused parts nxt)
    have "bytes_of (ps_have s) \<subseteq> bytes_of nxt"
      using add_parts_grows [OF can _ timer_refused(3)] tm timer_refused(2) by auto
    with timer_refused assms(3) show ?thesis by (auto simp: accounted_def)
  qed (use assms(3) in \<open>auto simp: accounted_def\<close>)
qed

lemma accounted_reachable:
  "(pstep R D)\<^sup>*\<^sup>* s s' \<Longrightarrow> pinv D C s \<Longrightarrow> \<not> ps_failed s' \<Longrightarrow>
     \<not> ps_failed s \<and> accounted s \<subseteq> accounted s' \<and> ps_size s' = ps_size s"
proof (induction rule: rtranclp_induct)
  case base
  then show ?case by simp
next
  case (step t u)
  have "pinv D C t" using pinv_reachable [OF step.hyps(1) step.prems(1)] .
  from accounted_step [OF step.hyps(2) this step.prems(2)] step.IH [OF step.prems(1)] show ?case by auto
qed

text \<open>A run that nothing failed in has proved the artifact once its queue and its workers are empty.\<close>

lemma finished_run_complete:
  assumes "(pstep R D)\<^sup>*\<^sup>* s s'" "pinv D C s" "\<not> ps_failed s'" "{0..<ps_size s} \<subseteq> accounted s"
    and "ps_todo s' = []" "\<forall>i. ps_workers s' i = Idle"
  shows "{0..<ps_size s} \<subseteq> bytes_of (ps_have s') \<and> bytes_of (ps_have s') \<subseteq> ps_durable s'"
proof -
  have "{0..<ps_size s} \<subseteq> accounted s'" using accounted_reachable [OF assms(1-3)] assms(4) by blast
  moreover have "accounted s' = bytes_of (ps_have s')" using assms(5,6) by (simp add: accounted_def)
  ultimately show ?thesis using pinv_reachable [OF assms(1,2)] by (simp add: pinv_def)
qed

lemma accounted_start:
  assumes "canonical h" "0 \<le> pl_size p"
  shows "{0..<pl_size p} \<subseteq> accounted (parallel_start R p vs len h r)"
proof
  fix b assume b: "b \<in> {0..<pl_size p}"
  show "b \<in> accounted (parallel_start R p vs len h r)"
  proof (cases "b \<in> bytes_of h")
    case True
    then show ?thesis by (simp add: accounted_def parallel_start_def)
  next
    case False
    then have "asked (todo_ranges R p h) b \<noteq> 0" using todo_asked [OF assms, of b] b by simp
    then obtain x where "x \<in> set (todo_ranges R p h)" "r_start x \<le> b" "b < r_end x"
      by (auto simp: asked_def filter_empty_conv)
    then show ?thesis by (auto simp: accounted_def parallel_start_def bytes_of_def)
  qed
qed

end

end
