(* ===== verification/Http_Answers.thy ===== *)
theory Http_Answers
  imports Checkpoints
begin

text \<open>
  What an HTTP answer says (\<open>go/validators.go\<close>, and the status and range readers of
  \<open>go/fetchers.go\<close>): the version of the artifact, which bytes a partial answer holds, how long the
  artifact is, and whether a status is a refusal.

  A response header is a function from the canonical key to its first value, the empty string where
  there is none (\<open>http.Header.Get\<close>). \<open>fold\<close> is Unicode simple folding for text that is not ASCII.
\<close>

definition equal_fold :: "(string \<Rightarrow> string \<Rightarrow> bool) \<Rightarrow> string \<Rightarrow> string \<Rightarrow> bool" where
  "equal_fold uf a b = (if is_ascii a \<and> is_ascii b then map lower_byte a = map lower_byte b else uf a b)"

section \<open>Versions\<close>

definition Empty :: "validators \<Rightarrow> bool" where
  "Empty v \<longleftrightarrow> v_etag v = [] \<and> v_modified v = []"

definition IfRange :: "validators \<Rightarrow> string" where
  "IfRange v = (if v_etag v \<noteq> [] then v_etag v else v_modified v)"

definition or_0x20 :: "nat \<Rightarrow> nat" where
  "or_0x20 b = (if b div 32 mod 2 = 1 then b else b + 32)"

definition is_letter :: "char \<Rightarrow> bool" where
  "is_letter c \<longleftrightarrow> 97 \<le> or_0x20 (byte_of c) \<and> or_0x20 (byte_of c) \<le> 122"

fun shaped_loop :: "string \<Rightarrow> string \<Rightarrow> bool" where
  "shaped_loop (c # s) (p # ps) =
     ((if p = CHR ''9'' then is_digit c
       else if p = CHR ''a'' then is_letter c
       else if p = CHR ''#'' then is_digit c \<or> c = CHR '' ''
       else c = p) \<and> shaped_loop s ps)"
| "shaped_loop _ _ = True"

definition shaped :: "string \<Rightarrow> string \<Rightarrow> bool" where
  "shaped s pattern \<longleftrightarrow> length s = length pattern \<and> shaped_loop s pattern"

definition monthAt :: "string \<Rightarrow> nat \<Rightarrow> bool" where
  "monthAt s at =
     (case str_index (take 3 (drop at s)) ''JanFebMarAprMayJunJulAugSepOctNovDec'' of
        None \<Rightarrow> False | Some i \<Rightarrow> i mod 3 = 0)"

definition httpDate :: "string \<Rightarrow> bool" where
  "httpDate s =
     (if shaped s ''aaa, 99 aaa 9999 99:99:99 GMT'' then monthAt s 8
      else if shaped s ''aaa aaa #9 99:99:99 9999'' then monthAt s 4
      else (case str_cut '', '' s of (day, tail, ok) \<Rightarrow>
        if \<not> ok \<or> day = [] then False
        else shaped day (replicate (length day) (CHR ''a'')) \<and>
             shaped tail ''99-aaa-99 99:99:99 GMT'' \<and> monthAt tail 3))"

definition strongETag :: "(string \<Rightarrow> string \<Rightarrow> bool) \<Rightarrow> string \<Rightarrow> bool" where
  "strongETag uf s =
     (if s = [] then False
      else if 2 \<le> length s \<and> equal_fold uf (take 2 s) ''w/'' then False
      else 2 \<le> length s \<and> prefix [quote] s \<and> suffix [quote] s)"

definition StrongValidators :: "(string \<Rightarrow> string \<Rightarrow> bool) \<Rightarrow> (string \<Rightarrow> string) \<Rightarrow> validators" where
  "StrongValidators uf h =
     (let etag = trim_space (h ''Etag''); lm = trim_space (h ''Last-Modified'') in
      if strongETag uf etag then \<lparr>v_etag = etag, v_modified = []\<rparr>
      else if httpDate lm then \<lparr>v_etag = [], v_modified = lm\<rparr> else no_validators)"

section \<open>Partial answers\<close>

record response =
  rs_status :: int
  rs_line :: string
  rs_length :: int
  rs_header :: "string \<Rightarrow> string"

definition contentRangeStart :: "(string \<Rightarrow> string \<Rightarrow> bool) \<Rightarrow> string \<Rightarrow> err + int" where
  "contentRangeStart uf header =
     (let s = trim_space header in
      if s = [] then Inl (Errorf [Lit ''download: a 206 arrived with no Content-Range''])
      else let (unit, rest, ok) = str_cut '' '' s in
        if \<not> ok \<or> \<not> equal_fold uf unit ''bytes''
        then Inl (Errorf [Lit ''download: Content-Range '', Quoted s, Lit '' is not in bytes''])
        else let (byteRange, after, ok) = str_cut ''/'' (trim_space rest) in
          if \<not> ok then Inl (Errorf [Lit ''download: Content-Range '', Quoted s, Lit '' has no total''])
          else let (first, final, ok) = str_cut ''-'' byteRange in
            if \<not> ok then Inl (Errorf [Lit ''download: Content-Range '', Quoted s, Lit '' has no range''])
            else (case parse_int64 (trim_space first) of
              None \<Rightarrow> Inl (Errorf [Lit ''download: Content-Range '', Quoted s,
                         Lit '' does not start at a byte position''])
            | Some n \<Rightarrow> (if n < 0 then Inl (Errorf [Lit ''download: Content-Range '', Quoted s,
                         Lit '' does not start at a byte position'']) else Inr n)))"

definition contentRangeTotal :: "string \<Rightarrow> int" where
  "contentRangeTotal s =
     (let (unit, rest, ok) = str_cut '' '' (trim_space s) in
      if \<not> ok then 0
      else let (before, whole, ok) = str_cut ''/'' (trim_space rest) in
        if \<not> ok then 0
        else (case parse_int64 (trim_space whole) of
            None \<Rightarrow> 0 | Some n \<Rightarrow> (if n \<le> 0 then 0 else n)))"

definition sizeFromContentRange :: "string \<Rightarrow> int" where
  "sizeFromContentRange header =
     (let (before, whole, ok) = str_cut ''/'' (trim_space header) in
      if \<not> ok then 0
      else (case parse_int64 whole of None \<Rightarrow> 0 | Some n \<Rightarrow> (if n < 0 then 0 else n)))"

definition namesRange :: "string \<Rightarrow> range \<Rightarrow> bool" where
  "namesRange header want =
     (let (before, after, ok) = str_cut ''/'' (trim_prefix ''bytes '' (trim_space header)) in
      if \<not> ok then False
      else let (first, final, ok) = str_cut ''-'' before in
        if \<not> ok then False
        else (case parse_int64 first of
            None \<Rightarrow> False
          | Some start \<Rightarrow> (case parse_int64 final of
              None \<Rightarrow> False
            | Some en \<Rightarrow> start = r_start want \<and> en = r_end want - 1)))"

definition answersFrom ::
  "(string \<Rightarrow> string) \<Rightarrow> (string \<Rightarrow> string \<Rightarrow> bool) \<Rightarrow> response \<Rightarrow> int \<Rightarrow> err option" where
  "answersFrom uni uf resp from =
     (let ct = rs_header resp ''Content-Type'' in
      if prefix ''multipart/'' (to_lower uni (trim_space ct))
      then Some (Errorf [Lit ''download: one range was answered with '', Str ct])
      else (case contentRangeStart uf (rs_header resp ''Content-Range'') of
        Inl e \<Rightarrow> Some e
      | Inr start \<Rightarrow>
          if start \<noteq> from then Some (Errorf [Lit ''download: asked for bytes from '', Num from,
             Lit '', got a range starting at '', Num start])
          else None))"

definition unwantedCoding :: "(string \<Rightarrow> string \<Rightarrow> bool) \<Rightarrow> response \<Rightarrow> string" where
  "unwantedCoding uf resp =
     (let v = trim_space (rs_header resp ''Content-Encoding'') in
      if v = [] \<or> equal_fold uf v ''identity'' then [] else v)"

section \<open>Refusals\<close>

definition refused :: "int \<Rightarrow> bool" where
  "refused status \<longleftrightarrow> status \<in> {400, 401, 402, 403, 404, 405, 406, 410, 414, 451}"

definition answered :: "string \<Rightarrow> response \<Rightarrow> err" where
  "answered locator resp = StatusError (rs_status resp) True
     [Shown (Var ErrRefused), Lit '': '', Str locator, Lit '': '', Str (rs_line resp)]"

definition plain_status :: "string \<Rightarrow> response \<Rightarrow> err" where
  "plain_status locator resp = StatusError (rs_status resp) False
     [Lit ''download: '', Str locator, Lit '': '', Str (rs_line resp)]"

definition statusError :: "string \<Rightarrow> response \<Rightarrow> err" where
  "statusError locator resp =
     (if refused (rs_status resp) then answered locator resp else plain_status locator resp)"

section \<open>Facts\<close>

lemma statusError_class: "Permanent (statusError l resp) \<longleftrightarrow> refused (rs_status resp)"
  by (simp add: statusError_def answered_def plain_status_def)

lemma statusError_cause:
  "CauseOf (Some (statusError l resp)) = status_cause (rs_status resp) (refused (rs_status resp))"
  by (simp add: statusError_def answered_def plain_status_def CauseOf_def)

lemma strong_never_weak:
  "strongETag uf s \<Longrightarrow> hd s = quote \<and> last s = quote \<and> 2 \<le> length s"
  by (cases s) (auto simp: strongETag_def suffix_one_iff split: if_splits)

lemma StrongValidators_shape:
  "let v = StrongValidators uf h in
     (v_etag v = [] \<or> strongETag uf (v_etag v) \<and> v_modified v = []) \<and>
     (v_modified v = [] \<or> httpDate (v_modified v) \<and> v_etag v = [])"
  by (simp add: StrongValidators_def Let_def no_validators_def)

lemma IfRange_empty: "IfRange v = [] \<longleftrightarrow> Empty v"
  by (auto simp: IfRange_def Empty_def)

text \<open>The header a server writes for a range, and what the readers find in it.\<close>

definition content_range :: "int \<Rightarrow> int \<Rightarrow> int \<Rightarrow> string" where
  "content_range first final whole =
     ''bytes '' @ fmt_int first @ ''-'' @ fmt_int final @ ''/'' @ fmt_int whole"

lemma content_range_trim: "trim_space (content_range a b c) = content_range a b c"
proof -
  have "last (content_range a b c) = last (fmt_int c)" by (simp add: content_range_def)
  moreover have "last (fmt_int c) \<notin> edge_bytes"
    by (intro ascii_printable_not_edge) (use fmt_int_printable [of "last (fmt_int c)" c] in auto)
  moreover have "hd (content_range a b c) \<notin> edge_bytes"
    by (intro ascii_printable_not_edge) (auto simp: content_range_def)
  ultimately show ?thesis by (intro trim_space_id) auto
qed

lemma digits_no_sep:
  "0 \<le> n \<Longrightarrow> CHR ''-'' \<notin> set (fmt_int n)" "0 \<le> n \<Longrightarrow> CHR ''/'' \<notin> set (fmt_int n)"
  by (auto dest!: fmt_int_nonneg_chars simp: is_digit_def)

lemma content_range_tail_trim:
  "trim_space (fmt_int a @ ''-'' @ fmt_int b @ ''/'' @ fmt_int c) = fmt_int a @ ''-'' @ fmt_int b @ ''/'' @ fmt_int c"
proof (rule trim_space_all, intro ballI ascii_printable_not_edge)
  fix x assume "x \<in> set (fmt_int a @ ''-'' @ fmt_int b @ ''/'' @ fmt_int c)"
  then have "x \<in> set (fmt_int a) \<or> x = CHR ''-'' \<or> x \<in> set (fmt_int b) \<or> x = CHR ''/'' \<or> x \<in> set (fmt_int c)" by auto
  then show "32 < byte_of x" "byte_of x < 128" using fmt_int_printable [of x] by auto
qed

lemma cut_content_range:
  assumes "0 \<le> a" "0 \<le> b"
  shows "str_cut '' '' (content_range a b c) = (''bytes'', fmt_int a @ ''-'' @ fmt_int b @ ''/'' @ fmt_int c, True)"
    and "str_cut ''/'' (fmt_int a @ ''-'' @ fmt_int b @ ''/'' @ fmt_int c) = (fmt_int a @ ''-'' @ fmt_int b, fmt_int c, True)"
    and "str_cut ''-'' (fmt_int a @ ''-'' @ fmt_int b) = (fmt_int a, fmt_int b, True)"
proof -
  show "str_cut '' '' (content_range a b c) = (''bytes'', fmt_int a @ ''-'' @ fmt_int b @ ''/'' @ fmt_int c, True)"
    using str_cut_char_found [of "CHR '' ''" "''bytes''" "fmt_int a @ ''-'' @ fmt_int b @ ''/'' @ fmt_int c"]
    by (simp add: content_range_def)
  show "str_cut ''/'' (fmt_int a @ ''-'' @ fmt_int b @ ''/'' @ fmt_int c) = (fmt_int a @ ''-'' @ fmt_int b, fmt_int c, True)"
    using str_cut_char_found [of "CHR ''/''" "fmt_int a @ ''-'' @ fmt_int b" "fmt_int c"] digits_no_sep assms
    by auto
  show "str_cut ''-'' (fmt_int a @ ''-'' @ fmt_int b) = (fmt_int a, fmt_int b, True)"
    using str_cut_char_found [of "CHR ''-''" "fmt_int a" "fmt_int b"] digits_no_sep assms by auto
qed

lemma bytes_fold: "equal_fold uf ''bytes'' ''bytes''"
  by (simp add: equal_fold_def is_ascii_def)

lemma contentRangeStart_reads:
  assumes "0 \<le> a" "0 \<le> b" "is_int64 a"
  shows "contentRangeStart uf (content_range a b c) = Inr a"
  using cut_content_range [OF assms(1,2)] assms
  by (simp add: contentRangeStart_def content_range_trim content_range_tail_trim [simplified] bytes_fold
      parse_fmt_int Let_def) (simp add: content_range_def)

lemma contentRangeTotal_reads:
  assumes "0 \<le> a" "0 \<le> b" "0 < c" "is_int64 c"
  shows "contentRangeTotal (content_range a b c) = c"
  using cut_content_range [OF assms(1,2)] assms
  by (simp add: contentRangeTotal_def content_range_trim content_range_tail_trim [simplified] parse_fmt_int)

lemma namesRange_reads:
  assumes "0 \<le> a" "0 \<le> b" "is_int64 a" "is_int64 b"
  shows "namesRange (content_range a b c) want \<longleftrightarrow> want = Range a (b + 1)"
proof -
  have "trim_prefix ''bytes '' (content_range a b c) = fmt_int a @ ''-'' @ fmt_int b @ ''/'' @ fmt_int c"
    by (simp add: trim_prefix_def content_range_def)
  then show ?thesis using cut_content_range [OF assms(1,2)] assms
    by (cases want) (auto simp: namesRange_def content_range_trim parse_fmt_int)
qed

lemma answersFrom_offset:
  "answersFrom uni uf resp from = None \<Longrightarrow> contentRangeStart uf (rs_header resp ''Content-Range'') = Inr from"
  by (auto simp: answersFrom_def Let_def split: if_splits sum.splits)

end
