(* ===== verification/Http_Transport.thy ===== *)
theory Http_Transport
  imports Http_Answers
begin

text \<open>
  The fetchers (\<open>go/fetchers.go\<close>, and \<open>Fetchers\<close> of \<open>go/fetcher.go\<close>): the request that is sent, what
  is done with each answer, and copying a bounded body to its place in a shared file.

  The network is the argument \<open>send\<close>: it answers the \<open>n\<close>-th request of one call. A body is the
  chunks its reads deliver and how it ends (\<open>None\<close> is \<open>io.EOF\<close>). A file is a partial map from offsets
  to bytes.
\<close>

section \<open>Request headers\<close>

definition token_char :: "char \<Rightarrow> bool" where
  "token_char c \<longleftrightarrow> is_digit c \<or> is_upper c \<or> is_lower c \<or>
     c \<in> {CHR ''!'', CHR ''#'', CHR ''$'', CHR ''%'', CHR ''&'', CHR 0x27, CHR ''*'', CHR ''+'', CHR ''-'',
          CHR ''.'', CHR ''^'', CHR ''_'', CHR 0x60, CHR ''|'', CHR ''~''}"

fun canonical_walk :: "bool \<Rightarrow> string \<Rightarrow> string" where
  "canonical_walk up [] = []"
| "canonical_walk up (c # cs) = (if up then upper_byte c else lower_byte c) # canonical_walk (c = CHR ''-'') cs"

text \<open>\<open>textproto.CanonicalMIMEHeaderKey\<close>, the key \<open>http.Header.Set\<close> stores under.\<close>

definition canonical_key :: "string \<Rightarrow> string" where
  "canonical_key k = (if list_all token_char k then canonical_walk True k else k)"

type_synonym header_map = "string \<Rightarrow> string option"

definition header_set :: "string \<Rightarrow> string \<Rightarrow> header_map \<Rightarrow> header_map" where
  "header_set k v m = m(canonical_key k := Some v)"

record request =
  rq_source :: source
  rq_from :: int
  rq_to :: int
  rq_validators :: validators
  rq_headers :: "(string \<times> string) list"
  rq_restart :: "err option option"

text \<open>
  \<open>rq_restart\<close> is the callback: \<open>None\<close> where the caller gave none, otherwise what calling it returns.
\<close>

record http_request =
  hq_url :: string
  hq_header :: header_map

definition byte_range :: "int \<Rightarrow> int \<Rightarrow> string" where
  "byte_range from to = ''bytes='' @ fmt_int from @ ''-'' @ (if from < to then fmt_int (to - 1) else [])"

definition set_all :: "(string \<times> string) list \<Rightarrow> header_map" where
  "set_all hs = fold (\<lambda>(k, v). header_set k v) hs Map.empty"

definition request_of :: "request \<Rightarrow> http_request" where
  "request_of rq =
     (let m = set_all (rq_headers rq);
          m = (if 0 < rq_from rq \<or> 0 < rq_to rq then
                 (let m = header_set ''Range'' (byte_range (rq_from rq) (rq_to rq)) m;
                      v = IfRange (rq_validators rq)
                  in if v \<noteq> [] then header_set ''If-Range'' v m else m)
               else m)
      in \<lparr>hq_url = s_locator (rq_source rq), hq_header = header_set ''Accept-Encoding'' ''identity'' m\<rparr>)"

section \<open>Answers\<close>

record body =
  bd_chunks :: "string list"
  bd_end :: "err option"

record network =
  nw_url :: "string \<Rightarrow> err option"
  nw_send :: "nat \<Rightarrow> http_request \<Rightarrow> err + (response \<times> body)"
  nw_fold :: "string \<Rightarrow> string \<Rightarrow> bool"
  nw_lower :: "string \<Rightarrow> string"

definition http_get :: "network \<Rightarrow> nat \<Rightarrow> request \<Rightarrow> err + (response \<times> body)" where
  "http_get N n rq =
     (case nw_url N (s_locator (rq_source rq)) of
        Some e \<Rightarrow> Inl e
      | None \<Rightarrow> nw_send N n (request_of rq))"

definition whole_request :: "request \<Rightarrow> request" where
  "whole_request rq = rq\<lparr>rq_from := 0, rq_to := 0, rq_validators := no_validators\<rparr>"

text \<open>
  \<open>restartWhole\<close>: whether the caller was rewound, and the answer to a request for the whole
  artifact.
\<close>

definition restartWhole :: "network \<Rightarrow> request \<Rightarrow> err \<Rightarrow> bool \<times> (err + (response \<times> body))" where
  "restartWhole N rq why =
     (case rq_restart rq of
        None \<Rightarrow> (False, Inl (Errorf [Err (Var ErrCannotRestart), Lit '': '', Err why]))
      | Some (Some e) \<Rightarrow> (False, Inl e)
      | Some None \<Rightarrow>
          (True, bind_result (http_get N 1 (whole_request rq)) (\<lambda>(again, b).
             if rs_status again \<noteq> 200 then Inl (plain_status (s_locator (rq_source rq)) again)
             else Inr (again, b))))"

record fetched =
  ft_response :: response
  ft_body :: body
  ft_from :: int

text \<open>
  The switch over the status: whether the caller was rewound, and the body to copy with the offset
  its first byte belongs at.
\<close>

definition choose_answer :: "network \<Rightarrow> request \<Rightarrow> response \<times> body \<Rightarrow> bool \<times> (err + fetched)" where
  "choose_answer N rq rb =
     (let (resp, b) = rb;
          ranged = (0 < rq_from rq \<or> 0 < rq_to rq);
          keep = (\<lambda>from. Inr \<lparr>ft_response = resp, ft_body = b, ft_from = from\<rparr>);
          restart = (\<lambda>why. case restartWhole N rq why of
             (w, Inl e) \<Rightarrow> (w, Inl e)
           | (w, Inr (r, b')) \<Rightarrow> (w, Inr \<lparr>ft_response = r, ft_body = b', ft_from = 0\<rparr>))
      in if rs_status resp = 206 then
           (case answersFrom (nw_lower N) (nw_fold N) resp (rq_from rq) of
              Some cerr \<Rightarrow> if \<not> ranged then (False, Inl cerr) else restart cerr
            | None \<Rightarrow> (False, keep (rq_from rq)))
         else if ranged \<and> rs_status resp = 416 then
           restart (Errorf [Lit ''download: '', Str (s_locator (rq_source rq)), Lit '' has fewer than '',
             Num (rq_from rq), Lit '' bytes (416)''])
         else if ranged \<and> rs_status resp = 200 then
           (case rq_restart rq of
              None \<Rightarrow> (False, Inl (Errorf [Err (Var ErrCannotRestart), Lit '': asked '',
                Str (s_locator (rq_source rq)), Lit '' for bytes from '', Num (rq_from rq),
                Lit '' and got the whole file (200)'']))
            | Some (Some e) \<Rightarrow> (False, Inl e)
            | Some None \<Rightarrow> (True, keep 0))
         else if rs_status resp \<noteq> 200 then
           (False, Inl (statusError (s_locator (rq_source rq)) resp))
         else (False, keep (rq_from rq)))"

text \<open>\<open>HTTP.Fetch\<close> up to the copy.\<close>

definition http_answer :: "network \<Rightarrow> request \<Rightarrow> bool \<times> (err + fetched)" where
  "http_answer N rq =
     (case http_get N 0 rq of
        Inl e \<Rightarrow> (False, Inl e)
      | Inr (resp, b) \<Rightarrow>
          (let coding = unwantedCoding (nw_fold N) resp in
           if coding \<noteq> [] then
             (False, Inl (Errorf [Lit ''download: '', Str (s_locator (rq_source rq)),
               Lit '' applied Content-Encoding '', Str coding, Lit '' to a request that asked for identity'']))
           else choose_answer N rq (resp, b)))"

text \<open>What is reported of the answer: its version, and the size of the artifact.\<close>

definition observed_of :: "network \<Rightarrow> fetched \<Rightarrow> validators" where
  "observed_of N f = StrongValidators (nw_fold N) (rs_header (ft_response f))"

definition total_of :: "fetched \<Rightarrow> int" where
  "total_of f =
     (let whole = (if 0 < rs_length (ft_response f) then wrap64 (ft_from f + rs_length (ft_response f)) else 0);
          n = contentRangeTotal (rs_header (ft_response f) ''Content-Range'')
      in if rs_status (ft_response f) = 206 \<and> 0 < n then n else whole)"

section \<open>Copying\<close>

type_synonym file_map = "int \<Rightarrow> char option"

definition write_at :: "int \<Rightarrow> string \<Rightarrow> file_map \<Rightarrow> file_map" where
  "write_at off p f = (\<lambda>i. if off \<le> i \<and> i < off + int (length p) then Some (p ! nat (i - off)) else f i)"

record range_writer =
  rw_file :: file_map
  rw_at :: int
  rw_end :: int
  rw_landed :: "int list"
  rw_beats :: nat

text \<open>\<open>wr at p\<close> is how many bytes of \<open>p\<close> \<open>WriteAt\<close> takes at \<open>at\<close>, and its error.\<close>

definition range_write ::
  "(int \<Rightarrow> string \<Rightarrow> nat \<times> err option) \<Rightarrow> string \<Rightarrow> range_writer \<Rightarrow> (nat \<times> err option) \<times> range_writer" where
  "range_write wr p w =
     (if rw_end w < wrap64 (rw_at w + int (length p)) then
        ((0, Some (Errorf [Err (Var ErrOverrun), Lit '': '', Num (int (length p)), Lit '' bytes at '',
           Num (rw_at w), Lit '' reach past '', Num (rw_end w)])), w)
      else let (n, e) = wr (rw_at w) p; at = rw_at w + int n in
        ((n, e), w\<lparr>rw_file := write_at (rw_at w) (take n p) (rw_file w), rw_at := at,
           rw_landed := (if 0 < n then rw_landed w @ [at] else rw_landed w), rw_beats := Suc (rw_beats w)\<rparr>))"

text \<open>\<open>copyWithContext\<close>; \<open>ctx k\<close> is the context's error before the \<open>k\<close>-th read.\<close>

fun copy_loop ::
  "(int \<Rightarrow> string \<Rightarrow> nat \<times> err option) \<Rightarrow> (nat \<Rightarrow> err option) \<Rightarrow> nat \<Rightarrow> string list \<Rightarrow> err option \<Rightarrow> int \<Rightarrow>
   range_writer \<Rightarrow> (int \<times> err option) \<times> range_writer" where
  "copy_loop wr ctx k [] en n w =
     (case ctx k of Some e \<Rightarrow> ((n, Some e), w) | None \<Rightarrow> ((n, en), w))"
| "copy_loop wr ctx k (c # cs) en n w =
     (case ctx k of
        Some e \<Rightarrow> ((n, Some e), w)
      | None \<Rightarrow>
          if c = [] then copy_loop wr ctx (Suc k) cs en n w
          else (case range_write wr c w of ((m, e), w') \<Rightarrow>
            (case e of
               Some x \<Rightarrow> ((n + int m, Some x), w')
             | None \<Rightarrow> copy_loop wr ctx (Suc k) cs en (n + int m) w')))"

text \<open>\<open>io.LimitReader\<close>: the chunks within the limit, how they end, and what is left of the body.\<close>

fun limit_chunks :: "nat \<Rightarrow> string list \<Rightarrow> err option \<Rightarrow> string list \<times> err option \<times> string list" where
  "limit_chunks n [] en = ([], (if n = 0 then None else en), [])"
| "limit_chunks n (c # cs) en =
     (if n = 0 then ([], None, c # cs)
      else if n < length c then ([take n c], None, drop n c # cs)
      else (case limit_chunks (n - length c) cs en of (l, e, rest) \<Rightarrow> (c # l, e, rest)))"

definition copyRange ::
  "(int \<Rightarrow> string \<Rightarrow> nat \<times> err option) \<Rightarrow> (nat \<Rightarrow> err option) \<Rightarrow> range \<Rightarrow> body \<Rightarrow> file_map \<Rightarrow>
   err option \<times> range_writer" where
  "copyRange wr ctx rng b f =
     (let want = r_end rng - r_start rng;
          w = \<lparr>rw_file = f, rw_at = r_start rng, rw_end = r_end rng, rw_landed = [], rw_beats = 0\<rparr>;
          (cs, en, rest) = limit_chunks (nat want) (bd_chunks b) (bd_end b);
          ((n, e), w) = copy_loop wr ctx 0 cs en 0 w
      in case e of
           Some x \<Rightarrow> (Some x, w)
         | None \<Rightarrow>
             if n \<noteq> want then
               (Some (Errorf [Err (Var ErrShortTransfer), Lit '': range '', Num (r_start rng), Lit ''-'',
                  Num (r_end rng - 1), Lit '' gave '', Num n, Lit '' of '', Num want, Lit '' bytes'']), w)
             else if (case rest of c # _ \<Rightarrow> c \<noteq> [] | [] \<Rightarrow> False) then
               (Some (Errorf [Err (Var ErrOverrun), Lit '': range '', Num (r_start rng), Lit ''-'',
                  Num (r_end rng - 1)]), w)
             else (None, w))"

section \<open>Ranges over HTTP\<close>

record range_request =
  rr_source :: source
  rr_range :: range
  rr_headers :: "(string \<times> string) list"
  rr_validators :: validators

definition range_request_of :: "range_request \<Rightarrow> http_request" where
  "range_request_of rq =
     (let m = set_all (rr_headers rq);
          m = header_set ''Range'' (''bytes='' @ fmt_int (r_start (rr_range rq)) @ ''-'' @
                fmt_int (r_end (rr_range rq) - 1)) m;
          v = IfRange (rr_validators rq)
      in \<lparr>hq_url = s_locator (rr_source rq), hq_header = (if v \<noteq> [] then header_set ''If-Range'' v m else m)\<rparr>)"

text \<open>\<open>HTTP.FetchRange\<close> up to the copy: the body that answers the range, or the refusal.\<close>

definition range_answer :: "network \<Rightarrow> range_request \<Rightarrow> err + body" where
  "range_answer N rq =
     (let loc = s_locator (rr_source rq); last = r_end (rr_range rq) - 1 in
      case nw_url N loc of
        Some e \<Rightarrow> Inl e
      | None \<Rightarrow> bind_result (nw_send N 0 (range_request_of rq)) (\<lambda>(resp, b).
          if rs_status resp \<noteq> 206 then
            (if refused (rs_status resp) then Inl (answered loc resp)
             else Inl (StatusError (rs_status resp) False [Lit ''download: asked for bytes '',
                    Num (r_start (rr_range rq)), Lit ''-'', Num last, Lit '', server answered '', Str (rs_line resp)]))
          else if \<not> namesRange (rs_header resp ''Content-Range'') (rr_range rq) then
            Inl (Errorf [Lit ''download: asked for bytes '', Num (r_start (rr_range rq)), Lit ''-'', Num last,
              Lit '', server sent Content-Range '', Quoted (rs_header resp ''Content-Range'')])
          else Inr b))"

definition http_FetchRange ::
  "network \<Rightarrow> (int \<Rightarrow> string \<Rightarrow> nat \<times> err option) \<Rightarrow> (nat \<Rightarrow> err option) \<Rightarrow> range_request \<Rightarrow> file_map \<Rightarrow>
   err option \<times> file_map" where
  "http_FetchRange N wr ctx rq f =
     (case range_answer N rq of
        Inl e \<Rightarrow> (Some e, f)
      | Inr b \<Rightarrow> (case copyRange wr ctx (rr_range rq) b f of (e, w) \<Rightarrow> (e, rw_file w)))"

definition probe_request :: "source \<Rightarrow> (string \<times> string) list \<Rightarrow> http_request" where
  "probe_request src hs = \<lparr>hq_url = s_locator src,
     hq_header = header_set ''Accept-Encoding'' ''identity'' (header_set ''Range'' ''bytes=0-0'' (set_all hs))\<rparr>"

definition http_Ranged :: "network \<Rightarrow> source \<Rightarrow> (string \<times> string) list \<Rightarrow> err + (int \<times> bool)" where
  "http_Ranged N src hs =
     (case nw_url N (s_locator src) of
        Some e \<Rightarrow> Inl e
      | None \<Rightarrow> bind_result (nw_send N 0 (probe_request src hs)) (\<lambda>(resp, b).
          if rs_status resp = 206 then Inr (sizeFromContentRange (rs_header resp ''Content-Range''), True)
          else if refused (rs_status resp) then Inl (answered (s_locator src) resp)
          else if rs_status resp \<noteq> 200 then Inr (0, False)
          else Inr (if 0 < rs_length resp then rs_length resp else 0, False)))"

section \<open>Paths the operating system opens\<close>

text \<open>The argument \<open>disk\<close> opens a path: its bytes, and whether it is a regular file.\<close>

definition file_Fetch :: "(string \<Rightarrow> err + (string \<times> bool)) \<Rightarrow> request \<Rightarrow> err + (string \<times> int)" where
  "file_Fetch disk rq =
     bind_result (disk (s_locator (rq_source rq))) (\<lambda>(bytes, reg).
       Inr ((if 0 < rq_from rq then drop (nat (rq_from rq)) bytes else bytes), int (length bytes)))"

definition file_Ranged :: "(string \<Rightarrow> err + (string \<times> bool)) \<Rightarrow> source \<Rightarrow> err + (int \<times> bool)" where
  "file_Ranged disk src =
     bind_result (disk (s_locator src)) (\<lambda>(bytes, reg). Inr (int (length bytes), reg))"

definition section_body :: "string \<Rightarrow> range \<Rightarrow> body" where
  "section_body bytes rng =
     \<lparr>bd_chunks = [take (nat (r_end rng - r_start rng)) (drop (nat (r_start rng)) bytes)], bd_end = None\<rparr>"

definition file_FetchRange ::
  "(string \<Rightarrow> err + (string \<times> bool)) \<Rightarrow> (int \<Rightarrow> string \<Rightarrow> nat \<times> err option) \<Rightarrow> (nat \<Rightarrow> err option) \<Rightarrow>
   range_request \<Rightarrow> file_map \<Rightarrow> err option \<times> file_map" where
  "file_FetchRange disk wr ctx rq f =
     (case disk (s_locator (rr_source rq)) of
        Inl e \<Rightarrow> (Some e, f)
      | Inr (bytes, reg) \<Rightarrow>
          (case copyRange wr ctx (rr_range rq) (section_body bytes (rr_range rq)) f of (e, w) \<Rightarrow> (e, rw_file w)))"

section \<open>What is asked\<close>

lemma canonical_keys [simp]:
  "canonical_key ''Range'' = ''Range''" "canonical_key ''If-Range'' = ''If-Range''"
  "canonical_key ''Accept-Encoding'' = ''Accept-Encoding''"
  by code_simp+

lemma request_headers:
  "hq_header (request_of rq) ''Accept-Encoding'' = Some ''identity''"
  "0 < rq_from rq \<or> 0 < rq_to rq \<Longrightarrow>
     hq_header (request_of rq) ''Range'' = Some (byte_range (rq_from rq) (rq_to rq))"
  "0 < rq_from rq \<or> 0 < rq_to rq \<Longrightarrow> IfRange (rq_validators rq) \<noteq> [] \<Longrightarrow>
     hq_header (request_of rq) ''If-Range'' = Some (IfRange (rq_validators rq))"
  by (simp_all add: request_of_def Let_def header_set_def)

lemma range_request_headers:
  "hq_header (range_request_of rq) ''Range'' =
     Some (''bytes='' @ fmt_int (r_start (rr_range rq)) @ ''-'' @ fmt_int (r_end (rr_range rq) - 1))"
  "IfRange (rr_validators rq) \<noteq> [] \<Longrightarrow>
     hq_header (range_request_of rq) ''If-Range'' = Some (IfRange (rr_validators rq))"
  by (simp_all add: range_request_of_def Let_def header_set_def)

lemma range_request_no_coding: "rr_headers rq = [] \<Longrightarrow> hq_header (range_request_of rq) ''Accept-Encoding'' = None"
  by (simp add: range_request_of_def Let_def header_set_def set_all_def)

section \<open>Where the bytes of an answer go\<close>

text \<open>
  An answer is taken at the offset that was asked for only if the server named that offset or the
  whole artifact was asked for; and at byte zero only behind a rewind, with a complete artifact.
\<close>

lemma restartWhole_Inr:
  "restartWhole N rq why = (w, Inr (r, b)) \<Longrightarrow> w \<and> rq_restart rq = Some None \<and> rs_status r = 200"
  by (auto simp: restartWhole_def bind_result_Inr_iff split: option.splits if_splits)

lemma choose_answer_offset:
  assumes "choose_answer N rq (resp, b) = (w, Inr f)"
  shows "if w then ft_from f = 0 \<and> rs_status (ft_response f) = 200 \<and> rq_restart rq = Some None
    else ft_from f = rq_from rq \<and> ft_response f = resp \<and>
      (rs_status resp = 206 \<and> contentRangeStart (nw_fold N) (rs_header resp ''Content-Range'') = Inr (rq_from rq) \<or>
       rs_status resp = 200 \<and> \<not> (0 < rq_from rq \<or> 0 < rq_to rq))"
proof -
  have restart: "w \<and> ft_from f = 0 \<and> rs_status (ft_response f) = 200 \<and> rq_restart rq = Some None"
    if "(case restartWhole N rq why of (w, Inl e) \<Rightarrow> (w, Inl e)
         | (w, Inr (r, b')) \<Rightarrow> (w, Inr \<lparr>ft_response = r, ft_body = b', ft_from = 0\<rparr>)) = (w, Inr f)" for why
  proof -
    obtain w0 r where rw: "restartWhole N rq why = (w0, r)" by (cases "restartWhole N rq why")
    with that obtain r' b' where "r = Inr (r', b')" by (cases r) auto
    with that rw restartWhole_Inr [of N rq why w0 r' b'] show ?thesis by auto
  qed
  show ?thesis
  proof (cases "rs_status resp = 206")
    case True
    show ?thesis
    proof (cases "answersFrom (nw_lower N) (nw_fold N) resp (rq_from rq)")
      case None
      with True assms answersFrom_offset [OF None] show ?thesis by (auto simp: choose_answer_def Let_def)
    next
      case (Some e)
      with True assms restart [of e] show ?thesis by (auto simp: choose_answer_def Let_def split: if_splits)
    qed
  next
    case False
    note not206 = False
    show ?thesis
    proof (cases "(0 < rq_from rq \<or> 0 < rq_to rq) \<and> rs_status resp = 416")
      case True
      with not206 assms restart show ?thesis by (auto simp: choose_answer_def Let_def)
    next
      case False
      with not206 assms show ?thesis
        by (auto simp: choose_answer_def Let_def split: if_splits option.splits)
    qed
  qed
qed

lemma http_answer_choose:
  "http_answer N rq = (w, Inr f) \<Longrightarrow> \<exists>resp b. choose_answer N rq (resp, b) = (w, Inr f)"
  by (auto simp: http_answer_def Let_def split: sum.splits prod.splits if_splits)

section \<open>Copying a range\<close>

definition writer_contract :: "(int \<Rightarrow> string \<Rightarrow> nat \<times> err option) \<Rightarrow> bool" where
  "writer_contract wr \<longleftrightarrow> (\<forall>at p. fst (wr at p) \<le> length p \<and> (snd (wr at p) = None \<longrightarrow> fst (wr at p) = length p))"

lemma write_at_Nil [simp]: "write_at a [] f = f"
  by (rule ext) (auto simp: write_at_def)

lemma write_at_append: "write_at (a + int (length p)) q (write_at a p f) = write_at a (p @ q) f"
proof
  fix i
  show "write_at (a + int (length p)) q (write_at a p f) i = write_at a (p @ q) f i"
    by (auto simp: write_at_def nth_append intro!: arg_cong [of _ _ "nth q"])
qed

lemma limit_chunks_spec:
  "limit_chunks n cs en = (l, e, rest) \<Longrightarrow>
     concat l = take n (concat cs) \<and> concat l @ concat rest = concat cs \<and> length (concat l) \<le> n"
proof (induction n cs en arbitrary: l e rest rule: limit_chunks.induct)
  case (1 n en)
  then show ?case by auto
next
  case (2 n c cs en)
  show ?case
  proof (cases "n = 0 \<or> n < length c")
    case True
    with 2 show ?thesis by (auto split: if_splits)
  next
    case False
    obtain l' e' rest' where r: "limit_chunks (n - length c) cs en = (l', e', rest')" by (metis prod_cases3)
    from False 2(1) [OF _ _ r] 2(2) r show ?thesis by auto
  qed
qed

lemma copy_loop_spec:
  "copy_loop wr ctx k cs en n w = ((n', e), w') \<Longrightarrow> writer_contract wr \<Longrightarrow>
     is_int64 (rw_at w) \<Longrightarrow> is_int64 (rw_end w) \<Longrightarrow> rw_at w + int (length (concat cs)) \<le> rw_end w \<Longrightarrow>
     \<exists>m \<le> length (concat cs). n' = n + int m \<and> rw_end w' = rw_end w \<and> rw_at w' = rw_at w + int m \<and>
       rw_file w' = write_at (rw_at w) (take m (concat cs)) (rw_file w) \<and>
       (e = None \<longrightarrow> m = length (concat cs) \<and> en = None)"
proof (induction wr ctx k cs en n w arbitrary: n' e w' rule: copy_loop.induct)
  case (1 wr ctx k en n w)
  then show ?case by (auto split: option.splits)
next
  case (2 wr ctx k c cs en n w)
  show ?case
  proof (cases "ctx k")
    case (Some x)
    with 2 show ?thesis by auto
  next
    case None
    note ctx = None
    show ?thesis
    proof (cases "c = []")
      case True
      with 2 ctx show ?thesis by auto
    next
      case False
      have fits: "wrap64 (rw_at w + int (length c)) = rw_at w + int (length c)"
        using "2.prems"(3-5) by (intro wrap64_id) (auto simp: is_int64_def)
      obtain m x where wr: "wr (rw_at w) c = (m, x)" by (cases "wr (rw_at w) c")
      have mc: "m \<le> length c" "x = None \<Longrightarrow> m = length c"
        using "2.prems"(2) wr unfolding writer_contract_def by (metis fst_conv snd_conv)+
      let ?w = "w\<lparr>rw_file := write_at (rw_at w) (take m c) (rw_file w), rw_at := rw_at w + int m,
           rw_landed := (if 0 < m then rw_landed w @ [rw_at w + int m] else rw_landed w),
           rw_beats := Suc (rw_beats w)\<rparr>"
      have rw: "range_write wr c w = ((m, x), ?w)"
        using wr fits "2.prems"(5) by (simp add: range_write_def Let_def)
      show ?thesis
      proof (cases x)
        case (Some y)
        with "2.prems"(1) ctx False rw have "n' = n + int m" "e = Some y" "w' = ?w" by auto
        then show ?thesis using mc(1) by (intro exI [of _ m]) auto
      next
        case None
        with mc have m: "m = length c" by simp
        have step: "copy_loop wr ctx (Suc k) cs en (n + int m) ?w = ((n', e), w')"
          using "2.prems"(1) ctx False rw None by simp
        have pre: "is_int64 (rw_at ?w)" "is_int64 (rw_end ?w)"
            "rw_at ?w + int (length (concat cs)) \<le> rw_end ?w"
          using "2.prems"(3-5) m by (auto simp: is_int64_def)
        obtain j where j: "j \<le> length (concat cs)" "n' = n + int m + int j" "rw_end w' = rw_end w"
          "rw_at w' = rw_at w + int m + int j"
          "rw_file w' = write_at (rw_at w + int m) (take j (concat cs)) (write_at (rw_at w) (take m c) (rw_file w))"
          "e = None \<longrightarrow> j = length (concat cs) \<and> en = None"
          using "2.IH"(2) [OF ctx False rw [symmetric] refl None step "2.prems"(2) pre] by auto
        have "rw_file w' = write_at (rw_at w) (take (m + j) (concat (c # cs))) (rw_file w)"
          using j(5) write_at_append [of "rw_at w" c "take j (concat cs)" "rw_file w"] m by simp
        then show ?thesis using j m by (intro exI [of _ "m + j"]) auto
      qed
    qed
  qed
qed

text \<open>
  Whatever the body holds and however the copy ends, bytes outside the range keep their value; and
  a copy that succeeds has put exactly the body in it.
\<close>

lemma copyRange_spec:
  assumes "copyRange wr ctx rng b f = (e, w)" "writer_contract wr"
    and "0 \<le> r_start rng" "r_start rng \<le> r_end rng" "r_end rng \<le> max_int64"
  shows "\<forall>i. i < r_start rng \<or> r_end rng \<le> i \<longrightarrow> rw_file w i = f i"
    and "e = None \<Longrightarrow> int (length (concat (bd_chunks b))) \<ge> r_end rng - r_start rng \<and>
      rw_file w = write_at (r_start rng) (take (nat (r_end rng - r_start rng)) (concat (bd_chunks b))) f"
proof -
  define want where "want = r_end rng - r_start rng"
  have want: "0 \<le> want" using assms(4) by (simp add: want_def)
  let ?w0 = "\<lparr>rw_file = f, rw_at = r_start rng, rw_end = r_end rng, rw_landed = [], rw_beats = 0\<rparr>"
  obtain cs en rest where l: "limit_chunks (nat want) (bd_chunks b) (bd_end b) = (cs, en, rest)" by (metis prod_cases3)
  obtain n x w1 where c: "copy_loop wr ctx 0 cs en 0 ?w0 = ((n, x), w1)" by (metis surj_pair)
  note ls = limit_chunks_spec [OF l]
  have fit: "rw_at ?w0 + int (length (concat cs)) \<le> rw_end ?w0"
    using ls want by (simp add: want_def)
  have i64: "is_int64 (rw_at ?w0)" "is_int64 (rw_end ?w0)" using assms by (auto simp: is_int64_def min_int64_def)
  obtain m where m: "m \<le> length (concat cs)" "n = int m"
      "rw_file w1 = write_at (r_start rng) (take m (concat cs)) f" "x = None \<longrightarrow> m = length (concat cs) \<and> en = None"
    using copy_loop_spec [OF c assms(2) i64 fit] by auto
  have w: "w = w1" "e = None \<Longrightarrow> x = None \<and> n = want"
    using assms(1) l c by (auto simp: copyRange_def Let_def want_def split: option.splits if_splits)
  show "\<forall>i. i < r_start rng \<or> r_end rng \<le> i \<longrightarrow> rw_file w i = f i"
    using m(1,3) w(1) fit by (auto simp: write_at_def)
  assume "e = None"
  with w m have "int (length (concat cs)) = want" "rw_file w = write_at (r_start rng) (concat cs) f" by auto
  with ls show "int (length (concat (bd_chunks b))) \<ge> r_end rng - r_start rng \<and>
      rw_file w = write_at (r_start rng) (take (nat (r_end rng - r_start rng)) (concat (bd_chunks b))) f"
    by (auto simp: want_def)
qed

lemma range_answer_named:
  assumes "range_answer N rq = Inr b"
  shows "\<exists>resp. nw_send N 0 (range_request_of rq) = Inr (resp, b) \<and> rs_status resp = 206 \<and>
    namesRange (rs_header resp ''Content-Range'') (rr_range rq)"
  using assms by (auto simp: range_answer_def Let_def bind_result_Inr_iff split: option.splits if_splits)

lemma write_at_inside: "a \<le> i \<Longrightarrow> i < a + int (length p) \<Longrightarrow> write_at a p f i = Some (p ! nat (i - a))"
  by (simp add: write_at_def)

section \<open>Two fetchers, one interface\<close>

text \<open>
  What a \<open>RangeFetcher\<close> promises of \<open>FetchRange\<close>: no byte outside the range changes, and success
  fills the range.
\<close>

locale range_fetcher =
  fixes fetch_range :: "range_request \<Rightarrow> file_map \<Rightarrow> err option \<times> file_map"
  assumes outside: "\<And>rq f i. 0 \<le> r_start (rr_range rq) \<Longrightarrow> r_start (rr_range rq) \<le> r_end (rr_range rq) \<Longrightarrow>
      r_end (rr_range rq) \<le> max_int64 \<Longrightarrow> i < r_start (rr_range rq) \<or> r_end (rr_range rq) \<le> i \<Longrightarrow>
      snd (fetch_range rq f) i = f i"
    and filled: "\<And>rq f i. 0 \<le> r_start (rr_range rq) \<Longrightarrow> r_start (rr_range rq) \<le> r_end (rr_range rq) \<Longrightarrow>
      r_end (rr_range rq) \<le> max_int64 \<Longrightarrow> fst (fetch_range rq f) = None \<Longrightarrow>
      r_start (rr_range rq) \<le> i \<Longrightarrow> i < r_end (rr_range rq) \<Longrightarrow> snd (fetch_range rq f) i \<noteq> None"
begin

text \<open>Ranges fetched one after another leave every byte of every range in the file.\<close>

fun fetch_all :: "range_request list \<Rightarrow> file_map \<Rightarrow> err option \<times> file_map" where
  "fetch_all [] f = (None, f)"
| "fetch_all (q # qs) f =
     (case fetch_range q f of (Some e, f') \<Rightarrow> (Some e, f') | (None, f') \<Rightarrow> fetch_all qs f')"

lemma fetch_range_keeps:
  assumes "valid_range (rr_range q)" "r_end (rr_range q) \<le> max_int64" "fst (fetch_range q f) = None" "f i \<noteq> None"
  shows "snd (fetch_range q f) i \<noteq> None"
proof (cases "i < r_start (rr_range q) \<or> r_end (rr_range q) \<le> i")
  case True
  with assms outside [of q i f] show ?thesis by (simp add: valid_range_def)
next
  case False
  with assms filled [of q f i] show ?thesis by (simp add: valid_range_def)
qed

lemma fetch_all_filled:
  "\<forall>q\<in>set qs. valid_range (rr_range q) \<and> r_end (rr_range q) \<le> max_int64 \<Longrightarrow>
     fetch_all qs f = (None, f') \<Longrightarrow>
     (\<forall>i. f i \<noteq> None \<or> i \<in> bytes_of (map rr_range qs) \<longrightarrow> f' i \<noteq> None)"
proof (induction qs arbitrary: f)
  case Nil
  then show ?case by simp
next
  case (Cons q qs)
  obtain f1 where s: "fetch_range q f = (None, f1)" "fetch_all qs f1 = (None, f')"
    using Cons.prems(2) by (auto split: prod.splits option.splits)
  have v: "valid_range (rr_range q)" "r_end (rr_range q) \<le> max_int64" using Cons.prems(1) by auto
  have ih: "\<forall>i. f1 i \<noteq> None \<or> i \<in> bytes_of (map rr_range qs) \<longrightarrow> f' i \<noteq> None"
    using Cons.IH [OF _ s(2)] Cons.prems(1) by simp
  have "f1 i \<noteq> None" if "f i \<noteq> None" for i
    using fetch_range_keeps [OF v, of f i] s(1) that by simp
  moreover have "f1 i \<noteq> None" if "r_start (rr_range q) \<le> i" "i < r_end (rr_range q)" for i
    using filled [of q f i] v s(1) that by (simp add: valid_range_def)
  ultimately show ?case using ih by auto
qed

end

lemma copyRange_fetches:
  assumes "writer_contract wr" "0 \<le> r_start rng" "r_start rng \<le> r_end rng" "r_end rng \<le> max_int64"
    "copyRange wr ctx rng b f = (e, w)"
  shows "i < r_start rng \<or> r_end rng \<le> i \<Longrightarrow> rw_file w i = f i"
    and "e = None \<Longrightarrow> r_start rng \<le> i \<Longrightarrow> i < r_end rng \<Longrightarrow> rw_file w i \<noteq> None"
  using copyRange_spec [OF assms(5,1-4)] by (auto simp: write_at_inside)

lemma http_range_fetcher:
  assumes "writer_contract wr"
  shows "range_fetcher (http_FetchRange N wr ctx)"
proof
  fix rq :: range_request and f :: file_map and i :: int
  assume r: "0 \<le> r_start (rr_range rq)" "r_start (rr_range rq) \<le> r_end (rr_range rq)" "r_end (rr_range rq) \<le> max_int64"
  note c = copyRange_fetches [OF assms r]
  show "i < r_start (rr_range rq) \<or> r_end (rr_range rq) \<le> i \<Longrightarrow> snd (http_FetchRange N wr ctx rq f) i = f i"
    using c(1) by (auto simp: http_FetchRange_def split: sum.split prod.split)
  show "fst (http_FetchRange N wr ctx rq f) = None \<Longrightarrow> r_start (rr_range rq) \<le> i \<Longrightarrow> i < r_end (rr_range rq) \<Longrightarrow>
      snd (http_FetchRange N wr ctx rq f) i \<noteq> None"
    using c(2) by (auto simp: http_FetchRange_def split: sum.splits prod.splits)
qed

lemma file_range_fetcher:
  assumes "writer_contract wr"
  shows "range_fetcher (file_FetchRange disk wr ctx)"
proof
  fix rq :: range_request and f :: file_map and i :: int
  assume r: "0 \<le> r_start (rr_range rq)" "r_start (rr_range rq) \<le> r_end (rr_range rq)" "r_end (rr_range rq) \<le> max_int64"
  note c = copyRange_fetches [OF assms r]
  show "i < r_start (rr_range rq) \<or> r_end (rr_range rq) \<le> i \<Longrightarrow> snd (file_FetchRange disk wr ctx rq f) i = f i"
    using c(1) by (auto simp: file_FetchRange_def split: sum.split prod.split)
  show "fst (file_FetchRange disk wr ctx rq f) = None \<Longrightarrow> r_start (rr_range rq) \<le> i \<Longrightarrow> i < r_end (rr_range rq) \<Longrightarrow>
      snd (file_FetchRange disk wr ctx rq f) i \<noteq> None"
    using c(2) by (auto simp: file_FetchRange_def split: sum.splits prod.splits)
qed

text \<open>A writer that takes everything, the usual one.\<close>

definition full_writer :: "int \<Rightarrow> string \<Rightarrow> nat \<times> err option" where
  "full_writer at p = (length p, None)"

lemma full_writer_contract: "writer_contract full_writer"
  by (simp add: writer_contract_def full_writer_def)

interpretation http_ranges: range_fetcher "http_FetchRange N full_writer ctx" for N ctx
  by (rule http_range_fetcher [OF full_writer_contract])

interpretation file_ranges: range_fetcher "file_FetchRange disk full_writer ctx" for disk ctx
  by (rule file_range_fetcher [OF full_writer_contract])

end
