(* ===== verification/Reach_Credentials.thy ===== *)
theory Reach_Credentials
  imports Http_Transport "HOL-Library.AList" "HOL-Library.List_Lexorder" "HOL-Library.Char_ord"
begin

text \<open>
  Which hosts this machine opens a connection to (\<open>go/reach.go\<close>), which secret goes to which host
  (\<open>go/credentials.go\<close>), and what a redirect carries on (\<open>do\<close> of \<open>go/trust.go\<close>).

  \<open>url.Parse\<close> is the argument \<open>parse\<close>; the environment is the argument \<open>env\<close>, the empty string where
  a variable is not set.
\<close>

section \<open>Hosts\<close>

record url =
  u_user :: bool
  u_scheme :: string
  u_hostname :: string
  u_redacted :: string

definition host_alphabet :: string where
  "host_alphabet = ''abcdefghijklmnopqrstuvwxyz0123456789.-_:''"

definition notInAHostName :: "char \<Rightarrow> bool" where
  "notInAHostName c \<longleftrightarrow> c \<notin> set host_alphabet"

definition plainHost :: "(string \<Rightarrow> string) \<Rightarrow> string \<Rightarrow> err + string" where
  "plainHost uni host =
     (let h = to_lower uni (trim_suffix ''.'' host) in
      if list_ex notInAHostName h then
        Inl (Errorf [Err (Var ErrUnreachable), Lit '': '', Quoted h,
          Lit '' is not a plain host name, so the host this machine would authorise is not the host it would connect to''])
      else Inr h)"

definition cutAtAny :: "string \<Rightarrow> string \<Rightarrow> string" where
  "cutAtAny s seps = takeWhile (\<lambda>c. c \<notin> set seps) s"

definition hostOfURL :: "(string \<Rightarrow> string) \<Rightarrow> url \<Rightarrow> err + string" where
  "hostOfURL uni u =
     (if u_user u then
        Inl (Errorf [Err (Var ErrUnreachable), Lit '': '', Str (u_redacted u),
          Lit '' carries userinfo in its authority, and the three transports '',
          Lit ''this layer speaks for end userinfo at three different bytes''])
      else bind_result (plainHost uni (u_hostname u)) (\<lambda>host.
        if host = [] \<and> (u_scheme u = ''http'' \<or> u_scheme u = ''https'') then
          Inl (Errorf [Err (Var ErrUnreachable), Lit '': '', Str (u_redacted u), Lit '' names no host''])
        else Inr host))"

definition hostOf :: "(string \<Rightarrow> string) \<Rightarrow> (string \<Rightarrow> err + url) \<Rightarrow> string \<Rightarrow> err + string" where
  "hostOf uni parse locator =
     (if prefix [backslash, backslash] locator then
        plainHost uni (cutAtAny (drop 2 locator) [slash, backslash, CHR ''?'', CHR ''#''])
      else case parse locator of
        Inl e \<Rightarrow> Inl (Errorf [Err (Var ErrUnreachable), Lit '': '', Str locator, Lit '' is not a URI: '', Err e])
      | Inr u \<Rightarrow> hostOfURL uni u)"

definition HostOf :: "(string \<Rightarrow> string) \<Rightarrow> (string \<Rightarrow> err + url) \<Rightarrow> string \<Rightarrow> string" where
  "HostOf uni parse locator = (case hostOf uni parse locator of Inl _ \<Rightarrow> [] | Inr h \<Rightarrow> h)"

text \<open>A nil \<open>Reach\<close> is \<open>None\<close>.\<close>

type_synonym reach = "(string \<Rightarrow> err option) option"

definition checkHost :: "reach \<Rightarrow> string \<Rightarrow> err option" where
  "checkHost r host =
     (case r of
        None \<Rightarrow> None
      | Some ask \<Rightarrow>
          if host = [] then None
          else map_option (\<lambda>e. Errorf [Err (Var ErrUnreachable), Lit '' '', Str host, Lit '': '', Err e]) (ask host))"

definition checkURL :: "(string \<Rightarrow> string) \<Rightarrow> reach \<Rightarrow> url \<Rightarrow> err option" where
  "checkURL uni r u = (case hostOfURL uni u of Inl e \<Rightarrow> Some e | Inr h \<Rightarrow> checkHost r h)"

definition check :: "(string \<Rightarrow> string) \<Rightarrow> (string \<Rightarrow> err + url) \<Rightarrow> reach \<Rightarrow> string \<Rightarrow> err option" where
  "check uni parse r locator = (case hostOf uni parse locator of Inl e \<Rightarrow> Some e | Inr h \<Rightarrow> checkHost r h)"

section \<open>The hosts a person switched off\<close>

text \<open>The file of refusals: missing, unreadable (or not a JSON map), or the map stored in it.\<close>

datatype refusals_file = NoFile | BadFile err | Hosts "(string \<times> string) list"

fun canonical_from :: "(string \<Rightarrow> string) \<Rightarrow> (string \<times> string) list \<Rightarrow> string list \<Rightarrow> (string \<times> string) list \<Rightarrow>
    err + (string \<times> string) list" where
  "canonical_from uni stored [] hosts = Inr hosts"
| "canonical_from uni stored (key # keys) hosts =
     (case plainHost uni key of
        Inl e \<Rightarrow> Inl (Errorf [Quoted key, Lit '' is refused, and no request can name it: '', Err e])
      | Inr name \<Rightarrow>
          if name = [] then Inl (Errorf [Err (Var ErrUnreachable), Lit '': a refusal names no host''])
          else canonical_from uni stored keys
                 (if name \<in> fst ` set hosts then hosts else hosts @ [(name, lookup stored key)]))"

definition canonical_hosts :: "(string \<Rightarrow> string) \<Rightarrow> (string \<times> string) list \<Rightarrow> err + (string \<times> string) list" where
  "canonical_hosts uni stored = canonical_from uni stored (sort (map fst stored)) []"

definition refusals_List :: "(string \<Rightarrow> string) \<Rightarrow> refusals_file \<Rightarrow> err + (string \<times> string) list" where
  "refusals_List uni f =
     (case f of NoFile \<Rightarrow> Inr [] | BadFile e \<Rightarrow> Inl e | Hosts stored \<Rightarrow> canonical_hosts uni stored)"

definition covers :: "string \<Rightarrow> string \<Rightarrow> bool" where
  "covers name host \<longleftrightarrow> host = name \<or> suffix (CHR ''.'' # name) host"

definition refusals_Check :: "(string \<Rightarrow> string) \<Rightarrow> string \<Rightarrow> refusals_file \<Rightarrow> string \<Rightarrow> err option" where
  "refusals_Check uni path f host =
     (case refusals_List uni f of
        Inl e \<Rightarrow> Some (Errorf [Str path, Lit '' is unreadable: '', Err e])
      | Inr hosts \<Rightarrow>
          (case plainHost uni host of
             Inl e \<Rightarrow> Some e
           | Inr h \<Rightarrow> map_option (\<lambda>nw. Plain (snd nw)) (find (\<lambda>(name, why). covers name h) hosts)))"

text \<open>\<open>edit\<close> writes back what \<open>List\<close> read; the disk does its part.\<close>

definition refusals_edit ::
  "(string \<Rightarrow> string) \<Rightarrow> ((string \<times> string) list \<Rightarrow> (string \<times> string) list) \<Rightarrow> refusals_file \<Rightarrow> err + refusals_file" where
  "refusals_edit uni change f = bind_result (refusals_List uni f) (\<lambda>hosts. Inr (Hosts (change hosts)))"

definition refusals_Refuse :: "(string \<Rightarrow> string) \<Rightarrow> string \<Rightarrow> string \<Rightarrow> refusals_file \<Rightarrow> err + refusals_file" where
  "refusals_Refuse uni host reason f =
     bind_result (plainHost uni host) (\<lambda>name.
       if name = [] then Inl (Errorf [Err (Var ErrUnreachable), Lit '': a refusal names no host''])
       else refusals_edit uni (AList.update name reason) f)"

definition refusals_Allow :: "(string \<Rightarrow> string) \<Rightarrow> string \<Rightarrow> refusals_file \<Rightarrow> err + refusals_file" where
  "refusals_Allow uni host f =
     bind_result (plainHost uni host) (\<lambda>name. refusals_edit uni (AList.delete name) f)"

section \<open>Credentials\<close>

definition env_prefix :: "string \<Rightarrow> string" where
  "env_prefix p = (if p \<noteq> [] then p else ''ABSTRACTION_CRED_'')"

definition credEnvName :: "(string \<Rightarrow> string) \<Rightarrow> string \<Rightarrow> string" where
  "credEnvName upper name = to_upper upper (map (\<lambda>c. if c = CHR ''-'' \<or> c = CHR ''.'' then CHR ''_'' else c) name)"

definition boundTo ::
  "(string \<Rightarrow> string) \<Rightarrow> (string \<Rightarrow> string) \<Rightarrow> (string \<Rightarrow> string) \<Rightarrow> string \<Rightarrow> string \<Rightarrow> string \<Rightarrow> bool" where
  "boundTo uni upper env p name host0 =
     (let host = to_lower uni host0 in
      if host = [] then False
      else list_ex (\<lambda>pat. let pat = to_lower uni (trim_space pat) in pat \<noteq> [] \<and> covers pat host)
             (split_on (CHR '','') (env (env_prefix p @ credEnvName upper name @ ''_HOSTS''))))"

definition env_Lookup ::
  "(string \<Rightarrow> string) \<Rightarrow> (string \<Rightarrow> string) \<Rightarrow> (string \<Rightarrow> string) \<Rightarrow> string \<Rightarrow> string \<Rightarrow> string \<Rightarrow>
   (string \<times> string) list option" where
  "env_Lookup uni upper env p name host =
     (if name = [] then None
      else let v = env (env_prefix p @ credEnvName upper name) in
        if v = [] \<or> \<not> boundTo uni upper env p name host then None
        else Some [(''Authorization'', ''Bearer '' @ v)])"

text \<open>
  What a runner is given: nothing, something that looks a name up for a host, or something that
  resolves a whole source (\<open>SourceCredentials\<close>).
\<close>

datatype credentials =
    NoCredentials
  | ByName "string \<Rightarrow> string \<Rightarrow> (string \<times> string) list option"
  | BySource "source \<Rightarrow> string \<Rightarrow> err + (string \<times> string) list"

fun configured :: "credentials \<Rightarrow> bool" where
  "configured NoCredentials = False"
| "configured (ByName f) = True"
| "configured (BySource f) = True"

definition headersFor ::
  "(string \<Rightarrow> string) \<Rightarrow> (string \<Rightarrow> string) \<Rightarrow> (string \<Rightarrow> err + url) \<Rightarrow> source \<Rightarrow> credentials \<Rightarrow>
   err + (string \<times> string) list" where
  "headersFor uni upper parse src creds =
     (let out = s_headers src; name = lookup (s_attrs src) CredentialAttr in
      if name = [] then Inr out
      else if \<not> configured creds then
        Inl (Errorf [Lit ''download: source needs credential '', Quoted name, Lit '' but none are configured''])
      else bind_result (hostOf uni parse (s_locator src)) (\<lambda>host.
        case creds of
          NoCredentials \<Rightarrow> Inr out
        | BySource f \<Rightarrow> bind_result (f src host) (\<lambda>got. Inr (AList.updates (map fst got) (map snd got) out))
        | ByName f \<Rightarrow>
            (case f name host of
               None \<Rightarrow> Inl (Errorf [Lit ''download: credential '', Quoted name, Lit '' is not configured for host '',
                 Quoted host, Lit '' - bind it on the fetching machine with '', Str (env_prefix []),
                 Str (credEnvName upper name), Lit '' and '', Str (env_prefix []), Str (credEnvName upper name),
                 Lit ''_HOSTS, never in the record''])
             | Some got \<Rightarrow>
                 (let h = lookup (s_attrs src) CredentialHeaderAttr in
                  if h \<noteq> [] then (case got of [] \<Rightarrow> Inr out | (k, v) # _ \<Rightarrow> Inr (AList.update h v out))
                  else Inr (AList.updates (map fst got) (map snd got) out)))))"

section \<open>Redirects\<close>

record hop_credential =
  hop_applied :: "string list"
  hop_apply :: "string \<Rightarrow> err + (string \<times> string) list"

text \<open>A credential error inside whose outcome is \<open>target_refused\<close>.\<close>

definition target_refused :: "err \<Rightarrow> bool" where
  "target_refused e =
     (case find is_credential (visit e) of
        Some (CredentialError n outcome) \<Rightarrow> outcome = ''target_refused''
      | _ \<Rightarrow> False)"

definition withCredentialHops ::
  "(string \<Rightarrow> string) \<Rightarrow> source \<Rightarrow> credentials \<Rightarrow> (string \<times> string) list \<Rightarrow> hop_credential option" where
  "withCredentialHops uni src creds headers =
     (let name = lookup (s_attrs src) CredentialAttr in
      if name = [] \<or> \<not> configured creds then None
      else Some \<lparr>
        hop_applied = map fst (filter (\<lambda>(k, v). map_of (s_headers src) k \<noteq> Some v) headers),
        hop_apply = (\<lambda>host0. let host = to_lower uni host0 in
          case creds of
            NoCredentials \<Rightarrow> Inr []
          | BySource f \<Rightarrow>
              (case f src host of
                 Inl e \<Rightarrow> if target_refused e then Inr [] else Inl e
               | Inr got \<Rightarrow> Inr got)
          | ByName f \<Rightarrow>
              (case f name host of
                 None \<Rightarrow> Inr []
               | Some got \<Rightarrow>
                   (let h = lookup (s_attrs src) CredentialHeaderAttr in
                    if h \<noteq> [] then (case got of [] \<Rightarrow> Inr [] | (k, v) # _ \<Rightarrow> Inr [(h, v)]) else Inr got)))\<rparr>)"

definition sameOrSubdomain :: "(string \<Rightarrow> string) \<Rightarrow> string \<Rightarrow> string \<Rightarrow> bool" where
  "sameOrSubdomain uni host origin = covers (to_lower uni origin) (to_lower uni host)"

definition header_del :: "string \<Rightarrow> header_map \<Rightarrow> header_map" where
  "header_del k m = m(canonical_key k := None)"

definition del_all :: "string list \<Rightarrow> header_map \<Rightarrow> header_map" where
  "del_all ks m = fold header_del ks m"

text \<open>
  \<open>CheckRedirect\<close> of \<open>do\<close>: the header of the next request as \<open>net/http\<close> built it becomes the header
  that is sent, with the names credentials have set so far.
\<close>

definition on_redirect ::
  "(string \<Rightarrow> string) \<Rightarrow> reach \<Rightarrow> string list \<Rightarrow> hop_credential option \<Rightarrow> string \<Rightarrow> nat \<Rightarrow> url \<Rightarrow>
   header_map \<times> string list \<Rightarrow> err + (header_map \<times> string list)" where
  "on_redirect uni r supplied hop origin vias to st =
     (let (m, names) = st in
      case checkURL uni r to of
        Some e \<Rightarrow> Inl e
      | None \<Rightarrow>
          (let m = (if 0 < vias \<and> \<not> sameOrSubdomain uni (u_hostname to) origin then del_all supplied m else m);
               stop = (\<lambda>st. if 10 \<le> vias then Inl (Plain ''stopped after 10 redirects'') else Inr st)
           in case hop of
                None \<Rightarrow> stop (m, names)
              | Some hc \<Rightarrow>
                  bind_result (hop_apply hc (u_hostname to)) (\<lambda>applied.
                    stop (fold (\<lambda>(k, v). header_set k v) applied (del_all names m), names @ map fst applied))))"

section \<open>Reach\<close>

lemma check_host: "check uni parse r locator = None \<Longrightarrow> hostOf uni parse locator = Inr h \<Longrightarrow> r = Some ask \<Longrightarrow> h \<noteq> [] \<Longrightarrow> ask h = None"
  by (auto simp: check_def checkHost_def)

lemma check_not_permanent:
  assumes "checkHost r host = Some e" "\<And>ask x. r = Some ask \<Longrightarrow> ask host = Some x \<Longrightarrow> \<not> Permanent x"
  shows "\<not> Permanent e \<and> err_is e ErrUnreachable"
  using assms by (auto simp: checkHost_def Permanent_Errorf err_is_Errorf forever_def split: option.splits if_splits)

lemma find_covers: "find (\<lambda>(name, why). covers name h) hosts = None \<longleftrightarrow> (\<forall>(name, why)\<in>set hosts. \<not> covers name h)"
  by (auto simp: find_None_iff)

lemma refusals_Check_iff:
  assumes "refusals_List uni f = Inr hosts" "plainHost uni host = Inr h"
  shows "refusals_Check uni path f host = None \<longleftrightarrow> (\<forall>(name, why)\<in>set hosts. \<not> covers name h)"
  using assms find_covers [of h hosts] by (simp add: refusals_Check_def)

lemma plainHost_lower:
  assumes "plainHost uni host = Inr h"
  shows "list_all (\<lambda>c. c \<in> set host_alphabet) h"
  using assms by (auto simp: plainHost_def Let_def notInAHostName_def list_all_iff list_ex_iff split: if_splits)

lemma host_alphabet_ascii: "c \<in> set host_alphabet \<Longrightarrow> byte_of c < 128 \<and> \<not> is_upper c"
proof -
  have "\<forall>c\<in>set host_alphabet. byte_of c < 128 \<and> \<not> is_upper c" by code_simp
  then show "c \<in> set host_alphabet \<Longrightarrow> byte_of c < 128 \<and> \<not> is_upper c" by blast
qed

text \<open>A plain name without a trailing dot is its own spelling.\<close>

lemma plainHost_fixed:
  assumes "list_all (\<lambda>c. c \<in> set host_alphabet) h" "\<not> suffix ''.'' h"
  shows "plainHost uni h = Inr h"
proof -
  have "to_lower uni h = h"
    using assms(1) host_alphabet_ascii by (intro to_lower_no_upper) (auto simp: is_ascii_def list_all_iff)
  with assms show ?thesis
    by (simp add: plainHost_def trim_suffix_def notInAHostName_def list_ex_iff list_all_iff)
qed

definition host_key :: "string \<Rightarrow> bool" where
  "host_key h \<longleftrightarrow> list_all (\<lambda>c. c \<in> set host_alphabet) h \<and> \<not> suffix ''.'' h \<and> h \<noteq> []"

lemma canonical_from_keys:
  "\<forall>k\<in>set keys. host_key k \<Longrightarrow> distinct keys \<Longrightarrow> fst ` set hosts \<inter> set keys = {} \<Longrightarrow>
     canonical_from uni stored keys hosts = Inr (hosts @ map (\<lambda>k. (k, lookup stored k)) keys)"
proof (induction keys arbitrary: hosts)
  case Nil
  then show ?case by simp
next
  case (Cons k ks)
  then have "plainHost uni k = Inr k" "k \<noteq> []" "k \<notin> fst ` set hosts"
    using plainHost_fixed [of k uni] by (auto simp: host_key_def)
  moreover have "fst ` set (hosts @ [(k, lookup stored k)]) \<inter> set ks = {}" using Cons.prems by auto
  ultimately show ?case using Cons.IH [of "hosts @ [(k, lookup stored k)]"] Cons.prems by simp
qed

definition host_list :: "(string \<times> string) list \<Rightarrow> bool" where
  "host_list hosts \<longleftrightarrow> distinct (map fst hosts) \<and> (\<forall>k\<in>fst ` set hosts. host_key k)"

text \<open>A list spelled the way requests are asked about is read back with the same names.\<close>

lemma canonical_hosts_ok:
  assumes "host_list hosts"
  shows "\<exists>hs. canonical_hosts uni hosts = Inr hs \<and> (\<forall>n. n \<in> fst ` set hs \<longleftrightarrow> n \<in> fst ` set hosts)"
  using assms canonical_from_keys [of "sort (map fst hosts)" "[]" uni hosts]
  by (auto simp: canonical_hosts_def host_list_def image_image)

lemma covers_refused:
  assumes "refusals_List uni f = Inr hs" "plainHost uni host = Inr h" "n \<in> fst ` set hs" "covers n h"
  shows "refusals_Check uni path f host \<noteq> None"
  using assms refusals_Check_iff [OF assms(1,2), of path] by auto

lemma keys_update: "fst ` set (AList.update n r hs) = insert n (fst ` set hs)"
  using dom_update [of n r hs] by (simp add: dom_map_of_conv_image_fst [symmetric] update_conv')

lemma keys_delete: "fst ` set (AList.delete n hs) = fst ` set hs - {n}"
  by (auto simp: AList.delete_eq)

lemma host_list_update: "host_list hosts \<Longrightarrow> host_key n \<Longrightarrow> host_list (AList.update n r hosts)"
  by (simp add: host_list_def distinct_update keys_update)

lemma host_list_delete: "host_list hosts \<Longrightarrow> host_list (AList.delete n hosts)"
  by (auto simp: host_list_def distinct_delete keys_delete)

lemma refuses_iff:
  assumes "refusals_List uni f = Inr hs" "plainHost uni host = Inr h"
  shows "refusals_Check uni path f host \<noteq> None \<longleftrightarrow> (\<exists>k\<in>fst ` set hs. covers k h)"
  using refusals_Check_iff [OF assms, of path] by (simp add: case_prod_beta)

section \<open>Secrets\<close>

lemma env_Lookup_bound:
  assumes "env_Lookup uni upper env p name host = Some hs"
  shows "boundTo uni upper env p name host \<and> hs = [(''Authorization'', ''Bearer '' @ env (env_prefix p @ credEnvName upper name))]"
  using assms by (auto simp: env_Lookup_def Let_def split: if_splits)

lemma boundTo_pattern:
  assumes "boundTo uni upper env p name host"
  shows "\<exists>pat. pat \<noteq> [] \<and> covers pat (to_lower uni host)"
  using assms by (auto simp: boundTo_def Let_def list_ex_iff split: if_splits)

lemma headersFor_refuses:
  assumes "lookup (s_attrs src) CredentialAttr \<noteq> []" "hostOf uni parse (s_locator src) = Inr host"
    and "f (lookup (s_attrs src) CredentialAttr) host = None"
  shows "\<not> is_ok (headersFor uni upper parse src (ByName f))"
  using assms by (simp add: headersFor_def Let_def)

section \<open>What follows a redirect\<close>

lemma del_all_gone: "k \<in> canonical_key ` set ks \<Longrightarrow> del_all ks m k = None"
  and del_all_other: "k \<notin> canonical_key ` set ks \<Longrightarrow> del_all ks m k = m k"
proof -
  have step: "fold header_del ks m k = (if k \<in> canonical_key ` set ks then None else m k)" for m
    by (induction ks arbitrary: m) (auto simp: header_del_def)
  then show "k \<in> canonical_key ` set ks \<Longrightarrow> del_all ks m k = None"
    "k \<notin> canonical_key ` set ks \<Longrightarrow> del_all ks m k = m k" by (simp_all add: del_all_def)
qed

lemma set_headers_other:
  "k \<notin> canonical_key ` fst ` set hs \<Longrightarrow> fold (\<lambda>(k, v). header_set k v) hs m k = m k"
  by (induction hs arbitrary: m) (auto simp: header_set_def)

text \<open>
  Behind a redirect to a foreign host nothing is left of a header the caller supplied, nor of one a
  credential set earlier, except what the credential gives for the new host.
\<close>

lemma on_redirect_strips:
  assumes "on_redirect uni r supplied hop origin vias to (m, names) = Inr (m', names')"
    and "0 < vias" "\<not> sameOrSubdomain uni (u_hostname to) origin" "k \<in> canonical_key ` set supplied"
  shows "m' k = None \<or> (\<exists>hc applied. hop = Some hc \<and> hop_apply hc (u_hostname to) = Inr applied \<and>
    k \<in> canonical_key ` fst ` set applied)"
proof (cases hop)
  case None
  with assms del_all_gone [OF assms(4)] show ?thesis
    by (auto simp: on_redirect_def Let_def split: option.splits if_splits)
next
  case (Some hc)
  with assms(1-3) obtain applied where a: "hop_apply hc (u_hostname to) = Inr applied"
    "m' = fold (\<lambda>(k, v). header_set k v) applied (del_all names (del_all supplied m))"
    by (auto simp: on_redirect_def Let_def bind_result_Inr_iff split: option.splits if_splits)
  show ?thesis
  proof (cases "k \<in> canonical_key ` fst ` set applied")
    case True
    with Some a show ?thesis by blast
  next
    case False
    have "del_all names (del_all supplied m) k = None"
      using del_all_gone [OF assms(4), of m] del_all_other [of k names "del_all supplied m"]
        del_all_gone [of k names "del_all supplied m"] by (cases "k \<in> canonical_key ` set names") auto
    with a(2) set_headers_other [OF False, of "del_all names (del_all supplied m)"] show ?thesis by simp
  qed
qed

lemma on_redirect_credential:
  assumes "on_redirect uni r supplied (Some hc) origin vias to (m, names) = Inr (m', names')"
    and "k \<in> canonical_key ` set names"
  shows "m' k = None \<or> (\<exists>applied. hop_apply hc (u_hostname to) = Inr applied \<and> k \<in> canonical_key ` fst ` set applied)"
proof -
  obtain applied m0 where a: "hop_apply hc (u_hostname to) = Inr applied"
    "m' = fold (\<lambda>(k, v). header_set k v) applied (del_all names m0)"
    using assms(1) by (auto simp: on_redirect_def Let_def bind_result_Inr_iff split: option.splits if_splits)
  show ?thesis
  proof (cases "k \<in> canonical_key ` fst ` set applied")
    case False
    with a del_all_gone [OF assms(2), of m0] set_headers_other [OF False, of "del_all names m0"] show ?thesis by simp
  qed (use a in blast)
qed

lemma on_redirect_reach:
  "on_redirect uni r supplied hop origin vias to st = Inr st' \<Longrightarrow> checkURL uni r to = None"
  by (auto simp: on_redirect_def split: prod.splits option.splits)

section \<open>The seat a runner asks\<close>

text \<open>
  Whatever sits in \<open>Reach\<close>: a list that covers subdomains and can be edited. The refusals file
  provides it.
\<close>

locale refusal_seat =
  fixes refuses :: "'f \<Rightarrow> string \<Rightarrow> bool"
    and refuse :: "string \<Rightarrow> 'f \<Rightarrow> 'f option"
    and good :: "'f \<Rightarrow> bool"
  assumes refuse_good: "\<And>n f. good f \<Longrightarrow> host_key n \<Longrightarrow> \<exists>f'. refuse n f = Some f' \<and> good f'"
    and refuse_covers: "\<And>n f f' h. good f \<Longrightarrow> host_key n \<Longrightarrow> refuse n f = Some f' \<Longrightarrow> host_key h \<Longrightarrow>
      refuses f' h \<longleftrightarrow> refuses f h \<or> covers n h"
begin

lemma refuse_subdomain:
  "good f \<Longrightarrow> host_key n \<Longrightarrow> refuse n f = Some f' \<Longrightarrow> host_key (x @ CHR ''.'' # n) \<Longrightarrow> refuses f' (x @ CHR ''.'' # n)"
  using refuse_covers [of f n f' "x @ CHR ''.'' # n"] by (simp add: covers_def suffix_def)

lemma refuse_twice:
  "good f \<Longrightarrow> host_key n \<Longrightarrow> refuse n f = Some f' \<Longrightarrow> refuse n f' = Some f'' \<Longrightarrow> host_key h \<Longrightarrow>
     refuses f'' h \<longleftrightarrow> refuses f' h"
  using refuse_good [of f n] refuse_covers [of f n f' h] refuse_covers [of f' n f'' h] by auto

end

definition file_good :: "refusals_file \<Rightarrow> bool" where
  "file_good f = (case f of NoFile \<Rightarrow> True | BadFile _ \<Rightarrow> False | Hosts hs \<Rightarrow> host_list hs)"

definition file_refuses :: "(string \<Rightarrow> string) \<Rightarrow> refusals_file \<Rightarrow> string \<Rightarrow> bool" where
  "file_refuses uni f h \<longleftrightarrow> refusals_Check uni [] f h \<noteq> None"

definition file_refuse :: "(string \<Rightarrow> string) \<Rightarrow> string \<Rightarrow> string \<Rightarrow> refusals_file \<Rightarrow> refusals_file option" where
  "file_refuse uni why n f = (case refusals_Refuse uni n why f of Inl _ \<Rightarrow> None | Inr f' \<Rightarrow> Some f')"

lemma file_good_List:
  assumes "file_good f"
  shows "\<exists>hs. refusals_List uni f = Inr hs \<and> host_list hs"
proof (cases f)
  case (Hosts stored)
  with assms have hl: "host_list stored" by (simp add: file_good_def)
  have "canonical_hosts uni stored = Inr (map (\<lambda>k. (k, lookup stored k)) (sort (map fst stored)))"
    using hl canonical_from_keys [of "sort (map fst stored)" "[]" uni stored]
    by (simp add: canonical_hosts_def host_list_def)
  with Hosts hl show ?thesis by (auto simp: refusals_List_def host_list_def comp_def image_image)
qed (use assms in \<open>auto simp: file_good_def refusals_List_def host_list_def\<close>)

lemma file_refuse_eq:
  assumes "refusals_List uni f = Inr hs" "host_key n"
  shows "file_refuse uni why n f = Some (Hosts (AList.update n why hs))"
  using assms plainHost_fixed [of n uni]
  by (auto simp: file_refuse_def refusals_Refuse_def refusals_edit_def host_key_def)

interpretation refusals: refusal_seat "file_refuses uni" "file_refuse uni why" file_good for uni why
proof
  fix n f assume g: "file_good f" "host_key n"
  obtain hs where "refusals_List uni f = Inr hs" "host_list hs" using file_good_List [OF g(1)] by blast
  then show "\<exists>f'. file_refuse uni why n f = Some f' \<and> file_good f'"
    using file_refuse_eq [of uni f hs n why] g(2) host_list_update [of hs n why] by (simp add: file_good_def)
next
  fix n f f' h
  assume g: "file_good f" "host_key n" "file_refuse uni why n f = Some f'" "host_key h"
  obtain hs where hs: "refusals_List uni f = Inr hs" "host_list hs" using file_good_List [OF g(1)] by blast
  have f': "f' = Hosts (AList.update n why hs)" using file_refuse_eq [OF hs(1) g(2)] g(3) by simp
  obtain hs' where hs': "canonical_hosts uni (AList.update n why hs) = Inr hs'"
    "\<forall>k. k \<in> fst ` set hs' \<longleftrightarrow> k \<in> insert n (fst ` set hs)"
    using canonical_hosts_ok [OF host_list_update [OF hs(2) g(2)], of uni why] by (auto simp: keys_update)
  have h: "plainHost uni h = Inr h" using plainHost_fixed [of h uni] g(4) by (simp add: host_key_def)
  have refl: "refusals_List uni f' = Inr hs'" using hs'(1) f' by (simp add: refusals_List_def)
  have "file_refuses uni f' h \<longleftrightarrow> (\<exists>k\<in>fst ` set hs'. covers k h)"
    using refuses_iff [OF refl h, of "[]"] by (simp add: file_refuses_def)
  also have "\<dots> \<longleftrightarrow> (\<exists>k\<in>fst ` set hs. covers k h) \<or> covers n h"
    using hs'(2) by (metis insert_iff)
  also have "(\<exists>k\<in>fst ` set hs. covers k h) \<longleftrightarrow> file_refuses uni f h"
    using refuses_iff [OF hs(1) h, of "[]"] by (simp add: file_refuses_def)
  finally show "file_refuses uni f' h \<longleftrightarrow> file_refuses uni f h \<or> covers n h" .
qed

end
