(* ===== verification/Fetch_Registry.thy ===== *)
theory Fetch_Registry
  imports Reach_Credentials Range_Plan
begin

text \<open>
  Who can fetch what (\<open>go/fetcher.go\<close>): the capability words and what a false claim costs, the registry
  \<open>Fetchers\<close> and its two questions. On top of it the choice between one stream and many ranges
  (\<open>rangePlan\<close> of \<open>go/parallel.go\<close>) and the walk of one range over the sources that serve it
  (\<open>fetchRange\<close>).

  A fetcher is an interface: its \<open>Fetch\<close> is the type parameter \<open>'x\<close>, and a fetcher that serves bounded
  ranges carries a \<open>range_seat\<close>.
\<close>

section \<open>Capabilities\<close>

definition CapRecoverableSubmission :: string where
  "CapRecoverableSubmission = ''abstraction.download/recoverable-submission@1''"

definition CapNetworkCost :: string where
  "CapNetworkCost = ''abstraction.download/network-cost@1''"

definition CapResume :: string where "CapResume = ''resume''"
definition CapSurvivesProcessExit :: string where "CapSurvivesProcessExit = ''survives_process_exit''"
definition CapVerifies :: string where "CapVerifies = ''verifies_content''"
definition CapDelegates :: string where "CapDelegates = ''delegates''"

datatype assurance = Checked | Falsifiable | Recovered | Trusted

definition capabilities :: "(string \<times> assurance) list" where
  "capabilities =
     [(CapVerifies, Checked), (CapResume, Falsifiable), (CapSurvivesProcessExit, Recovered),
      (CapDelegates, Trusted), (CapRecoverableSubmission, Trusted)]"

definition Assured :: "string \<Rightarrow> assurance option" where
  "Assured c = map_of capabilities c"

definition AllCapabilities :: "string list" where
  "AllCapabilities = sort (map fst capabilities)"

section \<open>The registry\<close>

text \<open>What a fetcher of ranges does: the probe, and one bounded range with the offsets it reported.\<close>

record range_seat =
  st_ranged :: "source \<Rightarrow> (string \<times> string) list \<Rightarrow> err + (int \<times> bool)"
  st_fetch :: "range_request \<Rightarrow> file_map \<Rightarrow> err option \<times> int list \<times> file_map"

record 'x fetcher =
  fe_schemes :: "string list"
  fe_capabilities :: "string list"
  fe_fetch :: 'x
  fe_ranges :: "range_seat option"

definition serves :: "'x fetcher \<Rightarrow> string \<Rightarrow> bool" where
  "serves f scheme \<longleftrightarrow> list_ex (\<lambda>s. s = scheme) (fe_schemes f)"

definition hasAll :: "'x fetcher \<Rightarrow> string list \<Rightarrow> bool" where
  "hasAll f requires \<longleftrightarrow> list_all (\<lambda>w. w \<in> set (fe_capabilities f)) requires"

definition For :: "'x fetcher list \<Rightarrow> source \<Rightarrow> string list \<Rightarrow> 'x fetcher option" where
  "For fs src requires = find (\<lambda>f. serves f (s_scheme src) \<and> hasAll f requires) fs"

definition noFetcherFor :: "'x fetcher list \<Rightarrow> source \<Rightarrow> string list \<Rightarrow> err" where
  "noFetcherFor fs src requires =
     (if For fs src [] \<noteq> None
      then Errorf [Err (Var ErrNoFetcher), Lit '': nothing serving scheme '', Quoted (s_scheme src),
             Lit '' promises '', Str (str_join '' and '' requires)]
      else Errorf [Err (Var ErrNoFetcher), Lit '': scheme '', Quoted (s_scheme src)])"

text \<open>\<open>network\<close> says whether the runner has a network cost source.\<close>

definition fetcherRequires :: "bool \<Rightarrow> string list \<Rightarrow> string list" where
  "fetcherRequires network requires =
     (if \<not> network \<or> CapNetworkCost \<notin> set requires then requires
      else filter (\<lambda>s. s \<noteq> CapNetworkCost) requires)"

section \<open>One stream or many ranges\<close>

text \<open>
  What a run asks while it opens sources: the \<open>k\<close>-th answer of the network gate, the reach check, the
  credential of a source, and the runner's registry.
\<close>

record 'x open_env =
  op_allows :: "nat \<Rightarrow> err option"
  op_reach :: "string \<Rightarrow> err option"
  op_headers :: "source \<Rightarrow> err + (string \<times> string) list"
  op_fetchers :: "'x fetcher list"
  op_requires :: "string list"

text \<open>\<open>None\<close> where cutting the artifact never ends.\<close>

fun range_plan_from ::
  "'x open_env \<Rightarrow> int \<Rightarrow> nat \<Rightarrow> source list \<Rightarrow> (source \<times> range_seat) list \<Rightarrow> plan \<Rightarrow>
   ((source \<times> range_seat) list \<times> plan \<times> bool) option" where
  "range_plan_from V sz k [] serving p = Some (serving, p, serving \<noteq> [])"
| "range_plan_from V sz k (src # srcs) serving p =
     (let next = range_plan_from V sz (Suc k) srcs in
      if op_allows V k \<noteq> None then Some ([], \<lparr>pl_size = 0, pl_cuts = []\<rparr>, False)
      else case For (op_fetchers V) src (op_requires V) of
        None \<Rightarrow> next serving p
      | Some f \<Rightarrow>
          (case fe_ranges f of
             None \<Rightarrow> next serving p
           | Some rf \<Rightarrow>
               if op_reach V (s_locator src) \<noteq> None then next serving p
               else case op_headers V src of
                 Inl _ \<Rightarrow> next serving p
               | Inr hs \<Rightarrow>
                   (case st_ranged rf src hs of
                      Inl _ \<Rightarrow> next serving p
                    | Inr (n, ranged) \<Rightarrow>
                        if \<not> ranged \<or> n \<noteq> sz then next serving p
                        else if serving = [] then
                          (case (case publishedPlan src n of Some q \<Rightarrow> Some q | None \<Rightarrow> gridPlan n) of
                             None \<Rightarrow> None
                           | Some q \<Rightarrow>
                               if pl_cuts (coarsened q) = [] then next serving (coarsened q)
                               else next [(src, rf)] (coarsened q))
                        else next (serving @ [(src, rf)]) p)))"

definition rangePlan ::
  "'x open_env \<Rightarrow> int \<Rightarrow> spec \<Rightarrow> ((source \<times> range_seat) list \<times> plan \<times> bool) option" where
  "rangePlan V conns s =
     (if connections conns < 2 \<or> a_size (sp_artifact s) < minParallel then Some ([], \<lparr>pl_size = 0, pl_cuts = []\<rparr>, False)
      else range_plan_from V (a_size (sp_artifact s)) 0 (byPriority (sp_sources s)) [] \<lparr>pl_size = 0, pl_cuts = []\<rparr>)"

section \<open>One range over its sources\<close>

text \<open>The error worth reporting of two: a refusal never hides a failure that may pass.\<close>

definition preferred :: "err option \<Rightarrow> err \<Rightarrow> err option" where
  "preferred old e = (case old of None \<Rightarrow> Some e | Some x \<Rightarrow> if Permanent x \<or> \<not> Permanent e then Some e else old)"

text \<open>
  \<open>ctx k\<close> says the context is done after the \<open>k\<close>-th attempt. A source that fails part way has landed
  its bytes, and the next one is asked for the rest.
\<close>

definition try_range ::
  "'x open_env \<Rightarrow> source \<Rightarrow> range_seat \<Rightarrow> range_request \<Rightarrow> file_map \<Rightarrow>
   err option \<times> int list \<times> file_map \<times> range_request" where
  "try_range V src rf rq f =
     (case op_headers V src of
        Inl e \<Rightarrow> (Some e, [], f, rq)
      | Inr hs \<Rightarrow>
          (let rq = rq\<lparr>rr_headers := hs\<rparr> in case st_fetch rf rq f of (e, landed, f) \<Rightarrow> (e, landed, f, rq)))"

definition rest_of_range :: "source \<Rightarrow> int \<Rightarrow> range_request \<Rightarrow> range_request" where
  "rest_of_range src reached rq =
     rq\<lparr>rr_range := (if r_start (rr_range rq) < reached \<and> reached < r_end (rr_range rq)
                     then Range reached (r_end (rr_range rq)) else rr_range rq), rr_source := src\<rparr>"

fun fetchRange_from ::
  "'x open_env \<Rightarrow> (nat \<Rightarrow> bool) \<Rightarrow> nat \<Rightarrow> (source \<times> range_seat) list \<Rightarrow> range_request \<Rightarrow> int \<Rightarrow> err option \<Rightarrow>
   file_map \<Rightarrow> err option \<times> file_map" where
  "fetchRange_from V ctx k [] rq reached old f = (old, f)"
| "fetchRange_from V ctx k ((src, rf) # rest) rq reached old f =
     (case op_allows V k of
        Some e \<Rightarrow> (Some e, f)
      | None \<Rightarrow>
          (case try_range V src rf (rest_of_range src reached rq) f of
             (None, landed, f, rq) \<Rightarrow> (None, f)
           | (Some x, landed, f, rq) \<Rightarrow>
               if ctx k then (Some x, f)
               else fetchRange_from V ctx (Suc k) rest rq (fold max landed reached) (preferred old x) f))"

definition fetchRange ::
  "'x open_env \<Rightarrow> (nat \<Rightarrow> bool) \<Rightarrow> (source \<times> range_seat) list \<Rightarrow> range_request \<Rightarrow> file_map \<Rightarrow> err option \<times> file_map" where
  "fetchRange V ctx serving rq f = fetchRange_from V ctx 0 serving rq (r_start (rr_range rq)) None f"

section \<open>The registry answers\<close>

lemma serves_iff: "serves f s \<longleftrightarrow> s \<in> set (fe_schemes f)"
  by (auto simp: serves_def list_ex_iff)

lemma hasAll_iff: "hasAll f ws \<longleftrightarrow> set ws \<subseteq> set (fe_capabilities f)"
  by (auto simp: hasAll_def list_all_iff)

lemma For_Some: "For fs src rs = Some f \<Longrightarrow>
    f \<in> set fs \<and> s_scheme src \<in> set (fe_schemes f) \<and> set rs \<subseteq> set (fe_capabilities f)"
  by (auto simp: For_def find_Some_iff serves_iff hasAll_iff)

lemma For_None: "For fs src rs = None \<longleftrightarrow>
    (\<forall>f\<in>set fs. s_scheme src \<in> set (fe_schemes f) \<longrightarrow> \<not> set rs \<subseteq> set (fe_capabilities f))"
  by (auto simp: For_def find_None_iff serves_iff hasAll_iff)

lemma For_append: "For (fs @ gs) src rs = (case For fs src rs of None \<Rightarrow> For gs src rs | Some f \<Rightarrow> Some f)"
  by (induction fs) (auto simp: For_def)

lemma noFetcherFor_class: "Permanent (noFetcherFor fs src rs) \<and> err_is (noFetcherFor fs src rs) ErrNoFetcher"
  by (simp add: noFetcherFor_def Permanent_Errorf err_is_Errorf forever_def)

lemma fetcherRequires_set:
  "set (fetcherRequires network rs) = (if network then set rs - {CapNetworkCost} else set rs)"
  by (auto simp: fetcherRequires_def)

lemma Assured_graded: "Assured c \<noteq> None \<longleftrightarrow> c \<in> set AllCapabilities"
  by (auto simp: Assured_def AllCapabilities_def map_of_eq_None_iff)

section \<open>What a plan of ranges promises\<close>

definition plan_ok :: "int \<Rightarrow> plan \<Rightarrow> bool" where
  "plan_ok sz p \<longleftrightarrow> pl_size p = sz \<and> pl_cuts p \<noteq> [] \<and> cuts_inside sz (pl_cuts p)"

definition source_ok :: "'x open_env \<Rightarrow> int \<Rightarrow> source \<times> range_seat \<Rightarrow> bool" where
  "source_ok V sz x \<longleftrightarrow> op_reach V (s_locator (fst x)) = None \<and>
     (\<exists>hs. op_headers V (fst x) = Inr hs \<and> st_ranged (snd x) (fst x) hs = Inr (sz, True))"

lemma range_plan_step:
  assumes "range_plan_from V sz k (src # srcs) serving p = Some (serving', p', True)"
  shows "\<exists>serving1 p1. range_plan_from V sz (Suc k) srcs serving1 p1 = Some (serving', p', True) \<and>
    (serving1 = serving \<and> (serving = [] \<or> p1 = p) \<or>
     (\<exists>rf. source_ok V sz (src, rf) \<and> serving1 = serving @ [(src, rf)] \<and>
        (if serving = [] then pl_cuts p1 \<noteq> [] \<and>
            (\<exists>q. p1 = coarsened q \<and> (publishedPlan src sz = Some q \<or> gridPlan sz = Some q))
         else p1 = p)))"
proof (cases "op_allows V k")
  case None
  note allowed = None
  show ?thesis
  proof (cases "\<exists>f rf hs. For (op_fetchers V) src (op_requires V) = Some f \<and> fe_ranges f = Some rf \<and>
      op_reach V (s_locator src) = None \<and> op_headers V src = Inr hs \<and> st_ranged rf src hs = Inr (sz, True)")
    case False
    then have "range_plan_from V sz (Suc k) srcs serving p = Some (serving', p', True)"
      using assms allowed by (auto simp: Let_def split: option.splits sum.splits prod.splits if_splits)
    then show ?thesis by blast
  next
    case True
    then obtain f rf hs where r: "For (op_fetchers V) src (op_requires V) = Some f" "fe_ranges f = Some rf"
      "op_reach V (s_locator src) = None" "op_headers V src = Inr hs" "st_ranged rf src hs = Inr (sz, True)" by blast
    have ok: "source_ok V sz (src, rf)" using r by (auto simp: source_ok_def)
    show ?thesis
    proof (cases "serving = []")
      case False
      then have "range_plan_from V sz (Suc k) srcs (serving @ [(src, rf)]) p = Some (serving', p', True)"
        using assms allowed r by (simp add: Let_def)
      with False ok show ?thesis by (intro exI [of _ "serving @ [(src, rf)]"] exI [of _ p]) simp
    next
      case True
      obtain q where q: "publishedPlan src sz = Some q \<or> gridPlan sz = Some q"
        "(if pl_cuts (coarsened q) = [] then range_plan_from V sz (Suc k) srcs serving (coarsened q)
          else range_plan_from V sz (Suc k) srcs [(src, rf)] (coarsened q)) = Some (serving', p', True)"
        using assms allowed r True by (auto simp: Let_def split: option.splits)
      show ?thesis
      proof (cases "pl_cuts (coarsened q) = []")
        case True
        with q \<open>serving = []\<close> show ?thesis by auto
      next
        case False
        with q ok \<open>serving = []\<close> show ?thesis
          by (intro exI [of _ "[(src, rf)]"] exI [of _ "coarsened q"]) auto
      qed
    qed
  qed
qed (use assms in simp)

lemma chosen_plan_ok:
  assumes "publishedPlan src sz = Some q \<or> gridPlan sz = Some q" "0 < sz" "sz + rangeFloor sz \<le> max_int64 + 1"
    and "pl_cuts (coarsened q) \<noteq> []"
  shows "plan_ok sz (coarsened q)"
proof -
  have q: "pl_size q = sz \<and> cuts_inside sz (pl_cuts q)"
    using assms(1) publishedPlan_ok [of src sz q] gridPlan_ends [OF assms(2,3)] by auto
  then show ?thesis using coarsened_ok [of q] assms(4) by (simp add: plan_ok_def coarsened_def)
qed

lemma range_plan_from_ok:
  assumes "range_plan_from V sz k srcs serving p = Some (serving', p', True)"
    and "0 < sz" "sz + rangeFloor sz \<le> max_int64 + 1"
    and "serving \<noteq> [] \<Longrightarrow> plan_ok sz p" "list_all (source_ok V sz) serving"
  shows "serving' \<noteq> [] \<and> plan_ok sz p' \<and> list_all (source_ok V sz) serving'"
  using assms
proof (induction srcs arbitrary: k serving p)
  case Nil
  then show ?case by auto
next
  case (Cons src srcs)
  obtain serving1 p1 where s: "range_plan_from V sz (Suc k) srcs serving1 p1 = Some (serving', p', True)"
    "serving1 = serving \<and> (serving = [] \<or> p1 = p) \<or>
     (\<exists>rf. source_ok V sz (src, rf) \<and> serving1 = serving @ [(src, rf)] \<and>
        (if serving = [] then pl_cuts p1 \<noteq> [] \<and>
            (\<exists>q. p1 = coarsened q \<and> (publishedPlan src sz = Some q \<or> gridPlan sz = Some q))
         else p1 = p))"
    using range_plan_step [OF Cons.prems(1)] by blast
  have "serving1 \<noteq> [] \<Longrightarrow> plan_ok sz p1"
    using s(2) Cons.prems(4) chosen_plan_ok [OF _ assms(2,3)] by (auto split: if_splits)
  moreover have "list_all (source_ok V sz) serving1" using s(2) Cons.prems(5) by auto
  ultimately show ?case using Cons.IH [OF s(1) assms(2,3)] by blast
qed

lemma rangePlan_ok:
  assumes "rangePlan V conns s = Some (serving, p, True)"
    and "a_size (sp_artifact s) + rangeFloor (a_size (sp_artifact s)) \<le> max_int64 + 1"
  shows "serving \<noteq> [] \<and> plan_ok (a_size (sp_artifact s)) p \<and> list_all (source_ok V (a_size (sp_artifact s))) serving"
proof -
  have "range_plan_from V (a_size (sp_artifact s)) 0 (byPriority (sp_sources s)) [] \<lparr>pl_size = 0, pl_cuts = []\<rparr> =
      Some (serving, p, True)" "0 < a_size (sp_artifact s)"
    using assms(1) by (auto simp: rangePlan_def minParallel_def minRangeSize_def split: if_splits)
  from range_plan_from_ok [OF this(1,2) assms(2)] show ?thesis by simp
qed

lemma rangePlan_small:
  "connections conns < 2 \<or> a_size (sp_artifact s) < minParallel \<Longrightarrow> \<exists>p. rangePlan V conns s = Some ([], p, False)"
  by (simp add: rangePlan_def)

section \<open>A range over several sources\<close>

text \<open>
  What a source of ranges promises: it writes inside the range, takes nothing away, and every offset it
  reports has been reached.
\<close>

locale landing_fetcher =
  fixes seat :: range_seat
  assumes stays: "\<And>rq f e l f' i. 0 \<le> r_start (rr_range rq) \<Longrightarrow> r_start (rr_range rq) \<le> r_end (rr_range rq) \<Longrightarrow>
      r_end (rr_range rq) \<le> max_int64 \<Longrightarrow> st_fetch seat rq f = (e, l, f') \<Longrightarrow>
      i < r_start (rr_range rq) \<or> r_end (rr_range rq) \<le> i \<Longrightarrow> f' i = f i"
    and keeps: "\<And>rq f e l f' i. 0 \<le> r_start (rr_range rq) \<Longrightarrow> r_start (rr_range rq) \<le> r_end (rr_range rq) \<Longrightarrow>
      r_end (rr_range rq) \<le> max_int64 \<Longrightarrow> st_fetch seat rq f = (e, l, f') \<Longrightarrow> f i \<noteq> None \<Longrightarrow> f' i \<noteq> None"
    and landed: "\<And>rq f e l f' i at. 0 \<le> r_start (rr_range rq) \<Longrightarrow> r_start (rr_range rq) \<le> r_end (rr_range rq) \<Longrightarrow>
      r_end (rr_range rq) \<le> max_int64 \<Longrightarrow> st_fetch seat rq f = (e, l, f') \<Longrightarrow> at \<in> set l \<Longrightarrow>
      r_start (rr_range rq) \<le> i \<Longrightarrow> i < at \<Longrightarrow> i < r_end (rr_range rq) \<Longrightarrow> f' i \<noteq> None"
    and whole: "\<And>rq f l f' i. 0 \<le> r_start (rr_range rq) \<Longrightarrow> r_start (rr_range rq) \<le> r_end (rr_range rq) \<Longrightarrow>
      r_end (rr_range rq) \<le> max_int64 \<Longrightarrow> st_fetch seat rq f = (None, l, f') \<Longrightarrow>
      r_start (rr_range rq) \<le> i \<Longrightarrow> i < r_end (rr_range rq) \<Longrightarrow> f' i \<noteq> None"

sublocale landing_fetcher \<subseteq> ranges: range_fetcher "\<lambda>rq f. case st_fetch seat rq f of (e, l, f') \<Rightarrow> (e, f')"
proof
  fix rq :: range_request and f :: file_map and i :: int
  assume r: "0 \<le> r_start (rr_range rq)" "r_start (rr_range rq) \<le> r_end (rr_range rq)" "r_end (rr_range rq) \<le> max_int64"
  obtain e l f' where s: "st_fetch seat rq f = (e, l, f')" by (metis prod_cases3)
  show "i < r_start (rr_range rq) \<or> r_end (rr_range rq) \<le> i \<Longrightarrow>
      snd (case st_fetch seat rq f of (e, l, f') \<Rightarrow> (e, f')) i = f i"
    using stays [OF r s, of i] s by simp
  show "fst (case st_fetch seat rq f of (e, l, f') \<Rightarrow> (e, f')) = None \<Longrightarrow> r_start (rr_range rq) \<le> i \<Longrightarrow>
      i < r_end (rr_range rq) \<Longrightarrow> snd (case st_fetch seat rq f of (e, l, f') \<Rightarrow> (e, f')) i \<noteq> None"
    using whole [OF r, of f l f' i] s by simp
qed

text \<open>The HTTP fetcher and the file fetcher as seats.\<close>

definition copy_seat :: "(int \<Rightarrow> string \<Rightarrow> nat \<times> err option) \<Rightarrow> (nat \<Rightarrow> err option) \<Rightarrow> range_request \<Rightarrow> err + body \<Rightarrow>
    file_map \<Rightarrow> err option \<times> int list \<times> file_map" where
  "copy_seat wr ctx rq src f =
     (case src of
        Inl e \<Rightarrow> (Some e, [], f)
      | Inr b \<Rightarrow> (case copyRange wr ctx (rr_range rq) b f of (e, w) \<Rightarrow> (e, rw_landed w, rw_file w)))"

definition http_seat :: "network \<Rightarrow> (int \<Rightarrow> string \<Rightarrow> nat \<times> err option) \<Rightarrow> (nat \<Rightarrow> err option) \<Rightarrow> range_seat" where
  "http_seat N wr ctx = \<lparr>st_ranged = http_Ranged N, st_fetch = (\<lambda>rq. copy_seat wr ctx rq (range_answer N rq))\<rparr>"

definition file_seat :: "(string \<Rightarrow> err + (string \<times> bool)) \<Rightarrow> (int \<Rightarrow> string \<Rightarrow> nat \<times> err option) \<Rightarrow> (nat \<Rightarrow> err option) \<Rightarrow>
    range_seat" where
  "file_seat disk wr ctx = \<lparr>st_ranged = (\<lambda>src hs. file_Ranged disk src),
     st_fetch = (\<lambda>rq. copy_seat wr ctx rq (bind_result (disk (s_locator (rr_source rq)))
        (\<lambda>(bytes, reg). Inr (section_body bytes (rr_range rq)))))\<rparr>"

lemma copy_loop_landed:
  "copy_loop wr ctx k cs en n w = ((n', e), w') \<Longrightarrow>
     rw_at w \<le> rw_at w' \<and> (\<forall>l\<in>set (rw_landed w'). l \<in> set (rw_landed w) \<or> rw_at w < l \<and> l \<le> rw_at w')"
proof (induction wr ctx k cs en n w arbitrary: n' e w' rule: copy_loop.induct)
  case (1 wr ctx k en n w)
  then show ?case by (auto split: option.splits)
next
  case (2 wr ctx k c cs en n w)
  obtain m x w1 where r: "range_write wr c w = ((m, x), w1)" by (metis surj_pair)
  have w1: "rw_at w \<le> rw_at w1" "\<forall>l\<in>set (rw_landed w1). l \<in> set (rw_landed w) \<or> rw_at w < l \<and> l \<le> rw_at w1"
    using r by (auto simp: range_write_def Let_def split: if_splits prod.splits)
  show ?case
  proof (cases "ctx k = None \<and> c \<noteq> [] \<and> x = None")
    case True
    then have "copy_loop wr ctx (Suc k) cs en (n + int m) w1 = ((n', e), w')" using 2(3) r by simp
    from "2.IH"(2) [OF _ _ r [symmetric] refl _ this] True
    have "rw_at w1 \<le> rw_at w' \<and> (\<forall>l\<in>set (rw_landed w'). l \<in> set (rw_landed w1) \<or> rw_at w1 < l \<and> l \<le> rw_at w')"
      by simp
    with w1 show ?thesis by fastforce
  next
    case False
    with 2 r w1 show ?thesis by (auto split: option.splits if_splits)
  qed
qed

text \<open>Where a copy of a range has got to, and that every byte up to there is in the file.\<close>

lemma copyRange_reach:
  assumes "copyRange wr ctx rng b f = (e, w)" "writer_contract wr"
    and "0 \<le> r_start rng" "r_start rng \<le> r_end rng" "r_end rng \<le> max_int64"
  shows "\<exists>m p. rw_at w = r_start rng + int m \<and> length p = m \<and> rw_file w = write_at (r_start rng) p f \<and>
    (\<forall>l\<in>set (rw_landed w). l \<le> rw_at w)"
proof -
  let ?w0 = "\<lparr>rw_file = f, rw_at = r_start rng, rw_end = r_end rng, rw_landed = [], rw_beats = 0\<rparr>"
  let ?want = "r_end rng - r_start rng"
  obtain cs en rest where l: "limit_chunks (nat ?want) (bd_chunks b) (bd_end b) = (cs, en, rest)" by (metis prod_cases3)
  obtain n x w1 where c: "copy_loop wr ctx 0 cs en 0 ?w0 = ((n, x), w1)" by (metis surj_pair)
  have fit: "rw_at ?w0 + int (length (concat cs)) \<le> rw_end ?w0"
    using limit_chunks_spec [OF l] assms(4) by simp
  have i64: "is_int64 (rw_at ?w0)" "is_int64 (rw_end ?w0)" using assms by (auto simp: is_int64_def min_int64_def)
  have w: "w = w1" using assms(1) l c by (auto simp: copyRange_def Let_def split: option.splits if_splits)
  obtain m where m: "m \<le> length (concat cs)" "rw_at w1 = r_start rng + int m"
      "rw_file w1 = write_at (r_start rng) (take m (concat cs)) f"
    using copy_loop_spec [OF c assms(2) i64 fit] by auto
  from copy_loop_landed [OF c] m w show ?thesis
    by (intro exI [of _ m] exI [of _ "take m (concat cs)"]) auto
qed

lemma copy_seat_facts:
  assumes "writer_contract wr" "0 \<le> r_start (rr_range rq)" "r_start (rr_range rq) \<le> r_end (rr_range rq)"
    "r_end (rr_range rq) \<le> max_int64" "copy_seat wr ctx rq src f = (e, l, f')"
  shows "i < r_start (rr_range rq) \<or> r_end (rr_range rq) \<le> i \<Longrightarrow> f' i = f i"
    and "f i \<noteq> None \<Longrightarrow> f' i \<noteq> None"
    and "at \<in> set l \<Longrightarrow> r_start (rr_range rq) \<le> i \<Longrightarrow> i < at \<Longrightarrow> i < r_end (rr_range rq) \<Longrightarrow> f' i \<noteq> None"
    and "e = None \<Longrightarrow> r_start (rr_range rq) \<le> i \<Longrightarrow> i < r_end (rr_range rq) \<Longrightarrow> f' i \<noteq> None"
proof -
  let ?rng = "rr_range rq"
  have "(i < r_start ?rng \<or> r_end ?rng \<le> i \<longrightarrow> f' i = f i) \<and> (f i \<noteq> None \<longrightarrow> f' i \<noteq> None) \<and>
    (at \<in> set l \<and> r_start ?rng \<le> i \<and> i < at \<and> i < r_end ?rng \<longrightarrow> f' i \<noteq> None) \<and>
    (e = None \<and> r_start ?rng \<le> i \<and> i < r_end ?rng \<longrightarrow> f' i \<noteq> None)"
  proof (cases src)
    case (Inl x)
    with assms(5) show ?thesis by (auto simp: copy_seat_def)
  next
    case (Inr b)
    then obtain w where w: "copyRange wr ctx ?rng b f = (e, w)" "l = rw_landed w" "f' = rw_file w"
      using assms(5) by (auto simp: copy_seat_def split: prod.splits)
    obtain m p where r: "rw_at w = r_start ?rng + int m" "length p = m" "rw_file w = write_at (r_start ?rng) p f"
      "\<forall>l\<in>set (rw_landed w). l \<le> rw_at w"
      using copyRange_reach [OF w(1) assms(1-4)] by blast
    have "f i \<noteq> None \<Longrightarrow> f' i \<noteq> None" using r(3) w(3) by (simp add: write_at_def)
    moreover have "f' i \<noteq> None" if "at \<in> set l" "r_start ?rng \<le> i" "i < at"
    proof -
      have "at \<le> r_start ?rng + int (length p)" using that(1) r w(2) by auto
      then show ?thesis using that(2,3) r(3) w(3) by (simp add: write_at_def)
    qed
    ultimately show ?thesis using copyRange_fetches [OF assms(1-4) w(1), of i] w(3) by blast
  qed
  then show "i < r_start ?rng \<or> r_end ?rng \<le> i \<Longrightarrow> f' i = f i" "f i \<noteq> None \<Longrightarrow> f' i \<noteq> None"
    "at \<in> set l \<Longrightarrow> r_start ?rng \<le> i \<Longrightarrow> i < at \<Longrightarrow> i < r_end ?rng \<Longrightarrow> f' i \<noteq> None"
    "e = None \<Longrightarrow> r_start ?rng \<le> i \<Longrightarrow> i < r_end ?rng \<Longrightarrow> f' i \<noteq> None"
    by blast+
qed

lemma copy_seat_landing:
  assumes "writer_contract wr" "\<And>rq. st_fetch seat rq = copy_seat wr ctx rq (src rq)"
  shows "landing_fetcher seat"
proof
  fix rq :: range_request and f f' :: file_map and e :: "err option" and l :: "int list" and i at :: int
  assume r: "0 \<le> r_start (rr_range rq)" "r_start (rr_range rq) \<le> r_end (rr_range rq)" "r_end (rr_range rq) \<le> max_int64"
  note facts = copy_seat_facts [OF assms(1) r, of ctx "src rq" f, folded assms(2)]
  show "f' i = f i" if "st_fetch seat rq f = (e, l, f')" "i < r_start (rr_range rq) \<or> r_end (rr_range rq) \<le> i"
    by (rule facts(1) [OF that])
  show "f' i \<noteq> None" if "st_fetch seat rq f = (e, l, f')" "f i \<noteq> None"
    by (rule facts(2) [OF that])
  show "f' i \<noteq> None" if "st_fetch seat rq f = (e, l, f')" "at \<in> set l" "r_start (rr_range rq) \<le> i" "i < at"
    "i < r_end (rr_range rq)" by (rule facts(3) [OF that])
  show "f' i \<noteq> None" if "st_fetch seat rq f = (None, l, f')" "r_start (rr_range rq) \<le> i" "i < r_end (rr_range rq)"
    by (rule facts(4) [OF that(1) refl that(2,3)])
qed

interpretation http_seat: landing_fetcher "http_seat N full_writer ctx" for N ctx
  by (rule copy_seat_landing [OF full_writer_contract]) (simp add: http_seat_def)

interpretation file_seat: landing_fetcher "file_seat disk full_writer ctx" for disk ctx
  by (rule copy_seat_landing [OF full_writer_contract]) (simp add: file_seat_def)

text \<open>The seats do what \<open>FetchRange\<close> does.\<close>

lemma http_seat_fetch: "(case st_fetch (http_seat N wr ctx) rq f of (e, l, f') \<Rightarrow> (e, f')) = http_FetchRange N wr ctx rq f"
  by (simp add: http_seat_def copy_seat_def http_FetchRange_def split: sum.split prod.split)

lemma file_seat_fetch: "(case st_fetch (file_seat disk wr ctx) rq f of (e, l, f') \<Rightarrow> (e, f')) = file_FetchRange disk wr ctx rq f"
  by (simp add: file_seat_def copy_seat_def file_FetchRange_def split: sum.split prod.split)

definition filled_between :: "int \<Rightarrow> int \<Rightarrow> file_map \<Rightarrow> bool" where
  "filled_between a b f \<longleftrightarrow> (\<forall>i. a \<le> i \<and> i < b \<longrightarrow> f i \<noteq> None)"

lemma filled_max:
  "filled_between s0 (min reached en) f \<Longrightarrow> \<forall>at\<in>set l. filled_between s0 (min at en) f \<Longrightarrow>
     filled_between s0 (min (fold max l reached) en) f"
proof (induction l arbitrary: reached)
  case (Cons a l)
  have "filled_between s0 (min (max a reached) en) f"
    using Cons.prems by (auto simp: filled_between_def max_def)
  with Cons.IH [of "max a reached"] Cons.prems show ?case by simp
qed simp

lemma try_range_facts:
  assumes "landing_fetcher rf" "0 \<le> r_start (rr_range rq)" "r_start (rr_range rq) \<le> r_end (rr_range rq)"
    "r_end (rr_range rq) \<le> max_int64" "try_range V src rf rq f = (e, l, f', rq')"
  shows "rr_range rq' = rr_range rq"
    and "\<forall>i. i < r_start (rr_range rq) \<or> r_end (rr_range rq) \<le> i \<longrightarrow> f' i = f i"
    and "\<forall>i. f i \<noteq> None \<longrightarrow> f' i \<noteq> None"
    and "\<forall>at\<in>set l. filled_between (r_start (rr_range rq)) (min at (r_end (rr_range rq))) f'"
    and "e = None \<Longrightarrow> filled_between (r_start (rr_range rq)) (r_end (rr_range rq)) f'"
proof -
  have "rr_range rq' = rr_range rq \<and>
    (\<forall>i. i < r_start (rr_range rq) \<or> r_end (rr_range rq) \<le> i \<longrightarrow> f' i = f i) \<and>
    (\<forall>i. f i \<noteq> None \<longrightarrow> f' i \<noteq> None) \<and>
    (\<forall>at\<in>set l. filled_between (r_start (rr_range rq)) (min at (r_end (rr_range rq))) f') \<and>
    (e = None \<longrightarrow> filled_between (r_start (rr_range rq)) (r_end (rr_range rq)) f')"
  proof (cases "op_headers V src")
    case (Inl y)
    with assms(5) show ?thesis by (auto simp: try_range_def)
  next
    case (Inr hs)
    let ?q = "rq\<lparr>rr_headers := hs\<rparr>"
    have s: "st_fetch rf ?q f = (e, l, f')" "rq' = ?q"
      using assms(5) Inr by (auto simp: try_range_def Let_def split: prod.splits)
    have b: "0 \<le> r_start (rr_range ?q)" "r_start (rr_range ?q) \<le> r_end (rr_range ?q)" "r_end (rr_range ?q) \<le> max_int64"
      using assms(2-4) by simp_all
    note law = landing_fetcher.stays [OF assms(1) b s(1)] landing_fetcher.keeps [OF assms(1) b s(1)]
      landing_fetcher.landed [OF assms(1) b s(1)]
    have w: "e = None \<Longrightarrow> filled_between (r_start (rr_range rq)) (r_end (rr_range rq)) f'"
      using landing_fetcher.whole [OF assms(1) b, of f l f'] s(1) by (simp add: filled_between_def)
    show ?thesis using law w s(2) by (simp add: filled_between_def)
  qed
  then show "rr_range rq' = rr_range rq" "\<forall>i. i < r_start (rr_range rq) \<or> r_end (rr_range rq) \<le> i \<longrightarrow> f' i = f i"
    "\<forall>i. f i \<noteq> None \<longrightarrow> f' i \<noteq> None"
    "\<forall>at\<in>set l. filled_between (r_start (rr_range rq)) (min at (r_end (rr_range rq))) f'"
    "e = None \<Longrightarrow> filled_between (r_start (rr_range rq)) (r_end (rr_range rq)) f'" by blast+
qed

lemma filled_join: "filled_between a b f \<Longrightarrow> filled_between b c f \<Longrightarrow> filled_between a c f"
  unfolding filled_between_def by (metis linorder_not_le)

lemma filled_keep: "filled_between a b f \<Longrightarrow> \<forall>i. f i \<noteq> None \<longrightarrow> f' i \<noteq> None \<Longrightarrow> filled_between a b f'"
  by (simp add: filled_between_def)

lemma preferred_some: "preferred old x \<noteq> None"
  by (simp add: preferred_def split: option.split)

lemma fetchRange_from_whole:
  assumes "list_all (\<lambda>x. landing_fetcher (snd x)) serving" "0 \<le> s0" "s0 \<le> r_start (rr_range rq)"
    "r_start (rr_range rq) \<le> r_end (rr_range rq)" "r_end (rr_range rq) \<le> max_int64"
    "filled_between s0 (r_start (rr_range rq)) f" "filled_between s0 (min reached (r_end (rr_range rq))) f"
    "fetchRange_from V ctx k serving rq reached old f = (e, f')"
  shows "(\<forall>i. i < s0 \<or> r_end (rr_range rq) \<le> i \<longrightarrow> f' i = f i) \<and> (\<forall>i. f i \<noteq> None \<longrightarrow> f' i \<noteq> None) \<and>
    (e = None \<longrightarrow> old = None \<and> serving = [] \<or> filled_between s0 (r_end (rr_range rq)) f')"
  using assms
proof (induction serving arbitrary: k rq reached old f)
  case Nil
  then show ?case by auto
next
  case (Cons x rest)
  obtain src rf where x: "x = (src, rf)" by (cases x)
  let ?en = "r_end (rr_range rq)"
  define q where "q = rest_of_range src reached rq"
  have q: "r_end (rr_range q) = ?en" "s0 \<le> r_start (rr_range q)" "r_start (rr_range q) \<le> ?en"
    "filled_between s0 (r_start (rr_range q)) f"
    using Cons.prems(3-7) by (auto simp: q_def rest_of_range_def)
  show ?case
  proof (cases "op_allows V k")
    case (Some y)
    with Cons.prems(8) x show ?thesis by auto
  next
    case None
    obtain e1 l f1 q1 where t: "try_range V src rf q f = (e1, l, f1, q1)" by (metis prod_cases4)
    have "0 \<le> r_start (rr_range q)" "r_start (rr_range q) \<le> r_end (rr_range q)" "r_end (rr_range q) \<le> max_int64"
      "landing_fetcher rf" using q Cons.prems(1,2,5) x by auto
    note f = try_range_facts [OF this(4,1-3) t]
    have frame: "\<forall>i. i < s0 \<or> ?en \<le> i \<longrightarrow> f1 i = f i" using f(2) q(1,2) by auto
    have upto: "\<forall>at\<in>set l. filled_between s0 (min at ?en) f1"
    proof
      fix at assume "at \<in> set l"
      then have "filled_between (r_start (rr_range q)) (min at ?en) f1" using f(4) q(1) by auto
      then show "filled_between s0 (min at ?en) f1" using filled_join filled_keep [OF q(4) f(3)] by blast
    qed
    show ?thesis
    proof (cases e1)
      case None
      then have "e = None" "f' = f1" using Cons.prems(8) x t \<open>op_allows V k = None\<close> by (auto simp: q_def)
      with f(3) f(5) [OF None] frame q filled_join [OF filled_keep [OF q(4) f(3)]] show ?thesis by simp
    next
      case (Some y)
      show ?thesis
      proof (cases "ctx k")
        case True
        with Some Cons.prems(8) x t \<open>op_allows V k = None\<close> have "e = Some y" "f' = f1" by (auto simp: q_def)
        with f(3) frame show ?thesis by simp
      next
        case False
        then have go: "fetchRange_from V ctx (Suc k) rest q1 (fold max l reached) (preferred old y) f1 = (e, f')"
          using Some Cons.prems(8) x t \<open>op_allows V k = None\<close> by (auto simp: q_def)
        have pre: "list_all (\<lambda>x. landing_fetcher (snd x)) rest" "s0 \<le> r_start (rr_range q1)"
          "r_start (rr_range q1) \<le> r_end (rr_range q1)" "r_end (rr_range q1) \<le> max_int64"
          "filled_between s0 (r_start (rr_range q1)) f1"
          "filled_between s0 (min (fold max l reached) (r_end (rr_range q1))) f1"
          using Cons.prems(1,5) q f(1) filled_keep [OF q(4) f(3)] filled_max [OF filled_keep [OF Cons.prems(7) f(3)] upto]
          by simp_all
        from Cons.IH [OF pre(1) Cons.prems(2) pre(2-6) go] frame f(1,3) q(1) preferred_some [of old y]
        show ?thesis by auto
      qed
    qed
  qed
qed

lemma fetchRange_whole:
  assumes "list_all (\<lambda>x. landing_fetcher (snd x)) serving" "0 \<le> r_start (rr_range rq)"
    "r_start (rr_range rq) \<le> r_end (rr_range rq)" "r_end (rr_range rq) \<le> max_int64"
    "fetchRange V ctx serving rq f = (e, f')"
  shows "\<forall>i. i < r_start (rr_range rq) \<or> r_end (rr_range rq) \<le> i \<longrightarrow> f' i = f i"
    and "e = None \<Longrightarrow> serving \<noteq> [] \<Longrightarrow> filled_between (r_start (rr_range rq)) (r_end (rr_range rq)) f'"
proof -
  have "filled_between (r_start (rr_range rq)) (r_start (rr_range rq)) f"
    "filled_between (r_start (rr_range rq)) (min (r_start (rr_range rq)) (r_end (rr_range rq))) f"
    by (auto simp: filled_between_def)
  from fetchRange_from_whole [OF assms(1,2) _ assms(3,4) this assms(5) [unfolded fetchRange_def]]
  show "\<forall>i. i < r_start (rr_range rq) \<or> r_end (rr_range rq) \<le> i \<longrightarrow> f' i = f i"
    "e = None \<Longrightarrow> serving \<noteq> [] \<Longrightarrow> filled_between (r_start (rr_range rq)) (r_end (rr_range rq)) f'" by auto
qed

text \<open>A refusal is reported only where every attempt was refused.\<close>

lemma preferred_permanent: "preferred old x = Some y \<Longrightarrow> Permanent y \<Longrightarrow>
    Permanent x \<and> (case old of None \<Rightarrow> True | Some o' \<Rightarrow> Permanent o')"
  by (auto simp: preferred_def split: option.splits if_splits)

end
