(* ===== verification/Declarations.thy ===== *)
theory Declarations
  imports Fetch_Registry
begin

text \<open>
  What a delegate may be handed (\<open>go/delegator.go\<close>): a declaration of the jobs it can serve and the
  combination of two of them, the registry of delegates, the choice of one for a source and the
  reasons for the ones passed over; and the claims a delegate was caught not keeping (\<open>go/tiers.go\<close>).
\<close>

section \<open>Declarations\<close>

record decl =
  dc_hosts :: string
  dc_min :: int
  dc_max :: int
  dc_digests :: "string list"

definition HostAny :: string where "HostAny = []"
definition HostRoutable :: string where "HostRoutable = ''routable''"

definition Valid :: "decl \<Rightarrow> err option" where
  "Valid d =
     (if dc_hosts d \<noteq> HostAny \<and> dc_hosts d \<noteq> HostRoutable then
        Some (Errorf [Lit ''download: unknown host shape '', Quoted (dc_hosts d)])
      else if dc_min d < 0 \<or> dc_max d < 0 \<or> (0 < dc_max d \<and> dc_max d < dc_min d) then
        Some (Errorf [Lit ''download: size bounds '', Num (dc_min d), Lit ''..'', Num (dc_max d), Lit '' hold nothing''])
      else case find (\<lambda>a. a = [] \<or> list_ex (\<lambda>c. c \<in> {CHR '':'', CHR '' '', CHR 0x09}) a) (dc_digests d) of
        Some a \<Rightarrow> Some (Errorf [Lit ''download: '', Quoted a, Lit '' is not a digest algorithm''])
      | None \<Rightarrow> None)"

text \<open>The hosts and the bounds of both; then the digests. \<open>shown\<close> prints a list of names (\<open>%v\<close>).\<close>

definition tightened :: "decl \<Rightarrow> decl \<Rightarrow> decl" where
  "tightened d od = d\<lparr>dc_hosts := (if dc_hosts od \<noteq> HostAny then dc_hosts od else dc_hosts d),
     dc_min := max (dc_min d) (dc_min od),
     dc_max := (if 0 < dc_max od \<and> (dc_max d = 0 \<or> dc_max od < dc_max d) then dc_max od else dc_max d)\<rparr>"

definition And :: "(string list \<Rightarrow> string) \<Rightarrow> decl \<Rightarrow> decl \<Rightarrow> decl \<times> err option" where
  "And shown d od =
     (let d = tightened d od
      in if dc_digests d = [] then (let d = d\<lparr>dc_digests := dc_digests od\<rparr> in (d, Valid d))
         else if dc_digests od \<noteq> [] then
           (let both = filter (\<lambda>a. a \<in> set (dc_digests od)) (dc_digests d) in
            if both = [] then
              (d, Some (Errorf [Lit ''download: '', Str (shown (dc_digests d)), Lit '' and '', Str (shown (dc_digests od)),
                 Lit '' share no digest algorithm'']))
            else (let d = d\<lparr>dc_digests := both\<rparr> in (d, Valid d)))
         else (d, Valid d))"

text \<open>
  \<open>ThisMachine\<close>: \<open>hostname\<close> is \<open>url.Parse\<close> and \<open>Hostname\<close>, \<open>loop\<close> is \<open>net.ParseIP\<close> with
  \<open>IsLoopback || IsUnspecified\<close>, \<open>fold\<close> is \<open>strings.EqualFold\<close>.
\<close>

record host_ops =
  ho_name :: "string \<Rightarrow> string option"
  ho_loop :: "string \<Rightarrow> bool option"
  ho_fold :: "string \<Rightarrow> string \<Rightarrow> bool"

definition ThisMachine :: "host_ops \<Rightarrow> string \<Rightarrow> bool" where
  "ThisMachine H locator =
     (case ho_name H locator of
        None \<Rightarrow> False
      | Some host \<Rightarrow>
          if host = [] then False
          else if ho_fold H host ''localhost'' then True
          else (case ho_loop H host of None \<Rightarrow> False | Some b \<Rightarrow> b))"

definition permits :: "host_ops \<Rightarrow> decl \<Rightarrow> spec \<Rightarrow> bool" where
  "permits H d sp =
     (let sz = a_size (sp_artifact sp); dg = a_digest (sp_artifact sp) in
      if 0 < sz \<and> (0 < dc_min d \<and> sz < dc_min d \<or> 0 < dc_max d \<and> dc_max d < sz) then False
      else if dc_digests d \<noteq> [] \<and> dg \<noteq> [] \<and> takeWhile (\<lambda>c. c \<noteq> CHR '':'') dg \<notin> set (dc_digests d) then False
      else if dc_hosts d = HostRoutable \<and> list_ex (\<lambda>src. ThisMachine H (s_locator src)) (sp_sources sp) then False
      else True)"

text \<open>Both declarations at once: neither party loosens the other.\<close>

lemma Valid_None: "Valid d = None \<Longrightarrow> dc_hosts d \<in> {HostAny, HostRoutable} \<and> 0 \<le> dc_min d \<and> 0 \<le> dc_max d"
  by (auto simp: Valid_def split: if_splits)

lemma permits_iff:
  "permits H d sp \<longleftrightarrow>
     \<not> (0 < a_size (sp_artifact sp) \<and> ((0 < dc_min d \<and> a_size (sp_artifact sp) < dc_min d) \<or>
        (0 < dc_max d \<and> dc_max d < a_size (sp_artifact sp)))) \<and>
     \<not> ((dc_digests d \<noteq> [] \<and> takeWhile (\<lambda>c. c \<noteq> CHR '':'') (a_digest (sp_artifact sp)) \<notin> set (dc_digests d)) \<and>
        a_digest (sp_artifact sp) \<noteq> []) \<and>
     \<not> (dc_hosts d = HostRoutable \<and> list_ex (\<lambda>src. ThisMachine H (s_locator src)) (sp_sources sp))"
  unfolding permits_def Let_def by (simp only: if_bool_eq_conj simp_thms) blast

lemma And_permits:
  assumes "And shown d od = (r, None)"
  shows "permits H r sp \<longleftrightarrow> permits H d sp \<and> permits H od sp"
proof -
  have r: "r = (tightened d od)\<lparr>dc_digests := dc_digests r\<rparr>"
    and dg: "dc_digests r = (if dc_digests d = [] then dc_digests od else if dc_digests od = [] then dc_digests d
        else filter (\<lambda>a. a \<in> set (dc_digests od)) (dc_digests d))"
    and dne: "dc_digests d \<noteq> [] \<Longrightarrow> dc_digests od \<noteq> [] \<Longrightarrow> dc_digests r \<noteq> []"
    and v: "Valid r = None"
    using assms by (auto simp: And_def Let_def tightened_def split: if_splits simp del: filter_empty_conv)
  note ok = Valid_None [OF v]
  have hosts: "dc_hosts r = (if dc_hosts od \<noteq> HostAny then dc_hosts od else dc_hosts d)"
    and mn: "dc_min r = max (dc_min d) (dc_min od)"
    and mx: "dc_max r = (if 0 < dc_max od \<and> (dc_max d = 0 \<or> dc_max od < dc_max d) then dc_max od else dc_max d)"
    by (subst r, simp add: tightened_def)+
  have 1: "(0 < dc_min r \<and> n < dc_min r) \<longleftrightarrow> (0 < dc_min d \<and> n < dc_min d) \<or> (0 < dc_min od \<and> n < dc_min od)" for n
    by (auto simp: mn)
  have 2: "(0 < dc_max r \<and> dc_max r < n) \<longleftrightarrow> (0 < dc_max d \<and> dc_max d < n) \<or> (0 < dc_max od \<and> dc_max od < n)" for n
    using ok by (auto simp: mx split: if_splits)
  have 3: "(dc_digests r \<noteq> [] \<and> a \<notin> set (dc_digests r)) \<longleftrightarrow>
      (dc_digests d \<noteq> [] \<and> a \<notin> set (dc_digests d)) \<or> (dc_digests od \<noteq> [] \<and> a \<notin> set (dc_digests od))" for a
    using dne by (auto simp: dg split: if_splits)
  have 4: "dc_hosts r = HostRoutable \<longleftrightarrow> dc_hosts d = HostRoutable \<or> dc_hosts od = HostRoutable"
    using ok by (auto simp: hosts HostAny_def HostRoutable_def split: if_splits)
  show ?thesis unfolding permits_iff 1 2 3 4 by blast
qed

section \<open>Delegates\<close>

text \<open>
  A delegate, over a world \<open>'x\<close> of its own. Optional capabilities are optional fields: \<open>Locator\<close>,
  \<open>Suspendable\<close>, \<open>ReportingFinalizer\<close>, \<open>Declares\<close>, \<open>Selective\<close>, \<open>SubmissionRefuser\<close>. \<open>Finalize\<close>
  writes a file: the answer is its contents; \<open>FinalizeReporting\<close> says besides how far it was and when.
\<close>

datatype delegate_state = DelegateRunning | DelegateTransferred | DelegateFailed | DelegateGone | DelegateOther string

record status =
  su_state :: delegate_state
  su_done :: int
  su_total :: int
  su_err :: string
  su_permanent :: bool
  su_suspended :: bool

record 'x tier =
  dg_system :: string
  dg_schemes :: "string list"
  dg_caps :: "string list"
  dg_start :: "spec \<Rightarrow> int \<Rightarrow> 'x \<Rightarrow> (err + string) \<times> 'x"
  dg_poll :: "string \<Rightarrow> 'x \<Rightarrow> (err + status) \<times> 'x"
  dg_finalize :: "string \<Rightarrow> string \<Rightarrow> 'x \<Rightarrow> (err option \<times> string option) \<times> 'x"
  dg_reports :: "(string \<Rightarrow> string \<Rightarrow> 'x \<Rightarrow> ((int \<times> int) list \<times> err option \<times> string option) \<times> 'x) option"
  dg_abandon :: "string \<Rightarrow> 'x \<Rightarrow> err option \<times> 'x"
  dg_locate :: "(string \<Rightarrow> 'x \<Rightarrow> (err + string) \<times> 'x) option"
  dg_suspend :: "((string \<Rightarrow> 'x \<Rightarrow> err option \<times> 'x) \<times> (string \<Rightarrow> 'x \<Rightarrow> err option \<times> 'x)) option"
  dg_declared :: "decl option"
  dg_selective :: "(spec \<Rightarrow> bool) option"
  dg_refuser :: "(string \<Rightarrow> err option) option"

text \<open>The claims refuted in this process: \<open>Disbelieve\<close> and \<open>disbelieves\<close>.\<close>

type_synonym refuted_claims = "(string \<times> string) list"

definition Disbelieve :: "string \<Rightarrow> string \<Rightarrow> refuted_claims \<Rightarrow> refuted_claims" where
  "Disbelieve sys c db = List.insert (sys, c) db"

definition disbelieves :: "refuted_claims \<Rightarrow> string \<Rightarrow> string \<Rightarrow> bool" where
  "disbelieves db sys c \<longleftrightarrow> (sys, c) \<in> set db"

definition hasAllCaps :: "string list \<Rightarrow> string list \<Rightarrow> bool" where
  "hasAllCaps caps requires \<longleftrightarrow> list_all (\<lambda>w. w \<in> set caps) requires"

definition believed :: "refuted_claims \<Rightarrow> 'x tier \<Rightarrow> string list" where
  "believed db x = filter (\<lambda>c. \<not> disbelieves db (dg_system x) c) (dg_caps x)"

definition refuted :: "refuted_claims \<Rightarrow> 'x tier \<Rightarrow> string list \<Rightarrow> string" where
  "refuted db x requires =
     (case find (disbelieves db (dg_system x)) requires of
        None \<Rightarrow> [] | Some w \<Rightarrow> ''claimed '' @ w @ '' and was caught not doing it'')"

definition recoveryRefusal :: "'x tier \<Rightarrow> string list \<Rightarrow> string" where
  "recoveryRefusal x requires =
     (if CapRecoverableSubmission \<in> set requires \<and> dg_locate x = None
      then ''required '' @ CapRecoverableSubmission @ '' needs Locator reconciliation'' else [])"

definition declined :: "host_ops \<Rightarrow> 'x tier \<Rightarrow> spec \<Rightarrow> string" where
  "declined H x sp =
     (case dg_declared x of
        Some dec \<Rightarrow> if permits H dec sp then [] else ''declared it can never serve this job''
      | None \<Rightarrow> (case dg_selective x of None \<Rightarrow> [] | Some can \<Rightarrow> if can sp then [] else ''refused this job''))"

definition suits :: "refuted_claims \<Rightarrow> 'x tier \<Rightarrow> source \<Rightarrow> string list \<Rightarrow> bool" where
  "suits db x src requires \<longleftrightarrow>
     s_scheme src \<in> set (dg_schemes x) \<and> hasAllCaps (believed db x) requires \<and> recoveryRefusal x requires = []"

definition eligible :: "host_ops \<Rightarrow> refuted_claims \<Rightarrow> 'x tier \<Rightarrow> spec \<Rightarrow> source \<Rightarrow> string list \<Rightarrow> bool" where
  "eligible H db x sp src requires \<longleftrightarrow> suits db x src requires \<and> declined H x sp = []"

definition ForSpec ::
  "host_ops \<Rightarrow> refuted_claims \<Rightarrow> 'x tier list \<Rightarrow> spec \<Rightarrow> source \<Rightarrow> string list \<Rightarrow> 'x tier option" where
  "ForSpec H db ds sp src requires = find (\<lambda>x. eligible H db x sp src requires) ds"

definition why_not :: "host_ops \<Rightarrow> refuted_claims \<Rightarrow> 'x tier \<Rightarrow> spec \<Rightarrow> string list \<Rightarrow> string" where
  "why_not H db x sp requires =
     (if refuted db x requires \<noteq> [] then refuted db x requires
      else if recoveryRefusal x requires \<noteq> [] then recoveryRefusal x requires
      else if \<not> hasAllCaps (believed db x) requires then
        ''required capabilities unavailable: '' @
        str_join '', '' (filter (\<lambda>c. \<not> hasAllCaps (believed db x) [c]) requires)
      else declined H x sp)"

definition WhyNot ::
  "host_ops \<Rightarrow> refuted_claims \<Rightarrow> 'x tier list \<Rightarrow> spec \<Rightarrow> source \<Rightarrow> string list \<Rightarrow> (string \<times> string) list" where
  "WhyNot H db ds sp src requires =
     concat (map (\<lambda>x. if s_scheme src \<notin> set (dg_schemes x) then []
        else let why = why_not H db x sp requires in if why = [] then [] else [(dg_system x, why)]) ds)"

definition BySystem :: "'x tier list \<Rightarrow> string \<Rightarrow> 'x tier option" where
  "BySystem ds sys = find (\<lambda>x. dg_system x = sys) ds"

definition Without :: "'x tier list \<Rightarrow> string \<Rightarrow> 'x tier list" where
  "Without ds sys = filter (\<lambda>x. dg_system x \<noteq> sys) ds"

fun delegators_refusal :: "'x tier list \<Rightarrow> string \<Rightarrow> err option" where
  "delegators_refusal [] request = None"
| "delegators_refusal (x # xs) request =
     (case dg_refuser x of
        None \<Rightarrow> delegators_refusal xs request
      | Some f \<Rightarrow> (case f request of Some e \<Rightarrow> Some e | None \<Rightarrow> delegators_refusal xs request))"

definition refusedBy :: "(string \<times> string) list \<Rightarrow> string" where
  "refusedBy rs =
     str_join ''; '' (fold (\<lambda>(sys, why) said. if sys @ '' '' @ why \<in> set said then said else said @ [sys @ '' '' @ why]) rs [])"

text \<open>A delegate that offers the scheme and is passed over is passed over for a stated reason, and only then.\<close>

lemma why_not_iff:
  assumes "s_scheme src \<in> set (dg_schemes x)"
  shows "why_not H db x sp requires = [] \<longleftrightarrow> eligible H db x sp src requires"
proof -
  have "refuted db x requires \<noteq> [] \<Longrightarrow> \<not> hasAllCaps (believed db x) requires"
    by (auto simp: refuted_def find_Some_iff hasAllCaps_def believed_def list_all_iff split: option.splits)
  then show ?thesis using assms by (auto simp: why_not_def eligible_def suits_def)
qed

lemma WhyNot_systems:
  "map fst (WhyNot H db ds sp src requires) =
     map dg_system (filter (\<lambda>x. s_scheme src \<in> set (dg_schemes x) \<and> \<not> eligible H db x sp src requires) ds)"
  by (induction ds) (auto simp: WhyNot_def Let_def why_not_iff)

lemma ForSpec_Some: "ForSpec H db ds sp src requires = Some d \<Longrightarrow> d \<in> set ds \<and> eligible H db d sp src requires"
  by (auto simp: ForSpec_def find_Some_iff)

lemma ForSpec_None_iff: "ForSpec H db ds sp src requires = None \<longleftrightarrow> (\<forall>d\<in>set ds. \<not> eligible H db d sp src requires)"
  by (auto simp: ForSpec_def find_None_iff)

lemma BySystem_Some: "BySystem ds sys = Some d \<Longrightarrow> d \<in> set ds \<and> dg_system d = sys"
  by (auto simp: BySystem_def find_Some_iff)

text \<open>A refuted claim is never believed again, whatever the delegate says.\<close>

lemma Disbelieve_ineligible:
  "c \<in> set requires \<Longrightarrow> \<not> eligible H (Disbelieve (dg_system d) c db) d sp src requires"
  by (auto simp: eligible_def suits_def hasAllCaps_def believed_def disbelieves_def Disbelieve_def list_all_iff)

end
