(* ===== verification/Store_Seat.thy ===== *)
theory Store_Seat
  imports Checkpoints
begin

text \<open>
  The job store as a runner uses it, and the writes a runner makes that belong to no transfer: handing a
  lease back (\<open>release\<close>), carrying out what somebody asked for (\<open>honour\<close>), keeping what a failed attempt
  proved (\<open>keepProven\<close>) and acknowledging a delivery (\<open>TakeDelivery\<close>), all of \<open>go/runner.go\<close>, and the
  retry clock \<open>RetryAfter\<close>.

  The store itself is the job layer's: its operations are the argument \<open>J\<close>, over a store state of any
  type. The locale \<open>store_layer\<close> says what is relied on, and a store kept in a map provides it.
\<close>

section \<open>The store\<close>

record ('s, 'd) store_ops =
  so_load :: "string \<Rightarrow> 's \<Rightarrow> err + 'd job_record"
  so_claim :: "string \<Rightarrow> string \<Rightarrow> 's \<Rightarrow> (err + 'd job_record) \<times> 's"
  so_update :: "string \<Rightarrow> int \<Rightarrow> ('d job_record \<Rightarrow> err + 'd job_record) \<Rightarrow> 's \<Rightarrow> (err + 'd job_record) \<times> 's"
  so_renew :: "string \<Rightarrow> int \<Rightarrow> 's \<Rightarrow> (err + 'd job_record) \<times> 's"
  so_release :: "string \<Rightarrow> int \<Rightarrow> 's \<Rightarrow> err option \<times> 's"

text \<open>\<open>job.State.Terminal\<close>.\<close>

fun terminal_state :: "job_state \<Rightarrow> bool" where
  "terminal_state StateComplete = True"
| "terminal_state StateFailed = True"
| "terminal_state StateCancelled = True"
| "terminal_state _ = False"

text \<open>A pending record that is claimed is running.\<close>

definition claimed_state :: "job_state \<Rightarrow> job_state" where
  "claimed_state st = (if st = StatePending then StateRunning else st)"

lemma claimed_state_simps [simp]:
  "terminal_state (claimed_state st) = terminal_state st" "claimed_state st = StateTransferred \<longleftrightarrow> st = StateTransferred"
  "claimed_state (claimed_state st) = claimed_state st" "claimed_state st \<noteq> StatePending"
  by (cases st; simp add: claimed_state_def)+

text \<open>
  A claim hands out a record at a new epoch; only the holder of the present epoch writes; a finished
  record takes no write at all; a refused write changes nothing; no write touches another record.
\<close>

locale store_layer =
  fixes J :: "('s, 'd) store_ops"
  assumes update_Inr: "\<And>jid ep g s r' s'. so_update J jid ep g s = (Inr r', s') \<Longrightarrow>
      \<exists>r. so_load J jid s = Inr r \<and> l_epoch (j_lease r) = ep \<and> \<not> terminal_state (j_state r) \<and>
        g r = Inr r' \<and> so_load J jid s' = Inr r'"
    and update_Inl: "\<And>jid ep g s e s'. so_update J jid ep g s = (Inl e, s') \<Longrightarrow> so_load J k s' = so_load J k s"
    and update_other: "\<And>jid ep g s x s' k. so_update J jid ep g s = (x, s') \<Longrightarrow> k \<noteq> jid \<Longrightarrow> so_load J k s' = so_load J k s"
    and claim_Inr: "\<And>jid who s r' s'. so_claim J jid who s = (Inr r', s') \<Longrightarrow>
      \<exists>r. so_load J jid s = Inr r \<and> \<not> terminal_state (j_state r) \<and> r' = r\<lparr>j_lease := j_lease r', j_state := claimed_state (j_state r)\<rparr> \<and>
        l_epoch (j_lease r') = l_epoch (j_lease r) + 1 \<and> l_owner (j_lease r') = who \<and> so_load J jid s' = Inr r'"
    and claim_Inl: "\<And>jid who s e s' k. so_claim J jid who s = (Inl e, s') \<Longrightarrow> so_load J k s' = so_load J k s"
    and claim_other: "\<And>jid who s x s' k. so_claim J jid who s = (x, s') \<Longrightarrow> k \<noteq> jid \<Longrightarrow> so_load J k s' = so_load J k s"
    and renew_keeps: "\<And>jid ep s x s' r. so_renew J jid ep s = (x, s') \<Longrightarrow> so_load J jid s = Inr r \<Longrightarrow>
      \<exists>l. l_epoch l = l_epoch (j_lease r) \<and> so_load J jid s' = Inr (r\<lparr>j_lease := l\<rparr>)"
    and release_keeps: "\<And>jid ep s x s' r. so_release J jid ep s = (x, s') \<Longrightarrow> so_load J jid s = Inr r \<Longrightarrow>
      \<exists>l. l_epoch l = l_epoch (j_lease r) \<and> so_load J jid s' = Inr (r\<lparr>j_lease := l\<rparr>)"

section \<open>Writes of a runner\<close>

definition fencing :: "err \<Rightarrow> bool" where
  "fencing e \<longleftrightarrow> err_is_foreign e JobStaleEpoch \<or> err_is_foreign e JobLeaseExpiry"

definition release :: "('s, 'd) store_ops \<Rightarrow> string \<Rightarrow> int \<Rightarrow> 's \<Rightarrow> err option \<times> 's" where
  "release J jid ep s =
     (case so_release J jid ep s of
        (Some e, s') \<Rightarrow> (if err_is_foreign e JobTerminal then None else Some e, s')
      | (None, s') \<Rightarrow> (None, s'))"

definition honour :: "('s, 'd) store_ops \<Rightarrow> want \<Rightarrow> string \<Rightarrow> int \<Rightarrow> 's \<Rightarrow> err option \<times> 's" where
  "honour J w jid ep s =
     (case w of
        WantCancel \<Rightarrow>
          (case so_update J jid ep (\<lambda>rr. Inr (clearWaiting (clearFailure (rr\<lparr>j_state := StateCancelled\<rparr>)))) s of
             (Inl e, s') \<Rightarrow> (Some e, s')
           | (Inr _, s') \<Rightarrow> (None, s'))
      | _ \<Rightarrow> (None, s))"

definition keepProven ::
  "range_ops \<Rightarrow> 'd doc_ops \<Rightarrow> ('s, 'd) store_ops \<Rightarrow> int \<Rightarrow> string \<Rightarrow> int \<Rightarrow> int \<Rightarrow> validators \<Rightarrow> 's \<Rightarrow> 's" where
  "keepProven R D J now jid ep prefx seen s =
     (if prefx \<le> 0 then s
      else snd (so_update J jid ep (\<lambda>rr.
        if prefx \<le> p_done (j_progress rr) then Inr rr
        else setCheckpoint R D \<lparr>c_prefix = prefx, c_validators = seen, c_verified = []\<rparr>
               (rr\<lparr>j_progress := (j_progress rr)\<lparr>p_done := prefx, p_updated := now\<rparr>\<rparr>)) s))"

definition state_word :: "job_state \<Rightarrow> string" where
  "state_word st = (case st of StatePending \<Rightarrow> ''pending'' | StateRunning \<Rightarrow> ''running''
     | StateTransferred \<Rightarrow> ''transferred'' | StateComplete \<Rightarrow> ''complete'' | StateFailed \<Rightarrow> ''failed''
     | StateCancelled \<Rightarrow> ''cancelled'')"

definition TakeDelivery :: "('s, 'd) store_ops \<Rightarrow> string \<Rightarrow> string \<Rightarrow> 's \<Rightarrow> err option \<times> 's" where
  "TakeDelivery J who jid s =
     (case so_load J jid s of
        Inl e \<Rightarrow> (Some e, s)
      | Inr rec \<Rightarrow>
          if j_state rec = StateComplete then (None, s)
          else if j_state rec \<noteq> StateTransferred then
            (Some (Errorf [Lit ''download: '', Str jid, Lit '' is '', Str (state_word (j_state rec)),
               Lit '', not '', Str (state_word StateTransferred)]), s)
          else (case so_claim J jid who s of
            (Inl _, s') \<Rightarrow> (None, s')
          | (Inr mine, s') \<Rightarrow>
              (case so_update J jid (l_epoch (j_lease mine)) (\<lambda>rr. Inr (rr\<lparr>j_state := StateComplete\<rparr>)) s' of
                 (Inl e, s'') \<Rightarrow> (Some e, s'')
               | (Inr _, s'') \<Rightarrow> (None, s''))))"

section \<open>The retry clock\<close>

text \<open>Seconds. The attempt count is the lease epoch.\<close>

definition RetryDelay :: int where "RetryDelay = 15"
definition RetryMax :: int where "RetryMax = 900"

function retry_wait :: "int \<Rightarrow> int \<Rightarrow> int \<Rightarrow> int" where
  "retry_wait i epoch wait = (if i < epoch \<and> wait < RetryMax then retry_wait (i + 1) epoch (wait * 2) else wait)"
  by auto
termination by (relation "measure (\<lambda>(i, epoch, w). nat (epoch - i))") auto

declare retry_wait.simps [simp del]

definition RetryAfter :: "'d job_record \<Rightarrow> int \<Rightarrow> int option" where
  "RetryAfter r updated =
     (if LastFailure r = None then None
      else Some (updated + min RetryMax (retry_wait 1 (l_epoch (j_lease r)) RetryDelay)))"


lemma retry_wait_closed:
  "0 < w \<Longrightarrow> min RetryMax (retry_wait i e w) = min RetryMax (w * 2 ^ nat (e - i))"
proof (induction i e w rule: retry_wait.induct)
  case (1 i e w)
  show ?case
  proof (cases "i < e \<and> w < RetryMax")
    case True
    have "nat (e - i) = Suc (nat (e - (i + 1)))" using True by arith
    with 1 True show ?thesis by (subst retry_wait.simps) (simp add: mult.assoc)
  next
    case False
    have "w \<le> w * 2 ^ nat (e - i)" using 1(2) by simp
    with False show ?thesis by (subst retry_wait.simps) (auto simp: min_def)
  qed
qed

lemma RetryAfter_wait:
  "RetryAfter r t = (if LastFailure r = None then None
     else Some (t + min RetryMax (RetryDelay * 2 ^ nat (l_epoch (j_lease r) - 1))))"
  using retry_wait_closed [of RetryDelay 1 "l_epoch (j_lease r)"] by (simp add: RetryAfter_def RetryDelay_def)

lemma retry_bounds: "RetryDelay \<le> min RetryMax (RetryDelay * 2 ^ n) \<and> min RetryMax (RetryDelay * 2 ^ n) \<le> RetryMax"
proof -
  have "(1::int) \<le> 2 ^ n" by simp
  then show ?thesis by (simp add: RetryMax_def RetryDelay_def)
qed

section \<open>What the writes keep\<close>

context store_layer
begin

lemma honour_cancel:
  assumes "honour J WantCancel jid ep s = (None, s')"
  shows "\<exists>r. so_load J jid s' = Inr r \<and> j_state r = StateCancelled \<and> LastFailure r = None \<and>
    j_extensions r WaitingExtension = None"
proof -
  obtain r' where u: "so_update J jid ep (\<lambda>rr. Inr (clearWaiting (clearFailure (rr\<lparr>j_state := StateCancelled\<rparr>)))) s = (Inr r', s')"
    using assms by (auto simp: honour_def split: prod.splits sum.splits)
  from update_Inr [OF u] show ?thesis
    by (auto simp: clearWaiting_def clearFailure_def LastFailure_def FailureExtension_def WaitingExtension_def)
qed

lemma TakeDelivery_complete:
  assumes "TakeDelivery J who jid s = (None, s')"
  shows "(\<exists>r. so_load J jid s' = Inr r \<and> j_state r = StateComplete) \<or>
    (\<exists>r. so_load J jid s = Inr r \<and> j_state r = StateTransferred \<and> so_load J jid s' = so_load J jid s)"
proof -
  obtain rec where l: "so_load J jid s = Inr rec" "j_state rec = StateComplete \<or> j_state rec = StateTransferred"
    using assms by (auto simp: TakeDelivery_def split: sum.splits if_splits)
  show ?thesis
  proof (cases "j_state rec = StateComplete")
    case True
    with l assms show ?thesis by (auto simp: TakeDelivery_def)
  next
    case False
    obtain x s1 where c: "so_claim J jid who s = (x, s1)" by (metis surj_pair)
    show ?thesis
    proof (cases x)
      case (Inl e)
      with c l False assms claim_Inl [of jid who s e s1 jid] show ?thesis by (auto simp: TakeDelivery_def)
    next
      case (Inr mine)
      obtain y s2 where u: "so_update J jid (l_epoch (j_lease mine)) (\<lambda>rr. Inr (rr\<lparr>j_state := StateComplete\<rparr>)) s1 = (y, s2)"
        by (metis surj_pair)
      obtain r' where "y = Inr r'" "s' = s2"
        using assms l False c Inr u by (auto simp: TakeDelivery_def split: sum.splits)
      with update_Inr [of jid "l_epoch (j_lease mine)" "\<lambda>rr. Inr (rr\<lparr>j_state := StateComplete\<rparr>)" s1 r' s2] u
      show ?thesis by auto
    qed
  qed
qed

lemma TakeDelivery_again:
  "so_load J jid s = Inr r \<Longrightarrow> j_state r = StateComplete \<Longrightarrow> TakeDelivery J who jid s = (None, s)"
  by (simp add: TakeDelivery_def)

lemma TakeDelivery_other:
  assumes "TakeDelivery J who jid s = (x, s')" "k \<noteq> jid"
  shows "so_load J k s' = so_load J k s"
proof -
  obtain y s1 where c: "so_claim J jid who s = (y, s1)" by (metis surj_pair)
  have 1: "so_load J k s1 = so_load J k s" using claim_other [OF c assms(2)] .
  have 2: "so_update J jid ep g s1 = (z, s2) \<Longrightarrow> so_load J k s2 = so_load J k s" for ep g z s2
    using update_other [of jid ep g s1 z s2 k] 1 assms(2) by simp
  show ?thesis using assms(1) c 1 2 by (auto simp: TakeDelivery_def split: sum.splits prod.splits if_splits)
qed

end

section \<open>A store in a map\<close>

text \<open>The clock is part of the state; a lease is held until it expires.\<close>

record 'd map_store =
  ms_records :: "string \<Rightarrow> 'd job_record option"
  ms_now :: int

definition stale :: err where "stale = Foreign ''job: stale epoch'' False [JobStaleEpoch]"
definition finished :: err where "finished = Foreign ''job: terminal'' False [JobTerminal]"
definition unknown :: err where "unknown = Foreign ''job: not found'' False [JobNotFound]"
definition lease_held :: err where "lease_held = Foreign ''job: lease held'' False [JobLeaseHeld]"

definition map_write :: "string \<Rightarrow> 'd job_record \<Rightarrow> 'd map_store \<Rightarrow> 'd map_store" where
  "map_write jid r s = s\<lparr>ms_records := (ms_records s)(jid \<mapsto> r)\<rparr>"

definition map_change ::
  "string \<Rightarrow> int \<Rightarrow> ('d job_record \<Rightarrow> err + 'd job_record) \<Rightarrow> 'd map_store \<Rightarrow> (err + 'd job_record) \<times> 'd map_store" where
  "map_change jid ep g s =
     (case ms_records s jid of
        None \<Rightarrow> (Inl unknown, s)
      | Some r \<Rightarrow>
          if terminal_state (j_state r) then (Inl finished, s)
          else if l_epoch (j_lease r) \<noteq> ep then (Inl stale, s)
          else (case g r of Inl e \<Rightarrow> (Inl e, s) | Inr r' \<Rightarrow> (Inr r', map_write jid r' s)))"

definition map_ops :: "('d map_store, 'd) store_ops" where
  "map_ops = \<lparr>
     so_load = (\<lambda>jid s. case ms_records s jid of None \<Rightarrow> Inl unknown | Some r \<Rightarrow> Inr r),
     so_claim = (\<lambda>jid who s. case ms_records s jid of
        None \<Rightarrow> (Inl unknown, s)
      | Some r \<Rightarrow>
          if terminal_state (j_state r) then (Inl finished, s)
          else if ms_now s < l_expires (j_lease r) then (Inl lease_held, s)
          else let r' = r\<lparr>j_lease := \<lparr>l_owner = who, l_epoch = l_epoch (j_lease r) + 1, l_expires = ms_now s + 30\<rparr>,
                 j_state := claimed_state (j_state r)\<rparr>
               in (Inr r', map_write jid r' s)),
     so_update = map_change,
     so_renew = (\<lambda>jid ep s. map_change jid ep (\<lambda>r. Inr (r\<lparr>j_lease := (j_lease r)\<lparr>l_expires := ms_now s + 30\<rparr>\<rparr>)) s),
     so_release = (\<lambda>jid ep s. case map_change jid ep (\<lambda>r. Inr (r\<lparr>j_lease := (j_lease r)\<lparr>l_expires := 0\<rparr>\<rparr>)) s of
        (Inl e, s') \<Rightarrow> (Some e, s') | (Inr _, s') \<Rightarrow> (None, s'))\<rparr>"

lemma map_change_Inr: "map_change jid ep g s = (Inr r', s') \<Longrightarrow>
    \<exists>r. ms_records s jid = Some r \<and> l_epoch (j_lease r) = ep \<and> \<not> terminal_state (j_state r) \<and> g r = Inr r' \<and>
      s' = map_write jid r' s"
  by (auto simp: map_change_def split: option.splits if_splits sum.splits)

lemma map_change_Inl: "map_change jid ep g s = (Inl e, s') \<Longrightarrow> s' = s"
  by (auto simp: map_change_def split: option.splits if_splits sum.splits)

lemma map_change_other: "map_change jid ep g s = (x, s') \<Longrightarrow> k \<noteq> jid \<Longrightarrow> ms_records s' k = ms_records s k"
  by (cases x) (auto dest!: map_change_Inl map_change_Inr simp: map_write_def)

lemma map_lease:
  assumes "map_change jid ep (\<lambda>r. Inr (r\<lparr>j_lease := (j_lease r)\<lparr>l_expires := t\<rparr>\<rparr>)) s = (x, s')"
    and "ms_records s jid = Some r"
  shows "\<exists>l. l_epoch l = l_epoch (j_lease r) \<and> ms_records s' jid = Some (r\<lparr>j_lease := l\<rparr>)"
proof (cases x)
  case (Inl e)
  with assms map_change_Inl have "s' = s" by blast
  with assms(2) show ?thesis by (intro exI [of _ "j_lease r"]) simp
next
  case (Inr r1)
  with assms have "s' = map_write jid r1 s" "r1 = r\<lparr>j_lease := (j_lease r)\<lparr>l_expires := t\<rparr>\<rparr>"
    by (auto dest!: map_change_Inr)
  then show ?thesis by (intro exI [of _ "(j_lease r)\<lparr>l_expires := t\<rparr>"]) (simp add: map_write_def)
qed

lemma map_load_iff: "so_load map_ops jid s = Inr r \<longleftrightarrow> ms_records s jid = Some r"
  by (simp add: map_ops_def split: option.split)

lemma map_release: "so_release map_ops jid ep s = (y, s') \<Longrightarrow>
    \<exists>x. map_change jid ep (\<lambda>r. Inr (r\<lparr>j_lease := (j_lease r)\<lparr>l_expires := 0\<rparr>\<rparr>)) s = (x, s')"
  by (cases "map_change jid ep (\<lambda>r. Inr (r\<lparr>j_lease := (j_lease r)\<lparr>l_expires := 0\<rparr>\<rparr>)) s")
    (auto simp: map_ops_def split: sum.splits)

lemma map_renew: "so_renew map_ops jid ep s = map_change jid ep
    (\<lambda>r. Inr (r\<lparr>j_lease := (j_lease r)\<lparr>l_expires := ms_now s + 30\<rparr>\<rparr>)) s"
  by (simp add: map_ops_def)

lemma map_store_layer: "store_layer map_ops"
proof
  fix jid k who :: string and ep :: int and g :: "'d job_record \<Rightarrow> err + 'd job_record" and s s' :: "'d map_store"
    and e :: err and r r' :: "'d job_record" and x :: "err + 'd job_record" and y :: "err option"
  let ?load = "\<lambda>jid s. case ms_records s jid of None \<Rightarrow> Inl unknown | Some r \<Rightarrow> Inr r"
  show "\<exists>r. so_load map_ops jid s = Inr r \<and> l_epoch (j_lease r) = ep \<and> \<not> terminal_state (j_state r) \<and>
      g r = Inr r' \<and> so_load map_ops jid s' = Inr r'" if "so_update map_ops jid ep g s = (Inr r', s')"
    using map_change_Inr [of jid ep g s r' s'] that by (auto simp: map_ops_def map_write_def)
  show "so_load map_ops k s' = so_load map_ops k s" if "so_update map_ops jid ep g s = (Inl e, s')"
    using map_change_Inl [of jid ep g s e s'] that by (simp add: map_ops_def)
  show "so_load map_ops k s' = so_load map_ops k s" if "so_update map_ops jid ep g s = (x, s')" "k \<noteq> jid"
    using map_change_other [of jid ep g s x s' k] that by (simp add: map_ops_def)
  show "\<exists>r. so_load map_ops jid s = Inr r \<and> \<not> terminal_state (j_state r) \<and> r' = r\<lparr>j_lease := j_lease r', j_state := claimed_state (j_state r)\<rparr> \<and>
        l_epoch (j_lease r') = l_epoch (j_lease r) + 1 \<and> l_owner (j_lease r') = who \<and> so_load map_ops jid s' = Inr r'"
    if "so_claim map_ops jid who s = (Inr r', s')"
    using that by (auto simp: map_ops_def map_write_def Let_def split: option.splits if_splits)
  show "so_load map_ops k s' = so_load map_ops k s" if "so_claim map_ops jid who s = (Inl e, s')"
    using that by (auto simp: map_ops_def Let_def split: option.splits if_splits)
  show "so_load map_ops k s' = so_load map_ops k s" if "so_claim map_ops jid who s = (x, s')" "k \<noteq> jid"
    using that by (auto simp: map_ops_def map_write_def Let_def split: option.splits if_splits)
  show "\<exists>l. l_epoch l = l_epoch (j_lease r) \<and> so_load map_ops jid s' = Inr (r\<lparr>j_lease := l\<rparr>)"
    if "so_renew map_ops jid ep s = (x, s')" "so_load map_ops jid s = Inr r"
    using map_lease that unfolding map_renew map_load_iff by blast
  show "\<exists>l. l_epoch l = l_epoch (j_lease r) \<and> so_load map_ops jid s' = Inr (r\<lparr>j_lease := l\<rparr>)"
    if "so_release map_ops jid ep s = (y, s')" "so_load map_ops jid s = Inr r"
    using map_lease map_release [OF that(1)] that(2) unfolding map_load_iff by blast
qed

interpretation map_store: store_layer map_ops
  by (rule map_store_layer)

end
