(* ===== verification/Streaming.thy ===== *)
theory Streaming
  imports Fetch_Registry Store_Seat Resume_Plan
begin

text \<open>
  One connection at a time: \<open>fetch\<close>, \<open>stream\<close> and \<open>transfer\<close> of \<open>go/runner.go\<close>.

  A fetcher is given callbacks and calls them in any order; it is modelled by what it does, a list of
  events with the result it returns, chosen freely for every open. The answers of the clock, of the
  file system calls that can fail and of the store travel with the events and in an environment. The
  file's contents are the bytes themselves, and the rolling hash is the string that was fed to it:
  \<open>sha256\<close> is the argument \<open>sha\<close>.
\<close>

section \<open>What a fetcher does with its callbacks\<close>

text \<open>The clock at a report: whether the interval has passed, whether a renewal is due, \<open>Sync\<close>, the time.\<close>

record clock =
  ck_overdue :: bool
  ck_renew :: bool
  ck_sync :: "err option"
  ck_now :: int

text \<open>
  \<open>Observed\<close>, \<open>Restart\<close> (what \<open>Truncate\<close> and \<open>Seek\<close> answer, and the time), a write of which the file took
  the first bytes, \<open>Report\<close>, and a tick of the quiet-transfer timer.
\<close>

datatype event =
    Observe validators
  | Restart "err option" "err option" int
  | Write string nat
  | Report int int clock
  | Tick clock

type_synonym script = "event list \<times> int \<times> err option"
type_synonym fetch_fun = "nat \<Rightarrow> request \<Rightarrow> script"

section \<open>The state the callbacks share\<close>

record 's xfer =
  x_file :: string
  x_pos :: nat
  x_hash :: string
  x_from :: int
  x_to :: int
  x_disk :: int
  x_restarted :: bool
  x_proven :: ranges
  x_seen :: validators
  x_last :: int
  x_known :: bool
  x_latest :: int
  x_lost :: "err option"
  x_want :: "want option"
  x_store :: 's

record ('s, 'd) run_env =
  en_ranges :: range_ops
  en_docs :: "'d doc_ops"
  en_store :: "('s, 'd) store_ops"
  en_id :: string
  en_epoch :: int
  en_every :: int
  en_timed :: bool

definition write_file :: "nat \<Rightarrow> string \<Rightarrow> string \<Rightarrow> string" where
  "write_file pos p f =
     (let f = f @ replicate (pos - length f) (CHR 0x00) in take pos f @ p @ drop (pos + length p) f)"

text \<open>\<open>io.MultiWriter\<close> feeds the hash after a whole write only.\<close>

definition take_write :: "bool \<Rightarrow> string \<Rightarrow> nat \<Rightarrow> 's xfer \<Rightarrow> 's xfer" where
  "take_write rolling p n x =
     x\<lparr>x_file := write_file (x_pos x) (take n p) (x_file x), x_pos := x_pos x + length (take n p),
       x_hash := (if rolling \<and> length p \<le> n then x_hash x @ p else x_hash x),
       x_disk := x_disk x + int (length (take n p))\<rparr>"

definition restart :: "('s, 'd) run_env \<Rightarrow> err option \<Rightarrow> err option \<Rightarrow> int \<Rightarrow> 's xfer \<Rightarrow> 's xfer" where
  "restart E trunc seek now x =
     (if trunc \<noteq> None then x
      else if seek \<noteq> None then x\<lparr>x_file := []\<rparr>
      else let (r, s') = so_update (en_store E) (en_id E) (en_epoch E) (\<lambda>rr.
             setCheckpoint (en_ranges E) (en_docs E) no_checkpoint
               (rr\<lparr>j_progress := (j_progress rr)\<lparr>p_done := 0, p_updated := now\<rparr>\<rparr>)) (x_store x)
           in x\<lparr>x_file := [], x_pos := 0, x_hash := [], x_from := 0, x_to := 0, x_disk := 0, x_restarted := True,
                x_proven := [], x_seen := no_validators, x_last := 0, x_store := s'\<rparr>)"

text \<open>A report that is due: sync, claim the bytes, write the checkpoint, hear what is asked, renew.\<close>

definition claim_reported :: "('s, 'd) run_env \<Rightarrow> int \<Rightarrow> int \<Rightarrow> clock \<Rightarrow> 's xfer \<Rightarrow> 's xfer" where
  "claim_reported E at whole ck x =
     (if ck_sync ck \<noteq> None then x
      else case ro_add (en_ranges E) (x_proven x) (x_from x) at of
        Inl _ \<Rightarrow> x
      | Inr nxt \<Rightarrow>
          (case so_update (en_store E) (en_id E) (en_epoch E) (\<lambda>rr.
             setCheckpoint (en_ranges E) (en_docs E) \<lparr>c_prefix = 0, c_validators = x_seen x, c_verified = nxt\<rparr>
               (rr\<lparr>j_progress := (j_progress rr)\<lparr>p_done := ro_total (en_ranges E) nxt,
                    p_total := (if p_total (j_progress rr) = 0 \<and> 0 < whole then whole
                                else p_total (j_progress rr)),
                    p_updated := ck_now ck\<rparr>\<rparr>)) (x_store x) of
             (Inl e, s') \<Rightarrow> x\<lparr>x_store := s', x_lost := (if fencing e then Some e else x_lost x)\<rparr>
           | (Inr updated, s') \<Rightarrow>
               (let x = x\<lparr>x_store := s', x_proven := nxt, x_known := (x_known x \<or> 0 < whole)\<rparr> in
                if j_want updated \<noteq> WantRun then x\<lparr>x_want := Some (j_want updated)\<rparr>
                else if \<not> ck_renew ck then x
                else (case so_renew (en_store E) (en_id E) (en_epoch E) (x_store x) of
                        (Inl e, s'') \<Rightarrow> x\<lparr>x_store := s'', x_lost := Some e\<rparr>
                      | (Inr _, s'') \<Rightarrow> x\<lparr>x_store := s''\<rparr>))))"

definition report :: "('s, 'd) run_env \<Rightarrow> int \<Rightarrow> int \<Rightarrow> bool \<Rightarrow> clock \<Rightarrow> 's xfer \<Rightarrow> 's xfer" where
  "report E written whole quiet ck x =
     (let at = x_from x + written;
          x = x\<lparr>x_latest := whole\<rparr>;
          enough = en_every E \<le> at - x_last x;
          overdue = en_timed E \<and> ck_overdue ck;
          firstTotal = 0 < whole \<and> \<not> x_known x
      in if \<not> enough \<and> \<not> overdue \<and> \<not> quiet \<and> \<not> firstTotal then x
         else claim_reported E at whole ck (x\<lparr>x_last := at\<rparr>))"

fun callback :: "('s, 'd) run_env \<Rightarrow> bool \<Rightarrow> event \<Rightarrow> 's xfer \<Rightarrow> 's xfer" where
  "callback E rolling (Observe v) x = x\<lparr>x_seen := v\<rparr>"
| "callback E rolling (Restart trunc seek now) x = restart E trunc seek now x"
| "callback E rolling (Write p n) x = take_write rolling p n x"
| "callback E rolling (Report written whole ck) x = report E written whole False ck x"
| "callback E rolling (Tick ck) x =
     (if en_timed E \<and> x_last x < x_from x + x_disk x then report E (x_disk x) (x_latest x) True ck x else x)"

definition callbacks :: "('s, 'd) run_env \<Rightarrow> bool \<Rightarrow> event list \<Rightarrow> 's xfer \<Rightarrow> 's xfer" where
  "callbacks E rolling evs x = fold (callback E rolling) evs x"

section \<open>One gap, source by source\<close>

definition open_source :: "'s xfer \<Rightarrow> 's xfer" where
  "open_source x = x\<lparr>x_pos := nat (x_from x), x_last := x_from x, x_disk := 0, x_latest := 0\<rparr>"

definition fetch_request :: "source \<Rightarrow> (string \<times> string) list \<Rightarrow> 's xfer \<Rightarrow> request" where
  "fetch_request src hs x =
     \<lparr>rq_source = src, rq_from = x_from x, rq_to = x_to x, rq_validators = x_seen x, rq_headers = hs,
      rq_restart = Some None\<rparr>"

text \<open>What a stop reports: the proven prefix, whether the stream began again, and the error.\<close>

definition stopped :: "('s, 'd) run_env \<Rightarrow> err option \<Rightarrow> 's xfer \<Rightarrow> (int \<times> bool \<times> err option) \<times> 's xfer" where
  "stopped E e x = ((ro_prefix (en_ranges E) (x_proven x), x_restarted x, e), x)"

definition is_cancel :: "err \<Rightarrow> bool" where
  "is_cancel e \<longleftrightarrow> err_is_foreign e CtxCanceled \<or> err_is_foreign e CtxDeadlineExceeded"

text \<open>Folding in what landed, whatever the result.\<close>

definition fold_landed :: "('s, 'd) run_env \<Rightarrow> int \<Rightarrow> 's xfer \<Rightarrow> 's xfer" where
  "fold_landed E w x =
     (case ro_add (en_ranges E) (x_proven x) (x_from x) (x_from x + w) of Inl _ \<Rightarrow> x | Inr got \<Rightarrow> x\<lparr>x_proven := got\<rparr>)"

text \<open>\<open>seek\<close> is what positioning the file answers before the \<open>k\<close>-th open.\<close>

fun fetch_from ::
  "('s, 'd) run_env \<Rightarrow> fetch_fun open_env \<Rightarrow> (nat \<Rightarrow> err option) \<Rightarrow> bool \<Rightarrow> nat \<Rightarrow> source list \<Rightarrow> err option \<Rightarrow> 's xfer \<Rightarrow>
   (int \<times> bool \<times> err option) \<times> 's xfer" where
  "fetch_from E V seek rolling k [] old x =
     stopped E (Some (case old of None \<Rightarrow> Var ErrNoFetcher | Some e \<Rightarrow> e)) x"
| "fetch_from E V seek rolling k (src # srcs) old x =
     (case op_allows V k of
        Some e \<Rightarrow> stopped E (Some e) x
      | None \<Rightarrow>
          (case For (op_fetchers V) src (op_requires V) of
             None \<Rightarrow> fetch_from E V seek rolling (Suc k) srcs
                       (Some (noFetcherFor (op_fetchers V) src (op_requires V))) x
           | Some f \<Rightarrow>
               (case op_reach V (s_locator src) of
                  Some e \<Rightarrow> fetch_from E V seek rolling (Suc k) srcs (Some e) x
                | None \<Rightarrow>
                    (case seek k of
                       Some e \<Rightarrow> stopped E (Some e) x
                     | None \<Rightarrow>
                         (case op_headers V src of
                            Inl e \<Rightarrow> fetch_from E V seek rolling (Suc k) srcs (Some e) (x\<lparr>x_pos := nat (x_from x)\<rparr>)
                          | Inr hs \<Rightarrow>
                              (let x = open_source x;
                                   (evs, w, e) = fe_fetch f k (fetch_request src hs x);
                                   x = fold_landed E w (callbacks E rolling evs x)
                               in if x_lost x \<noteq> None then stopped E (x_lost x) x
                                  else case e of
                                    None \<Rightarrow> stopped E None x
                                  | Some y \<Rightarrow>
                                      if is_cancel y then stopped E (Some y) x
                                      else let this = Errorf [Lit ''source '', Str (s_scheme src), Lit '': '', Err y] in
                                        if 0 < w then stopped E (Some this) x
                                        else fetch_from E V seek rolling (Suc k) srcs (preferred old this) x))))))"

definition fetch ::
  "('s, 'd) run_env \<Rightarrow> fetch_fun open_env \<Rightarrow> (nat \<Rightarrow> err option) \<Rightarrow> bool \<Rightarrow> spec \<Rightarrow> bool \<Rightarrow> fetch_range \<Rightarrow> 's xfer \<Rightarrow>
   (int \<times> bool \<times> err option) \<times> 's xfer" where
  "fetch E V seek rolling sp known gap x =
     fetch_from E V seek rolling 0 (byPriority (sp_sources sp)) None
       (x\<lparr>x_from := g_from gap, x_to := g_to gap, x_restarted := False, x_disk := 0, x_last := g_from gap,
          x_known := known, x_lost := None\<rparr>)"

section \<open>One stream\<close>

text \<open>The files a run touches, by path.\<close>

datatype node = Dir | File string

record 's world =
  w_files :: "string \<Rightarrow> node option"
  w_store :: 's

text \<open>
  What the file system, the keepers and the context answer during one transfer: \<open>None\<close> where the call
  succeeds.
\<close>

record io_env =
  io_truncate :: "err option"
  io_open :: "err option"
  io_seek :: "nat \<Rightarrow> nat \<Rightarrow> err option"
  io_sync :: "err option"
  io_close :: "err option"
  io_read :: "err option"
  io_fence :: "err option"
  io_done :: "foreign option"
  io_now :: int

definition stat_of :: "(string \<Rightarrow> node option) \<Rightarrow> string \<Rightarrow> file_stat" where
  "stat_of fs p = (case fs p of None \<Rightarrow> NotExist | Some Dir \<Rightarrow> IsDir 0 | Some (File c) \<Rightarrow> IsFile (int (length c)))"

definition truncate ::
  "io_env \<Rightarrow> string \<Rightarrow> int \<Rightarrow> (string \<Rightarrow> node option) \<Rightarrow> err + (string \<Rightarrow> node option)" where
  "truncate io p n fs =
     (case fs p of
        None \<Rightarrow>
          if n = 0 then Inr fs
          else Inl (Errorf [Lit ''download: cannot resume from '', Num n, Lit '', '', Str p, Lit '' does not exist''])
      | Some Dir \<Rightarrow> Inl (Errorf [Lit ''truncate '', Str p, Lit '': is a directory''])
      | Some (File c) \<Rightarrow>
          (case io_truncate io of
             Some e \<Rightarrow> Inl e
           | None \<Rightarrow> Inr (fs(p \<mapsto> File (take (nat n) c @ replicate (nat n - length c) (CHR 0x00))))))"

definition open_file :: "io_env \<Rightarrow> string \<Rightarrow> (string \<Rightarrow> node option) \<Rightarrow> err + string" where
  "open_file io p fs =
     (case io_open io of
        Some e \<Rightarrow> Inl e
      | None \<Rightarrow>
          (case fs p of
             None \<Rightarrow> Inr []
           | Some Dir \<Rightarrow> Inl (Errorf [Lit ''open '', Str p, Lit '': is a directory''])
           | Some (File c) \<Rightarrow> Inr c))"

definition read_file :: "io_env \<Rightarrow> string \<Rightarrow> (string \<Rightarrow> node option) \<Rightarrow> err + string" where
  "read_file io p fs =
     (case fs p of
        Some (File c) \<Rightarrow> (case io_read io of Some e \<Rightarrow> Inl e | None \<Rightarrow> Inr c)
      | _ \<Rightarrow> Inl (Errorf [Lit ''open '', Str p, Lit '': no such file'']))"

text \<open>The bytes \<open>hashPrefix\<close> feeds to the hash.\<close>

definition hashPrefix :: "io_env \<Rightarrow> string \<Rightarrow> int \<Rightarrow> (string \<Rightarrow> node option) \<Rightarrow> err + string" where
  "hashPrefix io p n fs =
     bind_result (read_file io p fs) (\<lambda>c.
       if int (length c) < n then Inl (Foreign ''EOF'' False [IoEOF]) else Inr (take (nat n) c))"

definition hashFile :: "(string \<Rightarrow> string) \<Rightarrow> io_env \<Rightarrow> string \<Rightarrow> (string \<Rightarrow> node option) \<Rightarrow> err + string" where
  "hashFile sha io p fs = bind_result (read_file io p fs) (\<lambda>c. Inr (''sha256:'' @ sha c))"

definition held_lease :: "io_env \<Rightarrow> err + 'a \<Rightarrow> err + 'a" where
  "held_lease io r = (case io_fence io of Some e \<Rightarrow> Inl e | None \<Rightarrow> r)"

fun stream_gaps ::
  "('s, 'd) run_env \<Rightarrow> (nat \<Rightarrow> fetch_fun open_env) \<Rightarrow> io_env \<Rightarrow> bool \<Rightarrow> spec \<Rightarrow> bool \<Rightarrow> nat \<Rightarrow> fetch_range list \<Rightarrow> int \<Rightarrow>
   's xfer \<Rightarrow> (int \<times> err option) \<times> 's xfer" where
  "stream_gaps E V io rolling sp known j [] whole x = ((whole, None), x)"
| "stream_gaps E V io rolling sp known j (g # gs) whole x =
     (case fetch E (V j) (io_seek io j) rolling sp known g x of
        ((whole', restarted, e), x') \<Rightarrow>
          if e \<noteq> None \<or> restarted then ((whole', e), x')
          else stream_gaps E V io rolling sp known (Suc j) gs whole' x')"

text \<open>Bytes on disk, digest, version and error, as \<open>stream\<close> and \<open>transfer\<close> return them.\<close>

type_synonym got = "int \<times> string \<times> validators \<times> err option"

definition start_update :: "('s, 'd) run_env \<Rightarrow> spec \<Rightarrow> 'd job_record \<Rightarrow> resume_plan \<Rightarrow> 's \<Rightarrow> 's" where
  "start_update E sp rec p s =
     (let n = ro_total (en_ranges E) (rp_have p); sz = a_size (sp_artifact sp);
          declared = (p_total (j_progress rec) = 0 \<and> 0 < sz)
      in if p_done (j_progress rec) \<noteq> n \<or> declared then
           snd (so_update (en_store E) (en_id E) (en_epoch E) (\<lambda>rr.
             setCheckpoint (en_ranges E) (en_docs E)
               \<lparr>c_prefix = 0, c_validators = rp_validators p, c_verified = rp_have p\<rparr>
               (rr\<lparr>j_progress := (j_progress rr)\<lparr>p_done := n,
                    p_total := (if p_total (j_progress rr) = 0 \<and> 0 < sz then sz else p_total (j_progress rr))\<rparr>\<rparr>)) s)
         else s)"

definition start_xfer :: "string \<Rightarrow> string \<Rightarrow> resume_plan \<Rightarrow> 's \<Rightarrow> 's xfer" where
  "start_xfer content hashed p s =
     \<lparr>x_file = content, x_pos = 0, x_hash = hashed, x_from = 0, x_to = 0, x_disk = 0, x_restarted = False,
      x_proven = rp_have p, x_seen = rp_validators p, x_last = 0, x_known = False, x_latest = 0, x_lost = None,
      x_want = None, x_store = s\<rparr>"

text \<open>The end of \<open>stream\<close>: sync, close, the last checkpoint of a cancelled transfer, and the digest.\<close>

definition finish_stream ::
  "('s, 'd) run_env \<Rightarrow> (string \<Rightarrow> string) \<Rightarrow> io_env \<Rightarrow> string \<Rightarrow> bool \<Rightarrow> 's world \<Rightarrow> (int \<times> err option) \<times> 's xfer \<Rightarrow>
   got \<times> 's world \<times> want option" where
  "finish_stream E sha io partial rolling w res =
     (let ((whole, e), x) = res;
          w = w\<lparr>w_files := (w_files w)(partial \<mapsto> File (x_file x)), w_store := x_store x\<rparr>
      in case io_sync io of
           Some y \<Rightarrow> ((0, [], x_seen x, Some y), w, x_want x)
         | None \<Rightarrow>
             (case io_close io of
                Some y \<Rightarrow> ((0, [], x_seen x, Some y), w, x_want x)
              | None \<Rightarrow>
                  (let (cp, s) = (case (io_done io, e) of
                          (Some d, Some y) \<Rightarrow>
                            if err_is_foreign y d then
                              (case so_update (en_store E) (en_id E) (en_epoch E) (\<lambda>rr.
                                 setCheckpoint (en_ranges E) (en_docs E)
                                   \<lparr>c_prefix = 0, c_validators = x_seen x, c_verified = x_proven x\<rparr>
                                   (rr\<lparr>j_progress := (j_progress rr)\<lparr>p_done := ro_total (en_ranges E) (x_proven x),
                                        p_updated := io_now io\<rparr>\<rparr>)) (w_store w) of
                                 (Inl z, s) \<Rightarrow> (Some z, s) | (Inr _, s) \<Rightarrow> (None, s))
                            else (None, w_store w)
                        | _ \<Rightarrow> (None, w_store w));
                       w = w\<lparr>w_store := s\<rparr>
                   in if cp \<noteq> None then ((whole, [], x_seen x, cp), w, x_want x)
                      else if e \<noteq> None then ((whole, [], x_seen x, e), w, x_want x)
                      else if \<not> rolling then ((whole, [], x_seen x, None), w, x_want x)
                      else ((whole, ''sha256:'' @ sha (x_hash x), x_seen x, None), w, x_want x))))"

definition stream ::
  "('s, 'd) run_env \<Rightarrow> (string \<Rightarrow> string) \<Rightarrow> (nat \<Rightarrow> fetch_fun open_env) \<Rightarrow> io_env \<Rightarrow> spec \<Rightarrow> 'd job_record \<Rightarrow> string \<Rightarrow>
   's world \<Rightarrow> got \<times> 's world \<times> want option" where
  "stream E sha V io sp rec partial w =
     (let fail = (\<lambda>w e. ((0, [], no_validators, Some e), w, None)) in
      case CheckpointOf (en_ranges E) (en_docs E) rec of
        Inl e \<Rightarrow> fail w e
      | Inr cp \<Rightarrow>
          (case planResume (en_ranges E) partial (stat_of (w_files w) partial) cp (a_size (sp_artifact sp)) of
             Inl e \<Rightarrow> fail w e
           | Inr p \<Rightarrow>
               (case truncate io partial (rp_trim p) (w_files w) of
                  Inl e \<Rightarrow> fail w e
                | Inr fs \<Rightarrow>
                    (let w = w\<lparr>w_files := fs, w_store := start_update E sp rec p (w_store w)\<rparr>;
                         rolling = oneStream p;
                         n = ro_prefix (en_ranges E) (rp_have p);
                         known = (0 < p_total (j_progress rec) \<or> 0 < a_size (sp_artifact sp))
                     in case (if rolling \<and> 0 < n then held_lease io (hashPrefix io partial n fs) else Inr []) of
                          Inl e \<Rightarrow> fail w e
                        | Inr hashed \<Rightarrow>
                            (case open_file io partial fs of
                               Inl e \<Rightarrow> fail w e
                             | Inr content \<Rightarrow>
                                 finish_stream E sha io partial rolling w
                                   (stream_gaps E V io rolling sp known 0 (rp_gaps p) n
                                      (start_xfer content hashed p (w_store w))))))))"

section \<open>Getting the bytes\<close>

text \<open>\<open>par\<close> is \<open>parallel\<close>: what it proved, its error, the world it left and what somebody asks for.\<close>

definition hash_finished ::
  "(string \<Rightarrow> string) \<Rightarrow> io_env \<Rightarrow> spec \<Rightarrow> string \<Rightarrow> got \<times> 's world \<times> want option \<Rightarrow> got \<times> 's world \<times> want option" where
  "hash_finished sha io sp partial res =
     (let ((whole, sum, seen, e), w, asks) = res in
      if e \<noteq> None then ((whole, [], seen, e), w, asks)
      else if sum \<noteq> [] \<or> a_digest (sp_artifact sp) = [] then ((whole, sum, seen, None), w, asks)
      else case held_lease io (hashFile sha io partial (w_files w)) of
        Inl y \<Rightarrow> ((whole, [], seen, Some y), w, asks)
      | Inr sum \<Rightarrow> ((whole, sum, seen, None), w, asks))"

definition transfer ::
  "('s, 'd) run_env \<Rightarrow> (string \<Rightarrow> string) \<Rightarrow> (nat \<Rightarrow> fetch_fun open_env) \<Rightarrow> fetch_fun open_env \<Rightarrow> int \<Rightarrow> io_env \<Rightarrow>
   ((source \<times> range_seat) list \<Rightarrow> plan \<Rightarrow> ranges \<Rightarrow> 's world \<Rightarrow> (int \<times> err option) \<times> 's world \<times> want option) \<Rightarrow>
   spec \<Rightarrow> 'd job_record \<Rightarrow> string \<Rightarrow> 's world \<Rightarrow> (got \<times> 's world \<times> want option) option" where
  "transfer E sha V V0 conns io par sp rec partial w =
     (case rangePlan V0 conns sp of
        None \<Rightarrow> None
      | Some (serving, p, True) \<Rightarrow>
          (case resumable (en_ranges E) (en_docs E) rec (stat_of (w_files w) partial) of
             Inl e \<Rightarrow> Some ((0, [], no_validators, Some e), w, None)
           | Inr hv \<Rightarrow>
               (case par serving p hv w of
                  ((whole, e), w', asks) \<Rightarrow>
                    if e \<noteq> None \<or> whole \<noteq> pl_size p then Some ((whole, [], no_validators, e), w', asks)
                    else Some (hash_finished sha io sp partial ((whole, [], no_validators, None), w', asks))))
      | Some (serving, p, False) \<Rightarrow>
          Some (hash_finished sha io sp partial (stream E sha V io sp rec partial w)))"

section \<open>The rolling hash is the hash of the file\<close>

text \<open>
  What a fetcher promises (\<open>Fetcher\<close> and \<open>Result\<close> of \<open>go/fetcher.go\<close>): it counts what the destination
  took since the stream began, and a write the destination cut short ends in an error. Positioning an
  open file at its start does not fail.
\<close>

fun accepted :: "int \<Rightarrow> event list \<Rightarrow> int" where
  "accepted a [] = a"
| "accepted a (Write p n # evs) = accepted (a + int (length (take n p))) evs"
| "accepted a (Restart trunc seek now # evs) = accepted (if trunc = None \<and> seek = None then 0 else a) evs"
| "accepted a (_ # evs) = accepted a evs"

lemma accepted_nonneg: "0 \<le> a \<Longrightarrow> 0 \<le> accepted a evs"
  by (induction a evs rule: accepted.induct) auto

fun clean_event :: "event \<Rightarrow> bool" where
  "clean_event (Write p n) = (length p \<le> n \<or> n = 0)"
| "clean_event (Restart trunc seek now) = (seek = None)"
| "clean_event _ = True"

definition honest_script :: "script \<Rightarrow> bool" where
  "honest_script s = (case s of (evs, w, e) \<Rightarrow>
     w = accepted 0 evs \<and> (list_all clean_event evs \<or> e \<noteq> None \<and> 0 < w))"

definition honest_fetchers :: "fetch_fun open_env \<Rightarrow> bool" where
  "honest_fetchers V \<longleftrightarrow> (\<forall>f\<in>set (op_fetchers V). \<forall>k rq. honest_script (fe_fetch f k rq))"

text \<open>Between sources the hash and the file agree and end where the next request begins; during one they move together.\<close>

definition aligned :: "'s xfer \<Rightarrow> bool" where
  "aligned x \<longleftrightarrow> x_hash x = x_file x \<and> x_from x = int (length (x_file x))"

definition in_step :: "'s xfer \<Rightarrow> bool" where
  "in_step x \<longleftrightarrow> x_hash x = x_file x \<and> x_pos x = length (x_file x) \<and> x_from x + x_disk x = int (length (x_file x))"

lemma write_file_end: "write_file (length f) p f = f @ p"
  by (simp add: write_file_def)

lemma report_frame:
  "x_file (report E wr t q ck x) = x_file x" "x_hash (report E wr t q ck x) = x_hash x"
  "x_pos (report E wr t q ck x) = x_pos x" "x_from (report E wr t q ck x) = x_from x"
  "x_disk (report E wr t q ck x) = x_disk x"
  by (simp_all add: report_def claim_reported_def Let_def split: sum.split prod.split)

lemma fold_landed_frame [simp]:
  "x_file (fold_landed E w x) = x_file x" "x_hash (fold_landed E w x) = x_hash x"
  "x_pos (fold_landed E w x) = x_pos x" "x_from (fold_landed E w x) = x_from x"
  "x_disk (fold_landed E w x) = x_disk x"
  by (simp_all add: fold_landed_def split: sum.split)

lemma in_step_report: "in_step (report E wr t q ck x) = in_step x"
  by (simp add: in_step_def report_frame)

lemma take_write_in_step: "in_step x \<Longrightarrow> length p \<le> n \<or> n = 0 \<Longrightarrow> in_step (take_write True p n x)"
  by (cases "length p \<le> n") (auto simp: in_step_def take_write_def write_file_end)

lemma restart_in_step: "in_step x \<Longrightarrow> in_step (restart E trunc None now x)"
  by (simp add: in_step_def restart_def split: prod.split)

lemma callback_in_step: "in_step x \<Longrightarrow> clean_event ev \<Longrightarrow> in_step (callback E True ev x)"
  by (cases ev) (auto simp: take_write_in_step restart_in_step in_step_report, simp add: in_step_def)

lemma callbacks_in_step: "in_step x \<Longrightarrow> list_all clean_event evs \<Longrightarrow> in_step (callbacks E True evs x)"
  unfolding callbacks_def by (induction evs arbitrary: x) (auto simp: callback_in_step)

lemma callbacks_disk: "x_disk (callbacks E rolling evs x) = accepted (x_disk x) evs"
  unfolding callbacks_def
proof (induction evs arbitrary: x)
  case (Cons ev evs)
  then show ?case
    by (cases ev) (auto simp: take_write_def restart_def report_frame split: prod.split)
qed simp

lemma open_in_step: "aligned x \<Longrightarrow> in_step (open_source x)"
  by (simp add: aligned_def in_step_def open_source_def)

lemma fetch_from_in_step:
  assumes "aligned x" "honest_fetchers V" "fetch_from E V seek True k srcs old x = ((whole, again, None), x')"
  shows "in_step x'"
  using assms
proof (induction srcs arbitrary: k old x)
  case Nil
  then show ?case by (simp add: stopped_def)
next
  case (Cons src srcs)
  have go_on: "fetch_from E V seek True (Suc k) srcs o1 y = ((whole, again, None), x') \<Longrightarrow> aligned y \<Longrightarrow> in_step x'" for o1 y
    using Cons.IH Cons.prems(2) by blast
  show ?case
  proof (cases "op_allows V k = None \<and> (\<exists>f hs. For (op_fetchers V) src (op_requires V) = Some f \<and>
      op_reach V (s_locator src) = None \<and> seek k = None \<and> op_headers V src = Inr hs)")
    case False
    then show ?thesis
      using Cons.prems(3) Cons.prems(1) go_on
      by (auto simp: stopped_def aligned_def split: option.splits sum.splits)
  next
    case True
    then obtain f hs where r: "op_allows V k = None" "For (op_fetchers V) src (op_requires V) = Some f"
      "op_reach V (s_locator src) = None" "seek k = None" "op_headers V src = Inr hs" by blast
    obtain evs w e where s: "fe_fetch f k (fetch_request src hs (open_source x)) = (evs, w, e)" by (metis prod_cases3)
    define y where "y = fold_landed E w (callbacks E True evs (open_source x))"
    have "honest_script (evs, w, e)"
      using Cons.prems(2) For_Some [OF r(2)] s unfolding honest_fetchers_def by metis
    then have honest: "w = accepted 0 evs" "list_all clean_event evs \<or> e \<noteq> None \<and> 0 < w"
      by (auto simp: honest_script_def)
    have clean: "in_step y" if "list_all clean_event evs"
      using callbacks_in_step [OF open_in_step [OF Cons.prems(1)] that] by (simp add: y_def in_step_def)
    have disk: "x_disk y = w"
      using callbacks_disk [of E True evs "open_source x"] honest(1) by (simp add: y_def open_source_def)
    have step: "fetch_from E V seek True k (src # srcs) old x =
        (if x_lost y \<noteq> None then stopped E (x_lost y) y
         else case e of
           None \<Rightarrow> stopped E None y
         | Some z \<Rightarrow>
             if is_cancel z then stopped E (Some z) y
             else let this = Errorf [Lit ''source '', Str (s_scheme src), Lit '': '', Err z] in
               if 0 < w then stopped E (Some this) y
               else fetch_from E V seek True (Suc k) srcs (preferred old this) y)"
      using r s by (cases e) (simp_all add: y_def Let_def)
    show ?thesis
    proof (cases "e = None")
      case True
      with step Cons.prems(3) clean honest(2) show ?thesis by (auto simp: stopped_def split: if_splits)
    next
      case False
      then obtain z where z: "e = Some z" by blast
      show ?thesis
      proof (cases "x_lost y = None \<and> \<not> is_cancel z \<and> \<not> 0 < w")
        case True
        then have c: "in_step y" using honest(2) clean by blast
        have "w = 0" using True disk honest(1) accepted_nonneg [of 0 evs] by simp
        then have "aligned y" using c disk by (simp add: in_step_def aligned_def)
        moreover have "fetch_from E V seek True (Suc k) srcs
            (preferred old (Errorf [Lit ''source '', Str (s_scheme src), Lit '': '', Err z])) y = ((whole, again, None), x')"
          using step Cons.prems(3) True z by (simp add: Let_def)
        ultimately show ?thesis using go_on by blast
      next
        case False
        with step Cons.prems(3) z show ?thesis by (auto simp: stopped_def Let_def split: if_splits)
      qed
    qed
  qed
qed

lemma fetch_in_step:
  assumes "x_hash x = x_file x" "g_from g = int (length (x_file x))" "honest_fetchers V"
    "fetch E V seek True sp known g x = ((whole, again, None), x')"
  shows "in_step x'"
  using fetch_from_in_step [OF _ assms(3), of "x\<lparr>x_from := g_from g, x_to := g_to g, x_restarted := False, x_disk := 0,
      x_last := g_from g, x_known := known, x_lost := None\<rparr>"] assms
  by (simp add: fetch_def aligned_def)

lemma truncate_length:
  assumes "truncate io p n fs = Inr fs'" "0 \<le> n"
  shows "open_file io p fs' = Inr c \<Longrightarrow> int (length c) = n"
    and "hashPrefix io p n fs' = Inr h \<Longrightarrow> open_file io p fs' = Inr c \<Longrightarrow> h = c"
  using assms
  by (auto simp: truncate_def open_file_def hashPrefix_def read_file_def bind_result_Inr_iff min_def
      split: option.splits node.splits if_splits)

context range_layer
begin

lemma oneStream_gap:
  assumes "planResume R partial st cp sz = Inr p" "checkpoint_wf cp" "oneStream p"
  shows "\<exists>g. rp_gaps p = [g] \<and> g_from g = rp_trim p" and "ro_prefix R (rp_have p) = rp_trim p" and "0 \<le> rp_trim p"
proof -
  obtain g where g: "rp_gaps p = [g]" using assms(3) by (auto simp: oneStream_def split: list.splits)
  note a = oneStream_appends [OF assms]
  show "\<exists>g. rp_gaps p = [g] \<and> g_from g = rp_trim p" using g a(2) by (simp add: plan_from_def)
  have can: "canonical (rp_have p)" using planResume_cases [OF assms(1,2)] by (auto simp: fresh_plan_def)
  have shape: "rp_have p = [] \<and> rp_trim p = 0 \<or> (\<exists>n. rp_have p = [Range 0 n] \<and> rp_trim p = n \<and> 0 < n)"
    using planResume_cases [OF assms(1,2)] assms(3)
    by (cases "rp_have p" rule: prefixShaped.cases; cases "hd (rp_have p)") (auto simp: fresh_plan_def oneStream_def)
  then show "ro_prefix R (rp_have p) = rp_trim p" "0 \<le> rp_trim p" using prefix_law [OF can] by auto
qed

text \<open>What \<open>stream\<close> reports as a digest is the digest of the file it leaves.\<close>

lemma stream_digest:
  assumes "\<And>cp. CheckpointOf (en_ranges E) (en_docs E) rec = Inr cp \<Longrightarrow> checkpoint_wf cp" "en_ranges E = R"
    and "\<And>j. honest_fetchers (V j)"
    and "stream E sha V io sp rec partial w = ((whole, dg, seen, None), w', asks)" "dg \<noteq> []"
  shows "\<exists>c. w_files w' partial = Some (File c) \<and> dg = ''sha256:'' @ sha c"
proof -
  obtain cp where cp: "CheckpointOf (en_ranges E) (en_docs E) rec = Inr cp"
    using assms(4) by (auto simp: stream_def Let_def split: sum.splits)
  obtain p where p: "planResume R partial (stat_of (w_files w) partial) cp (a_size (sp_artifact sp)) = Inr p"
    using assms(2,4) cp by (auto simp: stream_def Let_def split: sum.splits)
  obtain fs where fs: "truncate io partial (rp_trim p) (w_files w) = Inr fs"
    using assms(2,4) cp p by (auto simp: stream_def Let_def split: sum.splits)
  define w1 where "w1 = w\<lparr>w_files := fs, w_store := start_update E sp rec p (w_store w)\<rparr>"
  define known where "known = (0 < p_total (j_progress rec) \<or> 0 < a_size (sp_artifact sp))"
  obtain hashed content where h:
    "(if oneStream p \<and> 0 < ro_prefix R (rp_have p) then held_lease io (hashPrefix io partial (ro_prefix R (rp_have p)) fs)
      else Inr []) = Inr hashed" "open_file io partial fs = Inr content"
    "finish_stream E sha io partial (oneStream p) w1
       (stream_gaps E V io (oneStream p) sp known 0 (rp_gaps p) (ro_prefix R (rp_have p))
         (start_xfer content hashed p (w_store w1))) = ((whole, dg, seen, None), w', asks)"
    using assms(2,4) cp p fs by (auto simp: stream_def Let_def w1_def known_def split: sum.splits)
  obtain whole1 e1 x1 where g: "stream_gaps E V io (oneStream p) sp known 0 (rp_gaps p) (ro_prefix R (rp_have p))
         (start_xfer content hashed p (w_store w1)) = ((whole1, e1), x1)" by (metis surj_pair)
  have fin: "oneStream p" "e1 = None" "dg = ''sha256:'' @ sha (x_hash x1)" "w_files w' partial = Some (File (x_file x1))"
    using h(3) g assms(5) by (auto simp: finish_stream_def Let_def split: option.splits if_splits prod.splits sum.splits)
  note one = oneStream_gap [OF p assms(1) [OF cp] fin(1)]
  obtain gap where gap: "rp_gaps p = [gap]" "g_from gap = rp_trim p" using one(1) by blast
  have len: "int (length content) = rp_trim p" using truncate_length(1) [OF fs one(3) h(2)] .
  have hc: "hashed = content"
  proof (cases "0 < ro_prefix R (rp_have p)")
    case True
    then have "hashPrefix io partial (rp_trim p) fs = Inr hashed"
      using h(1) fin(1) one(2) by (auto simp: held_lease_def split: option.splits)
    then show ?thesis using truncate_length(2) [OF fs one(3) _ h(2)] by blast
  next
    case False
    then have "content = []" using len one(2) by (metis length_0_conv of_nat_0_less_iff neq0_conv)
    with h(1) False show ?thesis by simp
  qed
  obtain whole2 again where f: "fetch E (V 0) (io_seek io 0) True sp known gap (start_xfer content hashed p (w_store w1)) =
      ((whole2, again, None), x1)"
    using g gap(1) fin(1,2) by (auto split: prod.splits if_splits)
  have "in_step x1"
    using fetch_in_step [OF _ _ assms(3) f] hc gap(2) len by (simp add: start_xfer_def)
  with fin(3,4) show ?thesis by (simp add: in_step_def)
qed

lemma transfer_digest:
  assumes "\<And>cp. CheckpointOf (en_ranges E) (en_docs E) rec = Inr cp \<Longrightarrow> checkpoint_wf cp" "en_ranges E = R"
    and "\<And>j. honest_fetchers (V j)"
    and "transfer E sha V V0 conns io par sp rec partial w = Some ((whole, dg, seen, None), w', asks)" "dg \<noteq> []"
  shows "\<exists>c. w_files w' partial = Some (File c) \<and> dg = ''sha256:'' @ sha c"
proof -
  have hashed: "\<exists>c. w_files w' partial = Some (File c) \<and> dg = ''sha256:'' @ sha c"
    if "hash_finished sha io sp partial ((wh, [], sn, None), w2, a) = ((whole, dg, seen, None), w', asks)" for wh sn w2 a
    using that assms(5)
    by (auto simp: hash_finished_def hashFile_def held_lease_def read_file_def Let_def bind_result_Inr_iff
        split: if_splits sum.splits option.splits node.splits)
  obtain serving p b where r: "rangePlan V0 conns sp = Some (serving, p, b)"
    using assms(4) by (auto simp: transfer_def split: option.splits)
  show ?thesis
  proof (cases b)
    case True
    with assms(4,5) r hashed show ?thesis
      by (auto simp: transfer_def split: sum.splits prod.splits if_splits)
  next
    case False
    obtain wh dg1 sn e1 w1 a1 where s: "stream E sha V io sp rec partial w = ((wh, dg1, sn, e1), w1, a1)"
      by (metis prod.collapse)
    have h: "hash_finished sha io sp partial ((wh, dg1, sn, e1), w1, a1) = ((whole, dg, seen, None), w', asks)"
      using assms(4) r False s by (simp add: transfer_def)
    have e1: "e1 = None" using h by (auto simp: hash_finished_def split: if_splits)
    show ?thesis
    proof (cases "dg1 = []")
      case True
      with h e1 hashed show ?thesis by simp
    next
      case False
      with h e1 have "wh = whole" "dg1 = dg" "sn = seen" "w1 = w'" "a1 = asks" by (auto simp: hash_finished_def)
      with s e1 have "stream E sha V io sp rec partial w = ((whole, dg, seen, None), w', asks)" by simp
      from stream_digest [OF assms(1,2,3) this assms(5)] show ?thesis .
    qed
  qed
qed

end

end
