(* ===== verification/Network_Gate.thy ===== *)
theory Network_Gate
  imports Record_State Fetch_Registry
begin

text \<open>
  The network constraint of a run: the fan-out of one platform notification to its watchers (\<open>hub\<close> of
  \<open>go/netcost/netcost.go\<close>), and on top of it the gate every source open asks (\<open>go/network.go\<close>).

  A subscription belongs to the watch library; of it only what is posted is modelled, one log per
  subscription. The lemmas show that a watcher sees exactly the changes since it subscribed, each
  once, and that a gate which has tripped stays shut.
\<close>

section \<open>The hub\<close>

datatype cost = Unknown | Unmetered | Metered | CostUnavailable

record hub =
  hu_cost :: cost
  hu_stamp :: nat
  hu_subs :: "nat list"
  hu_closed :: bool
  hu_posts :: "nat \<Rightarrow> (cost \<times> nat) list"

definition newHub :: "cost \<Rightarrow> hub" where
  "newHub initial = \<lparr>hu_cost = initial, hu_stamp = 0, hu_subs = [], hu_closed = False, hu_posts = (\<lambda>_. [])\<rparr>"

definition hub_set :: "cost \<Rightarrow> hub \<Rightarrow> hub" where
  "hub_set c h =
     (if hu_closed h \<or> c = hu_cost h then h
      else let stamp = Suc (hu_stamp h) in
        h\<lparr>hu_cost := c, hu_stamp := stamp,
          hu_posts := (\<lambda>i. if i \<in> set (hu_subs h) then hu_posts h i @ [(c, stamp)] else hu_posts h i)\<rparr>)"

text \<open>\<open>Watch\<close>: a new subscription starts with the present cost. The name \<open>i\<close> is not in use.\<close>

definition hub_watch :: "nat \<Rightarrow> hub \<Rightarrow> hub" where
  "hub_watch i h =
     h\<lparr>hu_subs := (if hu_closed h then hu_subs h else hu_subs h @ [i]),
       hu_posts := (hu_posts h)(i := [(hu_cost h, hu_stamp h)])\<rparr>"

definition hub_forget :: "nat \<Rightarrow> hub \<Rightarrow> hub" where
  "hub_forget i h = h\<lparr>hu_subs := removeAll i (hu_subs h)\<rparr>"

definition hub_close :: "hub \<Rightarrow> hub" where
  "hub_close h = (if hu_closed h then h else h\<lparr>hu_closed := True, hu_subs := []\<rparr>)"

datatype hub_op = SetCost cost | Watch nat | Forget nat | Close

fun hub_run :: "hub_op \<Rightarrow> hub \<Rightarrow> hub" where
  "hub_run (SetCost c) h = hub_set c h"
| "hub_run (Watch i) h = hub_watch i h"
| "hub_run (Forget i) h = hub_forget i h"
| "hub_run Close h = hub_close h"

text \<open>
  What the hub promises, without stamps or logs of its own: the notices so far, of which a watcher is
  told the changes since it subscribed.
\<close>

record notices =
  no_costs :: "cost list"
  no_live :: "nat list"
  no_open :: bool
  no_seen :: "nat \<Rightarrow> cost list"

fun changed :: "cost list \<Rightarrow> cost list" where
  "changed cs = remdups_adj cs"

fun spec_run :: "hub_op \<Rightarrow> notices \<Rightarrow> notices" where
  "spec_run (SetCost c) n =
     (if \<not> no_open n then n
      else n\<lparr>no_costs := no_costs n @ [c],
             no_seen := (\<lambda>i. if i \<in> set (no_live n) then changed (no_seen n i @ [c]) else no_seen n i)\<rparr>)"
| "spec_run (Watch i) n =
     n\<lparr>no_live := (if no_open n then no_live n @ [i] else no_live n), no_seen := (no_seen n)(i := [last (no_costs n)])\<rparr>"
| "spec_run (Forget i) n = n\<lparr>no_live := removeAll i (no_live n)\<rparr>"
| "spec_run Close n = n\<lparr>no_open := False, no_live := []\<rparr>"

definition spec_new :: "cost \<Rightarrow> notices" where
  "spec_new c = \<lparr>no_costs = [c], no_live = [], no_open = True, no_seen = (\<lambda>_. [])\<rparr>"

definition hub_abs :: "hub \<Rightarrow> notices \<Rightarrow> bool" where
  "hub_abs h n \<longleftrightarrow> no_costs n \<noteq> [] \<and> last (no_costs n) = hu_cost h \<and> no_live n = hu_subs h \<and> no_open n = (\<not> hu_closed h) \<and>
     (hu_closed h \<longrightarrow> hu_subs h = []) \<and>
     Suc (hu_stamp h) = length (changed (no_costs n)) \<and>
     (\<forall>i. map fst (hu_posts h i) = no_seen n i) \<and>
     (\<forall>i\<in>set (hu_subs h). hu_posts h i \<noteq> [] \<and> fst (last (hu_posts h i)) = hu_cost h \<and>
        distinct_adj (map fst (hu_posts h i)))"

lemma remdups_adj_snoc: "xs \<noteq> [] \<Longrightarrow> remdups_adj (xs @ [c]) = (if c = last xs then remdups_adj xs else remdups_adj xs @ [c])"
  by (cases xs rule: rev_cases) (auto simp: remdups_adj_append_two)

lemma remdups_adj_same: "distinct_adj xs \<Longrightarrow> remdups_adj xs = xs"
  by (induction xs rule: remdups_adj.induct) auto

lemma hub_abs_new: "hub_abs (newHub c) (spec_new c)"
  by (simp add: hub_abs_def newHub_def spec_new_def)

lemma hub_posts_set:
  assumes "hub_abs h n" "i \<in> set (hu_subs h)"
  shows "remdups_adj (map fst (hu_posts h i) @ [c]) =
      (if c = hu_cost h then map fst (hu_posts h i) else map fst (hu_posts h i) @ [c])"
    and "c \<noteq> hu_cost h \<Longrightarrow> distinct_adj (map fst (hu_posts h i) @ [c])"
proof -
  let ?xs = "map fst (hu_posts h i)"
  have xs: "?xs \<noteq> []" "last ?xs = hu_cost h" "distinct_adj ?xs"
  proof -
    have "\<forall>i\<in>set (hu_subs h). hu_posts h i \<noteq> [] \<and> fst (last (hu_posts h i)) = hu_cost h \<and>
        distinct_adj (map fst (hu_posts h i))"
      using assms(1) unfolding hub_abs_def by (elim conjE)
    then show "?xs \<noteq> []" "last ?xs = hu_cost h" "distinct_adj ?xs"
      using assms(2) by (simp_all add: last_map)
  qed
  then show "remdups_adj (?xs @ [c]) = (if c = hu_cost h then ?xs else ?xs @ [c])"
    by (simp only: remdups_adj_snoc [OF xs(1)] remdups_adj_same [OF xs(3)])
  show "c \<noteq> hu_cost h \<Longrightarrow> distinct_adj (?xs @ [c])"
    using xs by (simp add: distinct_adj_append_iff)
qed

lemma hub_set_abs:
  assumes "hub_abs h n"
  shows "hub_abs (hub_set c h) (spec_run (SetCost c) n)"
proof (cases "hu_closed h \<or> c = hu_cost h")
  case True
  have "no_seen n i = map fst (hu_posts h i)" for i using assms by (simp add: hub_abs_def)
  then have same: "c = hu_cost h \<Longrightarrow> i \<in> set (hu_subs h) \<Longrightarrow> remdups_adj (no_seen n i @ [hu_cost h]) = no_seen n i" for i
    using hub_posts_set(1) [OF assms, of i c] by simp
  show ?thesis using assms True by (auto simp: hub_abs_def hub_set_def remdups_adj_snoc same)
next
  case False
  have seen: "no_seen n i = map fst (hu_posts h i)" for i using assms by (simp add: hub_abs_def)
  have "\<forall>i\<in>set (hu_subs h). changed (no_seen n i @ [c]) = map fst (hu_posts h i) @ [c] \<and>
      distinct_adj (map fst (hu_posts h i) @ [c])"
    using hub_posts_set [OF assms, of _ c] False by (simp add: seen)
  then show ?thesis
    using assms False by (auto simp: hub_abs_def hub_set_def Let_def remdups_adj_snoc)
qed

lemma hub_run_abs: "hub_abs h n \<Longrightarrow> hub_abs (hub_run op1 h) (spec_run op1 n)"
  by (cases op1) (simp_all add: hub_set_abs del: spec_run.simps(1),
      auto simp: hub_abs_def hub_watch_def hub_forget_def hub_close_def)

lemma hub_refines: "hub_abs (fold hub_run ops (newHub c)) (fold spec_run ops (spec_new c))"
proof -
  have "hub_abs h n \<Longrightarrow> hub_abs (fold hub_run ops h) (fold spec_run ops n)" for h n
    by (induction ops arbitrary: h n) (simp_all add: hub_run_abs del: spec_run.simps hub_run.simps)
  then show ?thesis by (simp add: hub_abs_new)
qed


section \<open>Starting a run's constraint\<close>

text \<open>
  The cost source of a runner: what the first \<open>Next\<close> of a new watcher answers. \<open>ctx\<close> is the error of
  the run's context at that moment. The result says whether the run has a gate.
\<close>

definition gateNetwork ::
  "spec \<Rightarrow> string list \<Rightarrow> (err + cost) option \<Rightarrow> err option \<Rightarrow> err + bool" where
  "gateNetwork sp requires network ctx =
     (if \<not> WantsUnmetered sp \<and> CapNetworkCost \<notin> set requires then Inr False
      else case network of
        None \<Rightarrow> Inl (Var ErrNoNetworkCost)
      | Some first \<Rightarrow>
          if \<not> WantsUnmetered sp then Inr False
          else (case first of
             Inl _ \<Rightarrow> Inl (case ctx of Some e \<Rightarrow> e | None \<Rightarrow> Var ErrNoNetworkCost)
           | Inr Metered \<Rightarrow> Inl (Var ErrWaiting)
           | Inr CostUnavailable \<Rightarrow> Inl (Var ErrNetworkUnavailable)
           | Inr _ \<Rightarrow> Inr True))"

lemma gateNetwork_open: "gateNetwork sp rs net ctx = Inr g \<Longrightarrow> WantsUnmetered sp \<Longrightarrow>
    g \<and> (net = Some (Inr Unknown) \<or> net = Some (Inr Unmetered))"
  by (auto simp: gateNetwork_def split: if_splits option.splits sum.splits cost.splits)

lemma gateNetwork_unconstrained: "\<not> WantsUnmetered sp \<Longrightarrow> CapNetworkCost \<notin> set rs \<Longrightarrow> gateNetwork sp rs net ctx = Inr False"
  by (simp add: gateNetwork_def)

section \<open>The gate while the run goes on\<close>

text \<open>
  The watcher goroutine and the run interleave. \<open>gt_cost\<close> is the cost the source reports now,
  \<open>gt_watching\<close> whether the watcher still waits for a notice, \<open>gt_opened\<close> what the source reported at
  each open that was allowed.
\<close>

record gate =
  gt_cost :: cost
  gt_watching :: bool
  gt_tripped :: bool
  gt_cancelled :: bool
  gt_opened :: "cost list"

definition gate_start :: "cost \<Rightarrow> gate" where
  "gate_start c = \<lparr>gt_cost = c, gt_watching = True, gt_tripped = False, gt_cancelled = False, gt_opened = []\<rparr>"

definition trip :: "gate \<Rightarrow> gate" where
  "trip g = g\<lparr>gt_tripped := True, gt_cancelled := True\<rparr>"

definition gate_held :: "gate option \<Rightarrow> bool" where
  "gate_held g = (case g of None \<Rightarrow> False | Some g \<Rightarrow> gt_tripped g)"

text \<open>\<open>networkAllows\<close>: a run without a gate is always allowed.\<close>

definition networkAllows :: "gate option \<Rightarrow> err option \<times> gate option" where
  "networkAllows g =
     (case g of
        None \<Rightarrow> (None, None)
      | Some g \<Rightarrow>
          if gt_tripped g \<or> gt_cost g = Metered then (Some (Var ErrWaiting), Some (trip g)) else (None, Some g))"

text \<open>
  The cost changes; the watcher is told of some cost, not always the present one; its context is
  cancelled or its source closed; a source is about to be opened; the run ends (\<open>stop\<close>).
\<close>

inductive gate_step :: "gate \<Rightarrow> gate \<Rightarrow> bool" where
  changes: "gate_step g (g\<lparr>gt_cost := c\<rparr>)"
| told: "gt_watching g \<Longrightarrow> \<not> gt_cancelled g \<Longrightarrow>
    gate_step g (if c = Metered then (trip g)\<lparr>gt_watching := False\<rparr> else g)"
| watcher_ends: "gt_watching g \<Longrightarrow> gate_step g (g\<lparr>gt_watching := False\<rparr>)"
| opens: "networkAllows (Some g) = (None, Some g') \<Longrightarrow> gate_step g (g'\<lparr>gt_opened := gt_opened g @ [gt_cost g]\<rparr>)"
| refused: "networkAllows (Some g) = (Some e, Some g') \<Longrightarrow> gate_step g g'"
| stops: "gate_step g (g\<lparr>gt_cancelled := True, gt_watching := False\<rparr>)"

inductive_cases gate_stepE: "gate_step g g'"

text \<open>Nothing is opened on a metered path, and a gate that tripped stays shut.\<close>

definition gate_inv :: "gate \<Rightarrow> bool" where
  "gate_inv g \<longleftrightarrow> Metered \<notin> set (gt_opened g) \<and> (gt_tripped g \<longrightarrow> gt_cancelled g)"

lemma gate_inv_start: "gate_inv (gate_start c)"
  by (simp add: gate_inv_def gate_start_def)

lemma gate_inv_step: "gate_step g g' \<Longrightarrow> gate_inv g \<Longrightarrow> gate_inv g'"
  by (erule gate_stepE) (auto simp: gate_inv_def trip_def networkAllows_def split: if_splits)

lemma gate_run_inv: "gate_step\<^sup>*\<^sup>* g g' \<Longrightarrow> gate_inv g \<Longrightarrow> gate_inv g'"
  by (induction rule: rtranclp_induct) (auto intro: gate_inv_step)

lemma gate_shut_step: "gate_step g g' \<Longrightarrow> gt_tripped g \<Longrightarrow> gt_tripped g' \<and> gt_opened g' = gt_opened g"
  by (erule gate_stepE) (auto simp: trip_def networkAllows_def split: if_splits)

lemma gate_shut: "gate_step\<^sup>*\<^sup>* g g' \<Longrightarrow> gt_tripped g \<Longrightarrow> gt_tripped g' \<and> gt_opened g' = gt_opened g"
  by (induction rule: rtranclp_induct) (auto dest: gate_shut_step)

section \<open>A record that waits\<close>

text \<open>\<open>networkHolds\<close>; \<open>spec\<close> is \<open>SpecOf\<close> of the record.\<close>

definition networkHolds ::
  "(string \<Rightarrow> string option) \<Rightarrow> cost option \<Rightarrow> (err + spec) \<Rightarrow> 'd job_record \<Rightarrow> bool" where
  "networkHolds uni network spec rec =
     (case network of
        None \<Rightarrow> False
      | Some c \<Rightarrow>
          if j_want rec \<noteq> WantRun then False
          else (case spec of
             Inl _ \<Rightarrow> False
           | Inr sp \<Rightarrow>
               if \<not> WantsUnmetered sp then False
               else (case c of
                  Metered \<Rightarrow> Waiting uni rec = WaitingNetworkMetered
                | CostUnavailable \<Rightarrow> Waiting uni rec = WaitingNetworkUnavailable
                | _ \<Rightarrow> False)))"

text \<open>
  A run refused by the gate leaves a record that is held back for exactly as long as the source says what
  it said then.
\<close>

lemma waitingWord_gate [simp]:
  "waitingWord (Var ErrWaiting) = WaitingNetworkMetered"
  "waitingWord (Var ErrNetworkUnavailable) = WaitingNetworkUnavailable"
  by (simp_all add: waitingWord_def err_is_def)

lemma waiting_words_differ [simp]: "WaitingNetworkMetered \<noteq> WaitingNetworkUnavailable"
  "WaitingNetworkUnavailable \<noteq> WaitingNetworkMetered"
  by (simp_all add: WaitingNetworkMetered_def WaitingNetworkUnavailable_def)

lemma held_while_refused:
  assumes "gateNetwork sp rs (Some (Inr c)) ctx = Inl e" "j_want rec = WantRun"
  shows "networkHolds u (Some c') (Inr sp) (setWaiting v (waitingWord e) rec) \<longleftrightarrow> c' = c"
proof -
  have sp: "WantsUnmetered sp" and c: "c = Metered \<and> e = Var ErrWaiting \<or> c = CostUnavailable \<and> e = Var ErrNetworkUnavailable"
    using assms(1) by (auto simp: gateNetwork_def split: if_splits cost.splits)
  have w: "Waiting u (setWaiting v (waitingWord e) rec) = waitingWord e"
    by (rule Waiting_set [OF waiting_words_plain])
  have j: "j_want (setWaiting v (waitingWord e) rec) = WantRun" using assms(2) by (simp add: setWaiting_def)
  show ?thesis using c by (cases c') (auto simp: networkHolds_def sp w j)
qed

end
