(* ===== verification/Runner.thy ===== *)
theory Runner
  imports Streaming Network_Gate
begin

text \<open>
  One run of a job, from the claim to the release: \<open>Run\<close>, \<open>run\<close> and \<open>deliver\<close> of \<open>go/runner.go\<close> and
  \<open>proven\<close>, \<open>held\<close> of \<open>go/store.go\<close>.

  The configuration of the runner and what the machine answers during the run are two records;
  \<open>Streaming.transfer\<close> gets the bytes. The theory shows what a run that reports no error has done, and
  what a run that reports one has written down.
\<close>

section \<open>The runner and its machine\<close>

text \<open>
  \<open>rc_low\<close>, \<open>rc_qt\<close>, \<open>rc_enc\<close>, \<open>rc_dec\<close>: lower case of text that is not ASCII, \<open>%q\<close>, and the rest of
  \<open>encoding/json\<close>; \<open>rc_same\<close>: \<open>os.SameFile\<close>; \<open>rc_refusal\<close>: \<open>Delegators.refusal\<close>.
\<close>

record ('s, 'd) run_conf =
  rc_low :: "string \<Rightarrow> string"
  rc_qt :: "string \<Rightarrow> string"
  rc_enc :: "string \<Rightarrow> string"
  rc_dec :: "string \<Rightarrow> string option"
  rc_names :: name_ops
  rc_root :: "string option"
  rc_shared :: bool
  rc_conns :: int
  rc_network :: "(err + cost) option"
  rc_list :: "'s \<Rightarrow> err + 'd job_record list"
  rc_refusal :: "err option"
  rc_same :: "string \<Rightarrow> string \<Rightarrow> bool"
  rc_terminal :: "(err \<Rightarrow> bool) option"
  rc_cause :: bool

record deliver_io =
  dv_mkdir :: "err option"
  dv_rename :: "err option"
  dv_open :: "err option"
  dv_create :: "err option"
  dv_copy :: "(nat \<times> err) option"
  dv_close :: "err option"
  dv_remove :: "err option"

text \<open>
  The context's error when the network is asked, \<open>MkdirAll\<close> of the partial, what the intent watcher
  found (a fence, or a request later than any the transfer saw), whether the gate tripped, removing a
  bad partial, and the end of the host's context. \<open>rv_others\<close> is what everybody else writes into the
  store while the bytes move.
\<close>

record 's run_events =
  rv_ctx :: "err option"
  rv_mkdir :: "err option"
  rv_fence :: "err option"
  rv_noticed :: "want option"
  rv_tripped :: bool
  rv_sweep :: "err option"
  rv_done :: "foreign option"
  rv_now :: int
  rv_others :: "'s \<Rightarrow> 's"

section \<open>Bytes this store has proven\<close>

definition held :: "('s, 'd) run_conf \<Rightarrow> string list \<Rightarrow> string \<Rightarrow> bool" where
  "held C seen p = list_ex (\<lambda>s. rc_same C s p) seen"

definition proven_file ::
  "('s, 'd) run_conf \<Rightarrow> 'd doc_ops \<Rightarrow> (string \<Rightarrow> node option) \<Rightarrow> string \<Rightarrow> string \<Rightarrow> 'd job_record \<Rightarrow> string option" where
  "proven_file C D fs digest excluded r =
     (if j_id r = excluded \<or> j_kind r \<noteq> Kind \<or> j_state r \<noteq> StateTransferred \<and> j_state r \<noteq> StateComplete then None
      else case SpecOf D r of
        Inl _ \<Rightarrow> None
      | Inr sp \<Rightarrow>
          if \<not> sameDigest (rc_low C) (a_digest (sp_artifact sp)) digest then None
          else (case LocalSink (rc_names C) (rc_root C) (j_id r) (sp_sink sp) of
             Inl _ \<Rightarrow> None
           | Inr (_, final) \<Rightarrow>
               let sz = (if a_size (sp_artifact sp) \<le> 0 then p_done (j_progress r) else a_size (sp_artifact sp))
               in if 0 < sz \<and> stat_of fs final = IsFile sz then Some final else None))"

fun proven_from ::
  "('s, 'd) run_conf \<Rightarrow> 'd doc_ops \<Rightarrow> (string \<Rightarrow> node option) \<Rightarrow> string \<Rightarrow> string \<Rightarrow> string list \<Rightarrow> 'd job_record list \<Rightarrow> source list" where
  "proven_from C D fs digest excluded seen [] = []"
| "proven_from C D fs digest excluded seen (r # rs) =
     (case proven_file C D fs digest excluded r of
        None \<Rightarrow> proven_from C D fs digest excluded seen rs
      | Some final \<Rightarrow>
          if held C seen final then proven_from C D fs digest excluded seen rs
          else \<lparr>s_scheme = ''file'', s_locator = final,
                s_attrs = [(''store'', ''job''), (''job'', j_id r)], s_headers = [],
                s_priority = - 200 + int (length seen)\<rparr> #
               proven_from C D fs digest excluded (seen @ [final]) rs)"

definition proven ::
  "('s, 'd) run_conf \<Rightarrow> 'd doc_ops \<Rightarrow> 's world \<Rightarrow> string \<Rightarrow> string \<Rightarrow> source list" where
  "proven C D w digest excluded =
     (if digest = [] then []
      else case rc_list C (w_store w) of
        Inl _ \<Rightarrow> []
      | Inr rs \<Rightarrow> proven_from C D (w_files w) digest excluded [] rs)"

section \<open>Moving the bytes into place\<close>

definition copy_over ::
  "deliver_io \<Rightarrow> string \<Rightarrow> string \<Rightarrow> string \<Rightarrow> (string \<Rightarrow> node option) \<Rightarrow> err option \<times> (string \<Rightarrow> node option)" where
  "copy_over dv partial final content fs =
     (if dv_open dv \<noteq> None then (dv_open dv, fs)
      else if dv_create dv \<noteq> None then (dv_create dv, fs)
      else if fs final = Some Dir then (Some (Errorf [Lit ''open '', Str final, Lit '': is a directory'']), fs)
      else let content = (if partial = final then [] else content) in
        case dv_copy dv of
          Some (n, e) \<Rightarrow> (Some e, fs(final \<mapsto> File (take n content)))
        | None \<Rightarrow>
            let fs = fs(final \<mapsto> File content) in
            if dv_close dv \<noteq> None then (dv_close dv, fs)
            else if dv_remove dv \<noteq> None then (dv_remove dv, fs)
            else (None, fs(partial := None)))"

definition deliver ::
  "deliver_io \<Rightarrow> string \<Rightarrow> string \<Rightarrow> (string \<Rightarrow> node option) \<Rightarrow> err option \<times> (string \<Rightarrow> node option)" where
  "deliver dv partial final fs =
     (if dv_mkdir dv \<noteq> None then (dv_mkdir dv, fs)
      else case fs partial of
        Some (File content) \<Rightarrow>
          if dv_rename dv = None \<and> fs final \<noteq> Some Dir then (None, fs(partial := None, final \<mapsto> File content))
          else copy_over dv partial final content fs
      | _ \<Rightarrow> (Some (Errorf [Lit ''open '', Str partial, Lit '': no such file'']), fs))"

definition removeEmptyPartial :: "string \<Rightarrow> (string \<Rightarrow> node option) \<Rightarrow> (string \<Rightarrow> node option)" where
  "removeEmptyPartial partial fs = (if stat_of fs partial = IsFile 0 then fs(partial := None) else fs)"

section \<open>Before the transfer\<close>

definition clear_last ::
  "('s, 'd) run_conf \<Rightarrow> ('s, 'd) run_env \<Rightarrow> 'd job_record \<Rightarrow> 's \<Rightarrow> err option \<times> 's" where
  "clear_last C E rec s =
     (if Waiting (rc_dec C) rec \<noteq> [] \<or> LastFailure rec \<noteq> None then
        (case so_update (en_store E) (en_id E) (en_epoch E) (\<lambda>rr. Inr (clearFailure (clearWaiting rr))) s of
           (Inl e, s') \<Rightarrow> (Some e, s') | (Inr _, s') \<Rightarrow> (None, s'))
      else (None, s))"

text \<open>What \<open>run\<close> settles before any byte moves: the spec with the proven sources, the two paths, the gate.\<close>

type_synonym start = "spec \<times> string \<times> string \<times> bool"

definition run_start ::
  "('s, 'd) run_conf \<Rightarrow> ('s, 'd) run_env \<Rightarrow> 's run_events \<Rightarrow> 'd job_record \<Rightarrow> 's world \<Rightarrow>
   (err option \<times> 's world) + (start \<times> 's world)" where
  "run_start C E ev rec w =
     (if j_want rec \<noteq> WantRun then
        (case honour (en_store E) (j_want rec) (en_id E) (en_epoch E) (w_store w) of
           (e, s) \<Rightarrow> Inl (e, w\<lparr>w_store := s\<rparr>))
      else case SpecOf (en_docs E) rec of
        Inl e \<Rightarrow> Inl (Some e, w)
      | Inr sp \<Rightarrow>
          if CapRecoverableSubmission \<in> set (j_requires rec) then
            Inl (Some (case rc_refusal C of Some e \<Rightarrow> e | None \<Rightarrow> Var ErrRecoverableSubmissionUnavailable), w)
          else (let sp = sp\<lparr>sp_sources := proven C (en_docs E) w (a_digest (sp_artifact sp)) (j_id rec) @ sp_sources sp\<rparr>
            in case gateNetwork sp (j_requires rec) (rc_network C) (rv_ctx ev) of
              Inl e \<Rightarrow> Inl (Some e, w)
            | Inr gate \<Rightarrow>
                (case clear_last C E rec (w_store w) of
                   (Some e, s) \<Rightarrow> Inl (Some e, w\<lparr>w_store := s\<rparr>)
                 | (None, s) \<Rightarrow>
                     (case LocalSink (rc_names C) (rc_root C) (j_id rec) (sp_sink sp) of
                        Inl e \<Rightarrow> Inl (Some e, w\<lparr>w_store := s\<rparr>)
                      | Inr (partial, final) \<Rightarrow>
                          (case refuseUnportableSink (rc_shared C) (sp_sink sp) of
                             Some e \<Rightarrow> Inl (Some e, w\<lparr>w_store := s\<rparr>)
                           | None \<Rightarrow>
                               (case rv_mkdir ev of
                                  Some e \<Rightarrow> Inl (Some e, w\<lparr>w_store := s\<rparr>)
                                | None \<Rightarrow> Inr ((sp, partial, final, gate), w\<lparr>w_store := s\<rparr>)))))))"

section \<open>After the transfer\<close>

definition wrong_length :: "spec \<Rightarrow> int \<Rightarrow> err" where
  "wrong_length sp whole =
     Errorf [Err (Var (if a_size (sp_artifact sp) < whole then ErrOversize else ErrShortTransfer)),
       Lit '': got '', Num whole, Lit '' bytes, expected '', Num (a_size (sp_artifact sp))]"

definition mismatch :: "bool \<Rightarrow> string \<Rightarrow> string \<Rightarrow> err" where
  "mismatch resumed dg wanted =
     (let m = Errorf [Err (Var ErrDigestMismatch), Lit '': got '', Str dg, Lit '', want '', Str wanted]
      in if resumed then Errorf [Err (Var ErrResumedMismatch), Lit '': '', Err m] else m)"

definition sweep_mismatch ::
  "('s, 'd) run_env \<Rightarrow> 's run_events \<Rightarrow> bool \<Rightarrow> string \<Rightarrow> string \<Rightarrow> string \<Rightarrow> 's world \<Rightarrow> err option \<times> 's world" where
  "sweep_mismatch E ev resumed dg wanted partial w =
     (let fs = (if rv_sweep ev = None then (w_files w)(partial := None) else w_files w);
          (cleared, s) = (case so_update (en_store E) (en_id E) (en_epoch E) (\<lambda>rr.
               setCheckpoint (en_ranges E) (en_docs E) no_checkpoint
                 (rr\<lparr>j_progress := (j_progress rr)\<lparr>p_done := 0\<rparr>\<rparr>)) (w_store w) of
             (Inl e, s) \<Rightarrow> (Some e, s) | (Inr _, s) \<Rightarrow> (None, s))
      in (join_errs [Some (mismatch resumed dg wanted), rv_sweep ev, cleared], w\<lparr>w_files := fs, w_store := s\<rparr>))"

definition finished_record ::
  "('s, 'd) run_env \<Rightarrow> int \<Rightarrow> int \<Rightarrow> validators \<Rightarrow> 'd job_record \<Rightarrow> err + 'd job_record" where
  "finished_record E now whole seen rr =
     setCheckpoint (en_ranges E) (en_docs E) \<lparr>c_prefix = whole, c_validators = seen, c_verified = []\<rparr>
       (clearWaiting (clearFailure (rr\<lparr>j_progress := (j_progress rr)\<lparr>p_done := whole,
            p_total := (if p_total (j_progress rr) = 0 then whole else p_total (j_progress rr)), p_updated := now\<rparr>,
          j_state := StateTransferred\<rparr>)))"

text \<open>What was asked while the bytes moved: the watcher's word where it came later.\<close>

definition asked_of :: "'s run_events \<Rightarrow> want option \<Rightarrow> want option" where
  "asked_of ev asks = (case rv_noticed ev of None \<Rightarrow> asks | Some a \<Rightarrow> Some a)"

definition run_end ::
  "('s, 'd) run_conf \<Rightarrow> ('s, 'd) run_env \<Rightarrow> io_env \<Rightarrow> deliver_io \<Rightarrow> 's run_events \<Rightarrow> 'd job_record \<Rightarrow> start \<Rightarrow>
   got \<times> 's world \<times> want option \<Rightarrow> err option \<times> 's world" where
  "run_end C E io dv ev rec st res =
     (let (sp, partial, final, gate) = st; ((whole, dg, seen, e), w, asks) = res;
          w = w\<lparr>w_store := rv_others ev (w_store w)\<rparr>;
          J = en_store E; jid = en_id E; ep = en_epoch E;
          keep = (\<lambda>w. w\<lparr>w_store := keepProven (en_ranges E) (en_docs E) J (rv_now ev) jid ep whole seen (w_store w)\<rparr>);
          wanted = a_digest (sp_artifact sp)
      in if rv_fence ev \<noteq> None then (rv_fence ev, w)
         else case asked_of ev asks of
           Some want \<Rightarrow>
             (case honour J want jid ep (w_store w) of
                (h, s) \<Rightarrow>
                  ((case e of
                      Some y \<Rightarrow> if is_cancel y then h else join_errs [h, Some y]
                    | None \<Rightarrow> h), w\<lparr>w_store := s\<rparr>))
         | None \<Rightarrow>
             (case e of
                Some y \<Rightarrow>
                  (let w = keep w; w = w\<lparr>w_files := removeEmptyPartial partial (w_files w)\<rparr>
                   in (Some (if gate \<and> rv_tripped ev \<or> err_is y ErrWaiting then Var ErrWaiting else y), w))
              | None \<Rightarrow>
                  if 0 < a_size (sp_artifact sp) \<and> whole \<noteq> a_size (sp_artifact sp) then (Some (wrong_length sp whole), keep w)
                  else if wanted \<noteq> [] \<and> \<not> sameDigest (rc_low C) dg wanted then
                    sweep_mismatch E ev (0 < p_done (j_progress rec)) dg wanted partial w
                  else (case deliver dv partial final (w_files w) of
                     (Some y, fs) \<Rightarrow> (Some y, w\<lparr>w_files := fs\<rparr>)
                   | (None, fs) \<Rightarrow>
                       (case so_update J jid ep (finished_record E (rv_now ev) whole seen) (w_store w) of
                          (Inl y, s) \<Rightarrow> (Some y, w\<lparr>w_files := fs, w_store := s\<rparr>)
                        | (Inr _, s) \<Rightarrow> (None, w\<lparr>w_files := fs, w_store := s\<rparr>)))))"

section \<open>The whole run\<close>

text \<open>
  The answers of one run together: the fetchers of every gap, the planning environment, \<open>parallel\<close>, the
  file system and the events.
\<close>

record 's machine =
  mc_sha :: "string \<Rightarrow> string"
  mc_opens :: "nat \<Rightarrow> fetch_fun open_env"
  mc_plan :: "fetch_fun open_env"
  mc_parallel :: "(source \<times> range_seat) list \<Rightarrow> plan \<Rightarrow> ranges \<Rightarrow> 's world \<Rightarrow> (int \<times> err option) \<times> 's world \<times> want option"
  mc_io :: io_env
  mc_deliver :: deliver_io
  mc_events :: "'s run_events"

definition run_transfer ::
  "('s, 'd) run_conf \<Rightarrow> ('s, 'd) run_env \<Rightarrow> 's machine \<Rightarrow> 'd job_record \<Rightarrow> start \<Rightarrow> 's world \<Rightarrow> (got \<times> 's world \<times> want option) option" where
  "run_transfer C E mc rec st w =
     transfer E (mc_sha mc) (mc_opens mc) (mc_plan mc) (rc_conns C) (mc_io mc) (mc_parallel mc) (fst st) rec (fst (snd st)) w"

definition run_job ::
  "('s, 'd) run_conf \<Rightarrow> ('s, 'd) run_env \<Rightarrow> 's machine \<Rightarrow> 'd job_record \<Rightarrow> 's world \<Rightarrow> (err option \<times> 's world) option" where
  "run_job C E mc rec w =
     (case run_start C E (mc_events mc) rec w of
        Inl early \<Rightarrow> Some early
      | Inr (st, w1) \<Rightarrow>
          map_option (run_end C E (mc_io mc) (mc_deliver mc) (mc_events mc) rec st) (run_transfer C E mc rec st w1))"

text \<open>What is written when the run has ended in an error.\<close>

definition failed_record :: "('s, 'd) run_conf \<Rightarrow> err \<Rightarrow> 'd job_record \<Rightarrow> 'd job_record" where
  "failed_record C e rr =
     (let rr = clearWaiting rr;
          rr = (if Permanent e then rr\<lparr>j_state := StateFailed\<rparr> else rr);
          rr = setFailure (rc_qt C) (Some e) rr
      in if rc_cause C then setFailureCause (rc_qt C) (Some e) rr else rr)"

definition ended :: "('s, 'd) run_conf \<Rightarrow> err \<Rightarrow> err" where
  "ended C e = (case rc_terminal C of None \<Rightarrow> e | Some t \<Rightarrow> if t e then the (Terminal (Some e)) else e)"

definition put ::
  "('s, 'd) run_env \<Rightarrow> ('d job_record \<Rightarrow> 'd job_record) \<Rightarrow> 's world \<Rightarrow> err option \<times> 's world" where
  "put E g w =
     (case so_update (en_store E) (en_id E) (en_epoch E) (\<lambda>rr. Inr (g rr)) (w_store w) of
        (Inl e, s) \<Rightarrow> (Some e, w\<lparr>w_store := s\<rparr>) | (Inr _, s) \<Rightarrow> (None, w\<lparr>w_store := s\<rparr>))"

definition let_go :: "('s, 'd) run_env \<Rightarrow> 's world \<Rightarrow> err option \<times> 's world" where
  "let_go E w = (case release (en_store E) (en_id E) (en_epoch E) (w_store w) of (e, s) \<Rightarrow> (e, w\<lparr>w_store := s\<rparr>))"

definition conclude ::
  "('s, 'd) run_conf \<Rightarrow> ('s, 'd) run_env \<Rightarrow> 's run_events \<Rightarrow> err option \<times> 's world \<Rightarrow> err option \<times> 's world" where
  "conclude C E ev res =
     (case res of
        (None, w) \<Rightarrow> let_go E w
      | (Some e, w) \<Rightarrow>
          if (case rv_done ev of None \<Rightarrow> False | Some d \<Rightarrow> err_is_foreign e d) then
            (case let_go E w of (r, w) \<Rightarrow> (join_errs [Some e, r], w))
          else if err_is e ErrWaiting then
            (case put E (setWaiting (rc_enc C) (waitingWord e)) w of
               (wrote, w) \<Rightarrow> (case let_go E w of
                  (r, w) \<Rightarrow> (if wrote \<noteq> None \<or> r \<noteq> None then join_errs [wrote, r] else Some e, w)))
          else
            (let e = ended C e in
             case put E (failed_record C e) w of
               (wrote, w) \<Rightarrow> (case let_go E w of
                  (r, w) \<Rightarrow> (if wrote \<noteq> None \<or> r \<noteq> None then join_errs [Some e, wrote, r] else Some e, w))))"

definition Run ::
  "('s, 'd) run_conf \<Rightarrow> ('s, 'd) run_env \<Rightarrow> 's machine \<Rightarrow> string \<Rightarrow> 's world \<Rightarrow> (err option \<times> 's world) option" where
  "Run C E mc who w =
     (case so_claim (en_store E) (en_id E) who (w_store w) of
        (Inl e, s) \<Rightarrow> Some (Some e, w\<lparr>w_store := s\<rparr>)
      | (Inr rec, s) \<Rightarrow>
          (let E = E\<lparr>en_epoch := l_epoch (j_lease rec)\<rparr> in
           map_option (conclude C E (mc_events mc)) (run_job C E mc rec (w\<lparr>w_store := s\<rparr>))))"


section \<open>Delivered bytes are the proven bytes\<close>

locale run_layer = checkpoint_layer R D + store_layer J
  for R :: range_ops and D :: "'d doc_ops" and J :: "('s, 'd) store_ops"

interpretation ref_run: run_layer ref_ranges ref_docs map_ops
  by (intro run_layer.intro checkpoint_layer_ref map_store_layer)

lemma run_layer_ref: "run_layer ref_ranges ref_docs map_ops"
  by (rule ref_run.run_layer_axioms)

lemma deliver_moves:
  assumes "deliver dv partial final fs = (None, fs')" "partial = final \<Longrightarrow> dv_rename dv = None"
  shows "\<exists>c. fs partial = Some (File c) \<and> fs' final = Some (File c) \<and> (\<forall>p. p \<noteq> partial \<longrightarrow> p \<noteq> final \<longrightarrow> fs' p = fs p)"
proof -
  obtain c where c: "fs partial = Some (File c)" "dv_mkdir dv = None"
    using assms(1) by (auto simp: deliver_def split: option.splits node.splits if_splits)
  show ?thesis
  proof (cases "dv_rename dv = None \<and> fs final \<noteq> Some Dir")
    case True
    with assms(1) c show ?thesis by (auto simp: deliver_def)
  next
    case False
    have "partial \<noteq> final" using False assms(2) c by auto
    with assms(1) c False show ?thesis
      by (auto simp: deliver_def copy_over_def Let_def split: option.splits if_splits)
  qed
qed

text \<open>What somebody asked for between the start of the transfer and its end.\<close>

definition asked_during ::
  "('s, 'd) run_conf \<Rightarrow> ('s, 'd) run_env \<Rightarrow> 's machine \<Rightarrow> 'd job_record \<Rightarrow> 's world \<Rightarrow> want option" where
  "asked_during C E mc rec w =
     (case run_start C E (mc_events mc) rec w of
        Inl _ \<Rightarrow> None
      | Inr (st, w1) \<Rightarrow>
          (case run_transfer C E mc rec st w1 of
             None \<Rightarrow> None
           | Some (g, w2, asks) \<Rightarrow> asked_of (mc_events mc) asks))"

lemma run_start_Inr:
  assumes "run_start C E ev rec w = Inr (st, w1)"
  shows "\<exists>sp srcs partial final gate s. SpecOf (en_docs E) rec = Inr sp \<and> st = (sp\<lparr>sp_sources := srcs @ sp_sources sp\<rparr>, partial, final, gate) \<and>
    LocalSink (rc_names C) (rc_root C) (j_id rec) (sp_sink sp) = Inr (partial, final) \<and>
    refuseUnportableSink (rc_shared C) (sp_sink sp) = None \<and> w1 = w\<lparr>w_store := s\<rparr>"
  using assms
  by (auto simp: run_start_def Let_def split: if_splits sum.splits option.splits prod.splits)

lemma run_start_early:
  assumes "run_start C E ev rec w = Inl (None, w1)"
  shows "j_want rec \<noteq> WantRun"
  using assms by (auto simp: run_start_def Let_def split: if_splits sum.splits option.splits prod.splits)

lemma run_end_delivers:
  assumes "run_end C E io dv ev rec (sp, partial, final, gate) ((whole, dg, seen, e), w, asks) = (None, w')"
    and "asked_of ev asks = None"
  shows "e = None" "a_digest (sp_artifact sp) \<noteq> [] \<Longrightarrow> sameDigest (rc_low C) dg (a_digest (sp_artifact sp))"
    "0 < a_size (sp_artifact sp) \<Longrightarrow> whole = a_size (sp_artifact sp)"
    "\<exists>fs. deliver dv partial final (w_files w) = (None, fs) \<and> w_files w' = fs"
    "\<exists>r. so_update (en_store E) (en_id E) (en_epoch E) (finished_record E (rv_now ev) whole seen) (rv_others ev (w_store w)) =
       (Inr r, w_store w')"
  using assms
  by (auto simp: run_end_def Let_def sweep_mismatch_def join_errs_def split: if_splits option.splits sum.splits prod.splits)

lemma LastFailure_lease: "LastFailure (r\<lparr>j_lease := l\<rparr>) = LastFailure r"
  by (simp add: LastFailure_def)

lemma sameDigest_empty: "\<not> sameDigest uni [] b"
proof -
  have "trim_prefix ''sha256-'' (trim_prefix ''sha256:'' []) = []" by (simp add: trim_prefix_def)
  then have "bareHex uni [] = []" by (simp add: bareHex_def to_lower_def is_ascii_def)
  then show ?thesis by (simp add: sameDigest_def)
qed

context run_layer
begin

lemma finished_record_Inr:
  assumes "finished_record E now whole seen rr = Inr r'" "en_ranges E = R" "en_docs E = D"
  shows "j_state r' = StateTransferred" "p_done (j_progress r') = whole" "LastFailure r' = None"
    "j_extensions r' WaitingExtension = None"
proof -
  let ?cp = "\<lparr>c_prefix = whole, c_validators = seen, c_verified = []\<rparr>"
  let ?rr = "clearWaiting (clearFailure (rr\<lparr>j_progress := (j_progress rr)\<lparr>p_done := whole,
            p_total := (if p_total (j_progress rr) = 0 then whole else p_total (j_progress rr)), p_updated := now\<rparr>,
          j_state := StateTransferred\<rparr>))"
  have "checkpoint_wf ?cp" by (simp add: checkpoint_wf_def)
  then obtain doc names where "setCheckpoint R D ?cp ?rr = Inr (?rr\<lparr>j_checkpoint := doc, j_content := names\<rparr>)"
    using setCheckpoint_reads_back [of ?cp ?rr] by blast
  then have r': "r' = ?rr\<lparr>j_checkpoint := doc, j_content := names\<rparr>"
    using assms by (simp add: finished_record_def)
  show "j_state r' = StateTransferred" "p_done (j_progress r') = whole" by (simp_all add: r')
  show "LastFailure r' = None" "j_extensions r' WaitingExtension = None"
    by (simp_all add: r' LastFailure_def clearWaiting_def clearFailure_def)
qed

lemma let_go_record:
  assumes "let_go E w = (x, w')" "so_load J (en_id E) (w_store w) = Inr r" "en_store E = J"
  shows "w_files w' = w_files w" "\<exists>l. l_epoch l = l_epoch (j_lease r) \<and> so_load J (en_id E) (w_store w') = Inr (r\<lparr>j_lease := l\<rparr>)"
proof -
  obtain x' s' where r: "so_release J (en_id E) (en_epoch E) (w_store w) = (x', s')" by (metis surj_pair)
  have "w' = w\<lparr>w_store := s'\<rparr>" using assms(1,3) r by (auto simp: let_go_def release_def split: option.splits if_splits)
  with release_keeps [OF r assms(2)] show "w_files w' = w_files w"
    "\<exists>l. l_epoch l = l_epoch (j_lease r) \<and> so_load J (en_id E) (w_store w') = Inr (r\<lparr>j_lease := l\<rparr>)" by auto
qed

lemma Run_delivers:
  assumes env: "en_ranges E = R" "en_docs E = D" "en_store E = J"
    and claim: "so_claim J (en_id E) who (w_store w) = (Inr rec, s)"
    and wf: "\<And>cp. CheckpointOf R D rec = Inr cp \<Longrightarrow> checkpoint_wf cp"
    and honest: "\<And>j. honest_fetchers (mc_opens mc j)"
    and sp: "SpecOf D rec = Inr sp" "a_digest (sp_artifact sp) \<noteq> []"
    and rename: "\<And>p. LocalSink (rc_names C) (rc_root C) (j_id rec) (sp_sink sp) = Inr (p, p) \<Longrightarrow> dv_rename (mc_deliver mc) = None"
    and want: "j_want rec = WantRun" "asked_during C (E\<lparr>en_epoch := l_epoch (j_lease rec)\<rparr>) mc rec (w\<lparr>w_store := s\<rparr>) = None"
    and run: "Run C E mc who w = Some (None, w')"
  shows "\<exists>partial final c r. LocalSink (rc_names C) (rc_root C) (j_id rec) (sp_sink sp) = Inr (partial, final) \<and>
    w_files w' final = Some (File c) \<and> sameDigest (rc_low C) (''sha256:'' @ mc_sha mc c) (a_digest (sp_artifact sp)) \<and>
    so_load J (en_id E) (w_store w') = Inr r \<and> j_state r = StateTransferred \<and> LastFailure r = None"
proof -
  define E1 where "E1 = E\<lparr>en_epoch := l_epoch (j_lease rec)\<rparr>"
  have E1: "en_ranges E1 = R" "en_docs E1 = D" "en_store E1 = J" "en_id E1 = en_id E" using env by (simp_all add: E1_def)
  let ?w = "w\<lparr>w_store := s\<rparr>"
  obtain x where x: "run_job C E1 mc rec ?w = Some x" "conclude C E1 (mc_events mc) x = (None, w')"
    using run claim env by (auto simp: Run_def E1_def Let_def)
  obtain y w3 where y: "x = (y, w3)" by (metis surj_pair)
  have "y = None" "let_go E1 w3 = (None, w')"
    using x(2) y by (auto simp: conclude_def Let_def join_errs_def split: option.splits if_splits prod.splits)
  obtain st w1 where st: "run_start C E1 (mc_events mc) rec ?w = Inr (st, w1)"
    using x(1) y \<open>y = None\<close> want(1) run_start_early by (fastforce simp: run_job_def split: sum.splits)
  obtain got w2 asks where tr: "run_transfer C E1 mc rec st w1 = Some (got, w2, asks)"
    and en: "run_end C E1 (mc_io mc) (mc_deliver mc) (mc_events mc) rec st (got, w2, asks) = (None, w3)"
    using x(1) y \<open>y = None\<close> st by (auto simp: run_job_def)
  obtain srcs partial final gate where st': "st = (sp\<lparr>sp_sources := srcs @ sp_sources sp\<rparr>, partial, final, gate)"
    and sink: "LocalSink (rc_names C) (rc_root C) (j_id rec) (sp_sink sp) = Inr (partial, final)"
    using run_start_Inr [OF st] E1(2) sp(1) by auto
  have quiet: "asked_of (mc_events mc) asks = None"
    using want(2) st tr by (simp add: asked_during_def E1_def)
  obtain whole dg seen e where got: "got = (whole, dg, seen, e)" by (metis prod_cases4)
  note en' = run_end_delivers [OF en [unfolded st' got] quiet]
  have dg: "sameDigest (rc_low C) dg (a_digest (sp_artifact sp))" using en'(2) sp(2) by simp
  then have "dg \<noteq> []" using sameDigest_empty by blast
  moreover have "transfer E1 (mc_sha mc) (mc_opens mc) (mc_plan mc) (rc_conns C) (mc_io mc) (mc_parallel mc)
      (fst st) rec partial w1 = Some ((whole, dg, seen, None), w2, asks)"
    using tr got en'(1) st' by (simp add: run_transfer_def)
  ultimately obtain c where c: "w_files w2 partial = Some (File c)" "dg = ''sha256:'' @ mc_sha mc c"
    using transfer_digest [of E1 rec] E1 wf honest by metis
  have "partial = final \<Longrightarrow> dv_rename (mc_deliver mc) = None" using rename sink by blast
  then have final: "w_files w3 final = Some (File c)" using en'(4) deliver_moves c(1) by fastforce
  obtain s' r where u: "so_update J (en_id E) (en_epoch E1) (finished_record E1 (rv_now (mc_events mc)) whole seen) s' = (Inr r, w_store w3)"
    using en'(5) E1 by auto
  from update_Inr [OF u] obtain r0 where r0: "finished_record E1 (rv_now (mc_events mc)) whole seen r0 = Inr r"
    "so_load J (en_id E) (w_store w3) = Inr r" by blast
  note fin = finished_record_Inr [OF r0(1) E1(1,2)]
  obtain l where "w_files w' = w_files w3" "so_load J (en_id E) (w_store w') = Inr (r\<lparr>j_lease := l\<rparr>)"
    using let_go_record [OF \<open>let_go E1 w3 = (None, w')\<close> _ E1(3)] r0(2) E1(4) by auto
  then show ?thesis
    using sink final dg c(2) fin LastFailure_lease [of l r] by fastforce
qed

end


section \<open>A run that ended in an error\<close>

lemma joined_larger: "e \<in> set es \<Longrightarrow> Joined es \<noteq> e"
proof
  assume "e \<in> set es" "Joined es = e"
  then have "size e \<le> size_list size es" by (simp add: size_list_estimation')
  moreover have "size (Joined es) = Suc (size_list size es)" by simp
  ultimately show False using \<open>Joined es = e\<close> by simp
qed

lemma join_not_first: "x \<noteq> None \<or> y \<noteq> None \<Longrightarrow> join_errs [Some e, x, y] \<noteq> Some e"
  using joined_larger by (auto simp: join_errs_def Let_def)

lemma join_not_var: "join_errs [x, y] \<noteq> Some (Var v)"
  by (simp add: join_errs_def Let_def)

lemma Waiting_lease: "Waiting u (r\<lparr>j_lease := l\<rparr>) = Waiting u r"
  by (simp add: Waiting_def)

lemma networkHolds_lease: "networkHolds u n sp (r\<lparr>j_lease := l\<rparr>) = networkHolds u n sp r"
  by (simp add: networkHolds_def Waiting_lease split: option.split sum.split cost.split)

lemma Waiting_state [simp]: "Waiting u (r\<lparr>j_state := st\<rparr>) = Waiting u r"
  by (simp add: Waiting_def)

lemma failed_record_simps:
  "j_state (failed_record C e r) = (if Permanent e then StateFailed else j_state r)"
  "j_progress (failed_record C e r) = j_progress r" "j_checkpoint (failed_record C e r) = j_checkpoint r"
  "Waiting u (failed_record C e r) = []"
  by (simp_all add: failed_record_def Let_def)

lemma LastFailure_failed:
  assumes "valid_utf8 (err_text (rc_qt C) e)"
  shows "\<exists>y. LastFailure (failed_record C e r) = Some y \<and> Permanent y = Permanent e"
  by (cases "Permanent e") (simp_all add: failed_record_def Let_def LastFailure_set [OF assms])

lemma ended_class: "Permanent (ended C e) \<longleftrightarrow> Permanent e \<or> (\<exists>t. rc_terminal C = Some t \<and> t e)"
  using Permanent_Terminal [of "Some e"] by (auto simp: ended_def Terminal_def split: option.splits)

context run_layer
begin

lemma put_record:
  assumes "put E g w = (None, w')" "en_store E = J"
  shows "\<exists>r. so_load J (en_id E) (w_store w) = Inr r \<and> \<not> terminal_state (j_state r) \<and>
    so_load J (en_id E) (w_store w') = Inr (g r) \<and> w_files w' = w_files w"
proof -
  obtain r' s' where u: "so_update J (en_id E) (en_epoch E) (\<lambda>rr. Inr (g rr)) (w_store w) = (Inr r', s')" "w' = w\<lparr>w_store := s'\<rparr>"
    using assms by (auto simp: put_def split: prod.splits sum.splits)
  from update_Inr [OF u(1)] u(2) show ?thesis by auto
qed

lemma put_and_let_go:
  assumes "put E g w = (None, w1)" "let_go E w1 = (x, w2)" "en_store E = J"
  shows "\<exists>r l. so_load J (en_id E) (w_store w) = Inr r \<and> \<not> terminal_state (j_state r) \<and>
    so_load J (en_id E) (w_store w2) = Inr ((g r)\<lparr>j_lease := l\<rparr>) \<and> w_files w2 = w_files w"
  using put_record [OF assms(1,3)] let_go_record [OF assms(2) _ assms(3)] by fastforce

lemma conclude_failure:
  assumes "conclude C E ev (Some e, w) = (Some (ended C e), w')" "en_store E = J"
    and "\<And>d. rv_done ev = Some d \<Longrightarrow> \<not> err_is_foreign e d" "\<not> err_is e ErrWaiting"
  shows "\<exists>r l. so_load J (en_id E) (w_store w) = Inr r \<and> \<not> terminal_state (j_state r) \<and>
    so_load J (en_id E) (w_store w') = Inr ((failed_record C (ended C e) r)\<lparr>j_lease := l\<rparr>) \<and> w_files w' = w_files w"
proof -
  obtain wrote w1 r where p: "put E (failed_record C (ended C e)) w = (wrote, w1)" "let_go E w1 = (r, w')"
    "(if wrote \<noteq> None \<or> r \<noteq> None then join_errs [Some (ended C e), wrote, r] else Some (ended C e)) = Some (ended C e)"
    using assms(1,3,4) by (auto simp: conclude_def Let_def split: option.splits prod.splits)
  then have "wrote = None" using join_not_first by metis
  with p put_and_let_go [OF _ p(2) assms(2)] show ?thesis by auto
qed

lemma conclude_waiting:
  assumes "conclude C E ev (Some (Var v), w) = (Some (Var v), w')" "en_store E = J"
    and "v = ErrWaiting \<or> v = ErrNetworkUnavailable"
  shows "\<exists>r l. so_load J (en_id E) (w_store w) = Inr r \<and>
    so_load J (en_id E) (w_store w') = Inr ((setWaiting (rc_enc C) (waitingWord (Var v)) r)\<lparr>j_lease := l\<rparr>) \<and>
    w_files w' = w_files w"
proof -
  have f: "\<not> err_is_foreign (Var v) d" for d using assms(3) by (auto simp: err_is_foreign_def)
  have g: "err_is (Var v) ErrWaiting" using assms(3) by auto
  obtain wrote w1 r where p: "put E (setWaiting (rc_enc C) (waitingWord (Var v))) w = (wrote, w1)" "let_go E w1 = (r, w')"
    "(if wrote \<noteq> None \<or> r \<noteq> None then join_errs [wrote, r] else Some (Var v)) = Some (Var v)"
    using assms(1) f g by (auto simp: conclude_def Let_def split: option.splits prod.splits)
  then have "wrote = None" using join_not_var by metis
  with p put_and_let_go [OF _ p(2) assms(2)] show ?thesis by fastforce
qed

text \<open>A metered path stops the run before it touches a file, and the record then waits on that path only.\<close>

lemma metered_run_waits:
  assumes env: "en_store E = J" "en_docs E = D"
    and claim: "so_claim J (en_id E) who (w_store w) = (Inr rec, s)" "j_want rec = WantRun"
    and sp: "SpecOf D rec = Inr sp" "WantsUnmetered sp" "CapRecoverableSubmission \<notin> set (j_requires rec)"
    and metered: "rc_network C = Some (Inr c)" "c = Metered \<or> c = CostUnavailable"
    and run: "Run C E mc who w = Some (e, w')"
  shows "w_files w' = w_files w \<and> e \<noteq> None \<and>
    (e = Some (Var (if c = Metered then ErrWaiting else ErrNetworkUnavailable)) \<longrightarrow>
      (\<exists>r'. so_load J (en_id E) (w_store w') = Inr r' \<and> j_state r' = j_state rec \<and> j_progress r' = j_progress rec \<and>
        LastFailure r' = LastFailure rec \<and>
        (\<forall>c'. networkHolds (rc_dec C) (Some c') (Inr sp) r' \<longleftrightarrow> c' = c)))"
proof -
  define E1 where "E1 = E\<lparr>en_epoch := l_epoch (j_lease rec)\<rparr>"
  define v where "v = (if c = Metered then ErrWaiting else ErrNetworkUnavailable)"
  have v: "v = ErrWaiting \<or> v = ErrNetworkUnavailable" by (simp add: v_def)
  let ?w = "w\<lparr>w_store := s\<rparr>"
  have g: "gateNetwork (sp\<lparr>sp_sources := srcs\<rparr>) (j_requires rec) (rc_network C) ctx = Inl (Var v)" for srcs ctx
    using sp(2) metered by (auto simp: gateNetwork_def WantsUnmetered_def v_def)
  have "run_start C E1 (mc_events mc) rec ?w = Inl (Some (Var v), ?w)"
    using claim(2) sp env g by (simp add: run_start_def E1_def Let_def)
  then have con: "conclude C E1 (mc_events mc) (Some (Var v), ?w) = (e, w')"
    using run claim(1) env by (simp add: Run_def run_job_def E1_def Let_def)
  have nf: "\<not> err_is_foreign (Var v) d" for d using v by (auto simp: err_is_foreign_def)
  have iw: "err_is (Var v) ErrWaiting" using v by auto
  obtain wrote w1 r where p: "put E1 (setWaiting (rc_enc C) (waitingWord (Var v))) ?w = (wrote, w1)" "let_go E1 w1 = (r, w')"
    "e = (if wrote \<noteq> None \<or> r \<noteq> None then join_errs [wrote, r] else Some (Var v))"
    using con nf iw by (auto simp: conclude_def Let_def simp del: err_is_simps split: option.splits prod.splits)
  have files: "w_files w' = w_files w"
    using p(1,2) by (auto simp: put_def let_go_def split: prod.splits sum.splits)
  have "e \<noteq> None" using p(3) by (auto simp: join_errs_def Let_def)
  moreover have "\<exists>r'. so_load J (en_id E) (w_store w') = Inr r' \<and> j_state r' = j_state rec \<and> j_progress r' = j_progress rec \<and>
        LastFailure r' = LastFailure rec \<and>
        (\<forall>c'. networkHolds (rc_dec C) (Some c') (Inr sp) r' \<longleftrightarrow> c' = c)"
    if e: "e = Some (Var v)"
  proof -
    obtain r0 l where r0: "so_load J (en_id E) s = Inr r0"
      "so_load J (en_id E) (w_store w') = Inr ((setWaiting (rc_enc C) (waitingWord (Var v)) r0)\<lparr>j_lease := l\<rparr>)"
      using conclude_waiting [of C E1 "mc_events mc" v ?w w'] con e env v by (auto simp: E1_def)
    have "r0 = rec" using claim_Inr [OF claim(1)] r0(1) by auto
    have "networkHolds (rc_dec C) (Some c') (Inr sp) (setWaiting (rc_enc C) (waitingWord (Var v)) rec) \<longleftrightarrow> c' = c" for c'
      by (rule held_while_refused [of sp "j_requires rec" c None])
        (use metered(2) sp(2) claim(2) in \<open>auto simp: gateNetwork_def v_def\<close>)
    then have "networkHolds (rc_dec C) (Some c') (Inr sp) ((setWaiting (rc_enc C) (waitingWord (Var v)) rec)\<lparr>j_lease := l\<rparr>) \<longleftrightarrow> c' = c" for c'
      by (simp only: networkHolds_lease)
    with r0(2) \<open>r0 = rec\<close> show ?thesis by (simp add: LastFailure_lease)
  qed
  ultimately show ?thesis using files by (simp add: v_def)
qed

end


section \<open>Bytes that failed the digest\<close>

context run_layer
begin

lemma Proven_none: "Proven R no_checkpoint = Inr []" "ro_prefix R [] = 0"
proof -
  obtain rs where "Proven R no_checkpoint = Inr rs" "canonical rs" "bytes_of rs = {}"
    using Proven_canonical [of no_checkpoint] by (auto simp: checkpoint_wf_def no_checkpoint_def claimed_def bytes_of_def)
  moreover from this(2,3) have "rs = []"
    by (cases rs rule: canonical.cases) (auto simp: bytes_of_def dest: spec [of _ 0])
  ultimately show "Proven R no_checkpoint = Inr []" by simp
  show "ro_prefix R [] = 0" using prefix_law [of "[]"] by simp
qed

lemma withdrawn_checkpoint:
  assumes "setCheckpoint R D no_checkpoint rr = Inr r'"
  shows "CheckpointOf R D r' = Inr no_checkpoint" "\<exists>doc names. r' = rr\<lparr>j_checkpoint := doc, j_content := names\<rparr>"
proof -
  have "checkpoint_wf no_checkpoint" by (simp add: checkpoint_wf_def no_checkpoint_def)
  from setCheckpoint_reads_back [OF this, of rr] assms Proven_none
  show "CheckpointOf R D r' = Inr no_checkpoint" "\<exists>doc names. r' = rr\<lparr>j_checkpoint := doc, j_content := names\<rparr>"
    by (auto simp: no_checkpoint_def)
qed

lemma planResume_none: "planResume R partial st no_checkpoint sz = Inr (fresh_plan R sz)"
  by (simp add: planResume_def Proven_none)

text \<open>Wrong bytes are not resumed onto: where the store took the write, the next run starts from nothing.\<close>

lemma mismatch_restarts:
  assumes env: "en_ranges E = R" "en_docs E = D" "en_store E = J"
    and quiet: "rv_fence ev = None" "asked_of ev asks = None"
    and wrong: "a_size (sp_artifact sp) \<le> 0 \<or> whole = a_size (sp_artifact sp)"
      "a_digest (sp_artifact sp) \<noteq> []" "\<not> sameDigest (rc_low C) dg (a_digest (sp_artifact sp))"
    and run: "run_end C E io dv ev rec (sp, partial, final, gate) ((whole, dg, seen, None), w, asks) = (e, w')"
  shows "\<exists>y. e = Some y \<and> err_is y ErrDigestMismatch"
    and "final \<noteq> partial \<Longrightarrow> w_files w' final = w_files w final"
    and "e = Some (Joined [mismatch (0 < p_done (j_progress rec)) dg (a_digest (sp_artifact sp))]) \<Longrightarrow>
      w_files w' partial = None \<and>
      (\<exists>r. so_load J (en_id E) (w_store w') = Inr r \<and> p_done (j_progress r) = 0 \<and> CheckpointOf R D r = Inr no_checkpoint \<and>
        (\<forall>st sz. planResume R partial st no_checkpoint sz = Inr (fresh_plan R sz)))"
proof -
  let ?m = "mismatch (0 < p_done (j_progress rec)) dg (a_digest (sp_artifact sp))"
  let ?g = "\<lambda>rr. setCheckpoint R D no_checkpoint (rr\<lparr>j_progress := (j_progress rr)\<lparr>p_done := 0\<rparr>\<rparr>)"
  obtain x s where u: "so_update J (en_id E) (en_epoch E) ?g (rv_others ev (w_store w)) = (x, s)"
    by (cases "so_update J (en_id E) (en_epoch E) ?g (rv_others ev (w_store w))") (rule that)
  have e: "e = join_errs [Some ?m, rv_sweep ev, (case x of Inl y \<Rightarrow> Some y | Inr _ \<Rightarrow> None)]"
    and w': "w_store w' = s" "w_files w' = (if rv_sweep ev = None then (w_files w)(partial := None) else w_files w)"
    using run quiet wrong u env
    by (auto simp: run_end_def sweep_mismatch_def Let_def split: sum.splits)
  have "err_is ?m ErrDigestMismatch" by (simp add: mismatch_def Let_def err_is_Errorf)
  then show "\<exists>y. e = Some y \<and> err_is y ErrDigestMismatch" by (auto simp: e join_errs_def Let_def err_is_Joined)
  show "final \<noteq> partial \<Longrightarrow> w_files w' final = w_files w final" by (simp add: w')
  assume "e = Some (Joined [?m])"
  then have "rv_sweep ev = None" and "\<exists>r. x = Inr r" using e
    by (cases "rv_sweep ev"; cases x; simp add: join_errs_def Let_def)+
  then obtain r where x: "x = Inr r" by blast
  from update_Inr [OF u [unfolded x]] obtain r0 where
    r0: "?g r0 = Inr r" "so_load J (en_id E) s = Inr r" by blast
  note wd = withdrawn_checkpoint [OF r0(1)]
  have "p_done (j_progress r) = 0" using wd(2) by auto
  with wd(1) r0(2) w' \<open>rv_sweep ev = None\<close> planResume_none
  show "w_files w' partial = None \<and>
      (\<exists>r. so_load J (en_id E) (w_store w') = Inr r \<and> p_done (j_progress r) = 0 \<and> CheckpointOf R D r = Inr no_checkpoint \<and>
        (\<forall>st sz. planResume R partial st no_checkpoint sz = Inr (fresh_plan R sz)))" by simp
qed

text \<open>What a failed attempt reached is kept, and never less than was known.\<close>

lemma keepProven_record:
  assumes "so_load J jid s = Inr r" "l_epoch (j_lease r) = ep"
  shows "\<exists>r'. so_load J jid (keepProven R D J now jid ep prefx seen s) = Inr r' \<and>
    p_done (j_progress r) \<le> p_done (j_progress r') \<and> j_state r' = j_state r \<and>
    (r' = r \<or> p_done (j_progress r') = prefx \<and>
      (\<exists>rs. CheckpointOf R D r' = Inr \<lparr>c_prefix = ro_prefix R rs, c_validators = seen, c_verified = rs\<rparr> \<and> bytes_of rs = {0..<prefx}))"
proof (cases "prefx \<le> 0")
  case True
  with assms show ?thesis by (simp add: keepProven_def)
next
  case False
  let ?cp = "\<lparr>c_prefix = prefx, c_validators = seen, c_verified = []\<rparr>"
  let ?g = "\<lambda>rr. if prefx \<le> p_done (j_progress rr) then Inr rr
        else setCheckpoint R D ?cp (rr\<lparr>j_progress := (j_progress rr)\<lparr>p_done := prefx, p_updated := now\<rparr>\<rparr>)"
  obtain x s' where u: "so_update J jid ep ?g s = (x, s')" by (cases "so_update J jid ep ?g s") (rule that)
  have k: "keepProven R D J now jid ep prefx seen s = s'" using False u by (simp add: keepProven_def)
  show ?thesis
  proof (cases x)
    case (Inl e)
    with update_Inl [of jid ep ?g s e s' jid] u assms k show ?thesis by auto
  next
    case (Inr r')
    with update_Inr [of jid ep ?g s r' s'] u assms have g: "?g r = Inr r'" "so_load J jid s' = Inr r'" by auto
    have wf: "checkpoint_wf ?cp" by (simp add: checkpoint_wf_def)
    have cl: "claimed ?cp = {0..<prefx}" by (auto simp: claimed_def bytes_of_def)
    show ?thesis
    proof (cases "prefx \<le> p_done (j_progress r)")
      case True
      with g k show ?thesis by auto
    next
      case less: False
      then obtain rs doc names where "r' = r\<lparr>j_progress := (j_progress r)\<lparr>p_done := prefx, p_updated := now\<rparr>, j_checkpoint := doc, j_content := names\<rparr>"
        "CheckpointOf R D r' = Inr \<lparr>c_prefix = ro_prefix R rs, c_validators = seen, c_verified = rs\<rparr>" "bytes_of rs = {0..<prefx}"
        using setCheckpoint_reads_back [OF wf, of "r\<lparr>j_progress := (j_progress r)\<lparr>p_done := prefx, p_updated := now\<rparr>\<rparr>"] g(1) cl
        by auto
      with g(2) k less show ?thesis by auto
    qed
  qed
qed

end

end
