(* ===== verification/Adoption.thy ===== *)
theory Adoption
  imports Runner
begin

text \<open>
  The sweeps of a supervisor (\<open>Adopt\<close>, \<open>TakeDeliveryAll\<close>, \<open>readable\<close> and \<open>SharedStoreRoot\<close> of
  \<open>go/runner.go\<close>): which records of a store are run, and which finished ones are acknowledged.

  A sweep is given the list the store answered. What one run does is the argument \<open>go\<close>, so the lemmas
  speak about which runs are made, and one more step instantiates it with \<open>Run\<close>.
\<close>

section \<open>Reading the store\<close>

text \<open>A list with an \<open>ErrUnreadable\<close> beside it is still a list.\<close>

definition readable :: "'a list \<times> err option \<Rightarrow> 'a list \<times> err option \<times> err option" where
  "readable answer =
     (case answer of
        (recs, Some e) \<Rightarrow> if err_is_foreign e JobUnreadable then (recs, Some e, None) else ([], None, Some e)
      | (recs, None) \<Rightarrow> (recs, None, None))"

lemma readable_fatal: "readable (rs, e) = (kept, unread, fatal) \<Longrightarrow>
    (fatal = None \<and> kept = rs \<and> unread = e) \<or> (fatal = e \<and> e \<noteq> None \<and> kept = [] \<and> unread = None)"
  by (auto simp: readable_def split: option.splits if_splits)

section \<open>Adopting what nobody works on\<close>

text \<open>What the sweep reads of the world at one record: the clock, the cost, and \<open>UpdatedAt\<close>.\<close>

definition adoptable ::
  "('s, 'd) run_conf \<Rightarrow> 'd doc_ops \<Rightarrow> cost option \<Rightarrow> int \<Rightarrow> int \<Rightarrow> 'd job_record \<Rightarrow> bool" where
  "adoptable C D network now updated r =
     (if j_kind r \<noteq> Kind then False
      else if j_delegation r \<noteq> None then False
      else if (case SpecOf D r of Inl _ \<Rightarrow> False | Inr sp \<Rightarrow> refuseUnportableSink (rc_shared C) (sp_sink sp) \<noteq> None) then False
      else let waiting = Waiting (rc_dec C) r \<noteq> [] in
        if waiting \<and> networkHolds (rc_dec C) network (SpecOf D r) r then False
        else if \<not> waiting \<and> (case RetryAfter r updated of None \<Rightarrow> False | Some t \<Rightarrow> now < t) then False
        else True)"

fun adopt_from ::
  "(nat \<Rightarrow> 'd job_record \<Rightarrow> bool) \<Rightarrow> (nat \<Rightarrow> string \<Rightarrow> 'w \<Rightarrow> (err option \<times> 'w) option) \<Rightarrow> nat \<Rightarrow> 'd job_record list \<Rightarrow>
   nat \<Rightarrow> err option list \<Rightarrow> 'w \<Rightarrow> ((nat \<times> err option) \<times> 'w) option" where
  "adopt_from ok go k [] n failed w = Some ((n, join_errs failed), w)"
| "adopt_from ok go k (r # rs) n failed w =
     (if \<not> ok k r then adopt_from ok go (Suc k) rs n failed w
      else case go k (j_id r) w of
        None \<Rightarrow> None
      | Some (Some e, w) \<Rightarrow>
          if err_is e ErrWaiting then adopt_from ok go (Suc k) rs n failed w
          else adopt_from ok go (Suc k) rs n (failed @ [Some (Errorf [Str (j_id r), Lit '': '', Err e])]) w
      | Some (None, w) \<Rightarrow> adopt_from ok go (Suc k) rs (Suc n) failed w)"

definition Adopt ::
  "('s, 'd) run_conf \<Rightarrow> 'd doc_ops \<Rightarrow> (nat \<Rightarrow> cost option) \<Rightarrow> (nat \<Rightarrow> int) \<Rightarrow> ('d job_record \<Rightarrow> int) \<Rightarrow>
   (nat \<Rightarrow> string \<Rightarrow> 'w \<Rightarrow> (err option \<times> 'w) option) \<Rightarrow> 'd job_record list \<times> err option \<Rightarrow> 'w \<Rightarrow>
   ((nat \<times> err option) \<times> 'w) option" where
  "Adopt C D network now updated go orphans w =
     (case readable orphans of
        (_, _, Some e) \<Rightarrow> Some ((0, Some e), w)
      | (rs, unread, None) \<Rightarrow>
          adopt_from (\<lambda>k r. adoptable C D (network k) (now k) (updated r) r) go 0 rs 0 [unread] w)"

text \<open>The runs of one sweep, when run \<open>k\<close> answers \<open>ans k\<close> and leaves its name in a log.\<close>

definition logged :: "(nat \<Rightarrow> err option) \<Rightarrow> nat \<Rightarrow> string \<Rightarrow> string list \<Rightarrow> (err option \<times> string list) option" where
  "logged ans k jid log = Some (ans k, log @ [jid])"

fun chosen :: "(nat \<Rightarrow> 'd job_record \<Rightarrow> bool) \<Rightarrow> nat \<Rightarrow> 'd job_record list \<Rightarrow> (nat \<times> string) list" where
  "chosen ok k [] = []"
| "chosen ok k (r # rs) = (if ok k r then [(k, j_id r)] else []) @ chosen ok (Suc k) rs"

definition is_failure :: "err option \<Rightarrow> bool" where
  "is_failure e = (case e of None \<Rightarrow> False | Some x \<Rightarrow> \<not> err_is x ErrWaiting)"

definition sweep_error :: "(nat \<Rightarrow> err option) \<Rightarrow> nat \<times> string \<Rightarrow> err option" where
  "sweep_error ans x = Some (Errorf [Str (snd x), Lit '': '', Err (the (ans (fst x)))])"

text \<open>
  Every adoptable record is run, once and in order, whatever the runs before it came to, and every
  failure comes back with the name of its job.
\<close>

lemma adopt_from_logged:
  "adopt_from ok (logged ans) k rs n failed log =
     Some ((n + length (filter (\<lambda>x. ans (fst x) = None) (chosen ok k rs)),
            join_errs (failed @ map (sweep_error ans) (filter (\<lambda>x. is_failure (ans (fst x))) (chosen ok k rs)))),
           log @ map snd (chosen ok k rs))"
  by (induction rs arbitrary: k n failed log)
    (auto simp: logged_def is_failure_def sweep_error_def split: option.split)

lemma Adopt_logged:
  assumes "readable answer = (rs, unread, None)"
    and "xs = chosen (\<lambda>k r. adoptable C D (network k) (now k) (updated r) r) 0 rs"
  shows "Adopt C D network now updated (logged ans) answer [] =
     Some ((length (filter (\<lambda>x. ans (fst x) = None) xs),
       join_errs (unread # map (sweep_error ans) (filter (\<lambda>x. is_failure (ans (fst x))) xs))), map snd xs)"
  using assms by (simp add: Adopt_def adopt_from_logged)

text \<open>A run makes no record adoptable that was not: a sweep keeps a wait and a backoff.\<close>

lemma adoptable_waiting:
  assumes "adoptable C D network now updated r" "Waiting (rc_dec C) r \<noteq> []"
  shows "\<not> networkHolds (rc_dec C) network (SpecOf D r) r"
  using assms by (auto simp: adoptable_def Let_def split: if_splits)

lemma adoptable_backoff:
  assumes "adoptable C D network now updated r" "Waiting (rc_dec C) r = []" "LastFailure r \<noteq> None"
  shows "updated + min RetryMax (RetryDelay * 2 ^ nat (l_epoch (j_lease r) - 1)) \<le> now"
  using assms by (auto simp: adoptable_def Let_def RetryAfter_wait split: if_splits option.splits)

lemma adoptable_iff:
  assumes "j_kind r = Kind" "j_delegation r = None" "SpecOf D r = Inr sp" "\<not> rc_shared C \<or> PortableSink (sp_sink sp)"
  shows "adoptable C D network now updated r \<longleftrightarrow>
    (if Waiting (rc_dec C) r \<noteq> [] then \<not> networkHolds (rc_dec C) network (Inr sp) r
     else LastFailure r = None \<or> updated + min RetryMax (RetryDelay * 2 ^ nat (l_epoch (j_lease r) - 1)) \<le> now)"
  using assms by (auto simp: adoptable_def Let_def RetryAfter_wait refuseUnportableSink_def)


section \<open>Acknowledging what arrived\<close>

definition takeable ::
  "('s, 'd) run_conf \<Rightarrow> 'd doc_ops \<Rightarrow> (string \<Rightarrow> node option) \<Rightarrow> 'd job_record \<Rightarrow> bool" where
  "takeable C D fs r =
     (if j_kind r \<noteq> Kind \<or> j_state r \<noteq> StateTransferred then False
      else case SpecOf D r of
        Inl _ \<Rightarrow> False
      | Inr sp \<Rightarrow>
          (case LocalSink (rc_names C) (rc_root C) (j_id r) (sp_sink sp) of
             Inl _ \<Rightarrow> False
           | Inr (_, final) \<Rightarrow>
               (case stat_of fs final of
                  IsFile sz \<Rightarrow> \<not> (0 < p_total (j_progress r) \<and> sz \<noteq> p_total (j_progress r))
                | _ \<Rightarrow> (case j_delegation r of None \<Rightarrow> True | Some d \<Rightarrow> d_delivered d))))"

fun take_from ::
  "('s, 'd) run_conf \<Rightarrow> 'd doc_ops \<Rightarrow> ('s, 'd) store_ops \<Rightarrow> string \<Rightarrow> (string \<Rightarrow> node option) \<Rightarrow> 'd job_record list \<Rightarrow> nat \<Rightarrow> 's \<Rightarrow>
   nat \<times> 's" where
  "take_from C D J who fs [] n s = (n, s)"
| "take_from C D J who fs (r # rs) n s =
     (if \<not> takeable C D fs r then take_from C D J who fs rs n s
      else case TakeDelivery J who (j_id r) s of
        (Some _, s) \<Rightarrow> take_from C D J who fs rs n s
      | (None, s) \<Rightarrow> take_from C D J who fs rs (Suc n) s)"

definition TakeDeliveryAll ::
  "('s, 'd) run_conf \<Rightarrow> 'd doc_ops \<Rightarrow> ('s, 'd) store_ops \<Rightarrow> string \<Rightarrow> 'd job_record list \<times> err option \<Rightarrow> 's world \<Rightarrow>
   (nat \<times> err option) \<times> 's world" where
  "TakeDeliveryAll C D J who listed w =
     (case readable listed of
        (_, _, Some e) \<Rightarrow> ((0, Some e), w)
      | (rs, unread, None) \<Rightarrow>
          (case take_from C D J who (w_files w) rs 0 (w_store w) of (n, s) \<Rightarrow> ((n, unread), w\<lparr>w_store := s\<rparr>)))"

context store_layer
begin

lemma TakeDelivery_state:
  assumes "TakeDelivery J who jid s = (x, s')" "so_load J jid s = Inr r"
  shows "\<exists>l st. so_load J jid s' = Inr (r\<lparr>j_state := st, j_lease := l\<rparr>) \<and>
    (st = j_state r \<or> j_state r = StateTransferred \<and> st = StateComplete)"
proof -
  show ?thesis
  proof (cases "j_state r = StateTransferred")
    case False
    then have "s' = s" using assms by (auto simp: TakeDelivery_def split: if_splits)
    then show ?thesis using assms(2) by (intro exI [of _ "j_lease r"] exI [of _ "j_state r"]) simp
  next
    case True
    obtain y s1 where c: "so_claim J jid who s = (y, s1)" by (metis surj_pair)
    show ?thesis
    proof (cases y)
      case (Inl e)
      with assms True c have "s' = s1" by (auto simp: TakeDelivery_def)
      with claim_Inl [of jid who s e s1 jid] c Inl assms(2) show ?thesis
        by (intro exI [of _ "j_lease r"] exI [of _ "j_state r"]) simp
    next
      case (Inr mine)
      with claim_Inr [of jid who s mine s1] c assms(2)
      have "mine = r\<lparr>j_lease := j_lease mine, j_state := claimed_state (j_state r)\<rparr>" and l: "so_load J jid s1 = Inr mine"
        by auto
      moreover have "r\<lparr>j_lease := v, j_state := claimed_state (j_state r)\<rparr> = r\<lparr>j_lease := v\<rparr>" for v
        using True by (cases r) (simp add: claimed_state_def)
      ultimately have m: "mine = r\<lparr>j_lease := j_lease mine\<rparr>" "so_load J jid s1 = Inr mine" by metis+
      let ?g = "\<lambda>rr. Inr (rr\<lparr>j_state := StateComplete\<rparr>)"
      obtain z s2 where u: "so_update J jid (l_epoch (j_lease mine)) ?g s1 = (z, s2)" by (metis surj_pair)
      have s2: "s' = s2" using assms True c Inr u by (auto simp: TakeDelivery_def split: sum.splits)
      show ?thesis
      proof (cases z)
        case (Inl e)
        with update_Inl [of jid _ ?g s1 e s2 jid] u m have "so_load J jid s2 = Inr mine" by metis
        then have "so_load J jid s' = Inr (r\<lparr>j_lease := j_lease mine\<rparr>)" using m(1) s2 by simp
        then show ?thesis by (intro exI [of _ "j_lease mine"] exI [of _ "j_state r"]) simp
      next
        case (Inr r')
        with update_Inr [of jid _ ?g s1 r' s2] u m(2) have "so_load J jid s2 = Inr (mine\<lparr>j_state := StateComplete\<rparr>)" by auto
        moreover have "mine\<lparr>j_state := StateComplete\<rparr> = r\<lparr>j_state := StateComplete, j_lease := j_lease mine\<rparr>"
          by (subst m(1)) simp
        ultimately show ?thesis using s2 True
          by (intro exI [of _ "j_lease mine"] exI [of _ StateComplete]) simp
      qed
    qed
  qed
qed

text \<open>A sweep leaves alone every record it does not take, and the bytes and words of those it does.\<close>

lemma take_from_frame:
  assumes "take_from C D J who fs rs n s = (n', s')"
  shows "(\<forall>r\<in>set rs. takeable C D fs r \<longrightarrow> j_id r \<noteq> k) \<Longrightarrow> so_load J k s' = so_load J k s"
    and "n' \<le> n + length (filter (takeable C D fs) rs)"
  using assms
proof (induction rs arbitrary: n s)
  case (Cons r rs)
  {
    case 1
    then show ?case
      using Cons.IH(1) TakeDelivery_other by (fastforce split: if_splits prod.splits option.splits)
  next
    case 2
    then show ?case using Cons.IH(2) by (fastforce split: if_splits prod.splits option.splits)
  }
qed simp_all

lemma take_from_state:
  assumes "take_from C D J who fs rs n s = (n', s')" "so_load J k s = Inr r0"
  shows "\<exists>l st. so_load J k s' = Inr (r0\<lparr>j_state := st, j_lease := l\<rparr>) \<and>
    (st = j_state r0 \<or> j_state r0 = StateTransferred \<and> st = StateComplete)"
  using assms
proof (induction rs arbitrary: n s r0)
  case Nil
  then show ?case by (intro exI [of _ "j_lease r0"] exI [of _ "j_state r0"]) simp
next
  case (Cons r rs)
  show ?case
  proof (cases "takeable C D fs r")
    case False
    with Cons show ?thesis by simp
  next
    case True
    obtain x s1 where t: "TakeDelivery J who (j_id r) s = (x, s1)" by (metis surj_pair)
    obtain n1 where rest: "take_from C D J who fs rs n1 s1 = (n', s')"
      using Cons.prems(1) True t by (cases x) auto
    obtain l st where 1: "so_load J k s1 = Inr (r0\<lparr>j_state := st, j_lease := l\<rparr>)"
      "st = j_state r0 \<or> j_state r0 = StateTransferred \<and> st = StateComplete"
    proof (cases "k = j_id r")
      case True
      with TakeDelivery_state [OF t] Cons.prems(2) that show thesis by blast
    next
      case False
      with TakeDelivery_other [OF t False] Cons.prems(2) show thesis
        by (intro that [of "j_lease r0" "j_state r0"]) simp_all
    qed
    from Cons.IH [OF rest 1(1)] 1(2) show ?thesis by auto
  qed
qed

end

section \<open>Stores that are shared\<close>

definition pathSeparator :: "char \<Rightarrow> bool" where
  "pathSeparator c \<longleftrightarrow> c = slash \<or> c = backslash"

definition SharedStoreRoot :: "string \<Rightarrow> bool" where
  "SharedStoreRoot root \<longleftrightarrow> 2 \<le> length root \<and> pathSeparator (root ! 0) \<and> pathSeparator (root ! 1)"

lemma SharedStoreRoot_spelling:
  "SharedStoreRoot (replace_char backslash slash root) \<longleftrightarrow> SharedStoreRoot root"
  by (cases root rule: remdups_adj.cases)
    (auto simp: SharedStoreRoot_def pathSeparator_def replace_char_def)

end
