(* ===== verification/Delegation.thy ===== *)
theory Delegation
  imports Declarations Adoption
begin

text \<open>
  Handing a job to a delegate: \<open>Delegate\<close>, \<open>located\<close>, \<open>unhand\<close> and \<open>DelegateAll\<close> of \<open>go/delegator.go\<close>.

  The point of the protocol is that no delegate ever holds work no record names. Before a delegate that
  can be asked is started, the record says that this request may be in its hands; afterwards it says
  under which handle, or nothing. The locale \<open>delegates\<close> states what a delegate promises; the lemmas show that
  whatever answer is lost and whatever write is refused, a delegate holding the work is named by the
  record.
\<close>

section \<open>Starting one delegate\<close>

text \<open>\<open>ha_given\<close>: the runner has a list of delegates at all, were it empty.\<close>

record ('s, 'd, 'x) hand =
  ha_conf :: "('s, 'd) run_conf"
  ha_env :: "('s, 'd) run_env"
  ha_hosts :: host_ops
  ha_refuted :: refuted_claims
  ha_given :: bool
  ha_tiers :: "'x tier list"
  ha_reach :: "string \<Rightarrow> err option"

datatype started = Holds string | Declined | Unsure err

definition located :: "'x tier \<Rightarrow> string \<Rightarrow> 'x \<Rightarrow> (err + string) \<times> 'x" where
  "located d request x = (case dg_locate d of None \<Rightarrow> (Inr [], x) | Some f \<Rightarrow> f request x)"

definition start_on :: "'x tier \<Rightarrow> spec \<Rightarrow> int \<Rightarrow> string \<Rightarrow> 'x \<Rightarrow> started \<times> 'x" where
  "start_on d one from jid x =
     (case dg_start d one from x of
        (Inr ext, x) \<Rightarrow> (Holds ext, x)
      | (Inl _, x) \<Rightarrow>
          (case located d jid x of
             (Inl why, x) \<Rightarrow> (Unsure why, x)
           | (Inr found, x) \<Rightarrow> (if found = [] then Declined else Holds found, x)))"

definition hand_over ::
  "('s, 'd) run_env \<Rightarrow> string \<Rightarrow> string \<Rightarrow> 's world \<Rightarrow> err option \<times> 's world" where
  "hand_over E sys ext w =
     put E (\<lambda>rr. rr\<lparr>j_delegation := Some \<lparr>d_system = sys, d_external = ext, d_delivered = False\<rparr>,
       j_state := StateRunning\<rparr>) w"

definition unhand :: "('s, 'd) run_env \<Rightarrow> 's world \<Rightarrow> err option \<times> 's world" where
  "unhand E w = put E (\<lambda>rr. rr\<lparr>j_delegation := None, j_state := StatePending\<rparr>) w"

text \<open>\<open>Store.Release\<close> whose answer nobody reads.\<close>

definition drop_lease :: "('s, 'd) run_env \<Rightarrow> 's world \<Rightarrow> 's world" where
  "drop_lease E w = w\<lparr>w_store := snd (so_release (en_store E) (en_id E) (en_epoch E) (w_store w))\<rparr>"

text \<open>One source's delegate: \<open>None\<close> where the next source is tried.\<close>

definition delegate_to ::
  "('s, 'd) run_env \<Rightarrow> 'x tier \<Rightarrow> spec \<Rightarrow> int \<Rightarrow> 's world \<Rightarrow> 'x \<Rightarrow> (err option) option \<times> 's world \<times> 'x" where
  "delegate_to E d one from w x =
     (let jid = en_id E; canFind = (dg_locate d \<noteq> None) in
      case (if canFind then hand_over E (dg_system d) jid w else (None, w)) of
        (Some e, w) \<Rightarrow> (Some (Some e), drop_lease E w, x)
      | (None, w) \<Rightarrow>
          (case start_on d one from jid x of
             (Unsure why, x) \<Rightarrow>
               (Some (Some (Errorf [Err (Var ErrOutcomeUnknown), Lit '': '', Str (dg_system d), Lit '': '', Shown why])),
                drop_lease E w, x)
           | (Declined, x) \<Rightarrow>
               (if canFind then
                  (case unhand E w of
                     (Some e, w) \<Rightarrow> (Some (Some e), drop_lease E w, x)
                   | (None, w) \<Rightarrow> (None, w, x))
                else (None, w, x))
           | (Holds ext, x) \<Rightarrow>
               if ext = jid then
                 (case dg_abandon d ext x of
                    (stray, x) \<Rightarrow>
                      (Some (join_errs [Some (Errorf [Err (Var ErrClaimFalsified), Lit '': '', Str (dg_system d),
                          Lit '' returned the request id as its own handle'']), stray]), drop_lease E w, x))
               else
                 (case hand_over E (dg_system d) ext w of
                    (Some e, w) \<Rightarrow> (case dg_abandon d ext x of (stray, x) \<Rightarrow> (Some (join_errs [Some e, stray]), w, x))
                  | (None, w) \<Rightarrow> (Some None, drop_lease E w, x))))"

section \<open>Over the sources\<close>

fun delegate_from ::
  "('s, 'd, 'x) hand \<Rightarrow> spec \<Rightarrow> string list \<Rightarrow> int \<Rightarrow> string \<Rightarrow> string \<Rightarrow> source list \<Rightarrow> (string \<times> string) list \<Rightarrow> 's world \<Rightarrow> 'x \<Rightarrow>
   err option \<times> 's world \<times> 'x" where
  "delegate_from A sp requires from partial final [] said w x =
     (Some (if said = [] then Var ErrNoDelegator
            else Errorf [Err (Var ErrNoDelegator), Lit '' ('', Str (refusedBy said), Lit '')'']),
      drop_lease (ha_env A) w, x)"
| "delegate_from A sp requires from partial final (src # srcs) said w x =
     (if ha_reach A (s_locator src) \<noteq> None then delegate_from A sp requires from partial final srcs said w x
      else let one = sp\<lparr>sp_sources := [src]\<rparr> in
        case ForSpec (ha_hosts A) (ha_refuted A) (ha_tiers A) one src requires of
          None \<Rightarrow> delegate_from A sp requires from partial final srcs
                    (said @ WhyNot (ha_hosts A) (ha_refuted A) (ha_tiers A) one src requires) w x
        | Some d \<Rightarrow>
            (case delegate_to (ha_env A) d
                    (one\<lparr>sp_sink := \<lparr>k_partial = partial, k_final = final\<rparr>, sp_request := en_id (ha_env A)\<rparr>) from w x of
               (Some answer, w, x) \<Rightarrow> (answer, w, x)
             | (None, w, x) \<Rightarrow> delegate_from A sp requires from partial final srcs said w x))"

text \<open>\<open>Delegate\<close> once the job is claimed; the runner has a registry of delegates.\<close>

definition delegate_claimed ::
  "('s, 'd, 'x) hand \<Rightarrow> 'd job_record \<Rightarrow> 's world \<Rightarrow> 'x \<Rightarrow> err option \<times> 's world \<times> 'x" where
  "delegate_claimed A rec w x =
     (let E = ha_env A; C = ha_conf A; jid = en_id E in
      case j_delegation rec of
        Some dl \<Rightarrow>
          (case let_go E w of
             (e, w) \<Rightarrow> (join_errs [Some (Var (if d_external dl = jid then ErrOutcomeUnknown else ErrAlreadyDelegated)), e], w, x))
      | None \<Rightarrow>
          (case SpecOf (en_docs E) rec of
             Inl e \<Rightarrow> (Some e, w, x)
           | Inr sp \<Rightarrow>
               (case CheckpointOf (en_ranges E) (en_docs E) rec of
                  Inl e \<Rightarrow> (Some e, w, x)
                | Inr cp \<Rightarrow>
                    (let requires = j_requires rec @ (if 0 < c_prefix cp then [CapResume] else []) in
                     if proven C (en_docs E) w (a_digest (sp_artifact sp)) jid \<noteq> [] then
                       (Some (Var ErrNoDelegator), drop_lease E w, x)
                     else (case LocalSink (rc_names C) (rc_root C) jid (sp_sink sp) of
                        Inl e \<Rightarrow> (Some e, drop_lease E w, x)
                      | Inr (partial, final) \<Rightarrow>
                          delegate_from A sp requires (c_prefix cp) partial final (sp_sources sp) [] w x)))))"

definition Delegate ::
  "('s, 'd, 'x) hand \<Rightarrow> string \<Rightarrow> 's world \<Rightarrow> 'x \<Rightarrow> err option \<times> 's world \<times> 'x" where
  "Delegate A who w x =
     (let E = ha_env A in
      if \<not> ha_given A then (Some (Var ErrNoDelegator), w, x)
      else case so_claim (en_store E) (en_id E) who (w_store w) of
        (Inl e, s) \<Rightarrow> (Some e, w\<lparr>w_store := s\<rparr>, x)
      | (Inr rec, s) \<Rightarrow>
          delegate_claimed (A\<lparr>ha_env := E\<lparr>en_epoch := l_epoch (j_lease rec)\<rparr>\<rparr>) rec (w\<lparr>w_store := s\<rparr>) x)"


section \<open>No work without a name\<close>

text \<open>
  What a delegate promises (the comments of \<open>Delegator\<close> and \<open>Locator\<close>), for a request it has never
  seen (\<open>fresh\<close>): starting it changes nothing another delegate or another request holds; the handle
  answered, by \<open>Start\<close> or after it by \<open>Locate\<close>, is the handle of that work; an empty answer of
  \<open>Locate\<close>, or the refusal of a delegate that cannot be asked, is a positive claim; abandoning the
  handle drops the work, or says that it did not.
\<close>

locale delegates =
  fixes ds :: "'x tier list"
    and holds :: "string \<Rightarrow> string \<Rightarrow> 'x \<Rightarrow> bool"
    and handle :: "string \<Rightarrow> string \<Rightarrow> string \<Rightarrow> 'x \<Rightarrow> bool"
    and fresh :: "string \<Rightarrow> 'x \<Rightarrow> bool"
  assumes fresh_free: "\<And>req x sys. fresh req x \<Longrightarrow> \<not> holds sys req x"
    and start_own: "\<And>d sp n x r x' sys req. d \<in> set ds \<Longrightarrow> dg_start d sp n x = (r, x') \<Longrightarrow> holds sys req x' \<Longrightarrow>
      holds sys req x \<or> sys = dg_system d \<and> req = sp_request sp"
    and start_handle: "\<And>d sp n x ext x'. d \<in> set ds \<Longrightarrow> fresh (sp_request sp) x \<Longrightarrow> dg_start d sp n x = (Inr ext, x') \<Longrightarrow>
      handle (dg_system d) ext (sp_request sp) x'"
    and start_refuses: "\<And>d sp n x e x'. d \<in> set ds \<Longrightarrow> fresh (sp_request sp) x \<Longrightarrow> dg_start d sp n x = (Inl e, x') \<Longrightarrow>
      dg_locate d = None \<Longrightarrow> fresh (sp_request sp) x'"
    and locate_pure: "\<And>d f req x r x' sys q. d \<in> set ds \<Longrightarrow> dg_locate d = Some f \<Longrightarrow> f req x = (r, x') \<Longrightarrow>
      holds sys q x' \<Longrightarrow> holds sys q x"
    and locate_empty: "\<And>d f sp n x e x1 x2. d \<in> set ds \<Longrightarrow> fresh (sp_request sp) x \<Longrightarrow> dg_start d sp n x = (Inl e, x1) \<Longrightarrow>
      dg_locate d = Some f \<Longrightarrow> f (sp_request sp) x1 = (Inr [], x2) \<Longrightarrow> fresh (sp_request sp) x2"
    and locate_handle: "\<And>d f sp n x e x1 ext x2. d \<in> set ds \<Longrightarrow> fresh (sp_request sp) x \<Longrightarrow> dg_start d sp n x = (Inl e, x1) \<Longrightarrow>
      dg_locate d = Some f \<Longrightarrow> f (sp_request sp) x1 = (Inr ext, x2) \<Longrightarrow> ext \<noteq> [] \<Longrightarrow>
      handle (dg_system d) ext (sp_request sp) x2"
    and abandon_drops: "\<And>d ext x e x' sys req. d \<in> set ds \<Longrightarrow> dg_abandon d ext x = (e, x') \<Longrightarrow> holds sys req x' \<Longrightarrow>
      holds sys req x \<and> (handle (dg_system d) ext req x \<longrightarrow> sys = dg_system d \<longrightarrow> e \<noteq> None)"

text \<open>The record names the delegate; the last thing done was an abandon the delegate refused.\<close>

definition names_delegate :: "('s, 'd) run_env \<Rightarrow> string \<Rightarrow> 's world \<Rightarrow> bool" where
  "names_delegate E sys w \<longleftrightarrow>
     (case so_load (en_store E) (en_id E) (w_store w) of
        Inl _ \<Rightarrow> False
      | Inr r \<Rightarrow> (case j_delegation r of None \<Rightarrow> False | Some dl \<Rightarrow> d_system dl = sys))"

definition abandon_refused :: "'x tier list \<Rightarrow> string \<Rightarrow> 'x \<Rightarrow> bool" where
  "abandon_refused ds sys x' \<longleftrightarrow> (\<exists>d\<in>set ds. dg_system d = sys \<and> (\<exists>ext x e. dg_abandon d ext x = (Some e, x')))"

context store_layer
begin

lemma put_load:
  assumes "put E g w = (None, w')" "en_store E = J"
  shows "\<exists>r. so_load J (en_id E) (w_store w) = Inr r \<and> so_load J (en_id E) (w_store w') = Inr (g r) \<and> w_files w' = w_files w"
proof -
  obtain r' s' where u: "so_update J (en_id E) (en_epoch E) (\<lambda>rr. Inr (g rr)) (w_store w) = (Inr r', s')" "w' = w\<lparr>w_store := s'\<rparr>"
    using assms by (auto simp: put_def split: prod.splits sum.splits)
  from update_Inr [OF u(1)] u(2) show ?thesis by auto
qed

lemma put_refused:
  assumes "put E g w = (Some e, w')" "en_store E = J"
  shows "so_load J k (w_store w') = so_load J k (w_store w)"
proof -
  obtain s' where u: "so_update J (en_id E) (en_epoch E) (\<lambda>rr. Inr (g rr)) (w_store w) = (Inl e, s')" "w' = w\<lparr>w_store := s'\<rparr>"
    using assms by (auto simp: put_def split: prod.splits sum.splits)
  from update_Inl [OF u(1)] u(2) show ?thesis by simp
qed

lemma drop_lease_names:
  assumes "en_store E = J" "names_delegate E sys w"
  shows "names_delegate E sys (drop_lease E w)"
proof -
  obtain r where r: "so_load J (en_id E) (w_store w) = Inr r"
    using assms by (auto simp: names_delegate_def split: sum.splits)
  obtain x s' where rel: "so_release J (en_id E) (en_epoch E) (w_store w) = (x, s')" by (metis surj_pair)
  from release_keeps [OF rel r] obtain l where "so_load J (en_id E) s' = Inr (r\<lparr>j_lease := l\<rparr>)" by blast
  then show ?thesis using assms r rel by (simp add: names_delegate_def drop_lease_def)
qed

lemma hand_over_names:
  "hand_over E sys ext w = (None, w') \<Longrightarrow> en_store E = J \<Longrightarrow> names_delegate E sys w'"
  using put_load by (fastforce simp: hand_over_def names_delegate_def)

end

locale handoff = store_layer J + delegates ds holds handle fresh
  for J :: "('s, 'd) store_ops" and ds :: "'x tier list"
    and holds :: "string \<Rightarrow> string \<Rightarrow> 'x \<Rightarrow> bool" and handle :: "string \<Rightarrow> string \<Rightarrow> string \<Rightarrow> 'x \<Rightarrow> bool"
    and fresh :: "string \<Rightarrow> 'x \<Rightarrow> bool"
begin

lemma start_on_holds:
  assumes "d \<in> set ds" "sp_request one = jid" "fresh jid x" "start_on d one n jid x = (r, x')"
  shows "holds sys jid x' \<Longrightarrow> sys = dg_system d" "r = Declined \<Longrightarrow> fresh jid x'"
    "r = Holds ext \<Longrightarrow> handle (dg_system d) ext jid x'" "r = Unsure why \<Longrightarrow> dg_locate d \<noteq> None"
proof -
  obtain s x1 where s: "dg_start d one n x = (s, x1)" by (rule prod.exhaust)
  have own: "holds sys jid x1 \<Longrightarrow> sys = dg_system d" for sys
    using start_own [OF assms(1) s] fresh_free [OF assms(3)] by blast
  obtain l x2 where l: "located d jid x1 = (l, x2)" by (rule prod.exhaust)
  have pure: "holds sys jid x2 \<Longrightarrow> sys = dg_system d" for sys
    using l own locate_pure [OF assms(1)] by (auto simp: located_def split: option.splits)
  note f = assms(3) [folded assms(2)]
  have empty: "l = Inr [] \<Longrightarrow> s = Inl e \<Longrightarrow> fresh jid x2" for e
    using l s start_refuses [OF assms(1) f] locate_empty [OF assms(1) f] assms(2)
    by (auto simp: located_def split: option.splits)
  show "holds sys jid x' \<Longrightarrow> sys = dg_system d"
    using assms(4) s l own pure by (auto simp: start_on_def split: sum.splits)
  show "r = Declined \<Longrightarrow> fresh jid x'"
    using assms(4) s l pure empty by (auto simp: start_on_def split: sum.splits if_splits)
  show "r = Holds ext \<Longrightarrow> handle (dg_system d) ext jid x'"
    using assms(2,4) s l start_handle [OF assms(1) f] locate_handle [OF assms(1) f]
    by (auto simp: start_on_def located_def split: sum.splits if_splits option.splits)
  show "r = Unsure why \<Longrightarrow> dg_locate d \<noteq> None"
    using assms(4) s l by (cases "dg_locate d") (auto simp: start_on_def located_def split: sum.splits if_splits)
qed

lemma abandon_named:
  assumes "d \<in> set ds" "dg_abandon d ext x = (e, x')" "handle (dg_system d) ext jid x"
    and "\<And>sys. holds sys jid x \<Longrightarrow> sys = dg_system d" "holds sys jid x'"
  shows "abandon_refused ds sys x'"
proof -
  have h: "holds sys jid x" "sys = dg_system d \<longrightarrow> e \<noteq> None" using abandon_drops [OF assms(1,2,5)] assms(3) by blast+
  with assms(1,2,4) show ?thesis by (force simp: abandon_refused_def)
qed

lemma delegate_to_named:
  assumes "en_store E = J" "d \<in> set ds" "sp_request one = en_id E" "fresh (en_id E) x"
    and "delegate_to E d one n w x = (ans, w', x')"
  shows "ans = None \<Longrightarrow> fresh (en_id E) x'"
    and "holds sys (en_id E) x' \<Longrightarrow> names_delegate E sys w' \<or> abandon_refused ds sys x'"
proof -
  define canFind where "canFind = (dg_locate d \<noteq> None)"
  obtain i w1 where i: "(if canFind then hand_over E (dg_system d) (en_id E) w else (None, w)) = (i, w1)" by (metis surj_pair)
  obtain r x1 where s: "start_on d one n (en_id E) x = (r, x1)" by (metis surj_pair)
  note st = start_on_holds [OF assms(2-4) s]
  note step = assms(5) [unfolded delegate_to_def Let_def canFind_def [symmetric] i s]
  have named: "canFind \<Longrightarrow> i = None \<Longrightarrow> names_delegate E (dg_system d) w1"
    using i hand_over_names assms(1) by auto
  obtain u w2 where u: "unhand E w1 = (u, w2)" by (metis surj_pair)
  show "ans = None \<Longrightarrow> fresh (en_id E) x'"
    using step st(2) by (auto split: option.splits started.splits if_splits prod.splits)
  assume h: "holds sys (en_id E) x'"
  show "names_delegate E sys w' \<or> abandon_refused ds sys x'"
  proof (cases i)
    case (Some e)
    with fresh_free [OF assms(4)] step h show ?thesis by auto
  next
    case None
    show ?thesis
    proof (cases r)
      case (Unsure why)
      with st(4) have "canFind" by (simp add: canFind_def)
      moreover have "x' = x1" "w' = drop_lease E w1"
        using step None Unsure by auto
      ultimately show ?thesis using named None h st(1) drop_lease_names [OF assms(1)] by metis
    next
      case Declined
      have "x' = x1" using step None u Declined by (auto split: if_splits option.splits)
      with st(2) Declined h fresh_free show ?thesis by blast
    next
      case (Holds ext)
      obtain stray x2 where a: "dg_abandon d ext x1 = (stray, x2)" by (metis surj_pair)
      obtain v w3 where v: "hand_over E (dg_system d) ext w1 = (v, w3)" by (metis surj_pair)
      have drop: "x' = x2 \<Longrightarrow> abandon_refused ds sys x'"
        using abandon_named [OF assms(2) a st(3) [OF Holds], of sys] st(1) h by blast
      show ?thesis
      proof (cases "ext = en_id E \<or> v \<noteq> None")
        case True
        with step None Holds a v have "x' = x2" by (auto split: if_splits)
        with drop show ?thesis by blast
      next
        case False
        with step None Holds v have "x' = x1" "w' = drop_lease E w3" by auto
        moreover have "names_delegate E (dg_system d) w3" using hand_over_names [of E _ ext w1 w3] v False assms(1) by auto
        ultimately show ?thesis using st(1) h drop_lease_names [OF assms(1)] by metis
      qed
    qed
  qed
qed

lemma delegate_from_named:
  assumes "en_store (ha_env A) = J" "ha_tiers A = ds" "fresh (en_id (ha_env A)) x"
    and "delegate_from A sp requires n partial final srcs said w x = (e, w', x')"
  shows "holds sys (en_id (ha_env A)) x' \<Longrightarrow> names_delegate (ha_env A) sys w' \<or> abandon_refused ds sys x'"
  using assms(3,4)
proof (induction srcs arbitrary: said w x)
  case Nil
  then show ?case using fresh_free [of "en_id (ha_env A)" x sys] by auto
next
  case (Cons src srcs)
  let ?one = "sp\<lparr>sp_sources := [src]\<rparr>"
  show ?case
  proof (cases "ha_reach A (s_locator src) \<noteq> None \<or> ForSpec (ha_hosts A) (ha_refuted A) ds ?one src requires = None")
    case True
    with Cons assms(2) show ?thesis by (auto simp: Let_def split: if_splits)
  next
    case False
    then obtain d where d: "ForSpec (ha_hosts A) (ha_refuted A) ds ?one src requires = Some d" by blast
    then have mem: "d \<in> set ds" using ForSpec_Some by blast
    let ?job = "?one\<lparr>sp_sink := \<lparr>k_partial = partial, k_final = final\<rparr>, sp_request := en_id (ha_env A)\<rparr>"
    have req: "sp_request ?job = en_id (ha_env A)" by simp
    obtain ans w1 x1 where t: "delegate_to (ha_env A) d ?job n w x = (ans, w1, x1)" by (metis prod_cases3)
    note dt = delegate_to_named [OF assms(1) mem req Cons.prems(2) t]
    have step: "delegate_from A sp requires n partial final (src # srcs) said w x =
        (case ans of Some answer \<Rightarrow> (answer, w1, x1) | None \<Rightarrow> delegate_from A sp requires n partial final srcs said w1 x1)"
      using False d t assms(2) by (simp add: Let_def split: option.split)
    show ?thesis
    proof (cases ans)
      case None
      with step Cons.prems(3) have "delegate_from A sp requires n partial final srcs said w1 x1 = (e, w', x')" by simp
      with Cons.IH [OF Cons.prems(1)] dt(1) None show ?thesis by blast
    next
      case (Some answer)
      with step Cons.prems dt(2) show ?thesis by simp
    qed
  qed
qed

text \<open>Whatever \<open>Delegate\<close> answers, a delegate that holds the work is named by the record.\<close>

lemma Delegate_named:
  assumes "en_store (ha_env A) = J" "ha_tiers A = ds" "fresh (en_id (ha_env A)) x"
    and "Delegate A who w x = (e, w', x')" "holds sys (en_id (ha_env A)) x'"
  shows "names_delegate (ha_env A) sys w' \<or> abandon_refused ds sys x'"
proof -
  obtain c s where c: "so_claim J (en_id (ha_env A)) who (w_store w) = (c, s)" by (metis surj_pair)
  obtain rec where rec: "c = Inr rec" "ha_given A"
    using assms c fresh_free [of "en_id (ha_env A)" x sys] by (cases c) (auto simp: Delegate_def Let_def split: if_splits)
  define A1 where "A1 = A\<lparr>ha_env := (ha_env A)\<lparr>en_epoch := l_epoch (j_lease rec)\<rparr>\<rparr>"
  have A1: "en_store (ha_env A1) = J" "ha_tiers A1 = ds" "en_id (ha_env A1) = en_id (ha_env A)"
    using assms(1,2) by (simp_all add: A1_def)
  have names: "names_delegate (ha_env A1) sys w' = names_delegate (ha_env A) sys w'"
    using assms(1) by (simp add: A1_def names_delegate_def)
  have run: "delegate_claimed A1 rec (w\<lparr>w_store := s\<rparr>) x = (e, w', x')"
    using assms(1,4) c rec by (simp add: Delegate_def A1_def Let_def)
  have "(\<exists>sp requires n partial final. delegate_from A1 sp requires n partial final (sp_sources sp) []
      (w\<lparr>w_store := s\<rparr>) x = (e, w', x')) \<or> x' = x"
    using run unfolding delegate_claimed_def Let_def by (auto split: option.splits sum.splits if_splits prod.splits) blast+
  then show ?thesis
    using delegate_from_named [OF A1(1,2)] fresh_free [OF assms(3)] assms(3,5) A1(3) names by metis
qed

end

end
