(* ===== verification/Keeper.thy ===== *)
theory Keeper
  imports Store_Seat Streaming
begin

text \<open>
  Holding a lease while nothing is written: the keeper of \<open>go/keeper.go\<close>, the progress steps of
  \<open>go/delegator.go\<close> that double as its proof of life, the hashing of a delivered file
  (\<open>hashFile\<close>, \<open>copyReporting\<close> of \<open>go/runner.go\<close>) and the watcher of \<open>go/intent_watch.go\<close>.

  The goroutine of \<open>hold\<close> and the work it guards share the keeper; what happens between them is a list
  of events. Times are nanoseconds; \<open>dur\<close> prints one.
\<close>

section \<open>The keeper\<close>

record keeper =
  kp_id :: string
  kp_epoch :: int
  kp_ttl :: int
  kp_budget :: int
  kp_last :: int
  kp_fence :: "err option"
  kp_held :: bool
  kp_cancelled :: bool

definition second :: int where "second = 1000000000"
definition DefaultSilenceBudget :: int where "DefaultSilenceBudget = 300 * second"

definition keepWatching :: "int \<Rightarrow> int \<Rightarrow> string \<Rightarrow> int \<Rightarrow> int \<Rightarrow> keeper" where
  "keepWatching silence ttl jid epoch now =
     \<lparr>kp_id = jid, kp_epoch = epoch, kp_ttl = (if ttl \<le> 0 then 30 * second else ttl),
      kp_budget = (if silence \<le> 0 then DefaultSilenceBudget else silence),
      kp_last = now, kp_fence = None, kp_held = True, kp_cancelled = False\<rparr>"

definition renewEvery :: "int \<Rightarrow> int" where
  "renewEvery ttl = (if ttl div 3 < 1000000 then 1000000 else ttl div 3)"

definition beat :: "int \<Rightarrow> keeper \<Rightarrow> keeper" where
  "beat now k = k\<lparr>kp_last := now\<rparr>"

definition refuse_keeper :: "err \<Rightarrow> keeper \<Rightarrow> keeper" where
  "refuse_keeper e k = k\<lparr>kp_fence := (case kp_fence k of None \<Rightarrow> Some e | Some f \<Rightarrow> Some f), kp_cancelled := True\<rparr>"

definition refused_write :: "err \<Rightarrow> keeper \<Rightarrow> keeper" where
  "refused_write e k = (if fencing e then refuse_keeper e k else k)"

text \<open>One tick of \<open>hold\<close>; the record a renewal read is what \<open>watch\<close> is handed.\<close>

definition hold_tick ::
  "('s, 'd) store_ops \<Rightarrow> (int \<Rightarrow> string) \<Rightarrow> int \<Rightarrow> keeper \<Rightarrow> 's \<Rightarrow> keeper \<times> 's \<times> 'd job_record option" where
  "hold_tick J dur now k s =
     (if \<not> kp_held k then (k, s, None)
      else let silent = now - kp_last k in
        if kp_fence k \<noteq> None then (k\<lparr>kp_held := False\<rparr>, s, None)
        else if kp_budget k \<le> silent then
          ((refuse_keeper (Errorf [Err (Var ErrStalled), Lit '': nothing for '', Str (dur (silent div second * second))]) k)
             \<lparr>kp_held := False\<rparr>, s, None)
        else case so_renew J (kp_id k) (kp_epoch k) s of
          (Inr rec, s) \<Rightarrow> (k, s, Some rec)
        | (Inl e, s) \<Rightarrow>
            if err_is_foreign e JobStaleEpoch \<or> err_is_foreign e JobLeaseExpiry \<or> err_is_foreign e JobNotFound
            then ((refuse_keeper e k)\<lparr>kp_held := False\<rparr>, s, None) else (k, s, None))"

definition stop_keeper :: "keeper \<Rightarrow> err option \<times> keeper" where
  "stop_keeper k = (kp_fence k, k\<lparr>kp_held := False, kp_cancelled := True\<rparr>)"

text \<open>\<open>Runner.step\<close>.\<close>

definition show_step ::
  "('s, 'd) store_ops \<Rightarrow> int \<Rightarrow> job_step \<Rightarrow> keeper \<Rightarrow> 's \<Rightarrow> keeper \<times> 's" where
  "show_step J now st k s =
     (case so_update J (kp_id k) (kp_epoch k) (\<lambda>rr. Inr (rr\<lparr>j_progress :=
          (j_progress rr)\<lparr>p_step := Some st, p_updated := now\<rparr>\<rparr>)) s of
        (Inl e, s) \<Rightarrow> (refused_write e k, s)
      | (Inr _, s) \<Rightarrow> (beat now k, s))"

section \<open>A guarded operation\<close>

text \<open>
  What may happen while the keeper holds: a tick of its timer, a beat of the work, a step the work
  shows, and a write of somebody else.
\<close>

datatype 's held_event = Tick int | Moved int | Show int job_step | Other "'s \<Rightarrow> 's"

fun held_step ::
  "('s, 'd) store_ops \<Rightarrow> (int \<Rightarrow> string) \<Rightarrow> 's held_event \<Rightarrow> keeper \<times> 's \<Rightarrow> keeper \<times> 's" where
  "held_step J dur (Tick now) (k, s) = (case hold_tick J dur now k s of (k, s, _) \<Rightarrow> (k, s))"
| "held_step J dur (Moved now) (k, s) = (beat now k, s)"
| "held_step J dur (Show now st) (k, s) = show_step J now st k s"
| "held_step J dur (Other f) (k, s) = (k, f s)"

definition while_held ::
  "('s, 'd) store_ops \<Rightarrow> (int \<Rightarrow> string) \<Rightarrow> 's held_event list \<Rightarrow> keeper \<times> 's \<Rightarrow> keeper \<times> 's" where
  "while_held J dur evs ks = fold (held_step J dur) evs ks"

lemma while_held_simps [simp]:
  "while_held J dur [] ks = ks"
  "while_held J dur (e # es) ks = while_held J dur es (held_step J dur e ks)"
  "while_held J dur (es @ fs) ks = while_held J dur fs (while_held J dur es ks)"
  by (simp_all add: while_held_def)

text \<open>The first reason to stop is the one that is remembered, and the loop that stopped stays stopped.\<close>

lemma refuse_keeper_fence: "kp_fence (refuse_keeper e k) = (case kp_fence k of None \<Rightarrow> Some e | Some f \<Rightarrow> Some f)"
  by (simp add: refuse_keeper_def)

lemma held_step_fenced:
  assumes "held_step J dur ev (k, s) = (k', s')"
  shows "kp_fence k = Some e \<Longrightarrow> kp_fence k' = Some e" "\<not> kp_held k \<Longrightarrow> \<not> kp_held k'"
    "kp_cancelled k \<Longrightarrow> kp_cancelled k'" "kp_id k' = kp_id k" "kp_epoch k' = kp_epoch k" "kp_budget k' = kp_budget k"
  using assms
  by (cases ev; auto simp: hold_tick_def Let_def show_step_def beat_def refused_write_def refuse_keeper_def
      split: if_splits prod.splits sum.splits)+

lemma while_held_fenced:
  assumes "while_held J dur evs (k, s) = (k', s')"
  shows "(kp_fence k = Some e \<longrightarrow> kp_fence k' = Some e) \<and> (\<not> kp_held k \<longrightarrow> \<not> kp_held k') \<and> kp_id k' = kp_id k \<and>
    kp_epoch k' = kp_epoch k \<and> kp_budget k' = kp_budget k"
  using assms
proof (induction evs arbitrary: k s)
  case Nil
  then show ?case by simp
next
  case (Cons ev evs)
  obtain k1 s1 where st: "held_step J dur ev (k, s) = (k1, s1)" by (metis surj_pair)
  with Cons.IH [of k1 s1] Cons.prems held_step_fenced [OF st] show ?case by auto
qed

text \<open>A keeper whose loop has ended writes nothing.\<close>

lemma tick_let_go: "\<not> kp_held k \<Longrightarrow> hold_tick J dur now k s = (k, s, None)"
  by (simp add: hold_tick_def)

lemma tick_fenced_writes_nothing: "kp_fence k \<noteq> None \<Longrightarrow> fst (snd (hold_tick J dur now k s)) = s"
  by (auto simp: hold_tick_def Let_def)

text \<open>A renewal is no proof of life: only the work moves \<open>last\<close>, and once it has been silent for the budget
  the lease is let go.\<close>

lemma tick_last: "hold_tick J dur now k s = (k', s', r) \<Longrightarrow> kp_last k' = kp_last k \<and> kp_budget k' = kp_budget k"
  by (auto simp: hold_tick_def Let_def refuse_keeper_def split: if_splits prod.splits sum.splits)

lemma ticks_last: "while_held J dur (map Tick ts) (k, s) = (k', s') \<Longrightarrow> kp_last k' = kp_last k \<and> kp_budget k' = kp_budget k"
proof (induction ts arbitrary: k s)
  case Nil
  then show ?case by simp
next
  case (Cons t ts)
  obtain k1 s1 r where t: "hold_tick J dur t k s = (k1, s1, r)" by (metis prod_cases3)
  with Cons tick_last [OF t] show ?case by auto
qed

lemma tick_spent:
  assumes "hold_tick J dur now k s = (k', s', r)" "kp_last k + kp_budget k \<le> now"
  shows "\<not> kp_held k' \<and> s' = s"
  using assms by (auto simp: hold_tick_def Let_def split: if_splits)

lemma ticks_let_go: "\<not> kp_held k \<Longrightarrow> while_held J dur (map Tick ts) (k, s) = (k, s)"
  by (induction ts) (simp_all add: tick_let_go)

lemma ticks_bounded:
  assumes "while_held J dur (map Tick ts) (k, s) = (k1, s1)" "kp_last k + kp_budget k \<le> t"
    and "while_held J dur (map Tick (t # us)) (k1, s1) = (k2, s2)"
  shows "s2 = s1 \<and> \<not> kp_held k2"
proof -
  obtain k3 s3 r where t: "hold_tick J dur t k1 s1 = (k3, s3, r)" by (metis prod_cases3)
  have "\<not> kp_held k3 \<and> s3 = s1" using tick_spent [OF t] ticks_last [OF assms(1)] assms(2) by simp
  with assms(3) t show ?thesis by (simp add: ticks_let_go)
qed

section \<open>Hashing what was delivered\<close>

text \<open>
  The reads of one file: \<open>piece i\<close> is how many bytes read \<open>i\<close> returned, at most a megabyte, and
  \<open>halt i\<close> the error of the context or of the disk before it. A call is \<open>done\<close>.
\<close>

definition chunk :: "(nat \<Rightarrow> nat) \<Rightarrow> nat \<Rightarrow> nat \<Rightarrow> nat" where
  "chunk piece i rest = max 1 (nat (min (int rest) (min 1048576 (int (piece i)))))"

function copyReporting ::
  "(nat \<Rightarrow> nat) \<Rightarrow> (nat \<Rightarrow> 'k \<Rightarrow> err option) \<Rightarrow> (nat \<Rightarrow> int \<Rightarrow> int \<Rightarrow> 'k \<Rightarrow> 'k) \<Rightarrow> nat \<Rightarrow> int \<Rightarrow> string \<Rightarrow> string \<Rightarrow> 'k \<Rightarrow>
   (string \<times> err option) \<times> 'k" where
  "copyReporting piece halt say i whole out inp k =
     (case halt i k of
        Some e \<Rightarrow> ((out, Some e), k)
      | None \<Rightarrow>
          if inp = [] then ((out, None), k)
          else copyReporting piece halt say (Suc i) whole (out @ take (chunk piece i (length inp)) inp)
            (drop (chunk piece i (length inp)) inp) (say i (int (length (out @ take (chunk piece i (length inp)) inp))) whole k))"
  by pat_completeness auto
termination by (relation "measure (\<lambda>(_, _, _, _, _, _, inp, _). length inp)") (auto simp: chunk_def)

declare copyReporting.simps [simp del]

text \<open>\<open>hex\<close> is the SHA-256 of the bytes in hexadecimal.\<close>

definition hashFileReporting ::
  "(string \<Rightarrow> string) \<Rightarrow> err option \<Rightarrow> (nat \<Rightarrow> nat) \<Rightarrow> (nat \<Rightarrow> 'k \<Rightarrow> err option) \<Rightarrow> (nat \<Rightarrow> int \<Rightarrow> int \<Rightarrow> 'k \<Rightarrow> 'k) \<Rightarrow>
   (string \<Rightarrow> node option) \<Rightarrow> string \<Rightarrow> 'k \<Rightarrow> (err + (int \<times> string)) \<times> 'k" where
  "hashFileReporting hex opened piece halt say fs p k =
     (case opened of
        Some e \<Rightarrow> (Inl e, k)
      | None \<Rightarrow>
          (case fs p of
             Some (File c) \<Rightarrow>
               (case copyReporting piece halt say 0 (int (length c)) [] c k of
                  ((_, Some e), k) \<Rightarrow> (Inl e, k)
                | ((out, None), k) \<Rightarrow> (Inr (int (length out), ''sha256:'' @ hex out), k))
           | _ \<Rightarrow> (Inl (Errorf [Lit ''open '', Str p, Lit '': no such file'']), k)))"

lemma copyReporting_all:
  "copyReporting piece halt say i whole out inp k = ((got, None), k') \<Longrightarrow> got = out @ inp"
proof (induction piece halt say i whole out inp k rule: copyReporting.induct)
  case (1 piece halt say i whole out inp k)
  note step = 1(2) [unfolded copyReporting.simps [of piece halt say i]]
  show ?case
  proof (cases "halt i k = None \<and> inp \<noteq> []")
    case True
    with step 1(1) show ?thesis by (auto simp: Let_def)
  next
    case False
    with step show ?thesis by (auto split: option.splits if_splits)
  qed
qed

lemma hashFileReporting_whole:
  assumes "hashFileReporting hex opened piece halt say fs p k = (Inr (n, dg), k')"
  shows "\<exists>c. fs p = Some (File c) \<and> n = int (length c) \<and> dg = ''sha256:'' @ hex c"
  using assms copyReporting_all
  by (fastforce simp: hashFileReporting_def split: option.splits node.splits prod.splits)

section \<open>Watching what somebody asked for\<close>

datatype look = Keep | Fence err | Intent want

text \<open>One look of \<open>watchRunIntent\<close>. A record's owner, epoch and end are read from the store.\<close>

definition look_at :: "string \<Rightarrow> int \<Rightarrow> int \<Rightarrow> err + 'd job_record \<Rightarrow> look" where
  "look_at owner epoch now answer =
     (case answer of
        Inl e \<Rightarrow> if err_is_foreign e JobNotFound then Fence e else Keep
      | Inr rec \<Rightarrow>
          if l_epoch (j_lease rec) \<noteq> epoch then Fence (Foreign ''job: stale epoch'' False [JobStaleEpoch])
          else if terminal_state (j_state rec) then Fence (Foreign ''job: terminal'' False [JobTerminal])
          else if l_owner (j_lease rec) \<noteq> owner \<or> l_expires (j_lease rec) < now then
            Fence (Foreign ''job: lease expiry'' False [JobLeaseExpiry])
          else if j_want rec \<noteq> WantRun then Intent (j_want rec)
          else Keep)"

fun watchRunIntent :: "string \<Rightarrow> int \<Rightarrow> (int \<times> (err + 'd job_record)) list \<Rightarrow> want option \<times> err option" where
  "watchRunIntent owner epoch [] = (None, None)"
| "watchRunIntent owner epoch ((now, answer) # rest) =
     (case look_at owner epoch now answer of
        Keep \<Rightarrow> watchRunIntent owner epoch rest
      | Fence e \<Rightarrow> (None, Some e)
      | Intent w \<Rightarrow> (Some w, None))"

text \<open>The watcher ends with a word or with a fence, never with both; a word is from a record still ours.\<close>

lemma watch_one: "watchRunIntent owner epoch looks = (w, e) \<Longrightarrow> w = None \<or> e = None"
  by (induction looks) (auto split: look.splits)

lemma watch_word:
  "watchRunIntent owner epoch looks = (Some w, e) \<Longrightarrow>
     \<exists>now rec. (now, Inr rec) \<in> set looks \<and> l_epoch (j_lease rec) = epoch \<and> l_owner (j_lease rec) = owner \<and>
       \<not> terminal_state (j_state rec) \<and> now \<le> l_expires (j_lease rec) \<and> j_want rec = w \<and> w \<noteq> WantRun"
proof (induction looks)
  case Nil
  then show ?case by simp
next
  case (Cons x looks)
  obtain now answer where x: "x = (now, answer)" by (metis surj_pair)
  show ?case
  proof (cases "look_at owner epoch now answer")
    case Keep
    with Cons x show ?thesis by auto
  next
    case (Fence err)
    with Cons x show ?thesis by simp
  next
    case (Intent v)
    then have "v = w" using Cons.prems x by simp
    then obtain rec where "answer = Inr rec" "l_epoch (j_lease rec) = epoch" "l_owner (j_lease rec) = owner"
        "\<not> terminal_state (j_state rec)" "now \<le> l_expires (j_lease rec)" "j_want rec = w" "w \<noteq> WantRun"
      using Intent by (auto simp: look_at_def split: sum.splits if_splits)
    with x show ?thesis by (intro exI [of _ now] exI [of _ rec]) simp
  qed
qed

end
