(* ===== verification/Reconciliation.thy ===== *)
theory Reconciliation
  imports Delegation Keeper
begin

text \<open>
  Bringing a delegated record up to date: \<open>Reconcile\<close> and what it calls (\<open>claimDelegation\<close>,
  \<open>resolve\<close>, \<open>stranded\<close>, \<open>restarted\<close>, \<open>honourDelegated\<close>, \<open>abandonDelegated\<close>), and the two sweeps
  \<open>ReconcileAll\<close> and \<open>DelegateAll\<close>, all of \<open>go/delegator.go\<close>.

  A scene is what one sweep works on: files and store, the delegates' own world, the claims this process
  has stopped believing and the handles it has abandoned. What the clock, the disk and everybody else do
  while a delivered file is brought across and hashed is the argument \<open>F\<close>.
\<close>

section \<open>The supervisor\<close>

text \<open>
  \<open>sv_claim_from\<close>: the store's \<open>ClaimFrom\<close>, where it has one; \<open>sv_known\<close>: \<open>RegisteredTiers\<close>;
  \<open>sv_publisher\<close>: \<open>publisherOf\<close>, printed; \<open>sv_hex\<close>: SHA-256 in hexadecimal; \<open>sv_dur\<close>: a printed duration.
\<close>

record ('s, 'd) sup_conf =
  sv_claim_from :: "('d job_record \<Rightarrow> string \<Rightarrow> 's \<Rightarrow> (err + 'd job_record) \<times> 's) option"
  sv_owner :: string
  sv_known :: "string list"
  sv_publisher :: "string \<Rightarrow> string"
  sv_hex :: "string \<Rightarrow> string"
  sv_dur :: "int \<Rightarrow> string"
  sv_silence :: int
  sv_ttl :: int
  sv_persist :: int

record ('s, 'x) scene =
  sc_world :: "'s world"
  sc_ext :: 'x
  sc_refuted :: refuted_claims
  sc_abandoned :: "string list"

definition env_at :: "('s, 'd) run_env \<Rightarrow> 'd job_record \<Rightarrow> ('s, 'd) run_env" where
  "env_at E rec = E\<lparr>en_id := j_id rec, en_epoch := l_epoch (j_lease rec)\<rparr>"

definition world_ext :: "'s world \<Rightarrow> 'x \<Rightarrow> ('s, 'x) scene \<Rightarrow> ('s, 'x) scene" where
  "world_ext w x sc = sc\<lparr>sc_world := w, sc_ext := x\<rparr>"

section \<open>Claiming what was observed\<close>

definition claimDelegation ::
  "('s, 'd) sup_conf \<Rightarrow> ('s, 'd) store_ops \<Rightarrow> 'd job_record \<Rightarrow> 's world \<Rightarrow> (err + 'd job_record) \<times> 's world" where
  "claimDelegation S J seen w =
     (case (case sv_claim_from S of
          Some f \<Rightarrow> f seen (sv_owner S) (w_store w)
        | None \<Rightarrow> so_claim J (j_id seen) (sv_owner S) (w_store w)) of
        (Inl e, s) \<Rightarrow> (Inl e, w\<lparr>w_store := s\<rparr>)
      | (Inr mine, s) \<Rightarrow>
          let expected = (if j_state seen = StatePending then StateRunning else j_state seen) in
          if l_epoch (j_lease mine) - 1 \<noteq> l_epoch (j_lease seen) \<or> j_state mine \<noteq> expected \<or>
             j_delegation mine = None \<or> j_delegation seen = None \<or> j_delegation mine \<noteq> j_delegation seen then
            (case so_release J (j_id seen) (l_epoch (j_lease mine)) s of
               (e, s) \<Rightarrow> (Inl (the (join_errs [Some (Errorf [Err stale, Lit '': delegation changed while observing '',
                   Str (j_id seen)]), e])), w\<lparr>w_store := s\<rparr>))
          else (Inr mine, w\<lparr>w_store := s\<rparr>))"

section \<open>What a sweep does with one handle\<close>

definition resolve ::
  "('s, 'd, 'x) hand \<Rightarrow> ('s, 'd) sup_conf \<Rightarrow> 'd job_record \<Rightarrow> 'x tier \<Rightarrow> ('s, 'x) scene \<Rightarrow> err option \<times> ('s, 'x) scene" where
  "resolve A S rec d sc =
     (let lost = (\<lambda>ps. Some (Errorf ([Err (Var ErrOutcomeUnknown), Lit '': '', Str (dg_system d)] @ ps))) in
      case dg_locate d of
        None \<Rightarrow> (lost [Lit '' cannot be asked what it did with request '', Str (j_id rec)], sc)
      | Some f \<Rightarrow>
          (case f (j_id rec) (sc_ext sc) of
             (Inl e, x) \<Rightarrow> (lost [Lit '': '', Shown e], sc\<lparr>sc_ext := x\<rparr>)
           | (Inr ext, x) \<Rightarrow>
               (case claimDelegation S (en_store (ha_env A)) rec (sc_world sc) of
                  (Inl e, w) \<Rightarrow> (Some e, world_ext w x sc)
                | (Inr mine, w) \<Rightarrow>
                    (let E = env_at (ha_env A) mine in
                     case (if ext = [] then unhand E w
                           else put E (\<lambda>rr. rr\<lparr>j_delegation :=
                                  map_option (\<lambda>dl. dl\<lparr>d_external := ext\<rparr>) (j_delegation rr)\<rparr>) w) of
                       (e, w) \<Rightarrow> (e, world_ext (drop_lease E w) x sc)))))"

definition knownHere :: "('s, 'd) sup_conf \<Rightarrow> string \<Rightarrow> bool" where
  "knownHere S sys \<longleftrightarrow> list_ex (\<lambda>name. name = sys) (sv_known S)"

definition stranded_note :: "('s, 'd) run_conf \<Rightarrow> ('s, 'd) sup_conf \<Rightarrow> string \<Rightarrow> string" where
  "stranded_note C S sys = ''waiting for a process that understands '' @ rc_qt C sys @ '': '' @
     (if knownHere S sys then ''that tier is registered here but did not come up''
      else ''no such tier is registered in this program'')"

definition stranded ::
  "('s, 'd, 'x) hand \<Rightarrow> ('s, 'd) sup_conf \<Rightarrow> 'd job_record \<Rightarrow> string \<Rightarrow> ('s, 'x) scene \<Rightarrow> err option \<times> ('s, 'x) scene" where
  "stranded A S rec sys sc =
     (let err = Errorf [Err (Var ErrStrandedHere), Lit '' '', Quoted sys]; note = stranded_note (ha_conf A) S sys in
      if j_error rec = note then (Some err, sc)
      else case claimDelegation S (en_store (ha_env A)) rec (sc_world sc) of
        (Inl _, w) \<Rightarrow> (Some err, sc\<lparr>sc_world := w\<rparr>)
      | (Inr mine, w) \<Rightarrow>
          (let E = env_at (ha_env A) mine in
           case put E (setFailure (rc_qt (ha_conf A)) (Some (Plain note))) w of
             (wrote, w) \<Rightarrow> (Some (case wrote of Some e \<Rightarrow> e | None \<Rightarrow> err), sc\<lparr>sc_world := drop_lease E w\<rparr>)))"

definition falsified :: "('s, 'd) sup_conf \<Rightarrow> string \<Rightarrow> int \<Rightarrow> int \<Rightarrow> err" where
  "falsified S sys proved done =
     Errorf [Err (Var ErrClaimFalsified), Lit '': '', Str sys, Lit '', published by '', Str (sv_publisher S sys),
       Lit '', was given '', Num proved, Lit '' proven bytes and reports '', Num done]"

definition restarted ::
  "('s, 'd, 'x) hand \<Rightarrow> ('s, 'd) sup_conf \<Rightarrow> 'd job_record \<Rightarrow> delegation \<Rightarrow> 'x tier \<Rightarrow> int \<Rightarrow> int \<Rightarrow> ('s, 'x) scene \<Rightarrow>
   err option \<times> ('s, 'x) scene" where
  "restarted A S rec dl d proved done sc =
     (let sys = d_system dl; err = falsified S sys proved done;
          sc = sc\<lparr>sc_refuted := Disbelieve sys CapResume (sc_refuted sc)\<rparr> in
      case claimDelegation S (en_store (ha_env A)) rec (sc_world sc) of
        (Inl _, w) \<Rightarrow> (Some err, sc\<lparr>sc_world := w\<rparr>)
      | (Inr mine, w) \<Rightarrow>
          (case dg_abandon d (d_external dl) (sc_ext sc) of
             (_, x) \<Rightarrow>
               let E = env_at (ha_env A) mine in
               case put E (\<lambda>rr. setFailure (rc_qt (ha_conf A)) (Some err)
                      (rr\<lparr>j_delegation := None, j_state := StatePending\<rparr>)) w of
                 (wrote, w) \<Rightarrow> (Some (case wrote of Some e \<Rightarrow> e | None \<Rightarrow> err), world_ext (drop_lease E w) x sc)))"

definition honourDelegated ::
  "('s, 'd, 'x) hand \<Rightarrow> ('s, 'd) sup_conf \<Rightarrow> 'd job_record \<Rightarrow> delegation \<Rightarrow> ('s, 'x) scene \<Rightarrow> err option \<times> ('s, 'x) scene" where
  "honourDelegated A S rec dl sc =
     (case BySystem (ha_tiers A) (d_system dl) of
        None \<Rightarrow> (None, sc)
      | Some d \<Rightarrow>
          (case claimDelegation S (en_store (ha_env A)) rec (sc_world sc) of
             (Inl e, w) \<Rightarrow> (Some e, sc\<lparr>sc_world := w\<rparr>)
           | (Inr mine, w) \<Rightarrow>
               (let E = env_at (ha_env A) mine in
                case j_want mine of
                  WantCancel \<Rightarrow>
                    (case dg_abandon d (d_external dl) (sc_ext sc) of
                       (Some e, x) \<Rightarrow> (Some e, world_ext w x sc)
                     | (None, x) \<Rightarrow>
                         (case put E (\<lambda>rr. clearFailure (rr\<lparr>j_state := StateCancelled, j_delegation := None\<rparr>)) w of
                            (e, w) \<Rightarrow> (e, world_ext w x sc)))
                | WantPause \<Rightarrow>
                    (case dg_suspend d of
                       None \<Rightarrow>
                         (case put E (setFailure (rc_qt (ha_conf A))
                              (Some (Errorf [Str (dg_system d), Lit '' cannot pause a transfer it has taken over'']))) w of
                            (Some e, w) \<Rightarrow> (Some e, sc\<lparr>sc_world := w\<rparr>)
                          | (None, w) \<Rightarrow> (None, sc\<lparr>sc_world := drop_lease E w\<rparr>))
                     | Some (suspend, _) \<Rightarrow>
                         (case suspend (d_external dl) (sc_ext sc) of
                            (Some e, x) \<Rightarrow> (Some e, world_ext w x sc)
                          | (None, x) \<Rightarrow> (None, world_ext (drop_lease E w) x sc)))
                | WantRun \<Rightarrow> (None, sc\<lparr>sc_world := drop_lease E w\<rparr>))))"

definition handle_key :: "delegation \<Rightarrow> string" where
  "handle_key dl = d_system dl @ [CHR 0x00] @ d_external dl"

definition abandonDelegated ::
  "('s, 'd, 'x) hand \<Rightarrow> 'd job_record \<Rightarrow> delegation \<Rightarrow> ('s, 'x) scene \<Rightarrow> err option \<times> ('s, 'x) scene" where
  "abandonDelegated A rec dl sc =
     (if handle_key dl \<in> set (sc_abandoned sc) then (None, sc)
      else case BySystem (ha_tiers A) (d_system dl) of
        None \<Rightarrow> (None, sc)
      | Some d \<Rightarrow>
          (case dg_abandon d (d_external dl) (sc_ext sc) of
             (Some e, x) \<Rightarrow>
               (Some (Errorf [Lit ''download: abandoning '', Str (j_id rec), Lit '' on '', Str (d_system dl), Lit '': '', Err e]),
                sc\<lparr>sc_ext := x\<rparr>)
           | (None, x) \<Rightarrow> (None, sc\<lparr>sc_ext := x, sc_abandoned := List.insert (handle_key dl) (sc_abandoned sc)\<rparr>)))"


section \<open>Taking delivery\<close>

text \<open>What the keeper's timer and everybody else do between two steps of the work.\<close>

datatype 's outside = Timer int | Elsewhere "'s \<Rightarrow> 's"

fun as_event :: "'s outside \<Rightarrow> 's held_event" where
  "as_event (Timer now) = Tick now"
| "as_event (Elsewhere f) = Other f"

text \<open>
  \<open>fi_gap i\<close> runs before report \<open>i\<close> of the copy (report 0 is the bare phase) and the last one after it;
  \<open>fi_chunk i\<close> before chunk \<open>i\<close> is counted; \<open>fi_after\<close> between the hash and the end of the keeper.
\<close>

record 's finish_io =
  fi_start :: int
  fi_gap :: "nat \<Rightarrow> 's outside list"
  fi_shown :: "nat \<Rightarrow> int"
  fi_verify :: int
  fi_open :: "err option"
  fi_piece :: "nat \<Rightarrow> nat"
  fi_disk :: "nat \<Rightarrow> err option"
  fi_chunk :: "nat \<Rightarrow> 's outside list"
  fi_time :: "nat \<Rightarrow> int"
  fi_after :: "'s outside list"
  fi_end :: int

definition phase :: "string \<Rightarrow> int \<Rightarrow> int \<times> int \<Rightarrow> job_step" where
  "phase name n amt = \<lparr>t_name = name, t_ordinal = n, t_of = 3, t_done = fst amt, t_total = snd amt\<rparr>"

definition copy_events :: "'s finish_io \<Rightarrow> string \<Rightarrow> (int \<times> int) list \<Rightarrow> 's held_event list" where
  "copy_events F sys reports =
     concat (map (\<lambda>(i, amt). map as_event (fi_gap F i) @ [Show (fi_shown F i) (phase (''copying from '' @ sys) 2 amt)])
       (enumerate 0 ((0, 0) # reports))) @ map as_event (fi_gap F (Suc (length reports)))"

text \<open>While the file is hashed: the keeper, the store, and when the record was last told.\<close>

type_synonym 's hashing = "keeper \<times> 's \<times> int"

definition halt_hash :: "'s finish_io \<Rightarrow> nat \<Rightarrow> 's hashing \<Rightarrow> err option" where
  "halt_hash F i h = (if kp_cancelled (fst h) then Some (Foreign ''context canceled'' False [CtxCanceled]) else fi_disk F i)"

definition say_hash ::
  "('s, 'd) sup_conf \<Rightarrow> ('s, 'd) store_ops \<Rightarrow> 's finish_io \<Rightarrow> nat \<Rightarrow> int \<Rightarrow> int \<Rightarrow> 's hashing \<Rightarrow> 's hashing" where
  "say_hash S J F i done whole h =
     (case h of (k, s, said) \<Rightarrow>
        let now = fi_time F i; (k, s) = while_held J (sv_dur S) (map as_event (fi_chunk F i)) (k, s); k = beat now k in
        if 0 < sv_persist S \<and> now - said < sv_persist S then (k, s, said)
        else case show_step J now (phase ''verifying'' 3 (done, whole)) k s of (k, s) \<Rightarrow> (k, s, now))"

definition delegate_mismatch :: "string \<Rightarrow> string \<Rightarrow> err" where
  "delegate_mismatch got wanted =
     Errorf [Err (Var ErrDigestMismatch), Lit '': delegate delivered '', Str got, Lit '', want '', Str wanted]"

definition mismatched_record ::
  "('s, 'd) run_conf \<Rightarrow> ('s, 'd) run_env \<Rightarrow> err \<Rightarrow> 'd job_record \<Rightarrow> err + 'd job_record" where
  "mismatched_record C E m rr =
     (let rr = rr\<lparr>j_delegation := None, j_state := (if Permanent m then StateFailed else StatePending)\<rparr>;
          rr = setFailure (rc_qt C) (Some m) rr;
          rr = (if rc_cause C then setFailureCause (rc_qt C) (Some m) rr else rr)
      in setCheckpoint (en_ranges E) (en_docs E) no_checkpoint rr)"

definition delivered_record ::
  "('s, 'd) run_env \<Rightarrow> int \<Rightarrow> int \<Rightarrow> 'd job_record \<Rightarrow> err + 'd job_record" where
  "delivered_record E now whole rr =
     (let rr = rr\<lparr>j_progress := (j_progress rr)\<lparr>p_done := whole, p_updated := now, p_step := None\<rparr>, j_state := StateTransferred\<rparr>;
          rr = clearFailure rr;
          rr = rr\<lparr>j_delegation := map_option (\<lambda>dl. dl\<lparr>d_delivered := True\<rparr>) (j_delegation rr)\<rparr>
      in setCheckpoint (en_ranges E) (en_docs E) \<lparr>c_prefix = whole, c_validators = no_validators, c_verified = []\<rparr> rr)"

definition settle_file ::
  "('s, 'd, 'x) hand \<Rightarrow> ('s, 'd) run_env \<Rightarrow> 's finish_io \<Rightarrow> spec \<Rightarrow> int \<Rightarrow> string \<Rightarrow> 's world \<Rightarrow> err option \<times> 's world" where
  "settle_file A E F sp whole digest w =
     (let J = en_store E; wanted = a_digest (sp_artifact sp); C = ha_conf A in
      if wanted \<noteq> [] \<and> \<not> sameDigest (rc_low C) digest wanted then
        (let m = ended C (delegate_mismatch digest wanted) in
         case so_update J (en_id E) (en_epoch E) (mismatched_record C E m) (w_store w) of
           (Inl e, s) \<Rightarrow> (Some e, w\<lparr>w_store := s\<rparr>)
         | (Inr _, s) \<Rightarrow> (Some m, w\<lparr>w_store := s\<rparr>))
      else case so_update J (en_id E) (en_epoch E) (delivered_record E (fi_end F) whole) (w_store w) of
        (Inl e, s) \<Rightarrow> (Some e, w\<lparr>w_store := s\<rparr>)
      | (Inr _, s) \<Rightarrow> (None, w\<lparr>w_store := s\<rparr>))"

text \<open>The lease is held at \<open>E\<close>; the delegate has said that it has all the bytes.\<close>

definition deliver_delegated ::
  "('s, 'd, 'x) hand \<Rightarrow> ('s, 'd) sup_conf \<Rightarrow> ('s, 'd) run_env \<Rightarrow> 's finish_io \<Rightarrow> delegation \<Rightarrow> 'x tier \<Rightarrow> 'd job_record \<Rightarrow>
   's world \<Rightarrow> 'x \<Rightarrow> err option \<times> 's world \<times> 'x" where
  "deliver_delegated A S E F dl d mine w x =
     (let J = en_store E; C = ha_conf A; sys = d_system dl in
      case SpecOf (en_docs E) mine of
        Inl e \<Rightarrow> (Some e, w, x)
      | Inr sp \<Rightarrow>
          (case LocalSink (rc_names C) (rc_root C) (j_id mine) (sp_sink sp) of
             Inl e \<Rightarrow> (Some e, w, x)
           | Inr (_, final) \<Rightarrow>
               (case (case dg_reports d of
                    Some f \<Rightarrow> f (d_external dl) final x
                  | None \<Rightarrow> (case dg_finalize d (d_external dl) final x of (ans, x) \<Rightarrow> (([], ans), x))) of
                  ((reports, failed, content), x) \<Rightarrow>
                    let k = keepWatching (sv_silence S) (sv_ttl S) (en_id E) (en_epoch E) (fi_start F);
                        (k, s) = while_held J (sv_dur S) (copy_events F sys reports) (k, w_store w);
                        fs = (case content of None \<Rightarrow> w_files w | Some c \<Rightarrow> (w_files w)(final \<mapsto> File c))
                    in case failed of
                      Some e \<Rightarrow> (Some (case kp_fence k of None \<Rightarrow> e
                          | Some f \<Rightarrow> Errorf [Lit ''copying from '', Str sys, Lit '': '', Err f]), \<lparr>w_files = fs, w_store = s\<rparr>, x)
                    | None \<Rightarrow>
                        (let (k, s) = show_step J (fi_verify F) (phase ''verifying'' 3 (0, 0)) k s in
                         case hashFileReporting (sv_hex S) (fi_open F) (fi_piece F) (halt_hash F) (say_hash S J F) fs final (k, s, fi_verify F) of
                           (Inl e, k, s, _) \<Rightarrow> (Some (case kp_fence k of None \<Rightarrow> e
                               | Some f \<Rightarrow> Errorf [Lit ''verifying what '', Str sys, Lit '' delivered: '', Err f]), \<lparr>w_files = fs, w_store = s\<rparr>, x)
                         | (Inr (whole, digest), k, s, _) \<Rightarrow>
                             (let (k, s) = while_held J (sv_dur S) (map as_event (fi_after F)) (k, s);
                                  w = \<lparr>w_files = fs, w_store = s\<rparr>
                              in case fst (stop_keeper k) of
                                Some e \<Rightarrow> (Some e, w, x)
                              | None \<Rightarrow> (case settle_file A E F sp whole digest w of (e, w) \<Rightarrow> (e, w, x)))))))"

section \<open>Reconcile\<close>

definition running_record :: "int \<Rightarrow> string \<Rightarrow> status \<Rightarrow> 'd job_record \<Rightarrow> 'd job_record" where
  "running_record now sys st rr =
     rr\<lparr>j_progress := (j_progress rr)\<lparr>p_done := su_done st,
       p_total := (if 0 < su_total st then su_total st else p_total (j_progress rr)), p_updated := now,
       p_step := Some \<lparr>t_name = ''fetching on '' @ sys, t_ordinal = 1, t_of = 3, t_done = su_done st, t_total = su_total st\<rparr>\<rparr>\<rparr>"

definition taken_back :: "(string \<Rightarrow> string) \<Rightarrow> status \<Rightarrow> 'd job_record \<Rightarrow> 'd job_record" where
  "taken_back qt st rr =
     (let rr = rr\<lparr>j_delegation := None, j_state := StatePending\<rparr> in
      if su_state st = DelegateFailed \<or> su_err st \<noteq> [] then
        setFailure qt (Failure_Err (Some \<lparr>f_error = su_err st, f_permanent = su_permanent st, f_cause = []\<rparr>)) rr
      else rr)"

definition act_on_status ::
  "('s, 'd, 'x) hand \<Rightarrow> ('s, 'd) sup_conf \<Rightarrow> ('s, 'd) run_env \<Rightarrow> 's finish_io \<Rightarrow> delegation \<Rightarrow> 'x tier \<Rightarrow> status \<Rightarrow> 'd job_record \<Rightarrow>
   's world \<Rightarrow> 'x \<Rightarrow> err option \<times> 's world \<times> 'x" where
  "act_on_status A S E F dl d st mine w x =
     (case su_state st of
        DelegateRunning \<Rightarrow>
          (case put E (running_record (fi_end F) (d_system dl) st) w of (e, w) \<Rightarrow> (e, drop_lease E w, x))
      | DelegateFailed \<Rightarrow> (case put E (taken_back (rc_qt (ha_conf A)) st) w of (e, w) \<Rightarrow> (e, drop_lease E w, x))
      | DelegateGone \<Rightarrow> (case put E (taken_back (rc_qt (ha_conf A)) st) w of (e, w) \<Rightarrow> (e, drop_lease E w, x))
      | DelegateTransferred \<Rightarrow> deliver_delegated A S E F dl d mine w x
      | DelegateOther word \<Rightarrow> (Some (Errorf [Lit ''download: delegate reported unknown state '', Quoted word]), w, x))"

definition poll_delegate ::
  "('s, 'd, 'x) hand \<Rightarrow> ('s, 'd) sup_conf \<Rightarrow> 's finish_io \<Rightarrow> 'd job_record \<Rightarrow> delegation \<Rightarrow> 'x tier \<Rightarrow> ('s, 'x) scene \<Rightarrow>
   err option \<times> ('s, 'x) scene" where
  "poll_delegate A S F rec dl d sc =
     (let J = en_store (ha_env A) in
      case dg_poll d (d_external dl) (sc_ext sc) of
        (Inl e, x) \<Rightarrow> (Some e, sc\<lparr>sc_ext := x\<rparr>)
      | (Inr st, x) \<Rightarrow>
          let sc = sc\<lparr>sc_ext := x\<rparr> in
          if su_suspended st then
            (case dg_suspend d of
               None \<Rightarrow> (Some (Errorf [Err (Var ErrNoDelegator), Lit '': '', Str (dg_system d),
                   Lit '' left a transfer suspended and cannot resume it'']), sc)
             | Some (_, resume) \<Rightarrow>
                 (case claimDelegation S J rec (sc_world sc) of
                    (Inl e, w) \<Rightarrow> (Some e, sc\<lparr>sc_world := w\<rparr>)
                  | (Inr mine, w) \<Rightarrow>
                      if j_want mine \<noteq> WantRun then (None, sc\<lparr>sc_world := drop_lease (env_at (ha_env A) mine) w\<rparr>)
                      else (case resume (d_external dl) x of
                          (e, x) \<Rightarrow> (e, world_ext (drop_lease (env_at (ha_env A) mine) w) x sc))))
          else case CheckpointOf (en_ranges (ha_env A)) (en_docs (ha_env A)) rec of
            Inl e \<Rightarrow> (Some e, sc)
          | Inr cp \<Rightarrow>
              if 0 < su_done st \<and> su_done st < c_prefix cp then restarted A S rec dl d (c_prefix cp) (su_done st) sc
              else (case claimDelegation S J rec (sc_world sc) of
                 (Inl e, w) \<Rightarrow> (Some e, sc\<lparr>sc_world := w\<rparr>)
               | (Inr mine, w) \<Rightarrow>
                   if j_want mine \<noteq> WantRun then
                     (case so_release J (j_id mine) (l_epoch (j_lease mine)) (w_store w) of
                        (e, s) \<Rightarrow> (e, sc\<lparr>sc_world := w\<lparr>w_store := s\<rparr>\<rparr>))
                   else (case act_on_status A S (env_at (ha_env A) mine) F dl d st mine w x of
                        (e, w, x) \<Rightarrow> (e, world_ext w x sc))))"

definition Reconcile ::
  "('s, 'd, 'x) hand \<Rightarrow> ('s, 'd) sup_conf \<Rightarrow> 's finish_io \<Rightarrow> string \<Rightarrow> ('s, 'x) scene \<Rightarrow> err option \<times> ('s, 'x) scene" where
  "Reconcile A S F jid sc =
     (case so_load (en_store (ha_env A)) jid (w_store (sc_world sc)) of
        Inl e \<Rightarrow> (Some e, sc)
      | Inr rec \<Rightarrow>
          (case j_delegation rec of
             None \<Rightarrow> (Some (Errorf [Err (Var ErrNotDelegated), Lit '': '', Str jid]), sc)
           | Some dl \<Rightarrow>
               if d_external dl = j_id rec then
                 (case BySystem (ha_tiers A) (d_system dl) of
                    None \<Rightarrow> stranded A S rec (d_system dl) sc
                  | Some d \<Rightarrow> resolve A S rec d sc)
               else if terminal_state (j_state rec) then
                 (if d_delivered dl then (None, sc) else abandonDelegated A rec dl sc)
               else if j_want rec \<noteq> WantRun then honourDelegated A S rec dl sc
               else if d_delivered dl \<or> j_state rec = StateTransferred then (None, sc)
               else (case BySystem (ha_tiers A) (d_system dl) of
                    None \<Rightarrow> stranded A S rec (d_system dl) sc
                  | Some d \<Rightarrow> poll_delegate A S F rec dl d sc)))"

section \<open>The two sweeps\<close>

definition undelivered :: "'d job_record \<Rightarrow> bool" where
  "undelivered r \<longleftrightarrow> j_kind r = Kind \<and>
     (case j_delegation r of None \<Rightarrow> False | Some dl \<Rightarrow> \<not> d_delivered dl \<and> j_state r \<noteq> StateTransferred)"

fun reconcile_from ::
  "(nat \<Rightarrow> string \<Rightarrow> 'c \<Rightarrow> err option \<times> 'c) \<Rightarrow> nat \<Rightarrow> 'd job_record list \<Rightarrow> nat \<Rightarrow> err option list \<Rightarrow> 'c \<Rightarrow> (nat \<times> err option) \<times> 'c" where
  "reconcile_from go k [] n failed c = ((n, join_errs failed), c)"
| "reconcile_from go k (r # rs) n failed c =
     (if \<not> undelivered r then reconcile_from go (Suc k) rs n failed c
      else case go k (j_id r) c of
        (Some e, c) \<Rightarrow>
          if err_is e ErrStrandedHere then reconcile_from go (Suc k) rs n failed c
          else reconcile_from go (Suc k) rs n (failed @ [Some (Errorf [Str (j_id r), Lit '': '', Err e])]) c
      | (None, c) \<Rightarrow> reconcile_from go (Suc k) rs (Suc n) failed c)"

definition ReconcileAll ::
  "(nat \<Rightarrow> string \<Rightarrow> 'c \<Rightarrow> err option \<times> 'c) \<Rightarrow> 'd job_record list \<times> err option \<Rightarrow> 'c \<Rightarrow> (nat \<times> err option) \<times> 'c" where
  "ReconcileAll go listed c =
     (case readable listed of
        (_, _, Some e) \<Rightarrow> ((0, Some e), c)
      | (rs, unread, None) \<Rightarrow> reconcile_from go 0 rs 0 [unread] c)"

fun delegate_each ::
  "(nat \<Rightarrow> string \<Rightarrow> 'c \<Rightarrow> err option \<times> 'c) \<Rightarrow> nat \<Rightarrow> 'd job_record list \<Rightarrow> nat \<Rightarrow> 'c \<Rightarrow> nat \<times> 'c" where
  "delegate_each go k [] n c = (n, c)"
| "delegate_each go k (r # rs) n c =
     (if j_kind r \<noteq> Kind \<or> j_delegation r \<noteq> None then delegate_each go (Suc k) rs n c
      else case go k (j_id r) c of
        (Some _, c) \<Rightarrow> delegate_each go (Suc k) rs n c
      | (None, c) \<Rightarrow> delegate_each go (Suc k) rs (Suc n) c)"

definition DelegateAll ::
  "'x tier list \<Rightarrow> (nat \<Rightarrow> string \<Rightarrow> 'c \<Rightarrow> err option \<times> 'c) \<Rightarrow> 'd job_record list \<times> err option \<Rightarrow> 'c \<Rightarrow> (nat \<times> err option) \<times> 'c" where
  "DelegateAll ds go orphans c =
     (if ds = [] then ((0, None), c)
      else case readable orphans of
        (_, _, Some e) \<Rightarrow> ((0, Some e), c)
      | (rs, unread, None) \<Rightarrow> (case delegate_each go 0 rs 0 c of (n, c) \<Rightarrow> ((n, unread), c)))"


section \<open>What a sweep relies on\<close>

text \<open>\<open>ClaimFrom\<close> claims the record it was shown or nothing; a spec is read from the \<open>Spec\<close> field alone.\<close>

locale sweep_layer = run_layer R D J
  for R :: range_ops and D :: "'d doc_ops" and J :: "('s, 'd) store_ops" +
  fixes S :: "('s, 'd) sup_conf"
  assumes claim_from_Inr: "\<And>f seen who s r' s'. sv_claim_from S = Some f \<Longrightarrow> f seen who s = (Inr r', s') \<Longrightarrow>
      \<exists>r. so_load J (j_id seen) s = Inr r \<and> \<not> terminal_state (j_state r) \<and>
        r' = r\<lparr>j_lease := j_lease r', j_state := claimed_state (j_state r)\<rparr> \<and>
        l_epoch (j_lease r') = l_epoch (j_lease r) + 1 \<and> so_load J (j_id seen) s' = Inr r'"
    and claim_from_Inl: "\<And>f seen who s e s' k. sv_claim_from S = Some f \<Longrightarrow> f seen who s = (Inl e, s') \<Longrightarrow>
      so_load J k s' = so_load J k s"
    and spec_frame_law: "\<And>r r'. j_spec r' = j_spec r \<Longrightarrow> do_decode_spec D r' = do_decode_spec D r"

text \<open>The map store, with and without a \<open>ClaimFrom\<close>.\<close>

definition map_claim_from :: "'d job_record \<Rightarrow> string \<Rightarrow> 'd map_store \<Rightarrow> (err + 'd job_record) \<times> 'd map_store" where
  "map_claim_from seen who s =
     (case ms_records s (j_id seen) of
        None \<Rightarrow> (Inl unknown, s)
      | Some r \<Rightarrow>
          if l_epoch (j_lease r) \<noteq> l_epoch (j_lease seen) \<or> j_state r \<noteq> j_state seen \<or> j_delegation r \<noteq> j_delegation seen
          then (Inl stale, s) else so_claim map_ops (j_id seen) who s)"

definition map_sup :: "bool \<Rightarrow> ('d map_store, 'd) sup_conf" where
  "map_sup exact = \<lparr>sv_claim_from = (if exact then Some map_claim_from else None), sv_owner = ''jobd'', sv_known = [''bits'', ''nas''],
     sv_publisher = (\<lambda>_. ''unknown''), sv_hex = id, sv_dur = (\<lambda>_. ''a while''), sv_silence = 0, sv_ttl = 0, sv_persist = 0\<rparr>"

lemma sweep_layer_map: "sweep_layer ref_ranges ref_docs map_ops (map_sup exact)"
proof (intro sweep_layer.intro sweep_layer_axioms.intro run_layer_ref)
  fix f :: "ref_doc job_record \<Rightarrow> string \<Rightarrow> ref_doc map_store \<Rightarrow> (err + ref_doc job_record) \<times> ref_doc map_store"
    and seen r' :: "ref_doc job_record" and who k and s s' :: "ref_doc map_store" and e
  assume f: "sv_claim_from (map_sup exact) = Some f"
  then have f_eq: "f = map_claim_from" by (simp add: map_sup_def split: if_splits)
  show "\<exists>r. so_load map_ops (j_id seen) s = Inr r \<and> \<not> terminal_state (j_state r) \<and>
        r' = r\<lparr>j_lease := j_lease r', j_state := claimed_state (j_state r)\<rparr> \<and>
        l_epoch (j_lease r') = l_epoch (j_lease r) + 1 \<and> so_load map_ops (j_id seen) s' = Inr r'"
    if "f seen who s = (Inr r', s')"
    using that map_store.claim_Inr [of "j_id seen" who s r' s']
    by (auto simp: f_eq map_claim_from_def split: option.splits if_splits)
  show "so_load map_ops k s' = so_load map_ops k s" if "f seen who s = (Inl e, s')"
    using that map_store.claim_Inl [of "j_id seen" who s e s' k]
    by (auto simp: f_eq map_claim_from_def split: option.splits if_splits)
next
  show "do_decode_spec ref_docs r' = do_decode_spec ref_docs r" if "j_spec r' = j_spec r" for r r' :: "ref_doc job_record"
    using that by (simp add: ref_docs_def)
qed

interpretation map_sweep: sweep_layer ref_ranges ref_docs map_ops "map_sup exact"
  by (rule sweep_layer_map)

context sweep_layer
begin

text \<open>An observation is acted on only while the handoff it observed still stands.\<close>

lemma observed:
  assumes "claimDelegation S J seen w = (Inr mine, w')"
  shows "w_files w' = w_files w" "j_delegation mine = j_delegation seen" "j_delegation seen \<noteq> None"
    and "\<exists>r. so_load J (j_id seen) (w_store w) = Inr r \<and> \<not> terminal_state (j_state r) \<and>
      l_epoch (j_lease r) = l_epoch (j_lease seen) \<and> j_delegation r = j_delegation seen \<and>
      mine = r\<lparr>j_lease := j_lease mine, j_state := claimed_state (j_state r)\<rparr> \<and>
      l_epoch (j_lease mine) = l_epoch (j_lease seen) + 1 \<and> so_load J (j_id seen) (w_store w') = Inr mine"
proof -
  let ?claim = "case sv_claim_from S of Some f \<Rightarrow> f seen (sv_owner S) (w_store w)
      | None \<Rightarrow> so_claim J (j_id seen) (sv_owner S) (w_store w)"
  obtain s' where c: "?claim = (Inr mine, s')" "w' = w\<lparr>w_store := s'\<rparr>"
    and dl: "j_delegation mine = j_delegation seen" "j_delegation seen \<noteq> None"
      "l_epoch (j_lease mine) - 1 = l_epoch (j_lease seen)"
    using assms by (auto simp: claimDelegation_def Let_def split: prod.splits sum.splits if_splits)
  have "\<exists>r. so_load J (j_id seen) (w_store w) = Inr r \<and> \<not> terminal_state (j_state r) \<and>
        mine = r\<lparr>j_lease := j_lease mine, j_state := claimed_state (j_state r)\<rparr> \<and>
        l_epoch (j_lease mine) = l_epoch (j_lease r) + 1 \<and> so_load J (j_id seen) s' = Inr mine"
    using c(1) claim_Inr [of "j_id seen" "sv_owner S" "w_store w" mine s'] claim_from_Inr [of _ seen "sv_owner S" "w_store w" mine s']
    by (cases "sv_claim_from S") auto
  then obtain r where r: "so_load J (j_id seen) (w_store w) = Inr r" "\<not> terminal_state (j_state r)"
      "mine = r\<lparr>j_lease := j_lease mine, j_state := claimed_state (j_state r)\<rparr>"
      "l_epoch (j_lease mine) = l_epoch (j_lease r) + 1" "so_load J (j_id seen) s' = Inr mine" by blast
  from arg_cong [OF r(3), of j_delegation] have "j_delegation r = j_delegation mine" by simp
  with r c(2) dl show "\<exists>r. so_load J (j_id seen) (w_store w) = Inr r \<and> \<not> terminal_state (j_state r) \<and>
      l_epoch (j_lease r) = l_epoch (j_lease seen) \<and> j_delegation r = j_delegation seen \<and>
      mine = r\<lparr>j_lease := j_lease mine, j_state := claimed_state (j_state r)\<rparr> \<and>
      l_epoch (j_lease mine) = l_epoch (j_lease seen) + 1 \<and> so_load J (j_id seen) (w_store w') = Inr mine" by force
  show "w_files w' = w_files w" "j_delegation mine = j_delegation seen" "j_delegation seen \<noteq> None"
    using c(2) dl by simp_all
qed

lemma not_observed:
  assumes "claimDelegation S J seen w = (Inl e, w')" "so_load J (j_id seen) (w_store w) = Inr r"
  shows "w_files w' = w_files w"
    and "\<exists>l st. so_load J (j_id seen) (w_store w') = Inr (r\<lparr>j_lease := l, j_state := st\<rparr>) \<and> st \<in> {j_state r, claimed_state (j_state r)}"
proof -
  let ?claim = "case sv_claim_from S of Some f \<Rightarrow> f seen (sv_owner S) (w_store w)
      | None \<Rightarrow> so_claim J (j_id seen) (sv_owner S) (w_store w)"
  obtain c s1 where c: "?claim = (c, s1)" by (metis surj_pair)
  show "w_files w' = w_files w"
    using assms(1) by (auto simp: claimDelegation_def Let_def split: prod.splits sum.splits if_splits)
  show "\<exists>l st. so_load J (j_id seen) (w_store w') = Inr (r\<lparr>j_lease := l, j_state := st\<rparr>) \<and> st \<in> {j_state r, claimed_state (j_state r)}"
  proof (cases c)
    case (Inl x)
    then have "so_load J (j_id seen) s1 = Inr r" using c assms(2)
        claim_Inl [of "j_id seen" "sv_owner S" "w_store w" x s1 "j_id seen"] claim_from_Inl [of _ seen "sv_owner S" "w_store w" x s1 "j_id seen"]
      by (cases "sv_claim_from S") auto
    moreover have "w' = w\<lparr>w_store := s1\<rparr>" using assms(1) c Inl by (auto simp: claimDelegation_def)
    ultimately show ?thesis by (intro exI [of _ "j_lease r"] exI [of _ "j_state r"]) simp
  next
    case (Inr mine)
    then have m: "mine = r\<lparr>j_lease := j_lease mine, j_state := claimed_state (j_state r)\<rparr>" "so_load J (j_id seen) s1 = Inr mine"
      using c assms(2) claim_Inr [of "j_id seen" "sv_owner S" "w_store w" mine s1] claim_from_Inr [of _ seen "sv_owner S" "w_store w" mine s1]
      by (cases "sv_claim_from S"; auto)+
    obtain e2 s2 where rel: "so_release J (j_id seen) (l_epoch (j_lease mine)) s1 = (e2, s2)" by (metis surj_pair)
    from release_keeps [OF rel m(2)] obtain l where "so_load J (j_id seen) s2 = Inr (mine\<lparr>j_lease := l\<rparr>)" by blast
    moreover have "mine\<lparr>j_lease := l\<rparr> = r\<lparr>j_lease := l, j_state := claimed_state (j_state r)\<rparr>" by (subst m(1)) simp
    moreover have "w_store w' = s2" using assms(1) c Inr rel by (auto simp: claimDelegation_def Let_def split: if_splits)
    ultimately show ?thesis by (intro exI [of _ l] exI [of _ "claimed_state (j_state r)"]) simp
  qed
qed

end

end
