(* ===== verification/Delegated_Delivery.thy ===== *)
theory Delegated_Delivery
  imports Reconciliation
begin

text \<open>
  What \<open>Reconcile\<close> may say about a delegated job: a record reads \<open>transferred\<close> only after this process
  has hashed the file at its place; a mismatch or a lost handle sends the job back with its sources; and
  nothing an old observation says is written over a newer handoff.
\<close>

section \<open>The store under a keeper\<close>

definition elsewhere :: "'s finish_io \<Rightarrow> ('s \<Rightarrow> 's) set" where
  "elsewhere F = {f. Elsewhere f \<in> (\<Union>i. set (fi_gap F i)) \<union> (\<Union>i. set (fi_chunk F i)) \<union> set (fi_after F)}"

text \<open>The record \<open>jid\<close> is there and does not read \<open>transferred\<close>.\<close>

definition open_at :: "('s, 'd) store_ops \<Rightarrow> string \<Rightarrow> 's \<Rightarrow> bool" where
  "open_at J jid s \<longleftrightarrow> (case so_load J jid s of Inl _ \<Rightarrow> False | Inr r \<Rightarrow> j_state r \<noteq> StateTransferred)"

context sweep_layer
begin

lemma open_atE: "open_at J jid s \<Longrightarrow> (\<And>r. so_load J jid s = Inr r \<Longrightarrow> j_state r \<noteq> StateTransferred \<Longrightarrow> P) \<Longrightarrow> P"
  by (auto simp: open_at_def split: sum.splits)

lemma open_update:
  assumes "so_update J jid ep g s = (x, s')" "open_at J jid s"
    and "\<And>r r'. g r = Inr r' \<Longrightarrow> j_state r \<noteq> StateTransferred \<Longrightarrow> j_state r' \<noteq> StateTransferred"
  shows "open_at J jid s'"
proof (cases x)
  case (Inl e)
  with update_Inl [of jid ep g s e s' jid] assms(1,2) show ?thesis by (simp add: open_at_def)
next
  case (Inr r')
  with update_Inr [of jid ep g s r' s'] assms show ?thesis by (auto simp: open_at_def)
qed

lemma open_renew: "so_renew J jid ep s = (x, s') \<Longrightarrow> open_at J jid s \<Longrightarrow> open_at J jid s'"
  using renew_keeps by (elim open_atE) (fastforce simp: open_at_def)

lemma open_release: "so_release J jid ep s = (x, s') \<Longrightarrow> open_at J jid s \<Longrightarrow> open_at J jid s'"
  using release_keeps by (elim open_atE) (fastforce simp: open_at_def)

lemma open_drop: "en_store E = J \<Longrightarrow> open_at J (en_id E) (w_store w) \<Longrightarrow> open_at J (en_id E) (w_store (drop_lease E w))"
  using open_release [OF surjective_pairing, of "en_id E" "w_store w" "en_epoch E"] by (simp add: drop_lease_def)

lemma open_put:
  assumes "put E g w = (e, w')" "en_store E = J" "open_at J (en_id E) (w_store w)"
    and "\<And>r. j_state r \<noteq> StateTransferred \<Longrightarrow> j_state (g r) \<noteq> StateTransferred"
  shows "open_at J (en_id E) (w_store w')"
proof -
  obtain x s' where u: "so_update J (en_id E) (en_epoch E) (\<lambda>rr. Inr (g rr)) (w_store w) = (x, s')" by (rule prod.exhaust)
  have "open_at J (en_id E) s'" by (rule open_update [OF u assms(3)]) (auto simp: assms(4))
  then show ?thesis using assms(1,2) u by (auto simp: put_def split: sum.splits)
qed

lemma open_show: "show_step J now st k s = (k', s') \<Longrightarrow> open_at J (kp_id k) s \<Longrightarrow> open_at J (kp_id k) s'"
  by (auto simp: show_step_def split: prod.splits sum.splits elim!: open_update)

text \<open>Everything that happens while a keeper holds leaves the record open.\<close>

lemma open_held:
  assumes "while_held J dur evs (k, s) = (k', s')" "open_at J (kp_id k) s"
    and "\<And>f s. Other f \<in> set evs \<Longrightarrow> open_at J (kp_id k) s \<Longrightarrow> open_at J (kp_id k) (f s)"
  shows "open_at J (kp_id k) s'"
  using assms
proof (induction evs arbitrary: k s)
  case Nil
  then show ?case by simp
next
  case (Cons ev evs)
  obtain k1 s1 where st: "held_step J dur ev (k, s) = (k1, s1)" by (rule prod.exhaust)
  have id: "kp_id k1 = kp_id k" using held_step_fenced(4) [OF st] .
  have "open_at J (kp_id k) s1"
  proof (cases ev)
    case (Tick now)
    with st Cons.prems(2) show ?thesis
      by (auto simp: hold_tick_def Let_def split: if_splits prod.splits sum.splits elim!: open_renew)
  next
    case (Moved now)
    with st Cons.prems(2) show ?thesis by simp
  next
    case (Show now step)
    with st Cons.prems(2) open_show show ?thesis by simp
  next
    case (Other f)
    with st Cons.prems(2,3) show ?thesis by auto
  qed
  with Cons.IH [of k1 s1] Cons.prems st id show ?case by simp
qed

end


section \<open>Hashing under the keeper\<close>

lemma copyReporting_keeps:
  assumes "copyReporting piece halt say i whole out inp k = (res, k')" "P k"
    and "\<And>i n m k. P k \<Longrightarrow> P (say i n m k)"
  shows "P k'"
  using assms
proof (induction piece halt say i whole out inp k rule: copyReporting.induct)
  case (1 piece halt say i whole out inp k)
  note step = 1(2) [unfolded copyReporting.simps [of piece halt say i]]
  show ?case
  proof (cases "halt i k = None \<and> inp \<noteq> []")
    case True
    with step 1(1,3,4) show ?thesis by (auto simp: Let_def)
  next
    case False
    with step 1(3) show ?thesis by (auto split: option.splits if_splits)
  qed
qed

lemma hashFileReporting_keeps:
  assumes "hashFileReporting hex opened piece halt say fs p k = (res, k')" "P k" "\<And>i n m k. P k \<Longrightarrow> P (say i n m k)"
  shows "P k'"
  using assms copyReporting_keeps [of piece halt say _ _ _ _ k _ _ P]
  by (auto simp: hashFileReporting_def split: option.splits node.splits prod.splits)

lemma while_held_id: "while_held J dur evs (k, s) = (k', s') \<Longrightarrow> kp_id k' = kp_id k"
  using while_held_fenced [of J dur evs k s k' s'] by blast

lemma show_step_id: "show_step J now st k s = (k', s') \<Longrightarrow> kp_id k' = kp_id k"
  by (auto simp: show_step_def refused_write_def refuse_keeper_def beat_def split: prod.splits sum.splits if_splits)

lemma as_event_Other [simp]: "as_event x = Other f \<longleftrightarrow> x = Elsewhere f" "Other f = as_event x \<longleftrightarrow> x = Elsewhere f"
  by (cases x; auto)+

lemma Other_as_event: "Other f \<in> set (map as_event xs) \<longleftrightarrow> Elsewhere f \<in> set xs"
  by (auto simp: image_iff)

lemma Other_copy: "Other f \<in> set (copy_events F sys reports) \<Longrightarrow> f \<in> elsewhere F"
  by (auto simp: copy_events_def elsewhere_def image_iff)

context sweep_layer
begin

definition hash_open :: "string \<Rightarrow> 's hashing \<Rightarrow> bool" where
  "hash_open jid h \<longleftrightarrow> (case h of (k, s, _) \<Rightarrow> kp_id k = jid \<and> open_at J jid s)"

lemma open_say_hash:
  assumes "hash_open jid h" "\<And>f s. f \<in> elsewhere F \<Longrightarrow> open_at J jid s \<Longrightarrow> open_at J jid (f s)"
  shows "hash_open jid (say_hash S J F i done whole h)"
proof -
  obtain k s said where h: "h = (k, s, said)" by (metis prod_cases3)
  obtain k1 s1 where r: "while_held J (sv_dur S) (map as_event (fi_chunk F i)) (k, s) = (k1, s1)" by (rule prod.exhaust)
  have 1: "kp_id k1 = jid" using while_held_id [OF r] assms(1) h by (simp add: hash_open_def)
  have 2: "open_at J jid s1"
    using open_held [OF r] assms h unfolding Other_as_event by (auto simp: hash_open_def elsewhere_def)
  show ?thesis
  proof (cases "0 < sv_persist S \<and> fi_time F i - said < sv_persist S")
    case True
    with 1 2 h r show ?thesis by (simp add: say_hash_def hash_open_def beat_def)
  next
    case False
    obtain k2 s2 where st: "show_step J (fi_time F i) (phase ''verifying'' 3 (done, whole)) (beat (fi_time F i) k1) s1 = (k2, s2)"
      by (rule prod.exhaust)
    have "kp_id (beat (fi_time F i) k1) = jid" using 1 by (simp add: beat_def)
    with open_show [OF st] show_step_id [OF st] 2 have "kp_id k2 = jid \<and> open_at J jid s2" by simp
    with False h r st show ?thesis by (auto simp: say_hash_def hash_open_def Let_def)
  qed
qed

section \<open>Nothing unproven is called transferred\<close>

text \<open>What has to be true of the machine when a record is called \<open>transferred\<close>.\<close>

definition verified :: "('s, 'd, 'x) hand \<Rightarrow> 'd job_record \<Rightarrow> 's world \<Rightarrow> bool" where
  "verified A rec w \<longleftrightarrow>
     (\<exists>sp partial final c r. SpecOf D rec = Inr sp \<and>
        LocalSink (rc_names (ha_conf A)) (rc_root (ha_conf A)) (j_id rec) (sp_sink sp) = Inr (partial, final) \<and>
        w_files w final = Some (File c) \<and>
        (a_digest (sp_artifact sp) \<noteq> [] \<longrightarrow> sameDigest (rc_low (ha_conf A)) (''sha256:'' @ sv_hex S c) (a_digest (sp_artifact sp))) \<and>
        so_load J (j_id rec) (w_store w) = Inr r \<and> p_done (j_progress r) = int (length c) \<and> LastFailure r = None)"

lemma setCheckpoint_frame:
  assumes "setCheckpoint R D cp rr = Inr r'" "checkpoint_wf cp"
  shows "\<exists>doc names. r' = rr\<lparr>j_checkpoint := doc, j_content := names\<rparr>"
  using setCheckpoint_reads_back [OF assms(2), of rr] assms(1) by auto

lemma wf_none: "checkpoint_wf no_checkpoint" and wf_prefix: "checkpoint_wf \<lparr>c_prefix = n, c_validators = v, c_verified = []\<rparr>"
  by (simp_all add: checkpoint_wf_def no_checkpoint_def)

lemma mismatched_record_Inr:
  assumes "mismatched_record C E m rr = Inr r'" "en_ranges E = R" "en_docs E = D"
  shows "j_delegation r' = None" "j_state r' = (if Permanent m then StateFailed else StatePending)"
    "valid_utf8 (err_text (rc_qt C) m) \<Longrightarrow> LastFailure r' =
       Some (if Permanent m then Perm (Plain (err_text (rc_qt C) m)) else Plain (err_text (rc_qt C) m))"
    "\<exists>cp. CheckpointOf R D r' = Inr cp \<and> claimed cp = {}"
proof -
  let ?rr = "let rr = rr\<lparr>j_delegation := None, j_state := (if Permanent m then StateFailed else StatePending)\<rparr>;
          rr = setFailure (rc_qt C) (Some m) rr
      in if rc_cause C then setFailureCause (rc_qt C) (Some m) rr else rr"
  have s: "setCheckpoint R D no_checkpoint ?rr = Inr r'" using assms by (simp add: mismatched_record_def Let_def)
  from setCheckpoint_frame [OF s wf_none] obtain doc names where r': "r' = ?rr\<lparr>j_checkpoint := doc, j_content := names\<rparr>" by blast
  show "j_delegation r' = None" "j_state r' = (if Permanent m then StateFailed else StatePending)"
    unfolding r' by (simp_all add: Let_def setFailure_def setFailureCause_def FailureOf_def)
  show "LastFailure r' = Some (if Permanent m then Perm (Plain (err_text (rc_qt C) m)) else Plain (err_text (rc_qt C) m))"
    if "valid_utf8 (err_text (rc_qt C) m)"
  proof -
    have "LastFailure r' = LastFailure ?rr" unfolding r' by (simp add: LastFailure_def)
    then show ?thesis
      by (simp only: Let_def if_distrib [of LastFailure] LastFailure_setFailureCause LastFailure_set [OF that] if_cancel)
  qed
  obtain rs where "CheckpointOf R D r' = Inr \<lparr>c_prefix = ro_prefix R rs, c_validators = c_validators no_checkpoint, c_verified = rs\<rparr>"
      "canonical rs" "bytes_of rs = claimed no_checkpoint"
    using setCheckpoint_reads_back [OF wf_none, of ?rr] s by auto
  moreover have "claimed no_checkpoint = {}" by (simp add: claimed_def no_checkpoint_def)
  ultimately show "\<exists>cp. CheckpointOf R D r' = Inr cp \<and> claimed cp = {}"
    using prefix_bytes [of rs] by (auto simp: claimed_def)
qed

lemma delivered_record_Inr:
  assumes "delivered_record E now whole rr = Inr r'" "en_ranges E = R" "en_docs E = D"
  shows "p_done (j_progress r') = whole" "LastFailure r' = None"
    "j_delegation r' = map_option (\<lambda>dl. dl\<lparr>d_delivered := True\<rparr>) (j_delegation rr)"
proof -
  let ?rr = "clearFailure (rr\<lparr>j_progress := (j_progress rr)\<lparr>p_done := whole, p_updated := now, p_step := None\<rparr>, j_state := StateTransferred\<rparr>)"
  have "setCheckpoint R D \<lparr>c_prefix = whole, c_validators = no_validators, c_verified = []\<rparr>
      (?rr\<lparr>j_delegation := map_option (\<lambda>dl. dl\<lparr>d_delivered := True\<rparr>) (j_delegation ?rr)\<rparr>) = Inr r'"
    using assms by (simp add: delivered_record_def Let_def)
  from setCheckpoint_frame [OF this wf_prefix] obtain doc names where
    r': "r' = ?rr\<lparr>j_delegation := map_option (\<lambda>dl. dl\<lparr>d_delivered := True\<rparr>) (j_delegation ?rr), j_checkpoint := doc, j_content := names\<rparr>"
    by auto
  show "p_done (j_progress r') = whole" "LastFailure r' = None"
    "j_delegation r' = map_option (\<lambda>dl. dl\<lparr>d_delivered := True\<rparr>) (j_delegation rr)"
    unfolding r' by (simp_all add: LastFailure_def clearFailure_def)
qed

lemma settle_file_open:
  assumes run: "settle_file A E F sp whole digest w = (e, w')"
    and env: "en_store E = J" "en_ranges E = R" "en_docs E = D"
    and s: "open_at J (en_id E) (w_store w)"
  shows "open_at J (en_id E) (w_store w') \<or>
    (a_digest (sp_artifact sp) \<noteq> [] \<longrightarrow> sameDigest (rc_low (ha_conf A)) digest (a_digest (sp_artifact sp))) \<and>
    w_files w' = w_files w \<and>
    (\<exists>r. so_load J (en_id E) (w_store w') = Inr r \<and> p_done (j_progress r) = whole \<and> LastFailure r = None)"
proof (cases "a_digest (sp_artifact sp) \<noteq> [] \<and> \<not> sameDigest (rc_low (ha_conf A)) digest (a_digest (sp_artifact sp))")
  case True
  let ?m = "ended (ha_conf A) (delegate_mismatch digest (a_digest (sp_artifact sp)))"
  obtain y s' where u: "so_update J (en_id E) (en_epoch E) (mismatched_record (ha_conf A) E ?m) (w_store w) = (y, s')"
    by (rule prod.exhaust)
  have "j_state r' \<noteq> StateTransferred" if "mismatched_record (ha_conf A) E ?m r = Inr r'" for r r'
    using mismatched_record_Inr(2) [OF that env(2,3)] by simp
  then have "open_at J (en_id E) s'" using open_update [OF u s] by blast
  with run True u env show ?thesis by (auto simp: settle_file_def Let_def split: sum.splits)
next
  case False
  obtain y s' where u: "so_update J (en_id E) (en_epoch E) (delivered_record E (fi_end F) whole) (w_store w) = (y, s')"
    by (rule prod.exhaust)
  have w': "w' = w\<lparr>w_store := s'\<rparr>" using run False u env by (auto simp: settle_file_def Let_def split: sum.splits)
  show ?thesis
  proof (cases y)
    case (Inl x)
    with update_Inl [of "en_id E" _ _ "w_store w" x s' "en_id E"] u s w' show ?thesis by (simp add: open_at_def)
  next
    case (Inr r')
    obtain r where r: "delivered_record E (fi_end F) whole r = Inr r'" "so_load J (en_id E) s' = Inr r'"
      using update_Inr [of "en_id E" _ _ "w_store w" r' s'] u Inr by blast
    note delivered_record_Inr(1,2) [OF r(1) env(2,3)]
    with False r(2) w' show ?thesis by auto
  qed
qed

end


context sweep_layer
begin

lemma SpecOf_frame: "j_spec r' = j_spec r \<Longrightarrow> j_kind r' = j_kind r \<Longrightarrow> j_id r' = j_id r \<Longrightarrow> SpecOf D r' = SpecOf D r"
  using spec_frame_law [of r' r] by (simp add: SpecOf_def)

lemma deliver_delegated_open:
  assumes run: "deliver_delegated A S E F dl d mine w x = (e, w', x')"
    and env: "en_store E = J" "en_ranges E = R" "en_docs E = D" "en_id E = j_id mine"
    and s: "open_at J (en_id E) (w_store w)"
    and others: "\<And>f s. f \<in> elsewhere F \<Longrightarrow> open_at J (en_id E) s \<Longrightarrow> open_at J (en_id E) (f s)"
  shows "open_at J (en_id E) (w_store w') \<or> verified A mine w'"
proof (cases "SpecOf D mine")
  case (Inl y)
  with run s env show ?thesis by (auto simp: deliver_delegated_def Let_def)
next
  case (Inr sp)
  note sp = this
  show ?thesis
  proof (cases "LocalSink (rc_names (ha_conf A)) (rc_root (ha_conf A)) (j_id mine) (sp_sink sp)")
    case (Inl y)
    with run s env sp show ?thesis by (auto simp: deliver_delegated_def Let_def)
  next
    case (Inr pf)
    obtain partial final where pf: "pf = (partial, final)" by (rule prod.exhaust)
    note sink = Inr [unfolded pf]
    let ?answer = "case dg_reports d of Some f \<Rightarrow> f (d_external dl) final x
        | None \<Rightarrow> (case dg_finalize d (d_external dl) final x of (ans, x) \<Rightarrow> (([], ans), x))"
    obtain reports failed content x1 where ans: "?answer = ((reports, failed, content), x1)" by (metis surj_pair)
    let ?k = "keepWatching (sv_silence S) (sv_ttl S) (en_id E) (en_epoch E) (fi_start F)"
    obtain k1 s1 where h1: "while_held J (sv_dur S) (copy_events F (d_system dl) reports) (?k, w_store w) = (k1, s1)" by (rule prod.exhaust)
    let ?fs = "case content of None \<Rightarrow> w_files w | Some c \<Rightarrow> (w_files w)(final \<mapsto> File c)"
    have k: "kp_id ?k = en_id E" by (simp add: keepWatching_def)
    have o: "open_at J (en_id E) (f s)" if "Other f \<in> set (copy_events F (d_system dl) reports)" "open_at J (en_id E) s" for f s
      using that others Other_copy by blast
    have s1: "kp_id k1 = en_id E" "open_at J (en_id E) s1"
      using while_held_id [OF h1] open_held [OF h1] o s unfolding k by blast+
    show ?thesis
    proof (cases failed)
      case (Some y)
      with run env sp sink ans h1 s1 show ?thesis by (auto simp: deliver_delegated_def Let_def)
    next
      case None
      obtain k2 s2 where st: "show_step J (fi_verify F) (phase ''verifying'' 3 (0, 0)) k1 s1 = (k2, s2)" by (rule prod.exhaust)
      have s2: "kp_id k2 = en_id E" "open_at J (en_id E) s2" using show_step_id [OF st] open_show [OF st] s1 by auto
      obtain res k3 s3 said where h: "hashFileReporting (sv_hex S) (fi_open F) (fi_piece F) (halt_hash F) (say_hash S J F) ?fs final (k2, s2, fi_verify F)
          = (res, k3, s3, said)" by (metis prod_cases4)
      have "hash_open (en_id E) (k3, s3, said)"
        by (rule hashFileReporting_keeps [OF h, of "hash_open (en_id E)"])
          (use s2 in \<open>simp add: hash_open_def\<close>, rule open_say_hash, assumption, rule others)
      then have s3: "kp_id k3 = en_id E" "open_at J (en_id E) s3" by (simp_all add: hash_open_def)
      show ?thesis
      proof (cases res)
        case (Inl y)
        with run env sp sink ans h1 None st h s3 show ?thesis by (auto simp: deliver_delegated_def Let_def)
      next
        case (Inr wd)
        obtain whole digest where wd: "wd = (whole, digest)" by (rule prod.exhaust)
        obtain c where c: "?fs final = Some (File c)" "whole = int (length c)" "digest = ''sha256:'' @ sv_hex S c"
          using hashFileReporting_whole [of "sv_hex S"] h Inr wd by metis
        obtain k4 s4 where a: "while_held J (sv_dur S) (map as_event (fi_after F)) (k3, s3) = (k4, s4)" by (rule prod.exhaust)
        have s4: "open_at J (en_id E) s4"
          using open_held [OF a] s3 others unfolding Other_as_event by (auto simp: elsewhere_def)
        let ?w = "\<lparr>w_files = ?fs, w_store = s4\<rparr>"
        obtain y w5 where f: "settle_file A E F sp whole digest ?w = (y, w5)" by (rule prod.exhaust)
        have "w' = (if kp_fence k4 = None then w5 else ?w)"
          using run env sp sink ans h1 None st h Inr wd a f
          by (auto simp: deliver_delegated_def Let_def stop_keeper_def split: option.splits)
        with settle_file_open [OF f env(1-3)] s4 c sp sink env(4) show ?thesis by (auto simp: verified_def)
      qed
    qed
  qed
qed

end


section \<open>Reconcile\<close>

context sweep_layer
begin

lemma claim_open:
  assumes "claimDelegation S J seen w = (x, w')" "open_at J (j_id seen) (w_store w)"
  shows "open_at J (j_id seen) (w_store w')"
proof (cases x)
  case (Inl e)
  from assms(2) show ?thesis
  proof (rule open_atE)
    fix r assume "so_load J (j_id seen) (w_store w) = Inr r" "j_state r \<noteq> StateTransferred"
    with not_observed(2) [of seen w e w' r] assms(1) Inl show ?thesis by (fastforce simp: open_at_def)
  qed
next
  case (Inr mine)
  with observed(4) [of seen w mine w'] assms(1) obtain r where r: "so_load J (j_id seen) (w_store w) = Inr r"
      "mine = r\<lparr>j_lease := j_lease mine, j_state := claimed_state (j_state r)\<rparr>" "so_load J (j_id seen) (w_store w') = Inr mine"
    by blast
  have "j_state mine = claimed_state (j_state r)" using arg_cong [OF r(2), of j_state] by simp
  with r(1,3) assms(2) show ?thesis by (simp add: open_at_def)
qed

lemma claimed_id: "claimDelegation S J seen w = (Inr mine, w') \<Longrightarrow>
    so_load J (j_id seen) (w_store w) = Inr r \<Longrightarrow>
    j_id mine = j_id r \<and> j_spec mine = j_spec r \<and> j_kind mine = j_kind r \<and> j_delegation mine = j_delegation seen"
proof -
  assume a: "claimDelegation S J seen w = (Inr mine, w')" "so_load J (j_id seen) (w_store w) = Inr r"
  from observed(2,4) [OF a(1)] a(2) have m: "mine = r\<lparr>j_lease := j_lease mine, j_state := claimed_state (j_state r)\<rparr>"
      "j_delegation mine = j_delegation seen" by auto
  from arg_cong [OF m(1), of j_id] arg_cong [OF m(1), of j_spec] arg_cong [OF m(1), of j_kind] m(2) show ?thesis by simp
qed

lemma verified_frame:
  "j_spec r' = j_spec r \<Longrightarrow> j_kind r' = j_kind r \<Longrightarrow> j_id r' = j_id r \<Longrightarrow> verified A r' w = verified A r w"
  using SpecOf_frame [of r' r] by (simp add: verified_def)

definition our_hand :: "('s, 'd, 'x) hand \<Rightarrow> bool" where
  "our_hand A \<longleftrightarrow> en_store (ha_env A) = J \<and> en_ranges (ha_env A) = R \<and> en_docs (ha_env A) = D"

text \<open>The store after one branch of \<open>Reconcile\<close>; only taking delivery can call a record transferred.\<close>

lemma after_claim:
  assumes "our_hand A" "so_load J (j_id rec) (w_store w) = Inr rec" "j_state rec \<noteq> StateTransferred"
    and "claimDelegation S J rec w = (Inr mine, w1)" "E = env_at (ha_env A) mine"
  shows "open_at J (j_id rec) (w_store w1)"
    and "put E g w1 = (y, w2) \<Longrightarrow> (\<And>r. j_state r \<noteq> StateTransferred \<Longrightarrow> j_state (g r) \<noteq> StateTransferred) \<Longrightarrow>
      open_at J (j_id rec) (w_store w2)"
    and "open_at J (j_id rec) (w_store w2) \<Longrightarrow> open_at J (j_id rec) (w_store (drop_lease E w2))"
proof -
  have o: "open_at J (j_id rec) (w_store w)" using assms(2,3) by (simp add: open_at_def)
  have E: "en_store E = J" "en_id E = j_id rec"
    using claimed_id [OF assms(4,2)] assms(1,5) by (simp_all add: our_hand_def env_at_def)
  show c: "open_at J (j_id rec) (w_store w1)" by (rule claim_open [OF assms(4) o])
  show "put E g w1 = (y, w2) \<Longrightarrow> (\<And>r. j_state r \<noteq> StateTransferred \<Longrightarrow> j_state (g r) \<noteq> StateTransferred) \<Longrightarrow>
      open_at J (j_id rec) (w_store w2)"
    using open_put [of E g w1 y w2] E c by simp
  show "open_at J (j_id rec) (w_store w2) \<Longrightarrow> open_at J (j_id rec) (w_store (drop_lease E w2))"
    using open_drop [of E w2] E by simp
qed

lemma stranded_open:
  assumes "our_hand A" "so_load J (j_id rec) (w_store (sc_world sc)) = Inr rec" "j_state rec \<noteq> StateTransferred"
    and "stranded A S rec sys sc = (e, sc')"
  shows "open_at J (j_id rec) (w_store (sc_world sc'))"
proof -
  obtain c w1 where c: "claimDelegation S J rec (sc_world sc) = (c, w1)" by (rule prod.exhaust)
  have J: "en_store (ha_env A) = J" using assms(1) by (simp add: our_hand_def)
  have o: "open_at J (j_id rec) (w_store (sc_world sc))" using assms(2,3) by (simp add: open_at_def)
  have w1: "open_at J (j_id rec) (w_store w1)" by (rule claim_open [OF c o])
  show ?thesis
  proof (cases "\<exists>mine. c = Inr mine \<and> j_error rec \<noteq> stranded_note (ha_conf A) S sys")
    case True
    then obtain mine where m: "c = Inr mine" "j_error rec \<noteq> stranded_note (ha_conf A) S sys" by blast
    note a = after_claim [OF assms(1-3) c [unfolded m(1)] refl]
    obtain y w2 where u: "put (env_at (ha_env A) mine) (setFailure (rc_qt (ha_conf A)) (Some (Plain (stranded_note (ha_conf A) S sys)))) w1 = (y, w2)"
      by (rule prod.exhaust)
    from a(2) [OF u] have "open_at J (j_id rec) (w_store w2)" by simp
    from a(3) [OF this] assms(4) c m u J show ?thesis by (auto simp: stranded_def Let_def)
  next
    case False
    with assms(4) c J w1 o show ?thesis by (cases c) (auto simp: stranded_def Let_def split: if_splits)
  qed
qed

lemma resolve_open:
  assumes "our_hand A" "so_load J (j_id rec) (w_store (sc_world sc)) = Inr rec" "j_state rec \<noteq> StateTransferred"
    and "resolve A S rec d sc = (e, sc')"
  shows "open_at J (j_id rec) (w_store (sc_world sc'))"
proof -
  obtain c w1 where c: "claimDelegation S J rec (sc_world sc) = (c, w1)" by (rule prod.exhaust)
  have J: "en_store (ha_env A) = J" using assms(1) by (simp add: our_hand_def)
  have o: "open_at J (j_id rec) (w_store (sc_world sc))" using assms(2,3) by (simp add: open_at_def)
  have w1: "open_at J (j_id rec) (w_store w1)" by (rule claim_open [OF c o])
  show ?thesis
  proof (cases "dg_locate d")
    case None
    with assms(4) o show ?thesis by (simp add: resolve_def Let_def)
  next
    case (Some f)
    obtain ans x where f: "f (j_id rec) (sc_ext sc) = (ans, x)" by (rule prod.exhaust)
    show ?thesis
    proof (cases "\<exists>ext mine. ans = Inr ext \<and> c = Inr mine")
      case True
      then obtain ext mine where m: "ans = Inr ext" "c = Inr mine" by blast
      note a = after_claim [OF assms(1-3) c [unfolded m(2)] refl]
      let ?g = "if ext = [] then (\<lambda>rr. rr\<lparr>j_delegation := None, j_state := StatePending\<rparr>)
          else (\<lambda>rr. rr\<lparr>j_delegation := map_option (\<lambda>dl. dl\<lparr>d_external := ext\<rparr>) (j_delegation rr)\<rparr>)"
      obtain y w2 where u: "put (env_at (ha_env A) mine) ?g w1 = (y, w2)"
        by (cases "put (env_at (ha_env A) mine) ?g w1") (rule that)
      from a(2) [OF u] have "open_at J (j_id rec) (w_store w2)" by (auto split: if_splits)
      from a(3) [OF this] assms(4) c m u J Some f show ?thesis
        by (auto simp: resolve_def Let_def world_ext_def unhand_def split: if_splits)
    next
      case False
      with assms(4) c J w1 o Some f show ?thesis
        by (cases c; cases ans) (auto simp: resolve_def Let_def world_ext_def)
    qed
  qed
qed

lemma restarted_open:
  assumes "our_hand A" "so_load J (j_id rec) (w_store (sc_world sc)) = Inr rec" "j_state rec \<noteq> StateTransferred"
    and "restarted A S rec dl d n m sc = (e, sc')"
  shows "open_at J (j_id rec) (w_store (sc_world sc'))"
proof -
  obtain c w1 where c: "claimDelegation S J rec (sc_world sc) = (c, w1)" by (rule prod.exhaust)
  have J: "en_store (ha_env A) = J" using assms(1) by (simp add: our_hand_def)
  have o: "open_at J (j_id rec) (w_store (sc_world sc))" using assms(2,3) by (simp add: open_at_def)
  have w1: "open_at J (j_id rec) (w_store w1)" by (rule claim_open [OF c o])
  show ?thesis
  proof (cases c)
    case (Inl z)
    with assms(4) c J w1 show ?thesis by (auto simp: restarted_def Let_def)
  next
    case (Inr mine)
    note a = after_claim [OF assms(1-3) c [unfolded Inr] refl]
    obtain z x where ab: "dg_abandon d (d_external dl) (sc_ext sc) = (z, x)" by (rule prod.exhaust)
    obtain y w2 where u: "put (env_at (ha_env A) mine) (\<lambda>rr. setFailure (rc_qt (ha_conf A)) (Some (falsified S (d_system dl) n m))
        (rr\<lparr>j_delegation := None, j_state := StatePending\<rparr>)) w1 = (y, w2)" by (rule prod.exhaust)
    from a(2) [OF u] have "open_at J (j_id rec) (w_store w2)" by simp
    from a(3) [OF this] assms(4) c Inr u J ab show ?thesis by (auto simp: restarted_def Let_def world_ext_def)
  qed
qed

lemma honourDelegated_open:
  assumes "our_hand A" "so_load J (j_id rec) (w_store (sc_world sc)) = Inr rec" "j_state rec \<noteq> StateTransferred"
    and "honourDelegated A S rec dl sc = (e, sc')"
  shows "open_at J (j_id rec) (w_store (sc_world sc'))"
proof -
  obtain c w1 where c: "claimDelegation S J rec (sc_world sc) = (c, w1)" by (rule prod.exhaust)
  have J: "en_store (ha_env A) = J" using assms(1) by (simp add: our_hand_def)
  have o: "open_at J (j_id rec) (w_store (sc_world sc))" using assms(2,3) by (simp add: open_at_def)
  have w1: "open_at J (j_id rec) (w_store w1)" by (rule claim_open [OF c o])
  show ?thesis
  proof (cases "\<exists>d mine. BySystem (ha_tiers A) (d_system dl) = Some d \<and> c = Inr mine")
    case False
    with assms(4) c J w1 o show ?thesis by (cases c) (auto simp: honourDelegated_def split: option.splits)
  next
    case True
    then obtain d mine where m: "BySystem (ha_tiers A) (d_system dl) = Some d" "c = Inr mine" by blast
    note a = after_claim [OF assms(1-3) c [unfolded m(2)] refl]
    note step = assms(4) [unfolded honourDelegated_def J Let_def m option.case prod.case c sum.case]
    show ?thesis
    proof (cases "j_want mine")
      case WantRun
      with step a(3) [OF a(1)] show ?thesis by auto
    next
      case WantCancel
      obtain z x where ab: "dg_abandon d (d_external dl) (sc_ext sc) = (z, x)" by (rule prod.exhaust)
      obtain y w2 where u: "put (env_at (ha_env A) mine)
          (\<lambda>rr. clearFailure (rr\<lparr>j_state := StateCancelled, j_delegation := None\<rparr>)) w1 = (y, w2)" by (rule prod.exhaust)
      from a(2) [OF u] have "open_at J (j_id rec) (w_store w2)" by simp
      with step WantCancel ab u w1 show ?thesis by (auto simp: world_ext_def split: option.splits)
    next
      case WantPause
      obtain y w2 where u: "put (env_at (ha_env A) mine) (setFailure (rc_qt (ha_conf A))
          (Some (Errorf [Str (dg_system d), Lit '' cannot pause a transfer it has taken over'']))) w1 = (y, w2)" by (rule prod.exhaust)
      from a(2) [OF u] have w2: "open_at J (j_id rec) (w_store w2)" by simp
      show ?thesis
      proof (cases "dg_suspend d")
        case None
        with step WantPause u w2 a(3) [OF w2] show ?thesis by (cases y) auto
      next
        case (Some sr)
        obtain suspend resume where sr: "sr = (suspend, resume)" by (rule prod.exhaust)
        obtain z x where "suspend (d_external dl) (sc_ext sc) = (z, x)" by (rule prod.exhaust)
        with step WantPause Some sr w1 a(3) [OF w1] show ?thesis by (cases z) (auto simp: world_ext_def)
      qed
    qed
  qed
qed

lemma abandonDelegated_world: "abandonDelegated A rec dl sc = (e, sc') \<Longrightarrow> sc_world sc' = sc_world sc"
  by (auto simp: abandonDelegated_def split: if_splits prod.splits option.splits)

end


context sweep_layer
begin

lemma act_on_status_open:
  assumes "act_on_status A S E F dl d st mine w x = (e, w', x')"
    and env: "en_store E = J" "en_ranges E = R" "en_docs E = D" "en_id E = j_id mine"
    and s: "open_at J (en_id E) (w_store w)"
    and others: "\<And>f s. f \<in> elsewhere F \<Longrightarrow> open_at J (en_id E) s \<Longrightarrow> open_at J (en_id E) (f s)"
  shows "open_at J (en_id E) (w_store w') \<or> verified A mine w'"
proof (cases "su_state st = DelegateTransferred")
  case True
  then have "deliver_delegated A S E F dl d mine w x = (e, w', x')" using assms(1) by (simp add: act_on_status_def)
  from deliver_delegated_open [OF this env s] others show ?thesis by blast
next
  case False
  obtain y w1 where r: "put E (running_record (fi_end F) (d_system dl) st) w = (y, w1)" by (rule prod.exhaust)
  obtain z w2 where t: "put E (taken_back (rc_qt (ha_conf A)) st) w = (z, w2)" by (rule prod.exhaust)
  have 1: "open_at J (en_id E) (w_store (drop_lease E w1))"
    by (intro open_drop env open_put [OF r env(1) s]) (simp add: running_record_def)
  have 2: "open_at J (en_id E) (w_store (drop_lease E w2))"
    by (intro open_drop env open_put [OF t env(1) s]) (simp add: taken_back_def Let_def)
  show ?thesis using assms(1) False r t 1 2 s by (cases "su_state st") (auto simp: act_on_status_def)
qed

lemma poll_delegate_open:
  assumes run: "poll_delegate A S F rec dl d sc = (e, sc')"
    and pre: "our_hand A" "so_load J (j_id rec) (w_store (sc_world sc)) = Inr rec" "j_state rec \<noteq> StateTransferred"
    and others: "\<And>f s. f \<in> elsewhere F \<Longrightarrow> open_at J (j_id rec) s \<Longrightarrow> open_at J (j_id rec) (f s)"
  shows "open_at J (j_id rec) (w_store (sc_world sc')) \<or> verified A rec (sc_world sc')"
proof -
  have E: "en_store (ha_env A) = J" "en_ranges (ha_env A) = R" "en_docs (ha_env A) = D"
    using pre(1) by (simp_all add: our_hand_def)
  have o: "open_at J (j_id rec) (w_store (sc_world sc))" using pre(2,3) by (simp add: open_at_def)
  obtain ans x where p: "dg_poll d (d_external dl) (sc_ext sc) = (ans, x)" by (rule prod.exhaust)
  obtain c w1 where c: "claimDelegation S J rec (sc_world sc) = (c, w1)" by (rule prod.exhaust)
  have w1: "open_at J (j_id rec) (w_store w1)" by (rule claim_open [OF c o])
  show ?thesis
  proof (cases ans)
    case (Inl y)
    with run p o E show ?thesis by (auto simp: poll_delegate_def Let_def)
  next
    case (Inr st)
    note ans = this
    note step = run [unfolded poll_delegate_def E Let_def p ans prod.case sum.case]
    show ?thesis
    proof (cases "su_suspended st")
      case True
      show ?thesis
      proof (cases "dg_suspend d")
        case None
        with step True o show ?thesis by auto
      next
        case (Some sr)
        obtain suspend resume where sr: "sr = (suspend, resume)" by (rule prod.exhaust)
        obtain z x1 where z: "resume (d_external dl) x = (z, x1)" by (rule prod.exhaust)
        show ?thesis
        proof (cases c)
          case (Inl y)
          with step True Some sr w1 c show ?thesis by auto
        next
          case (Inr mine)
          note a = after_claim(3) [OF pre c [unfolded Inr] refl w1]
          with step True Some sr z Inr c show ?thesis by (auto simp: world_ext_def split: if_splits)
        qed
      qed
    next
      case False
      show ?thesis
      proof (cases "CheckpointOf R D rec")
        case (Inl y)
        with step False o show ?thesis by auto
      next
        case (Inr cp)
        note cp = this
        show ?thesis
        proof (cases "0 < su_done st \<and> su_done st < c_prefix cp")
          case True
          with step False cp have "restarted A S rec dl d (c_prefix cp) (su_done st) (sc\<lparr>sc_ext := x\<rparr>) = (e, sc')" by simp
          from restarted_open [OF pre(1) _ pre(3) this] pre(2) show ?thesis by simp
        next
          case go: False
          show ?thesis
          proof (cases c)
            case (Inl y)
            with step False cp go w1 c show ?thesis by auto
          next
            case (Inr mine)
            note m = claimed_id [OF c [unfolded Inr] pre(2)]
            show ?thesis
            proof (cases "j_want mine = WantRun")
              case w: False
              obtain y s where rel: "so_release J (j_id mine) (l_epoch (j_lease mine)) (w_store w1) = (y, s)" by (rule prod.exhaust)
              have "open_at J (j_id rec) s" using open_release [OF rel] w1 m by simp
              with step False cp go Inr w rel c show ?thesis by auto
            next
              case w: True
              let ?E = "env_at (ha_env A) mine"
              obtain y w2 x2 where act: "act_on_status A S ?E F dl d st mine w1 x = (y, w2, x2)" by (rule prod_cases3)
              have env: "en_store ?E = J" "en_ranges ?E = R" "en_docs ?E = D" "en_id ?E = j_id mine" "en_id ?E = j_id rec"
                using E m by (simp_all add: env_at_def)
              have "open_at J (en_id ?E) (w_store w2) \<or> verified A mine w2"
                by (rule act_on_status_open [OF act env(1-4)]) (use w1 others env(5) in simp_all)
              then have "open_at J (j_id rec) (w_store w2) \<or> verified A rec w2"
                using env(5) verified_frame [of mine rec A w2] m by simp
              moreover have "sc_world sc' = w2" using step False cp go Inr w act c by (auto simp: world_ext_def)
              ultimately show ?thesis by simp
            qed
          qed
        qed
      qed
    qed
  qed
qed

theorem Reconcile_verifies:
  assumes run: "Reconcile A S F jid sc = (e, sc')"
    and pre: "our_hand A" "so_load J jid (w_store (sc_world sc)) = Inr rec" "j_id rec = jid" "j_state rec \<noteq> StateTransferred"
    and others: "\<And>f s. f \<in> elsewhere F \<Longrightarrow> open_at J jid s \<Longrightarrow> open_at J jid (f s)"
    and after: "so_load J jid (w_store (sc_world sc')) = Inr r'" "j_state r' = StateTransferred"
  shows "verified A rec (sc_world sc')"
proof -
  have l: "so_load J (j_id rec) (w_store (sc_world sc)) = Inr rec" using pre(2,3) by simp
  have J: "en_store (ha_env A) = J" using pre(1) by (simp add: our_hand_def)
  have same: "open_at J jid (w_store (sc_world sc))" using pre(2,4) by (simp add: open_at_def)
  have "open_at J jid (w_store (sc_world sc')) \<or> verified A rec (sc_world sc')"
  proof (cases "j_delegation rec")
    case None
    with run pre(2) same show ?thesis by (auto simp: Reconcile_def J)
  next
    case (Some dl)
    note step = run [unfolded Reconcile_def J pre(2) sum.case Some option.case]
    note b = stranded_open [OF pre(1) l pre(4)] resolve_open [OF pre(1) l pre(4)] honourDelegated_open [OF pre(1) l pre(4)]
    show ?thesis
      using step b same abandonDelegated_world [of A rec dl sc e sc'] poll_delegate_open [of A F rec dl _ sc e sc', OF _ pre(1) l pre(4)] others pre(3)
      by (auto split: if_splits option.splits)
  qed
  with after show ?thesis by (simp add: open_at_def)
qed

end

end
