(* ===== verification/Handoff_Endings.thy ===== *)
theory Handoff_Endings
  imports Delegated_Delivery
begin

text \<open>
  How a handoff ends (\<open>go/delegator.go\<close>): the delegate lost the handle or failed, delivered the wrong
  bytes, was caught beginning again, cannot be asked, or is not here; and what the two sweeps report.
\<close>

section \<open>The work comes back\<close>

lemma LastFailure_frame: "j_error r' = j_error r \<Longrightarrow> j_extensions r' = j_extensions r \<Longrightarrow> LastFailure r' = LastFailure r"
  by (simp add: LastFailure_def)

context sweep_layer
begin

lemma env_at_our:
  "our_hand A \<Longrightarrow> en_store (env_at (ha_env A) r) = J \<and> en_ranges (env_at (ha_env A) r) = R \<and> en_docs (env_at (ha_env A) r) = D \<and>
     en_id (env_at (ha_env A) r) = j_id r"
  by (simp add: our_hand_def env_at_def)

lemma CheckpointOf_frame:
  assumes "j_checkpoint r' = j_checkpoint r" "j_content r' = j_content r"
  shows "CheckpointOf R D r' = CheckpointOf R D r"
  using decode_law [OF assms(1)] ranges_frame_law [OF assms] by (simp add: CheckpointOf_def)

text \<open>A write under the lease of a claimed observation, followed by the release.\<close>

lemma put_and_drop:
  assumes "claimDelegation S J seen w = (Inr mine, w1)" "so_load J (j_id seen) (w_store w) = Inr seen" "our_hand A"
    and "put (env_at (ha_env A) mine) g w1 = (None, w2)"
  shows "\<exists>l. so_load J (j_id seen) (w_store w2) = Inr (g mine) \<and>
      so_load J (j_id seen) (w_store (drop_lease (env_at (ha_env A) mine) w2)) = Inr ((g mine)\<lparr>j_lease := l\<rparr>) \<and>
      mine = seen\<lparr>j_lease := j_lease mine, j_state := claimed_state (j_state seen)\<rparr>"
proof -
  let ?E = "env_at (ha_env A) mine"
  note o = observed(4) [OF assms(1)]
  have m: "mine = seen\<lparr>j_lease := j_lease mine, j_state := claimed_state (j_state seen)\<rparr>"
    and l1: "so_load J (j_id seen) (w_store w1) = Inr mine" using o assms(2) by auto
  have id: "j_id mine = j_id seen" using arg_cong [OF m, of j_id] by simp
  have E: "en_store ?E = J" "en_id ?E = j_id seen" using env_at_our [OF assms(3)] id by simp_all
  have l2: "so_load J (j_id seen) (w_store w2) = Inr (g mine)"
    using put_load [OF assms(4) E(1)] l1 E(2) by auto
  obtain y s where rel: "so_release J (j_id seen) (en_epoch ?E) (w_store w2) = (y, s)" by (rule prod.exhaust)
  from release_keeps [OF rel l2] obtain l where "so_load J (j_id seen) s = Inr ((g mine)\<lparr>j_lease := l\<rparr>)" by blast
  with l2 m rel E show ?thesis by (auto simp: drop_lease_def)
qed

text \<open>
  A handle that is gone, or a delegate that gave up: the record is pending again, with its sources, its
  requirements and its checkpoint, and the reason is there only if the delegate tried.
\<close>

lemma Reconcile_returns:
  assumes run: "Reconcile A S F jid sc = (None, sc')"
    and pre: "our_hand A" "so_load J jid (w_store (sc_world sc)) = Inr rec" "j_id rec = jid"
    and dl: "j_delegation rec = Some dl" "d_external dl \<noteq> jid" "\<not> d_delivered dl"
    and st: "\<not> terminal_state (j_state rec)" "j_state rec \<noteq> StateTransferred" "j_want rec = WantRun"
    and d: "BySystem (ha_tiers A) (d_system dl) = Some d" "dg_poll d (d_external dl) (sc_ext sc) = (Inr su, x)"
    and su: "su_state su = DelegateFailed \<or> su_state su = DelegateGone" "\<not> su_suspended su"
      "CheckpointOf R D rec = Inr cp" "\<not> (0 < su_done su \<and> su_done su < c_prefix cp)"
  shows "\<exists>r'. so_load J jid (w_store (sc_world sc')) = Inr r' \<and> j_delegation r' = None \<and> j_state r' = StatePending \<and>
    j_spec r' = j_spec rec \<and> j_requires r' = j_requires rec \<and> CheckpointOf R D r' = CheckpointOf R D rec \<and>
    (su_state su = DelegateGone \<and> su_err su = [] \<longrightarrow> LastFailure r' = LastFailure rec) \<and>
    (su_err su \<noteq> [] \<and> valid_utf8 (su_err su) \<longrightarrow>
       LastFailure r' = Some (if su_permanent su then Perm (Plain (su_err su)) else Plain (su_err su)))"
proof -
  have J: "en_store (ha_env A) = J" "en_ranges (ha_env A) = R" "en_docs (ha_env A) = D" using pre(1) by (simp_all add: our_hand_def)
  have l: "so_load J (j_id rec) (w_store (sc_world sc)) = Inr rec" using pre(2,3) by simp
  note step = run [unfolded Reconcile_def J pre(2) sum.case dl(1) option.case poll_delegate_def Let_def d prod.case]
  obtain c w1 where c: "claimDelegation S J rec (sc_world sc) = (c, w1)" by (rule prod.exhaust)
  let ?g = "taken_back (rc_qt (ha_conf A)) su"
  obtain mine w2 where m: "c = Inr mine" "j_want mine = WantRun"
      "put (env_at (ha_env A) mine) ?g w1 = (None, w2)" "sc_world sc' = drop_lease (env_at (ha_env A) mine) w2"
  proof (cases c)
    case (Inl y)
    with step c dl pre(3) st su have False by simp
    then show ?thesis ..
  next
    case (Inr mine)
    have mm: "mine = rec\<lparr>j_lease := j_lease mine, j_state := claimed_state (j_state rec)\<rparr>"
      using observed(4) [OF c [unfolded Inr]] l by auto
    have w: "j_want mine = WantRun" using arg_cong [OF mm, of j_want] st(3) by simp
    obtain y w2 where u: "put (env_at (ha_env A) mine) ?g w1 = (y, w2)" by (rule prod.exhaust)
    show ?thesis
      by (rule that [OF Inr w, of w2]) (use step c Inr w u dl pre(3) st su in \<open>auto simp: act_on_status_def world_ext_def\<close>)
  qed
  from put_and_drop [OF c [unfolded m(1)] l pre(1) m(3)] obtain lv where
    r: "so_load J (j_id rec) (w_store (sc_world sc')) = Inr ((?g mine)\<lparr>j_lease := lv\<rparr>)"
      "mine = rec\<lparr>j_lease := j_lease mine, j_state := claimed_state (j_state rec)\<rparr>" using m(4) by auto
  have f: "j_spec mine = j_spec rec" "j_requires mine = j_requires rec" "j_checkpoint mine = j_checkpoint rec"
      "j_content mine = j_content rec" "j_error mine = j_error rec" "j_extensions mine = j_extensions rec"
    using arg_cong [OF r(2), of j_spec] arg_cong [OF r(2), of j_requires] arg_cong [OF r(2), of j_checkpoint]
      arg_cong [OF r(2), of j_content] arg_cong [OF r(2), of j_error] arg_cong [OF r(2), of j_extensions] by simp_all
  let ?r = "(?g mine)\<lparr>j_lease := lv\<rparr>"
  have frame: "j_delegation (?g mine) = None" "j_state (?g mine) = StatePending" "j_spec (?g mine) = j_spec mine" "j_requires (?g mine) = j_requires mine"
      "j_checkpoint (?g mine) = j_checkpoint mine" "j_content (?g mine) = j_content mine"
    by (simp_all add: taken_back_def Let_def setFailure_def FailureOf_def Failure_Err_def)
  have cpt: "CheckpointOf R D ?r = CheckpointOf R D rec"
    by (rule CheckpointOf_frame) (simp_all add: frame f)
  have gone: "LastFailure ?r = LastFailure rec" if "su_state su = DelegateGone \<and> su_err su = []"
    by (rule LastFailure_frame) (use that f(5,6) in \<open>simp_all add: taken_back_def\<close>)
  have tried: "LastFailure ?r = Some (if su_permanent su then Perm (Plain (su_err su)) else Plain (su_err su))"
    if "su_err su \<noteq> [] \<and> valid_utf8 (su_err su)"
  proof -
    define e where "e = (if su_permanent su then Perm (Plain (su_err su)) else Plain (su_err su))"
    have e: "err_text (rc_qt (ha_conf A)) e = su_err su" "Permanent e = su_permanent su" by (simp_all add: e_def)
    have f: "Failure_Err (Some \<lparr>f_error = su_err su, f_permanent = su_permanent su, f_cause = []\<rparr>) = Some e"
      by (simp add: Failure_Err_def e_def)
    have "LastFailure (?g mine) = LastFailure (setFailure (rc_qt (ha_conf A)) (Some e)
        (mine\<lparr>j_delegation := None, j_state := StatePending\<rparr>))" using that f by (simp add: taken_back_def)
    also have "\<dots> = Some (if su_permanent su then Perm (Plain (su_err su)) else Plain (su_err su))"
      using that e by (subst LastFailure_set) simp_all
    also have "\<dots> = Some e" by (simp add: e_def)
    finally have "LastFailure (?g mine) = Some e" .
    then show ?thesis by (simp add: LastFailure_lease e_def)
  qed
  show ?thesis
    by (rule exI [of _ ?r]) (use r(1) pre(3) frame f cpt gone tried in simp)
qed

end


section \<open>Wrong bytes\<close>

lemma delegate_mismatch_class: "err_is (ended C (delegate_mismatch got wanted)) ErrDigestMismatch"
  using Terminal_keeps [of "delegate_mismatch got wanted"]
  by (auto simp: ended_def Terminal_def delegate_mismatch_def err_is_Errorf split: option.splits if_splits)

context sweep_layer
begin

lemma settle_mismatch:
  assumes run: "settle_file A E F sp whole digest w = (e, w')"
    and env: "en_store E = J" "en_ranges E = R" "en_docs E = D"
    and bad: "a_digest (sp_artifact sp) \<noteq> []" "\<not> sameDigest (rc_low (ha_conf A)) digest (a_digest (sp_artifact sp))"
  shows "e \<noteq> None \<and> w_files w' = w_files w \<and>
    (so_load J (en_id E) (w_store w') = so_load J (en_id E) (w_store w) \<or>
     (\<exists>r' m cp. so_load J (en_id E) (w_store w') = Inr r' \<and> e = Some m \<and> err_is m ErrDigestMismatch \<and>
        j_delegation r' = None \<and> j_state r' = (if Permanent m then StateFailed else StatePending) \<and>
        CheckpointOf R D r' = Inr cp \<and> claimed cp = {}))"
proof -
  let ?m = "ended (ha_conf A) (delegate_mismatch digest (a_digest (sp_artifact sp)))"
  obtain y s' where u: "so_update J (en_id E) (en_epoch E) (mismatched_record (ha_conf A) E ?m) (w_store w) = (y, s')"
    by (rule prod.exhaust)
  have res: "e = Some (case y of Inl x \<Rightarrow> x | Inr _ \<Rightarrow> ?m)" "w' = w\<lparr>w_store := s'\<rparr>"
    using run bad u env by (auto simp: settle_file_def Let_def split: sum.splits)
  show ?thesis
  proof (cases y)
    case (Inl x)
    with update_Inl [of "en_id E" _ _ "w_store w" x s' "en_id E"] u res show ?thesis by simp
  next
    case (Inr r')
    obtain r where r: "mismatched_record (ha_conf A) E ?m r = Inr r'" "so_load J (en_id E) s' = Inr r'"
      using update_Inr [of "en_id E" _ _ "w_store w" r' s'] u Inr by blast
    obtain cp where "CheckpointOf R D r' = Inr cp" "claimed cp = {}" using mismatched_record_Inr(4) [OF r(1) env(2,3)] by blast
    with mismatched_record_Inr(1,2) [OF r(1) env(2,3)] r(2) res Inr delegate_mismatch_class
    have "so_load J (en_id E) (w_store w') = Inr r' \<and> e = Some ?m \<and> err_is ?m ErrDigestMismatch \<and>
        j_delegation r' = None \<and> j_state r' = (if Permanent ?m then StateFailed else StatePending) \<and>
        CheckpointOf R D r' = Inr cp \<and> claimed cp = {}" by simp
    with res show ?thesis by auto
  qed
qed

end

section \<open>An answer nobody has\<close>

text \<open>
  A handoff whose answer was lost and whose delegate cannot say: the error is \<open>ErrOutcomeUnknown\<close>, the
  store is as it was, and the record is not one a sweep runs here.
\<close>

lemma Reconcile_unknown:
  assumes "so_load (en_store (ha_env A)) jid (w_store (sc_world sc)) = Inr rec" "j_delegation rec = Some dl"
    and "d_external dl = j_id rec" "BySystem (ha_tiers A) (d_system dl) = Some d"
    and "\<And>f. dg_locate d = Some f \<Longrightarrow> \<exists>why x. f (j_id rec) (sc_ext sc) = (Inl why, x)"
    and "Reconcile A S F jid sc = (e, sc')"
  shows "(\<exists>x. e = Some x \<and> err_is x ErrOutcomeUnknown) \<and> sc_world sc' = sc_world sc \<and>
    \<not> adoptable C D network now updated rec"
proof -
  have run: "resolve A S rec d sc = (e, sc')" using assms by (simp add: Reconcile_def)
  have "(\<exists>x. e = Some x \<and> err_is x ErrOutcomeUnknown) \<and> sc_world sc' = sc_world sc"
  proof (cases "dg_locate d")
    case None
    with run show ?thesis by (auto simp: resolve_def Let_def err_is_Errorf)
  next
    case (Some f)
    with assms(5) obtain why x where "f (j_id rec) (sc_ext sc) = (Inl why, x)" by blast
    with run Some show ?thesis by (auto simp: resolve_def Let_def err_is_Errorf)
  qed
  moreover have "\<not> adoptable C D network now updated rec" using assms(2) by (simp add: adoptable_def)
  ultimately show ?thesis by blast
qed

section \<open>A claim that was false\<close>

context sweep_layer
begin

lemma restarted_keeps_bytes:
  assumes "our_hand A" "so_load J (j_id rec) (w_store (sc_world sc)) = Inr rec"
    and "restarted A S rec dl d n m sc = (e, sc')"
  shows "e \<noteq> None \<and> (\<exists>r'. so_load J (j_id rec) (w_store (sc_world sc')) = Inr r' \<and> CheckpointOf R D r' = CheckpointOf R D rec) \<and>
    (CapResume \<in> set requires \<longrightarrow> dg_system d' = d_system dl \<longrightarrow> \<not> eligible H (sc_refuted sc') d' sp src requires)"
proof -
  have J: "en_store (ha_env A) = J" using assms(1) by (simp add: our_hand_def)
  obtain c w1 where c: "claimDelegation S J rec (sc_world sc) = (c, w1)" by (rule prod.exhaust)
  obtain z x where ab: "dg_abandon d (d_external dl) (sc_ext sc) = (z, x)" by (rule prod.exhaust)
  note step = assms(3) [unfolded restarted_def Let_def J]
  have db: "sc_refuted sc' = Disbelieve (d_system dl) CapResume (sc_refuted sc)"
    using step c by (auto simp: world_ext_def split: sum.splits prod.splits)
  have e: "e \<noteq> None" using step c by (auto split: sum.splits prod.splits)
  have "\<exists>r'. so_load J (j_id rec) (w_store (sc_world sc')) = Inr r' \<and> CheckpointOf R D r' = CheckpointOf R D rec"
  proof (cases c)
    case (Inl y)
    then have w': "sc_world sc' = w1" using step c by auto
    from not_observed(2) [OF c [unfolded Inl] assms(2)] obtain l st where
      "so_load J (j_id rec) (w_store w1) = Inr (rec\<lparr>j_lease := l, j_state := st\<rparr>)" by blast
    moreover have "CheckpointOf R D (rec\<lparr>j_lease := l, j_state := st\<rparr>) = CheckpointOf R D rec" by (rule CheckpointOf_frame) simp_all
    ultimately show ?thesis using w' by auto
  next
    case (Inr mine)
    let ?g = "\<lambda>rr. setFailure (rc_qt (ha_conf A)) (Some (falsified S (d_system dl) n m)) (rr\<lparr>j_delegation := None, j_state := StatePending\<rparr>)"
    let ?E = "env_at (ha_env A) mine"
    obtain y w2 where u: "put ?E ?g w1 = (y, w2)" by (rule prod.exhaust)
    have w': "sc_world sc' = drop_lease ?E w2" using step c Inr ab u by (auto simp: world_ext_def)
    have mm: "mine = rec\<lparr>j_lease := j_lease mine, j_state := claimed_state (j_state rec)\<rparr>" "so_load J (j_id rec) (w_store w1) = Inr mine"
      using observed(4) [OF c [unfolded Inr]] assms(2) by auto
    have f: "j_checkpoint mine = j_checkpoint rec" "j_content mine = j_content rec" "j_id mine = j_id rec"
      using arg_cong [OF mm(1), of j_checkpoint] arg_cong [OF mm(1), of j_content] arg_cong [OF mm(1), of j_id] by simp_all
    have E: "en_store ?E = J" "en_id ?E = j_id rec" using env_at_our [OF assms(1)] f(3) by simp_all
    obtain r2 where r2: "so_load J (j_id rec) (w_store w2) = Inr r2" "j_checkpoint r2 = j_checkpoint rec" "j_content r2 = j_content rec"
    proof (cases y)
      case None
      with put_load [OF u [unfolded None] E(1)] mm(2) E(2) f that [of "?g mine"] show ?thesis
        by (auto simp: setFailure_def FailureOf_def)
    next
      case (Some x)
      with put_refused [OF u [unfolded Some] E(1)] mm(2) f that [of mine] show ?thesis by simp
    qed
    obtain q s where rel: "so_release J (j_id rec) (en_epoch ?E) (w_store w2) = (q, s)" by (rule prod.exhaust)
    from release_keeps [OF rel r2(1)] obtain l where l: "so_load J (j_id rec) s = Inr (r2\<lparr>j_lease := l\<rparr>)" by blast
    have "CheckpointOf R D (r2\<lparr>j_lease := l\<rparr>) = CheckpointOf R D rec" by (rule CheckpointOf_frame) (simp_all add: r2)
    with l w' rel E show ?thesis by (auto simp: drop_lease_def)
  qed
  with e db Disbelieve_ineligible [of CapResume requires H d' "sc_refuted sc" sp src] show ?thesis by auto
qed

end

section \<open>What the sweeps report\<close>

definition noted :: "(nat \<Rightarrow> err option) \<Rightarrow> nat \<Rightarrow> string \<Rightarrow> string list \<Rightarrow> err option \<times> string list" where
  "noted ans k jid log = (ans k, log @ [jid])"

definition is_report :: "err option \<Rightarrow> bool" where
  "is_report e = (case e of None \<Rightarrow> False | Some x \<Rightarrow> \<not> err_is x ErrStrandedHere)"

text \<open>
  Every delegated download that was not delivered is reconciled once and in order, whatever the ones
  before came to; a job nothing here can move is neither counted nor raised.
\<close>

lemma reconcile_from_noted:
  "reconcile_from (noted ans) k rs n failed log =
     ((n + length (filter (\<lambda>x. ans (fst x) = None) (chosen (\<lambda>_. undelivered) k rs)),
       join_errs (failed @ map (sweep_error ans) (filter (\<lambda>x. is_report (ans (fst x))) (chosen (\<lambda>_. undelivered) k rs)))),
      log @ map snd (chosen (\<lambda>_. undelivered) k rs))"
  by (induction rs arbitrary: k n failed log)
    (auto simp: noted_def is_report_def sweep_error_def split: option.split)

lemma ReconcileAll_noted:
  assumes "readable answer = (rs, unread, None)" "xs = chosen (\<lambda>_. undelivered) 0 rs"
  shows "ReconcileAll (noted ans) answer [] =
     ((length (filter (\<lambda>x. ans (fst x) = None) xs),
       join_errs (unread # map (sweep_error ans) (filter (\<lambda>x. is_report (ans (fst x))) xs))), map snd xs)"
  using assms by (simp add: ReconcileAll_def reconcile_from_noted)

definition offerable :: "'d job_record \<Rightarrow> bool" where
  "offerable r \<longleftrightarrow> j_kind r = Kind \<and> j_delegation r = None"

lemma delegate_each_noted:
  "delegate_each (noted ans) k rs n log =
     (n + length (filter (\<lambda>x. ans (fst x) = None) (chosen (\<lambda>_. offerable) k rs)), log @ map snd (chosen (\<lambda>_. offerable) k rs))"
  by (induction rs arbitrary: k n log) (auto simp: noted_def offerable_def split: option.split)

lemma DelegateAll_noted:
  assumes "readable answer = (rs, unread, None)" "xs = chosen (\<lambda>_. offerable) 0 rs" "ds \<noteq> []"
  shows "DelegateAll ds (noted ans) answer [] =
     ((length (filter (\<lambda>x. ans (fst x) = None) xs), unread), map snd xs)"
  using assms by (simp add: DelegateAll_def delegate_each_noted)

end
