(* ===== verification/Nas.thy ===== *)
theory Nas
  imports Delegation
begin

text \<open>
  The tier that writes the job into a store another machine watches: \<open>go/nas/nas.go\<close>, and
  \<open>Submit\<close> of \<open>go/spec.go\<close> which it calls. The remote store is the job layer's; what the share does
  (the directory is made, a copy fails, a file cannot be removed) is the argument \<open>N\<close>. Paths are POSIX.

  The theory ends by showing in which sense this tier keeps the contract of a delegate.
\<close>

section \<open>The store on the share\<close>

text \<open>
  What a store offers besides \<open>store_ops\<close>: \<open>List\<close>, \<open>Submit\<close>, \<open>SetIntent\<close>, \<open>NewID\<close>; \<open>xo_set_spec\<close> is
  \<open>Record.SetSpec\<close>, \<open>xo_doc\<close> the empty document and \<open>xo_paused\<close> \<open>Record.Paused\<close>.
\<close>

record ('s, 'd) store_more =
  xo_list :: "'s \<Rightarrow> err + 'd job_record list"
  xo_submit :: "'d job_record \<Rightarrow> 's \<Rightarrow> (err + string) \<times> 's"
  xo_intent :: "string \<Rightarrow> want \<Rightarrow> string \<Rightarrow> 's \<Rightarrow> err option \<times> 's"
  xo_new_id :: "'s \<Rightarrow> string"
  xo_set_spec :: "spec \<Rightarrow> 'd job_record \<Rightarrow> err + 'd job_record"
  xo_doc :: 'd
  xo_paused :: "'d job_record \<Rightarrow> bool"

definition new_record :: "'d \<Rightarrow> string \<Rightarrow> string list \<Rightarrow> int \<Rightarrow> 'd job_record" where
  "new_record doc jid requires total_size =
     \<lparr>j_id = jid, j_kind = Kind, j_state = StatePending, j_requires = requires, j_spec = doc, j_checkpoint = doc,
      j_content = [], j_progress = \<lparr>p_done = 0, p_total = total_size, p_updated = 0, p_step = None\<rparr>,
      j_lease = \<lparr>l_owner = [], l_epoch = 0, l_expires = 0\<rparr>, j_delegation = None, j_want = WantRun,
      j_error = [], j_extensions = (\<lambda>_. None)\<rparr>"

definition Submit ::
  "(string \<Rightarrow> string) \<Rightarrow> name_ops \<Rightarrow> ('s, 'd) store_more \<Rightarrow> spec \<Rightarrow> string list \<Rightarrow> 's \<Rightarrow> (err + string) \<times> 's" where
  "Submit uni nm X sp requires s =
     (let jid = xo_new_id X s in
      case submitAs uni nm jid sp of
        Inl e \<Rightarrow> (Inl e, s)
      | Inr (sp, n) \<Rightarrow>
          (case xo_set_spec X sp (new_record (xo_doc X) jid requires n) of
             Inl e \<Rightarrow> (Inl e, s)
           | Inr rec \<Rightarrow> xo_submit X rec s))"

section \<open>The delegator\<close>

record copy_io =
  cp_mkdir :: "err option"
  cp_open :: "err option"
  cp_create :: "err option"
  cp_read :: "(nat \<times> err) option"
  cp_sync :: "err option"
  cp_close :: "err option"
  cp_rename :: "err option"

text \<open>
  \<open>na_same\<close> is \<open>os.SameFile\<close> of two paths that exist; \<open>na_piece\<close> how much each read returned;
  \<open>na_rm\<close> whether a file can be removed.
\<close>

record ('s, 'd) nas_conf =
  na_root :: string
  na_dir :: string
  na_store_root :: "string option"
  na_names :: name_ops
  na_uni :: "string \<Rightarrow> string"
  na_hosts :: host_ops
  na_docs :: "'d doc_ops"
  na_store :: "('s, 'd) store_ops"
  na_more :: "('s, 'd) store_more"
  na_owner :: string
  na_mkdir :: "err option"
  na_same :: "string \<Rightarrow> string \<Rightarrow> bool"
  na_copy :: copy_io
  na_piece :: "nat \<Rightarrow> nat"
  na_rm :: "string \<Rightarrow> bool"

definition nas_errorf :: "err \<Rightarrow> err" where
  "nas_errorf e = Errorf [Lit ''nas: '', Err e]"

definition Available :: "('s, 'd) nas_conf \<Rightarrow> err option" where
  "Available N = map_option (\<lambda>e. Errorf [Lit ''nas: '', Str (na_root N), Lit '' is not reachable: '', Err e]) (na_mkdir N)"

definition nas_start :: "('s, 'd) nas_conf \<Rightarrow> spec \<Rightarrow> int \<Rightarrow> 's world \<Rightarrow> (err + string) \<times> 's world" where
  "nas_start N sp from x =
     (case Available N of
        Some e \<Rightarrow> (Inl e, x)
      | None \<Rightarrow>
          (let remote = sp\<lparr>sp_sink := \<lparr>k_partial = [], k_final = path_join (na_dir N) (path_base (k_final (sp_sink sp)))\<rparr>\<rparr>
           in case Submit (na_uni N) (na_names N) (na_more N) remote [] (w_store x) of
             (Inl e, s) \<Rightarrow> (Inl (nas_errorf e), x\<lparr>w_store := s\<rparr>)
           | (Inr jid, s) \<Rightarrow> (Inr jid, x\<lparr>w_store := s\<rparr>)))"

definition asks_for :: "'d doc_ops \<Rightarrow> string \<Rightarrow> 'd job_record \<Rightarrow> bool" where
  "asks_for D request rec = (case SpecOf D rec of Inl _ \<Rightarrow> False | Inr sp \<Rightarrow> sp_request sp = request)"

definition nas_locate :: "('s, 'd) nas_conf \<Rightarrow> string \<Rightarrow> 's world \<Rightarrow> (err + string) \<times> 's world" where
  "nas_locate N request x =
     (if request = [] then (Inl (Plain ''nas: a handoff with no request identity cannot be found again''), x)
      else case Available N of
        Some e \<Rightarrow> (Inl e, x)
      | None \<Rightarrow>
          (case xo_list (na_more N) (w_store x) of
             Inl e \<Rightarrow> (Inl (nas_errorf e), x)
           | Inr rs \<Rightarrow> (Inr (case find (asks_for (na_docs N) request) rs of None \<Rightarrow> [] | Some rec \<Rightarrow> j_id rec), x)))"

definition nas_state :: "job_state \<Rightarrow> delegate_state" where
  "nas_state st = (case st of StateTransferred \<Rightarrow> DelegateTransferred | StateComplete \<Rightarrow> DelegateTransferred
     | StateFailed \<Rightarrow> DelegateFailed | StateCancelled \<Rightarrow> DelegateFailed | _ \<Rightarrow> DelegateRunning)"

definition nas_poll :: "('s, 'd) nas_conf \<Rightarrow> string \<Rightarrow> 's world \<Rightarrow> (err + status) \<times> 's world" where
  "nas_poll N ext x =
     (case so_load (na_store N) ext (w_store x) of
        Inl _ \<Rightarrow> (Inr \<lparr>su_state = DelegateGone, su_done = 0, su_total = 0, su_err = [], su_permanent = False, su_suspended = False\<rparr>, x)
      | Inr rec \<Rightarrow> (Inr \<lparr>su_state = nas_state (j_state rec), su_done = p_done (j_progress rec), su_total = p_total (j_progress rec),
          su_err = j_error rec, su_permanent = (case LastFailure rec of None \<Rightarrow> False | Some e \<Rightarrow> Permanent e),
          su_suspended = xo_paused (na_more N) rec\<rparr>, x))"

section \<open>Bringing the file across\<close>

text \<open>The reports of the reader: at most every 8 MiB, and when a read fails or ends.\<close>

definition share_chunk :: "(nat \<Rightarrow> nat) \<Rightarrow> nat \<Rightarrow> nat \<Rightarrow> nat" where
  "share_chunk piece i rest = max 1 (nat (min (int rest) (min 32768 (int (piece i)))))"

lemma share_chunk_bounds:
  "1 \<le> share_chunk piece i rest" "rest \<noteq> 0 \<Longrightarrow> share_chunk piece i rest \<le> rest" "share_chunk piece i rest \<le> 32768"
  unfolding share_chunk_def by linarith+

function share_reports :: "(nat \<Rightarrow> nat) \<Rightarrow> nat \<Rightarrow> int \<Rightarrow> int \<Rightarrow> int \<Rightarrow> nat \<Rightarrow> (int \<times> int) list" where
  "share_reports piece i whole got at_last rest =
     (if rest = 0 then [(got, whole)]
      else let n = share_chunk piece i rest; got = got + int n in
        if 8388608 \<le> got - at_last then (got, whole) # share_reports piece (Suc i) whole got got (rest - n)
        else share_reports piece (Suc i) whole got at_last (rest - n))"
  by pat_completeness auto
termination by (relation "measure (\<lambda>(_, _, _, _, _, rest). rest)")
    (use share_chunk_bounds(1) in \<open>auto simp: Suc_le_eq intro!: diff_less\<close>)

declare share_reports.simps [simp del]

definition copyFile ::
  "copy_io \<Rightarrow> (nat \<Rightarrow> nat) \<Rightarrow> string \<Rightarrow> string \<Rightarrow> (string \<Rightarrow> node option) \<Rightarrow>
   ((int \<times> int) list \<times> err option) \<times> (string \<Rightarrow> node option)" where
  "copyFile io piece src dest fs =
     (let tmp = dest @ ''.partial'' in
      if cp_mkdir io \<noteq> None then (([], cp_mkdir io), fs)
      else if cp_open io \<noteq> None then (([], cp_open io), fs)
      else case fs src of
        Some (File c) \<Rightarrow>
          if cp_create io \<noteq> None then (([], cp_create io), fs)
          else let whole = int (length c) in
            (case cp_read io of
               Some (n, e) \<Rightarrow> ((share_reports piece 0 whole 0 0 (min n (length c)), Some e), fs(tmp \<mapsto> File (take n c)))
             | None \<Rightarrow>
                 let says = share_reports piece 0 whole 0 0 (length c) in
                 if cp_sync io \<noteq> None then ((says, cp_sync io), fs(tmp := None))
                 else if cp_close io \<noteq> None then ((says, cp_close io), fs(tmp := None))
                 else if cp_rename io \<noteq> None then ((says, cp_rename io), fs(tmp \<mapsto> File c))
                 else ((says, None), fs(tmp := None, dest \<mapsto> File c)))
      | _ \<Rightarrow> (([], Some (Errorf [Lit ''open '', Str src, Lit '': no such file''])), fs))"

definition sameFile :: "('s, 'd) nas_conf \<Rightarrow> (string \<Rightarrow> node option) \<Rightarrow> string \<Rightarrow> string \<Rightarrow> bool" where
  "sameFile N fs a b = (if a = b then True else if fs a = None \<or> fs b = None then False else na_same N a b)"

definition acknowledge :: "('s, 'd) nas_conf \<Rightarrow> string \<Rightarrow> 's \<Rightarrow> err option \<times> 's" where
  "acknowledge N jid s =
     (case so_claim (na_store N) jid (na_owner N) s of
        (Inl _, s) \<Rightarrow> (None, s)
      | (Inr rec, s) \<Rightarrow>
          (case so_update (na_store N) jid (l_epoch (j_lease rec)) (\<lambda>r. Inr (r\<lparr>j_state := StateComplete\<rparr>)) s of
             (Inl e, s) \<Rightarrow> (Some e, s) | (Inr _, s) \<Rightarrow> (None, s)))"

definition FinalizeReporting ::
  "('s, 'd) nas_conf \<Rightarrow> string \<Rightarrow> string \<Rightarrow> 's world \<Rightarrow> ((int \<times> int) list \<times> err option \<times> string option) \<times> 's world" where
  "FinalizeReporting N ext dest x =
     (case so_load (na_store N) ext (w_store x) of
        Inl e \<Rightarrow> (([], Some (nas_errorf e), None), x)
      | Inr rec \<Rightarrow>
          (case SpecOf (na_docs N) rec of
             Inl e \<Rightarrow> (([], Some e, None), x)
           | Inr sp \<Rightarrow>
               (case LocalSink (na_names N) (na_store_root N) (j_id rec) (sp_sink sp) of
                  Inl e \<Rightarrow> (([], Some e, None), x)
                | Inr (_, src) \<Rightarrow>
                    if w_files x src = None then
                      (([], Some (Errorf [Lit ''nas: the far side reported success but '', Str src, Lit '' is not there: '',
                         Err (Foreign (''stat '' @ src) False [OsNotExist])]), None), x)
                    else
                      (let ((says, failed), fs) =
                         (if dest \<noteq> [] \<and> \<not> sameFile N (w_files x) src dest then copyFile (na_copy N) (na_piece N) src dest (w_files x)
                          else (([], None), w_files x));
                         content = (case fs dest of Some (File c) \<Rightarrow> Some c | _ \<Rightarrow> None)
                       in case failed of
                         Some e \<Rightarrow> ((says, Some (Errorf [Lit ''nas: bringing '', Str (path_base src), Lit '' across: '', Err e]), None),
                             x\<lparr>w_files := fs\<rparr>)
                       | None \<Rightarrow>
                           (case acknowledge N ext (w_store x) of
                              (e, s) \<Rightarrow> ((says, e, content), \<lparr>w_files = fs, w_store = s\<rparr>))))))"

definition nas_finalize :: "('s, 'd) nas_conf \<Rightarrow> string \<Rightarrow> string \<Rightarrow> 's world \<Rightarrow> (err option \<times> string option) \<times> 's world" where
  "nas_finalize N ext dest x = (case FinalizeReporting N ext dest x of ((_, ans), x) \<Rightarrow> (ans, x))"

section \<open>Abandoning\<close>

definition claimedByAnother :: "('s, 'd) nas_conf \<Rightarrow> 's \<Rightarrow> string \<Rightarrow> string \<Rightarrow> bool" where
  "claimedByAnother N s self final =
     (if final = [] then False
      else case xo_list (na_more N) s of
        Inl _ \<Rightarrow> True
      | Inr rs \<Rightarrow> list_ex (\<lambda>other.
          \<not> (j_id other = self \<or> j_kind other \<noteq> Kind) \<and>
          \<not> (terminal_state (j_state other) \<and> j_state other \<noteq> StateComplete) \<and>
          (case SpecOf (na_docs N) other of Inl _ \<Rightarrow> False | Inr sp \<Rightarrow> k_final (sp_sink sp) = final)) rs)"

definition remove_own :: "('s, 'd) nas_conf \<Rightarrow> string \<Rightarrow> (string \<Rightarrow> node option) \<Rightarrow> (string \<Rightarrow> node option)" where
  "remove_own N p fs = (if p = [] \<or> \<not> na_rm N p then fs else fs(p := None))"

definition tidy :: "('s, 'd) nas_conf \<Rightarrow> 'd job_record \<Rightarrow> 's world \<Rightarrow> (string \<Rightarrow> node option)" where
  "tidy N rec x =
     (case SpecOf (na_docs N) rec of
        Inl _ \<Rightarrow> w_files x
      | Inr sp \<Rightarrow>
          (case LocalSink (na_names N) (na_store_root N) (j_id rec) (sp_sink sp) of
             Inl _ \<Rightarrow> w_files x
           | Inr (partial, final) \<Rightarrow>
               (let fs = remove_own N partial (w_files x) in
                if claimedByAnother N (w_store x) (j_id rec) (k_final (sp_sink sp)) then fs else remove_own N final fs)))"

definition nas_abandon :: "('s, 'd) nas_conf \<Rightarrow> string \<Rightarrow> 's world \<Rightarrow> err option \<times> 's world" where
  "nas_abandon N ext x =
     (case so_load (na_store N) ext (w_store x) of
        Inl _ \<Rightarrow> (None, x)
      | Inr rec \<Rightarrow>
          (let x = x\<lparr>w_files := tidy N rec x\<rparr> in
           if terminal_state (j_state rec) then (None, x)
           else case so_claim (na_store N) ext (na_owner N) (w_store x) of
             (Inl _, s) \<Rightarrow> (None, x\<lparr>w_store := s\<rparr>)
           | (Inr mine, s) \<Rightarrow>
               (case so_update (na_store N) ext (l_epoch (j_lease mine)) (\<lambda>r. Inr (r\<lparr>j_state := StateCancelled\<rparr>)) s of
                  (Inl e, s) \<Rightarrow> (Some e, x\<lparr>w_store := s\<rparr>)
                | (Inr _, s) \<Rightarrow> (None, x\<lparr>w_store := s\<rparr>))))"

definition nas_intent :: "('s, 'd) nas_conf \<Rightarrow> string \<Rightarrow> want \<Rightarrow> string \<Rightarrow> 's world \<Rightarrow> err option \<times> 's world" where
  "nas_intent N verb wanted ext x =
     (case xo_intent (na_more N) ext wanted (na_owner N) (w_store x) of
        (e, s) \<Rightarrow> (map_option (\<lambda>e. Errorf [Lit ''nas: '', Str verb, Lit '' '', Str ext, Lit '': '', Err e]) e, x\<lparr>w_store := s\<rparr>))"

definition acrossTheNetwork :: "('s, 'd) nas_conf \<Rightarrow> bool" where
  "acrossTheNetwork N = (take 2 (na_root N) = ''//'')"

definition CanServe :: "('s, 'd) nas_conf \<Rightarrow> spec \<Rightarrow> bool" where
  "CanServe N sp =
     (if \<not> acrossTheNetwork N then True
      else if \<not> PortableSink (sp_sink sp) then False
      else \<not> list_ex (\<lambda>src. ThisMachine (na_hosts N) (s_locator src)) (sp_sources sp))"

definition nas_tier :: "('s, 'd) nas_conf \<Rightarrow> 's world tier" where
  "nas_tier N = \<lparr>dg_system = ''nas'', dg_schemes = [''http'', ''https''],
     dg_caps = [CapSurvivesProcessExit, CapRecoverableSubmission, CapVerifies, CapDelegates],
     dg_start = nas_start N, dg_poll = nas_poll N, dg_finalize = nas_finalize N,
     dg_reports = Some (FinalizeReporting N), dg_abandon = nas_abandon N, dg_locate = Some (nas_locate N),
     dg_suspend = Some (nas_intent N ''pausing'' WantPause, nas_intent N ''resuming'' WantRun),
     dg_declared = None, dg_selective = Some (CanServe N), dg_refuser = None\<rparr>"


section \<open>The contract of a delegate\<close>

text \<open>
  The laws of the remote store. \<open>sane\<close>: every record is listed and carries its own key. A submission
  writes the one record it was given, or nothing, whatever it answers; a record just written can be
  claimed. Only this side moves between two calls.
\<close>

definition claimable :: "('s, 'd) nas_conf \<Rightarrow> string \<Rightarrow> 's \<Rightarrow> bool" where
  "claimable N k s \<longleftrightarrow> (case so_claim (na_store N) k (na_owner N) s of (Inl _, _) \<Rightarrow> False | (Inr _, _) \<Rightarrow> True)"

locale nas_layer = store_layer J
  for J :: "('s, 'd) store_ops" +
  fixes N :: "('s, 'd) nas_conf" and sane :: "'s \<Rightarrow> bool"
  assumes same_store: "na_store N = J"
    and new_id_law: "\<And>s. xo_new_id (na_more N) s \<noteq> []"
    and list_law: "\<And>s rs. sane s \<Longrightarrow> xo_list (na_more N) s = Inr rs \<Longrightarrow>
      (\<forall>r\<in>set rs. so_load J (j_id r) s = Inr r \<and> j_id r \<noteq> []) \<and> (\<forall>k r. so_load J k s = Inr r \<longrightarrow> r \<in> set rs \<and> j_id r = k)"
    and set_spec_law: "\<And>sp r r'. xo_set_spec (na_more N) sp r = Inr r' \<Longrightarrow>
      j_id r' = j_id r \<and> j_kind r' = j_kind r \<and> (\<forall>q. j_spec q = j_spec r' \<longrightarrow> do_decode_spec (na_docs N) q = Inr sp)"
    and spec_only: "\<And>r q. j_spec q = j_spec r \<Longrightarrow> do_decode_spec (na_docs N) q = do_decode_spec (na_docs N) r"
    and submit_other: "\<And>r s a s' k. xo_submit (na_more N) r s = (a, s') \<Longrightarrow> k \<noteq> j_id r \<Longrightarrow> so_load J k s' = so_load J k s"
    and submit_own: "\<And>r s a s'. xo_submit (na_more N) r s = (a, s') \<Longrightarrow>
      so_load J (j_id r) s' = so_load J (j_id r) s \<and> (\<exists>e. a = Inl e) \<or>
      (\<exists>q. so_load J (j_id r) s' = Inr q \<and> j_spec q = j_spec r \<and> j_kind q = j_kind r \<and> (sane s \<longrightarrow> claimable N (j_id r) s'))"
    and submit_id: "\<And>r s k s'. xo_submit (na_more N) r s = (Inr k, s') \<Longrightarrow> k = j_id r"
    and submit_sane: "\<And>r s a s'. xo_submit (na_more N) r s = (a, s') \<Longrightarrow> j_id r \<noteq> [] \<Longrightarrow> sane s \<Longrightarrow> sane s'"
begin

definition asked :: "string \<Rightarrow> string \<Rightarrow> 's \<Rightarrow> bool" where
  "asked req k s \<longleftrightarrow> (\<exists>r. so_load J k s = Inr r \<and> asks_for (na_docs N) req r)"

definition asked_open :: "string \<Rightarrow> string \<Rightarrow> 's \<Rightarrow> bool" where
  "asked_open req k s \<longleftrightarrow> (\<exists>r. so_load J k s = Inr r \<and> \<not> terminal_state (j_state r) \<and> asks_for (na_docs N) req r)"

definition nas_holds :: "string \<Rightarrow> string \<Rightarrow> 's world \<Rightarrow> bool" where
  "nas_holds sys req x \<longleftrightarrow> sys = ''nas'' \<and> (\<exists>k. asked_open req k (w_store x))"

definition nas_fresh :: "string \<Rightarrow> 's world \<Rightarrow> bool" where
  "nas_fresh req x \<longleftrightarrow> sane (w_store x) \<and> (\<forall>k. \<not> asked req k (w_store x))"

definition nas_handle :: "string \<Rightarrow> string \<Rightarrow> string \<Rightarrow> 's world \<Rightarrow> bool" where
  "nas_handle sys ext req x \<longleftrightarrow> sys = ''nas'' \<and> (\<forall>k. asked_open req k (w_store x) \<longrightarrow> k = ext) \<and> claimable N ext (w_store x)"

lemma asked_same: "so_load J k s' = so_load J k s \<Longrightarrow> asked req k s' = asked req k s \<and> asked_open req k s' = asked_open req k s"
  by (simp add: asked_def asked_open_def)

lemma asked_open_asked: "asked_open req k s \<Longrightarrow> asked req k s"
  by (auto simp: asked_def asked_open_def)

text \<open>What one \<open>Start\<close> does to the store: nothing, or one record of this request.\<close>

lemma nas_start_own:
  assumes "nas_start N sp n x = (a, x')"
  shows "w_files x' = w_files x \<and> (\<exists>jid. jid \<noteq> [] \<and> (\<forall>k. k \<noteq> jid \<longrightarrow> so_load J k (w_store x') = so_load J k (w_store x)) \<and>
    (so_load J jid (w_store x') = so_load J jid (w_store x) \<and> (\<exists>e. a = Inl e) \<or>
     (\<forall>req. asked req jid (w_store x') \<longrightarrow> req = sp_request sp) \<and> (\<forall>ext. a = Inr ext \<longrightarrow> ext = jid) \<and>
       (sane (w_store x) \<longrightarrow> claimable N jid (w_store x'))) \<and>
    (sane (w_store x) \<longrightarrow> sane (w_store x')))"
proof -
  let ?jid = "xo_new_id (na_more N) (w_store x)"
  let ?remote = "sp\<lparr>sp_sink := \<lparr>k_partial = [], k_final = path_join (na_dir N) (path_base (k_final (sp_sink sp)))\<rparr>\<rparr>"
  have none: ?thesis if "x' = x" "\<exists>e. a = Inl e" using that new_id_law by blast
  show ?thesis
  proof (cases "Available N")
    case (Some e)
    with assms show ?thesis by (intro none) (auto simp: nas_start_def)
  next
    case None
    show ?thesis
    proof (cases "submitAs (na_uni N) (na_names N) ?jid ?remote")
      case (Inl e)
      with assms None show ?thesis by (intro none) (auto simp: nas_start_def Submit_def Let_def)
    next
      case (Inr spn)
      obtain sp1 m where spn: "spn = (sp1, m)" by (rule prod.exhaust)
      have rq: "sp_request sp1 = sp_request sp" using Inr spn by (auto simp: submitAs_def Let_def split: option.splits)
      let ?r0 = "new_record (xo_doc (na_more N)) ?jid [] m"
      show ?thesis
      proof (cases "xo_set_spec (na_more N) sp1 ?r0")
        case (Inl e)
        with assms None \<open>submitAs _ _ _ _ = Inr spn\<close> spn show ?thesis by (intro none) (auto simp: nas_start_def Submit_def Let_def)
      next
        case (Inr rec)
        note law = set_spec_law [OF Inr]
        have id: "j_id rec = ?jid" "j_kind rec = Kind" using law by (simp_all add: new_record_def)
        obtain b s' where sub: "xo_submit (na_more N) rec (w_store x) = (b, s')" by (rule prod.exhaust)
        have x': "x' = x\<lparr>w_store := s'\<rparr>" "(\<exists>e. a = Inl e) \<longleftrightarrow> (\<exists>e. b = Inl e)" "\<And>ext. a = Inr ext \<Longrightarrow> b = Inr ext"
          using assms None \<open>submitAs _ _ _ _ = Inr spn\<close> spn Inr sub
          by (auto simp: nas_start_def Submit_def Let_def split: sum.splits)
        have own: "req = sp_request sp" if "so_load J ?jid s' = Inr q" "j_spec q = j_spec rec" "j_kind q = Kind" "asked req ?jid s'" for q req
          using that law rq by (auto simp: asked_def asks_for_def SpecOf_def)
        have others: "\<forall>k. k \<noteq> ?jid \<longrightarrow> so_load J k s' = so_load J k (w_store x)" using submit_other [OF sub] id by simp
        have "(so_load J ?jid s' = so_load J ?jid (w_store x) \<and> (\<exists>e. b = Inl e)) \<or>
            ((\<forall>req. asked req ?jid s' \<longrightarrow> req = sp_request sp) \<and> (\<forall>ext. b = Inr ext \<longrightarrow> ext = ?jid) \<and>
             (sane (w_store x) \<longrightarrow> claimable N ?jid s'))"
          using submit_own [OF sub] submit_id [of rec "w_store x" _ s'] sub id own by auto
        moreover have "sane (w_store x) \<longrightarrow> sane s'" using submit_sane [OF sub] id new_id_law by simp
        ultimately show ?thesis using others x' new_id_law by (intro conjI exI [of _ ?jid]) auto
      qed
    qed
  qed
qed

end


context nas_layer
begin

lemma nas_locate_store: "nas_locate N req x = (a, x') \<Longrightarrow> x' = x"
  by (auto simp: nas_locate_def split: if_splits option.splits sum.splits)

lemma nas_locate_answer:
  assumes "nas_locate N req x = (Inr ext, x')" "sane (w_store x)"
  shows "(ext = [] \<longrightarrow> (\<forall>k. \<not> asked req k (w_store x))) \<and> (ext \<noteq> [] \<longrightarrow> asked req ext (w_store x))"
proof -
  obtain rs where rs: "xo_list (na_more N) (w_store x) = Inr rs"
      "ext = (case find (asks_for (na_docs N) req) rs of None \<Rightarrow> [] | Some rec \<Rightarrow> j_id rec)"
    using assms(1) by (auto simp: nas_locate_def split: if_splits option.splits sum.splits)
  note law = list_law [OF assms(2) rs(1)]
  show ?thesis
  proof (cases "find (asks_for (na_docs N) req) rs")
    case None
    then have "\<forall>r\<in>set rs. \<not> asks_for (na_docs N) req r" by (auto simp: find_None_iff)
    with law rs(2) None show ?thesis by (auto simp: asked_def)
  next
    case (Some rec)
    then have "rec \<in> set rs" "asks_for (na_docs N) req rec" by (auto simp: find_Some_iff)
    with law rs(2) Some show ?thesis by (auto simp: asked_def)
  qed
qed

lemma asks_for_frame: "j_spec r' = j_spec r \<Longrightarrow> j_kind r' = j_kind r \<Longrightarrow> asks_for (na_docs N) req r' = asks_for (na_docs N) req r"
  using spec_only [of r' r] by (auto simp: asks_for_def SpecOf_def split: sum.splits)

text \<open>Nothing becomes open by abandoning; a handle that can be claimed is closed, or the caller is told.\<close>

lemma nas_abandon_open:
  assumes "nas_abandon N ext x = (e, x')" "asked_open req k (w_store x')"
  shows "asked_open req k (w_store x) \<and> (claimable N ext (w_store x) \<and> k = ext \<longrightarrow> e \<noteq> None)"
proof (cases "so_load J ext (w_store x)")
  case (Inl y)
  have "\<not> claimable N ext (w_store x)"
  proof
    assume "claimable N ext (w_store x)"
    then obtain r s where "so_claim J ext (na_owner N) (w_store x) = (Inr r, s)"
      by (auto simp: claimable_def same_store split: prod.splits sum.splits)
    from claim_Inr [OF this] Inl show False by simp
  qed
  with assms Inl show ?thesis by (auto simp: nas_abandon_def same_store)
next
  case (Inr rec)
  note load = this
  show ?thesis
  proof (cases "terminal_state (j_state rec)")
    case True
    with assms load show ?thesis by (auto simp: nas_abandon_def same_store Let_def asked_open_def)
  next
    case False
    obtain c s1 where c: "so_claim J ext (na_owner N) (w_store x) = (c, s1)" by (rule prod.exhaust)
    show ?thesis
    proof (cases c)
      case (Inl y)
      then have "w_store x' = s1" using assms(1) load False c by (auto simp: nas_abandon_def same_store Let_def)
      moreover have "\<not> claimable N ext (w_store x)" using c Inl by (simp add: claimable_def same_store)
      ultimately show ?thesis using assms(2) claim_Inl [of ext "na_owner N" "w_store x" y s1 k] c Inl by (simp add: asked_open_def)
    next
      case (Inr mine)
      let ?g = "\<lambda>r. Inr (r\<lparr>j_state := StateCancelled\<rparr>)"
      obtain u s2 where u: "so_update J ext (l_epoch (j_lease mine)) ?g s1 = (u, s2)" by (rule prod.exhaust)
      have x': "w_store x' = s2" "e = (case u of Inl y \<Rightarrow> Some y | Inr _ \<Rightarrow> None)"
        using assms(1) load False c Inr u by (auto simp: nas_abandon_def same_store Let_def split: sum.splits)
      obtain r0 where r0: "so_load J ext (w_store x) = Inr r0" "\<not> terminal_state (j_state r0)"
          "mine = r0\<lparr>j_lease := j_lease mine, j_state := claimed_state (j_state r0)\<rparr>" "so_load J ext s1 = Inr mine"
        using claim_Inr [of ext _ "w_store x" mine s1] c Inr by blast
      have f: "j_spec mine = j_spec r0" "j_kind mine = j_kind r0" using arg_cong [OF r0(3), of j_spec] arg_cong [OF r0(3), of j_kind] by simp_all
      have before: "asked_open req k (w_store x)" if "asked_open req k s1"
      proof (cases "k = ext")
        case True
        with that r0 asks_for_frame [OF f] show ?thesis by (auto simp: asked_open_def)
      next
        case False
        with that claim_other [OF c] asked_same show ?thesis by blast
      qed
      show ?thesis
      proof (cases u)
        case (Inl y)
        with u update_Inl [of ext _ ?g s1 y s2 k] have "asked_open req k s1" using assms(2) x'(1) by (simp add: asked_open_def)
        with before x'(2) Inl show ?thesis by simp
      next
        case (Inr r2)
        from update_Inr [of ext _ ?g s1 r2 s2] u Inr r0(4) have "so_load J ext s2 = Inr (mine\<lparr>j_state := StateCancelled\<rparr>)" by auto
        with assms(2) x'(1) have k: "k \<noteq> ext" by (auto simp: asked_open_def)
        with update_other [OF u, of k] asked_same [of k s2 s1] assms(2) x'(1) before show ?thesis by simp
      qed
    qed
  qed
qed

lemma nas_delegates: "delegates [nas_tier N] nas_holds nas_handle nas_fresh"
proof
  fix d :: "'s world tier" and sp :: spec and n :: int and x x' x1 x2 :: "'s world" and r :: "err + string"
    and sys req ext q :: string and e :: err and y :: "err option"
    and f :: "string \<Rightarrow> 's world \<Rightarrow> (err + string) \<times> 's world"
  show "\<not> nas_holds sys req x" if "nas_fresh req x"
    using that asked_open_asked by (auto simp: nas_holds_def nas_fresh_def)
  assume "d \<in> set [nas_tier N]"
  then have d: "dg_system d = ''nas''" "dg_start d = nas_start N" "dg_locate d = Some (nas_locate N)" "dg_abandon d = nas_abandon N"
    by (simp_all add: nas_tier_def)
  have new: "k = jid" if "nas_fresh (sp_request sp) x" "\<forall>k. k \<noteq> jid \<longrightarrow> so_load J k (w_store x') = so_load J k (w_store x)"
      "asked (sp_request sp) k (w_store x')" for k jid x'
    using that asked_same [of k "w_store x'" "w_store x"] by (auto simp: nas_fresh_def)
  show "nas_holds sys req x \<or> sys = dg_system d \<and> req = sp_request sp" if st: "dg_start d sp n x = (r, x')" and h: "nas_holds sys req x'"
  proof -
    obtain k where k: "sys = ''nas''" "asked_open req k (w_store x')" using h by (auto simp: nas_holds_def)
    obtain jid where j: "\<forall>k. k \<noteq> jid \<longrightarrow> so_load J k (w_store x') = so_load J k (w_store x)"
        "so_load J jid (w_store x') = so_load J jid (w_store x) \<or> (\<forall>req. asked req jid (w_store x') \<longrightarrow> req = sp_request sp)"
      using nas_start_own [OF st [unfolded d(2)]] by blast
    show ?thesis
    proof (cases "so_load J k (w_store x') = so_load J k (w_store x)")
      case True
      with k asked_same show ?thesis unfolding nas_holds_def by blast
    next
      case False
      with j k asked_open_asked d(1) show ?thesis by metis
    qed
  qed
  show "nas_handle (dg_system d) ext (sp_request sp) x'" if fr: "nas_fresh (sp_request sp) x" and st: "dg_start d sp n x = (Inr ext, x')"
  proof -
    obtain jid where j: "\<forall>k. k \<noteq> jid \<longrightarrow> so_load J k (w_store x') = so_load J k (w_store x)" "ext = jid"
        "sane (w_store x) \<longrightarrow> claimable N jid (w_store x')"
      using nas_start_own [OF st [unfolded d(2)]] by auto
    have "claimable N ext (w_store x')" using j fr by (simp add: nas_fresh_def)
    with new [OF fr j(1)] j(2) asked_open_asked d(1) show ?thesis by (auto simp: nas_handle_def)
  qed
  show "nas_fresh (sp_request sp) x'" if "dg_locate d = None" using that d by simp
  show "nas_holds sys q x" if "dg_locate d = Some f" "f req x = (r, x')" "nas_holds sys q x'"
    using that d nas_locate_store by auto
  show "nas_fresh (sp_request sp) x2" if "nas_fresh (sp_request sp) x" "dg_start d sp n x = (Inl e, x1)" "dg_locate d = Some f"
      "f (sp_request sp) x1 = (Inr [], x2)"
  proof -
    have l: "nas_locate N (sp_request sp) x1 = (Inr [], x2)" using that d by simp
    have "sane (w_store x1)" using nas_start_own [OF that(2) [unfolded d(2)]] that(1) by (auto simp: nas_fresh_def)
    with nas_locate_answer [OF l] nas_locate_store [OF l] show ?thesis by (simp add: nas_fresh_def)
  qed
  show "nas_handle (dg_system d) ext (sp_request sp) x2" if fr: "nas_fresh (sp_request sp) x" and st: "dg_start d sp n x = (Inl e, x1)"
      and lo: "dg_locate d = Some f" "f (sp_request sp) x1 = (Inr ext, x2)" and ne: "ext \<noteq> []"
  proof -
    have l: "nas_locate N (sp_request sp) x1 = (Inr ext, x2)" using lo d by simp
    obtain jid where j: "\<forall>k. k \<noteq> jid \<longrightarrow> so_load J k (w_store x1) = so_load J k (w_store x)" "sane (w_store x1)"
        "so_load J jid (w_store x1) = so_load J jid (w_store x) \<or> claimable N jid (w_store x1)"
      using nas_start_own [OF st [unfolded d(2)]] fr unfolding nas_fresh_def by blast
    have ext: "asked (sp_request sp) ext (w_store x1)" using nas_locate_answer [OF l j(2)] ne by simp
    with new [OF fr j(1)] have "ext = jid" by simp
    moreover have "so_load J jid (w_store x1) \<noteq> so_load J jid (w_store x)"
      using ext \<open>ext = jid\<close> asked_same [of jid "w_store x1" "w_store x"] fr by (auto simp: nas_fresh_def)
    ultimately show ?thesis using j new [OF fr j(1)] asked_open_asked nas_locate_store [OF l] d(1)
      unfolding nas_handle_def by blast
  qed
  show "nas_holds sys req x \<and> (nas_handle (dg_system d) ext req x \<longrightarrow> sys = dg_system d \<longrightarrow> y \<noteq> None)"
    if ab: "dg_abandon d ext x = (y, x')" and h: "nas_holds sys req x'"
  proof -
    obtain k where k: "sys = ''nas''" "asked_open req k (w_store x')" using h by (auto simp: nas_holds_def)
    from nas_abandon_open [OF ab [unfolded d(4)] k(2)] k(1) show ?thesis
      unfolding nas_holds_def nas_handle_def by blast
  qed
qed

end

sublocale nas_layer \<subseteq> delegates "[nas_tier N]" nas_holds nas_handle nas_fresh
  by (rule nas_delegates)


section \<open>A store two machines see\<close>

text \<open>The map store with the order in which its records were created; a new identity per record.\<close>

type_synonym 'd shared = "'d map_store \<times> string list"

definition on_map :: "('a \<times> 'd map_store) \<Rightarrow> string list \<Rightarrow> 'a \<times> 'd shared" where
  "on_map res ids = (fst res, (snd res, ids))"

definition shared_ops :: "('d shared, 'd) store_ops" where
  "shared_ops = \<lparr>
     so_load = (\<lambda>k s. so_load map_ops k (fst s)),
     so_claim = (\<lambda>k who s. on_map (so_claim map_ops k who (fst s)) (snd s)),
     so_update = (\<lambda>k ep g s. on_map (so_update map_ops k ep g (fst s)) (snd s)),
     so_renew = (\<lambda>k ep s. on_map (so_renew map_ops k ep (fst s)) (snd s)),
     so_release = (\<lambda>k ep s. on_map (so_release map_ops k ep (fst s)) (snd s))\<rparr>"

definition shared_submit :: "'d job_record \<Rightarrow> 'd shared \<Rightarrow> (err + string) \<times> 'd shared" where
  "shared_submit r s =
     (case ms_records (fst s) (j_id r) of
        Some _ \<Rightarrow> (Inl (Plain ''job: exists''), s)
      | None \<Rightarrow> (Inr (j_id r), (map_write (j_id r) (r\<lparr>j_lease := \<lparr>l_owner = [], l_epoch = 0, l_expires = 0\<rparr>, j_state := StatePending\<rparr>) (fst s),
          snd s @ [j_id r])))"

definition shared_more :: "(ref_doc shared, ref_doc) store_more" where
  "shared_more = \<lparr>
     xo_list = (\<lambda>s. Inr (map the (filter (\<lambda>r. r \<noteq> None) (map (ms_records (fst s)) (snd s))))),
     xo_submit = shared_submit,
     xo_intent = (\<lambda>k wanted who s. case ms_records (fst s) k of
         None \<Rightarrow> (Some unknown, s) | Some r \<Rightarrow> (None, (map_write k (r\<lparr>j_want := wanted\<rparr>) (fst s), snd s))),
     xo_new_id = (\<lambda>s. ''r'' @ replicate (length (snd s)) (CHR ''x'')),
     xo_set_spec = (\<lambda>sp r. Inr (r\<lparr>j_spec := SpecDoc sp\<rparr>)),
     xo_doc = NoDoc,
     xo_paused = (\<lambda>r. j_want r = WantPause)\<rparr>"

definition shared_sane :: "'d shared \<Rightarrow> bool" where
  "shared_sane s \<longleftrightarrow> 0 \<le> ms_now (fst s) \<and> (\<forall>k r. ms_records (fst s) k = Some r \<longrightarrow> k \<in> set (snd s) \<and> j_id r = k \<and> k \<noteq> [])"

definition map_nas :: "(ref_doc shared, ref_doc) nas_conf" where
  "map_nas = \<lparr>na_root = ''//box/store'', na_dir = ''files'', na_store_root = Some ''/srv'',
     na_names = \<lparr>nm_reserved = (\<lambda>_ _. False), nm_root_name = id\<rparr>, na_uni = id,
     na_hosts = \<lparr>ho_name = (\<lambda>_. None), ho_loop = (\<lambda>_. None), ho_fold = (=)\<rparr>,
     na_docs = ref_docs, na_store = shared_ops, na_more = shared_more, na_owner = ''nas'', na_mkdir = None, na_same = (=),
     na_copy = \<lparr>cp_mkdir = None, cp_open = None, cp_create = None, cp_read = None, cp_sync = None, cp_close = None, cp_rename = None\<rparr>,
     na_piece = (\<lambda>_. 32768), na_rm = (\<lambda>_. True)\<rparr>"

lemma shared_store_layer: "store_layer shared_ops"
proof
  fix jid k who :: string and ep :: int and g :: "'d job_record \<Rightarrow> err + 'd job_record" and s s' :: "'d shared"
    and e :: err and r r' :: "'d job_record" and x :: "err + 'd job_record" and y :: "err option"
  note [simp] = shared_ops_def on_map_def
  have pair: "p = (fst p, snd p)" for p :: "'a \<times> 'b" by simp
  show "\<exists>r. so_load shared_ops jid s = Inr r \<and> l_epoch (j_lease r) = ep \<and> \<not> terminal_state (j_state r) \<and>
      g r = Inr r' \<and> so_load shared_ops jid s' = Inr r'" if "so_update shared_ops jid ep g s = (Inr r', s')"
    using that map_store.update_Inr [of jid ep g "fst s" r' "fst s'"] by (cases s') (auto simp: prod_eq_iff)
  show "so_load shared_ops k s' = so_load shared_ops k s" if "so_update shared_ops jid ep g s = (Inl e, s')"
    using that map_store.update_Inl [of jid ep g "fst s" e "fst s'" k] by (cases s') (auto simp: prod_eq_iff)
  show "so_load shared_ops k s' = so_load shared_ops k s" if "so_update shared_ops jid ep g s = (x, s')" "k \<noteq> jid"
    using that map_store.update_other [of jid ep g "fst s" x "fst s'" k] by (cases s') (auto simp: prod_eq_iff)
  show "\<exists>r. so_load shared_ops jid s = Inr r \<and> \<not> terminal_state (j_state r) \<and>
        r' = r\<lparr>j_lease := j_lease r', j_state := claimed_state (j_state r)\<rparr> \<and>
        l_epoch (j_lease r') = l_epoch (j_lease r) + 1 \<and> l_owner (j_lease r') = who \<and> so_load shared_ops jid s' = Inr r'"
    if "so_claim shared_ops jid who s = (Inr r', s')"
    using that map_store.claim_Inr [of jid who "fst s" r' "fst s'"] by (cases s') (auto simp: prod_eq_iff)
  show "so_load shared_ops k s' = so_load shared_ops k s" if "so_claim shared_ops jid who s = (Inl e, s')"
    using that map_store.claim_Inl [of jid who "fst s" e "fst s'" k] by (cases s') (auto simp: prod_eq_iff)
  show "so_load shared_ops k s' = so_load shared_ops k s" if "so_claim shared_ops jid who s = (x, s')" "k \<noteq> jid"
    using that map_store.claim_other [of jid who "fst s" x "fst s'" k] by (cases s') (auto simp: prod_eq_iff)
  show "\<exists>l. l_epoch l = l_epoch (j_lease r) \<and> so_load shared_ops jid s' = Inr (r\<lparr>j_lease := l\<rparr>)"
    if "so_renew shared_ops jid ep s = (x, s')" "so_load shared_ops jid s = Inr r"
    using that map_store.renew_keeps [of jid ep "fst s" x "fst s'" r] by (cases s') (auto simp: prod_eq_iff)
  show "\<exists>l. l_epoch l = l_epoch (j_lease r) \<and> so_load shared_ops jid s' = Inr (r\<lparr>j_lease := l\<rparr>)"
    if "so_release shared_ops jid ep s = (y, s')" "so_load shared_ops jid s = Inr r"
    using that map_store.release_keeps [of jid ep "fst s" y "fst s'" r] by (cases s') (auto simp: prod_eq_iff)
qed

lemma shared_load: "so_load shared_ops k s = Inr r \<longleftrightarrow> ms_records (fst s) k = Some r"
  by (simp add: shared_ops_def map_load_iff)

lemma nas_layer_map: "nas_layer shared_ops map_nas shared_sane"
proof (intro nas_layer.intro nas_layer_axioms.intro shared_store_layer)
  note [simp] = map_nas_def shared_more_def
  show "na_store map_nas = shared_ops" by simp
  show "xo_new_id (na_more map_nas) s \<noteq> []" for s by simp
  show "(\<forall>r\<in>set rs. so_load shared_ops (j_id r) s = Inr r \<and> j_id r \<noteq> []) \<and>
      (\<forall>k r. so_load shared_ops k s = Inr r \<longrightarrow> r \<in> set rs \<and> j_id r = k)"
    if "shared_sane s" "xo_list (na_more map_nas) s = Inr rs" for s rs
    using that by (fastforce simp: shared_load shared_sane_def image_iff)
  show "j_id r' = j_id r \<and> j_kind r' = j_kind r \<and> (\<forall>q. j_spec q = j_spec r' \<longrightarrow> do_decode_spec (na_docs map_nas) q = Inr sp)"
    if "xo_set_spec (na_more map_nas) sp r = Inr r'" for sp r r'
    using that by (auto simp: ref_docs_def)
  show "do_decode_spec (na_docs map_nas) q = do_decode_spec (na_docs map_nas) r" if "j_spec q = j_spec r" for q r
    using that by (simp add: ref_docs_def)
  fix r :: "ref_doc job_record" and s s' :: "ref_doc shared" and a :: "err + string" and k
  assume sub: "xo_submit (na_more map_nas) r s = (a, s')"
  let ?q = "r\<lparr>j_lease := \<lparr>l_owner = [], l_epoch = 0, l_expires = 0\<rparr>, j_state := StatePending\<rparr>"
  have cases: "s' = s \<and> (\<exists>e. a = Inl e) \<or> a = Inr (j_id r) \<and> ms_records (fst s) (j_id r) = None \<and>
      fst s' = map_write (j_id r) ?q (fst s) \<and> snd s' = snd s @ [j_id r]"
    using sub by (auto simp: shared_submit_def split: option.splits)
  show "so_load shared_ops k s' = so_load shared_ops k s" if "k \<noteq> j_id r"
    using cases that by (auto simp: shared_ops_def map_ops_def map_write_def)
  show "so_load shared_ops (j_id r) s' = so_load shared_ops (j_id r) s \<and> (\<exists>e. a = Inl e) \<or>
      (\<exists>q. so_load shared_ops (j_id r) s' = Inr q \<and> j_spec q = j_spec r \<and> j_kind q = j_kind r \<and>
         (shared_sane s \<longrightarrow> claimable map_nas (j_id r) s'))"
    using cases by (auto simp: shared_load map_write_def shared_sane_def claimable_def shared_ops_def on_map_def map_ops_def Let_def
        intro!: exI [of _ ?q] split: prod.split)
  show "shared_sane s'" if "j_id r \<noteq> []" "shared_sane s"
    using cases that by (auto simp: shared_sane_def map_write_def split: if_splits) blast
next
  show "k = j_id r" if "xo_submit (na_more map_nas) r s = (Inr k, s')" for r s k s'
    using that by (auto simp: map_nas_def shared_more_def shared_submit_def split: option.splits)
qed

interpretation map_nas: nas_layer shared_ops map_nas shared_sane
  by (rule nas_layer_map)

lemma handoff_nas: "handoff map_ops [nas_tier map_nas] map_nas.nas_holds map_nas.nas_handle map_nas.nas_fresh"
  by (intro handoff.intro map_store_layer map_nas.nas_delegates)

interpretation nas_handoff: handoff map_ops "[nas_tier map_nas]" map_nas.nas_holds map_nas.nas_handle map_nas.nas_fresh
  by (rule handoff_nas)


section \<open>Files on the share\<close>

text \<open>A copy puts the whole file at its destination or leaves the destination alone.\<close>

lemma copyFile_whole:
  assumes "copyFile io piece src dest fs = ((says, e), fs')" "fs src = Some (File c)"
  shows "fs' dest = (if e = None then Some (File c) else fs dest)"
  using assms by (auto simp: copyFile_def Let_def split: if_splits option.splits)

text \<open>What is reported: never back, at least 8 MiB apart, and the end; so few writes of the record.\<close>

lemma share_reports_count:
  "0 \<le> got - at_last \<Longrightarrow> got - at_last < 8388608 \<Longrightarrow>
     int (length (share_reports piece i whole got at_last rest)) \<le> 1 + (got - at_last + int rest) div 8388608"
proof (induction piece i whole got at_last rest rule: share_reports.induct)
  case (1 piece i whole got at_last rest)
  show ?case
  proof (cases "rest = 0")
    case True
    with 1(3) show ?thesis by (subst share_reports.simps) simp
  next
    case False
    define n where "n = share_chunk piece i rest"
    have n: "1 \<le> n" "n \<le> rest" "n \<le> 32768" using False share_chunk_bounds by (simp_all add: n_def)
    let ?got = "got + int n"
    have rest: "int (rest - n) = int rest - int n" using n by simp
    show ?thesis
    proof (cases "8388608 \<le> ?got - at_last")
      case True
      have ih: "int (length (share_reports piece (Suc i) whole ?got ?got (rest - n))) \<le> 1 + (?got - ?got + int (rest - n)) div 8388608"
        by (rule 1(1) [OF False n_def refl True]) simp_all
      have "(int rest - int n) div 8388608 + 1 \<le> (got - at_last + int rest) div 8388608"
        using True by (simp add: zdiv_mono1 flip: div_add_self2)
      with ih rest True False show ?thesis by (subst share_reports.simps) (simp add: Let_def flip: n_def)
    next
      case less: False
      have "int (length (share_reports piece (Suc i) whole ?got at_last (rest - n))) \<le> 1 + (?got - at_last + int (rest - n)) div 8388608"
        by (rule 1(2) [OF False n_def refl less]) (use 1(3) less in simp_all)
      with rest less False show ?thesis by (subst share_reports.simps) (simp add: Let_def flip: n_def)
    qed
  qed
qed

lemma share_reports_last: "last (share_reports piece i whole got at_last rest) = (got + int rest, whole)"
proof (induction piece i whole got at_last rest rule: share_reports.induct)
  case (1 piece i whole got at_last rest)
  show ?case
  proof (cases "rest = 0")
    case True
    then show ?thesis by (subst share_reports.simps) simp
  next
    case False
    define n where "n = share_chunk piece i rest"
    have n: "n \<le> rest" using False share_chunk_bounds by (simp_all add: n_def)
    have ne: "share_reports piece j w g a q \<noteq> []" for j w g a q by (induction piece j w g a q rule: share_reports.induct)
        (subst share_reports.simps, auto simp: Let_def)
    note ih = 1(1) [OF False n_def refl] 1(2) [OF False n_def refl]
    show ?thesis using ih n ne False
      by (cases "8388608 \<le> got + int n - at_last"; subst share_reports.simps; simp add: Let_def flip: n_def)
  qed
qed

text \<open>
  Abandoning removes the request's own two files and nothing else, and keeps the finished one while
  another live record of the store names it.
\<close>

lemma nas_abandon_files:
  assumes "nas_abandon N ext x = (e, x')" "so_load (na_store N) ext (w_store x) = Inr rec" "SpecOf (na_docs N) rec = Inr sp"
    and "LocalSink (na_names N) (na_store_root N) (j_id rec) (sp_sink sp) = Inr (partial, final)"
  shows "p \<noteq> partial \<Longrightarrow> p \<noteq> final \<Longrightarrow> w_files x' p = w_files x p"
    and "partial \<noteq> final \<Longrightarrow> claimedByAnother N (w_store x) (j_id rec) (k_final (sp_sink sp)) \<Longrightarrow> w_files x' final = w_files x final"
proof -
  have f: "w_files x' = tidy N rec x"
    using assms(1,2) by (auto simp: nas_abandon_def Let_def split: if_splits sum.splits prod.splits)
  show "p \<noteq> partial \<Longrightarrow> p \<noteq> final \<Longrightarrow> w_files x' p = w_files x p"
    using assms(3,4) by (auto simp: f tidy_def remove_own_def Let_def)
  show "partial \<noteq> final \<Longrightarrow> claimedByAnother N (w_store x) (j_id rec) (k_final (sp_sink sp)) \<Longrightarrow> w_files x' final = w_files x final"
    using assms(3,4) by (auto simp: f tidy_def remove_own_def Let_def)
qed

lemma nas_abandon_outside:
  assumes "nas_abandon N ext x = (e, x')" "so_load (na_store N) ext (w_store x) = Inr rec" "SpecOf (na_docs N) rec = Inr sp"
    and "LocalSink (na_names N) (na_store_root N) (j_id rec) (sp_sink sp) = Inl y"
  shows "w_files x' = w_files x"
  using assms by (auto simp: nas_abandon_def tidy_def Let_def split: if_splits sum.splits prod.splits)

text \<open>While the other machine holds its lease, abandoning answers success and stops nothing.\<close>

lemma nas_abandon_leased:
  assumes "so_load (na_store N) ext (w_store x) = Inr rec" "\<not> terminal_state (j_state rec)"
    and "so_claim (na_store N) ext (na_owner N) (w_store x) = (Inl y, w_store x)"
  shows "\<exists>x'. nas_abandon N ext x = (None, x') \<and> w_store x' = w_store x"
  using assms by (auto simp: nas_abandon_def Let_def)


text \<open>\<open>Locate\<close> answers with the first record of the request, whatever became of it.\<close>

lemma nas_locate_first:
  assumes "request \<noteq> []" "Available N = None" "xo_list (na_more N) (w_store x) = Inr (rec # rs)" "asks_for (na_docs N) request rec"
  shows "nas_locate N request x = (Inr (j_id rec), x)"
  using assms by (simp add: nas_locate_def)

end
