(* ===== verification/Record_Invariant.thy ===== *)
theory Record_Invariant
  imports Runner
begin

text \<open>
  The resume point of a record stays readable: whatever a fetcher does with its callbacks, whatever
  fails, every write of a run (\<open>go/runner.go\<close>) leaves a checkpoint that decodes to canonical ranges. This
  is what a successor on another machine relies on when it adopts the job.
\<close>

locale record_layer = run_layer R D J
  for R :: range_ops and D :: "'d doc_ops" and J :: "('s, 'd) store_ops" +
  assumes add_canonical: "\<And>rs a b cs. canonical rs \<Longrightarrow> ro_add R rs a b = Inr cs \<Longrightarrow> canonical cs"

interpretation ref_record: record_layer ref_ranges ref_docs map_ops
proof (intro record_layer.intro record_layer_axioms.intro run_layer_ref)
  fix rs a b cs
  assume "canonical rs" "ro_add ref_ranges rs a b = Inr cs"
  then show "canonical cs" by (auto simp: ref_ranges_def ref_insert_canonical split: if_splits)
qed

lemma record_layer_ref: "record_layer ref_ranges ref_docs map_ops"
  by (rule ref_record.record_layer_axioms)

definition readable_point :: "range_ops \<Rightarrow> 'd doc_ops \<Rightarrow> 'd job_record \<Rightarrow> bool" where
  "readable_point R D r \<longleftrightarrow> (\<exists>cp. CheckpointOf R D r = Inr cp \<and> checkpoint_wf cp)"

context record_layer
begin

abbreviation good :: "'d job_record \<Rightarrow> bool" where
  "good \<equiv> readable_point R D"

definition store_good :: "string \<Rightarrow> 's \<Rightarrow> bool" where
  "store_good jid s \<longleftrightarrow> (\<exists>r. so_load J jid s = Inr r \<and> good r)"

definition our_env :: "('s, 'd) run_env \<Rightarrow> bool" where
  "our_env E \<longleftrightarrow> en_ranges E = R \<and> en_docs E = D \<and> en_store E = J"

definition xfer_good :: "string \<Rightarrow> 's xfer \<Rightarrow> bool" where
  "xfer_good jid x \<longleftrightarrow> canonical (x_proven x) \<and> store_good jid (x_store x)"

section \<open>Single writes\<close>

lemma good_frame: "j_checkpoint r' = j_checkpoint r \<Longrightarrow> j_content r' = j_content r \<Longrightarrow> good r' = good r"
  using decode_law [of r' r] ranges_frame_law [of r' r] by (simp add: readable_point_def CheckpointOf_def)

lemma good_set:
  assumes "setCheckpoint R D cp rr = Inr r'" "checkpoint_wf cp"
  shows "good r'"
  using setCheckpoint_reads_back [OF assms(2), of rr] assms(1) canonical_wf
  by (auto simp: readable_point_def checkpoint_wf_def list_all_iff)

lemma checkpoint_wf_canonical: "canonical rs \<Longrightarrow> checkpoint_wf \<lparr>c_prefix = n, c_validators = v, c_verified = rs\<rparr>"
  using canonical_wf [of rs] by (auto simp: checkpoint_wf_def list_all_iff)

lemma checkpoint_wf_none: "checkpoint_wf no_checkpoint"
  by (simp add: checkpoint_wf_def no_checkpoint_def)

lemma update_good:
  assumes "so_update J jid ep g s = (x, s')" "store_good jid s"
    and "\<And>r r'. good r \<Longrightarrow> g r = Inr r' \<Longrightarrow> good r'"
  shows "store_good jid s'"
proof (cases x)
  case (Inl e)
  with update_Inl [of jid ep g s e s' jid] assms(1,2) show ?thesis by (simp add: store_good_def)
next
  case (Inr r')
  with update_Inr [of jid ep g s r' s'] assms show ?thesis by (auto simp: store_good_def)
qed

lemma update_set_good:
  assumes "so_update J jid ep (\<lambda>rr. setCheckpoint R D cp (g rr)) s = (x, s')" "store_good jid s" "checkpoint_wf cp"
  shows "store_good jid s'"
  using update_good [OF assms(1,2)] good_set assms(3) by blast

lemma update_pure_good:
  assumes "so_update J jid ep (\<lambda>rr. Inr (g rr)) s = (x, s')" "store_good jid s" "\<And>r. good (g r) = good r"
  shows "store_good jid s'"
  by (rule update_good [OF assms(1,2)]) (auto simp: assms(3))

lemma lease_good: "good (r\<lparr>j_lease := l\<rparr>) = good r"
  by (rule good_frame) simp_all

lemma renew_good: "so_renew J jid ep s = (x, s') \<Longrightarrow> store_good jid s \<Longrightarrow> store_good jid s'"
  using renew_keeps lease_good by (fastforce simp: store_good_def)

lemma release_good: "so_release J jid ep s = (x, s') \<Longrightarrow> store_good jid s \<Longrightarrow> store_good jid s'"
  using release_keeps lease_good by (fastforce simp: store_good_def)

section \<open>The callbacks of a fetcher\<close>

lemma restart_good:
  assumes "our_env E" "xfer_good (en_id E) x"
  shows "xfer_good (en_id E) (restart E trunc seek now x)"
  using assms update_set_good [OF _ _ checkpoint_wf_none]
  by (auto simp: restart_def xfer_good_def our_env_def split: prod.split)

lemma claim_reported_good:
  assumes "our_env E" "xfer_good (en_id E) x"
  shows "xfer_good (en_id E) (claim_reported E at whole ck x)"
proof -
  have E: "en_ranges E = R" "en_docs E = D" "en_store E = J" using assms(1) by (simp_all add: our_env_def)
  have x: "canonical (x_proven x)" "store_good (en_id E) (x_store x)" using assms(2) by (auto simp: xfer_good_def)
  have u: "so_update J (en_id E) (en_epoch E) (\<lambda>rr. setCheckpoint R D \<lparr>c_prefix = 0, c_validators = v, c_verified = nxt\<rparr> (g rr))
      (x_store x) = (y, s') \<Longrightarrow> canonical nxt \<Longrightarrow> store_good (en_id E) s'" for v nxt g y s'
    using update_set_good x(2) checkpoint_wf_canonical by fast
  show ?thesis
    using x u add_canonical [OF x(1)]
    by (auto simp: claim_reported_def Let_def E xfer_good_def renew_good split: sum.split prod.split)
qed

lemma report_good: "our_env E \<Longrightarrow> xfer_good (en_id E) x \<Longrightarrow> xfer_good (en_id E) (report E wr whole q ck x)"
  unfolding report_def Let_def using claim_reported_good [of E] by (simp add: xfer_good_def)

lemma callback_good: "our_env E \<Longrightarrow> xfer_good (en_id E) x \<Longrightarrow> xfer_good (en_id E) (callback E rolling ev x)"
  by (cases ev) (auto simp: restart_good report_good, auto simp: xfer_good_def take_write_def)

lemma callbacks_good: "our_env E \<Longrightarrow> xfer_good (en_id E) x \<Longrightarrow> xfer_good (en_id E) (callbacks E rolling evs x)"
  unfolding callbacks_def by (induction evs arbitrary: x) (auto simp: callback_good)

lemma fold_landed_good: "our_env E \<Longrightarrow> xfer_good (en_id E) x \<Longrightarrow> xfer_good (en_id E) (fold_landed E w x)"
  using add_canonical by (auto simp: fold_landed_def xfer_good_def our_env_def split: sum.split)

lemma open_good: "xfer_good jid (open_source x) = xfer_good jid x"
  by (simp add: open_source_def xfer_good_def)

lemma fetch_from_good:
  assumes "our_env E" "xfer_good (en_id E) x"
  shows "xfer_good (en_id E) (snd (fetch_from E V seek rolling k srcs old x))"
  using assms(2)
proof (induction srcs arbitrary: k old x)
  case Nil
  then show ?case by (simp add: stopped_def)
next
  case (Cons src srcs)
  have pos: "xfer_good (en_id E) (x\<lparr>x_pos := n\<rparr>)" for n using Cons.prems by (simp add: xfer_good_def)
  have step: "xfer_good (en_id E) (fold_landed E w (callbacks E rolling evs (open_source x)))" for w evs
    using fold_landed_good callbacks_good open_good assms(1) Cons.prems by simp
  show ?case
    using Cons pos step by (simp add: stopped_def Let_def split: option.split sum.split prod.split)
qed

lemma fetch_good:
  "our_env E \<Longrightarrow> xfer_good (en_id E) x \<Longrightarrow> xfer_good (en_id E) (snd (fetch E V seek rolling sp known gap x))"
  unfolding fetch_def by (rule fetch_from_good) (simp_all add: xfer_good_def)

lemma stream_gaps_good:
  "our_env E \<Longrightarrow> xfer_good (en_id E) x \<Longrightarrow> xfer_good (en_id E) (snd (stream_gaps E V io rolling sp known j gs whole x))"
proof (induction gs arbitrary: j whole x)
  case (Cons g gs)
  then show ?case using fetch_good [of E x "V j" "io_seek io j" rolling sp known g] by (auto split: prod.split)
qed simp

section \<open>One stream, one transfer\<close>

lemma start_update_good:
  assumes "our_env E" "canonical (rp_have p)" "store_good (en_id E) s"
  shows "store_good (en_id E) (start_update E sp rec p s)"
proof -
  let ?cp = "\<lparr>c_prefix = 0, c_validators = rp_validators p, c_verified = rp_have p\<rparr>"
  have E: "en_ranges E = R" "en_docs E = D" "en_store E = J" using assms(1) by (simp_all add: our_env_def)
  have "store_good (en_id E) (snd (so_update J (en_id E) (en_epoch E) (\<lambda>rr. setCheckpoint R D ?cp (g rr)) s))" for g
    by (rule update_set_good [OF surjective_pairing assms(3) checkpoint_wf_canonical [OF assms(2)]])
  then show ?thesis using assms(3) by (simp add: start_update_def Let_def E)
qed

lemma finish_stream_good:
  assumes "our_env E" "xfer_good (en_id E) (snd res)" "finish_stream E sha io partial rolling w res = (g, w', asks)"
  shows "store_good (en_id E) (w_store w')"
proof -
  obtain whole e x where res: "res = ((whole, e), x)" by (metis prod.collapse)
  have x: "canonical (x_proven x)" "store_good (en_id E) (x_store x)" using assms(2) res by (auto simp: xfer_good_def)
  let ?cp = "\<lparr>c_prefix = 0, c_validators = x_seen x, c_verified = x_proven x\<rparr>"
  have u: "so_update J (en_id E) (en_epoch E) (\<lambda>rr. setCheckpoint R D ?cp (f rr)) (x_store x) = (y, s') \<Longrightarrow>
      store_good (en_id E) s'" for f y s'
    using update_set_good x(2) checkpoint_wf_canonical [OF x(1)] by blast
  show ?thesis
    using assms(1,3) x(2) u
    by (auto simp: res finish_stream_def Let_def our_env_def split: option.splits if_splits prod.splits sum.splits)
qed

lemma plan_canonical: "planResume R partial st cp sz = Inr p \<Longrightarrow> checkpoint_wf cp \<Longrightarrow> canonical (rp_have p)"
  using planResume_cases by (fastforce simp: fresh_plan_def)

lemma stream_good:
  assumes "our_env E" "good rec" "store_good (en_id E) (w_store w)"
    and "stream E sha V io sp rec partial w = (g, w', asks)"
  shows "store_good (en_id E) (w_store w')"
proof -
  have E: "en_ranges E = R" "en_docs E = D" using assms(1) by (simp_all add: our_env_def)
  obtain cp where cp: "CheckpointOf R D rec = Inr cp" "checkpoint_wf cp" using assms(2) by (auto simp: readable_point_def)
  show ?thesis
  proof (cases "planResume R partial (stat_of (w_files w) partial) cp (a_size (sp_artifact sp))")
    case (Inl e)
    with assms(3,4) cp(1) show ?thesis by (auto simp: stream_def Let_def E)
  next
    case (Inr p)
    note can = plan_canonical [OF Inr cp(2)]
    let ?s = "start_update E sp rec p (w_store w)"
    have s: "store_good (en_id E) ?s" by (rule start_update_good [OF assms(1) can assms(3)])
    have x: "xfer_good (en_id E) (start_xfer content hashed p ?s)" for content hashed
      using can s by (simp add: start_xfer_def xfer_good_def)
    note gaps = stream_gaps_good [OF assms(1) x]
    note fin = finish_stream_good [OF assms(1) gaps]
    show ?thesis
      using assms(3,4) s
      by (auto simp: stream_def Let_def E cp(1) Inr intro: fin split: sum.splits)
  qed
qed

lemma transfer_good:
  assumes "our_env E" "good rec" "store_good (en_id E) (w_store w)"
    and "\<And>sv p hv w g w' a. par sv p hv w = (g, w', a) \<Longrightarrow> store_good (en_id E) (w_store w) \<Longrightarrow> store_good (en_id E) (w_store w')"
    and "transfer E sha V V0 conns io par sp rec partial w = Some (g, w', asks)"
  shows "store_good (en_id E) (w_store w')"
proof -
  have h: "hash_finished sha io sp partial (g1, w1, a1) = (g, w', asks) \<Longrightarrow> w' = w1" for g1 w1 a1
    by (auto simp: hash_finished_def Let_def split: prod.splits if_splits sum.splits)
  show ?thesis
  proof (cases "rangePlan V0 conns sp")
    case None
    with assms(5) show ?thesis by (simp add: transfer_def)
  next
    case (Some pl)
    obtain serving p b where pl: "pl = (serving, p, b)" by (metis prod_cases3)
    show ?thesis
    proof (cases b)
      case True
      with assms(3-5) Some pl h show ?thesis
        by (fastforce simp: transfer_def split: sum.splits prod.splits if_splits)
    next
      case False
      obtain g1 w1 a1 where s: "stream E sha V io sp rec partial w = (g1, w1, a1)" by (metis prod_cases3)
      have "w' = w1" using assms(5) Some pl False s h by (simp add: transfer_def)
      with stream_good [OF assms(1-3) s] show ?thesis by simp
    qed
  qed
qed

section \<open>A whole run\<close>

lemma annotate_good:
  "good (clearFailure r) = good r" "good (clearWaiting r) = good r" "good (setWaiting u w r) = good r"
  "good (failed_record C e r) = good r" "good (r\<lparr>j_state := st\<rparr>) = good r"
  by (auto intro!: good_frame simp: clearFailure_def clearWaiting_def setWaiting_def failed_record_def setFailure_def
      setFailureCause_def Let_def split: option.splits)

lemma honour_good: "honour J wnt jid ep s = (e, s') \<Longrightarrow> store_good jid s \<Longrightarrow> store_good jid s'"
  by (auto simp: honour_def annotate_good split: want.splits sum.splits prod.splits elim!: update_pure_good)

lemma run_start_good:
  assumes "our_env E" "store_good (en_id E) (w_store w)"
  shows "run_start C E ev rec w = Inl (e, w') \<Longrightarrow> store_good (en_id E) (w_store w')"
    and "run_start C E ev rec w = Inr (st, w') \<Longrightarrow> store_good (en_id E) (w_store w')"
proof -
  have E: "en_store E = J" using assms(1) by (simp add: our_env_def)
  have c: "clear_last C E rec (w_store w) = (x, s') \<Longrightarrow> store_good (en_id E) s'" for x s'
    using assms(2)
    by (auto simp: clear_last_def E annotate_good split: if_splits prod.splits sum.splits elim!: update_pure_good)
  have h: "honour J wnt (en_id E) (en_epoch E) (w_store w) = (x, s') \<Longrightarrow> store_good (en_id E) s'" for wnt x s'
    using honour_good assms(2) by blast
  show "run_start C E ev rec w = Inl (e, w') \<Longrightarrow> store_good (en_id E) (w_store w')"
    using c h assms(2) by (auto simp: run_start_def Let_def E split: if_splits sum.splits option.splits prod.splits)
  show "run_start C E ev rec w = Inr (st, w') \<Longrightarrow> store_good (en_id E) (w_store w')"
    using c by (auto simp: run_start_def Let_def E split: if_splits sum.splits option.splits prod.splits)
qed

lemma keepProven_good: "store_good jid s \<Longrightarrow> store_good jid (keepProven R D J now jid ep n v s)"
proof -
  assume s: "store_good jid s"
  let ?cp = "\<lparr>c_prefix = n, c_validators = v, c_verified = []\<rparr>"
  let ?g = "\<lambda>rr. if n \<le> p_done (j_progress rr) then Inr rr
        else setCheckpoint R D ?cp (rr\<lparr>j_progress := (j_progress rr)\<lparr>p_done := n, p_updated := now\<rparr>\<rparr>)"
  have wf: "checkpoint_wf ?cp" by (simp add: checkpoint_wf_def)
  have "store_good jid (snd (so_update J jid ep ?g s))"
    by (rule update_good [OF surjective_pairing s]) (auto intro: good_set [OF _ wf] split: if_splits)
  then show ?thesis using s by (simp add: keepProven_def)
qed

lemma run_end_good:
  assumes env: "our_env E"
    and others: "\<And>s. store_good (en_id E) s \<Longrightarrow> store_good (en_id E) (rv_others ev s)"
    and w: "store_good (en_id E) (w_store w)"
    and run: "run_end C E io dv ev rec (sp, partial, final, gate) ((whole, dg, seen, e), w, asks) = (x, w')"
  shows "store_good (en_id E) (w_store w')"
proof -
  have E: "en_ranges E = R" "en_docs E = D" "en_store E = J" using env by (simp_all add: our_env_def)
  let ?s = "rv_others ev (w_store w)"
  have s: "store_good (en_id E) ?s" by (rule others [OF w])
  note k = keepProven_good [OF s]
  have h: "honour J wnt (en_id E) (en_epoch E) ?s = (y, s') \<Longrightarrow> store_good (en_id E) s'" for wnt y s'
    by (rule honour_good [OF _ s])
  have m: "so_update J (en_id E) (en_epoch E) (\<lambda>rr. setCheckpoint R D no_checkpoint (f rr)) ?s = (y, s') \<Longrightarrow>
      store_good (en_id E) s'" for f y s'
    by (rule update_set_good [OF _ s checkpoint_wf_none])
  have wf: "checkpoint_wf \<lparr>c_prefix = n, c_validators = seen, c_verified = []\<rparr>" for n by (simp add: checkpoint_wf_def)
  have f: "so_update J (en_id E) (en_epoch E) (finished_record E now n seen) ?s = (y, s') \<Longrightarrow>
      store_good (en_id E) s'" for now n y s'
    by (rule update_set_good [OF _ s wf]) (simp add: finished_record_def [abs_def] E)
  show ?thesis
    using run s k
    by (auto simp: run_end_def sweep_mismatch_def Let_def E dest: h m f split: option.splits prod.splits if_splits sum.splits)
qed

lemma conclude_good:
  assumes "our_env E" "store_good (en_id E) (w_store w)" "conclude C E ev (e, w) = (x, w')"
  shows "store_good (en_id E) (w_store w')"
proof -
  have E: "en_store E = J" using assms(1) by (simp add: our_env_def)
  have l: "let_go E v = (y, v') \<Longrightarrow> store_good (en_id E) (w_store v) \<Longrightarrow> store_good (en_id E) (w_store v')" for v y v'
    by (auto simp: let_go_def release_def E release_good split: prod.splits option.splits if_splits)
  have p: "put E g v = (y, v') \<Longrightarrow> store_good (en_id E) (w_store v) \<Longrightarrow> (\<And>r. good (g r) = good r) \<Longrightarrow>
      store_good (en_id E) (w_store v')" for g v y v'
    by (auto simp: put_def E split: prod.splits sum.splits elim!: update_pure_good)
  show ?thesis
  proof (cases e)
    case None
    with assms l show ?thesis by (simp add: conclude_def)
  next
    case (Some z)
    with assms(2,3) show ?thesis
      by (auto simp: conclude_def Let_def annotate_good split: if_splits option.splits prod.splits dest!: l p)
  qed
qed

lemma Run_good:
  assumes env: "our_env E" and start: "store_good (en_id E) (w_store w)"
    and others: "\<And>s. store_good (en_id E) s \<Longrightarrow> store_good (en_id E) (rv_others (mc_events mc) s)"
    and par: "\<And>sv p hv w g w' a. mc_parallel mc sv p hv w = (g, w', a) \<Longrightarrow> store_good (en_id E) (w_store w) \<Longrightarrow>
      store_good (en_id E) (w_store w')"
    and run: "Run C E mc who w = Some (x, w')"
  shows "store_good (en_id E) (w_store w')"
proof -
  have E: "en_store E = J" using env by (simp add: our_env_def)
  obtain c s where c: "so_claim J (en_id E) who (w_store w) = (c, s)" by (metis surj_pair)
  show ?thesis
  proof (cases c)
    case (Inl e)
    with claim_Inl [of "en_id E" who "w_store w" e s] c start run show ?thesis
      by (auto simp: Run_def E store_good_def)
  next
    case (Inr rec)
    obtain r where r: "good r" "rec = r\<lparr>j_lease := j_lease rec, j_state := claimed_state (j_state r)\<rparr>" "so_load J (en_id E) s = Inr rec"
      using claim_Inr [of "en_id E" who "w_store w" rec s] c Inr start by (auto simp: store_good_def)
    have "good (r\<lparr>j_lease := j_lease rec, j_state := claimed_state (j_state r)\<rparr>) = good r" by (rule good_frame) simp_all
    with r(1,2) have "good rec" by simp
    then have rec: "good rec" "store_good (en_id E) s" using r(3) by (simp_all add: store_good_def)
    define E1 where "E1 = E\<lparr>en_epoch := l_epoch (j_lease rec)\<rparr>"
    have E1: "our_env E1" "en_id E1 = en_id E" using env by (simp_all add: E1_def our_env_def)
    let ?w = "w\<lparr>w_store := s\<rparr>"
    have w: "store_good (en_id E1) (w_store ?w)" using rec(2) E1(2) by simp
    obtain y w3 where r: "run_job C E1 mc rec ?w = Some (y, w3)" "conclude C E1 (mc_events mc) (y, w3) = (x, w')"
      using run c Inr by (auto simp: Run_def E E1_def Let_def)
    have "store_good (en_id E1) (w_store w3)"
    proof (cases "run_start C E1 (mc_events mc) rec ?w")
      case (Inl early)
      then show ?thesis using r(1) run_start_good(1) [OF E1(1) w] by (cases early) (auto simp: run_job_def)
    next
      case (Inr st)
      obtain sp partial final gate w1 where st: "st = ((sp, partial, final, gate), w1)" by (metis prod.collapse)
      obtain whole dg seen e w2 asks where t: "run_transfer C E1 mc rec (sp, partial, final, gate) w1 =
            Some ((whole, dg, seen, e), w2, asks)"
        "run_end C E1 (mc_io mc) (mc_deliver mc) (mc_events mc) rec (sp, partial, final, gate)
            ((whole, dg, seen, e), w2, asks) = (y, w3)"
        using r(1) Inr st by (auto simp: run_job_def)
      have "store_good (en_id E1) (w_store w1)" using run_start_good(2) [OF E1(1) w] Inr st by blast
      then have "store_good (en_id E1) (w_store w2)"
        using transfer_good [OF E1(1) rec(1) _ _ t(1) [unfolded run_transfer_def]] par E1(2) by auto
      with run_end_good [OF E1(1) _ _ t(2)] others E1(2) show ?thesis by simp
    qed
    with conclude_good [OF E1(1) _ r(2)] E1(2) show ?thesis by simp
  qed
qed

end

end
