(* ===== verification/Demonstration.thy ===== *)
theory Demonstration
  imports Handoff_Endings Nas Record_Invariant
begin

text \<open>
  The concrete machines on which the witnesses of the root theory are evaluated: a store with one job, a
  machine that fetches three bytes, and a second machine behind a share.
\<close>

section \<open>One machine\<close>

text \<open>A naming of the store in which nothing is reserved.\<close>

definition plain_names :: name_ops where
  "plain_names = \<lparr>nm_reserved = (\<lambda>_ _. False), nm_root_name = (\<lambda>p. p)\<rparr>"

definition blank_record :: "unit job_record" where
  "blank_record = \<lparr>j_id = ''j1'', j_kind = ''download'', j_state = StateRunning, j_requires = [],
     j_spec = (), j_checkpoint = (), j_content = [],
     j_progress = \<lparr>p_done = 0, p_total = 0, p_updated = 0, p_step = None\<rparr>,
     j_lease = \<lparr>l_owner = ''o'', l_epoch = 1, l_expires = 10\<rparr>, j_delegation = None,
     j_want = WantRun, j_error = [], j_extensions = (\<lambda>k. None)\<rparr>"

text \<open>A small store with one job, one machine that fetches three bytes, and the run of that job.\<close>

definition demo_spec :: "string option \<Rightarrow> spec" where
  "demo_spec net = \<lparr>sp_artifact = \<lparr>a_digest = ''sha256:'' @ replicate 64 (CHR ''a''), a_size = 3\<rparr>,
     sp_sources = [\<lparr>s_scheme = ''https'', s_locator = ''https://h/a'', s_attrs = [], s_headers = [], s_priority = 0\<rparr>],
     sp_sink = \<lparr>k_partial = ''work/j1'', k_final = ''a''\<rparr>, sp_request = [], sp_constraints = net\<rparr>"

definition demo_record :: "string option \<Rightarrow> ref_doc job_record" where
  "demo_record net = \<lparr>j_id = ''j1'', j_kind = Kind, j_state = StatePending, j_requires = [],
     j_spec = SpecDoc (demo_spec net), j_checkpoint = NoDoc, j_content = [],
     j_progress = \<lparr>p_done = 0, p_total = 0, p_updated = 0, p_step = None\<rparr>,
     j_lease = \<lparr>l_owner = [], l_epoch = 0, l_expires = 0\<rparr>, j_delegation = None,
     j_want = WantRun, j_error = [], j_extensions = (\<lambda>k. None)\<rparr>"

definition demo_claimed :: "string option \<Rightarrow> ref_doc job_record" where
  "demo_claimed net = (demo_record net)\<lparr>j_lease := \<lparr>l_owner = ''o'', l_epoch = 1, l_expires = 31\<rparr>, j_state := StateRunning\<rparr>"

definition demo_names :: name_ops where
  "demo_names = \<lparr>nm_reserved = (\<lambda>a b. False), nm_root_name = (\<lambda>p. [])\<rparr>"

definition demo_conf :: "cost option \<Rightarrow> (ref_doc map_store, ref_doc) run_conf" where
  "demo_conf net = \<lparr>rc_low = id, rc_qt = id, rc_enc = id, rc_dec = (\<lambda>_. None), rc_names = demo_names, rc_root = Some ''/srv'',
     rc_shared = False, rc_conns = 1, rc_network = map_option Inr net, rc_list = (\<lambda>_. Inr []), rc_refusal = None,
     rc_same = (=), rc_terminal = None, rc_cause = True\<rparr>"

definition demo_env :: "(ref_doc map_store, ref_doc) run_env" where
  "demo_env = \<lparr>en_ranges = ref_ranges, en_docs = ref_docs, en_store = map_ops, en_id = ''j1'', en_epoch = 1,
     en_every = 8, en_timed = False\<rparr>"

definition demo_fetcher :: "string \<Rightarrow> fetch_fun fetcher" where
  "demo_fetcher body = \<lparr>fe_schemes = [''https''], fe_capabilities = [],
     fe_fetch = (\<lambda>k rq. ([Write body (length body)], int (length body), None)), fe_ranges = None\<rparr>"

definition demo_open :: "string \<Rightarrow> fetch_fun open_env" where
  "demo_open body = \<lparr>op_allows = (\<lambda>_. None), op_reach = (\<lambda>_. None), op_headers = (\<lambda>_. Inr []),
     op_fetchers = [demo_fetcher body], op_requires = []\<rparr>"

definition demo_io :: io_env where
  "demo_io = \<lparr>io_truncate = None, io_open = None, io_seek = (\<lambda>_ _. None), io_sync = None, io_close = None,
     io_read = None, io_fence = None, io_done = None, io_now = 5\<rparr>"

definition demo_deliver :: deliver_io where
  "demo_deliver = \<lparr>dv_mkdir = None, dv_rename = None, dv_open = None, dv_create = None, dv_copy = None,
     dv_close = None, dv_remove = None\<rparr>"

definition demo_events :: "ref_doc map_store run_events" where
  "demo_events = \<lparr>rv_ctx = None, rv_mkdir = None, rv_fence = None, rv_noticed = None, rv_tripped = False, rv_sweep = None,
     rv_done = None, rv_now = 6, rv_others = (\<lambda>s. s)\<rparr>"

definition demo_sha :: "string \<Rightarrow> string" where
  "demo_sha c = (if c = ''abc'' then replicate 64 (CHR ''a'') else replicate 64 (CHR ''b''))"

definition demo_machine :: "ref_doc map_store machine" where
  "demo_machine = \<lparr>mc_sha = demo_sha, mc_opens = (\<lambda>_. demo_open ''abc''), mc_plan = demo_open ''abc'',
     mc_parallel = (\<lambda>_ _ _ w. ((0, None), w, None)), mc_io = demo_io, mc_deliver = demo_deliver, mc_events = demo_events\<rparr>"

definition demo_world :: "string option \<Rightarrow> ref_doc map_store world" where
  "demo_world net = \<lparr>w_files = (\<lambda>_. None), w_store = \<lparr>ms_records = (\<lambda>_. None)(''j1'' \<mapsto> demo_record net), ms_now = 1\<rparr>\<rparr>"

definition demo_run :: "string option \<Rightarrow> ref_doc map_store machine \<Rightarrow> (err option \<times> ref_doc map_store world) option" where
  "demo_run net mc = Run (demo_conf None) demo_env mc ''o'' (demo_world net)"

definition demo_claimed_world :: "ref_doc map_store world" where
  "demo_claimed_world = \<lparr>w_files = (\<lambda>_. None),
     w_store = \<lparr>ms_records = (\<lambda>_. None)(''j1'' \<mapsto> demo_claimed None), ms_now = 1\<rparr>\<rparr>"

section \<open>A second machine\<close>

text \<open>
  A second machine: the records of a shared store, the files behind it, and the network store tier that
  hands work to it.
\<close>

definition far_record :: "job_state \<Rightarrow> ref_doc job_record" where
  "far_record st = (demo_record None)\<lparr>j_id := ''r'', j_state := st,
     j_spec := SpecDoc ((demo_spec None)\<lparr>sp_sink := \<lparr>k_partial = ''work/r'', k_final = ''files/a''\<rparr>, sp_request := ''j1''\<rparr>),
     j_lease := \<lparr>l_owner = ''box'', l_epoch = 1, l_expires = 31\<rparr>\<rparr>"

definition far_world :: "(string \<times> ref_doc job_record) list \<Rightarrow> ref_doc shared world" where
  "far_world rs = \<lparr>w_files = (\<lambda>_. None)(''/srv/files/a'' \<mapsto> File ''abc''),
     w_store = (\<lparr>ms_records = map_of rs, ms_now = 1\<rparr>, map fst rs)\<rparr>"

definition demo_hand :: "(ref_doc map_store, ref_doc, ref_doc shared world) hand" where
  "demo_hand = \<lparr>ha_conf = demo_conf None, ha_env = demo_env, ha_hosts = na_hosts map_nas, ha_refuted = [], ha_given = True,
     ha_tiers = [nas_tier map_nas], ha_reach = (\<lambda>_. None)\<rparr>"

definition demo_handing :: "err option \<times> ref_doc map_store world \<times> ref_doc shared world" where
  "demo_handing = Delegate demo_hand ''o'' (demo_world None) (far_world [])"

definition handed_record :: "string \<Rightarrow> ref_doc job_record" where
  "handed_record ext = (demo_record None)\<lparr>j_state := StateRunning,
     j_delegation := Some \<lparr>d_system = ''nas'', d_external = ext, d_delivered = False\<rparr>\<rparr>"

definition handed_scene :: "ref_doc job_record \<Rightarrow> ref_doc shared world \<Rightarrow> (ref_doc map_store, ref_doc shared world) scene" where
  "handed_scene rec far = \<lparr>sc_world = \<lparr>w_files = (\<lambda>_. None), w_store = \<lparr>ms_records = (\<lambda>_. None)(''j1'' \<mapsto> rec), ms_now = 1\<rparr>\<rparr>,
     sc_ext = far, sc_refuted = [], sc_abandoned = []\<rparr>"

definition quiet_finish :: "ref_doc map_store finish_io" where
  "quiet_finish = \<lparr>fi_start = 1, fi_gap = (\<lambda>_. []), fi_shown = (\<lambda>_. 2), fi_verify = 3, fi_open = None, fi_piece = (\<lambda>_. 2),
     fi_disk = (\<lambda>_. None), fi_chunk = (\<lambda>_. []), fi_time = (\<lambda>_. 4), fi_after = [], fi_end = 5\<rparr>"

definition demo_sup :: "(ref_doc map_store, ref_doc) sup_conf" where
  "demo_sup = (map_sup True)\<lparr>sv_hex := demo_sha\<rparr>"

definition demo_sweep :: "ref_doc job_record \<Rightarrow> ref_doc shared world \<Rightarrow>
    err option \<times> (ref_doc map_store, ref_doc shared world) scene" where
  "demo_sweep rec far = Reconcile demo_hand demo_sup quiet_finish ''j1'' (handed_scene rec far)"

lemma demo_layer: "sweep_layer ref_ranges ref_docs map_ops demo_sup"
proof -
  have eq: "sv_claim_from demo_sup = sv_claim_from (map_sup True)" by (simp add: demo_sup_def)
  show ?thesis unfolding sweep_layer_def sweep_layer_axioms_def eq
    by (rule sweep_layer_map [of True, unfolded sweep_layer_def sweep_layer_axioms_def])
qed

lemma demo_hand_env [simp]:
  "ha_env demo_hand = demo_env" "ha_tiers demo_hand = [nas_tier map_nas]" "ha_conf demo_hand = demo_conf None"
  "en_store demo_env = map_ops" "en_ranges demo_env = ref_ranges" "en_docs demo_env = ref_docs" "en_id demo_env = ''j1''"
  by (simp_all add: demo_hand_def demo_env_def)

lemma demo_our_hand: "sweep_layer.our_hand ref_ranges ref_docs map_ops demo_hand"
  by (simp add: sweep_layer.our_hand_def [OF demo_layer])

lemma map_nas_fields [simp]:
  "na_root map_nas = ''//box/store''" "na_dir map_nas = ''files''" "na_store_root map_nas = Some ''/srv''" "na_uni map_nas = id"
  "na_names map_nas = \<lparr>nm_reserved = \<lambda>_ _. False, nm_root_name = id\<rparr>"
  "na_docs map_nas = ref_docs" "na_store map_nas = shared_ops" "na_more map_nas = shared_more" "na_owner map_nas = ''nas''"
  "na_mkdir map_nas = None" "ho_name (na_hosts map_nas) = (\<lambda>_. None)"
  by (simp_all add: map_nas_def)

lemma nas_tier_fields [simp]:
  "dg_system (nas_tier N) = ''nas''" "dg_schemes (nas_tier N) = [''http'', ''https'']" "dg_start (nas_tier N) = nas_start N"
  "dg_caps (nas_tier N) = [CapSurvivesProcessExit, CapRecoverableSubmission, CapVerifies, CapDelegates]"
  "dg_poll (nas_tier N) = nas_poll N" "dg_reports (nas_tier N) = Some (FinalizeReporting N)" "dg_abandon (nas_tier N) = nas_abandon N"
  "dg_locate (nas_tier N) = Some (nas_locate N)" "dg_declared (nas_tier N) = None" "dg_selective (nas_tier N) = Some (CanServe N)"
  by (simp_all add: nas_tier_def)

definition demo_job :: spec where
  "demo_job = (demo_spec None)\<lparr>sp_sink := \<lparr>k_partial = ''/srv/work/j1'', k_final = ''/srv/a''\<rparr>, sp_request := ''j1''\<rparr>"

lemma demo_sink:
  "LocalSink demo_names (Some ''/srv'') ''j1'' (sp_sink (demo_spec None)) = Inr (''/srv/work/j1'', ''/srv/a'')" by code_simp
lemma demo_submit: "submitAs id \<lparr>nm_reserved = \<lambda>_ _. False, nm_root_name = id\<rparr> ''r''
   (demo_job\<lparr>sp_sink := \<lparr>k_partial = [], k_final = path_join ''files'' (path_base (k_final (sp_sink demo_job)))\<rparr>\<rparr>) =
   Inr (demo_job\<lparr>sp_sink := \<lparr>k_partial = ''work/r'', k_final = ''files/a''\<rparr>\<rparr>, 3)"
  by code_simp

lemma demo_for: "ForSpec (na_hosts map_nas) [] [nas_tier map_nas] (demo_spec None) (hd (sp_sources (demo_spec None))) [] = Some (nas_tier map_nas)"
proof -
  have "PortableSink (sp_sink (demo_spec None))" "s_scheme (hd (sp_sources (demo_spec None))) = ''https''" by code_simp+
  then show ?thesis
    by (simp add: ForSpec_def eligible_def suits_def declined_def recoveryRefusal_def hasAllCaps_def CanServe_def ThisMachine_def list_ex_iff)
qed
definition asked_record :: "ref_doc job_record" where
  "asked_record = (new_record NoDoc ''r'' [] 3)
     \<lparr>j_spec := SpecDoc (demo_job\<lparr>sp_sink := \<lparr>k_partial = ''work/r'', k_final = ''files/a''\<rparr>\<rparr>)\<rparr>"

lemma demo_start:
  "nas_start map_nas demo_job 0 (far_world []) = (Inr ''r'', far_world [(''r'', asked_record)])"
  using demo_submit
  by (simp add: asked_record_def nas_start_def Available_def Submit_def far_world_def shared_more_def shared_submit_def map_write_def Let_def new_record_def fun_eq_iff)

lemma demo_handed:
  "\<exists>w. demo_handing = (None, w, far_world [(''r'', asked_record)])"
  (is "\<exists>w. _ = (None, w, ?far)")
proof -
  define E where "E = demo_env\<lparr>en_epoch := 1\<rparr>"
  let ?A = "demo_hand\<lparr>ha_env := E\<rparr>"
  define s where "s = snd (so_claim map_ops ''j1'' ''o'' (w_store (demo_world None)))"
  let ?w = "(demo_world None)\<lparr>w_store := s\<rparr>"
  have claim: "so_claim map_ops ''j1'' ''o'' (w_store (demo_world None)) = (Inr (demo_claimed None), s)"
    by (simp add: s_def map_ops_def demo_world_def demo_record_def demo_claimed_def claimed_state_def Let_def)
  have sp: "SpecOf ref_docs (demo_claimed None) = Inr (demo_spec None)"
    by (simp add: SpecOf_def demo_claimed_def demo_record_def ref_docs_def)
  have cp: "CheckpointOf ref_ranges ref_docs (demo_claimed None) = Inr no_checkpoint"
    by code_simp
  have pr: "proven (demo_conf None) ref_docs ?w (a_digest (sp_artifact (demo_spec None))) ''j1'' = []" unfolding s_def by code_simp
  have dl: "j_delegation (demo_claimed None) = None" "j_requires (demo_claimed None) = []" "l_epoch (j_lease (demo_claimed None)) = 1"
    by code_simp+
  have rc: "rc_names (demo_conf None) = demo_names" "rc_root (demo_conf None) = Some ''/srv''" "ha_given demo_hand" "ha_reach demo_hand = (\<lambda>_. None)"
      "ha_hosts demo_hand = na_hosts map_nas" "ha_refuted demo_hand = []"
    by (simp_all add: demo_conf_def demo_hand_def)
  have src: "sp_sources (demo_spec None) = [hd (sp_sources (demo_spec None))]" by code_simp
  have one: "(demo_spec None)\<lparr>sp_sources := [hd (sp_sources (demo_spec None))]\<rparr> = demo_spec None" by (simp add: demo_spec_def)
  have env: "en_store E = map_ops" "en_ranges E = ref_ranges" "en_docs E = ref_docs" "en_id E = ''j1''" by (simp_all add: E_def)
  define w1 where "w1 = snd (hand_over E ''nas'' ''j1'' ?w)"
  define w2 where "w2 = snd (hand_over E ''nas'' ''r'' w1)"
  have h1: "hand_over E ''nas'' ''j1'' ?w = (None, w1)"
    unfolding w1_def E_def s_def by (rule prod_eqI) (code_simp, simp)
  have h2: "hand_over E ''nas'' ''r'' w1 = (None, w2)"
    unfolding w2_def w1_def E_def s_def by (rule prod_eqI) (code_simp, simp)
  have job: "(demo_spec None)\<lparr>sp_sink := \<lparr>k_partial = ''/srv/work/j1'', k_final = ''/srv/a''\<rparr>, sp_request := ''j1''\<rparr> = demo_job"
    by (simp add: demo_job_def)
  have to: "delegate_to E (nas_tier map_nas) demo_job 0 ?w (far_world []) = (Some None, drop_lease E w2, ?far)"
    using h1 h2 demo_start by (simp add: delegate_to_def start_on_def env)
  have "delegate_from ?A (demo_spec None) [] 0 ''/srv/work/j1'' ''/srv/a'' [hd (sp_sources (demo_spec None))] [] ?w (far_world [])
      = (None, drop_lease E w2, ?far)"
    using to demo_for by (simp add: rc one env job Let_def)
  moreover have "delegate_claimed ?A (demo_claimed None) ?w (far_world []) =
     delegate_from ?A (demo_spec None) [] 0 ''/srv/work/j1'' ''/srv/a'' (sp_sources (demo_spec None)) [] ?w (far_world [])"
    using sp cp pr dl demo_sink by (simp add: delegate_claimed_def Let_def no_checkpoint_def rc env)
  ultimately have "delegate_claimed ?A (demo_claimed None) ?w (far_world []) = (None, drop_lease E w2, ?far)"
    using src by simp
  then have "demo_handing = (None, drop_lease E w2, ?far)"
    using claim dl(3) by (simp add: demo_handing_def Delegate_def rc E_def)
  then show ?thesis by blast
qed


section \<open>A delegate that answers one thing\<close>

text \<open>It cannot be asked what it took, hands over three bytes, and polls as it is told to.\<close>

definition box_tier :: "status \<Rightarrow> unit tier" where
  "box_tier st = \<lparr>dg_system = ''nas'', dg_schemes = [''https''], dg_caps = [], dg_start = (\<lambda>_ _ x. (Inr ''r'', x)),
     dg_poll = (\<lambda>_ x. (Inr st, x)), dg_finalize = (\<lambda>_ _ x. ((None, Some ''abc''), x)), dg_reports = None,
     dg_abandon = (\<lambda>_ x. (None, x)), dg_locate = None, dg_suspend = None, dg_declared = None, dg_selective = None, dg_refuser = None\<rparr>"

definition box_hand :: "status \<Rightarrow> (ref_doc map_store, ref_doc, unit) hand" where
  "box_hand st = \<lparr>ha_conf = demo_conf None, ha_env = demo_env, ha_hosts = \<lparr>ho_name = (\<lambda>_. None), ho_loop = (\<lambda>_. None), ho_fold = (=)\<rparr>,
     ha_refuted = [], ha_given = True, ha_tiers = [box_tier st], ha_reach = (\<lambda>_. None)\<rparr>"

definition box_scene :: "ref_doc job_record \<Rightarrow> (ref_doc map_store, unit) scene" where
  "box_scene rec = \<lparr>sc_world = \<lparr>w_files = (\<lambda>_. None), w_store = \<lparr>ms_records = (\<lambda>_. None)(''j1'' \<mapsto> rec), ms_now = 1\<rparr>\<rparr>,
     sc_ext = (), sc_refuted = [], sc_abandoned = []\<rparr>"

definition box_sweep :: "status \<Rightarrow> ref_doc job_record \<Rightarrow> err option \<times> (ref_doc map_store, unit) scene" where
  "box_sweep st rec = Reconcile (box_hand st) demo_sup quiet_finish ''j1'' (box_scene rec)"

definition arrived :: status where
  "arrived = \<lparr>su_state = DelegateTransferred, su_done = 3, su_total = 3, su_err = [], su_permanent = False, su_suspended = False\<rparr>"

definition gave_up :: status where
  "gave_up = \<lparr>su_state = DelegateFailed, su_done = 0, su_total = 3, su_err = ''no such file'', su_permanent = True, su_suspended = False\<rparr>"

lemma box_hand_env [simp]:
  "ha_env (box_hand st) = demo_env" "ha_tiers (box_hand st) = [box_tier st]" "ha_conf (box_hand st) = demo_conf None"
  by (simp_all add: box_hand_def)

end
