(* ===== verification/Same_Path.thy ===== *)
theory Same_Path
  imports Go_Path Go_Text
begin

text \<open>
  Whether two paths name one file: \<open>go/samepath.go\<close>. The question belongs to the volume, so what the file
  system answers is an argument: what is at a path, whether two existing paths are one file, and whether a
  directory folds two names together. The working directory is rooted, so every path compared is the
  list of its elements.
\<close>

section \<open>What the file system answers\<close>

datatype seen = Missing | Unseen | Here bool

text \<open>\<open>Here\<close> says whether it is a directory; \<open>Unseen\<close> is a \<open>Stat\<close> that failed for another reason.\<close>

record path_fs =
  pf_cwd :: string
  pf_seen :: "string \<Rightarrow> seen"
  pf_same :: "string \<Rightarrow> string \<Rightarrow> bool"
  pf_folds :: "string \<Rightarrow> string \<Rightarrow> string \<Rightarrow> bool"

definition path_abs :: "path_fs \<Rightarrow> string \<Rightarrow> string" where
  "path_abs F p = (if prefix [slash] p then path_clean p else path_join (pf_cwd F) p)"

definition of_elems :: "string list \<Rightarrow> string" where
  "of_elems es = slash # str_join [slash] es"

section \<open>Names\<close>

definition asciiLower :: "char \<Rightarrow> char" where
  "asciiLower c = (if is_upper c then char_of (byte_of c + 32) else c)"

definition isASCII :: "string \<Rightarrow> bool" where
  "isASCII s = list_all (\<lambda>c. byte_of c < 128) s"

definition mayFold :: "string \<Rightarrow> string \<Rightarrow> bool" where
  "mayFold x y = (if \<not> isASCII x \<or> \<not> isASCII y then True
     else if length x \<noteq> length y then False
     else list_all2 (\<lambda>a b. asciiLower a = asciiLower b) x y)"

text \<open>Elements are kept last first, so that the parent is the tail.\<close>

fun nearestDir :: "path_fs \<Rightarrow> string list \<Rightarrow> string" where
  "nearestDir F [] = (if pf_seen F (of_elems []) = Here True then of_elems [] else [])"
| "nearestDir F (e # up) =
     (if pf_seen F (of_elems (rev (e # up))) = Here True then of_elems (rev (e # up)) else nearestDir F up)"

section \<open>Asking the volume\<close>

text \<open>
  \<open>foldsTogether\<close>: the answers so far are kept for the process. \<open>pb_ready\<close>: the name of our own could be
  drawn, created and looked at; \<open>pb_other d x y\<close>: with \<open>x\<close> made in \<open>d\<close>, \<open>y\<close> is there and is that file.
\<close>

record probe_io =
  pb_seed :: bool
  pb_create :: "string \<Rightarrow> bool"
  pb_stat :: "string \<Rightarrow> bool"
  pb_other :: "string \<Rightarrow> string \<Rightarrow> string \<Rightarrow> bool"

fun str_less :: "string \<Rightarrow> string \<Rightarrow> bool" where
  "str_less [] ys = (ys \<noteq> [])"
| "str_less (x # xs) [] = False"
| "str_less (x # xs) (y # ys) = (byte_of x < byte_of y \<or> x = y \<and> str_less xs ys)"

definition fold_key :: "string \<Rightarrow> string \<Rightarrow> string \<Rightarrow> string" where
  "fold_key d x y = d @ [CHR 0x00] @ x @ [CHR 0x00] @ y"

definition foldsTogether ::
  "probe_io \<Rightarrow> string \<Rightarrow> string \<Rightarrow> string \<Rightarrow> (string \<Rightarrow> bool option) \<Rightarrow> bool \<times> (string \<Rightarrow> bool option)" where
  "foldsTogether P d a b folded =
     (if d = [] then (False, folded)
      else let (x, y) = (if str_less b a then (b, a) else (a, b)); key = fold_key d x y in
        case folded key of
          Some v \<Rightarrow> (v, folded)
        | None \<Rightarrow>
            if \<not> pb_seed P \<or> \<not> pb_create P d \<or> \<not> pb_stat P d then (False, folded)
            else (let same = pb_other P d x y in (same, folded(key \<mapsto> same))))"

section \<open>Two paths, one file\<close>

text \<open>What the two existences settle, if anything.\<close>

definition settled :: "path_fs \<Rightarrow> string \<Rightarrow> string \<Rightarrow> bool option" where
  "settled F a b =
     (if a = b then Some True
      else case (pf_seen F a, pf_seen F b) of
        (Here _, Here _) \<Rightarrow> Some (pf_same F a b)
      | (Missing, Missing) \<Rightarrow> None
      | _ \<Rightarrow> Some False)"

fun same_up :: "path_fs \<Rightarrow> string list \<Rightarrow> string list \<Rightarrow> bool" where
  "same_up F (na # da) (nb # db) =
     (case settled F (of_elems (rev (na # da))) (of_elems (rev (nb # db))) of
        Some ans \<Rightarrow> ans
      | None \<Rightarrow>
          if \<not> same_up F da db then False
          else if na = nb then True
          else if \<not> mayFold na nb then False
          else pf_folds F (nearestDir F da) na nb)"
| "same_up F da db =
     (case settled F (of_elems (rev da)) (of_elems (rev db)) of Some ans \<Rightarrow> ans | None \<Rightarrow> False)"

definition SamePath :: "path_fs \<Rightarrow> string \<Rightarrow> string \<Rightarrow> bool" where
  "SamePath F a b =
     (if a = [] \<or> b = [] then a = b
      else same_up F (rev (abs_elems (path_abs F a))) (rev (abs_elems (path_abs F b))))"

text \<open>The same without the filter that keeps the probe off the common path.\<close>

fun plain_up :: "path_fs \<Rightarrow> string list \<Rightarrow> string list \<Rightarrow> bool" where
  "plain_up F (na # da) (nb # db) =
     (case settled F (of_elems (rev (na # da))) (of_elems (rev (nb # db))) of
        Some ans \<Rightarrow> ans
      | None \<Rightarrow> plain_up F da db \<and> (na = nb \<or> pf_folds F (nearestDir F da) na nb))"
| "plain_up F da db =
     (case settled F (of_elems (rev da)) (of_elems (rev db)) of Some ans \<Rightarrow> ans | None \<Rightarrow> False)"

section \<open>What is relied on\<close>

text \<open>
  A volume gives every name a key and tells names apart by it; on names of ASCII alone it can only fold
  letters. Being one file is an equivalence that does not depend on the order of the question.
\<close>

lemma same_up_pairs:
  assumes "\<And>na da nb db. P da db \<Longrightarrow> P (na # da) (nb # db)" "\<And>db. P [] db" "\<And>da. P da []"
  shows "P (da :: string list) (db :: string list)"
  using assms by (induction da db rule: list_induct2') blast+

locale volume =
  fixes F :: path_fs and name_key :: "string \<Rightarrow> string \<Rightarrow> 'k"
  assumes folds_key: "\<And>d x y. pf_folds F d x y \<longleftrightarrow> d \<noteq> [] \<and> name_key d x = name_key d y"
    and ascii_key: "\<And>d x y. name_key d x = name_key d y \<Longrightarrow> isASCII x \<Longrightarrow> isASCII y \<Longrightarrow>
      map asciiLower x = map asciiLower y"
begin

lemma mayFold_needed: "pf_folds F d x y \<Longrightarrow> mayFold x y"
proof -
  assume "pf_folds F d x y"
  then have k: "name_key d x = name_key d y" using folds_key by blast
  show "mayFold x y"
  proof (cases "isASCII x \<and> isASCII y")
    case True
    with ascii_key [OF k] have m: "map asciiLower x = map asciiLower y" by blast
    then have "length x = length y" by (metis length_map)
    with m True show ?thesis by (simp add: mayFold_def list_all2_conv_all_nth) (metis nth_map)
  qed (auto simp: mayFold_def)
qed

lemma same_up_plain: "same_up F da db = plain_up F da db"
  by (induction da db rule: same_up_pairs) (auto simp: mayFold_needed split: option.split)

end

text \<open>One volume that folds the letters of ASCII, and one that folds nothing.\<close>

definition folding_fs :: path_fs where
  "folding_fs = \<lparr>pf_cwd = ''/home'', pf_seen = (\<lambda>p. if p \<in> {''/'', ''/home''} then Here True else Missing), pf_same = (=),
     pf_folds = (\<lambda>d x y. d \<noteq> [] \<and> map asciiLower x = map asciiLower y)\<rparr>"

lemma folding_volume: "volume folding_fs (\<lambda>d. map asciiLower)"
  by unfold_locales (simp_all add: folding_fs_def)

interpretation folding: volume folding_fs "\<lambda>d. map asciiLower"
  by (rule folding_volume)

section \<open>Laws\<close>

lemma same_up_refl: "same_up F da da"
  by (cases da) (simp_all add: settled_def)

text \<open>Two spellings of one cleaned path are one file, and of two files that exist only the volume speaks.\<close>

lemma SamePath_spelling:
  assumes "a \<noteq> []" "b \<noteq> []" "path_abs F a = path_abs F b"
  shows "SamePath F a b"
  using assms by (simp add: SamePath_def same_up_refl)

lemma SamePath_exists:
  assumes "a \<noteq> []" "b \<noteq> []" "pf_seen F (of_elems (abs_elems (path_abs F a))) = Here x"
    and "pf_seen F (of_elems (abs_elems (path_abs F b))) = Here y"
    and "of_elems (abs_elems (path_abs F a)) \<noteq> of_elems (abs_elems (path_abs F b))"
  shows "SamePath F a b = pf_same F (of_elems (abs_elems (path_abs F a))) (of_elems (abs_elems (path_abs F b)))"
proof -
  have s: "settled F (of_elems (abs_elems (path_abs F a))) (of_elems (abs_elems (path_abs F b))) =
      Some (pf_same F (of_elems (abs_elems (path_abs F a))) (of_elems (abs_elems (path_abs F b))))"
    using assms(3-5) by (simp add: settled_def)
  show ?thesis
    using assms(1,2) s
    by (cases "rev (abs_elems (path_abs F a))"; cases "rev (abs_elems (path_abs F b))"; simp add: SamePath_def rev_swap)
qed

text \<open>A path that exists and one that does not are two files.\<close>

lemma SamePath_half:
  assumes "a \<noteq> []" "b \<noteq> []" "pf_seen F (of_elems (abs_elems (path_abs F a))) = Here x"
    and "pf_seen F (of_elems (abs_elems (path_abs F b))) = Missing"
  shows "\<not> SamePath F a b"
proof -
  have s: "settled F (of_elems (abs_elems (path_abs F a))) (of_elems (abs_elems (path_abs F b))) = Some False"
    using assms(3,4) by (auto simp: settled_def)
  show ?thesis
    using assms(1,2) s
    by (cases "rev (abs_elems (path_abs F a))"; cases "rev (abs_elems (path_abs F b))"; simp add: SamePath_def rev_swap)
qed

text \<open>What is kept of the answers is what the volume would answer again.\<close>

definition fold_answer :: "probe_io \<Rightarrow> string \<Rightarrow> string \<Rightarrow> string \<Rightarrow> bool" where
  "fold_answer P d a b = fst (foldsTogether P d a b (\<lambda>_. None))"

definition remembers :: "probe_io \<Rightarrow> (string \<Rightarrow> bool option) \<Rightarrow> bool" where
  "remembers P folded \<longleftrightarrow> (\<forall>d x y v. CHR 0x00 \<notin> set d \<union> set x \<union> set y \<longrightarrow> folded (fold_key d x y) = Some v \<longrightarrow>
     v = pb_other P d x y)"

lemma split_at_nul:
  "CHR 0x00 \<notin> set a \<Longrightarrow> CHR 0x00 \<notin> set a' \<Longrightarrow> a @ CHR 0x00 # b = a' @ CHR 0x00 # b' \<Longrightarrow> a = a' \<and> b = b'"
proof (induction a arbitrary: a')
  case Nil
  then show ?case by (cases a') auto
next
  case (Cons c a)
  then show ?case by (cases a') auto
qed

lemma fold_key_inj:
  assumes "CHR 0x00 \<notin> set d \<union> set x \<union> set y" "CHR 0x00 \<notin> set d' \<union> set x' \<union> set y'" "fold_key d x y = fold_key d' x' y'"
  shows "d = d' \<and> x = x' \<and> y = y'"
proof -
  have "d = d' \<and> x @ CHR 0x00 # y = x' @ CHR 0x00 # y'"
    using assms split_at_nul [of d d' "x @ CHR 0x00 # y" "x' @ CHR 0x00 # y'"] by (simp add: fold_key_def)
  with assms split_at_nul [of x x' y y'] show ?thesis by simp
qed

lemma foldsTogether_remembers:
  assumes "remembers P folded" "foldsTogether P d a b folded = (v, folded')" "CHR 0x00 \<notin> set d \<union> set a \<union> set b"
  shows "remembers P folded'"
proof -
  obtain x y where xy: "(if str_less b a then (b, a) else (a, b)) = (x, y)" by (metis surj_pair)
  then have nul: "CHR 0x00 \<notin> set d \<union> set x \<union> set y" using assms(3) by (auto split: if_splits)
  have "folded' = folded \<or> folded' = folded(fold_key d x y \<mapsto> pb_other P d x y)"
    using assms(2) xy by (auto simp: foldsTogether_def Let_def split: if_splits option.splits prod.splits)
  then show ?thesis
  proof
    assume "folded' = folded(fold_key d x y \<mapsto> pb_other P d x y)"
    with assms(1) fold_key_inj [OF nul] show ?thesis unfolding remembers_def by (metis fun_upd_apply option.inject)
  qed (use assms(1) in simp)
qed

lemma foldsTogether_answer:
  assumes "remembers P folded" "CHR 0x00 \<notin> set d \<union> set a \<union> set b" "pb_seed P" "pb_create P d" "pb_stat P d"
  shows "fst (foldsTogether P d a b folded) = fold_answer P d a b"
proof -
  obtain x y where xy: "(if str_less b a then (b, a) else (a, b)) = (x, y)" by (metis surj_pair)
  then have nul: "CHR 0x00 \<notin> set d \<union> set x \<union> set y" using assms(2) by (auto split: if_splits)
  have "folded (fold_key d x y) = None \<or> folded (fold_key d x y) = Some (pb_other P d x y)"
    using assms(1) nul unfolding remembers_def by (cases "folded (fold_key d x y)") blast+
  then show ?thesis using assms(3-5) xy by (auto simp: foldsTogether_def fold_answer_def Let_def)
qed

end
