(* ===== verification/Drop_Folder.thy ===== *)
theory Drop_Folder
  imports Checkpoints Streaming Record_State
begin

text \<open>
  The drop folder: \<open>go/wanted.go\<close>. A text file put there is a request; it is read as downloads, submitted, and
  answered by giving the file another name. What a dropped file may ask for is less than what a record may
  carry, for anyone who can write to the share can write here.

  The folder is part of the files of the world. What can go wrong with one file operation is an argument.
\<close>

section \<open>Reading a request\<close>

definition FilesDir :: string where "FilesDir = ''files''"
definition wantedDir :: string where "wantedDir = ''wanted''"
definition requestLimit :: int where "requestLimit = 64 * 1024"
definition Accepted :: string where "Accepted = ''.accepted''"
definition Done :: string where "Done = ''.done''"
definition Failed :: string where "Failed = ''.failed''"
definition Refused :: string where "Refused = ''.refused''"

text \<open>\<open>nameFrom\<close> and \<open>schemeFrom\<close> of \<open>go/client.go\<close>.\<close>

definition nameFrom :: "string \<Rightarrow> string" where
  "nameFrom locator =
     (let locator = (case str_index ''?'' locator of Some i \<Rightarrow> take i locator | None \<Rightarrow> locator);
          name = path_base locator
      in if name = [] \<or> name = [slash] \<or> name = dot then ''download.bin'' else name)"

definition schemeFrom :: "string \<Rightarrow> string" where
  "schemeFrom locator = (case str_index ''://'' locator of
     Some i \<Rightarrow> if 0 < i then take i locator else ''https'' | None \<Rightarrow> ''https'')"

text \<open>\<open>strings.Fields\<close>.\<close>

fun word :: "string \<Rightarrow> string \<times> string" where
  "word [] = ([], [])"
| "word (c # cs) =
     (if list_ex (\<lambda>p. prefix p (c # cs)) space_encodings then ([], c # cs)
      else case word cs of (w, r) \<Rightarrow> (c # w, r))"

lemma word_shorter: "word s = (w, r) \<Longrightarrow> length r \<le> length s"
  by (induction s arbitrary: w r) (auto split: if_splits prod.splits)

lemma trim_left_shorter: "length (trim_left s) \<le> length s"
proof (induction s rule: trim_left.induct)
  case (1 s)
  show ?case
  proof (cases "s = []")
    case False
    show ?thesis
    proof (cases "find (\<lambda>p. prefix p s) space_encodings")
      case None
      with False show ?thesis by (simp add: trim_left.simps)
    next
      case (Some p)
      with 1 [OF False Some] False show ?thesis by (simp add: trim_left.simps [of s])
    qed
  qed simp
qed

function words_of :: "string \<Rightarrow> string list" where
  "words_of s = (case trim_left s of [] \<Rightarrow> [] | c # cs \<Rightarrow> (c # fst (word cs)) # words_of (snd (word cs)))"
  by pat_completeness auto
termination
proof (relation "measure length")
  fix s c cs
  assume "trim_left s = c # cs"
  then have "length (c # cs) \<le> length s" using trim_left_shorter [of s] by simp
  moreover have "length (snd (word cs)) \<le> length cs" using word_shorter [of cs] by (cases "word cs") simp
  ultimately show "(snd (word cs), s) \<in> measure length" by simp
qed simp

declare words_of.simps [simp del]

definition line_feed :: char where "line_feed = CHR 0x0A"

definition intoWanted :: "name_ops \<Rightarrow> string \<Rightarrow> bool" where
  "intoWanted nm p = (case str_cut [slash] (path_clean (replace_char backslash slash p)) of
     (first, _, _) \<Rightarrow> nm_root_name nm first = wantedDir)"

definition wantedSink :: "name_ops \<Rightarrow> string \<Rightarrow> err option" where
  "wantedSink nm p =
     (if p = [] then None
      else if \<not> relativeEverywhere p then Some (Errorf [Lit ''destination is outside the store: '', Str p])
      else if EscapesRoot p \<noteq> None then Some (Errorf [Lit ''destination escapes the store: '', Str p])
      else if ReservedSink nm [] p \<noteq> None then Some (Errorf [Lit ''destination is reserved by the store: '', Str p])
      else if intoWanted nm p then Some (Errorf [Lit ''destination is the drop folder itself: '', Str p])
      else None)"

fun wanted_paths :: "name_ops \<Rightarrow> string list \<Rightarrow> err option" where
  "wanted_paths nm [] = None"
| "wanted_paths nm (p # ps) = (case wantedSink nm p of Some e \<Rightarrow> Some e | None \<Rightarrow> wanted_paths nm ps)"

fun wanted_sources :: "int \<Rightarrow> source list \<Rightarrow> err option" where
  "wanted_sources i [] = None"
| "wanted_sources i (src # rest) =
     (if s_scheme src \<noteq> ''http'' \<and> s_scheme src \<noteq> ''https'' then
        Some (Errorf [Lit ''source '', Num (i + 1), Lit '': '', Str (s_scheme src),
          Lit '' is not fetched for a dropped request, only http and https''])
      else if s_attrs src \<noteq> [] \<or> s_headers src \<noteq> [] then
        Some (Errorf [Lit ''source '', Num (i + 1), Lit '': a dropped request names no credential and sets no header''])
      else wanted_sources (i + 1) rest)"

definition wantedSpec :: "(string \<Rightarrow> string) \<Rightarrow> name_ops \<Rightarrow> spec \<Rightarrow> err option" where
  "wantedSpec uni nm s =
     (case wanted_paths nm [k_final (sp_sink s), k_partial (sp_sink s)] of
        Some e \<Rightarrow> Some e
      | None \<Rightarrow> (case wanted_sources 0 (sp_sources s) of Some e \<Rightarrow> Some e | None \<Rightarrow> Validate uni nm s))"

text \<open>The words of a line after its URL: at most one digest and one destination, in either order.\<close>

fun wanted_words :: "(string \<Rightarrow> string) \<Rightarrow> string list \<Rightarrow> string \<Rightarrow> string \<Rightarrow> err + (string \<times> string)" where
  "wanted_words uni [] digest dest = Inr (digest, dest)"
| "wanted_words uni (x # xs) digest dest =
     (if NormalDigest uni x \<noteq> [] \<and> digest = [] then wanted_words uni xs (NormalDigest uni x) dest
      else if prefix ''sha256:'' (to_lower uni x) then Inl (Errorf [Lit ''digest is not sha256:<64 hex>: '', Str x])
      else if dest = [] then wanted_words uni xs digest x
      else Inl (Errorf [Lit ''one destination per line: '', Str x]))"

definition plain_spec :: "string \<Rightarrow> string \<Rightarrow> string \<Rightarrow> string \<Rightarrow> spec" where
  "plain_spec digest scheme locator final =
     \<lparr>sp_artifact = \<lparr>a_digest = digest, a_size = 0\<rparr>,
      sp_sources = [\<lparr>s_scheme = scheme, s_locator = locator, s_attrs = [], s_headers = [], s_priority = 0\<rparr>],
      sp_sink = \<lparr>k_partial = [], k_final = final\<rparr>, sp_request = [], sp_constraints = None\<rparr>"

definition wantedLine :: "(string \<Rightarrow> string) \<Rightarrow> name_ops \<Rightarrow> string \<Rightarrow> err + spec" where
  "wantedLine uni nm line =
     (let f = words_of line; locator = hd f in
      if \<not> str_contains locator ''://'' then Inl (Errorf [Lit ''not a URL: '', Str locator])
      else bind_result (wanted_words uni (tl f) [] []) (\<lambda>(digest, dest).
        let dest = (if dest = [] then FilesDir @ [slash] else dest);
            dest = (if suffix [slash] dest \<or> suffix [backslash] dest then dest @ nameFrom locator else dest);
            s = plain_spec digest (schemeFrom locator) locator (Portable dest)
        in case wantedSpec uni nm s of Some e \<Rightarrow> Inl e | None \<Rightarrow> Inr s))"

definition numbered_lines :: "string \<Rightarrow> (nat \<times> string) list" where
  "numbered_lines text =
     filter (\<lambda>(n, line). line \<noteq> [] \<and> \<not> prefix ''#'' line)
       (map (\<lambda>(i, raw). (i + 1, trim_space raw)) (enumerate 0 (split_on line_feed text)))"

fun wanted_lines :: "(string \<Rightarrow> string) \<Rightarrow> name_ops \<Rightarrow> (nat \<times> string) list \<Rightarrow> err + spec list" where
  "wanted_lines uni nm [] = Inr []"
| "wanted_lines uni nm ((n, l) # ls) =
     (case wantedLine uni nm l of
        Inl e \<Rightarrow> Inl (Errorf [Err (Var ErrRequestRefused), Lit '': line '', Num (int n), Lit '': '', Shown e])
      | Inr s \<Rightarrow> bind_result (wanted_lines uni nm ls) (\<lambda>ss. Inr (s # ss)))"

text \<open>\<open>unmarshal\<close> is \<open>json.Unmarshal\<close> into a \<open>Spec\<close>.\<close>

definition ParseWanted ::
  "(string \<Rightarrow> string) \<Rightarrow> name_ops \<Rightarrow> (string \<Rightarrow> err + spec) \<Rightarrow> string \<Rightarrow> err + spec list" where
  "ParseWanted uni nm unmarshal text =
     (let lines = numbered_lines text in
      if lines = [] then Inl (Errorf [Err (Var ErrRequestRefused), Lit '': nothing to fetch''])
      else if prefix ''{'' (snd (hd lines)) then
        (let b = concat (map (\<lambda>l. snd l @ [line_feed]) lines) in
         case RefuseDeepNesting b of
           Some e \<Rightarrow> Inl (Errorf [Err (Var ErrRequestRefused), Lit '': not a spec: '', Shown e])
         | None \<Rightarrow>
             (case unmarshal b of
                Inl e \<Rightarrow> Inl (Errorf [Err (Var ErrRequestRefused), Lit '': not a spec: '', Shown e])
              | Inr s \<Rightarrow>
                  (case wantedSpec uni nm s of
                     Some e \<Rightarrow> Inl (Errorf [Err (Var ErrRequestRefused), Lit '': spec: '', Shown e])
                   | None \<Rightarrow> Inr [s])))
      else wanted_lines uni nm lines)"

section \<open>The folder\<close>

text \<open>
  \<open>dp_stamp\<close> is the time printed; \<open>dp_rename\<close> and \<open>dp_write\<close> the error of one rename or write; a write that
  fails may leave its first bytes. \<open>dp_qt\<close> quotes.
\<close>

record ('s, 'd) drop_ops =
  dp_root :: "string option"
  dp_uni :: "string \<Rightarrow> string"
  dp_qt :: "string \<Rightarrow> string"
  dp_names :: name_ops
  dp_docs :: "'d doc_ops"
  dp_unmarshal :: "string \<Rightarrow> err + spec"
  dp_load :: "string \<Rightarrow> 's \<Rightarrow> err + 'd job_record"
  dp_submit :: "spec \<Rightarrow> 's \<Rightarrow> (err + string) \<times> 's"
  dp_mkdir :: "err option"
  dp_list :: "err + (string \<times> bool) list"
  dp_read :: "string \<Rightarrow> err option"
  dp_rename :: "string \<Rightarrow> string \<Rightarrow> err option"
  dp_write :: "string \<Rightarrow> (nat option \<times> err) option"
  dp_stamp :: string

definition wanted_dir :: "('s, 'd) drop_ops \<Rightarrow> string \<times> err option" where
  "wanted_dir P = (let root = localRoot (dp_root P) in
     if root = [] then ([], Some (Var ErrNoLocalArea)) else (path_join root wantedDir, dp_mkdir P))"

definition wanted_list :: "('s, 'd) drop_ops \<Rightarrow> err + (string \<times> (string \<times> bool) list)" where
  "wanted_list P = (case wanted_dir P of
     (_, Some e) \<Rightarrow> Inl e | (dir, None) \<Rightarrow> bind_result (dp_list P) (\<lambda>entries. Inr (dir, entries)))"

definition isAnswered :: "string \<Rightarrow> bool" where
  "isAnswered name = list_ex (\<lambda>s. suffix s name) [Accepted, Done, Failed, Refused]"

definition ignored :: "(string \<Rightarrow> string) \<Rightarrow> string \<Rightarrow> bool" where
  "ignored uni name = (let l = to_lower uni name in
     prefix ''.'' name \<or> suffix ''~'' name \<or> l = ''desktop.ini'' \<or> l = ''thumbs.db'')"

definition trim_right_char :: "char \<Rightarrow> string \<Rightarrow> string" where
  "trim_right_char c s = rev (dropWhile (\<lambda>x. x = c) (rev s))"

definition is_answer :: "string \<Rightarrow> bool" where
  "is_answer line = (prefix ''# accepted '' line \<or> prefix ''# refused '' line)"

definition requestLines :: "string \<Rightarrow> string list" where
  "requestLines text =
     takeWhile (\<lambda>line. \<not> is_answer line)
       (map (trim_right_char (CHR 0x0D)) (split_on line_feed (trim_right_char line_feed text)))"

text \<open>\<open>filepath.Dir\<close>.\<close>

definition path_dir :: "string \<Rightarrow> string" where
  "path_dir p = path_clean (rev (dropWhile (\<lambda>c. c \<noteq> slash) (rev p)))"

definition rename_file :: "('s, 'd) drop_ops \<Rightarrow> string \<Rightarrow> string \<Rightarrow> (string \<Rightarrow> node option) \<Rightarrow> err option \<times> (string \<Rightarrow> node option)" where
  "rename_file P a b fs =
     (case fs a of
        None \<Rightarrow> (Some (Foreign (''rename '' @ a) False [OsNotExist]), fs)
      | Some n \<Rightarrow> (case dp_rename P a b of Some e \<Rightarrow> (Some e, fs) | None \<Rightarrow> (None, fs(a := None, b \<mapsto> n))))"

definition unlines :: "string list \<Rightarrow> string" where
  "unlines ls = str_join [line_feed] ls @ [line_feed]"

definition tmp_name :: "string \<Rightarrow> string" where
  "tmp_name p = path_join (path_dir p) (''.'' @ path_base p @ ''.tmp'')"

definition write_lines :: "('s, 'd) drop_ops \<Rightarrow> string \<Rightarrow> string list \<Rightarrow> (string \<Rightarrow> node option) \<Rightarrow> err option \<times> (string \<Rightarrow> node option)" where
  "write_lines P p ls fs =
     (let tmp = tmp_name p; text = unlines ls in
      case dp_write P tmp of
        Some (None, e) \<Rightarrow> (Some e, fs)
      | Some (Some n, e) \<Rightarrow> (Some e, fs(tmp \<mapsto> File (take n text)))
      | None \<Rightarrow> rename_file P tmp p (fs(tmp \<mapsto> File text)))"

definition answer_file :: "('s, 'd) drop_ops \<Rightarrow> string \<Rightarrow> string \<Rightarrow> string list \<Rightarrow> (string \<Rightarrow> node option) \<Rightarrow> (string \<Rightarrow> node option)" where
  "answer_file P from to ls fs = (case write_lines P to ls fs of (None, fs) \<Rightarrow> fs(from := None) | (Some _, fs) \<Rightarrow> fs)"

section \<open>Taking a request in\<close>

fun submit_wanted :: "('s, 'd) drop_ops \<Rightarrow> spec list \<Rightarrow> 's \<Rightarrow> (string list \<times> string list) \<times> 's" where
  "submit_wanted P [] s = (([], []), s)"
| "submit_wanted P (sp # sps) s =
     (case dp_submit P sp s of
        (Inl e, s) \<Rightarrow>
          (case submit_wanted P sps s of ((ids, ls), s) \<Rightarrow> ((ids, (''# refused: '' @ err_text (dp_qt P) e) # ls), s))
      | (Inr jid, s) \<Rightarrow>
          (case submit_wanted P sps s of ((ids, ls), s) \<Rightarrow>
             ((jid # ids, (''# job '' @ jid @ '' -> '' @ k_final (sp_sink sp)) # ls), s)))"

definition take_request :: "('s, 'd) drop_ops \<Rightarrow> string \<Rightarrow> 's world \<Rightarrow> string list \<times> 's world" where
  "take_request P p w =
     (case w_files w p of
        Some (File text) \<Rightarrow>
          if requestLimit < int (length text) then
            ([], w\<lparr>w_files := snd (rename_file P p (p @ Refused) (w_files w))\<rparr>)
          else if dp_read P p \<noteq> None then ([], w)
          else (let request = requestLines text in
            case ParseWanted (dp_uni P) (dp_names P) (dp_unmarshal P) text of
              Inl e \<Rightarrow> ([], w\<lparr>w_files := answer_file P p (p @ Refused)
                  (request @ [''# refused '' @ dp_stamp P @ '': '' @
                     trim_prefix (sentinel_text ErrRequestRefused @ '': '') (err_text (dp_qt P) e)]) (w_files w)\<rparr>)
            | Inr specs \<Rightarrow>
                (case rename_file P p (p @ Accepted) (w_files w) of
                   (Some _, fs) \<Rightarrow> ([], w\<lparr>w_files := fs\<rparr>)
                 | (None, fs) \<Rightarrow>
                     (case submit_wanted P specs (w_store w) of
                        ((ids, said), s) \<Rightarrow>
                          let lines = request @ [''# accepted '' @ dp_stamp P] @ said in
                          if ids = [] then ([], \<lparr>w_files = answer_file P (p @ Accepted) (p @ Refused) lines fs, w_store = s\<rparr>)
                          else (ids, \<lparr>w_files = snd (write_lines P (p @ Accepted) lines fs), w_store = s\<rparr>))))
      | _ \<Rightarrow> ([], w))"

fun take_each :: "('s, 'd) drop_ops \<Rightarrow> string \<Rightarrow> (string \<times> bool) list \<Rightarrow> 's world \<Rightarrow> string list \<times> 's world" where
  "take_each P dir [] w = ([], w)"
| "take_each P dir ((name, is_dir) # es) w =
     (if is_dir \<or> isAnswered name \<or> ignored (dp_uni P) name then take_each P dir es w
      else case take_request P (path_join dir name) w of
        (ids, w) \<Rightarrow> (case take_each P dir es w of (rest, w) \<Rightarrow> (ids @ rest, w)))"

definition TakeIn :: "('s, 'd) drop_ops \<Rightarrow> 's world \<Rightarrow> (err + string list) \<times> 's world" where
  "TakeIn P w = (case wanted_list P of
     Inl e \<Rightarrow> (Inl e, w) | Inr (dir, entries) \<Rightarrow> (case take_each P dir entries w of (ids, w) \<Rightarrow> (Inr ids, w)))"

section \<open>Answering it\<close>

definition em_dash :: string where "em_dash = [CHR 0xE2, CHR 0x80, CHR 0x94]"

definition orState :: "'d job_record \<Rightarrow> string" where
  "orState rec = (if j_error rec \<noteq> [] then j_error rec else state_word (j_state rec))"

text \<open>Go's quotient of 64-bit integers, the numerator possibly wrapped.\<close>

definition percent :: "int \<Rightarrow> int \<Rightarrow> int" where
  "percent done whole = (let n = wrap64 (100 * done) in if 0 \<le> n then n div whole else - ((- n) div whole))"

definition progress_line :: "('s, 'd) drop_ops \<Rightarrow> string \<Rightarrow> string \<Rightarrow> 's \<Rightarrow> string \<times> string" where
  "progress_line P jid final s =
     (case dp_load P jid s of
        Inl _ \<Rightarrow> (''# failed: '' @ final @ '' '' @ em_dash @ '' its job is gone from the store'', Failed)
      | Inr rec \<Rightarrow>
          if j_state rec = StateComplete \<or> j_state rec = StateTransferred then
            (''# done '' @ dp_stamp P @ '': '' @ final @ '', '' @ fmt_int (p_done (j_progress rec)) @ '' bytes'' @
               (case SpecOf (dp_docs P) rec of
                  Inl _ \<Rightarrow> []
                | Inr sp \<Rightarrow> if a_digest (sp_artifact sp) \<noteq> [] then '', '' @ a_digest (sp_artifact sp) @ '' verified'' else []), Done)
          else if j_state rec = StateFailed \<or> j_state rec = StateCancelled then
            (''# failed '' @ dp_stamp P @ '': '' @ final @ '' '' @ em_dash @ '' '' @ orState rec, Failed)
          else
            (''# '' @ state_word (j_state rec) @
               (if 0 < p_total (j_progress rec) then
                  '' '' @ fmt_int (percent (p_done (j_progress rec)) (p_total (j_progress rec))) @ ''%'' else []) @
               (if j_error rec \<noteq> [] then '' '' @ em_dash @ '' last attempt: '' @ j_error rec else []), []))"

definition is_job_line :: "string \<Rightarrow> bool" where "is_job_line line = prefix ''# job '' line"

text \<open>Everything through the last job line, or nothing.\<close>

definition through_last_job :: "string list \<Rightarrow> string list" where
  "through_last_job ls = rev (dropWhile (\<lambda>l. \<not> is_job_line l) (rev ls))"

definition job_progress :: "('s, 'd) drop_ops \<Rightarrow> 's \<Rightarrow> string \<Rightarrow> string \<times> string" where
  "job_progress P s line = (case str_cut '' -> '' (trim_prefix ''# job '' line) of (jid, final, _) \<Rightarrow> progress_line P jid final s)"

definition follow :: "('s, 'd) drop_ops \<Rightarrow> string \<Rightarrow> 's world \<Rightarrow> 's world" where
  "follow P p w =
     (case w_files w p of
        Some (File text) \<Rightarrow>
          if dp_read P p \<noteq> None then w
          else (let lines = split_on line_feed (trim_right_char line_feed text); kept = through_last_job lines;
                    bare = trim_suffix Accepted p in
            if kept = [] then
              w\<lparr>w_files := answer_file P p (bare @ Refused)
                (lines @ [''# refused '' @ dp_stamp P @ '': no job was recorded'']) (w_files w)\<rparr>
            else let ends = map (job_progress P (w_store w)) (filter is_job_line kept); status = map fst ends in
              if list_all (\<lambda>x. snd x = Done) ends then
                w\<lparr>w_files := answer_file P p (bare @ Done) (kept @ status) (w_files w)\<rparr>
              else if list_all (\<lambda>x. snd x = Done \<or> snd x = Failed) ends then
                w\<lparr>w_files := answer_file P p (bare @ Failed) (kept @ status) (w_files w)\<rparr>
              else if unlines (kept @ status) \<noteq> text then
                w\<lparr>w_files := snd (write_lines P p (kept @ status) (w_files w))\<rparr>
              else w)
      | _ \<Rightarrow> w)"

fun follow_each :: "('s, 'd) drop_ops \<Rightarrow> string \<Rightarrow> (string \<times> bool) list \<Rightarrow> 's world \<Rightarrow> 's world" where
  "follow_each P dir [] w = w"
| "follow_each P dir ((name, is_dir) # es) w =
     follow_each P dir es (if \<not> is_dir \<and> suffix Accepted name then follow P (path_join dir name) w else w)"

definition AnswerAll :: "('s, 'd) drop_ops \<Rightarrow> 's world \<Rightarrow> err option \<times> 's world" where
  "AnswerAll P w = (case wanted_list P of Inl e \<Rightarrow> (Some e, w) | Inr (dir, entries) \<Rightarrow> (None, follow_each P dir entries w))"

end
