(* ===== verification/Client.thy ===== *)
theory Client
  imports Adoption Nas Same_Path Drop_Folder
begin

text \<open>
  Downloading on behalf of an application: \<open>go/client.go\<close> and the two places where bytes in motion meet
  bytes at rest, \<open>alreadyHere\<close> and \<open>intoStorage\<close> of \<open>go/store.go\<close>. A submission becomes a record, or finds
  the record that already is this work, and is worked by at most one worker of the client.

  The storage of finished files, the job layer's store and the volume are arguments. A worker is the run
  loop \<open>runHere\<close>; that it is started is an entry of the client's state.
\<close>

section \<open>The client\<close>

datatype execution = ExecuteAnywhere | ExecuteHere | ExecuteDelegated

text \<open>
  \<open>sg_path\<close> is there when the store of files has a file system behind it, \<open>sg_find_all\<close> when it can list
  every copy; \<open>sg_store\<close> is the field \<open>Ref.Store\<close> and \<open>sg_read_only\<close> the error \<open>ErrReadOnly\<close>.
\<close>

record 'r shelf =
  sg_place :: "string \<Rightarrow> int \<Rightarrow> err + 'r"
  sg_path :: "('r \<Rightarrow> string) option"
  sg_find_all :: "(string \<Rightarrow> 'r list) option"
  sg_find :: "string \<Rightarrow> 'r option"
  sg_store :: "'r \<Rightarrow> string"
  sg_read_only :: err

text \<open>
  \<open>cl_listed\<close> is \<open>Store.List\<close> with the records and the error it answers, \<open>cl_claimable\<close> is \<open>Store.Claimable\<close>,
  \<open>cl_sha\<close> a SHA-256 in hex, \<open>cl_real\<close> is \<open>filepath.EvalSymlinks\<close>, \<open>cl_volume\<close> what the volume answers about
  the files there are.
\<close>

record ('s, 'd, 'x, 'r) client_conf =
  cl_conf :: "('s, 'd) run_conf"
  cl_ranges :: range_ops
  cl_docs :: "'d doc_ops"
  cl_store :: "('s, 'd) store_ops"
  cl_more :: "('s, 'd) store_more"
  cl_listed :: "'s \<Rightarrow> 'd job_record list \<times> err option"
  cl_claimable :: "'s \<Rightarrow> 'd job_record \<Rightarrow> bool"
  cl_owner :: string
  cl_shelf :: "'r shelf option"
  cl_execution :: execution
  cl_fetchers :: "fetch_fun fetcher list option"
  cl_hosts :: host_ops
  cl_refuted :: refuted_claims
  cl_tiers :: "'x tier list"
  cl_volume :: "(string \<Rightarrow> node option) \<Rightarrow> path_fs"
  cl_sha :: "string \<Rightarrow> string"
  cl_real :: "string \<Rightarrow> string option"
  cl_idle :: bool

text \<open>\<open>ct_running\<close> is the set the client keeps; \<open>ct_workers\<close> the workers that are alive, in the order they began.\<close>

record 's client =
  ct_world :: "'s world"
  ct_running :: "string set"
  ct_workers :: "string list"

abbreviation cl_names :: "('s, 'd, 'x, 'r) client_conf \<Rightarrow> name_ops" where "cl_names K \<equiv> rc_names (cl_conf K)"
abbreviation cl_root :: "('s, 'd, 'x, 'r) client_conf \<Rightarrow> string option" where "cl_root K \<equiv> rc_root (cl_conf K)"
abbreviation cl_low :: "('s, 'd, 'x, 'r) client_conf \<Rightarrow> string \<Rightarrow> string" where "cl_low K \<equiv> rc_low (cl_conf K)"
abbreviation ct_store :: "'s client \<Rightarrow> 's" where "ct_store c \<equiv> w_store (ct_world c)"
abbreviation ct_files :: "'s client \<Rightarrow> string \<Rightarrow> node option" where "ct_files c \<equiv> w_files (ct_world c)"

definition in_store :: "'s \<Rightarrow> 's client \<Rightarrow> 's client" where
  "in_store s c = c\<lparr>ct_world := (ct_world c)\<lparr>w_store := s\<rparr>\<rparr>"

lemma in_store_simps [simp]:
  "ct_running (in_store s c) = ct_running c" "ct_workers (in_store s c) = ct_workers c" "ct_store (in_store s c) = s"
  "ct_files (in_store s c) = ct_files c" "in_store s (in_store s' c) = in_store s c" "in_store (ct_store c) c = c"
  by (simp_all add: in_store_def)

text \<open>The second and the first result of \<open>LocalSink\<close>, whose error is thrown away.\<close>

definition final_for :: "('s, 'd, 'x, 'r) client_conf \<Rightarrow> string \<Rightarrow> sink \<Rightarrow> string" where
  "final_for K owner sk = (case LocalSink (cl_names K) (cl_root K) owner sk of Inl _ \<Rightarrow> [] | Inr (_, final) \<Rightarrow> final)"

definition partial_for :: "('s, 'd, 'x, 'r) client_conf \<Rightarrow> string \<Rightarrow> sink \<Rightarrow> string" where
  "partial_for K owner sk = (case LocalSink (cl_names K) (cl_root K) owner sk of Inl _ \<Rightarrow> [] | Inr (partial, _) \<Rightarrow> partial)"

section \<open>Who performs the work\<close>

definition performer :: "execution \<Rightarrow> string \<times> bool" where
  "performer ex = (if ex = ExecuteDelegated then (''nobody'', False) else (''here'', True))"

definition Where :: "('s, 'd, 'x, 'r) client_conf \<Rightarrow> string" where
  "Where K = fst (performer (cl_execution K))"

text \<open>\<open>alive\<close> is \<open>Lease.Held\<close> at this moment.\<close>

definition Performer :: "(lease \<Rightarrow> bool) \<Rightarrow> 'd job_record option \<Rightarrow> string" where
  "Performer alive shown =
     (case shown of
        None \<Rightarrow> ''nobody''
      | Some rec \<Rightarrow>
          (case j_delegation rec of
             Some d \<Rightarrow> if d_system d \<noteq> [] then d_system d
                       else if alive (j_lease rec) then l_owner (j_lease rec) else ''nobody''
           | None \<Rightarrow> if alive (j_lease rec) then l_owner (j_lease rec) else ''nobody''))"

definition noExecutor :: "execution \<Rightarrow> err option" where
  "noExecutor ex =
     (if ex \<noteq> ExecuteDelegated then None
      else Some (Errorf [Err (Var ErrNoDelegator), Lit '': nothing is watching this store'']))"

definition claimedHere :: "('s, 'd, 'x, 'r) client_conf \<Rightarrow> string \<Rightarrow> bool" where
  "claimedHere K c \<longleftrightarrow>
     (case cl_fetchers K of None \<Rightarrow> False | Some fs \<Rightarrow> list_ex (\<lambda>f. c \<in> set (fe_capabilities f)) fs) \<or>
     list_ex (\<lambda>x. c \<in> set (dg_caps x)) (cl_tiers K)"

definition capabilityNames :: string where
  "capabilityNames = str_join '', '' AllCapabilities"

fun unknownCapability :: "('s, 'd, 'x, 'r) client_conf \<Rightarrow> string list \<Rightarrow> err option" where
  "unknownCapability K [] = None"
| "unknownCapability K (w # ws) =
     (if Assured w \<noteq> None \<or> claimedHere K w then unknownCapability K ws
      else Some (Errorf [Err (Var ErrNoFetcher), Lit '': '', Quoted w, Lit '' is not a capability; this core has '', Str capabilityNames]))"

text \<open>Going through the sources: whether one is served, and the last delegate that could take one.\<close>

fun servable :: "('s, 'd, 'x, 'r) client_conf \<Rightarrow> fetch_fun fetcher list \<Rightarrow> spec \<Rightarrow> string list \<Rightarrow> source list \<Rightarrow> string \<Rightarrow> string option" where
  "servable K fs sp requires [] could = Some could"
| "servable K fs sp requires (src # srcs) could =
     (if For fs src requires \<noteq> None then None
      else case ForSpec (cl_hosts K) (cl_refuted K) (cl_tiers K) (sp\<lparr>sp_sources := [src]\<rparr>) src requires of
        None \<Rightarrow> servable K fs sp requires srcs could
      | Some d \<Rightarrow> if \<not> snd (performer (cl_execution K)) then None else servable K fs sp requires srcs (dg_system d))"

definition unservable :: "('s, 'd, 'x, 'r) client_conf \<Rightarrow> spec \<Rightarrow> string list \<Rightarrow> err option" where
  "unservable K sp requires =
     (case cl_fetchers K of
        None \<Rightarrow> None
      | Some fs \<Rightarrow>
          if requires = [] then None
          else (let wanted = str_join '' and '' requires in
            case servable K fs sp requires (sp_sources sp) [] of
              None \<Rightarrow> None
            | Some could \<Rightarrow>
                if could \<noteq> [] then
                  Some (Errorf [Err (Var ErrNoDelegator), Lit '': '', Str could, Lit '' promises '', Str wanted,
                    Lit '' and nothing is watching this store, so nothing would hand it over''])
                else Some (Errorf [Err (Var ErrNoFetcher), Lit '': nothing registered promises '', Str wanted])))"

section \<open>What a person types\<close>

definition isDirectory :: "path_fs \<Rightarrow> string \<Rightarrow> bool" where
  "isDirectory F p \<longleftrightarrow> suffix [slash] p \<or> suffix [backslash] p \<or> p = dot \<or> pf_seen F p = Here True"

definition specFor :: "path_fs \<Rightarrow> string \<Rightarrow> string \<Rightarrow> err + spec" where
  "specFor F src destination =
     (if trim_space src = [] then Inl (Errorf [Lit ''download: no source''])
      else let dest = (if destination = [] then dot else destination);
               dest = (if isDirectory F dest then path_join dest (nameFrom src) else dest)
           in Inr (plain_spec [] (schemeFrom src) src (path_abs F dest)))"

section \<open>Bytes that are here\<close>

text \<open>What \<open>add\<close> collects of the candidates; \<open>n\<close> counts what is found.\<close>

fun add_found :: "path_fs \<Rightarrow> string list \<Rightarrow> nat \<Rightarrow> source list \<Rightarrow> source list" where
  "add_found F seen n [] = []"
| "add_found F seen n (src # srcs) =
     (if s_locator src = [] \<or> list_ex (\<lambda>p. SamePath F p (s_locator src)) seen then add_found F seen n srcs
      else src\<lparr>s_priority := - 100 + int n\<rparr> # add_found F (seen @ [s_locator src]) (Suc n) srcs)"

definition stored_copies :: "'r shelf \<Rightarrow> string \<Rightarrow> source list" where
  "stored_copies G digest =
     (case sg_path G of
        None \<Rightarrow> []
      | Some path \<Rightarrow>
          (let refs = (case sg_find_all G of Some f \<Rightarrow> f digest
                       | None \<Rightarrow> (case sg_find G digest of Some r \<Rightarrow> [r] | None \<Rightarrow> []))
           in map (\<lambda>r. \<lparr>s_scheme = ''file'', s_locator = path r, s_attrs = [(''store'', sg_store G r)], s_headers = [], s_priority = 0\<rparr>) refs))"

definition alreadyHere :: "('s, 'd, 'x, 'r) client_conf \<Rightarrow> 's world \<Rightarrow> spec \<Rightarrow> spec" where
  "alreadyHere K w sp =
     (let digest = a_digest (sp_artifact sp) in
      if digest = [] then sp
      else let named = map s_locator (filter (\<lambda>src. s_scheme src = ''file'') (sp_sources sp));
               copies = (case cl_shelf K of None \<Rightarrow> [] | Some G \<Rightarrow> stored_copies G digest)
           in sp\<lparr>sp_sources := add_found (cl_volume K (w_files w)) named 0 (proven (cl_conf K) (cl_docs K) w digest [] @ copies) @ sp_sources sp\<rparr>)"

definition intoStorage :: "('s, 'd, 'x, 'r) client_conf \<Rightarrow> spec \<Rightarrow> err + spec" where
  "intoStorage K sp =
     (case cl_shelf K of
        None \<Rightarrow> Inr sp
      | Some G \<Rightarrow>
          if k_final (sp_sink sp) \<noteq> [] then Inr sp
          else bind_result (sg_place G (a_digest (sp_artifact sp)) (a_size (sp_artifact sp))) (\<lambda>ref.
            case sg_path G of
              None \<Rightarrow> Inl (sg_read_only G)
            | Some path \<Rightarrow> Inr (sp\<lparr>sp_sink := (sp_sink sp)\<lparr>k_final := path ref\<rparr>\<rparr>)))"

text \<open>The attribute \<open>job\<close> of a source, which names the record that proved it.\<close>

definition attr :: "string \<Rightarrow> source \<Rightarrow> string" where
  "attr k src = (case map_of (s_attrs src) k of Some v \<Rightarrow> v | None \<Rightarrow> [])"

definition delivered :: "('s, 'd, 'x, 'r) client_conf \<Rightarrow> 's world \<Rightarrow> spec \<Rightarrow> string" where
  "delivered K w sp =
     (let final = final_for K [] (sp_sink sp) in
      if trim_space final = [] then []
      else case find (\<lambda>src. SamePath (cl_volume K (w_files w)) (s_locator src) final)
             (proven (cl_conf K) (cl_docs K) w (a_digest (sp_artifact sp)) []) of
        None \<Rightarrow> []
      | Some src \<Rightarrow> attr ''job'' src)"

section \<open>Work that is under way\<close>

definition same_work :: "('s, 'd, 'x, 'r) client_conf \<Rightarrow> path_fs \<Rightarrow> spec \<Rightarrow> 'd job_record \<Rightarrow> bool" where
  "same_work K F sp rec \<longleftrightarrow>
     j_kind rec = Kind \<and> \<not> terminal_state (j_state rec) \<and>
     (case SpecOf (cl_docs K) rec of
        Inl _ \<Rightarrow> False
      | Inr got \<Rightarrow> sp_sources got \<noteq> [] \<and> SamePath F (k_final (sp_sink got)) (k_final (sp_sink sp)) \<and>
          s_locator (hd (sp_sources got)) = s_locator (hd (sp_sources sp)))"

definition inFlight :: "('s, 'd, 'x, 'r) client_conf \<Rightarrow> 's world \<Rightarrow> spec \<Rightarrow> string" where
  "inFlight K w sp =
     (if sp_sources sp = [] then []
      else case readable (cl_listed K (w_store w)) of
        (_, _, Some _) \<Rightarrow> []
      | (all, _, None) \<Rightarrow>
          (case find (same_work K (cl_volume K (w_files w)) sp) all of None \<Rightarrow> [] | Some rec \<Rightarrow> j_id rec))"

definition clearLastError :: "('s, 'd, 'x, 'r) client_conf \<Rightarrow> string \<Rightarrow> 's \<Rightarrow> 's" where
  "clearLastError K jid s =
     (case so_load (cl_store K) jid s of
        Inl _ \<Rightarrow> s
      | Inr rec \<Rightarrow>
          if LastFailure rec = None then s
          else case so_claim (cl_store K) jid (cl_owner K) s of
            (Inl _, s) \<Rightarrow> s
          | (Inr mine, s) \<Rightarrow>
              snd (so_release (cl_store K) jid (l_epoch (j_lease mine))
                (snd (so_update (cl_store K) jid (l_epoch (j_lease mine)) (\<lambda>r. Inr (clearFailure r)) s))))"

definition startHere :: "string \<Rightarrow> 's client \<Rightarrow> 's client" where
  "startHere jid c =
     (if jid \<in> ct_running c then c
      else c\<lparr>ct_running := insert jid (ct_running c), ct_workers := ct_workers c @ [jid]\<rparr>)"

definition begin_work :: "('s, 'd, 'x, 'r) client_conf \<Rightarrow> string \<Rightarrow> 's client \<Rightarrow> 's client" where
  "begin_work K jid c =
     (if jid \<in> ct_running c then c
      else let c = in_store (clearLastError K jid (ct_store c)) c in
           if snd (performer (cl_execution K)) \<and> \<not> cl_idle K then startHere jid c else c)"

text \<open>The name avoids \<open>Submit\<close> of \<open>go/spec.go\<close>, which it calls.\<close>

definition client_Submit :: "('s, 'd, 'x, 'r) client_conf \<Rightarrow> spec \<Rightarrow> string list \<Rightarrow> 's client \<Rightarrow> (err + string) \<times> 's client" where
  "client_Submit K sp requires c =
     (case noExecutor (cl_execution K) of
        Some e \<Rightarrow> (Inl e, c)
      | None \<Rightarrow>
      (case unknownCapability K requires of
        Some e \<Rightarrow> (Inl e, c)
      | None \<Rightarrow>
      (case intoStorage K sp of
        Inl e \<Rightarrow> (Inl e, c)
      | Inr sp \<Rightarrow>
          let sp = alreadyHere K (ct_world c) sp in
          if delivered K (ct_world c) sp \<noteq> [] then (Inr (delivered K (ct_world c) sp), c)
          else case unservable K sp requires of
            Some e \<Rightarrow> (Inl e, c)
          | None \<Rightarrow>
              if inFlight K (ct_world c) sp \<noteq> [] then
                (Inr (inFlight K (ct_world c) sp), begin_work K (inFlight K (ct_world c) sp) c)
              else case Submit (cl_low K) (cl_names K) (cl_more K) sp requires (ct_store c) of
                (Inl e, s) \<Rightarrow> (Inl e, in_store s c)
              | (Inr jid, s) \<Rightarrow> (Inr jid, begin_work K jid (in_store s c)))))"

definition Get :: "('s, 'd, 'x, 'r) client_conf \<Rightarrow> string \<Rightarrow> string \<Rightarrow> 's client \<Rightarrow> (err + string) \<times> 's client" where
  "Get K src destination c =
     (case specFor (cl_volume K (ct_files c)) src destination of
        Inl e \<Rightarrow> (Inl e, c) | Inr sp \<Rightarrow> client_Submit K sp [] c)"

section \<open>The worker\<close>

text \<open>
  Seconds. \<open>go k\<close> is the run of attempt \<open>k\<close> with whatever else happened until it ended; \<open>None\<close> if a run, or
  the loop, does not end.
\<close>

definition patience :: "int \<Rightarrow> int" where "patience ttl = 2 * ttl + 5"

partial_function (option) run_from ::
  "('s, 'd) store_ops \<Rightarrow> (nat \<Rightarrow> 's world \<Rightarrow> (err option \<times> 's world) option) \<Rightarrow> (nat \<Rightarrow> int) \<Rightarrow> int \<Rightarrow> string \<Rightarrow> nat \<Rightarrow> 's world \<Rightarrow>
   (nat \<times> 's world) option" where
  "run_from J go now deadline jid k w =
     (case go k w of
        None \<Rightarrow> None
      | Some (e, w) \<Rightarrow>
          if (case e of None \<Rightarrow> True | Some x \<Rightarrow> \<not> err_is_foreign x JobLeaseHeld) then Some (Suc k, w)
          else if deadline < now k then Some (Suc k, w)
          else case so_load J jid (w_store w) of
            Inl _ \<Rightarrow> Some (Suc k, w)
          | Inr rec \<Rightarrow>
              if terminal_state (j_state rec) \<or> j_state rec = StateTransferred then Some (Suc k, w)
              else run_from J go now deadline jid (Suc k) w)"

definition worker_ends :: "string \<Rightarrow> 's client \<Rightarrow> 's client" where
  "worker_ends jid c = c\<lparr>ct_running := ct_running c - {jid}, ct_workers := remove1 jid (ct_workers c)\<rparr>"

definition runHere ::
  "('s, 'd, 'x, 'r) client_conf \<Rightarrow> (nat \<Rightarrow> 's world \<Rightarrow> (err option \<times> 's world) option) \<Rightarrow> int \<Rightarrow> (nat \<Rightarrow> int) \<Rightarrow> int \<Rightarrow> string \<Rightarrow>
   's client \<Rightarrow> (nat \<times> 's client) option" where
  "runHere K go ttl now start jid c =
     map_option (\<lambda>(n, w). (n, (worker_ends jid c)\<lparr>ct_world := w\<rparr>))
       (run_from (cl_store K) go now (start + patience ttl) jid 0 (ct_world c))"

section \<open>Waiting for the bytes\<close>

definition unattended :: "('s, 'd, 'x, 'r) client_conf \<Rightarrow> 's \<Rightarrow> 'd job_record \<Rightarrow> bool" where
  "unattended K s rec \<longleftrightarrow> j_delegation rec \<noteq> None \<or> cl_claimable K s rec"

text \<open>
  One notice of the watch: an error of \<open>Next\<close> or whether it was quiet, with what others have done to the
  store by then. \<open>noticed\<close> is what one notice makes the wait answer, \<open>None\<close> if it goes on; the wait is \<open>None\<close>
  where the notices run out.
\<close>

type_synonym 's notice = "(err + bool) \<times> ('s \<Rightarrow> 's)"

definition loaded :: "err + 'd job_record \<Rightarrow> 'd job_record option" where
  "loaded x = (case x of Inl _ \<Rightarrow> None | Inr r \<Rightarrow> Some r)"

definition with_load :: "('s, 'd) store_ops \<Rightarrow> string \<Rightarrow> 's \<Rightarrow> ('d job_record option \<times> err option) \<times> 's" where
  "with_load J jid s = ((case so_load J jid s of Inl e \<Rightarrow> (None, Some e) | Inr r \<Rightarrow> (Some r, None)), s)"

definition noticed ::
  "('s, 'd, 'x, 'r) client_conf \<Rightarrow> string \<Rightarrow> err + bool \<Rightarrow> 's \<Rightarrow> (('d job_record option \<times> err option) \<times> 's) option" where
  "noticed K jid n s =
     (case n of
        Inl e \<Rightarrow> Some ((loaded (so_load (cl_store K) jid s), Some e), s)
      | Inr quiet \<Rightarrow>
          (case so_load (cl_store K) jid s of
             Inl e \<Rightarrow> Some ((None, Some e), s)
           | Inr rec \<Rightarrow>
               if j_state rec = StateTransferred then
                 (case TakeDelivery (cl_store K) (cl_owner K) jid s of
                    (Some e, s) \<Rightarrow> Some ((Some rec, Some e), s) | (None, s) \<Rightarrow> Some (with_load (cl_store K) jid s))
               else if j_state rec = StateFailed then
                 (case LastFailure rec of
                    Some f \<Rightarrow> Some ((Some rec, Some f), s)
                  | None \<Rightarrow> Some ((Some rec, Some (Plain ''download: job failed without a readable failure'')), s))
               else if terminal_state (j_state rec) then Some ((Some rec, None), s)
               else if LastFailure rec \<noteq> None \<and> cl_claimable K s rec then Some ((Some rec, LastFailure rec), s)
               else if quiet \<and> unattended K s rec then
                 Some ((Some rec, Some (Errorf [Lit ''download: '', Str jid, Lit '' is '', Str (state_word (j_state rec)),
                   Lit '' and nobody is working on it''])), s)
               else None))"

fun Deliver ::
  "('s, 'd, 'x, 'r) client_conf \<Rightarrow> string \<Rightarrow> 's notice list \<Rightarrow> 's \<Rightarrow> (('d job_record option \<times> err option) \<times> 's) option" where
  "Deliver K jid [] s = None"
| "Deliver K jid ((n, others) # ns) s =
     (case noticed K jid n (others s) of Some y \<Rightarrow> Some y | None \<Rightarrow> Deliver K jid ns (others s))"

text \<open>\<open>handle.Destination\<close> of \<open>go/handle.go\<close>.\<close>

definition Destination :: "('s, 'd, 'x, 'r) client_conf \<Rightarrow> string \<Rightarrow> 's \<Rightarrow> err + string" where
  "Destination K jid s =
     bind_result (so_load (cl_store K) jid s) (\<lambda>rec.
     bind_result (SpecOf (cl_docs K) rec) (\<lambda>sp.
     bind_result (LocalSink (cl_names K) (cl_root K) (j_id rec) (sp_sink sp)) (\<lambda>(_, final). Inr final)))"

end
