(* ===== verification/Destinations.thy ===== *)
theory Destinations
  imports Client Resume_Plan
begin

text \<open>
  Downloading identified by where the bytes land: \<open>go/resume.go\<close>. A destination has one record: the scan finds
  an unfinished one, and a record made here has an identity computed from the path, so that of two callers who
  race the store lets one create it.
\<close>

section \<open>What was decided\<close>

datatype decision = Submitted | Resumed | Delivered | Busy | PausedWork

record outcome =
  oc_decision :: decision
  oc_from :: int
  oc_proven :: int
  oc_discarded :: int
  oc_source :: string
  oc_changed :: bool
  oc_note :: "part list"

text \<open>A note is kept as the parts it is printed from.\<close>

definition firstLocator :: "('s, 'd, 'x, 'r) client_conf \<Rightarrow> 'd job_record \<Rightarrow> string" where
  "firstLocator K rec =
     (case SpecOf (cl_docs K) rec of
        Inl _ \<Rightarrow> [] | Inr sp \<Rightarrow> if sp_sources sp = [] then [] else s_locator (hd (sp_sources sp)))"

definition destinationExists :: "('s, 'd, 'x, 'r) client_conf \<Rightarrow> (string \<Rightarrow> node option) \<Rightarrow> 'd job_record \<Rightarrow> bool" where
  "destinationExists K fs rec =
     (case SpecOf (cl_docs K) rec of
        Inl _ \<Rightarrow> False
      | Inr sp \<Rightarrow> (case stat_of fs (final_for K (j_id rec) (sp_sink sp)) of IsFile _ \<Rightarrow> True | _ \<Rightarrow> False))"

definition resumeFrom :: "('s, 'd, 'x, 'r) client_conf \<Rightarrow> (string \<Rightarrow> node option) \<Rightarrow> 'd job_record \<Rightarrow> int \<times> int \<times> int" where
  "resumeFrom K fs rec =
     (case SpecOf (cl_docs K) rec of
        Inl _ \<Rightarrow> (0, 0, 0)
      | Inr sp \<Rightarrow>
          (case CheckpointOf (cl_ranges K) (cl_docs K) rec of
             Inl _ \<Rightarrow> (0, 0, 0)
           | Inr cp \<Rightarrow>
               let partial = partial_for K (j_id rec) (sp_sink sp);
                   st = stat_of fs partial
               in case planResume (cl_ranges K) partial st cp (a_size (sp_artifact sp)) of
                    Inl _ \<Rightarrow> (case st of IsFile len \<Rightarrow> (0, 0, len) | _ \<Rightarrow> (0, 0, 0))
                  | Inr plan \<Rightarrow> (plan_from plan, ro_total (cl_ranges K) (rp_have plan), rp_discarded plan)))"

definition decide :: "('s, 'd, 'x, 'r) client_conf \<Rightarrow> 's \<Rightarrow> 'd job_record \<Rightarrow> decision" where
  "decide K s rec =
     (if xo_paused (cl_more K) rec then PausedWork
      else if \<not> cl_claimable K s rec \<and> l_owner (j_lease rec) \<noteq> cl_owner K then Busy else Resumed)"

definition decided_note :: "('s, 'd, 'x, 'r) client_conf \<Rightarrow> 'd job_record \<Rightarrow> decision \<Rightarrow> int \<Rightarrow> part list" where
  "decided_note K rec d from =
     (case d of
        PausedWork \<Rightarrow> [Lit ''an existing download to this path is paused'']
      | Busy \<Rightarrow> [Str (l_owner (j_lease rec)), Lit '' is already downloading to this path'']
      | _ \<Rightarrow> if 0 < from then [Lit ''continuing an existing download from byte '', Num from]
             else [Lit ''continuing an existing download from the beginning''])"

definition found_outcome :: "('s, 'd, 'x, 'r) client_conf \<Rightarrow> 's world \<Rightarrow> 'd job_record \<Rightarrow> spec \<Rightarrow> outcome" where
  "found_outcome K w rec wanted =
     (let src = firstLocator K rec;
          changed = (sp_sources wanted \<noteq> [] \<and> src \<noteq> [] \<and> src \<noteq> s_locator (hd (sp_sources wanted))) in
      if j_state rec = StateTransferred \<and> destinationExists K (w_files w) rec then
        \<lparr>oc_decision = Delivered, oc_from = 0, oc_proven = 0, oc_discarded = 0, oc_source = src, oc_changed = changed,
         oc_note = [Lit ''already downloaded, waiting to be taken delivery of'']\<rparr>
      else case resumeFrom K (w_files w) rec of
        (from, kept, discarded) \<Rightarrow>
          let d = decide K (w_store w) rec in
          \<lparr>oc_decision = d, oc_from = from, oc_proven = kept, oc_discarded = discarded, oc_source = src, oc_changed = changed,
           oc_note = decided_note K rec d from @
             (if from < kept \<and> d = Resumed then
                [Lit ''; '', Num (kept - from), Lit '' bytes past that are already proven and will be skipped''] else []) @
             (if 0 < discarded \<and> d = Resumed then
                [Lit ''; '', Num discarded, Lit '' bytes on disk are unproven and will be fetched again''] else []) @
             (if changed then [Lit ''; it fetches from '', Str src] else [])\<rparr>)"

section \<open>The record of a destination\<close>

text \<open>The scan keeps the last unfinished record and the last complete one whose file is there.\<close>

definition at_destination :: "('s, 'd, 'x, 'r) client_conf \<Rightarrow> path_fs \<Rightarrow> string \<Rightarrow> 'd job_record \<Rightarrow> bool" where
  "at_destination K F final rec \<longleftrightarrow>
     j_kind rec = Kind \<and>
     (case SpecOf (cl_docs K) rec of Inl _ \<Rightarrow> False | Inr sp \<Rightarrow> SamePath F (final_for K [] (sp_sink sp)) final)"

fun scan_records ::
  "('s, 'd, 'x, 'r) client_conf \<Rightarrow> (string \<Rightarrow> node option) \<Rightarrow> string \<Rightarrow> 'd job_record list \<Rightarrow>
   'd job_record option \<times> 'd job_record option \<Rightarrow> 'd job_record option \<times> 'd job_record option" where
  "scan_records K fs final [] found = found"
| "scan_records K fs final (rec # recs) (live, complete) =
     scan_records K fs final recs
       (if \<not> at_destination K (cl_volume K fs) final rec then (live, complete)
        else if \<not> terminal_state (j_state rec) then (Some rec, complete)
        else if j_state rec = StateComplete \<and> destinationExists K fs rec then (live, Some rec)
        else (live, complete))"

definition recordsFor :: "('s, 'd, 'x, 'r) client_conf \<Rightarrow> 's world \<Rightarrow> sink \<Rightarrow> 'd job_record option \<times> 'd job_record option" where
  "recordsFor K w sk =
     (case readable (cl_listed K (w_store w)) of
        (_, _, Some _) \<Rightarrow> (None, None)
      | (all, _, None) \<Rightarrow> scan_records K (w_files w) (final_for K [] sk) all (None, None))"

text \<open>\<open>filepath.Split\<close>: everything through the last slash, and the rest.\<close>

definition path_split :: "string \<Rightarrow> string \<times> string" where
  "path_split p = (rev (dropWhile (\<lambda>c. c \<noteq> slash) (rev p)), rev (takeWhile (\<lambda>c. c \<noteq> slash) (rev p)))"

definition canonicalPath :: "('s, 'd, 'x, 'r) client_conf \<Rightarrow> path_fs \<Rightarrow> string \<Rightarrow> string" where
  "canonicalPath K F p =
     (if trim_space p = [] then []
      else let p = path_clean (path_abs F p) in
        case path_split p of (dir, base) \<Rightarrow>
          (case cl_real K (path_clean dir) of Some real \<Rightarrow> path_join real base | None \<Rightarrow> p))"

definition destinationOf :: "('s, 'd, 'x, 'r) client_conf \<Rightarrow> (string \<Rightarrow> node option) \<Rightarrow> sink \<Rightarrow> string" where
  "destinationOf K fs sk = canonicalPath K (cl_volume K fs) (final_for K [] sk)"

definition destinationID :: "('s, 'd, 'x, 'r) client_conf \<Rightarrow> string \<Rightarrow> string" where
  "destinationID K dest = ''dest-'' @ take 16 (cl_sha K dest)"

text \<open>\<open>submitAs\<close> of \<open>go/spec.go\<close> to its last line, the record handed to the store.\<close>

definition submit_as ::
  "('s, 'd, 'x, 'r) client_conf \<Rightarrow> string \<Rightarrow> spec \<Rightarrow> string list \<Rightarrow> 's \<Rightarrow> (err + string) \<times> 's" where
  "submit_as K jid sp requires s =
     (case submitAs (cl_low K) (cl_names K) jid sp of
        Inl e \<Rightarrow> (Inl e, s)
      | Inr (sp, n) \<Rightarrow>
          (case xo_set_spec (cl_more K) sp (new_record (xo_doc (cl_more K)) jid requires n) of
             Inl e \<Rightarrow> (Inl e, s)
           | Inr rec \<Rightarrow> xo_submit (cl_more K) rec s))"

definition generation :: "string \<Rightarrow> int \<Rightarrow> string" where
  "generation base gen = (if 1 < gen then base @ ''-'' @ fmt_int gen else base)"

definition generations :: int where "generations = 512"

function claim_from ::
  "('s, 'd, 'x, 'r) client_conf \<Rightarrow> string \<Rightarrow> spec \<Rightarrow> string list \<Rightarrow> int \<Rightarrow> 's \<Rightarrow> (err + string \<times> bool) \<times> 's" where
  "claim_from K dest sp requires gen s =
     (if generations < gen then (Inl (Errorf [Lit ''download: '', Str dest, Lit '' has too many spent records to start another'']), s)
      else case submit_as K (generation (destinationID K dest) gen) sp requires s of
        (Inr got, s) \<Rightarrow> (Inr (got, True), s)
      | (Inl e, s) \<Rightarrow>
          (case so_load (cl_store K) (generation (destinationID K dest) gen) s of
             Inl _ \<Rightarrow> (Inl e, s)
           | Inr rec \<Rightarrow>
               if \<not> terminal_state (j_state rec) then (Inr (generation (destinationID K dest) gen, False), s)
               else claim_from K dest sp requires (gen + 1) s))"
  by pat_completeness auto
termination by (relation "measure (\<lambda>(K, dest, sp, requires, gen, s). nat (generations + 1 - gen))") auto

declare claim_from.simps [simp del]

definition claimDestination ::
  "('s, 'd, 'x, 'r) client_conf \<Rightarrow> string \<Rightarrow> spec \<Rightarrow> string list \<Rightarrow> 's \<Rightarrow> (err + string \<times> bool) \<times> 's" where
  "claimDestination K dest sp requires s = claim_from K dest sp requires 1 s"

section \<open>Continue, or start\<close>

definition continue_work :: "('s, 'd, 'x, 'r) client_conf \<Rightarrow> 'd job_record \<Rightarrow> string \<Rightarrow> spec \<Rightarrow> 's client \<Rightarrow> (string \<times> outcome) \<times> 's client" where
  "continue_work K rec jid sp c =
     (let oc = found_outcome K (ct_world c) rec sp in
      ((jid, oc), if oc_decision oc = Resumed \<or> oc_decision oc = Busy then begin_work K jid c else c))"

definition told :: "decision \<Rightarrow> string \<Rightarrow> string \<Rightarrow> outcome" where
  "told d src note = \<lparr>oc_decision = d, oc_from = 0, oc_proven = 0, oc_discarded = 0, oc_source = src, oc_changed = False, oc_note = [Lit note]\<rparr>"

definition start_new :: "('s, 'd, 'x, 'r) client_conf \<Rightarrow> string \<Rightarrow> spec \<Rightarrow> string list \<Rightarrow> 's client \<Rightarrow> (err + string \<times> outcome) \<times> 's client" where
  "start_new K dest sp requires c =
     (let sp = alreadyHere K (ct_world c) sp in
      case claimDestination K dest sp requires (ct_store c) of
        (Inl e, s) \<Rightarrow> (Inl e, in_store s c)
      | (Inr (jid, True), s) \<Rightarrow>
          (Inr (jid, told Submitted (s_locator (hd (sp_sources sp))) ''starting a new download''), begin_work K jid (in_store s c))
      | (Inr (jid, False), s) \<Rightarrow>
          (case so_load (cl_store K) jid s of
             Inl e \<Rightarrow> (Inl e, in_store s c)
           | Inr rec \<Rightarrow> (case continue_work K rec jid sp (in_store s c) of (x, c) \<Rightarrow> (Inr x, c))))"

definition ResumeOrSubmit :: "('s, 'd, 'x, 'r) client_conf \<Rightarrow> spec \<Rightarrow> string list \<Rightarrow> 's client \<Rightarrow> (err + string \<times> outcome) \<times> 's client" where
  "ResumeOrSubmit K sp requires c =
     (case Validate (cl_low K) (cl_names K) sp of
        Some e \<Rightarrow> (Inl e, c)
      | None \<Rightarrow>
          let dest = destinationOf K (ct_files c) (sp_sink sp) in
          if dest = [] then (Inl (Errorf [Lit ''download: ResumeOrSubmit needs a destination'']), c)
          else case recordsFor K (ct_world c) (sp_sink sp) of
            (Some live, _) \<Rightarrow> (case continue_work K live (j_id live) sp c of (x, c) \<Rightarrow> (Inr x, c))
          | (None, Some complete) \<Rightarrow> (Inr (j_id complete, told Delivered (firstLocator K complete) ''already downloaded''), c)
          | (None, None) \<Rightarrow> start_new K dest sp requires c)"

definition ResumeOrGet :: "('s, 'd, 'x, 'r) client_conf \<Rightarrow> string \<Rightarrow> string \<Rightarrow> 's client \<Rightarrow> (err + string \<times> outcome) \<times> 's client" where
  "ResumeOrGet K src destination c =
     (case specFor (cl_volume K (ct_files c)) src destination of
        Inl e \<Rightarrow> (Inl e, c) | Inr sp \<Rightarrow> ResumeOrSubmit K sp [] c)"

end
