(* ===== verification/Client_Laws.thy ===== *)
theory Client_Laws
  imports Destinations Record_Invariant
begin

text \<open>
  What the client promises: one worker for a job, a run loop and a wait that end, nothing created for work
  that is already under way, one record for one destination.
\<close>

section \<open>One worker for a job\<close>

text \<open>
  What happens to a client: it submits, it resumes, one of its workers ends, and the world moves on.
\<close>

inductive client_step :: "('s, 'd, 'x, 'r) client_conf \<Rightarrow> 's client \<Rightarrow> 's client \<Rightarrow> bool" for K where
  submits: "client_Submit K sp requires c = (x, c') \<Longrightarrow> client_step K c c'"
| resumes: "ResumeOrSubmit K sp requires c = (x, c') \<Longrightarrow> client_step K c c'"
| ends: "jid \<in> set (ct_workers c) \<Longrightarrow> client_step K c (worker_ends jid c)"
| moves: "client_step K c (c\<lparr>ct_world := w\<rparr>)"

definition staffed :: "'s client \<Rightarrow> bool" where
  "staffed c \<longleftrightarrow> distinct (ct_workers c) \<and> set (ct_workers c) = ct_running c"

lemma staffed_begin: "staffed c \<Longrightarrow> staffed (begin_work K jid c)"
  by (auto simp: staffed_def begin_work_def startHere_def Let_def)

lemma staffed_in_store [simp]: "staffed (in_store s c) = staffed c"
  by (simp add: staffed_def)

lemma staffed_ends: "staffed c \<Longrightarrow> staffed (worker_ends jid c)"
  by (auto simp: staffed_def worker_ends_def)

lemma staffed_Submit: "staffed c \<Longrightarrow> client_Submit K sp requires c = (x, c') \<Longrightarrow> staffed c'"
  by (auto simp: client_Submit_def Let_def staffed_begin split: option.splits sum.splits if_splits prod.splits)

lemma staffed_continue: "staffed c \<Longrightarrow> continue_work K rec jid sp c = (x, c') \<Longrightarrow> staffed c'"
  by (auto simp: continue_work_def Let_def staffed_begin split: if_splits)

lemma staffed_new: "staffed c \<Longrightarrow> start_new K dest sp requires c = (x, c') \<Longrightarrow> staffed c'"
  using staffed_continue [of "in_store _ c"]
  by (auto simp: start_new_def Let_def staffed_begin split: sum.splits prod.splits bool.splits)

lemma staffed_Resume:
  assumes "staffed c" "ResumeOrSubmit K sp requires c = (x, c')"
  shows "staffed c'"
proof (cases "Validate (cl_low K) (cl_names K) sp \<noteq> None \<or> destinationOf K (ct_files c) (sp_sink sp) = []")
  case True
  with assms show ?thesis by (auto simp: ResumeOrSubmit_def split: option.splits)
next
  case False
  obtain live complete where r: "recordsFor K (ct_world c) (sp_sink sp) = (live, complete)" by (rule prod.exhaust)
  show ?thesis
  proof (cases live)
    case (Some rec)
    obtain y c1 where "continue_work K rec (j_id rec) sp c = (y, c1)" by (rule prod.exhaust)
    with staffed_continue [OF assms(1) this] assms(2) False r Some show ?thesis by (auto simp: ResumeOrSubmit_def)
  next
    case None
    with assms False r staffed_new [OF assms(1)] show ?thesis
      by (cases complete) (auto simp: ResumeOrSubmit_def)
  qed
qed

lemma staffed_steps: "(client_step K)\<^sup>*\<^sup>* c c' \<Longrightarrow> staffed c \<Longrightarrow> staffed c'"
proof (induction rule: rtranclp_induct)
  case (step y z)
  have y: "staffed y" by (rule step(3) [OF step.prems])
  from step(2) show ?case
  proof cases
    case (submits sp requires x)
    show ?thesis by (rule staffed_Submit [OF y submits])
  next
    case (resumes sp requires x)
    show ?thesis by (rule staffed_Resume [OF y resumes])
  next
    case (ends jid)
    with y show ?thesis by (simp add: staffed_ends)
  next
    case (moves w)
    with y show ?thesis by (simp add: staffed_def)
  qed
qed

lemma count_list_1: "distinct xs \<Longrightarrow> count_list xs x \<le> Suc 0"
  by (induction xs) (auto simp: count_list_0_iff)

lemma workers_one: "(client_step K)\<^sup>*\<^sup>* c c' \<Longrightarrow> ct_workers c = [] \<Longrightarrow> ct_running c = {} \<Longrightarrow> count_list (ct_workers c') jid \<le> 1"
  using staffed_steps [of K c c'] by (auto simp: staffed_def count_list_1)

section \<open>The run loop ends\<close>

lemma run_from_ends:
  assumes runs: "\<And>k w. go k w \<noteq> None" and tick: "\<And>k. start + int k \<le> now k"
    and "int k \<le> patience ttl + 1" "0 \<le> ttl"
  shows "\<exists>n w'. run_from J go now (start + patience ttl) jid k w = Some (n, w') \<and> int n \<le> patience ttl + 2"
  using assms(3)
proof (induction "nat (patience ttl + 1 - int k)" arbitrary: k w)
  case 0
  obtain e w1 where g: "go k w = Some (e, w1)" using runs [of k w] by (cases "go k w") auto
  from 0 have "patience ttl < int k" by simp
  with tick [of k] have "start + patience ttl < now k" by simp
  with g 0 show ?case by (subst run_from.simps) simp
next
  case (Suc m)
  obtain e w1 where g: "go k w = Some (e, w1)" using runs [of k w] by (cases "go k w") auto
  from Suc(2) have "m = nat (patience ttl + 1 - int (Suc k))" "int (Suc k) \<le> patience ttl + 1" by auto
  from Suc(1) [OF this, of w1] g Suc(3) show ?case
    by (subst run_from.simps) (auto split: sum.split)
qed

lemma runHere_ends:
  assumes "\<And>k w. go k w \<noteq> None" "\<And>k. start + int k \<le> now k" "0 \<le> ttl"
  shows "\<exists>n c'. runHere K go ttl now start jid c = Some (n, c') \<and> int n \<le> patience ttl + 2 \<and> jid \<notin> ct_running c'"
proof -
  have "int 0 \<le> patience ttl + 1" using assms(3) by (simp add: patience_def)
  from run_from_ends [where J = "cl_store K" and jid = jid and w = "ct_world c" and go = go, OF assms(1,2) this assms(3)] show ?thesis
    by (auto simp: runHere_def worker_ends_def)
qed

text \<open>What ends it: an attempt that was not refused the lease, time, or a record there is nothing to do for.\<close>

definition given_up :: "('s, 'd) store_ops \<Rightarrow> int \<Rightarrow> int \<Rightarrow> string \<Rightarrow> err option \<Rightarrow> 's world \<Rightarrow> bool" where
  "given_up J deadline t jid e w \<longleftrightarrow>
     (case e of None \<Rightarrow> True | Some x \<Rightarrow> \<not> err_is_foreign x JobLeaseHeld) \<or> deadline < t \<or>
     (case so_load J jid (w_store w) of Inl _ \<Rightarrow> True | Inr r \<Rightarrow> terminal_state (j_state r) \<or> j_state r = StateTransferred)"

lemma run_from_stops:
  assumes "run_from J go now deadline jid k w = Some y"
  shows "\<exists>j w1 e. k \<le> j \<and> fst y = Suc j \<and> go j w1 = Some (e, snd y) \<and> given_up J deadline (now j) jid e (snd y)"
proof (rule run_from.raw_induct [where P = "\<lambda>J go now deadline jid k w y. \<exists>j w1 e. k \<le> j \<and> fst y = Suc j \<and>
    go j w1 = Some (e, snd y) \<and> given_up J deadline (now j) jid e (snd y)", OF _ assms])
  fix loop and J :: "('s, 'd) store_ops" and go :: "nat \<Rightarrow> 's world \<Rightarrow> (err option \<times> 's world) option" and now deadline jid k w y
  assume 1: "\<And>J go now deadline jid k w y. loop J go now deadline jid k w = Some y \<Longrightarrow> \<exists>j w1 e. k \<le> j \<and> fst y = Suc j \<and>
      go j w1 = Some (e, snd y) \<and> given_up (J :: ('s, 'd) store_ops) deadline (now j) jid e (snd y)"
    and 2: "(case go k w of None \<Rightarrow> None
     | Some (e, w) \<Rightarrow>
          if (case e of None \<Rightarrow> True | Some x \<Rightarrow> \<not> err_is_foreign x JobLeaseHeld) then Some (Suc k, w)
          else if deadline < now k then Some (Suc k, w)
          else case so_load J jid (w_store w) of
            Inl _ \<Rightarrow> Some (Suc k, w)
          | Inr rec \<Rightarrow>
              if terminal_state (j_state rec) \<or> j_state rec = StateTransferred then Some (Suc k, w)
              else loop J go now deadline jid (Suc k) w) = Some y"
  obtain e w1 where g: "go k w = Some (e, w1)" using 2 by (auto split: option.splits)
  show "\<exists>j w1 e. k \<le> j \<and> fst y = Suc j \<and> go j w1 = Some (e, snd y) \<and> given_up J deadline (now j) jid e (snd y)"
  proof (cases "given_up J deadline (now k) jid e w1")
    case True
    with 2 g have "y = (Suc k, w1)" by (auto simp: given_up_def split: option.splits sum.splits if_splits)
    with True g show ?thesis by auto
  next
    case False
    with 2 g have "loop J go now deadline jid (Suc k) w1 = Some y"
      by (auto simp: given_up_def split: option.splits sum.splits if_splits)
    from 1 [OF this] show ?thesis using Suc_leD by blast
  qed
qed

section \<open>The wait ends\<close>

definition after :: "'s notice list \<Rightarrow> 's \<Rightarrow> 's" where "after ns s = foldl (\<lambda>s n. snd n s) s ns"

text \<open>A record there is nothing more to wait for, when the watch has been quiet.\<close>

definition abandoned :: "('s, 'd, 'x, 'r) client_conf \<Rightarrow> string \<Rightarrow> 's \<Rightarrow> bool" where
  "abandoned K jid s \<longleftrightarrow> (case so_load (cl_store K) jid s of Inl _ \<Rightarrow> True | Inr rec \<Rightarrow> unattended K s rec)"

lemma noticed_quiet:
  assumes "abandoned K jid s"
  shows "noticed K jid (Inr True) s \<noteq> None"
proof (cases "so_load (cl_store K) jid s")
  case (Inl e)
  then show ?thesis by (simp add: noticed_def)
next
  case (Inr rec)
  obtain x s1 where t: "TakeDelivery (cl_store K) (cl_owner K) jid s = (x, s1)" by (rule prod.exhaust)
  from Inr assms have "unattended K s rec" by (simp add: abandoned_def)
  with Inr t show ?thesis by (cases x; cases "LastFailure rec") (simp_all add: noticed_def with_load_def)
qed

lemma Deliver_quiet:
  "abandoned K jid (after (ns @ [(Inr True, others)]) s) \<Longrightarrow> Deliver K jid (ns @ (Inr True, others) # ms) s \<noteq> None"
proof (induction ns arbitrary: s)
  case Nil
  then show ?case using noticed_quiet [of K jid "others s"] by (auto simp: after_def)
next
  case (Cons n ns)
  obtain a f where n: "n = (a, f)" by (rule prod.exhaust)
  from Cons(2) have "abandoned K jid (after (ns @ [(Inr True, others)]) (f s))" by (simp add: after_def n)
  from Cons(1) [OF this] show ?case by (simp add: n split: option.split)
qed

text \<open>What a wait that ended without an error has seen.\<close>

context store_layer
begin

lemma noticed_Inr:
  assumes "cl_store K = J" "noticed K jid n s = Some ((shown, None), s')"
  shows "\<exists>rec. shown = Some rec \<and> so_load J jid s' = Inr rec \<and> j_state rec \<in> {StateComplete, StateTransferred, StateCancelled}"
proof -
  obtain quiet rec where n: "n = Inr quiet" "so_load J jid s = Inr rec"
    using assms by (auto simp: noticed_def split: sum.splits)
  show ?thesis
  proof (cases "j_state rec = StateTransferred")
    case True
    obtain x s1 where t: "TakeDelivery J (cl_owner K) jid s = (x, s1)" by (rule prod.exhaust)
    with assms n True have x: "x = None" "with_load J jid s1 = ((shown, None), s')"
      by (auto simp: noticed_def split: option.splits)
    from TakeDelivery_complete [of "cl_owner K" jid s s1] t x(1) n True obtain r1 where
      "so_load J jid s1 = Inr r1" "j_state r1 = StateComplete \<or> j_state r1 = StateTransferred" by auto
    with x(2) show ?thesis by (auto simp: with_load_def)
  next
    case False
    with assms n show ?thesis
      by (cases "j_state rec") (auto simp: noticed_def split: option.splits if_splits)
  qed
qed

lemma Deliver_Inr:
  assumes "cl_store K = J" "Deliver K jid ns s = Some ((shown, None), s')"
  shows "\<exists>rec. shown = Some rec \<and> so_load J jid s' = Inr rec \<and> j_state rec \<in> {StateComplete, StateTransferred, StateCancelled}"
  using assms(2)
proof (induction ns arbitrary: s)
  case (Cons n ns)
  obtain a f where n: "n = (a, f)" by (rule prod.exhaust)
  show ?case
  proof (cases "noticed K jid a (f s)")
    case None
    with Cons(2) show ?thesis by (intro Cons(1)) (simp add: n)
  next
    case (Some y)
    with Cons(2) have "noticed K jid a (f s) = Some ((shown, None), s')" by (simp add: n)
    from noticed_Inr [OF assms(1) this] show ?thesis .
  qed
qed simp

end

section \<open>Submitting\<close>

lemma found_not_submitted: "oc_decision (found_outcome K w rec sp) \<noteq> Submitted"
  by (cases "resumeFrom K (w_files w) rec") (simp add: found_outcome_def Let_def decide_def)

lemma begin_store: "ct_store (begin_work K jid c) = (if jid \<in> ct_running c then ct_store c else clearLastError K jid (ct_store c))"
  by (simp add: begin_work_def Let_def startHere_def)

definition recorded :: "('s, 'd) store_ops \<Rightarrow> string \<Rightarrow> 's \<Rightarrow> bool" where
  "recorded J k s \<longleftrightarrow> (\<exists>r. so_load J k s = Inr r)"

definition spent_record :: "('s, 'd) store_ops \<Rightarrow> string \<Rightarrow> 's \<Rightarrow> bool" where
  "spent_record J k s \<longleftrightarrow> (\<exists>r. so_load J k s = Inr r \<and> terminal_state (j_state r))"

definition unfinished_record :: "('s, 'd) store_ops \<Rightarrow> string \<Rightarrow> 's \<Rightarrow> bool" where
  "unfinished_record J k s \<longleftrightarrow> (\<exists>r. so_load J k s = Inr r \<and> \<not> terminal_state (j_state r))"

text \<open>
  What the job store does with a new record: an identity is taken once, and what is refused is not there.
\<close>

locale submission = store_layer J
  for J :: "('s, 'd) store_ops" +
  fixes X :: "('s, 'd) store_more"
  assumes submit_new: "\<And>r s k s'. xo_submit X r s = (Inr k, s') \<Longrightarrow>
      k = j_id r \<and> (\<forall>q. so_load J k s \<noteq> Inr q) \<and> (\<exists>q. so_load J k s' = Inr q \<and> \<not> terminal_state (j_state q) \<and> j_spec q = j_spec r \<and> j_kind q = j_kind r)"
    and submit_refused: "\<And>r s e s' k. xo_submit X r s = (Inl e, s') \<Longrightarrow> so_load J k s' = so_load J k s"
    and submit_others: "\<And>r s x s' k. xo_submit X r s = (x, s') \<Longrightarrow> k \<noteq> j_id r \<Longrightarrow> so_load J k s' = so_load J k s"
    and describes: "\<And>sp r r'. xo_set_spec X sp r = Inr r' \<Longrightarrow> j_id r' = j_id r \<and> j_kind r' = j_kind r"
    and release_other: "\<And>jid ep s x s' k. so_release J jid ep s = (x, s') \<Longrightarrow> k \<noteq> jid \<Longrightarrow> so_load J k s' = so_load J k s"
begin

abbreviation there :: "string \<Rightarrow> 's \<Rightarrow> bool" where "there \<equiv> recorded J"
abbreviation spent :: "string \<Rightarrow> 's \<Rightarrow> bool" where "spent \<equiv> spent_record J"
abbreviation unfinished :: "string \<Rightarrow> 's \<Rightarrow> bool" where "unfinished \<equiv> unfinished_record J"

lemma clearLastError_there:
  assumes "cl_store K = J" "there k (clearLastError K jid s)"
  shows "there k s"
proof (cases "k = jid")
  case True
  with assms show ?thesis by (auto simp: clearLastError_def recorded_def split: sum.splits)
next
  case False
  obtain x s1 where c: "so_claim J jid (cl_owner K) s = (x, s1)" by (rule prod.exhaust)
  have "so_load J k (snd (so_release J jid ep (snd (so_update J jid ep g s1)))) = so_load J k s" for ep g
  proof -
    have "so_load J k (snd (so_release J jid ep s2)) = so_load J k s2" for s2
      by (rule release_other [OF surjective_pairing False])
    moreover have "so_load J k (snd (so_update J jid ep g s1)) = so_load J k s1"
      by (rule update_other [OF surjective_pairing False])
    ultimately show ?thesis using claim_other [OF c False] by simp
  qed
  with assms c claim_other [OF c False] show ?thesis
    by (auto simp: clearLastError_def recorded_def split: sum.splits if_splits)
qed

lemma begin_there: "cl_store K = J \<Longrightarrow> there k (ct_store (begin_work K jid c)) \<Longrightarrow> there k (ct_store c)"
  using clearLastError_there [of K k jid "ct_store c"] by (simp add: begin_store split: if_splits)

lemma submit_as_Inr:
  assumes "cl_more K = X" "submit_as K jid sp requires s = (Inr k, s')"
  shows "k = jid" "\<not> there jid s" "\<exists>q. so_load J jid s' = Inr q \<and> \<not> terminal_state (j_state q)"
    and "i \<noteq> jid \<Longrightarrow> so_load J i s' = so_load J i s"
proof -
  obtain spn n rec where r: "submitAs (cl_low K) (cl_names K) jid sp = Inr (spn, n)"
      "xo_set_spec X spn (new_record (xo_doc X) jid requires n) = Inr rec" "xo_submit X rec s = (Inr k, s')"
    using assms by (auto simp: submit_as_def split: sum.splits prod.splits)
  have i: "j_id rec = jid" using describes [OF r(2)] by (simp add: new_record_def)
  show "k = jid" "\<not> there jid s" "\<exists>q. so_load J jid s' = Inr q \<and> \<not> terminal_state (j_state q)"
    using submit_new [OF r(3)] i by (auto simp: recorded_def)
  show "so_load J i s' = so_load J i s" if "i \<noteq> jid" using submit_others [OF r(3)] i that by simp
qed

lemma submit_as_Inl:
  assumes "cl_more K = X" "submit_as K jid sp requires s = (Inl e, s')"
  shows "so_load J k s' = so_load J k s"
  using assms submit_refused [of _ s e s' k] by (auto simp: submit_as_def split: sum.splits prod.splits)

lemma submit_as_taken:
  assumes "cl_more K = X" "there jid s" "submit_as K jid sp requires s = (x, s')"
  shows "\<exists>e. x = Inl e"
  using assms submit_as_Inr(2) [of K jid sp requires s _ s'] by (cases x) auto

text \<open>The generation that is taken: all before it are spent, and it is new or somebody else's and unfinished.\<close>

lemma unfinished_not: "unfinished k s \<Longrightarrow> \<not> spent k s" "unfinished k s \<Longrightarrow> there k s" "spent k s \<Longrightarrow> there k s"
  by (auto simp: unfinished_record_def spent_record_def recorded_def)

lemma claim_from_Inr:
  assumes X: "cl_more K = X" "cl_store K = J"
    and run: "claim_from K dest sp requires gen s = (Inr (jid, created), s')"
  shows "\<exists>n\<ge>gen. n \<le> generations \<and> jid = generation (destinationID K dest) n \<and>
    (\<forall>m. gen \<le> m \<longrightarrow> m < n \<longrightarrow> spent (generation (destinationID K dest) m) s) \<and> unfinished jid s' \<and>
    (if created then \<not> there jid s else unfinished jid s) \<and> (\<forall>k. created \<longrightarrow> k \<noteq> jid \<longrightarrow> so_load J k s' = so_load J k s) \<and>
    (\<not> created \<longrightarrow> (\<forall>k. so_load J k s' = so_load J k s))"
  using X run
proof (induction K dest sp requires gen s rule: claim_from.induct)
  case (1 K dest sp requires gen s)
  let ?g = "generation (destinationID K dest)"
  note run = 1(4) [unfolded claim_from.simps [of K dest sp requires gen s]]
  have g: "gen \<le> generations" using run by (auto split: if_splits)
  obtain x s1 where sub: "submit_as K (?g gen) sp requires s = (x, s1)" by (rule prod.exhaust)
  show ?case
  proof (cases x)
    case (Inr got)
    with run g sub have this_is: "jid = got" "created" "s' = s1" by auto
    with submit_as_Inr [OF 1(2), of "?g gen" sp requires s got s1] sub Inr g this_is show ?thesis
      by (intro exI [of _ gen]) (auto simp: unfinished_record_def)
  next
    case (Inl e)
    note same = submit_as_Inl [OF 1(2) sub [unfolded Inl]]
    obtain rec where l: "so_load J (?g gen) s1 = Inr rec"
      using 1(3) run g sub Inl by (auto split: sum.splits)
    show ?thesis
    proof (cases "terminal_state (j_state rec)")
      case False
      with 1(3) run g sub Inl l have "jid = ?g gen" "\<not> created" "s' = s1" by auto
      with g l False same show ?thesis by (intro exI [of _ gen]) (auto simp: unfinished_record_def)
    next
      case True
      have rest: "claim_from K dest sp requires (gen + 1) s1 = (Inr (jid, created), s')"
        using 1(3) run g sub Inl l True by simp
      have "\<exists>n\<ge>gen + 1. n \<le> generations \<and> jid = ?g n \<and> (\<forall>m. gen + 1 \<le> m \<longrightarrow> m < n \<longrightarrow> spent (?g m) s1) \<and> unfinished jid s' \<and>
          (if created then \<not> there jid s1 else unfinished jid s1) \<and> (\<forall>k. created \<longrightarrow> k \<noteq> jid \<longrightarrow> so_load J k s' = so_load J k s1) \<and>
          (\<not> created \<longrightarrow> (\<forall>k. so_load J k s' = so_load J k s1))"
        by (rule 1(1) [OF _ sub [symmetric] Inl]) (use g l True 1(2,3) rest in auto)
      then obtain n where n: "gen + 1 \<le> n" "n \<le> generations" "jid = ?g n" "\<forall>m. gen + 1 \<le> m \<longrightarrow> m < n \<longrightarrow> spent (?g m) s1"
          "unfinished jid s'" "if created then \<not> there jid s1 else unfinished jid s1"
          "\<forall>k. created \<longrightarrow> k \<noteq> jid \<longrightarrow> so_load J k s' = so_load J k s1" "\<not> created \<longrightarrow> (\<forall>k. so_load J k s' = so_load J k s1)" by auto
      have "spent (?g m) s" if "gen \<le> m" "m < n" for m
      proof (cases "m = gen")
        case True
        with l \<open>terminal_state (j_state rec)\<close> same show ?thesis by (auto simp: spent_record_def)
      next
        case False
        with n(4) that same show ?thesis by (auto simp: spent_record_def)
      qed
      with n same show ?thesis by (intro exI [of _ n]) (auto simp: unfinished_record_def recorded_def split: if_splits)
    qed
  qed
qed

lemma claim_from_again:
  assumes X: "cl_more K = X" "cl_store K = J" and n: "gen \<le> n" "n \<le> generations"
    and "\<forall>m. gen \<le> m \<longrightarrow> m < n \<longrightarrow> spent (generation (destinationID K dest) m) s" "unfinished (generation (destinationID K dest) n) s"
  shows "\<exists>s'. claim_from K dest sp requires gen s = (Inr (generation (destinationID K dest) n, False), s') \<and>
    (\<forall>k. so_load J k s' = so_load J k s)"
  using n(1) assms(5,6)
proof (induction "nat (n - gen)" arbitrary: gen s)
  case 0
  let ?g = "generation (destinationID K dest)"
  from 0 have g: "gen = n" by simp
  obtain x s1 where sub: "submit_as K (?g n) sp requires s = (x, s1)" by (rule prod.exhaust)
  obtain e where e: "x = Inl e" using submit_as_taken [OF X(1) _ sub] unfinished_not(2) [OF 0(4)] by blast
  note same = submit_as_Inl [OF X(1) sub [unfolded e]]
  from 0(4) same obtain rec where "so_load J (?g n) s1 = Inr rec" "\<not> terminal_state (j_state rec)" by (auto simp: unfinished_record_def)
  with sub e g n(2) X(2) same show ?case by (subst claim_from.simps) auto
next
  case (Suc d)
  let ?g = "generation (destinationID K dest)"
  from Suc(2,3) have lt: "gen < n" by simp
  with Suc(4) have spent: "spent (?g gen) s" by simp
  obtain x s1 where sub: "submit_as K (?g gen) sp requires s = (x, s1)" by (rule prod.exhaust)
  obtain e where e: "x = Inl e" using submit_as_taken [OF X(1) _ sub] unfinished_not(3) [OF spent] by blast
  note same = submit_as_Inl [OF X(1) sub [unfolded e]]
  from spent same obtain rec where rec: "so_load J (?g gen) s1 = Inr rec" "terminal_state (j_state rec)" by (auto simp: spent_record_def)
  have "d = nat (n - (gen + 1))" "gen + 1 \<le> n" using Suc(2) lt by auto
  moreover have "\<forall>m. gen + 1 \<le> m \<longrightarrow> m < n \<longrightarrow> spent (?g m) s1" "unfinished (?g n) s1"
    using Suc(4,5) same by (auto simp: spent_record_def unfinished_record_def)
  ultimately obtain s' where "claim_from K dest sp requires (gen + 1) s1 = (Inr (?g n, False), s')" "\<forall>k. so_load J k s' = so_load J k s1"
    using Suc(1) by blast
  moreover have "claim_from K dest sp requires gen s = claim_from K dest sp requires (gen + 1) s1"
    using sub e rec lt n(2) X(2) by (subst claim_from.simps) simp
  ultimately show ?case using same by auto
qed

text \<open>Of two callers who race for a destination one creates its record and the other is answered with it.\<close>

lemma claimDestination_race:
  assumes X: "cl_more K = X" "cl_store K = J"
    and first: "claimDestination K dest sp requires s = (Inr (jid, created), s1)"
    and since: "\<And>k. spent k s1 \<Longrightarrow> spent k s2" "unfinished jid s2"
  shows "\<exists>s3. claimDestination K dest sp' requires' s2 = (Inr (jid, False), s3) \<and> (\<forall>k. so_load J k s3 = so_load J k s2)"
proof -
  let ?g = "generation (destinationID K dest)"
  obtain n where n: "1 \<le> n" "n \<le> generations" "jid = ?g n" "\<forall>m. 1 \<le> m \<longrightarrow> m < n \<longrightarrow> spent (?g m) s" "unfinished jid s1"
      "if created then \<not> there jid s else unfinished jid s" "\<forall>k. created \<longrightarrow> k \<noteq> jid \<longrightarrow> so_load J k s1 = so_load J k s"
      "\<not> created \<longrightarrow> (\<forall>k. so_load J k s1 = so_load J k s)"
    using claim_from_Inr [OF X first [unfolded claimDestination_def]] by auto
  have "spent (?g m) s2" if "1 \<le> m" "m < n" for m
  proof (rule since(1))
    have m: "spent (?g m) s" using n(4) that by simp
    moreover have "?g m \<noteq> jid" using m n(6) unfinished_not by (auto split: if_splits)
    ultimately show "spent (?g m) s1" using n(7,8) by (cases created) (auto simp: spent_record_def)
  qed
  with claim_from_again [OF X n(1,2), of dest s2 sp' requires'] since(2) n(3) show ?thesis
    by (auto simp: claimDestination_def)
qed

text \<open>A call by destination creates a record only when it says so.\<close>

lemma continue_there:
  "cl_store K = J \<Longrightarrow> continue_work K rec jid sp c = ((i, oc), c') \<Longrightarrow>
    i = jid \<and> oc_decision oc \<noteq> Submitted \<and> (there k (ct_store c') \<longrightarrow> there k (ct_store c))"
  using begin_there [of K k jid c] found_not_submitted [of K "ct_world c" rec sp]
  by (auto simp: continue_work_def Let_def split: if_splits)

lemma start_new_there:
  assumes X: "cl_more K = X" "cl_store K = J" and run: "start_new K dest sp requires c = (Inr (jid, oc), c')"
  shows "(oc_decision oc = Submitted \<longrightarrow> \<not> there jid (ct_store c)) \<and>
    (there k (ct_store c') \<longrightarrow> there k (ct_store c) \<or> (oc_decision oc = Submitted \<and> k = jid))"
proof -
  let ?sp = "alreadyHere K (ct_world c) sp"
  obtain i created s1 where cl: "claimDestination K dest ?sp requires (ct_store c) = (Inr (i, created), s1)"
    using run by (auto simp: start_new_def Let_def split: sum.splits prod.splits)
  note laws = claim_from_Inr [OF X cl [unfolded claimDestination_def]]
  show ?thesis
  proof (cases created)
    case True
    with run cl have r: "jid = i" "oc_decision oc = Submitted" "c' = begin_work K i (in_store s1 c)"
      by (auto simp: start_new_def Let_def told_def)
    have "there k s1 \<Longrightarrow> there k (ct_store c) \<or> k = i" using laws True by (auto simp: recorded_def)
    with r laws True begin_there [OF X(2), of k i "in_store s1 c"] show ?thesis by auto
  next
    case False
    obtain rec where l: "so_load J i s1 = Inr rec" using laws by (auto simp: unfinished_record_def)
    obtain j o1 c1 where k: "continue_work K rec i ?sp (in_store s1 c) = ((j, o1), c1)" by (metis prod.exhaust)
    with run cl False l X(2) have r: "jid = j" "oc = o1" "c' = c1" by (auto simp: start_new_def Let_def)
    have "there k s1 \<Longrightarrow> there k (ct_store c)" using laws False by (auto simp: recorded_def)
    with continue_there [OF X(2) k, of k] r show ?thesis by auto
  qed
qed

lemma Resume_there:
  assumes X: "cl_more K = X" "cl_store K = J" and run: "ResumeOrSubmit K sp requires c = (Inr (jid, oc), c')"
  shows "(oc_decision oc = Submitted \<longrightarrow> \<not> there jid (ct_store c)) \<and>
    (there k (ct_store c') \<longrightarrow> there k (ct_store c) \<or> (oc_decision oc = Submitted \<and> k = jid))"
proof -
  obtain live complete where r: "recordsFor K (ct_world c) (sp_sink sp) = (live, complete)" by (rule prod.exhaust)
  have v: "Validate (cl_low K) (cl_names K) sp = None" "destinationOf K (ct_files c) (sp_sink sp) \<noteq> []"
    using run by (auto simp: ResumeOrSubmit_def Let_def split: option.splits if_splits)
  show ?thesis
  proof (cases live)
    case (Some rec)
    obtain j o1 c1 where k: "continue_work K rec (j_id rec) sp c = ((j, o1), c1)" by (metis prod.exhaust)
    with run v r Some have "oc = o1" "c' = c1" by (auto simp: ResumeOrSubmit_def)
    with continue_there [OF X(2) k, of k] show ?thesis by auto
  next
    case None
    show ?thesis
    proof (cases complete)
      case (Some rec)
      with run v r None show ?thesis by (auto simp: ResumeOrSubmit_def told_def)
    next
      case none: None
      with run v r None have "start_new K (destinationOf K (ct_files c) (sp_sink sp)) sp requires c = (Inr (jid, oc), c')"
        by (simp add: ResumeOrSubmit_def)
      from start_new_there [OF X this] show ?thesis .
    qed
  qed
qed

text \<open>Asking for work that is under way creates nothing.\<close>

lemma Submit_in_flight:
  assumes X: "cl_store K = J" and run: "client_Submit K sp requires c = (x, c')"
    and sp: "intoStorage K sp = Inr sp1" and busy: "inFlight K (ct_world c) (alreadyHere K (ct_world c) sp1) \<noteq> []"
  shows "there k (ct_store c') \<longrightarrow> there k (ct_store c)"
    and "x = Inr jid \<Longrightarrow> jid \<in> {delivered K (ct_world c) (alreadyHere K (ct_world c) sp1), inFlight K (ct_world c) (alreadyHere K (ct_world c) sp1)}"
  using run sp busy begin_there [OF X, of k]
  by (auto simp: client_Submit_def Let_def split: option.splits if_splits)

end

lemma inFlight_finds:
  assumes "inFlight K w sp = jid" "jid \<noteq> []"
  shows "\<exists>rec. rec \<in> set (fst (cl_listed K (w_store w))) \<and> same_work K (cl_volume K (w_files w)) sp rec \<and> j_id rec = jid"
proof -
  obtain rs un where r: "readable (cl_listed K (w_store w)) = (rs, un, None)"
    using assms by (auto simp: inFlight_def split: if_splits prod.splits option.splits)
  with assms obtain rec where f: "find (same_work K (cl_volume K (w_files w)) sp) rs = Some rec" "j_id rec = jid"
    by (auto simp: inFlight_def split: if_splits option.splits)
  have "set rs \<subseteq> set (fst (cl_listed K (w_store w)))"
    using r by (cases "cl_listed K (w_store w)") (auto simp: readable_def split: option.splits if_splits)
  with f show ?thesis by (auto simp: find_Some_iff dest!: nth_mem)
qed

section \<open>A destination inside the store\<close>

text \<open>
  The scan resolves the sink of a record on behalf of no job, and the work area, where the partial of a
  relative destination lies, is reserved against no job: such a record has no destination.
\<close>

lemma work_is_relative: "relativeEverywhere (''work/'' @ jid)"
  by (simp add: relativeEverywhere_def is_abs_def has_drive_def slash_def backslash_def)

lemma final_for_work:
  assumes "k_partial sk = ''work/'' @ jid" "nm_reserved (cl_names K) [] (''work/'' @ jid)"
  shows "final_for K [] sk = []"
proof -
  have "\<exists>e. resolveSink (cl_names K) (localRoot (cl_root K)) [] (k_partial sk) = Inl e"
    using assms work_is_relative [of jid]
    by (cases "resolveUnder (localRoot (cl_root K)) (k_partial sk)") (auto simp: resolveSink_def ReservedSink_def split: option.splits)
  then show ?thesis by (auto simp: final_for_def LocalSink_def Resolve_def)
qed

lemma scan_none:
  "\<forall>rec\<in>set recs. \<not> at_destination K (cl_volume K fs) final rec \<Longrightarrow> scan_records K fs final recs found = found"
  by (induction recs arbitrary: found) auto

lemma recordsFor_work:
  assumes "\<forall>rec\<in>set (fst (cl_listed K (w_store w))). \<exists>sp. SpecOf (cl_docs K) rec = Inr sp \<and>
      (\<exists>jid. k_partial (sp_sink sp) = ''work/'' @ jid \<and> nm_reserved (cl_names K) [] (''work/'' @ jid))"
    and "final_for K [] sk \<noteq> []"
  shows "recordsFor K w sk = (None, None)"
proof -
  have none: "\<not> at_destination K (cl_volume K (w_files w)) (final_for K [] sk) rec"
    if "rec \<in> set (fst (cl_listed K (w_store w)))" for rec
  proof -
    obtain sp jid where "SpecOf (cl_docs K) rec = Inr sp" "k_partial (sp_sink sp) = ''work/'' @ jid"
      "nm_reserved (cl_names K) [] (''work/'' @ jid)" using assms(1) \<open>rec \<in> _\<close> by blast
    with final_for_work [of "sp_sink sp" jid K] assms(2) show ?thesis by (auto simp: at_destination_def SamePath_def)
  qed
  then show ?thesis
    by (cases "cl_listed K (w_store w)") (auto simp: recordsFor_def readable_def scan_none split: option.splits if_splits)
qed

section \<open>What a person is told\<close>

context range_layer
begin

text \<open>Every byte before the one a plan asks for is kept.\<close>

lemma leading_kept: "canonical rs \<Longrightarrow> {0..<leading rs} \<subseteq> bytes_of rs"
  by (cases rs) auto

lemma plan_from_kept:
  assumes "planResume R partial st cp sz = Inr p" "checkpoint_wf cp" "rp_have p \<noteq> []"
  shows "{0..<plan_from p} \<subseteq> bytes_of (rp_have p)"
proof -
  have c: "canonical (rp_have p)" "rp_gaps p = gapsFor R (rp_have p) sz" "rp_trim p = r_end (last (rp_have p))"
    using planResume_cases [OF assms(1,2)] assms(3) by (auto simp: fresh_plan_def)
  show ?thesis
  proof (cases "sz \<le> 0 \<or> sz < r_end (last (rp_have p))")
    case True
    with assms(3) have "rp_gaps p = [\<lparr>g_from = ro_prefix R (rp_have p), g_to = 0\<rparr>]" by (auto simp: c(2) gapsFor_def)
    with leading_kept [OF c(1)] show ?thesis by (simp add: plan_from_def prefix_law [OF c(1)])
  next
    case False
    let ?ms = "ro_missing R (rp_have p) 0 sz"
    have m: "canonical ?ms" "bytes_of ?ms = {0..<sz} - bytes_of (rp_have p)" using missing_law [of "rp_have p" 0 sz] c(1) False by auto
    have gaps: "rp_gaps p = map (\<lambda>m. \<lparr>g_from = r_start m, g_to = (if sz \<le> r_end m then 0 else r_end m)\<rparr>) ?ms"
      using False assms(3) by (auto simp: c(2) gapsFor_def)
    show ?thesis
    proof (cases ?ms)
      case Nil
      with m(2) have "{0..<sz} \<subseteq> bytes_of (rp_have p)" by auto
      moreover have "plan_from p = r_end (last (rp_have p))" using gaps Nil c(3) by (simp add: plan_from_def)
      ultimately show ?thesis using False by auto
    next
      case (Cons x xs)
      have f: "plan_from p = r_start x" using gaps Cons by (simp add: plan_from_def)
      have before: "b \<notin> bytes_of ?ms" if "b < r_start x" for b
        using canonical_beyond [of x xs] m(1) that by (force simp: Cons canonical_Cons)
      have "r_start x \<in> bytes_of ?ms" using m(1) by (auto simp: Cons canonical_Cons)
      with m(2) have "r_start x < sz" by auto
      show ?thesis
      proof
        fix b assume "b \<in> {0..<plan_from p}"
        with f before [of b] m(2) \<open>r_start x < sz\<close> show "b \<in> bytes_of (rp_have p)" by auto
      qed
    qed
  qed
qed

lemma resumeFrom_honest:
  assumes "cl_ranges K = R" "SpecOf (cl_docs K) rec = Inr sp" "CheckpointOf R (cl_docs K) rec = Inr cp" "checkpoint_wf cp"
    and "resumeFrom K fs rec = (from, kept, discarded)" "0 < kept"
  shows "\<exists>content. fs (partial_for K (j_id rec) (sp_sink sp)) = Some (File content) \<and>
    {0..<from} \<subseteq> claimed cp \<inter> {..<int (length content)} \<and> kept = int (card (claimed cp \<inter> {..<int (length content)})) \<and>
    from \<le> kept \<and> 0 \<le> discarded \<and> discarded \<le> int (length content)"
proof -
  let ?p = "partial_for K (j_id rec) (sp_sink sp)"
  obtain plan where plan: "planResume R ?p (stat_of fs ?p) cp (a_size (sp_artifact sp)) = Inr plan"
      "from = plan_from plan" "kept = ro_total R (rp_have plan)" "discarded = rp_discarded plan"
    using assms(1-3,5,6) by (auto simp: resumeFrom_def Let_def split: sum.splits file_stat.splits)
  have canon: "canonical (rp_have plan)" using planResume_cases [OF plan(1) assms(4)] by (auto simp: fresh_plan_def)
  have ne: "rp_have plan \<noteq> []" using assms(6) plan(3) total_law [OF canon] by auto
  obtain len where len: "stat_of fs ?p = IsFile len" "bytes_of (rp_have plan) = claimed cp \<inter> {..<len}" "rp_trim plan \<le> len"
      "rp_discarded plan = len - rp_trim plan"
    using planResume_trusts(2) [OF plan(1) assms(4) ne] by blast
  obtain content where c: "fs ?p = Some (File content)" "len = int (length content)"
    using len(1) by (auto simp: stat_of_def split: option.splits node.splits)
  have tot: "kept = int (card (bytes_of (rp_have plan)))" using plan(3) total_law [OF canon] by simp
  have sub: "{0..<from} \<subseteq> bytes_of (rp_have plan)" using plan_from_kept [OF plan(1) assms(4) ne] plan(2) by simp
  have "finite (bytes_of (rp_have plan))" by (simp add: bytes_of_def)
  from card_mono [OF this sub] tot have "from \<le> kept" by simp
  moreover have "0 \<le> rp_trim plan"
  proof -
    have "rp_trim plan = r_end (last (rp_have plan))"
      using planResume_cases [OF plan(1) assms(4)] ne by (elim disjE exE conjE) (simp_all add: fresh_plan_def)
    then show ?thesis using canonical_last_in [OF canon ne] by simp
  qed
  moreover have "discarded = len - rp_trim plan" using plan(4) len(4) by simp
  moreover have "{0..<from} \<subseteq> claimed cp \<inter> {..<len}" "kept = int (card (claimed cp \<inter> {..<len}))"
    using sub tot unfolding len(2) by simp_all
  ultimately show ?thesis using c len(3) by (intro exI [of _ content]) simp
qed

end

section \<open>The shared store creates an identity once\<close>

lemma shared_submission: "submission shared_ops shared_more"
proof (intro submission.intro submission_axioms.intro shared_store_layer)
  fix r q :: "ref_doc job_record" and s s' :: "ref_doc shared" and k jid :: string and e :: err
    and x :: "err + string" and y :: "err option" and ep :: int and sp :: spec
  note [simp] = shared_more_def shared_submit_def
  show "k = j_id r \<and> (\<forall>q. so_load shared_ops k s \<noteq> Inr q) \<and>
      (\<exists>q. so_load shared_ops k s' = Inr q \<and> \<not> terminal_state (j_state q) \<and> j_spec q = j_spec r \<and> j_kind q = j_kind r)"
    if "xo_submit shared_more r s = (Inr k, s')"
    using that by (auto simp: shared_load map_write_def split: option.splits)
  show "so_load shared_ops k s' = so_load shared_ops k s" if "xo_submit shared_more r s = (Inl e, s')"
    using that by (auto split: option.splits)
  show "so_load shared_ops k s' = so_load shared_ops k s" if "xo_submit shared_more r s = (x, s')" "k \<noteq> j_id r"
    using that by (auto simp: shared_ops_def map_ops_def map_write_def split: option.splits)
  show "j_id q = j_id r \<and> j_kind q = j_kind r" if "xo_set_spec shared_more sp r = Inr q"
    using that by auto
  show "so_load shared_ops k s' = so_load shared_ops k s" if "so_release shared_ops jid ep s = (y, s')" "k \<noteq> jid"
  proof -
    have eq: "so_release map_ops jid ep (fst s) = (y, fst s')" using that(1) by (cases s') (auto simp: shared_ops_def on_map_def prod_eq_iff)
    from map_release [OF eq] obtain z where
      "map_change jid ep (\<lambda>r. Inr (r\<lparr>j_lease := (j_lease r)\<lparr>l_expires := 0\<rparr>\<rparr>)) (fst s) = (z, fst s')" by blast
    from map_change_other [OF this that(2)] show ?thesis by (simp add: shared_ops_def map_ops_def)
  qed
qed

interpretation shared_submission: submission shared_ops shared_more
  by (rule shared_submission)

end
