(* ===== verification/Drop_Folder_Laws.thy ===== *)
theory Drop_Folder_Laws
  imports Drop_Folder
begin

text \<open>
  What holds of the drop folder: what a dropped file can never ask for, how a line reads, and that no crash or
  refused rename loses what the person wrote.
\<close>

section \<open>What a request cannot ask for\<close>

lemma wantedSink_None:
  "wantedSink nm p = None \<Longrightarrow> p \<noteq> [] \<Longrightarrow>
     relativeEverywhere p \<and> EscapesRoot p = None \<and> ReservedSink nm [] p = None \<and> \<not> intoWanted nm p"
  by (auto simp: wantedSink_def split: if_splits)

lemma wanted_sources_None:
  "wanted_sources i srcs = None \<Longrightarrow> src \<in> set srcs \<Longrightarrow>
     (s_scheme src = ''http'' \<or> s_scheme src = ''https'') \<and> s_attrs src = [] \<and> s_headers src = []"
  by (induction i srcs rule: wanted_sources.induct) (auto split: if_splits)

lemma wantedSpec_None:
  assumes "wantedSpec uni nm s = None"
  shows "Validate uni nm s = None"
    and "p = k_final (sp_sink s) \<or> p = k_partial (sp_sink s) \<Longrightarrow> p \<noteq> [] \<Longrightarrow>
      relativeEverywhere p \<and> EscapesRoot p = None \<and> ReservedSink nm [] p = None \<and> \<not> intoWanted nm p"
    and "src \<in> set (sp_sources s) \<Longrightarrow>
      (s_scheme src = ''http'' \<or> s_scheme src = ''https'') \<and> s_attrs src = [] \<and> s_headers src = []"
proof -
  have c: "wanted_paths nm [k_final (sp_sink s), k_partial (sp_sink s)] = None" "wanted_sources 0 (sp_sources s) = None"
      "Validate uni nm s = None" using assms by (auto simp: wantedSpec_def split: option.splits)
  show "Validate uni nm s = None" by (rule c(3))
  show "(s_scheme src = ''http'' \<or> s_scheme src = ''https'') \<and> s_attrs src = [] \<and> s_headers src = []"
    if "src \<in> set (sp_sources s)" by (rule wanted_sources_None [OF c(2) that])
  show "relativeEverywhere p \<and> EscapesRoot p = None \<and> ReservedSink nm [] p = None \<and> \<not> intoWanted nm p"
    if "p = k_final (sp_sink s) \<or> p = k_partial (sp_sink s)" "p \<noteq> []"
    by (rule wantedSink_None) (use c(1) that in \<open>auto split: option.splits\<close>)
qed

lemma wantedLine_Inr: "wantedLine uni nm l = Inr s \<Longrightarrow> wantedSpec uni nm s = None"
  by (auto simp: wantedLine_def Let_def bind_result_Inr_iff split: if_splits option.splits prod.splits)

lemma wanted_lines_Inr: "wanted_lines uni nm ls = Inr specs \<Longrightarrow> s \<in> set specs \<Longrightarrow> wantedSpec uni nm s = None"
proof (induction uni nm ls arbitrary: specs rule: wanted_lines.induct)
  case (1 uni nm)
  then show ?case by simp
next
  case (2 uni nm n l ls)
  then show ?case using wantedLine_Inr [of uni nm l] by (auto simp: bind_result_Inr_iff split: sum.splits)
qed

lemma ParseWanted_Inr: "ParseWanted uni nm um text = Inr specs \<Longrightarrow> s \<in> set specs \<Longrightarrow> wantedSpec uni nm s = None"
  using wanted_lines_Inr by (fastforce simp: ParseWanted_def Let_def split: if_splits option.splits sum.splits)

section \<open>How a line reads\<close>

definition plain_word :: "string \<Rightarrow> bool" where
  "plain_word w \<longleftrightarrow> w \<noteq> [] \<and> (\<forall>c\<in>set w. c \<notin> edge_bytes)"

lemma no_space_prefix: "c \<notin> edge_bytes \<Longrightarrow> \<not> list_ex (\<lambda>p. prefix p (c # cs)) space_encodings"
proof
  assume c: "c \<notin> edge_bytes" and "list_ex (\<lambda>p. prefix p (c # cs)) space_encodings"
  then obtain p where p: "p \<in> set space_encodings" "prefix p (c # cs)" by (auto simp: list_ex_iff)
  then have "p \<noteq> []" using space_encodings_ne by blast
  with p(2) obtain q where "p = c # q" by (cases p) auto
  then have "c \<in> set p" by simp
  with p(1) have "c \<in> set (concat space_encodings)" by auto
  with c show False by (simp add: edge_byte_code)
qed

lemma space_at: "list_ex (\<lambda>p. prefix p (CHR '' '' # cs)) space_encodings"
  by (simp add: space_encodings_def)

lemma word_plain: "\<forall>c\<in>set w. c \<notin> edge_bytes \<Longrightarrow> word (w @ CHR '' '' # r) = (w, CHR '' '' # r)"
proof (induction w)
  case Nil
  then show ?case using space_at by simp
next
  case (Cons c w)
  then show ?case using no_space_prefix [of c "w @ CHR '' '' # r"] by simp
qed

lemma word_plain_end: "\<forall>c\<in>set w. c \<notin> edge_bytes \<Longrightarrow> word w = (w, [])"
proof (induction w)
  case (Cons c w)
  then show ?case using no_space_prefix [of c w] by simp
qed simp

lemma trim_left_plain: "c \<notin> edge_bytes \<Longrightarrow> trim_left (c # cs) = c # cs"
  using no_space_prefix [of c cs] by (subst trim_left.simps) (auto simp: list_ex_iff find_None_iff split: option.splits dest: find_Some_iff [THEN iffD1])

lemma trim_left_space: "trim_left (CHR '' '' # s) = trim_left s"
  by (subst trim_left.simps) (simp add: space_encodings_def)

lemma fields_words:
  "\<forall>w\<in>set ws. plain_word w \<Longrightarrow> words_of (str_join '' '' ws) = ws"
proof (induction ws)
  case Nil
  then show ?case by (simp add: words_of.simps)
next
  case (Cons w ws)
  then obtain c cs where w: "w = c # cs" "c \<notin> edge_bytes" "\<forall>x\<in>set cs. x \<notin> edge_bytes"
    by (cases w) (auto simp: plain_word_def)
  show ?case
  proof (cases "ws = []")
    case True
    with w show ?thesis by (subst words_of.simps) (simp add: trim_left_plain word_plain_end words_of.simps)
  next
    case False
    have skip: "words_of (CHR '' '' # s) = words_of s" for s
      by (subst (1 2) words_of.simps) (simp add: trim_left_space)
    have "str_join '' '' (w # ws) = c # (cs @ CHR '' '' # str_join '' '' ws)"
      using False w(1) by (simp add: str_join_Cons)
    then have "words_of (str_join '' '' (w # ws)) = (c # cs) # words_of (CHR '' '' # str_join '' '' ws)"
      by (subst words_of.simps) (simp add: trim_left_plain [OF w(2)] word_plain [OF w(3)])
    with Cons w(1) show ?thesis by (simp add: skip)
  qed
qed

text \<open>A URL, a digest and a destination read alike in either order.\<close>

lemma wantedLine_reads:
  assumes "plain_word url" "plain_word dg" "plain_word dest" "str_contains url ''://''"
    and "NormalDigest uni dg \<noteq> []" "NormalDigest uni dest = []" "\<not> prefix ''sha256:'' (to_lower uni dest)"
    and "\<not> suffix [slash] dest" "\<not> suffix [backslash] dest"
    and "ws = [url, dg, dest] \<or> ws = [url, dest, dg]"
  shows "wantedLine uni nm (str_join '' '' ws) =
    (let s = plain_spec (NormalDigest uni dg) (schemeFrom url) url (Portable dest) in
     case wantedSpec uni nm s of Some e \<Rightarrow> Inl e | None \<Rightarrow> Inr s)"
proof -
  have "dest \<noteq> []" using assms(3) by (simp add: plain_word_def)
  moreover have "words_of (str_join '' '' ws) = ws" by (rule fields_words) (use assms(1-3,10) in auto)
  ultimately show ?thesis using assms(4-10) by (elim disjE) (simp_all add: wantedLine_def Let_def split: option.split)
qed

section \<open>What a person wrote is kept\<close>

lemma lines_no_lf: "l \<in> set (split_on line_feed s) \<Longrightarrow> line_feed \<notin> set l"
  by (rule split_on_no_sep)

lemma trim_right_char_set: "set (trim_right_char c s) \<subseteq> set s"
  unfolding trim_right_char_def using set_dropWhileD by fastforce

lemma trim_right_char_last: "trim_right_char c s \<noteq> [] \<Longrightarrow> last (trim_right_char c s) \<noteq> c"
  unfolding trim_right_char_def using hd_dropWhile [of "\<lambda>x. x = c" "rev s"] by (auto simp: last_rev)

lemma trim_right_char_id: "s = [] \<or> last s \<noteq> c \<Longrightarrow> trim_right_char c s = s"
proof (cases "rev s")
  case (Cons x xs)
  moreover assume "s = [] \<or> last s \<noteq> c"
  ultimately have "x \<noteq> c" by (metis hd_rev list.sel(1) rev.simps(1) rev_rev_ident list.distinct(1))
  then have "dropWhile (\<lambda>x. x = c) (rev s) = rev s" using Cons by simp
  then show ?thesis by (simp add: trim_right_char_def)
qed (simp add: trim_right_char_def)

lemma requestLines_shape:
  "l \<in> set (requestLines text) \<Longrightarrow> line_feed \<notin> set l \<and> (l = [] \<or> last l \<noteq> CHR 0x0D) \<and> \<not> is_answer l"
  unfolding requestLines_def
  using trim_right_char_set [of "CHR 0x0D"] trim_right_char_last [of "CHR 0x0D"] lines_no_lf
  by (auto dest!: set_takeWhileD) blast

lemma trim_lf_append:
  assumes "trim_right_char line_feed b \<noteq> []"
  shows "trim_right_char line_feed (a @ b) = a @ trim_right_char line_feed b"
proof -
  have "dropWhile (\<lambda>x. x = line_feed) (rev b) \<noteq> []" using assms by (simp add: trim_right_char_def)
  then have "dropWhile (\<lambda>x. x = line_feed) (rev b @ rev a) = dropWhile (\<lambda>x. x = line_feed) (rev b) @ rev a"
    by (auto simp: dropWhile_append)
  then show ?thesis by (simp add: trim_right_char_def)
qed

lemma split_lines_append:
  "\<forall>l\<in>set ls. line_feed \<notin> set l \<Longrightarrow> split_on line_feed (concat (map (\<lambda>l. l @ [line_feed]) ls) @ rest) = ls @ split_on line_feed rest"
proof (induction ls)
  case (Cons l ls)
  then show ?case
    by (simp add: split_on_append2 [of line_feed l] split_on_single)
qed simp

lemma unlines_concat: "unlines (xs @ y # ys) = concat (map (\<lambda>l. l @ [line_feed]) xs) @ unlines (y # ys)"
proof (induction xs)
  case (Cons x xs)
  then show ?case by (cases xs) (simp_all add: unlines_def str_join_Cons)
qed simp

text \<open>A file that carries its answer still says what the request was.\<close>

lemma requestLines_answered:
  assumes "is_answer a" "line_feed \<notin> set a"
  shows "requestLines (unlines (requestLines text @ a # rest)) = requestLines text"
proof -
  let ?req = "requestLines text"
  have ne: "a \<noteq> []" using assms(1) by (auto simp: is_answer_def)
  obtain tl where tl: "unlines (a # rest) = a @ line_feed # tl"
    by (cases rest) (auto simp: unlines_def str_join_Cons)
  have "last a \<noteq> line_feed" using ne assms(2) last_in_set by metis
  have keep: "\<exists>t. trim_right_char line_feed (a @ line_feed # tl) = a @ t \<and> (t = [] \<or> prefix [line_feed] t)"
  proof (cases "trim_right_char line_feed (line_feed # tl) = []")
    case True
    then have "\<forall>x\<in>set (line_feed # tl). x = line_feed" by (auto simp: trim_right_char_def)
    then have "trim_right_char line_feed (a @ line_feed # tl) = trim_right_char line_feed a"
      by (auto simp: trim_right_char_def dropWhile_append)
    also have "\<dots> = a" by (rule trim_right_char_id) (use \<open>last a \<noteq> line_feed\<close> in simp)
    finally show ?thesis by (intro exI [of _ "[]"]) simp
  next
    case False
    have "trim_right_char line_feed (line_feed # tl) = trim_right_char line_feed ([line_feed] @ tl)" by simp
    also have "\<dots> = [line_feed] @ trim_right_char line_feed tl"
    proof (rule trim_lf_append)
      show "trim_right_char line_feed tl \<noteq> []"
      proof
        assume "trim_right_char line_feed tl = []"
        then have "\<forall>x\<in>set tl. x = line_feed" by (auto simp: trim_right_char_def)
        then have "trim_right_char line_feed (line_feed # tl) = []" by (auto simp: trim_right_char_def)
        with False show False ..
      qed
    qed
    finally show ?thesis using trim_lf_append [OF False, of a] by auto
  qed
  then obtain t where t: "trim_right_char line_feed (a @ line_feed # tl) = a @ t" "t = [] \<or> prefix [line_feed] t" by blast
  have first: "\<exists>more. split_on line_feed (a @ t) = a # more"
    using t(2) assms(2) by (auto simp: prefix_def split_on_append2 split_on_single)
  then obtain more_lines where m: "split_on line_feed (a @ t) = a # more_lines" by blast
  have "trim_right_char line_feed (unlines (?req @ a # rest)) = concat (map (\<lambda>l. l @ [line_feed]) ?req) @ (a @ t)"
    unfolding unlines_concat tl using trim_lf_append [of "a @ line_feed # tl"] t ne by simp
  then have "split_on line_feed (trim_right_char line_feed (unlines (?req @ a # rest))) = ?req @ a # more_lines"
    using split_lines_append [of ?req "a @ t"] requestLines_shape m by simp
  moreover have "map (trim_right_char (CHR 0x0D)) ?req = ?req"
    using requestLines_shape by (intro map_idI trim_right_char_id) blast
  moreover have ans: "is_answer (trim_right_char (CHR 0x0D) a)"
  proof -
    have pre: "is_answer (trim_right_char c (u @ v))" if "is_answer u" "last u \<noteq> c" "u \<noteq> []" for c u v
    proof -
      have "\<exists>z. trim_right_char c (u @ v) = u @ z"
      proof (cases "trim_right_char c v = []")
        case True
        then have "\<forall>x\<in>set v. x = c" by (auto simp: trim_right_char_def)
        then have "trim_right_char c (u @ v) = trim_right_char c u" by (auto simp: trim_right_char_def dropWhile_append)
        with that trim_right_char_id [of u c] show ?thesis by auto
      next
        case False
        then have "dropWhile (\<lambda>x. x = c) (rev v) \<noteq> []" by (simp add: trim_right_char_def)
        then show ?thesis by (auto simp: trim_right_char_def dropWhile_append)
      qed
      with that(1) show ?thesis by (auto simp: is_answer_def prefix_def)
    qed
    from assms(1) consider v where "a = ''# accepted '' @ v" | v where "a = ''# refused '' @ v"
      by (auto simp: is_answer_def prefix_def)
    then show ?thesis
      by cases (use pre [of "''# accepted ''" "CHR 0x0D"] pre [of "''# refused ''" "CHR 0x0D"] in \<open>auto simp: is_answer_def\<close>)
  qed
  ultimately have "requestLines (unlines (?req @ a # rest)) =
      takeWhile (\<lambda>line. \<not> is_answer line) (?req @ trim_right_char (CHR 0x0D) a # map (trim_right_char (CHR 0x0D)) more_lines)"
    by (subst requestLines_def) simp
  with ans show ?thesis using requestLines_shape [of _ "text"] by (simp add: takeWhile_append)
qed

section \<open>No crash loses a request\<close>

text \<open>The name a file is written under first is nobody else's.\<close>

lemma strip_slashes_id: "m \<noteq> [] \<Longrightarrow> last m \<noteq> slash \<Longrightarrow> strip_slashes m = m"
  by (cases m rule: rev_cases) auto

lemma split_on_last: "slash \<notin> set m \<Longrightarrow> last (split_on slash (d @ slash # m)) = m"
  by (simp add: split_on_append2 split_on_single)

lemma path_base_last:
  assumes "slash \<notin> set m" "m \<noteq> []"
  shows "path_base (d @ slash # m) = m"
proof -
  have "last (d @ slash # m) \<noteq> slash" using assms last_in_set [of m] by (auto simp del: last_in_set)
  then have "strip_slashes (d @ slash # m) = d @ slash # m" by (intro strip_slashes_id) simp_all
  with assms show ?thesis by (simp add: path_base_def Let_def split_on_last del: strip_slashes.simps)
qed

lemma path_dir_last:
  assumes "slash \<notin> set m"
  shows "path_dir (d @ slash # m) = path_clean (d @ [slash])"
proof -
  have "dropWhile (\<lambda>c. c \<noteq> slash) (rev m @ slash # rev d) = slash # rev d"
    using assms by (subst dropWhile_append2) auto
  then show ?thesis by (simp add: path_dir_def)
qed

lemma abs_elems_snoc:
  assumes "plain_elem m"
  shows "abs_elems (d @ slash # m) = abs_elems d @ [m]"
proof -
  have "split_on slash m = [m]" using plain_elemD [OF assms] by (simp add: split_on_single)
  moreover have "foldl (clean_step True) st [m] = rev [m] @ st" for st by (rule foldl_plain_id) (use assms in simp)
  ultimately show ?thesis by (simp add: abs_elems_append)
qed

lemma tmp_fresh:
  assumes "d = [] \<or> prefix [slash] d" "plain_elem m" "plain_elem m'" "\<not> prefix ''.'' m'"
  shows "tmp_name (d @ slash # m) \<noteq> d @ slash # m'"
proof
  assume eq: "tmp_name (d @ slash # m) = d @ slash # m'"
  let ?t = "''.'' @ m @ ''.tmp''" let ?c = "path_clean (d @ [slash])"
  have rooted: "prefix [slash] (d @ [slash])" using assms(1) by (auto simp: prefix_def)
  have t: "plain_elem ?t" using assms(2) plain_elemD [OF assms(2)] by (auto simp: plain_elem_def dot_def dotdot_def slash_def)
  have c: "prefix [slash] ?c" "abs_elems ?c = abs_elems d"
    using path_clean_abs [OF rooted] abs_elems_clean [OF rooted] abs_elems_append [of d "[]"]
    by (simp_all add: abs_elems_def clean_elems_def)
  have "?c \<noteq> []" using c(1) by auto
  then have n: "tmp_name (d @ slash # m) = path_clean (?c @ slash # ?t)"
    using plain_elemD [OF assms(2)] by (simp add: tmp_name_def path_base_last path_dir_last path_join_def)
  have "prefix [slash] (?c @ slash # ?t)" using c(1) by (auto simp: prefix_def)
  from abs_elems_clean [OF this] n have "abs_elems (tmp_name (d @ slash # m)) = abs_elems d @ [?t]"
    using abs_elems_snoc [OF t, of ?c] c(2) by simp
  moreover have "abs_elems (d @ slash # m') = abs_elems d @ [m']" by (rule abs_elems_snoc [OF assms(3)])
  ultimately have "?t = m'" using eq by simp
  with assms(4) show False by auto
qed

lemma write_lines_cases:
  assumes "write_lines P q ls fs = (e, fs')" "tmp_name q \<noteq> q"
  shows "e = None \<Longrightarrow> fs' q = Some (File (unlines ls))"
    and "p \<noteq> tmp_name q \<Longrightarrow> p \<noteq> q \<or> e \<noteq> None \<Longrightarrow> fs' p = fs p"
  using assms by (auto simp: write_lines_def rename_file_def Let_def split: option.splits)

lemma answer_file_cases:
  assumes "from \<noteq> to" "tmp_name to \<noteq> from" "tmp_name to \<noteq> to"
  shows "answer_file P from to ls fs to = Some (File (unlines ls)) \<or> answer_file P from to ls fs from = fs from"
proof -
  obtain e fs1 where w: "write_lines P to ls fs = (e, fs1)" by (rule prod.exhaust)
  from write_lines_cases(1) [OF w assms(3)] write_lines_cases(2) [OF w assms(3), of "from"] w assms(1,2) show ?thesis
    by (cases e) (auto simp: answer_file_def)
qed

text \<open>Some file of the request, under one of its names, still says what was asked.\<close>

definition says :: "(string \<Rightarrow> node option) \<Rightarrow> string \<Rightarrow> string \<Rightarrow> string list \<Rightarrow> bool" where
  "says fs q t ls \<longleftrightarrow> (\<exists>u. fs q = Some (File u) \<and> (u = t \<or> (\<exists>rest. u = unlines (ls @ rest))))"

lemma says_rest: "says fs q (unlines (ls @ rest)) ls"  if "fs q = Some (File (unlines (ls @ rest)))"
  using that by (auto simp: says_def)

lemma plain_suffix:
  assumes "plain_elem n" "\<not> prefix ''.'' n" "X \<in> {[], Accepted, Done, Failed, Refused}"
  shows "plain_elem (n @ X) \<and> \<not> prefix ''.'' (n @ X)"
  using assms plain_elemD [OF assms(1)]
  by (cases n) (auto simp: plain_elem_def Accepted_def Done_def Failed_def Refused_def dot_def dotdot_def slash_def)

lemma request_survives:
  assumes name: "p = d @ slash # n" "d = [] \<or> prefix [slash] d" "plain_elem n" "\<not> prefix ''.'' n"
    and doc: "w_files w p = Some (File t)" and run: "take_request P p w = (ids, w')"
  shows "\<exists>q\<in>{p, p @ Accepted, p @ Refused}. says (w_files w') q t (requestLines t)"
proof -
  have fresh: "tmp_name (p @ X) \<noteq> p @ Y" if "X \<in> {Accepted, Refused}" "Y \<in> {[], Accepted, Refused}" for X Y
    using tmp_fresh [OF name(2), of "n @ X" "n @ Y"] plain_suffix [OF name(3,4), of X] plain_suffix [OF name(3,4), of Y] that name(1)
    by auto
  have ne: "p \<noteq> p @ Accepted" "p \<noteq> p @ Refused" "p @ Accepted \<noteq> p @ Refused" by (simp_all add: Accepted_def Refused_def)
  let ?fs = "w_files w"
  have same: "says ?fs p t ls" for ls using doc by (simp add: says_def)
  have moved: "says fs p t ls \<or> says fs (p @ X) t ls" if "rename_file P p (p @ X) ?fs = (e, fs)" "p \<noteq> p @ X" for X e fs ls
    using that doc by (auto simp: rename_file_def says_def split: option.splits)
  show ?thesis
  proof (cases "requestLimit < int (length t) \<or> dp_read P p \<noteq> None")
    case True
    obtain e fs where mv: "rename_file P p (p @ Refused) ?fs = (e, fs)" by (rule prod.exhaust)
    with True run doc have "w_files w' = fs \<or> w_files w' = ?fs" by (auto simp: take_request_def split: if_splits)
    with moved [OF mv ne(2), of "requestLines t"] same [of "requestLines t"] show ?thesis by auto
  next
    case False
    show ?thesis
    proof (cases "ParseWanted (dp_uni P) (dp_names P) (dp_unmarshal P) t")
      case (Inl e)
      with run doc False obtain said where fs: "w_files w' = answer_file P p (p @ Refused) (requestLines t @ said) ?fs"
        by (auto simp: take_request_def Let_def)
      from answer_file_cases [of p "p @ Refused" P "requestLines t @ said" ?fs] fresh [of Refused "[]"] fresh [of Refused Refused] ne fs doc
      show ?thesis by (auto simp: says_def)
    next
      case (Inr specs)
      obtain e fs1 where mv: "rename_file P p (p @ Accepted) ?fs = (e, fs1)" by (rule prod.exhaust)
      obtain ids' said s where sub: "submit_wanted P specs (w_store w) = ((ids', said), s)" by (metis prod.exhaust)
      let ?ls = "requestLines t @ [''# accepted '' @ dp_stamp P] @ said"
      show ?thesis
      proof (cases e)
        case (Some x)
        with mv have "fs1 = ?fs" by (auto simp: rename_file_def doc split: option.splits)
        with run doc False Inr mv Some same show ?thesis by (auto simp: take_request_def Let_def)
      next
        case None
        then have acc: "fs1 (p @ Accepted) = Some (File t)" using mv doc by (auto simp: rename_file_def split: option.splits)
        show ?thesis
        proof (cases "ids' = []")
          case True
          with run doc False Inr mv None sub have "w_files w' = answer_file P (p @ Accepted) (p @ Refused) ?ls fs1"
            by (auto simp: take_request_def Let_def)
          with answer_file_cases [of "p @ Accepted" "p @ Refused" P ?ls fs1] fresh [of Refused Accepted] fresh [of Refused Refused] ne acc
          show ?thesis by (auto simp: says_def)
        next
          case False
          obtain x fs2 where wr: "write_lines P (p @ Accepted) ?ls fs1 = (x, fs2)" by (rule prod.exhaust)
          with run doc \<open>\<not> (requestLimit < int (length t) \<or> dp_read P p \<noteq> None)\<close> Inr mv None sub False
          have "w_files w' = fs2" by (auto simp: take_request_def Let_def)
          with write_lines_cases [OF wr] fresh [of Accepted Accepted] acc show ?thesis
            by (cases x) (auto simp: says_def)
        qed
      qed
    qed
  qed
qed

text \<open>Following an accepted request keeps it, with the jobs it became.\<close>

lemma follow_survives:
  assumes name: "p = b @ Accepted" "b = d @ slash # n" "d = [] \<or> prefix [slash] d" "plain_elem n" "\<not> prefix ''.'' n"
    and doc: "w_files w p = Some (File t)"
    and ls: "ls = split_on line_feed (trim_right_char line_feed t)" "kept = (if through_last_job ls = [] then ls else through_last_job ls)"
  shows "\<exists>q\<in>{p, b @ Refused, b @ Done, b @ Failed}. says (w_files (follow P p w)) q t kept"
proof -
  have fresh: "tmp_name (b @ X) \<noteq> b @ Y" if "X \<in> {Accepted, Done, Failed, Refused}" "Y \<in> {Accepted, Done, Failed, Refused}" for X Y
    using tmp_fresh [OF name(3), of "n @ X" "n @ Y"] plain_suffix [OF name(4,5), of X] plain_suffix [OF name(4,5), of Y] that name(2)
    by auto
  have bare: "trim_suffix Accepted p = b" using name(1) by (simp add: trim_suffix_def suffix_def)
  have told: "\<exists>q\<in>{p, b @ X}. says (answer_file P p (b @ X) (kept @ rest) (w_files w)) q t kept"
    if "X \<in> {Done, Failed, Refused}" for X rest
    using answer_file_cases [of p "b @ X" P "kept @ rest" "w_files w"] fresh [of X Accepted] fresh [of X X] that name(1) doc
    by (auto simp: says_def Accepted_def Done_def Failed_def Refused_def)
  have kept_file: "says (w_files w) p t kept" using doc by (simp add: says_def)
  obtain x fs2 where wr: "write_lines P p (kept @ map fst (map (job_progress P (w_store w)) (filter is_job_line kept))) (w_files w) = (x, fs2)"
    by (rule prod.exhaust)
  have wrote: "says fs2 p t kept"
    using write_lines_cases [OF wr] fresh [of Accepted Accepted] name(1) doc by (cases x) (auto simp: says_def)
  show ?thesis
    using doc ls bare told [of Refused] told [of Done] told [of Failed] kept_file wr wrote
    unfolding follow_def Let_def by (auto split: if_splits)
qed

text \<open>A request is called done only when every job it became has delivered.\<close>

lemma follow_done:
  assumes name: "p = b @ Accepted" "b = d @ slash # n" "d = [] \<or> prefix [slash] d" "plain_elem n" "\<not> prefix ''.'' n"
    and new: "w_files (follow P p w) (b @ Done) \<noteq> w_files w (b @ Done)" and doc: "w_files w p = Some (File t)"
    and job: "l \<in> set (through_last_job (split_on line_feed (trim_right_char line_feed t)))" "is_job_line l"
  shows "\<exists>jid final more rec. str_cut '' -> '' (trim_prefix ''# job '' l) = (jid, final, more) \<and>
    dp_load P jid (w_store w) = Inr rec \<and> j_state rec \<in> {StateComplete, StateTransferred}"
proof -
  have fresh: "tmp_name (b @ X) \<noteq> b @ Done" if "X \<in> {Accepted, Failed, Refused}" for X
    using tmp_fresh [OF name(3), of "n @ X" "n @ Done"] plain_suffix [OF name(4,5), of X] plain_suffix [OF name(4,5), of Done] that name(2)
    by auto
  have neq: "b @ Done \<noteq> b @ X" if "X \<in> {Accepted, Failed, Refused}" for X using that by (auto simp: Accepted_def Done_def Failed_def Refused_def)
  have bare: "trim_suffix Accepted p = b" using name(1) by (simp add: trim_suffix_def suffix_def)
  have other: "fs' (b @ Done) = fs (b @ Done)" if "write_lines P (b @ X) ls fs = (e, fs')" "X \<in> {Accepted, Failed, Refused}" for X ls fs e fs'
    using that fresh [of X] neq [of X] by (auto simp: write_lines_def rename_file_def Let_def split: option.splits)
  have told: "answer_file P p (b @ X) ls fs (b @ Done) = fs (b @ Done)" if "X \<in> {Failed, Refused}" for X ls fs
    using that other [of X ls fs] neq [of Accepted] name(1) by (auto simp: answer_file_def split: option.splits prod.splits)
  let ?kept = "through_last_job (split_on line_feed (trim_right_char line_feed t))"
  have "list_all (\<lambda>x. snd x = Done) (map (job_progress P (w_store w)) (filter is_job_line ?kept))"
  proof (rule ccontr)
    assume "\<not> ?thesis"
    with new doc bare told other [of Accepted] name(1) show False
      unfolding follow_def Let_def by (auto split: if_splits) (metis insert_iff prod.collapse)+
  qed
  with job have "snd (job_progress P (w_store w) l) = Done" by (auto simp: list_all_iff)
  then show ?thesis
    by (cases "str_cut '' -> '' (trim_prefix ''# job '' l)")
      (auto simp: job_progress_def progress_line_def Done_def Failed_def split: sum.splits if_splits)
qed

end
