(* ===== verification/Client_Demonstration.thy ===== *)
theory Client_Demonstration
  imports Demonstration Client_Laws Drop_Folder_Laws
begin

text \<open>
  A client over a store that begins empty, and a drop folder, on which witnesses of the root theory are
  evaluated. The work area is reserved against every job but its own, as \<open>CONTRACT.md\<close> has it.
\<close>

section \<open>A client\<close>

definition work_names :: name_ops where
  "work_names = \<lparr>nm_reserved = (\<lambda>owner p. prefix ''work/'' p \<and> p \<noteq> ''work/'' @ owner), nm_root_name = id\<rparr>"

definition shared_conf :: "(ref_doc shared, ref_doc) run_conf" where
  "shared_conf = \<lparr>rc_low = id, rc_qt = id, rc_enc = id, rc_dec = (\<lambda>_. None), rc_names = work_names, rc_root = Some ''/srv'',
     rc_shared = False, rc_conns = 1, rc_network = None, rc_list = xo_list shared_more, rc_refusal = None,
     rc_same = (=), rc_terminal = None, rc_cause = True\<rparr>"

definition plain_volume :: "(string \<Rightarrow> node option) \<Rightarrow> path_fs" where
  "plain_volume fs = \<lparr>pf_cwd = ''/home'',
     pf_seen = (\<lambda>p. case fs p of None \<Rightarrow> Missing | Some Dir \<Rightarrow> Here True | Some (File _) \<Rightarrow> Here False),
     pf_same = (=), pf_folds = (\<lambda>_ _ _. False)\<rparr>"

definition demo_client :: "execution \<Rightarrow> (ref_doc shared, ref_doc, unit, string) client_conf" where
  "demo_client ex = \<lparr>cl_conf = shared_conf, cl_ranges = ref_ranges, cl_docs = ref_docs, cl_store = shared_ops, cl_more = shared_more,
     cl_listed = (\<lambda>s. (map the (filter (\<lambda>r. r \<noteq> None) (map (ms_records (fst s)) (snd s))), None)),
     cl_claimable = (\<lambda>s r. \<not> terminal_state (j_state r) \<and> l_expires (j_lease r) \<le> ms_now (fst s)), cl_owner = ''me'', cl_shelf = None,
     cl_execution = ex, cl_fetchers = Some [], cl_hosts = \<lparr>ho_name = (\<lambda>_. None), ho_loop = (\<lambda>_. None), ho_fold = (=)\<rparr>, cl_refuted = [],
     cl_tiers = [], cl_volume = plain_volume, cl_sha = (\<lambda>_. replicate 64 (CHR ''a'')), cl_real = (\<lambda>_. None), cl_idle = False\<rparr>"

definition new_client :: "(string \<Rightarrow> node option) \<Rightarrow> ref_doc job_record list \<Rightarrow> ref_doc shared client" where
  "new_client fs rs = \<lparr>ct_world = \<lparr>w_files = fs, w_store = (\<lparr>ms_records = map_of (map (\<lambda>r. (j_id r, r)) rs), ms_now = 1\<rparr>, map j_id rs)\<rparr>,
     ct_running = {}, ct_workers = []\<rparr>"

definition want_spec :: "string \<Rightarrow> spec" where
  "want_spec final = plain_spec [] ''https'' ''https://h/a'' final"

definition at_final :: "job_state \<Rightarrow> string \<Rightarrow> string \<Rightarrow> string \<Rightarrow> ref_doc job_record" where
  "at_final st jid partial final = (new_record NoDoc jid [] 0)\<lparr>j_state := st,
     j_spec := SpecDoc ((want_spec final)\<lparr>sp_sink := \<lparr>k_partial = partial, k_final = final\<rparr>\<rparr>)\<rparr>"

lemma demo_client_fields [simp]:
  "cl_store (demo_client ex) = shared_ops" "cl_more (demo_client ex) = shared_more" "cl_docs (demo_client ex) = ref_docs"
  "cl_ranges (demo_client ex) = ref_ranges" "cl_conf (demo_client ex) = shared_conf" "cl_execution (demo_client ex) = ex"
  by (simp_all add: demo_client_def)

section \<open>A drop folder\<close>

text \<open>Every job is on record as transferred, and every file operation succeeds.\<close>

definition demo_drop :: "(unit, ref_doc) drop_ops" where
  "demo_drop = \<lparr>dp_root = Some ''/srv'', dp_uni = id, dp_qt = id, dp_names = plain_names, dp_docs = ref_docs,
     dp_unmarshal = (\<lambda>_. Inl (Plain ''no'')), dp_load = (\<lambda>jid s. Inr (at_final StateTransferred jid [] ''a'')), dp_submit = (\<lambda>sp s. (Inr ''j'', s)),
     dp_mkdir = None, dp_list = Inr [], dp_read = (\<lambda>_. None), dp_rename = (\<lambda>_ _. None), dp_write = (\<lambda>_. None), dp_stamp = ''now''\<rparr>"

definition dropped :: "string \<Rightarrow> string \<Rightarrow> unit world" where
  "dropped p body = \<lparr>w_files = [p \<mapsto> File body], w_store = ()\<rparr>"

section \<open>What a call by destination does not ask\<close>

text \<open>Whether the executor demanded exists: a record is written that no worker was started for.\<close>

lemma resume_ignores_executor:
  "\<exists>e. fst (client_Submit (demo_client ExecuteDelegated) (want_spec ''/srv/a'') [] (new_client (\<lambda>_. None) [])) = Inl e"
  "map_sum id (\<lambda>x. (fst x, oc_decision (snd x)))
     (fst (ResumeOrSubmit (demo_client ExecuteDelegated) (want_spec ''/srv/a'') [] (new_client (\<lambda>_. None) []))) =
       Inr (''dest-aaaaaaaaaaaaaaaa'', Submitted)"
  "ct_workers (snd (ResumeOrSubmit (demo_client ExecuteDelegated) (want_spec ''/srv/a'') [] (new_client (\<lambda>_. None) []))) = []"
proof -
  show "\<exists>e. fst (client_Submit (demo_client ExecuteDelegated) (want_spec ''/srv/a'') [] (new_client (\<lambda>_. None) [])) = Inl e"
    by (simp add: client_Submit_def noExecutor_def)
qed code_simp+

text \<open>Which bytes the record at the destination has.\<close>

lemma delivered_whatever_digest:
  assumes "Validate (cl_low K) (cl_names K) sp = None" "destinationOf K (ct_files c) (sp_sink sp) \<noteq> []"
    and "recordsFor K (ct_world c) (sp_sink sp) = (None, Some rec)"
  shows "\<exists>oc. ResumeOrSubmit K sp requires c = (Inr (j_id rec, oc), c) \<and> oc_decision oc = Delivered"
  using assms by (simp add: ResumeOrSubmit_def told_def)

end
