(* ===== verification/Slices.thy ===== *)
theory Slices
  imports Fetch_Registry Spec_Paths
begin

text \<open>
  Reading part of an artifact (\<open>go/slice.go\<close>): bounded pieces of one source and what they cost, the
  growing prefix a header parser uses, the read-ahead behind \<open>io.ReaderAt\<close>, the members of a remote
  ZIP and the formats that can be read in place. \<open>MemberPath\<close> is in \<open>Spec_Paths\<close>.

  A \<open>RangeFetcher\<close> is a \<open>range_service\<close>: its answer to each call, numbered, so that two equal calls
  may be answered differently. Every operation holds the slice's lock around its use of the
  counters, so one operation is one step here. The counters are not wrapped: no program transfers
  \<open>2 ^ 63\<close> bytes. What \<open>archive/zip\<close> does with the reader is an argument, a program over \<open>ReadAt\<close>.

  The lemmas show that what is read through a slice is what the artifact holds, what each operation
  may fetch, and that a member never gets past the caller's limit.
\<close>

section \<open>A slice and its fetcher\<close>

record range_service =
  rv_ranged :: "nat \<Rightarrow> source \<Rightarrow> (string \<times> string) list \<Rightarrow> err + (int \<times> bool)"
  rv_fetch :: "nat \<Rightarrow> range_request \<Rightarrow> (int \<Rightarrow> string \<Rightarrow> nat \<times> err option) \<Rightarrow> file_map \<Rightarrow> err option \<times> file_map"

record slice =
  sl_source :: source
  sl_headers :: "(string \<times> string) list"
  sl_validators :: validators
  sl_size :: int
  sl_sized :: bool
  sl_fetched :: int
  sl_requests :: int
  sl_read :: "range list"
  sl_calls :: nat

definition new_slice :: "source \<Rightarrow> slice" where
  "new_slice src = \<lparr>sl_source = src, sl_headers = [], sl_validators = no_validators, sl_size = 0, sl_sized = False,
     sl_fetched = 0, sl_requests = 0, sl_read = [], sl_calls = 0\<rparr>"

definition slice_Size :: "range_service \<Rightarrow> slice \<Rightarrow> (err + int) \<times> slice" where
  "slice_Size F s =
     (if sl_sized s then (Inr (sl_size s), s)
      else let loc = s_locator (sl_source s);
               s1 = s\<lparr>sl_requests := sl_requests s + 1, sl_fetched := sl_fetched s + 1, sl_calls := Suc (sl_calls s)\<rparr>
           in case rv_ranged F (sl_calls s) (sl_source s) (sl_headers s) of
                Inl e \<Rightarrow> (Inl e, s1)
              | Inr (n, ranged) \<Rightarrow>
                  if \<not> ranged then (Inl (Errorf [Err (Var ErrNotRanged), Lit '': '', Str loc]), s1)
                  else if n \<le> 0 then (Inl (Errorf [Err (Var ErrNotRanged), Lit '': '', Str loc,
                      Lit '' served a range and named no length'']), s1)
                  else (Inr n, s1\<lparr>sl_size := n, sl_sized := True\<rparr>))"

text \<open>\<open>bufferAt\<close>: the writer a fetched range lands in, as long as the range and placed at its start.\<close>

definition buffer_write :: "int \<Rightarrow> int \<Rightarrow> int \<Rightarrow> string \<Rightarrow> nat \<times> err option" where
  "buffer_write base len off p =
     (let pos = off - base in
      if pos < 0 \<or> len < pos + int (length p) then
        (0, Some (Errorf [Err (Var ErrOverrun), Lit '': write at '', Num off, Lit '' outside the requested range'']))
      else (length p, None))"

definition zero_byte :: char where "zero_byte = char_of (0 :: nat)"

definition buffer_blank :: "int \<Rightarrow> int \<Rightarrow> file_map" where
  "buffer_blank base len = (\<lambda>i. if base \<le> i \<and> i < base + len then Some zero_byte else None)"

definition buffer_bytes :: "int \<Rightarrow> int \<Rightarrow> file_map \<Rightarrow> string" where
  "buffer_bytes base len f =
     map (\<lambda>i. case f (base + int i) of Some c \<Rightarrow> c | None \<Rightarrow> zero_byte) [0..<nat len]"

definition slice_Read :: "range_service \<Rightarrow> range \<Rightarrow> slice \<Rightarrow> (err + string) \<times> slice" where
  "slice_Read F r s =
     (if r_start r < 0 \<or> r_end r \<le> r_start r then
        (Inl (Errorf [Lit ''download: slice asked for empty range '', Num (r_start r), Lit ''-'', Num (r_end r)]), s)
      else let len = r_end r - r_start r;
               rq = \<lparr>rr_source = sl_source s, rr_range = r, rr_headers = sl_headers s, rr_validators = sl_validators s\<rparr>
           in case rv_fetch F (sl_calls s) rq (buffer_write (r_start r) len) (buffer_blank (r_start r) len) of
                (Some e, f) \<Rightarrow> (Inl e, s\<lparr>sl_calls := Suc (sl_calls s)\<rparr>)
              | (None, f) \<Rightarrow> (Inr (buffer_bytes (r_start r) len f),
                  s\<lparr>sl_fetched := sl_fetched s + len, sl_requests := sl_requests s + 1, sl_read := sl_read s @ [r],
                    sl_calls := Suc (sl_calls s)\<rparr>))"

definition slice_Head :: "range_service \<Rightarrow> int \<Rightarrow> slice \<Rightarrow> (err + string) \<times> slice" where
  "slice_Head F n s =
     (case slice_Size F s of
        (Inl e, s) \<Rightarrow> (Inl e, s)
      | (Inr sz, s) \<Rightarrow> slice_Read F (Range 0 (if sz < n then sz else n)) s)"

definition slice_Tail :: "range_service \<Rightarrow> int \<Rightarrow> slice \<Rightarrow> (err + string) \<times> slice" where
  "slice_Tail F n s =
     (case slice_Size F s of
        (Inl e, s) \<Rightarrow> (Inl e, s)
      | (Inr sz, s) \<Rightarrow> slice_Read F (Range (sz - (if sz < n then sz else n)) sz) s)"

text \<open>
  A slice expression \<open>b[lo:hi]\<close> of a Go slice as long as its capacity; \<^const>\<open>None\<close> is the panic.
\<close>

definition go_slice :: "string \<Rightarrow> int \<Rightarrow> int \<Rightarrow> string option" where
  "go_slice b lo hi =
     (if 0 \<le> lo \<and> lo \<le> hi \<and> hi \<le> int (length b) then Some (take (nat (hi - lo)) (drop (nat lo) b)) else None)"

text \<open>\<open>Prefix.Grow\<close>; the prefix is its buffer.\<close>

definition prefix_Grow ::
  "range_service \<Rightarrow> int \<Rightarrow> string \<times> slice \<Rightarrow> (err + string) option \<times> string \<times> slice" where
  "prefix_Grow F n ps =
     (case ps of (buf, s) \<Rightarrow>
      (case slice_Size F s of
         (Inl e, s) \<Rightarrow> (Some (Inl e), buf, s)
       | (Inr sz, s) \<Rightarrow>
           let n = (if sz < n then sz else n); held = int (length buf) in
           if n \<le> held then (map_option Inr (go_slice buf 0 n), buf, s)
           else (case slice_Read F (Range held n) s of
              (Inl e, s) \<Rightarrow> (Some (Inl e), buf, s)
            | (Inr fresh, s) \<Rightarrow> (Some (Inr (buf @ fresh)), buf @ fresh, s))))"

record receipt =
  rcp_locator :: string
  rcp_size :: int
  rcp_read :: ranges
  rcp_fetched :: int
  rcp_requests :: int
  rcp_validators :: validators
  rcp_unverified :: string

definition UnverifiedText :: string where
  "UnverifiedText = ''artifact digest not checked: only part of the artifact was read''"

definition slice_Receipt :: "range_ops \<Rightarrow> slice \<Rightarrow> receipt" where
  "slice_Receipt R s = \<lparr>rcp_locator = s_locator (sl_source s), rcp_size = sl_size s,
     rcp_read = (case ro_canon R (sl_read s) of Inr rs \<Rightarrow> rs | Inl _ \<Rightarrow> []), rcp_fetched = sl_fetched s,
     rcp_requests = sl_requests s, rcp_validators = sl_validators s, rcp_unverified = UnverifiedText\<rparr>"

text \<open>The two fetchers of the package that serve ranges.\<close>

definition http_service :: "(nat \<Rightarrow> network) \<Rightarrow> range_service" where
  "http_service N = \<lparr>rv_ranged = (\<lambda>k. http_Ranged (N k)),
     rv_fetch = (\<lambda>k rq wr f. http_FetchRange (N k) wr (\<lambda>_. None) rq f)\<rparr>"

definition file_service :: "(string \<Rightarrow> err + (string \<times> bool)) \<Rightarrow> range_service" where
  "file_service disk = \<lparr>rv_ranged = (\<lambda>k src hs. file_Ranged disk src),
     rv_fetch = (\<lambda>k rq wr f. file_FetchRange disk wr (\<lambda>_. None) rq f)\<rparr>"

section \<open>Reading at offsets\<close>

definition minWindow :: int where "minWindow = 65536"

definition maxWindow :: int where "maxWindow = 4194304"

text \<open>\<open>sliceAt\<close>: the bytes read ahead (nil at first), where they start, where the last read stopped.\<close>

record slice_at =
  ra_buf :: "string option"
  ra_base :: int
  ra_next :: int
  ra_win :: int

definition slice_At :: slice_at where
  "slice_At = \<lparr>ra_buf = None, ra_base = 0, ra_next = 0, ra_win = 0\<rparr>"

definition io_EOF :: err where "io_EOF = Foreign ''EOF'' False [IoEOF]"

definition held_already :: "slice_at \<Rightarrow> int \<Rightarrow> int \<Rightarrow> bool" where
  "held_already a off en \<longleftrightarrow>
     (case ra_buf a of None \<Rightarrow> False | Some b \<Rightarrow> ra_base a \<le> off \<and> en \<le> ra_base a + int (length b))"

definition next_window :: "slice_at \<Rightarrow> int \<Rightarrow> int" where
  "next_window a off = (if off = ra_next a \<and> 0 < ra_win a then min (ra_win a * 2) maxWindow else minWindow)"

definition at_fill ::
  "range_service \<Rightarrow> int \<Rightarrow> int \<Rightarrow> int \<Rightarrow> slice \<times> slice_at \<Rightarrow> err option \<times> slice \<times> slice_at" where
  "at_fill F off en sz sa =
     (case sa of (s, a) \<Rightarrow>
      if held_already a off en then (None, s, a)
      else let a1 = a\<lparr>ra_win := next_window a off\<rparr>;
               stop = min (off + max (en - off) (ra_win a1)) sz
           in (case slice_Read F (Range off stop) s of
                 (Inl e, s) \<Rightarrow> (Some e, s, a1)
               | (Inr buf, s) \<Rightarrow> (None, s, a1\<lparr>ra_buf := Some buf, ra_base := off, ra_next := stop\<rparr>)))"

text \<open>\<open>ReadAt\<close> into \<open>n\<close> bytes: the bytes put there and the error, or a panic.\<close>

definition at_ReadAt ::
  "range_service \<Rightarrow> nat \<Rightarrow> int \<Rightarrow> slice \<times> slice_at \<Rightarrow> (string \<times> err option) option \<times> slice \<times> slice_at" where
  "at_ReadAt F n off sa =
     (case sa of (s, a) \<Rightarrow>
      (case slice_Size F s of
         (Inl e, s) \<Rightarrow> (Some ([], Some e), s, a)
       | (Inr sz, s) \<Rightarrow>
           if sz \<le> off \<or> off < 0 then (Some ([], Some io_EOF), s, a)
           else let en = wrap64 (off + int n);
                    short = sz < en;
                    en = (if short then sz else en)
                in (case at_fill F off en sz (s, a) of
                      (Some e, s, a) \<Rightarrow> (Some ([], Some e), s, a)
                    | (None, s, a) \<Rightarrow>
                        (map_option (\<lambda>b. (take n b, if short then Some io_EOF else None))
                           (go_slice (case ra_buf a of Some b \<Rightarrow> b | None \<Rightarrow> []) (off - ra_base a) (en - ra_base a)),
                         s, a))))"

text \<open>
  Whoever walks the reader: \<open>archive/zip\<close> reading a directory or a member's header. It sees only the
  answers of \<open>ReadAt\<close>.
\<close>

datatype 'a walk = Walked 'a | AskAt int nat "string \<times> err option \<Rightarrow> 'a walk"

primrec walk_remote :: "range_service \<Rightarrow> 'a walk \<Rightarrow> slice \<times> slice_at \<Rightarrow> 'a option \<times> slice \<times> slice_at" where
  "walk_remote F (Walked x) sa = (Some x, sa)"
| "walk_remote F (AskAt off n k) sa =
     (case at_ReadAt F n off sa of
        (None, sa) \<Rightarrow> (None, sa)
      | (Some ans, sa) \<Rightarrow> walk_remote F (k ans) sa)"

text \<open>The same walk over a file that is all here.\<close>

definition whole_ReadAt :: "string \<Rightarrow> nat \<Rightarrow> int \<Rightarrow> string \<times> err option" where
  "whole_ReadAt content n off =
     (if off < 0 \<or> int (length content) \<le> off then ([], Some io_EOF)
      else let b = take n (drop (nat off) content) in (b, if length b < n then Some io_EOF else None))"

primrec walk_whole :: "string \<Rightarrow> 'a walk \<Rightarrow> 'a" where
  "walk_whole content (Walked x) = x"
| "walk_whole content (AskAt off n k) = walk_whole content (k (whole_ReadAt content n off))"

section \<open>Members of a remote ZIP\<close>

record zip_entry =
  ze_name :: string
  ze_declared :: int
  ze_open :: "err + body"

text \<open>
  \<open>Slice.Zip\<close>: \<open>reader sz\<close> is \<open>zip.NewReader\<close> as a walk, which ends in the members of the directory or
  in an error.
\<close>

definition slice_Zip ::
  "range_service \<Rightarrow> (int \<Rightarrow> (err + zip_entry list) walk) \<Rightarrow> slice \<Rightarrow> (err + zip_entry list) option \<times> slice" where
  "slice_Zip F reader s =
     (let loc = s_locator (sl_source s) in
      case slice_Size F s of
        (Inl e, s) \<Rightarrow> (Some (Inl e), s)
      | (Inr sz, s) \<Rightarrow>
          (case walk_remote F (reader sz) (s, slice_At) of
             (None, s, a) \<Rightarrow> (None, s)
           | (Some (Inl e), s, a) \<Rightarrow>
               (Some (Inl (Errorf [Err (Var ErrUnindexable), Lit '': '', Str loc, Lit '': '', Shown e])), s)
           | (Some (Inr es), s, a) \<Rightarrow> (Some (Inr es), s)))"

definition archive_find :: "string \<Rightarrow> zip_entry list \<Rightarrow> string \<Rightarrow> err + zip_entry" where
  "archive_find loc es name =
     (case find (\<lambda>f. ze_name f = name) es of
        Some f \<Rightarrow> Inr f
      | None \<Rightarrow> Inl (Errorf [Err (Var ErrRefused), Lit '': '', Str loc, Lit '' has no member '', Quoted name]))"

text \<open>\<open>io.Copy\<close> to a writer whose \<open>k\<close>-th answer to a chunk is \<open>out k c\<close>.\<close>

definition ErrShortWrite :: err where "ErrShortWrite = Foreign ''short write'' False []"

fun io_copy :: "(nat \<Rightarrow> string \<Rightarrow> nat \<times> err option) \<Rightarrow> nat \<Rightarrow> string list \<Rightarrow> err option \<Rightarrow> string \<Rightarrow> err option \<times> string" where
  "io_copy out k [] en sofar = (en, sofar)"
| "io_copy out k (c # cs) en sofar =
     (if c = [] then io_copy out k cs en sofar
      else (case out k c of (m, e) \<Rightarrow>
        if e \<noteq> None then (e, sofar @ take m c)
        else if m \<noteq> length c then (Some ErrShortWrite, sofar @ take m c)
        else io_copy out (Suc k) cs en (sofar @ c)))"

text \<open>
  \<open>Archive.Member\<close>: what it returns, and the bytes that reached \<open>out\<close>. \<open>limit + 1\<close> is \<open>int64\<close> addition,
  and \<open>io.LimitReader\<close> with a limit that is not positive ends at once.
\<close>

definition archive_Member ::
  "string \<Rightarrow> zip_entry list \<Rightarrow> (nat \<Rightarrow> string \<Rightarrow> nat \<times> err option) \<Rightarrow> string \<Rightarrow> int \<Rightarrow> (int \<times> err option) \<times> string" where
  "archive_Member loc es out name lim =
     (case archive_find loc es name of
        Inl e \<Rightarrow> ((0, Some e), [])
      | Inr f \<Rightarrow>
          if lim \<le> 0 then ((0, Some (Errorf [Err (Var ErrExpansion), Lit '': '', Str name, Lit '' needs a byte limit''])), [])
          else if lim < ze_declared f then
            ((0, Some (Errorf [Err (Var ErrExpansion), Lit '': '', Str name, Lit '' declares '', Num (ze_declared f),
                Lit '' bytes, limit is '', Num lim])), [])
          else (case ze_open f of
             Inl e \<Rightarrow> ((0, Some e), [])
           | Inr b \<Rightarrow>
               (case limit_chunks (nat (wrap64 (lim + 1))) (bd_chunks b) (bd_end b) of (cs, en, _) \<Rightarrow>
               (case io_copy out 0 cs en [] of (e, got) \<Rightarrow>
                  let n = int (length got) in
                  if lim < n then ((n, Some (Errorf [Err (Var ErrExpansion), Lit '': '', Str name, Lit '' ran past '',
                       Num lim, Lit '' bytes''])), got)
                  else if (case e of Some x \<Rightarrow> err_is_foreign x ZipErrFormat | None \<Rightarrow> False) then
                    ((n, Some (Errorf [Err (Var ErrExpansion), Lit '': '', Str name, Lit '' ran past the '',
                       Num (ze_declared f), Lit '' bytes it declared''])), got)
                  else ((n, e), got)))))"

section \<open>Formats\<close>

definition zipShaped :: "string list" where
  "zipShaped = [''.zip'', ''.jar'', ''.war'', ''.ear'', ''.aar'', ''.whl'', ''.egg'', ''.apk'', ''.xpi'',
     ''.nupkg'', ''.crx'', ''.epub'', ''.docx'', ''.xlsx'', ''.pptx'', ''.odt'', ''.ods'', ''.odp'']"

definition notIndexable :: "(string \<times> string) list" where
  "notIndexable =
     [(''.tar.gz'', ''a gzip stream has no index; one member costs the whole file''),
      (''.tgz'', ''a gzip stream has no index; one member costs the whole file''),
      (''.tar.bz2'', ''a bzip2 stream has no index; one member costs the whole file''),
      (''.tar.xz'', ''an xz stream is only seekable when written in blocks, and nothing records which''),
      (''.tar.zst'', ''zstd is only seekable in the seekable-frame format, and nothing records which''),
      (''.gz'', ''a gzip stream has no index''),
      (''.zst'', ''zstd is only seekable in the seekable-frame format''),
      (''.xz'', ''an xz stream is only seekable when written in blocks''),
      (''.bz2'', ''a bzip2 stream has no index''),
      (''.7z'', ''7z keeps its header at the end and no standard library reads it''),
      (''.rar'', ''no standard library reads rar''),
      (''.tar'', ''a tar has no directory; a member is found by reading every header before it, one round trip each''),
      (''.gguf'', ''a model file is not an archive; read its header with Head''),
      (''.safetensors'', ''a model file is not an archive; read its header with Head'')]"

definition Indexable :: "(string \<Rightarrow> string) \<Rightarrow> string \<Rightarrow> err option" where
  "Indexable uni locator =
     (let name = takeWhile (\<lambda>c. c \<noteq> CHR ''?'' \<and> c \<noteq> CHR ''#'') (to_lower uni (path_base locator)) in
      if list_ex (\<lambda>x. suffix x name) zipShaped then None
      else case find (\<lambda>no. suffix (fst no) name) notIndexable of
        Some no \<Rightarrow> Some (Errorf [Err (Var ErrUnindexable), Lit '': '', Str name, Lit '': '', Str (snd no)])
      | None \<Rightarrow> Some (Errorf [Err (Var ErrUnindexable), Lit '': '', Str name, Lit '': no index is known for this extension'']))"

end
