(* ===== verification/Slice_Laws.thy ===== *)
theory Slice_Laws
  imports Slices
begin

text \<open>
  What a slice returns and what it costs, for any fetcher that serves the bytes of one artifact. The
  contract of that fetcher is the locale \<open>serving_ranges\<close>; \<open>answering_ranges\<close> adds that it always
  answers. The file fetcher and the HTTP fetcher on an honest server are shown to meet it.
\<close>

section \<open>Pieces of an artifact\<close>

definition piece :: "string \<Rightarrow> int \<Rightarrow> int \<Rightarrow> string" where
  "piece content a b = take (nat (b - a)) (drop (nat a) content)"

lemma length_piece [simp]: "0 \<le> a \<Longrightarrow> a \<le> b \<Longrightarrow> b \<le> int (length content) \<Longrightarrow> int (length (piece content a b)) = b - a"
  by (simp add: piece_def)

lemma nth_piece: "0 \<le> a \<Longrightarrow> b \<le> int (length content) \<Longrightarrow> i < nat (b - a) \<Longrightarrow> piece content a b ! i = content ! (nat a + i)"
  by (simp add: piece_def)

lemma piece_piece:
  assumes "0 \<le> a" "a \<le> lo" "lo \<le> hi" "hi \<le> b" "b \<le> int (length content)"
  shows "go_slice (piece content a b) (lo - a) (hi - a) = Some (piece content lo hi)"
proof -
  obtain i l h j where "a = int i" "lo = int l" "hi = int h" "b = int j"
    using assms by (metis nonneg_int_cases order_trans)
  with assms show ?thesis by (auto simp: go_slice_def piece_def drop_take min_def simp flip: of_nat_diff)
qed

lemma piece_append:
  assumes "0 \<le> a" "a \<le> b" "b \<le> c" "c \<le> int (length content)"
  shows "piece content a b @ piece content b c = piece content a c"
proof -
  have "nat (c - a) = nat (b - a) + nat (c - b)" "nat b = nat a + nat (b - a)"
    using assms by (simp_all flip: nat_add_distrib)
  then show ?thesis by (simp add: piece_def take_add add.commute)
qed

lemma take_drop_piece: "0 \<le> off \<Longrightarrow> take n (drop (nat off) content) = piece content off (off + int n)"
  by (simp add: piece_def)

lemma piece_clip: "0 \<le> a \<Longrightarrow> a \<le> int (length content) \<Longrightarrow> int (length content) \<le> b \<Longrightarrow>
    piece content a b = piece content a (int (length content))"
  by (simp add: piece_def)

lemma buffer_bytes_piece:
  assumes "0 \<le> a" "a \<le> b" "b \<le> int (length content)"
    and "\<And>i. a \<le> i \<Longrightarrow> i < b \<Longrightarrow> f i = Some (content ! nat i)"
  shows "buffer_bytes a (b - a) f = piece content a b"
proof (rule nth_equalityI)
  show "length (buffer_bytes a (b - a) f) = length (piece content a b)"
    using assms(1-3) by (simp add: buffer_bytes_def piece_def)
  fix i assume "i < length (buffer_bytes a (b - a) f)"
  then have i: "i < nat (b - a)" by (simp add: buffer_bytes_def)
  then have "f (a + int i) = Some (content ! nat (a + int i))" using assms(1,2) by (intro assms(4)) auto
  with i assms(1-3) show "buffer_bytes a (b - a) f ! i = piece content a b ! i"
    by (simp add: buffer_bytes_def nth_piece nat_add_distrib)
qed

section \<open>States\<close>

definition range_bytes :: "range list \<Rightarrow> int" where
  "range_bytes rs = (\<Sum>r\<leftarrow>rs. r_end r - r_start r)"

definition slice_wf :: "string \<Rightarrow> slice \<Rightarrow> bool" where
  "slice_wf content s \<longleftrightarrow>
     (sl_sized s \<longrightarrow> sl_size s = int (length content) \<and> content \<noteq> []) \<and>
     (\<forall>r\<in>set (sl_read s). 0 \<le> r_start r \<and> r_start r < r_end r \<and> r_end r \<le> int (length content)) \<and>
     sl_fetched s - range_bytes (sl_read s) = sl_requests s - int (length (sl_read s)) \<and>
     int (length (sl_read s)) \<le> sl_requests s"

definition at_wf :: "string \<Rightarrow> slice_at \<Rightarrow> bool" where
  "at_wf content a \<longleftrightarrow>
     (case ra_buf a of
        None \<Rightarrow> True
      | Some b \<Rightarrow> 0 \<le> ra_base a \<and> ra_base a < ra_next a \<and> ra_next a \<le> int (length content) \<and>
          b = piece content (ra_base a) (ra_next a)) \<and>
     0 \<le> ra_win a \<and> ra_win a \<le> maxWindow"

lemma slice_wf_new [simp]: "slice_wf content (new_slice src)"
  by (simp add: slice_wf_def new_slice_def range_bytes_def)

lemma at_wf_new [simp]: "at_wf content slice_At"
  by (simp add: at_wf_def slice_At_def maxWindow_def)

lemma window_bounds: "at_wf content a \<Longrightarrow> 0 < next_window a off \<and> next_window a off \<le> maxWindow"
  by (auto simp: at_wf_def next_window_def minWindow_def maxWindow_def)

section \<open>Any fetcher of one artifact\<close>

locale serving_ranges =
  fixes content :: string and F :: range_service
  assumes ranged: "\<And>k src hs n. rv_ranged F k src hs = Inr (n, True) \<Longrightarrow> 0 < n \<Longrightarrow> n = int (length content)"
    and fetched: "\<And>k rq f i. 0 \<le> r_start (rr_range rq) \<Longrightarrow> r_start (rr_range rq) < r_end (rr_range rq) \<Longrightarrow>
      r_end (rr_range rq) \<le> int (length content) \<Longrightarrow> r_end (rr_range rq) \<le> max_int64 \<Longrightarrow>
      rv_fetch F k rq (buffer_write (r_start (rr_range rq)) (r_end (rr_range rq) - r_start (rr_range rq)))
        (buffer_blank (r_start (rr_range rq)) (r_end (rr_range rq) - r_start (rr_range rq))) = (None, f) \<Longrightarrow>
      r_start (rr_range rq) \<le> i \<Longrightarrow> i < r_end (rr_range rq) \<Longrightarrow> f i = Some (content ! nat i)"
begin

lemma Size_spec:
  assumes "slice_Size F s = (x, s')" "slice_wf content s"
  shows "slice_wf content s'" "x = Inr n \<Longrightarrow> n = int (length content) \<and> content \<noteq> [] \<and> sl_sized s'"
    "sl_read s' = sl_read s" "sl_requests s \<le> sl_requests s'" "sl_requests s' \<le> sl_requests s + 1"
    "sl_source s' = sl_source s" "sl_sized s \<Longrightarrow> s' = s"
proof -
  let ?s1 = "s\<lparr>sl_requests := sl_requests s + 1, sl_fetched := sl_fetched s + 1, sl_calls := Suc (sl_calls s)\<rparr>"
  have wf1: "slice_wf content ?s1" using assms(2) by (simp add: slice_wf_def)
  consider (known) "sl_sized s" "x = Inr (sl_size s)" "s' = s"
    | (failed) e where "\<not> sl_sized s" "x = Inl e" "s' = ?s1"
    | (learned) m where "\<not> sl_sized s" "rv_ranged F (sl_calls s) (sl_source s) (sl_headers s) = Inr (m, True)" "0 < m"
        "x = Inr m" "s' = ?s1\<lparr>sl_size := m, sl_sized := True\<rparr>"
    using assms(1) by (fastforce simp: slice_Size_def Let_def split: if_splits sum.splits prod.splits)
  then have "slice_wf content s' \<and> (\<forall>n. x = Inr n \<longrightarrow> n = int (length content) \<and> content \<noteq> [] \<and> sl_sized s') \<and>
    sl_read s' = sl_read s \<and> sl_requests s \<le> sl_requests s' \<and> sl_requests s' \<le> sl_requests s + 1 \<and>
    sl_source s' = sl_source s \<and> (sl_sized s \<longrightarrow> s' = s)"
  proof cases
    case known
    then show ?thesis using assms(2) by (simp add: slice_wf_def)
  next
    case failed
    then show ?thesis using wf1 by simp
  next
    case learned
    then have "m = int (length content)" "content \<noteq> []" using ranged by fastforce+
    with learned wf1 show ?thesis by (simp add: slice_wf_def)
  qed
  then show "slice_wf content s'" "x = Inr n \<Longrightarrow> n = int (length content) \<and> content \<noteq> [] \<and> sl_sized s'"
    "sl_read s' = sl_read s" "sl_requests s \<le> sl_requests s'" "sl_requests s' \<le> sl_requests s + 1"
    "sl_source s' = sl_source s" "sl_sized s \<Longrightarrow> s' = s"
    by blast+
qed

lemma Read_spec:
  assumes "slice_Read F r s = (x, s')" "slice_wf content s" "r_end r \<le> int (length content)"
    "int (length content) \<le> max_int64"
  shows "slice_wf content s'"
    "x = Inr b \<Longrightarrow> b = piece content (r_start r) (r_end r) \<and> 0 \<le> r_start r \<and> r_start r < r_end r \<and>
       sl_read s' = sl_read s @ [r] \<and> sl_fetched s' = sl_fetched s + (r_end r - r_start r) \<and>
       sl_requests s' = sl_requests s + 1"
    "x = Inl e \<Longrightarrow> sl_read s' = sl_read s \<and> sl_fetched s' = sl_fetched s \<and> sl_requests s' = sl_requests s"
    "sl_sized s' = sl_sized s"
proof -
  let ?len = "r_end r - r_start r"
  let ?rq = "\<lparr>rr_source = sl_source s, rr_range = r, rr_headers = sl_headers s, rr_validators = sl_validators s\<rparr>"
  obtain e f where ans: "rv_fetch F (sl_calls s) ?rq (buffer_write (r_start r) ?len) (buffer_blank (r_start r) ?len) = (e, f)"
    by (meson prod.exhaust)
  have b: "buffer_bytes (r_start r) ?len f = piece content (r_start r) (r_end r)"
    if "e = None" "0 \<le> r_start r" "r_start r < r_end r"
    using fetched [of ?rq "sl_calls s" f] ans assms(3,4) that by (intro buffer_bytes_piece) auto
  consider (empty) e' where "r_start r < 0 \<or> r_end r \<le> r_start r" "x = Inl e'" "s' = s"
    | (failed) e' where "x = Inl e'" "s' = s\<lparr>sl_calls := Suc (sl_calls s)\<rparr>"
    | (got) "0 \<le> r_start r" "r_start r < r_end r" "x = Inr (piece content (r_start r) (r_end r))"
        "s' = s\<lparr>sl_fetched := sl_fetched s + ?len, sl_requests := sl_requests s + 1, sl_read := sl_read s @ [r],
                    sl_calls := Suc (sl_calls s)\<rparr>"
  proof (cases "r_start r < 0 \<or> r_end r \<le> r_start r")
    case True
    show ?thesis by (rule empty [OF True]) (use assms(1) True in \<open>auto simp: slice_Read_def\<close>)
  next
    case False
    show ?thesis
    proof (cases e)
      case (Some y)
      show ?thesis by (rule failed [of y]) (use assms(1) False ans Some in \<open>auto simp: slice_Read_def Let_def\<close>)
    next
      case None
      show ?thesis by (rule got) (use assms(1) False ans None b in \<open>auto simp: slice_Read_def Let_def\<close>)
    qed
  qed
  then have "slice_wf content s' \<and> (\<forall>b. x = Inr b \<longrightarrow> b = piece content (r_start r) (r_end r) \<and> 0 \<le> r_start r \<and>
       r_start r < r_end r \<and> sl_read s' = sl_read s @ [r] \<and> sl_fetched s' = sl_fetched s + (r_end r - r_start r) \<and>
       sl_requests s' = sl_requests s + 1) \<and>
    (\<forall>e. x = Inl e \<longrightarrow> sl_read s' = sl_read s \<and> sl_fetched s' = sl_fetched s \<and> sl_requests s' = sl_requests s) \<and>
    sl_sized s' = sl_sized s"
  proof cases
    case empty
    then show ?thesis using assms(2) by simp
  next
    case failed
    then show ?thesis using assms(2) by (simp add: slice_wf_def)
  next
    case got
    then show ?thesis using assms(2,3) by (auto simp: slice_wf_def range_bytes_def)
  qed
  then show "slice_wf content s'"
    "x = Inr b \<Longrightarrow> b = piece content (r_start r) (r_end r) \<and> 0 \<le> r_start r \<and> r_start r < r_end r \<and>
       sl_read s' = sl_read s @ [r] \<and> sl_fetched s' = sl_fetched s + (r_end r - r_start r) \<and>
       sl_requests s' = sl_requests s + 1"
    "x = Inl e \<Longrightarrow> sl_read s' = sl_read s \<and> sl_fetched s' = sl_fetched s \<and> sl_requests s' = sl_requests s"
    "sl_sized s' = sl_sized s" for b e
    by blast+
qed

text \<open>The front and the end of the artifact.\<close>

lemma Size_first:
  assumes "(case slice_Size F s of (Inl e, s) \<Rightarrow> (Inl e, s) | (Inr sz, s) \<Rightarrow> slice_Read F (r sz) s) = (Inr b, s')"
    "slice_wf content s" "int (length content) \<le> max_int64" "r_end (r (int (length content))) \<le> int (length content)"
  shows "let q = r (int (length content)) in
    b = piece content (r_start q) (r_end q) \<and> 0 \<le> r_start q \<and> r_start q < r_end q \<and> slice_wf content s'"
proof -
  obtain y s1 where z: "slice_Size F s = (y, s1)" by (meson prod.exhaust)
  note Z = Size_spec [OF z assms(2)]
  from assms(1) z obtain sz where sz: "y = Inr sz" by (cases y) auto
  with Z(2) have L: "sz = int (length content)" by simp
  with assms(1) z sz have r: "slice_Read F (r (int (length content))) s1 = (Inr b, s')" by simp
  show ?thesis using Read_spec(1,2) [OF r Z(1) assms(4,3)] by (simp add: Let_def)
qed

lemma Head_spec:
  assumes "slice_Head F n s = (Inr b, s')" "slice_wf content s" "int (length content) \<le> max_int64"
  shows "b = piece content 0 (min n (int (length content))) \<and> 0 < n \<and> slice_wf content s'"
  using Size_first [where s = s and b = b and s' = s' and r = "\<lambda>sz. Range 0 (if sz < n then sz else n)"] assms
  by (auto simp: slice_Head_def Let_def min_def not_less split: if_splits)

lemma Tail_spec:
  assumes "slice_Tail F n s = (Inr b, s')" "slice_wf content s" "int (length content) \<le> max_int64"
  shows "b = piece content (int (length content) - min n (int (length content))) (int (length content)) \<and> 0 < n \<and>
    slice_wf content s'"
  using Size_first [where s = s and b = b and s' = s' and r = "\<lambda>sz. Range (sz - (if sz < n then sz else n)) sz"] assms
  by (auto simp: slice_Tail_def Let_def min_def not_less split: if_splits)

text \<open>Growing a prefix: the first bytes of the artifact, and only the ones not held are asked for.\<close>

lemma Grow_spec:
  assumes "prefix_Grow F n (buf, s) = (x, buf', s')" "slice_wf content s" "int (length content) \<le> max_int64"
    and "piece content 0 (int (length buf)) = buf" "0 \<le> n" "length buf \<le> length content"
  shows "x \<noteq> None" "x = Some (Inr b) \<Longrightarrow> b = piece content 0 (min n (int (length content)))"
    "piece content 0 (int (length buf')) = buf'" "length buf' \<le> length content" "slice_wf content s'"
    "sl_read s' = sl_read s \<and> buf' = buf \<or>
     sl_read s' = sl_read s @ [Range (int (length buf)) (int (length buf'))] \<and> length buf < length buf'"
proof -
  let ?L = "int (length content)"
  obtain y s1 where z: "slice_Size F s = (y, s1)" by (meson prod.exhaust)
  note Z = Size_spec [OF z assms(2)]
  have "x \<noteq> None \<and> (\<forall>b. x = Some (Inr b) \<longrightarrow> b = piece content 0 (min n ?L)) \<and>
    piece content 0 (int (length buf')) = buf' \<and> length buf' \<le> length content \<and> slice_wf content s' \<and>
    (sl_read s' = sl_read s \<and> buf' = buf \<or>
     sl_read s' = sl_read s @ [Range (int (length buf)) (int (length buf'))] \<and> length buf < length buf')"
  proof (cases y)
    case (Inl e)
    then have "x = Some (Inl e)" "buf' = buf" "s' = s1" using assms(1) z by (simp_all add: prefix_Grow_def)
    with Z(1,3) assms(4,6) show ?thesis by simp
  next
    case (Inr sz)
    then have sz: "sz = ?L" using Z(2) by simp
    let ?n = "min n ?L"
    show ?thesis
    proof (cases "?n \<le> int (length buf)")
      case True
      have "go_slice buf 0 ?n = Some (piece content 0 ?n)"
        using piece_piece [of 0 0 ?n "int (length buf)" content] True assms(4-6) by simp
      then have "x = Some (Inr (piece content 0 ?n))" "buf' = buf" "s' = s1"
        using assms(1) z Inr sz True by (auto simp: prefix_Grow_def Let_def min_def split: if_splits)
      with Z(1,3) assms(4,6) show ?thesis by simp
    next
      case False
      obtain y2 s2 where r: "slice_Read F (Range (int (length buf)) ?n) s1 = (y2, s2)" by (meson prod.exhaust)
      have run: "(x, buf', s') = (case y2 of Inl e \<Rightarrow> (Some (Inl e), buf, s2) | Inr fresh \<Rightarrow> (Some (Inr (buf @ fresh)), buf @ fresh, s2))"
        using assms(1) z Inr sz False r by (auto simp: prefix_Grow_def Let_def min_def split: if_splits sum.splits)
      note R = Read_spec [OF r Z(1) _ assms(3)]
      show ?thesis
      proof (cases y2)
        case (Inl e)
        with run R Z assms(4,6) show ?thesis by auto
      next
        case (Inr fresh)
        have fresh: "fresh = piece content (int (length buf)) ?n" "sl_read s2 = sl_read s1 @ [Range (int (length buf)) ?n]"
          using R(2) [OF _ Inr] by auto
        have "buf @ fresh = piece content 0 ?n"
          using piece_append [of 0 "int (length buf)" ?n content] fresh(1) assms(4) False by simp
        moreover have len: "int (length (piece content 0 ?n)) = ?n" using assms(5) by simp
        moreover have "length (piece content 0 ?n) \<le> length content" "length buf < length (piece content 0 ?n)"
          using len False by linarith+
        ultimately show ?thesis using run Inr R(1) Z(3) fresh(2) by simp
      qed
    qed
  qed
  then show "x \<noteq> None" "x = Some (Inr b) \<Longrightarrow> b = piece content 0 (min n ?L)"
    "piece content 0 (int (length buf')) = buf'" "length buf' \<le> length content" "slice_wf content s'"
    "sl_read s' = sl_read s \<and> buf' = buf \<or>
     sl_read s' = sl_read s @ [Range (int (length buf)) (int (length buf'))] \<and> length buf < length buf'"
    by blast+
qed

end

context serving_ranges
begin

text \<open>Filling the read-ahead: what it holds, and what one fill may fetch.\<close>

lemma fill_spec:
  assumes "at_fill F off en (int (length content)) (s, a) = (e, s', a')" "slice_wf content s" "at_wf content a"
    and "0 \<le> off" "off < int (length content)" "off \<le> en" "en \<le> int (length content)"
    and "int (length content) \<le> max_int64"
  shows "slice_wf content s' \<and> at_wf content a' \<and> sl_sized s' = sl_sized s \<and>
    (e = None \<longrightarrow> held_already a' off en \<and> ra_buf a' \<noteq> None) \<and>
    (sl_read s' = sl_read s \<and> (e = None \<longrightarrow> a' = a) \<or>
     (\<exists>stop. sl_read s' = sl_read s @ [Range off stop] \<and> stop - off \<le> max (en - off) maxWindow))"
proof (cases "held_already a off en")
  case True
  with assms show ?thesis by (auto simp: at_fill_def held_already_def split: option.splits)
next
  case False
  let ?win = "next_window a off" and ?a1 = "a\<lparr>ra_win := next_window a off\<rparr>" and ?L = "int (length content)"
  let ?stop = "min (off + max (en - off) ?win) ?L"
  have win: "0 < ?win" "?win \<le> maxWindow" using window_bounds [OF assms(3)] by simp_all
  have a1: "at_wf content ?a1" using assms(3) win by (simp add: at_wf_def split: option.splits)
  obtain y s2 where r: "slice_Read F (Range off ?stop) s = (y, s2)" by (meson prod.exhaust)
  note R = Read_spec [OF r assms(2) _ assms(8)]
  show ?thesis
  proof (cases y)
    case (Inl x)
    then have "e = Some x" "s' = s2" "a' = ?a1" using assms(1) False r by (simp_all add: at_fill_def Let_def)
    with R(1,3,4) a1 Inl show ?thesis by simp
  next
    case (Inr b)
    then have run: "e = None" "s' = s2" "a' = ?a1\<lparr>ra_buf := Some b, ra_base := off, ra_next := ?stop\<rparr>"
      using assms(1) False r by (simp_all add: at_fill_def Let_def)
    have b: "b = piece content off ?stop" "sl_read s2 = sl_read s @ [Range off ?stop]" using R(2) [OF _ Inr] by simp_all
    have stop: "off < ?stop" "?stop \<le> ?L" "en \<le> ?stop" "?stop - off \<le> max (en - off) maxWindow"
      using win assms(4-7) by auto
    have len: "int (length b) = ?stop - off" unfolding b(1) using assms(4) stop by (intro length_piece) simp_all
    have "at_wf content a'" using run(3) stop b(1) assms(4) win by (simp add: at_wf_def)
    moreover have "held_already a' off en" using run(3) stop len by (simp add: held_already_def)
    moreover have "\<exists>stop. sl_read s' = sl_read s @ [Range off stop] \<and> stop - off \<le> max (en - off) maxWindow"
      using run b(2) stop(4) by blast
    ultimately show ?thesis using run R(1,4) by simp
  qed
qed

lemma held_slice:
  assumes "at_wf content a" "held_already a off en" "off \<le> en"
  shows "go_slice (case ra_buf a of Some b \<Rightarrow> b | None \<Rightarrow> []) (off - ra_base a) (en - ra_base a) = Some (piece content off en)"
proof -
  obtain b where b: "ra_buf a = Some b" "0 \<le> ra_base a" "ra_base a < ra_next a" "ra_next a \<le> int (length content)"
    "b = piece content (ra_base a) (ra_next a)"
    using assms(1,2) by (auto simp: at_wf_def held_already_def split: option.splits)
  have "int (length b) = ra_next a - ra_base a" unfolding b(5) using b(2-4) by (intro length_piece) simp_all
  then have "ra_base a \<le> off" "en \<le> ra_next a" using assms(2) b(1) by (simp_all add: held_already_def)
  then show ?thesis using b assms(3) by (simp add: piece_piece)
qed

text \<open>
  One \<open>ReadAt\<close>: it never panics, it gives what the whole file would give or the error of a request, and
  it fetches at most one range, no longer than what was asked or the largest window.
\<close>

lemma ReadAt_spec:
  assumes "at_ReadAt F n off (s, a) = (x, s', a')" "slice_wf content s" "at_wf content a"
    and "int (length content) + int n \<le> max_int64"
  shows "slice_wf content s' \<and> at_wf content a' \<and>
    (\<exists>ans. x = Some ans \<and> (ans = whole_ReadAt content n off \<or> (\<exists>e. ans = ([], Some e)))) \<and>
    (sl_read s' = sl_read s \<or>
     (\<exists>stop. sl_read s' = sl_read s @ [Range off stop] \<and> stop - off \<le> max (int n) maxWindow))"
proof -
  let ?L = "int (length content)"
  obtain y s1 where z: "slice_Size F s = (y, s1)" by (meson prod.exhaust)
  note Z = Size_spec [OF z assms(2)]
  consider (refused) e where "y = Inl e" | (outside) "y = Inr ?L" "?L \<le> off \<or> off < 0"
    | (inside) "y = Inr ?L" "0 \<le> off" "off < ?L"
    using Z(2) by (cases y) fastforce+
  then show ?thesis
  proof cases
    case refused
    with assms(1,3) z Z(1,3) show ?thesis by (auto simp: at_ReadAt_def)
  next
    case outside
    then have "x = Some ([], Some io_EOF)" "s' = s1" "a' = a" using assms(1) z by (auto simp: at_ReadAt_def)
    with assms(3) Z(1,3) show ?thesis by simp
  next
    case inside
    have wr: "wrap64 (off + int n) = off + int n"
      using inside assms(4) by (intro wrap64_id) (simp add: is_int64_def min_int64_def)
    let ?en = "if ?L < off + int n then ?L else off + int n"
    obtain e s2 a2 where f: "at_fill F off ?en ?L (s1, a) = (e, s2, a2)" by (metis prod_cases3)
    have "int (length content) \<le> max_int64" using assms(4) by simp
    note S = fill_spec [OF f Z(1) assms(3) inside(2,3) _ _ this]
    have S': "slice_wf content s2" "at_wf content a2" "e = None \<Longrightarrow> held_already a2 off ?en"
      "sl_read s2 = sl_read s \<or> (\<exists>stop. sl_read s2 = sl_read s @ [Range off stop] \<and> stop - off \<le> max (?en - off) maxWindow)"
      using S inside Z(3) by auto
    have bound: "max (?en - off) maxWindow \<le> max (int n) maxWindow" by auto
    show ?thesis
    proof (cases e)
      case (Some d)
      then have "x = Some ([], Some d)" "s' = s2" "a' = a2"
        using assms(1) z inside f by (auto simp: at_ReadAt_def Let_def wr)
      with S'(1,2,4) bound show ?thesis by fastforce
    next
      case None
      have cut: "go_slice (case ra_buf a2 of Some b \<Rightarrow> b | None \<Rightarrow> []) (off - ra_base a2) (?en - ra_base a2) =
          Some (piece content off ?en)"
        using S'(3) [OF None] inside by (intro held_slice [OF S'(2)]) auto
      have run: "x = Some (take n (piece content off ?en), if ?L < off + int n then Some io_EOF else None)" "s' = s2" "a' = a2"
        using assms(1) z inside f None cut by (auto simp: at_ReadAt_def Let_def wr)
      have tk: "take n (piece content off ?en) = take n (drop (nat off) content)"
        using inside by (auto simp: piece_def min_def nat_diff_distrib)
      have "length (take n (drop (nat off) content)) < n \<longleftrightarrow> ?L < off + int n"
        using inside by auto
      with run(1) tk have "x = Some (whole_ReadAt content n off)" using inside by (simp add: whole_ReadAt_def Let_def)
      with run(2,3) S'(1,2,4) bound show ?thesis by fastforce
    qed
  qed
qed

end

text \<open>A fetcher that always answers.\<close>

locale answering_ranges = serving_ranges +
  assumes says_ranged: "\<And>k src hs. content \<noteq> [] \<Longrightarrow> \<exists>n. rv_ranged F k src hs = Inr (n, True) \<and> 0 < n"
    and fetches: "\<And>k rq. 0 \<le> r_start (rr_range rq) \<Longrightarrow> r_start (rr_range rq) < r_end (rr_range rq) \<Longrightarrow>
      r_end (rr_range rq) \<le> int (length content) \<Longrightarrow> r_end (rr_range rq) \<le> max_int64 \<Longrightarrow>
      fst (rv_fetch F k rq (buffer_write (r_start (rr_range rq)) (r_end (rr_range rq) - r_start (rr_range rq)))
        (buffer_blank (r_start (rr_range rq)) (r_end (rr_range rq) - r_start (rr_range rq)))) = None"
begin

lemma Size_answers:
  assumes "content \<noteq> []" "slice_wf content s"
  shows "\<exists>s'. slice_Size F s = (Inr (int (length content)), s') \<and> slice_wf content s' \<and> sl_source s' = sl_source s"
proof -
  obtain y s' where z: "slice_Size F s = (y, s')" by (meson prod.exhaust)
  obtain n where "rv_ranged F (sl_calls s) (sl_source s) (sl_headers s) = Inr (n, True)" "0 < n"
    using says_ranged [OF assms(1)] by blast
  with z have "\<exists>n. y = Inr n" by (auto simp: slice_Size_def Let_def split: if_splits)
  with z Size_spec [OF z assms(2)] show ?thesis by auto
qed

lemma Read_answers:
  assumes "0 \<le> r_start r" "r_start r < r_end r" "r_end r \<le> int (length content)" "int (length content) \<le> max_int64"
  shows "\<exists>b s'. slice_Read F r s = (Inr b, s')"
proof -
  let ?rq = "\<lparr>rr_source = sl_source s, rr_range = r, rr_headers = sl_headers s, rr_validators = sl_validators s\<rparr>"
  have "fst (rv_fetch F (sl_calls s) ?rq (buffer_write (r_start r) (r_end r - r_start r))
      (buffer_blank (r_start r) (r_end r - r_start r))) = None"
    using fetches [of ?rq] assms by simp
  then obtain f where "rv_fetch F (sl_calls s) ?rq (buffer_write (r_start r) (r_end r - r_start r))
      (buffer_blank (r_start r) (r_end r - r_start r)) = (None, f)" by (metis prod.collapse)
  with assms(1,2) show ?thesis by (simp add: slice_Read_def Let_def)
qed

lemma ReadAt_answers:
  assumes "content \<noteq> []" "slice_wf content s" "at_wf content a" "int (length content) + int n \<le> max_int64"
  shows "\<exists>s' a'. at_ReadAt F n off (s, a) = (Some (whole_ReadAt content n off), s', a') \<and> slice_wf content s' \<and> at_wf content a'"
proof -
  let ?L = "int (length content)"
  obtain s1 where z: "slice_Size F s = (Inr ?L, s1)" "slice_wf content s1" using Size_answers [OF assms(1,2)] by blast
  obtain x s' a' where run: "at_ReadAt F n off (s, a) = (x, s', a')" by (metis prod_cases3)
  note S = ReadAt_spec [OF run assms(2-4)]
  show ?thesis
  proof (cases "?L \<le> off \<or> off < 0")
    case True
    then have "x = Some (whole_ReadAt content n off)" using run z by (auto simp: at_ReadAt_def whole_ReadAt_def)
    with S run show ?thesis by blast
  next
    case False
    let ?en = "if ?L < off + int n then ?L else off + int n"
    have wr: "wrap64 (off + int n) = off + int n"
      using False assms(4) by (intro wrap64_id) (simp add: is_int64_def min_int64_def)
    have L: "?L \<le> max_int64" using assms(4) by simp
    have win: "0 < next_window a off" using window_bounds [OF assms(3)] by simp
    have "\<exists>b s2. slice_Read F (Range off (min (off + max (?en - off) (next_window a off)) ?L)) s1 = (Inr b, s2)"
      using False win by (intro Read_answers [OF _ _ _ L]) auto
    then obtain s2 a2 where f: "at_fill F off ?en ?L (s1, a) = (None, s2, a2)"
      by (cases "held_already a off ?en") (auto simp: at_fill_def Let_def)
    then have "\<exists>b e. x = Some (b, e) \<and> (e = None \<or> e = Some io_EOF \<and> ?L < off + int n)"
      using run z False S by (auto simp: at_ReadAt_def Let_def wr split: if_splits)
    moreover have "x \<noteq> Some ([], Some io_EOF)" if "?L < off + int n"
    proof -
      have "held_already a2 off ?en" "at_wf content a2"
        using fill_spec [OF f z(2) assms(3) _ _ _ _ L] False by auto
      from held_slice [OF this(2,1)] have cut: "go_slice (case ra_buf a2 of Some b \<Rightarrow> b | None \<Rightarrow> [])
          (off - ra_base a2) (?en - ra_base a2) = Some (piece content off ?en)" using False by simp
      have "x = Some (take n (piece content off ?en), Some io_EOF)"
        using run z False f cut that by (auto simp: at_ReadAt_def Let_def wr)
      moreover have "0 < n" using that False by auto
      moreover have "piece content off ?en \<noteq> []" using that False by (simp add: piece_def nat_less_iff not_le)
      ultimately show ?thesis by simp
    qed
    ultimately have "x = Some (whole_ReadAt content n off)" using S by auto
    with S run show ?thesis by blast
  qed
qed

end

text \<open>How much a walk asks for at once.\<close>

primrec walk_small :: "nat \<Rightarrow> 'a walk \<Rightarrow> bool" where
  "walk_small m (Walked x) = True"
| "walk_small m (AskAt off n k) = (n \<le> m \<and> (\<forall>ans. walk_small m (k ans)))"

context answering_ranges
begin

text \<open>Any program over \<open>ReadAt\<close> gets through a slice what it gets from the file.\<close>

lemma walk_same:
  "content \<noteq> [] \<Longrightarrow> slice_wf content s \<Longrightarrow> at_wf content a \<Longrightarrow> int (length content) + int m \<le> max_int64 \<Longrightarrow>
     walk_small m w \<Longrightarrow>
     \<exists>s' a'. walk_remote F w (s, a) = (Some (walk_whole content w), s', a') \<and> slice_wf content s' \<and> at_wf content a'"
proof (induction w arbitrary: s a)
  case (Walked x)
  then show ?case by simp
next
  case (AskAt off n k)
  have "int (length content) + int n \<le> max_int64" using AskAt.prems(4,5) by simp
  from ReadAt_answers [OF AskAt.prems(1-3) this]
  obtain s' a' where r: "at_ReadAt F n off (s, a) = (Some (whole_ReadAt content n off), s', a')"
    "slice_wf content s'" "at_wf content a'" by blast
  have "walk_small m (k (whole_ReadAt content n off))" using AskAt.prems(5) by (cases "whole_ReadAt content n off") simp
  from AskAt.IH [OF _ AskAt.prems(1) r(2,3) AskAt.prems(4) this] r(1) show ?case by auto
qed

lemma Zip_same:
  assumes "content \<noteq> []" "slice_wf content s" "int (length content) + int m \<le> max_int64"
    and "walk_small m (reader (int (length content)))"
  shows "\<exists>s'. slice_Zip F reader s =
    (Some (case walk_whole content (reader (int (length content))) of
       Inl e \<Rightarrow> Inl (Errorf [Err (Var ErrUnindexable), Lit '': '', Str (s_locator (sl_source s)), Lit '': '', Shown e])
     | Inr es \<Rightarrow> Inr es), s') \<and> slice_wf content s'"
proof -
  obtain s1 where z: "slice_Size F s = (Inr (int (length content)), s1)" "slice_wf content s1" "sl_source s1 = sl_source s"
    using Size_answers [OF assms(1,2)] by blast
  obtain s2 a2 where w: "walk_remote F (reader (int (length content))) (s1, slice_At) =
      (Some (walk_whole content (reader (int (length content)))), s2, a2)" "slice_wf content s2"
    using walk_same [OF assms(1) z(2) at_wf_new assms(3,4)] by blast
  show ?thesis
  proof (cases "walk_whole content (reader (int (length content)))")
    case (Inl e)
    with z w show ?thesis by (simp add: slice_Zip_def)
  next
    case (Inr es)
    with z w show ?thesis by (simp add: slice_Zip_def)
  qed
qed

end

section \<open>The fetchers that meet the contract\<close>

lemma buffer_contract: "writer_contract (buffer_write base len)"
  by (simp add: writer_contract_def buffer_write_def Let_def)

text \<open>What a copy into a slice's buffer leaves there.\<close>

lemma copied_piece:
  assumes "copyRange (buffer_write (r_start rng) len) (\<lambda>_. None) rng b f = (None, w)"
    and "0 \<le> r_start rng" "r_start rng < r_end rng" "r_end rng \<le> max_int64" "r_end rng \<le> int (length content)"
    and "take (nat (r_end rng - r_start rng)) (concat (bd_chunks b)) = piece content (r_start rng) (r_end rng)"
    and "r_start rng \<le> i" "i < r_end rng"
  shows "rw_file w i = Some (content ! nat i)"
proof -
  have "rw_file w = write_at (r_start rng) (piece content (r_start rng) (r_end rng)) f"
    using copyRange_spec(2) [OF assms(1) buffer_contract] assms(2-4,6) by simp
  moreover have "int (length (piece content (r_start rng) (r_end rng))) = r_end rng - r_start rng"
    using assms(2,3,5) by simp
  moreover have "piece content (r_start rng) (r_end rng) ! nat (i - r_start rng) = content ! nat i"
    using nth_piece [OF assms(2,5), of "nat (i - r_start rng)"] assms(2,7,8) by (simp add: nat_diff_distrib)
  ultimately show ?thesis using assms(7,8) by (simp add: write_at_def)
qed

definition honest_server :: "string \<Rightarrow> (nat \<Rightarrow> network) \<Rightarrow> bool" where
  "honest_server content N \<longleftrightarrow>
     (\<forall>k src hs resp b. nw_send (N k) 0 (probe_request src hs) = Inr (resp, b) \<longrightarrow> rs_status resp = 206 \<longrightarrow>
        sizeFromContentRange (rs_header resp ''Content-Range'') \<le> 0 \<or>
        sizeFromContentRange (rs_header resp ''Content-Range'') = int (length content)) \<and>
     (\<forall>k rq resp b. nw_send (N k) 0 (range_request_of rq) = Inr (resp, b) \<longrightarrow> rs_status resp = 206 \<longrightarrow>
        namesRange (rs_header resp ''Content-Range'') (rr_range rq) \<longrightarrow>
        take (nat (r_end (rr_range rq) - r_start (rr_range rq))) (concat (bd_chunks b)) =
          piece content (r_start (rr_range rq)) (r_end (rr_range rq)))"

lemma http_serving:
  assumes "honest_server content N"
  shows "serving_ranges content (http_service N)"
proof
  fix k src hs n
  assume "rv_ranged (http_service N) k src hs = Inr (n, True)" "0 < n"
  then show "n = int (length content)"
    using assms unfolding http_service_def http_Ranged_def honest_server_def
    by (fastforce simp: bind_result_Inr_iff split: option.splits if_splits)
next
  fix k f i and rq :: range_request
  let ?r = "rr_range rq"
  assume r: "0 \<le> r_start ?r" "r_start ?r < r_end ?r" "r_end ?r \<le> int (length content)" "r_end ?r \<le> max_int64"
    and run: "rv_fetch (http_service N) k rq (buffer_write (r_start ?r) (r_end ?r - r_start ?r))
      (buffer_blank (r_start ?r) (r_end ?r - r_start ?r)) = (None, f)" and i: "r_start ?r \<le> i" "i < r_end ?r"
  from run obtain b w where b: "range_answer (N k) rq = Inr b" and w: "f = rw_file w"
      "copyRange (buffer_write (r_start ?r) (r_end ?r - r_start ?r)) (\<lambda>_. None) ?r b
        (buffer_blank (r_start ?r) (r_end ?r - r_start ?r)) = (None, w)"
    by (auto simp: http_service_def http_FetchRange_def split: sum.splits prod.splits)
  have "take (nat (r_end ?r - r_start ?r)) (concat (bd_chunks b)) = piece content (r_start ?r) (r_end ?r)"
    using range_answer_named [OF b] assms unfolding honest_server_def by blast
  from copied_piece [OF w(2) r(1,2,4,3) this i] show "f i = Some (content ! nat i)" by (simp add: w(1))
qed

text \<open>A file of this machine is copied in one chunk, which the buffer takes.\<close>

lemma one_chunk_copied:
  assumes "0 \<le> r_start rng" "r_start rng < r_end rng" "r_end rng \<le> max_int64" "int (length p) = r_end rng - r_start rng"
  shows "\<exists>w. copyRange (buffer_write (r_start rng) (r_end rng - r_start rng)) (\<lambda>_. None) rng
    \<lparr>bd_chunks = [p], bd_end = None\<rparr> f = (None, w)"
proof -
  have p: "p \<noteq> []" "length p = nat (r_end rng - r_start rng)" using assms(2,4) by auto
  have i64: "wrap64 (r_start rng + int (length p)) = r_end rng"
    using assms(1-3) by (simp only: assms(4)) (simp add: is_int64_def min_int64_def)
  have chunks: "limit_chunks (nat (r_end rng - r_start rng)) [p] None = ([p], None, [])" using p assms(2) by simp
  have take: "buffer_write (r_start rng) (r_end rng - r_start rng) (r_start rng) p = (length p, None)"
    using assms(4) by (simp add: buffer_write_def)
  show ?thesis
    unfolding copyRange_def body.simps Let_def chunks by (simp add: range_write_def take i64 [unfolded assms(4)] i64 [unfolded assms(4), simplified] p(1) assms(4) Let_def)
qed

lemma section_copied:
  assumes "0 \<le> r_start rng" "r_start rng < r_end rng" "r_end rng \<le> max_int64" "r_end rng \<le> int (length content)"
  shows "\<exists>w. copyRange (buffer_write (r_start rng) (r_end rng - r_start rng)) (\<lambda>_. None) rng (section_body content rng) f = (None, w)"
  unfolding section_body_def using assms by (intro one_chunk_copied) auto

interpretation file_slice: answering_ranges content "file_service (\<lambda>_. Inr (content, True))" for content
proof
  show "n = int (length content)"
    if "rv_ranged (file_service (\<lambda>_. Inr (content, True))) k src hs = Inr (n, True)" "0 < n" for k src hs n
    using that by (simp add: file_service_def file_Ranged_def)
  show "\<exists>n. rv_ranged (file_service (\<lambda>_. Inr (content, True))) k src hs = Inr (n, True) \<and> 0 < n"
    if "content \<noteq> []" for k src hs
    using that by (simp add: file_service_def file_Ranged_def)
next
  fix k f i and rq :: range_request
  let ?r = "rr_range rq" and ?F = "file_service (\<lambda>_. Inr (content, True))"
  assume r: "0 \<le> r_start ?r" "r_start ?r < r_end ?r" "r_end ?r \<le> int (length content)" "r_end ?r \<le> max_int64"
  obtain w where w: "copyRange (buffer_write (r_start ?r) (r_end ?r - r_start ?r)) (\<lambda>_. None) ?r (section_body content ?r)
      (buffer_blank (r_start ?r) (r_end ?r - r_start ?r)) = (None, w)"
    using section_copied [OF r(1,2,4,3)] by blast
  then have run: "rv_fetch ?F k rq (buffer_write (r_start ?r) (r_end ?r - r_start ?r))
      (buffer_blank (r_start ?r) (r_end ?r - r_start ?r)) = (None, rw_file w)"
    by (simp add: file_service_def file_FetchRange_def)
  show "fst (rv_fetch ?F k rq (buffer_write (r_start ?r) (r_end ?r - r_start ?r))
      (buffer_blank (r_start ?r) (r_end ?r - r_start ?r))) = None" by (simp add: run)
  assume "rv_fetch ?F k rq (buffer_write (r_start ?r) (r_end ?r - r_start ?r))
      (buffer_blank (r_start ?r) (r_end ?r - r_start ?r)) = (None, f)" "r_start ?r \<le> i" "i < r_end ?r"
  moreover have "take (nat (r_end ?r - r_start ?r)) (concat (bd_chunks (section_body content ?r))) =
      piece content (r_start ?r) (r_end ?r)" by (simp add: section_body_def piece_def)
  ultimately show "f i = Some (content ! nat i)" using copied_piece [OF w r(1,2,4,3)] run by simp
qed

section \<open>Receipts and windows\<close>

text \<open>A receipt names exactly the bytes that were read, in the one canonical spelling.\<close>

lemma Receipt_spec:
  assumes "range_layer R" "slice_wf content s"
  shows "canonical (rcp_read (slice_Receipt R s)) \<and> bytes_of (rcp_read (slice_Receipt R s)) = bytes_of (sl_read s)"
proof -
  have "\<forall>r\<in>set (sl_read s). 0 \<le> r_start r \<and> r_start r < r_end r" using assms(2) by (simp add: slice_wf_def)
  from range_layer.canon_law [OF assms(1) this] obtain cs where
    "ro_canon R (sl_read s) = Inr cs" "canonical cs" "bytes_of cs = bytes_of (sl_read s)" by blast
  then show ?thesis by (simp add: slice_Receipt_def)
qed

text \<open>
  A read that begins inside the bytes held and ends past them does not continue the window, it starts
  a new one of the smallest size at its own offset, and fetches again what was held from there on.
\<close>

lemma straddling_fill:
  assumes "ra_buf a = Some b" "ra_base a \<le> off" "off < ra_next a" "ra_next a = ra_base a + int (length b)"
    and "ra_next a < en" "en \<le> sz" "slice_Read F (Range off (min (off + max (en - off) minWindow) sz)) s = (Inr c, s')"
  shows "\<exists>a'. at_fill F off en sz (s, a) = (None, s', a') \<and> ra_win a' = minWindow \<and> ra_base a' = off"
  using assms by (simp add: at_fill_def held_already_def next_window_def Let_def)


section \<open>Members\<close>

lemma io_copy_spec:
  "io_copy out k cs en sofar = (e, got) \<Longrightarrow>
     \<exists>m \<le> length (concat cs). got = sofar @ take m (concat cs) \<and> (e = None \<longrightarrow> m = length (concat cs) \<and> en = None)"
proof (induction out k cs en sofar rule: io_copy.induct)
  case (1 out k en sofar)
  then show ?case by simp
next
  case (2 out k c cs en sofar)
  obtain m x where r: "out k c = (m, x)" by (meson prod.exhaust)
  consider (skip) "c = []" | (stop) "c \<noteq> []" "x \<noteq> None \<or> m \<noteq> length c" | (on) "c \<noteq> []" "x = None" "m = length c"
    by blast
  then show ?case
  proof cases
    case skip
    with 2 show ?thesis by simp
  next
    case stop
    then have "got = sofar @ take m c" "e \<noteq> None" using "2.prems" r by (auto split: if_splits)
    then show ?thesis by (intro exI [of _ "min m (length c)"]) (auto simp: min_def)
  next
    case on
    with "2.IH"(2) [OF _ r [symmetric]] "2.prems" r obtain j where j: "j \<le> length (concat cs)"
      "got = (sofar @ c) @ take j (concat cs)" "e = None \<longrightarrow> j = length (concat cs) \<and> en = None" by auto
    then show ?thesis by (intro exI [of _ "length c + j"]) simp
  qed
qed

lemma limit_chunks_whole:
  "limit_chunks n cs en = (l, e, rest) \<Longrightarrow> length (concat l) < n \<Longrightarrow> concat l = concat cs \<and> e = en"
proof (induction n cs en arbitrary: l e rest rule: limit_chunks.induct)
  case (1 n en)
  then show ?case by auto
next
  case (2 n c cs en)
  obtain l' e' rest' where r: "limit_chunks (n - length c) cs en = (l', e', rest')" by (metis prod_cases3)
  from 2 r show ?case by (auto split: if_splits)
qed

lemma Member_run:
  assumes "archive_Member loc es out name lim = ((n, e), got)"
  obtains (refused) "got = []" "n = 0" "e \<noteq> None"
    | (copied) f b cs en rest e' where "archive_find loc es name = Inr f" "0 < lim" "ze_declared f \<le> lim" "ze_open f = Inr b"
        "limit_chunks (nat (wrap64 (lim + 1))) (bd_chunks b) (bd_end b) = (cs, en, rest)" "io_copy out 0 cs en [] = (e', got)"
        "n = int (length got)" "e = None \<longrightarrow> e' = None \<and> n \<le> lim"
        "lim < n \<or> (\<exists>x. e' = Some x \<and> err_is_foreign x ZipErrFormat) \<longrightarrow> (\<exists>x. e = Some x \<and> err_is x ErrExpansion)"
        "n \<le> lim \<longrightarrow> \<not> (\<exists>x. e' = Some x \<and> err_is_foreign x ZipErrFormat) \<longrightarrow> e = e'"
proof (cases "archive_find loc es name")
  case (Inl x)
  then show ?thesis using assms refused by (auto simp: archive_Member_def)
next
  case (Inr f)
  show ?thesis
  proof (cases "0 < lim \<and> ze_declared f \<le> lim")
    case False
    then show ?thesis using assms refused Inr by (auto simp: archive_Member_def split: if_splits)
  next
    case lim: True
    show ?thesis
    proof (cases "ze_open f")
      case (Inl x)
      then show ?thesis using assms refused Inr lim by (auto simp: archive_Member_def)
    next
      case (Inr b)
      obtain cs en rest where l: "limit_chunks (nat (wrap64 (lim + 1))) (bd_chunks b) (bd_end b) = (cs, en, rest)"
        by (metis prod_cases3)
      obtain e' g where c: "io_copy out 0 cs en [] = (e', g)" by (meson prod.exhaust)
      have run: "((n, e), got) = (let n = int (length g) in
          if lim < n then ((n, Some (Errorf [Err (Var ErrExpansion), Lit '': '', Str name, Lit '' ran past '', Num lim, Lit '' bytes''])), g)
          else if (case e' of Some x \<Rightarrow> err_is_foreign x ZipErrFormat | None \<Rightarrow> False) then
            ((n, Some (Errorf [Err (Var ErrExpansion), Lit '': '', Str name, Lit '' ran past the '',
               Num (ze_declared f), Lit '' bytes it declared''])), g)
          else ((n, e'), g))"
        using assms Inr lim l c \<open>archive_find loc es name = Inr f\<close> by (simp add: archive_Member_def)
      have res: "got = g" "n = int (length g)" "e = None \<longrightarrow> e' = None \<and> n \<le> lim"
        "lim < n \<or> (\<exists>x. e' = Some x \<and> err_is_foreign x ZipErrFormat) \<longrightarrow> (\<exists>x. e = Some x \<and> err_is x ErrExpansion)"
        "n \<le> lim \<longrightarrow> \<not> (\<exists>x. e' = Some x \<and> err_is_foreign x ZipErrFormat) \<longrightarrow> e = e'"
        using run by (auto simp: Let_def err_is_def split: if_splits option.splits)
      show ?thesis
        by (rule copied [OF \<open>archive_find loc es name = Inr f\<close> _ _ Inr l]) (use c lim res in simp_all)
    qed
  qed
qed

lemma Member_spec:
  assumes "archive_Member loc es out name lim = ((n, e), got)" "lim < max_int64"
  shows "n = int (length got) \<and> (got \<noteq> [] \<longrightarrow> n \<le> lim + 1) \<and>
    (got \<noteq> [] \<or> e = None \<longrightarrow> (\<exists>f b. archive_find loc es name = Inr f \<and> ze_declared f \<le> lim \<and> ze_open f = Inr b \<and>
      got = take (length got) (concat (bd_chunks b)) \<and>
      (e = None \<longrightarrow> got = concat (bd_chunks b) \<and> bd_end b = None \<and> n \<le> lim) \<and>
      (lim < int (length (concat (bd_chunks b))) \<longrightarrow> e \<noteq> None)))"
  using assms(1)
proof (cases rule: Member_run)
  case refused
  then show ?thesis by auto
next
  case (copied f b cs en rest e')
  have w: "wrap64 (lim + 1) = lim + 1"
    using copied(2) assms(2) by (intro wrap64_id) (simp add: is_int64_def min_int64_def)
  note ls = limit_chunks_spec [OF copied(5)]
  obtain m where m: "m \<le> length (concat cs)" "got = take m (concat cs)" "e' = None \<longrightarrow> m = length (concat cs) \<and> en = None"
    using io_copy_spec [OF copied(6)] by auto
  have len: "length got \<le> nat (lim + 1)" using m(1,2) ls w by auto
  have pre: "got = take (length got) (concat (bd_chunks b))"
    using m(1,2) ls by (simp add: w min_def)
  have whole: "got = concat (bd_chunks b) \<and> bd_end b = None" if "e = None"
  proof -
    have g: "got = concat cs" "en = None" "n \<le> lim" using copied(8) that m by auto
    then have "length (concat cs) < nat (lim + 1)" using copied(7) by simp
    with limit_chunks_whole [OF copied(5)] w g show ?thesis by simp
  qed
  have over: "e \<noteq> None" if "lim < int (length (concat (bd_chunks b)))" using whole copied(7,8) that by fastforce
  have n: "n \<le> lim + 1" using copied(2,7) len by simp
  have "(\<exists>f b. archive_find loc es name = Inr f \<and> ze_declared f \<le> lim \<and> ze_open f = Inr b \<and>
      got = take (length got) (concat (bd_chunks b)) \<and>
      (e = None \<longrightarrow> got = concat (bd_chunks b) \<and> bd_end b = None \<and> n \<le> lim) \<and>
      (lim < int (length (concat (bd_chunks b))) \<longrightarrow> e \<noteq> None))"
    using copied(1,3,4,8) pre whole over by blast
  with n copied(7) show ?thesis by blast
qed

text \<open>
  With the largest limit an \<open>int64\<close> holds, \<open>limit + 1\<close> is negative, the reader ends at once and every
  member is reported written in full without a byte of it.
\<close>

lemma Member_largest_limit:
  assumes "archive_find loc es name = Inr f" "ze_declared f \<le> max_int64" "ze_open f = Inr b"
  shows "archive_Member loc es out name max_int64 = ((0, None), [])"
proof -
  have z: "nat (wrap64 (max_int64 + 1)) = 0" by (simp add: wrap64_def max_int64_def)
  have l: "\<exists>rest. limit_chunks 0 (bd_chunks b) (bd_end b) = ([], None, rest)" by (cases "bd_chunks b") simp_all
  have pos: "\<not> max_int64 \<le> 0" by (simp add: max_int64_def)
  show ?thesis using assms l pos by (auto simp: archive_Member_def z not_less)
qed

section \<open>Formats\<close>

lemma Indexable_refuses:
  "Indexable uni loc = Some e \<Longrightarrow> err_is e ErrUnindexable"
  by (auto simp: Indexable_def Let_def err_is_def split: if_splits option.splits)

lemma formats_apart: "list_all (\<lambda>x. list_all (\<lambda>(y, _). \<not> suffix x y \<and> \<not> suffix y x) notIndexable) zipShaped"
  by code_simp

lemma Indexable_only_zip:
  assumes "Indexable uni loc = None" "(x, why) \<in> set notIndexable"
  shows "\<not> suffix x (takeWhile (\<lambda>c. c \<noteq> CHR ''?'' \<and> c \<noteq> CHR ''#'') (to_lower uni (path_base loc)))"
proof
  let ?n = "takeWhile (\<lambda>c. c \<noteq> CHR ''?'' \<and> c \<noteq> CHR ''#'') (to_lower uni (path_base loc))"
  assume s: "suffix x ?n"
  from assms(1) obtain z where z: "z \<in> set zipShaped" "suffix z ?n"
    by (auto simp: Indexable_def Let_def list_ex_iff split: if_splits option.splits)
  from suffix_same_cases [OF s z(2)] formats_apart z(1) assms(2) show False
    by (fastforce simp: list_all_iff)
qed

lemma Indexable_query: "Indexable id ''https://h/a.tar.gz?mirror=/b.zip'' = None"
  by code_simp


section \<open>A prefix grown many times\<close>

primrec grow_all :: "range_service \<Rightarrow> int list \<Rightarrow> string \<times> slice \<Rightarrow> string \<times> slice" where
  "grow_all F [] ps = ps"
| "grow_all F (n # ns) ps = grow_all F ns (snd (prefix_Grow F n ps))"

lemma range_bytes_append [simp]: "range_bytes (rs @ [r]) = range_bytes rs + (r_end r - r_start r)"
  by (simp add: range_bytes_def)

lemma grow_all_spec:
  assumes "serving_ranges content F" "int (length content) \<le> max_int64"
  shows "grow_all F ns (buf, s) = (buf', s') \<Longrightarrow> \<forall>n\<in>set ns. 0 \<le> n \<Longrightarrow> slice_wf content s \<Longrightarrow>
     piece content 0 (int (length buf)) = buf \<Longrightarrow> length buf \<le> length content \<Longrightarrow>
     range_bytes (sl_read s) = int (length buf) \<Longrightarrow>
     piece content 0 (int (length buf')) = buf' \<and> range_bytes (sl_read s') = int (length buf') \<and> slice_wf content s'"
proof (induction ns arbitrary: buf s)
  case Nil
  then show ?case by simp
next
  case (Cons n ns)
  obtain x b1 s1 where g: "prefix_Grow F n (buf, s) = (x, b1, s1)" by (metis prod_cases3)
  have n: "0 \<le> n" using Cons.prems(2) by simp
  note G = serving_ranges.Grow_spec [OF assms(1) g Cons.prems(3) assms(2) Cons.prems(4) n Cons.prems(5)]
  from G(6) Cons.prems(6) have "range_bytes (sl_read s1) = int (length b1)" by auto
  moreover have "grow_all F ns (b1, s1) = (buf', s')" using Cons.prems(1) g by simp
  ultimately show ?case using Cons.IH [of b1 s1] Cons.prems(2) G(3-5) by simp
qed

end
