(* ===== verification/Tiers.thy ===== *)
theory Tiers
  imports Declarations "HOL-Library.List_Lexorder" "HOL-Library.Char_ord"
begin

text \<open>
  The registry of tiers (\<open>go/tiers.go\<close>): which bindings a program has registered, in which order they
  are asked, which claims their behaviour refuted, and what each can do here and now.

  The three package variables (\<open>tiers\<close>, \<open>disbelieved\<close>, \<open>probing\<close>) are one state; every function holds
  the lock of the one it uses. What a tier's \<open>New\<close> does within the budget of a probe is an argument.
  The lemmas show that names stay distinct and the order right, that a refutation lasts as long as its
  tier, and that what is offered is exactly what answered and can be read.
\<close>

section \<open>The registry\<close>

record publisher =
  pb_name :: string
  pb_proof :: string

record registration =
  tr_name :: string
  tr_publisher :: publisher
  tr_over :: string
  tr_facility :: string
  tr_priority :: int

definition OverOurs :: string where "OverOurs = ''ours''"
definition OverPlatform :: string where "OverPlatform = ''platform''"
definition OverForeign :: string where "OverForeign = ''foreign''"
definition OverUndeclared :: string where "OverUndeclared = []"

definition Over_String :: "string \<Rightarrow> string" where
  "Over_String x = (if x = OverUndeclared then ''undeclared'' else x)"

record tier_table =
  tt_tiers :: "registration list"
  tt_refuted :: refuted_claims
  tt_probing :: "string list"

definition no_tiers :: tier_table where
  "no_tiers = \<lparr>tt_tiers = [], tt_refuted = [], tt_probing = []\<rparr>"

fun replace_tier :: "registration \<Rightarrow> registration list \<Rightarrow> registration list option" where
  "replace_tier t [] = None"
| "replace_tier t (x # xs) = (if tr_name x = tr_name t then Some (t # xs) else map_option (Cons x) (replace_tier t xs))"

definition tier_order :: "registration list \<Rightarrow> registration list" where
  "tier_order ts = sort_key tr_priority ts"

definition RegisterTier :: "registration \<Rightarrow> tier_table \<Rightarrow> tier_table" where
  "RegisterTier t s =
     s\<lparr>tt_tiers := tier_order (case replace_tier t (tt_tiers s) of Some ts \<Rightarrow> ts | None \<Rightarrow> tt_tiers s @ [t])\<rparr>"

fun remove_tier :: "string \<Rightarrow> registration list \<Rightarrow> registration list option" where
  "remove_tier n [] = None"
| "remove_tier n (x # xs) = (if tr_name x = n then Some xs else map_option (Cons x) (remove_tier n xs))"

definition UnregisterTier :: "string \<Rightarrow> tier_table \<Rightarrow> bool \<times> tier_table" where
  "UnregisterTier n s =
     (let s1 = s\<lparr>tt_refuted := filter (\<lambda>x. fst x \<noteq> n) (tt_refuted s)\<rparr> in
      case remove_tier n (tt_tiers s) of
        Some ts \<Rightarrow> (True, s1\<lparr>tt_tiers := ts\<rparr>)
      | None \<Rightarrow> (False, s1))"

definition disbelieve_tier :: "string \<Rightarrow> string \<Rightarrow> tier_table \<Rightarrow> tier_table" where
  "disbelieve_tier n c s = s\<lparr>tt_refuted := Disbelieve n c (tt_refuted s)\<rparr>"

definition Disbelieved :: "string \<Rightarrow> tier_table \<Rightarrow> string list" where
  "Disbelieved n s = sort (map snd (filter (\<lambda>x. fst x = n) (tt_refuted s)))"

text \<open>\<open>us\<close> is the publisher \<open>Program\<close> and \<open>identity.ProofBound\<close> make.\<close>

definition tier_publisher :: "publisher \<Rightarrow> registration \<Rightarrow> publisher" where
  "tier_publisher us t = (if pb_name (tr_publisher t) \<noteq> [] then tr_publisher t else us)"

definition publisherOf :: "publisher \<Rightarrow> publisher \<Rightarrow> string \<Rightarrow> tier_table \<Rightarrow> publisher" where
  "publisherOf us nobody n s =
     (case find (\<lambda>t. tr_name t = n) (tt_tiers s) of Some t \<Rightarrow> tier_publisher us t | None \<Rightarrow> nobody)"

definition RegisteredTiers :: "tier_table \<Rightarrow> string list" where
  "RegisteredTiers s = map tr_name (tt_tiers s)"

section \<open>Probing\<close>

text \<open>
  What \<open>New\<close> does: it answers within the budget, after it, or never. An answer is an error, nothing, or
  a delegator.
\<close>

datatype 'x new_tier = Answers "err + 'x tier option" | TooLate "err + 'x tier option" | NeverAnswers

definition not_answered :: "registration \<Rightarrow> err" where
  "not_answered t = Errorf [Str (tr_name t), Lit '' has not answered the probe before this one'']"

definition out_of_budget :: "string \<Rightarrow> registration \<Rightarrow> err" where
  "out_of_budget budget t = Errorf [Str (tr_name t), Lit '' did not answer a probe within '', Str budget]"

text \<open>
  \<open>probe\<close>: its result and the delegators it closes. The goroutine that runs \<open>New\<close> forgets that it is
  probing after it has sent its answer, which is the step \<open>probe_settles\<close>.
\<close>

definition probe :: "string \<Rightarrow> (registration \<Rightarrow> 'x new_tier) \<Rightarrow> registration \<Rightarrow> tier_table \<Rightarrow>
    (err + 'x tier option) \<times> 'x tier list \<times> tier_table" where
  "probe budget new t s =
     (if tr_name t \<in> set (tt_probing s) then (Inl (not_answered t), [], s)
      else let s1 = s\<lparr>tt_probing := tr_name t # tt_probing s\<rparr> in
        case new t of
          Answers a \<Rightarrow> (a, [], s1)
        | TooLate (Inr (Some d)) \<Rightarrow> (Inl (out_of_budget budget t), [d], s1)
        | _ \<Rightarrow> (Inl (out_of_budget budget t), [], s1))"

definition probe_settles :: "string \<Rightarrow> tier_table \<Rightarrow> tier_table" where
  "probe_settles n s = s\<lparr>tt_probing := removeAll n (tt_probing s)\<rparr>"

definition declaredBy :: "'x tier \<Rightarrow> decl" where
  "declaredBy d = (case dg_declared d of Some dec \<Rightarrow> dec
     | None \<Rightarrow> \<lparr>dc_hosts = HostAny, dc_min = 0, dc_max = 0, dc_digests = []\<rparr>)"

record offer =
  of_system :: string
  of_priority :: int
  of_by :: publisher
  of_over :: string
  of_facility :: string
  of_usable :: bool
  of_off :: bool
  of_why :: string
  of_disbelieved :: "string list"

text \<open>One tier of \<open>offers\<close>: the offer, the delegator if it is usable, and what was closed.\<close>

definition offer_of :: "publisher \<Rightarrow> registration \<Rightarrow> tier_table \<Rightarrow> offer" where
  "offer_of us t s = \<lparr>of_system = tr_name t, of_priority = tr_priority t, of_by = tier_publisher us t,
     of_over = tr_over t, of_facility = tr_facility t, of_usable = False, of_off = False, of_why = [],
     of_disbelieved = Disbelieved (tr_name t) s\<rparr>"

definition offer_one :: "publisher \<Rightarrow> (err \<Rightarrow> string) \<Rightarrow> (string \<Rightarrow> string option) \<Rightarrow> string \<Rightarrow>
    (registration \<Rightarrow> 'x new_tier) \<Rightarrow> registration \<Rightarrow> tier_table \<Rightarrow> offer \<times> 'x tier option \<times> 'x tier list \<times> tier_table" where
  "offer_one us txt off budget new t s =
     (let o1 = offer_of us t s in
      case off (tr_name t) of
        Some why \<Rightarrow> (o1\<lparr>of_off := True, of_why := why\<rparr>, None, [], s)
      | None \<Rightarrow>
          (case probe budget new t s of
             (Inl e, cl, s) \<Rightarrow> (o1\<lparr>of_why := txt e\<rparr>, None, cl, s)
           | (Inr None, cl, s) \<Rightarrow> (o1\<lparr>of_why := ''this machine has no '' @ tr_name t\<rparr>, None, cl, s)
           | (Inr (Some d), cl, s) \<Rightarrow>
               (case Valid (declaredBy d) of
                  Some e \<Rightarrow> (o1\<lparr>of_why := txt e\<rparr>, None, cl @ [d], s)
                | None \<Rightarrow> (o1\<lparr>of_usable := True\<rparr>, Some d, cl, s))))"

fun offers_from :: "publisher \<Rightarrow> (err \<Rightarrow> string) \<Rightarrow> (string \<Rightarrow> string option) \<Rightarrow> string \<Rightarrow>
    (registration \<Rightarrow> 'x new_tier) \<Rightarrow> registration list \<Rightarrow> tier_table \<Rightarrow>
    offer list \<times> 'x tier list \<times> 'x tier list \<times> tier_table" where
  "offers_from us txt off budget new [] s = ([], [], [], s)"
| "offers_from us txt off budget new (t # ts) s =
     (case offer_one us txt off budget new t s of
        (x, d, cl, s) \<Rightarrow>
          (case offers_from us txt off budget new ts s of
             (xs, ds, cls, s) \<Rightarrow> (x # xs, (case d of None \<Rightarrow> ds | Some y \<Rightarrow> y # ds), cl @ cls, s)))"

definition tier_offers :: "publisher \<Rightarrow> (err \<Rightarrow> string) \<Rightarrow> (string \<Rightarrow> string option) \<Rightarrow> string \<Rightarrow>
    (registration \<Rightarrow> 'x new_tier) \<Rightarrow> tier_table \<Rightarrow> offer list \<times> 'x tier list \<times> 'x tier list \<times> tier_table" where
  "tier_offers us txt off budget new s = offers_from us txt off budget new (tt_tiers s) s"

text \<open>\<open>Offers\<close> closes what it built; \<open>available\<close> keeps it.\<close>

definition Offers :: "publisher \<Rightarrow> (err \<Rightarrow> string) \<Rightarrow> (string \<Rightarrow> string option) \<Rightarrow> string \<Rightarrow>
    (registration \<Rightarrow> 'x new_tier) \<Rightarrow> tier_table \<Rightarrow> offer list \<times> 'x tier list \<times> tier_table" where
  "Offers us txt off budget new s =
     (case tier_offers us txt off budget new s of (xs, ds, cls, s) \<Rightarrow> (xs, cls @ ds, s))"

definition available :: "publisher \<Rightarrow> (err \<Rightarrow> string) \<Rightarrow> (string \<Rightarrow> string option) \<Rightarrow> string \<Rightarrow>
    (registration \<Rightarrow> 'x new_tier) \<Rightarrow> tier_table \<Rightarrow> 'x tier list \<times> tier_table" where
  "available us txt off budget new s =
     (case tier_offers us txt off budget new s of (xs, ds, cls, s) \<Rightarrow> (ds, s))"

section \<open>Who holds a lease\<close>

text \<open>\<open>Program\<close> and \<open>Owner\<close>: what \<open>os.Executable\<close>, \<open>os.Args\<close>, \<open>os.Hostname\<close> and \<open>os.Getpid\<close> say are arguments.\<close>

definition Program :: "err + string \<Rightarrow> string list \<Rightarrow> string" where
  "Program exe args =
     (case exe of
        Inr x \<Rightarrow> if x \<noteq> [] then trim_suffix ''.exe'' (path_base x)
          else if args \<noteq> [] \<and> hd args \<noteq> [] then trim_suffix ''.exe'' (path_base (hd args)) else ''unknown''
      | Inl _ \<Rightarrow> if args \<noteq> [] \<and> hd args \<noteq> [] then trim_suffix ''.exe'' (path_base (hd args)) else ''unknown'')"

definition Owner :: "err + string \<Rightarrow> string list \<Rightarrow> string \<Rightarrow> int \<Rightarrow> string" where
  "Owner exe args host pid = Program exe args @ ''@'' @ host @ '':'' @ fmt_int pid"

section \<open>What holds of the registry\<close>

inductive registry_step :: "tier_table \<Rightarrow> tier_table \<Rightarrow> bool" where
  registers: "registry_step s (RegisterTier t s)"
| unregisters: "registry_step s (snd (UnregisterTier n s))"
| refutes: "registry_step s (disbelieve_tier n c s)"
| probes: "registry_step s (s\<lparr>tt_probing := ps\<rparr>)"

inductive_cases registry_stepE: "registry_step s s'"

lemma replace_tier_names: "replace_tier t ts = Some us \<Longrightarrow> map tr_name us = map tr_name ts \<and> tr_name t \<in> set (map tr_name ts)"
  by (induction ts arbitrary: us) (auto split: if_splits)

lemma replace_tier_None: "replace_tier t ts = None \<longleftrightarrow> tr_name t \<notin> tr_name ` set ts"
  by (induction ts) auto

lemma remove_tier_None: "remove_tier n ts = None \<longleftrightarrow> n \<notin> tr_name ` set ts"
  by (induction ts) auto

lemma replace_tier_set: "replace_tier t ts = Some us \<Longrightarrow> distinct (map tr_name ts) \<Longrightarrow>
    set us = insert t {x \<in> set ts. tr_name x \<noteq> tr_name t}"
proof (induction ts arbitrary: us)
  case Nil
  then show ?case by simp
next
  case (Cons x ts)
  show ?case
  proof (cases "tr_name x = tr_name t")
    case True
    with Cons.prems have us: "us = t # ts" and n: "tr_name t \<notin> tr_name ` set ts" by auto
    have "tr_name y \<noteq> tr_name t" if "y \<in> set ts" for y using n that by (metis imageI)
    with us True show ?thesis by auto
  next
    case False
    with Cons.prems obtain vs where "replace_tier t ts = Some vs" "us = x # vs" by auto
    with Cons False show ?thesis by auto
  qed
qed

lemma remove_tier_some: "remove_tier n ts = Some us \<Longrightarrow> distinct (map tr_name ts) \<Longrightarrow> us = filter (\<lambda>x. tr_name x \<noteq> n) ts"
proof (induction ts arbitrary: us)
  case Nil
  then show ?case by simp
next
  case (Cons x ts)
  then show ?case by (auto split: if_splits simp: image_iff intro!: filter_True [symmetric])
qed

definition registry_ok :: "tier_table \<Rightarrow> bool" where
  "registry_ok s \<longleftrightarrow> distinct (map tr_name (tt_tiers s)) \<and> sorted (map tr_priority (tt_tiers s))"

lemma tier_order_facts [simp]:
  "set (tier_order ts) = set ts" "sorted (map tr_priority (tier_order ts))"
  "distinct (map tr_name (tier_order ts)) = distinct (map tr_name ts)"
  by (simp_all add: tier_order_def distinct_map)

lemma RegisterTier_tiers:
  assumes "registry_ok s"
  shows "registry_ok (RegisterTier t s)"
    "set (tt_tiers (RegisterTier t s)) = insert t {x \<in> set (tt_tiers s). tr_name x \<noteq> tr_name t}"
proof -
  consider us where "replace_tier t (tt_tiers s) = Some us" | "replace_tier t (tt_tiers s) = None" by (cases "replace_tier t (tt_tiers s)") auto
  then have "registry_ok (RegisterTier t s) \<and>
    set (tt_tiers (RegisterTier t s)) = insert t {x \<in> set (tt_tiers s). tr_name x \<noteq> tr_name t}"
  proof cases
    case 1
    with assms replace_tier_names [OF 1] replace_tier_set [OF 1] show ?thesis
      by (simp add: RegisterTier_def registry_ok_def)
  next
    case 2
    then have "tr_name t \<notin> tr_name ` set (tt_tiers s)" by (simp add: replace_tier_None)
    with 2 assms show ?thesis by (auto simp: RegisterTier_def registry_ok_def image_iff)
  qed
  then show "registry_ok (RegisterTier t s)"
    "set (tt_tiers (RegisterTier t s)) = insert t {x \<in> set (tt_tiers s). tr_name x \<noteq> tr_name t}" by blast+
qed

lemma UnregisterTier_tiers:
  assumes "registry_ok s"
  shows "registry_ok (snd (UnregisterTier n s))"
    "tt_tiers (snd (UnregisterTier n s)) = filter (\<lambda>x. tr_name x \<noteq> n) (tt_tiers s)"
    "fst (UnregisterTier n s) \<longleftrightarrow> n \<in> tr_name ` set (tt_tiers s)"
proof -
  have t: "tt_tiers (snd (UnregisterTier n s)) = filter (\<lambda>x. tr_name x \<noteq> n) (tt_tiers s) \<and>
      (fst (UnregisterTier n s) \<longleftrightarrow> n \<in> tr_name ` set (tt_tiers s))"
  proof (cases "remove_tier n (tt_tiers s)")
    case None
    then have "n \<notin> tr_name ` set (tt_tiers s)" by (simp add: remove_tier_None)
    with None show ?thesis by (auto simp: UnregisterTier_def Let_def intro!: filter_True [symmetric])
  next
    case (Some us)
    then have "n \<in> tr_name ` set (tt_tiers s)" by (metis option.discI remove_tier_None)
    with Some remove_tier_some [OF Some] assms show ?thesis by (simp add: UnregisterTier_def Let_def registry_ok_def)
  qed
  then show "tt_tiers (snd (UnregisterTier n s)) = filter (\<lambda>x. tr_name x \<noteq> n) (tt_tiers s)"
    "fst (UnregisterTier n s) \<longleftrightarrow> n \<in> tr_name ` set (tt_tiers s)" by blast+
  with assms show "registry_ok (snd (UnregisterTier n s))"
    by (simp add: registry_ok_def distinct_map inj_on_def sorted_filter)
qed

lemma registry_ok_step: "registry_step s s' \<Longrightarrow> registry_ok s \<Longrightarrow> registry_ok s'"
  by (erule registry_stepE) (simp_all add: RegisterTier_tiers(1) UnregisterTier_tiers(1), simp_all add: disbelieve_tier_def registry_ok_def)

lemma registry_ok_reachable: "registry_step\<^sup>*\<^sup>* s s' \<Longrightarrow> registry_ok s \<Longrightarrow> registry_ok s'"
  by (induction rule: rtranclp_induct) (auto intro: registry_ok_step)

text \<open>Tiers of one priority are asked in the order they were registered in.\<close>

lemma RegisterTier_stable:
  assumes "registry_ok s" "tr_name t \<notin> tr_name ` set (tt_tiers s)"
  shows "filter (\<lambda>x. tr_priority x = p) (tt_tiers (RegisterTier t s)) =
    filter (\<lambda>x. tr_priority x = p) (tt_tiers s) @ (if tr_priority t = p then [t] else [])"
  using assms(2) by (simp add: RegisterTier_def replace_tier_None [symmetric] tier_order_def sort_key_stable)

text \<open>A refuted claim stays refuted until its tier is unregistered, whoever registers under its name.\<close>

inductive registry_step_but :: "string \<Rightarrow> tier_table \<Rightarrow> tier_table \<Rightarrow> bool" for n where
  but_registers: "registry_step_but n s (RegisterTier t s)"
| but_unregisters: "m \<noteq> n \<Longrightarrow> registry_step_but n s (snd (UnregisterTier m s))"
| but_refutes: "registry_step_but n s (disbelieve_tier m c s)"
| but_probes: "registry_step_but n s (s\<lparr>tt_probing := ps\<rparr>)"

inductive_cases registry_step_butE: "registry_step_but n s s'"

lemma refuted_step:
  "registry_step_but n s s' \<Longrightarrow> disbelieves (tt_refuted s) n c \<Longrightarrow> disbelieves (tt_refuted s') n c"
  by (erule registry_step_butE)
    (auto simp: RegisterTier_def UnregisterTier_def disbelieve_tier_def disbelieves_def Disbelieve_def Let_def split: option.split)

lemma refuted_stays:
  "(registry_step_but n)\<^sup>*\<^sup>* s s' \<Longrightarrow> disbelieves (tt_refuted s) n c \<Longrightarrow> disbelieves (tt_refuted s') n c"
  by (induction rule: rtranclp_induct) (auto intro: refuted_step)

lemma unregistered_is_believed: "\<not> disbelieves (tt_refuted (snd (UnregisterTier n s))) n c"
  by (simp add: UnregisterTier_def disbelieves_def Let_def split: option.split)

lemma Disbelieved_set: "set (Disbelieved n s) = {c. disbelieves (tt_refuted s) n c}"
  by (auto simp: Disbelieved_def disbelieves_def image_iff)

section \<open>What is offered\<close>

lemma probe_closes:
  "probe budget new t s = (r, cl, s') \<Longrightarrow>
     tt_tiers s' = tt_tiers s \<and> tt_refuted s' = tt_refuted s \<and> set (tt_probing s') = insert (tr_name t) (set (tt_probing s)) \<and>
     (r = Inr (Some d) \<longrightarrow> new t = Answers (Inr (Some d)) \<and> cl = [])"
  by (auto simp: probe_def Let_def split: if_splits new_tier.splits sum.splits option.splits)

text \<open>One tier: it is offered as usable exactly when it answered with a delegator whose declaration can be read.\<close>

lemma offer_one_usable:
  assumes "offer_one us txt off budget new t s = (x, d, cl, s')"
  shows "of_usable x \<longleftrightarrow> d \<noteq> None" "of_system x = tr_name t" "of_priority x = tr_priority t"
    "d = Some y \<longleftrightarrow> off (tr_name t) = None \<and> tr_name t \<notin> set (tt_probing s) \<and> new t = Answers (Inr (Some y)) \<and>
       Valid (declaredBy y) = None"
    "of_off x \<longleftrightarrow> off (tr_name t) \<noteq> None" "of_off x \<Longrightarrow> s' = s \<and> cl = []"
    "set (tt_probing s') \<subseteq> insert (tr_name t) (set (tt_probing s))"
  using assms
  by (auto simp: offer_one_def offer_of_def probe_def Let_def split: option.splits if_splits new_tier.splits sum.splits)

lemma offers_from_spec:
  "offers_from us txt off budget new ts s = (xs, ds, cls, s') \<Longrightarrow> distinct (map tr_name ts) \<Longrightarrow>
     set (tt_probing s) \<inter> tr_name ` set ts = {} \<Longrightarrow>
     map of_system xs = map tr_name ts \<and>
     ds = List.map_filter (\<lambda>t. case new t of
       Answers (Inr (Some d)) \<Rightarrow> if off (tr_name t) = None \<and> Valid (declaredBy d) = None then Some d else None | _ \<Rightarrow> None) ts \<and>
     map of_usable xs = map (\<lambda>t. off (tr_name t) = None \<and>
       (\<exists>d. new t = Answers (Inr (Some d)) \<and> Valid (declaredBy d) = None)) ts"
proof (induction ts arbitrary: s xs ds cls s')
  case Nil
  then show ?case by (simp add: List.map_filter_def)
next
  case (Cons t ts)
  obtain x d cl s1 where x: "offer_one us txt off budget new t s = (x, d, cl, s1)" by (metis prod_cases4)
  obtain xs1 ds1 cls1 s2 where r: "offers_from us txt off budget new ts s1 = (xs1, ds1, cls1, s2)" by (metis prod_cases4)
  have res: "xs = x # xs1" "ds = (case d of None \<Rightarrow> ds1 | Some y \<Rightarrow> y # ds1)" using Cons.prems(1) x r by auto
  note X = offer_one_usable [OF x]
  have free: "tr_name t \<notin> set (tt_probing s)" using Cons.prems(3) by simp
  have "insert (tr_name t) (set (tt_probing s)) \<inter> tr_name ` set ts = {}" using Cons.prems(2,3) by auto
  with X(7) have free2: "set (tt_probing s1) \<inter> tr_name ` set ts = {}" by blast
  have d: "d = (case new t of
       Answers (Inr (Some d)) \<Rightarrow> if off (tr_name t) = None \<and> Valid (declaredBy d) = None then Some d else None | _ \<Rightarrow> None)"
  proof -
    have all: "\<forall>y. d = Some y \<longleftrightarrow> off (tr_name t) = None \<and> new t = Answers (Inr (Some y)) \<and> Valid (declaredBy y) = None"
      using X(4) free by blast
    show ?thesis
    proof (cases d)
      case None
      with all show ?thesis by (auto split: new_tier.splits sum.splits option.splits)
    next
      case (Some y)
      with all have "off (tr_name t) = None" "new t = Answers (Inr (Some y))" "Valid (declaredBy y) = None" by auto
      with Some show ?thesis by simp
    qed
  qed
  have u: "of_usable x \<longleftrightarrow> off (tr_name t) = None \<and> (\<exists>d. new t = Answers (Inr (Some d)) \<and> Valid (declaredBy d) = None)"
    using X(1,4) free by auto
  from Cons.IH [OF r _ free2] Cons.prems(2) res X(2) d u show ?case
    by (simp add: List.map_filter_def split: option.split)
qed

text \<open>A tier that has just answered is not asked again before its goroutine has forgotten the probe.\<close>

lemma probe_twice:
  "probe budget new t s = (Inr r, cl, s') \<Longrightarrow> probe budget new t s' = (Inl (not_answered t), [], s')"
  by (auto simp: probe_def Let_def split: if_splits new_tier.splits sum.splits option.splits)

end
