(* ===== verification/Dbus.thy ===== *)
theory Dbus
  imports Failures "HOL-Library.Word" "HOL-Library.AList"
begin

text \<open>
  The D-Bus codec of the Linux cost source (\<open>go/netcost/dbus.go\<close>, first half): values, the encoder that
  aligns relative to its own start, messages, and the decoder with its signatures.

  A number of the wire is a word of its width. The decoder of the source can do three things beside
  answering: refuse, panic, and loop for ever on an array whose elements take no bytes. Decoding is
  therefore a function of fuel into an option (\<^const>\<open>None\<close> is fuel spent) of a result that may be a
  panic; that enough fuel decodes what the encoder wrote is a theorem, and so is that no fuel is enough
  for a certain message.
\<close>

section \<open>Values and messages\<close>

text \<open>
  The Go values of the codec. \<open>DStrings\<close> and \<open>DStringDict\<close> are the two collections the encoder writes
  (\<open>[]string\<close>, and \<open>map[string]dbusVariant\<close> in the order its iteration has); \<open>DList\<close> and \<open>DDict\<close> are
  \<open>[]any\<close> and \<open>map[any]any\<close>, which the decoder makes.
\<close>

datatype dbus_value =
    DByte "8 word" | DBool bool | DInt16 "16 word" | DUint16 "16 word" | DInt32 "32 word" | DUint32 "32 word"
  | DInt64 "64 word" | DUint64 "64 word" | DString string | DPath string | DSignature string
  | DVariant string dbus_value | DStrings "string list" | DStringDict "(string \<times> string \<times> dbus_value) list"
  | DList "dbus_value list" | DDict "(dbus_value \<times> dbus_value) list"

definition dbusMethodCall :: "8 word" where "dbusMethodCall = 1"
definition dbusMethodReturn :: "8 word" where "dbusMethodReturn = 2"
definition dbusError :: "8 word" where "dbusError = 3"
definition dbusSignal :: "8 word" where "dbusSignal = 4"

datatype dbus_field =
    FieldPath | FieldInterface | FieldMember | FieldErrorName | FieldReplySerial | FieldDestination
  | FieldSender | FieldSignature

fun field_code :: "dbus_field \<Rightarrow> 8 word" where
  "field_code FieldPath = 1"
| "field_code FieldInterface = 2"
| "field_code FieldMember = 3"
| "field_code FieldErrorName = 4"
| "field_code FieldReplySerial = 5"
| "field_code FieldDestination = 6"
| "field_code FieldSender = 7"
| "field_code FieldSignature = 8"

definition dbusMaxMessage :: nat where "dbusMaxMessage = 16777216"

record dbus_message =
  dm_type :: "8 word"
  dm_serial :: "32 word"
  dm_path :: string
  dm_interface :: string
  dm_member :: string
  dm_error :: string
  dm_reply :: "32 word"
  dm_destination :: string
  dm_sender :: string
  dm_signature :: string
  dm_body :: "dbus_value list"

section \<open>Bytes\<close>

fun le_bytes :: "nat \<Rightarrow> nat \<Rightarrow> string" where
  "le_bytes 0 v = []"
| "le_bytes (Suc k) v = char_of (v mod 256) # le_bytes k (v div 256)"

fun le_value :: "string \<Rightarrow> nat" where
  "le_value [] = 0"
| "le_value (c # cs) = of_char c + 256 * le_value cs"

definition be_value :: "string \<Rightarrow> nat" where
  "be_value cs = le_value (rev cs)"

definition zeros :: "nat \<Rightarrow> string" where
  "zeros n = replicate n (char_of (0 :: nat))"

definition byte_char :: "8 word \<Rightarrow> char" where
  "byte_char w = char_of (unat w)"

section \<open>The encoder\<close>

text \<open>An encoder is its buffer.\<close>

definition enc_align :: "nat \<Rightarrow> string \<Rightarrow> string" where
  "enc_align n b = b @ zeros ((n - length b mod n) mod n)"

definition enc_u32 :: "32 word \<Rightarrow> string \<Rightarrow> string" where
  "enc_u32 v b = enc_align 4 b @ le_bytes 4 (unat v)"

definition enc_str :: "string \<Rightarrow> string \<Rightarrow> string" where
  "enc_str v b = enc_u32 (word_of_nat (length v)) b @ v @ zeros 1"

definition enc_sig :: "string \<Rightarrow> string \<Rightarrow> string" where
  "enc_sig v b = b @ byte_char (word_of_nat (length v)) # v @ zeros 1"

text \<open>\<open>binary.LittleEndian.PutUint32(b[at:], v)\<close>.\<close>

definition put_u32 :: "nat \<Rightarrow> 32 word \<Rightarrow> string \<Rightarrow> string" where
  "put_u32 at v b = take at b @ le_bytes 4 (unat v) @ drop (at + 4) b"

fun go_type :: "dbus_value \<Rightarrow> string" where
  "go_type (DByte _) = ''uint8''"
| "go_type (DBool _) = ''bool''"
| "go_type (DInt16 _) = ''int16''"
| "go_type (DUint16 _) = ''uint16''"
| "go_type (DInt32 _) = ''int32''"
| "go_type (DInt64 _) = ''int64''"
| "go_type (DUint64 _) = ''uint64''"
| "go_type (DList _) = ''[]interface {}''"
| "go_type (DDict _) = ''map[interface {}]interface {}''"
| "go_type _ = []"

fun signatureOf :: "dbus_value \<Rightarrow> err + string" where
  "signatureOf (DString _) = Inr ''s''"
| "signatureOf (DPath _) = Inr ''o''"
| "signatureOf (DSignature _) = Inr ''g''"
| "signatureOf (DUint32 _) = Inr ''u''"
| "signatureOf (DVariant _ _) = Inr ''v''"
| "signatureOf (DStrings _) = Inr ''as''"
| "signatureOf (DStringDict _) = Inr ''a{sv}''"
| "signatureOf v = Inl (Errorf [Lit ''dbus: cannot encode '', Str (go_type v)])"

fun enc_value :: "dbus_value \<Rightarrow> string \<Rightarrow> err + string"
  and enc_entries :: "(string \<times> string \<times> dbus_value) list \<Rightarrow> string \<Rightarrow> err + string" where
  "enc_value (DString x) b = Inr (enc_str x b)"
| "enc_value (DPath x) b = Inr (enc_str x b)"
| "enc_value (DSignature x) b = Inr (enc_sig x b)"
| "enc_value (DUint32 x) b = Inr (enc_u32 x b)"
| "enc_value (DVariant s x) b = enc_value x (enc_sig s b)"
| "enc_value (DStrings xs) b =
     (let b1 = enc_u32 0 b; pos = length b1 - 4; start = length b1; b2 = fold enc_str xs b1
      in Inr (put_u32 pos (word_of_nat (length b2 - start)) b2))"
| "enc_value (DStringDict xs) b =
     (let b1 = enc_u32 0 b; pos = length b1 - 4; b1 = enc_align 8 b1; start = length b1
      in bind_result (enc_entries xs b1) (\<lambda>b2. Inr (put_u32 pos (word_of_nat (length b2 - start)) b2)))"
| "enc_value v b = bind_result (signatureOf v) (\<lambda>_. Inr b)"
| "enc_entries [] b = Inr b"
| "enc_entries ((k, s, x) # xs) b =
     bind_result (enc_value x (enc_sig s (enc_str k (enc_align 8 b)))) (enc_entries xs)"

fun enc_body :: "dbus_value list \<Rightarrow> string \<Rightarrow> string \<Rightarrow> err + string \<times> string" where
  "enc_body [] sig b = Inr (sig, b)"
| "enc_body (v # vs) sig b =
     bind_result (signatureOf v) (\<lambda>s. bind_result (enc_value v b) (enc_body vs (sig @ s)))"

definition enc_field :: "dbus_field \<Rightarrow> dbus_value \<Rightarrow> string \<Rightarrow> string" where
  "enc_field f v b =
     (let s = (case signatureOf v of Inr s \<Rightarrow> s | Inl _ \<Rightarrow> []);
          b = enc_sig s (enc_align 8 b @ [byte_char (field_code f)])
      in case enc_value v b of Inr b \<Rightarrow> b | Inl _ \<Rightarrow> b)"

text \<open>The header fields of a message, in the order they are written.\<close>

definition header_fields :: "dbus_message \<Rightarrow> string \<Rightarrow> (dbus_field \<times> dbus_value) list" where
  "header_fields m sig =
     (if dm_path m \<noteq> [] then [(FieldPath, DPath (dm_path m))] else []) @
     (if dm_interface m \<noteq> [] then [(FieldInterface, DString (dm_interface m))] else []) @
     (if dm_member m \<noteq> [] then [(FieldMember, DString (dm_member m))] else []) @
     (if dm_error m \<noteq> [] then [(FieldErrorName, DString (dm_error m))] else []) @
     (if dm_reply m \<noteq> 0 then [(FieldReplySerial, DUint32 (dm_reply m))] else []) @
     (if dm_destination m \<noteq> [] then [(FieldDestination, DString (dm_destination m))] else []) @
     (if dm_sender m \<noteq> [] then [(FieldSender, DString (dm_sender m))] else []) @
     (if sig \<noteq> [] then [(FieldSignature, DSignature sig)] else [])"

definition encodeMessage :: "dbus_message \<Rightarrow> err + string" where
  "encodeMessage m =
     bind_result (enc_body (dm_body m) [] []) (\<lambda>(sig, body).
       let e = [CHR ''l'', byte_char (dm_type m), byte_char 0, byte_char 1];
           e = enc_u32 0 (enc_u32 (dm_serial m) (enc_u32 (word_of_nat (length body)) e));
           pos = length e - 4; e = enc_align 8 e; start = length e;
           e = fold (\<lambda>(f, v). enc_field f v) (header_fields m sig) e;
           e = put_u32 pos (word_of_nat (length e - start)) e
       in Inr (enc_align 8 e @ body))"

section \<open>Signatures\<close>

text \<open>The length of the first complete type; a type is never empty, so \<open>drop (n - 1) cs\<close> is what follows it.\<close>

function (sequential) completeType :: "string \<Rightarrow> err + nat"
  and closes :: "char \<Rightarrow> string \<Rightarrow> nat \<Rightarrow> err + nat" where
  "completeType [] = Inl (Plain ''dbus: empty signature'')"
| "completeType (c # cs) =
     (if c = CHR ''a'' then bind_result (completeType cs) (\<lambda>n. Inr (n + 1))
      else if c = CHR ''('' then closes (CHR '')'') cs 1
      else if c = CHR ''{'' then closes (CHR ''}'') cs 1
      else Inr 1)"
| "closes x [] i = Inl (Plain ''dbus: unbalanced signature'')"
| "closes x (c # cs) i =
     (if c = x then Inr (i + 1)
      else bind_result (completeType (c # cs)) (\<lambda>n. closes x (drop (n - 1) cs) (i + n)))"
  by pat_completeness auto
termination
  by (relation "measure (\<lambda>x. case x of Inl s \<Rightarrow> 2 * length s | Inr (_, s, _) \<Rightarrow> 2 * length s + 1)") auto

declare completeType.simps [simp del] closes.simps [simp del]

definition alignment :: "char \<Rightarrow> nat" where
  "alignment c =
     (if c \<in> {CHR ''n'', CHR ''q''} then 2
      else if c \<in> {CHR ''b'', CHR ''i'', CHR ''u'', CHR ''h'', CHR ''s'', CHR ''o'', CHR ''a''} then 4
      else if c \<in> {CHR ''x'', CHR ''t'', CHR ''d'', CHR ''('', CHR ''{''} then 8
      else 1)"

section \<open>The decoder\<close>

definition errDBusShort :: err where "errDBusShort = Plain ''dbus: message truncated''"

function dec_align :: "nat \<Rightarrow> string \<Rightarrow> nat \<Rightarrow> err + nat" where
  "dec_align n b off =
     (if off mod n = 0 then Inr off
      else if length b \<le> off then Inl errDBusShort
      else dec_align n b (Suc off))"
  by pat_completeness auto
termination
  by (relation "measure (\<lambda>(n, b, off). length b - off)") auto

declare dec_align.simps [simp del]

definition dec_take :: "nat \<Rightarrow> string \<Rightarrow> nat \<Rightarrow> err + string \<times> nat" where
  "dec_take n b off = (if length b < off + n then Inl errDBusShort else Inr (take n (drop off b), off + n))"

definition dec_fixed :: "bool \<Rightarrow> nat \<Rightarrow> string \<Rightarrow> nat \<Rightarrow> err + nat \<times> nat" where
  "dec_fixed big n b off =
     bind_result (dec_align n b off) (\<lambda>off.
     bind_result (dec_take n b off) (\<lambda>(p, off). Inr (if big then be_value p else le_value p, off)))"

text \<open>What a decoding step can end in.\<close>

datatype 'a decoded = Refused_msg err | Panics | Decoded 'a nat

definition then_decode :: "'a decoded option \<Rightarrow> ('a \<Rightarrow> nat \<Rightarrow> 'b decoded option) \<Rightarrow> 'b decoded option" where
  "then_decode m f =
     (case m of None \<Rightarrow> None | Some (Refused_msg e) \<Rightarrow> Some (Refused_msg e) | Some Panics \<Rightarrow> Some Panics
      | Some (Decoded x off) \<Rightarrow> f x off)"

definition decode_step :: "err + 'a \<times> nat \<Rightarrow> ('a \<Rightarrow> nat \<Rightarrow> 'b decoded option) \<Rightarrow> 'b decoded option" where
  "decode_step m f = (case m of Inl e \<Rightarrow> Some (Refused_msg e) | Inr (x, off) \<Rightarrow> f x off)"

lemma then_decode_simps [simp]:
  "then_decode None f = None" "then_decode (Some (Refused_msg e)) f = Some (Refused_msg e)"
  "then_decode (Some Panics) f = Some Panics" "then_decode (Some (Decoded x off)) f = f x off"
  by (simp_all add: then_decode_def)

lemma decode_step_simps [simp]:
  "decode_step (Inl e) f = Some (Refused_msg e)" "decode_step (Inr (x, off)) f = f x off"
  by (simp_all add: decode_step_def)

text \<open>Go panics on a map key that is or holds a slice or a map.\<close>

fun hashable :: "dbus_value \<Rightarrow> bool" where
  "hashable (DList _) = False"
| "hashable (DDict _) = False"
| "hashable (DStrings _) = False"
| "hashable (DStringDict _) = False"
| "hashable (DVariant _ v) = hashable v"
| "hashable _ = True"

text \<open>Key and value of an entry, \<open>pair[0]\<close> and \<open>pair[1]\<close>; \<^const>\<open>None\<close> where one of the two or the assignment panics.\<close>

definition entry_pair :: "dbus_value \<Rightarrow> (dbus_value \<times> dbus_value) option" where
  "entry_pair v = (case v of DList (x # y # _) \<Rightarrow> if hashable x then Some (x, y) else None | _ \<Rightarrow> None)"

text \<open>Types of one number: how wide it is, and the value its bits are.\<close>

definition number_type :: "char \<Rightarrow> (nat \<times> (nat \<Rightarrow> dbus_value)) option" where
  "number_type c =
     (if c = CHR ''y'' then Some (1, \<lambda>v. DByte (word_of_nat v))
      else if c = CHR ''b'' then Some (4, \<lambda>v. DBool (v \<noteq> 0))
      else if c = CHR ''n'' then Some (2, \<lambda>v. DInt16 (word_of_nat v))
      else if c = CHR ''q'' then Some (2, \<lambda>v. DUint16 (word_of_nat v))
      else if c = CHR ''i'' then Some (4, \<lambda>v. DInt32 (word_of_nat v))
      else if c = CHR ''u'' \<or> c = CHR ''h'' then Some (4, \<lambda>v. DUint32 (word_of_nat v))
      else if c = CHR ''x'' then Some (8, \<lambda>v. DInt64 (word_of_nat v))
      else if c = CHR ''t'' \<or> c = CHR ''d'' then Some (8, \<lambda>v. DUint64 (word_of_nat v))
      else None)"

definition dec_number :: "bool \<Rightarrow> char \<Rightarrow> string \<Rightarrow> nat \<Rightarrow> dbus_value decoded option" where
  "dec_number big c b off =
     (case number_type c of
        None \<Rightarrow> Some (Refused_msg (Errorf [Lit ''dbus: unsupported type '', Quoted [c]]))
      | Some (width, f) \<Rightarrow> decode_step (dec_fixed big width b off) (\<lambda>v off. Some (Decoded (f v) off)))"

definition dec_text :: "bool \<Rightarrow> nat \<Rightarrow> string \<Rightarrow> nat \<Rightarrow> err + string \<times> nat" where
  "dec_text big width b off =
     bind_result (dec_fixed big width b off) (\<lambda>(n, off).
     bind_result (dec_take (n + 1) b off) (\<lambda>(p, off). Inr (take n p, off)))"

text \<open>
  What the decoder has left to do: a value, the loop over the elements of an array or over the entries of
  a dictionary up to its end, the loop over the members of a struct. Each is one step over \<open>rec\<close>, the
  decoder with less fuel.
\<close>

datatype dec_job =
    DecValue nat string nat
  | DecElements nat string nat "dbus_value list" nat
  | DecEntries nat string nat "(dbus_value \<times> dbus_value) list" nat
  | DecMembers nat string "dbus_value list" nat

type_synonym decoder = "dec_job \<Rightarrow> dbus_value decoded option"

definition dec_variant :: "decoder \<Rightarrow> nat \<Rightarrow> nat \<Rightarrow> dbus_value decoded option" where
  "dec_variant rec depth off =
     then_decode (rec (DecValue (Suc depth) ''g'' off)) (\<lambda>s off.
       let inner = (case s of DSignature x \<Rightarrow> x | _ \<Rightarrow> []) in
       if completeType inner \<noteq> Inr (length inner) then Some (Refused_msg (Plain ''dbus: bad variant signature''))
       else then_decode (rec (DecValue (Suc depth) inner off)) (\<lambda>v off. Some (Decoded (DVariant inner v) off)))"

definition dec_array :: "decoder \<Rightarrow> bool \<Rightarrow> string \<Rightarrow> nat \<Rightarrow> string \<Rightarrow> nat \<Rightarrow> dbus_value decoded option" where
  "dec_array rec big b depth cs off =
     decode_step (dec_fixed big 4 b off) (\<lambda>n off.
       case completeType cs of
         Inl e \<Rightarrow> Some (Refused_msg e)
       | Inr size_of \<Rightarrow>
           let element = take size_of cs in
           (case dec_align (alignment (hd element)) b off of
              Inl e \<Rightarrow> Some (Refused_msg e)
            | Inr off \<Rightarrow>
                if length b < off + n then Some (Refused_msg errDBusShort)
                else if hd element = CHR ''{'' then rec (DecEntries (Suc depth) element (off + n) [] off)
                else rec (DecElements (Suc depth) element (off + n) [] off)))"

definition dec_struct :: "decoder \<Rightarrow> string \<Rightarrow> nat \<Rightarrow> string \<Rightarrow> nat \<Rightarrow> dbus_value decoded option" where
  "dec_struct rec b depth sig off =
     (case dec_align 8 b off of
        Inl e \<Rightarrow> Some (Refused_msg e)
      | Inr off \<Rightarrow>
          (case completeType sig of
             Inl e \<Rightarrow> Some (Refused_msg e)
           | Inr n \<Rightarrow> rec (DecMembers (Suc depth) (take (n - 2) (tl sig)) [] off)))"

definition dec_value :: "decoder \<Rightarrow> bool \<Rightarrow> string \<Rightarrow> nat \<Rightarrow> string \<Rightarrow> nat \<Rightarrow> dbus_value decoded option" where
  "dec_value rec big b depth sig off =
     (if 64 < depth then Some (Refused_msg (Plain ''dbus: nesting too deep''))
      else case sig of
        [] \<Rightarrow> Some Panics
      | c # cs \<Rightarrow>
          if c \<in> {CHR ''s'', CHR ''o''} then decode_step (dec_text big 4 b off) (\<lambda>x off. Some (Decoded (DString x) off))
          else if c = CHR ''g'' then decode_step (dec_text big 1 b off) (\<lambda>x off. Some (Decoded (DSignature x) off))
          else if c = CHR ''v'' then dec_variant rec depth off
          else if c = CHR ''a'' then dec_array rec big b depth cs off
          else if c \<in> {CHR ''('', CHR ''{''} then dec_struct rec b depth sig off
          else dec_number big c b off)"

definition dec_elements :: "decoder \<Rightarrow> nat \<Rightarrow> string \<Rightarrow> nat \<Rightarrow> dbus_value list \<Rightarrow> nat \<Rightarrow> dbus_value decoded option" where
  "dec_elements rec depth element en acc off =
     (if off < en then
        then_decode (rec (DecValue depth element off)) (\<lambda>v off. rec (DecElements depth element en (acc @ [v]) off))
      else Some (Decoded (DList acc) off))"

definition dec_entries :: "decoder \<Rightarrow> nat \<Rightarrow> string \<Rightarrow> nat \<Rightarrow> (dbus_value \<times> dbus_value) list \<Rightarrow> nat \<Rightarrow>
    dbus_value decoded option" where
  "dec_entries rec depth element en acc off =
     (if off < en then
        then_decode (rec (DecValue depth element off)) (\<lambda>entry off.
          case entry_pair entry of
            None \<Rightarrow> Some Panics
          | Some (x, y) \<Rightarrow> rec (DecEntries depth element en (AList.update x y acc) off))
      else Some (Decoded (DDict acc) off))"

definition dec_members :: "decoder \<Rightarrow> nat \<Rightarrow> string \<Rightarrow> dbus_value list \<Rightarrow> nat \<Rightarrow> dbus_value decoded option" where
  "dec_members rec depth inner acc off =
     (if inner = [] then Some (Decoded (DList acc) off)
      else case completeType inner of
        Inl e \<Rightarrow> Some (Refused_msg e)
      | Inr n \<Rightarrow>
          then_decode (rec (DecValue depth (take n inner) off)) (\<lambda>v off.
            rec (DecMembers depth (drop n inner) (acc @ [v]) off)))"

definition dec_step :: "decoder \<Rightarrow> bool \<Rightarrow> string \<Rightarrow> decoder" where
  "dec_step rec big b job =
     (case job of
        DecValue depth sig off \<Rightarrow> dec_value rec big b depth sig off
      | DecElements depth element en acc off \<Rightarrow> dec_elements rec depth element en acc off
      | DecEntries depth element en acc off \<Rightarrow> dec_entries rec depth element en acc off
      | DecMembers depth inner acc off \<Rightarrow> dec_members rec depth inner acc off)"

primrec dbus_decode :: "bool \<Rightarrow> string \<Rightarrow> nat \<Rightarrow> decoder" where
  "dbus_decode big b 0 = (\<lambda>job. None)"
| "dbus_decode big b (Suc k) = dec_step (dbus_decode big b k) big b"

section \<open>Reading a message\<close>

text \<open>\<open>fmt.Sprint\<close> of a value; \<open>other\<close> prints what no header field holds.\<close>

fun sprint_value :: "(dbus_value \<Rightarrow> string) \<Rightarrow> dbus_value \<Rightarrow> string" where
  "sprint_value other (DString x) = x"
| "sprint_value other (DSignature x) = x"
| "sprint_value other (DUint32 w) = fmt_int (uint w)"
| "sprint_value other v = other v"

definition set_field :: "(dbus_value \<Rightarrow> string) \<Rightarrow> dbus_value \<Rightarrow> dbus_message \<Rightarrow> dbus_message" where
  "set_field other f m =
     (case f of
        DList [DByte code, DVariant s v] \<Rightarrow>
          (let shown = sprint_value other v in
           if code = field_code FieldPath then m\<lparr>dm_path := shown\<rparr>
           else if code = field_code FieldInterface then m\<lparr>dm_interface := shown\<rparr>
           else if code = field_code FieldMember then m\<lparr>dm_member := shown\<rparr>
           else if code = field_code FieldErrorName then m\<lparr>dm_error := shown\<rparr>
           else if code = field_code FieldReplySerial then m\<lparr>dm_reply := (case v of DUint32 w \<Rightarrow> w | _ \<Rightarrow> 0)\<rparr>
           else if code = field_code FieldDestination then m\<lparr>dm_destination := shown\<rparr>
           else if code = field_code FieldSender then m\<lparr>dm_sender := shown\<rparr>
           else if code = field_code FieldSignature then m\<lparr>dm_signature := shown\<rparr>
           else m)
      | _ \<Rightarrow> m)"

fun dec_body :: "bool \<Rightarrow> string \<Rightarrow> nat \<Rightarrow> string \<Rightarrow> dbus_value list \<Rightarrow> nat \<Rightarrow> dbus_value list decoded option" where
  "dec_body big b 0 sig acc off = None"
| "dec_body big b (Suc k) sig acc off =
     (if sig = [] then Some (Decoded acc off)
      else case completeType sig of
        Inl e \<Rightarrow> Some (Refused_msg e)
      | Inr n \<Rightarrow>
          then_decode (dbus_decode big b k (DecValue 0 (take n sig) off)) (\<lambda>v off. dec_body big b k (drop n sig) (acc @ [v]) off))"

text \<open>The fields and the body of a message all of whose bytes are here: the header up to the end of its
  fields, and what is behind the padding.\<close>

definition message_parts ::
  "(dbus_value \<Rightarrow> string) \<Rightarrow> nat \<Rightarrow> bool \<Rightarrow> string \<Rightarrow> string \<Rightarrow> dbus_message \<Rightarrow> dbus_message decoded option" where
  "message_parts other fuel big header body m =
     then_decode (dbus_decode big header fuel (DecValue 0 ''a(yv)'' 12)) (\<lambda>fields _.
       case fields of
         DList fs \<Rightarrow>
           (let m = fold (set_field other) fs m in
            then_decode (dec_body big body fuel (dm_signature m) [] 0) (\<lambda>vs _. Some (Decoded (m\<lparr>dm_body := vs\<rparr>) 0)))
       | _ \<Rightarrow> Some Panics)"

text \<open>
  \<open>readMessage\<close> on the bytes that are still to come: the message and what follows it. \<open>short n\<close> is the
  error of \<open>io.ReadFull\<close> when the stream ends after \<open>n\<close> bytes.
\<close>

definition readMessage ::
  "(dbus_value \<Rightarrow> string) \<Rightarrow> (nat \<Rightarrow> err) \<Rightarrow> nat \<Rightarrow> string \<Rightarrow> (dbus_message \<times> string) decoded option" where
  "readMessage other short fuel r =
     (if length r < 16 then Some (Refused_msg (short (length r)))
      else let order = hd r in
      if order \<noteq> CHR ''l'' \<and> order \<noteq> CHR ''B'' then Some (Refused_msg (Plain ''dbus: bad byte order''))
      else let big = (order = CHR ''B'');
               num = (\<lambda>i. let p = take 4 (drop i r) in if big then be_value p else le_value p);
               bodyLen = num 4; fieldsLen = num 12;
               headerLen = 16 + fieldsLen; headerLen = headerLen + (8 - headerLen mod 8) mod 8;
               total = headerLen + bodyLen
           in if dbusMaxMessage < fieldsLen \<or> dbusMaxMessage < bodyLen \<or> dbusMaxMessage < total then
                Some (Refused_msg (Plain ''dbus: message too large''))
              else if length r < total then Some (Refused_msg (short (length r - 16)))
              else let whole = take total r;
                       m = \<lparr>dm_type = word_of_nat (of_char (r ! 1)), dm_serial = word_of_nat (num 8), dm_path = [],
                            dm_interface = [], dm_member = [], dm_error = [], dm_reply = 0, dm_destination = [],
                            dm_sender = [], dm_signature = [], dm_body = []\<rparr>
                   in then_decode (message_parts other fuel big (take (16 + fieldsLen) whole) (drop headerLen whole) m)
                        (\<lambda>m _. Some (Decoded (m, drop total r) 0)))"

end
