(* ===== verification/Dbus_Laws.thy ===== *)
theory Dbus_Laws
  imports Dbus Go_Text
begin

text \<open>
  What the codec of \<open>Dbus\<close> does: types are read within their signature, the decoder stays inside its
  buffer, a message the encoder wrote is read back, and the messages on which the decoder panics or never
  returns.
\<close>

section \<open>Bytes\<close>

lemma length_le_bytes [simp]: "length (le_bytes k v) = k"
  by (induction k arbitrary: v) auto

lemma le_value_bytes: "le_value (le_bytes k v) = v mod 256 ^ k"
proof (induction k arbitrary: v)
  case 0
  then show ?case by simp
next
  case (Suc k)
  have "v mod 256 + 256 * (v div 256 mod 256 ^ k) = v mod (256 * 256 ^ k)" by (metis add.commute mod_mult2_eq)
  with Suc show ?case by (simp add: of_char_of)
qed

lemma unat32: "unat (v :: 32 word) < 4294967296" and unat8: "unat (w :: 8 word) < 256"
proof -
  have "unat v < 2 ^ LENGTH(32)" "unat w < 2 ^ LENGTH(8)" by (rule unsigned_less)+
  then show "unat v < 4294967296" "unat w < 256" by simp_all
qed

lemma le_value_word: "le_value (le_bytes 4 (unat (v :: 32 word))) = unat v"
  using unat32 [of v] by (simp add: le_value_bytes)

lemma pad_mod: "0 < n \<Longrightarrow> (m + (n - m mod n) mod n) mod n = (0 :: nat)"
proof -
  assume n: "0 < n"
  then have "m mod n \<le> n" by simp
  then have "(m mod n + (n - m mod n)) mod n = 0" by simp
  then show ?thesis by (simp add: mod_add_left_eq mod_add_right_eq)
qed

lemma enc_align_mod: "0 < n \<Longrightarrow> length (enc_align n b) mod n = 0"
  by (simp add: enc_align_def zeros_def pad_mod)

lemma prefix_enc_align: "prefix b (enc_align n b)"
  by (simp add: enc_align_def)

lemma length_enc_align_le: "length b \<le> length (enc_align n b)"
  by (simp add: enc_align_def)

lemma enc_align_aligned: "length b mod n = 0 \<Longrightarrow> enc_align n b = b"
  by (cases "n = 0") (simp_all add: enc_align_def zeros_def)

section \<open>Reading at the end of what was written\<close>

lemma dec_align_steps:
  assumes "0 < n" "off \<le> m" "m mod n = 0" "m < off + n" "m \<le> length b"
  shows "dec_align n b off = Inr m"
  using assms
proof (induction "m - off" arbitrary: off)
  case 0
  then show ?case by (simp add: dec_align.simps)
next
  case (Suc j)
  then have lt: "off < m" by simp
  have "off mod n \<noteq> 0"
  proof
    assume "off mod n = 0"
    with Suc.prems(3) have "n dvd m - off" using lt by (simp add: dvd_eq_mod_eq_0 [symmetric] dvd_diff_nat)
    with lt Suc.prems(1,4) show False using dvd_imp_le [of n "m - off"] by simp
  qed
  moreover have "dec_align n b (Suc off) = Inr m" using Suc lt by (intro Suc.hyps(1)) auto
  ultimately show ?case using lt Suc.prems(5) by (subst dec_align.simps) simp
qed

lemma align_at:
  assumes "prefix (enc_align n x) B" "0 < n"
  shows "dec_align n B (length x) = Inr (length (enc_align n x))"
proof (rule dec_align_steps)
  show "length (enc_align n x) < length x + n" using assms(2) by (simp add: enc_align_def zeros_def)
qed (use assms prefix_length_le [OF assms(1)] in \<open>simp_all add: length_enc_align_le enc_align_mod\<close>)

lemma take_at: "prefix (x @ w) B \<Longrightarrow> dec_take (length w) B (length x) = Inr (w, length x + length w)"
  by (auto simp: dec_take_def prefix_def)

lemma u32_at: "prefix (enc_u32 v x) B \<Longrightarrow> dec_fixed False 4 B (length x) = Inr (unat v, length (enc_u32 v x))"
  using align_at [of 4 x B] take_at [of "enc_align 4 x" "le_bytes 4 (unat v)" B]
  by (auto simp: enc_u32_def dec_fixed_def le_value_word append_prefixD)

lemma prefix_u32: "prefix b (enc_u32 v b)"
  by (simp add: enc_u32_def enc_align_def)

lemma prefix_str: "prefix (enc_u32 (word_of_nat (length v)) b) (enc_str v b)" "prefix b (enc_str v b)"
  by (simp_all add: enc_str_def enc_u32_def enc_align_def)

lemma str_at:
  assumes "prefix (enc_str s x) B" "length s < 2 ^ 32"
  shows "dec_text False 4 B (length x) = Inr (s, length (enc_str s x))"
proof -
  have "dec_fixed False 4 B (length x) = Inr (length s, length (enc_u32 (word_of_nat (length s)) x))"
    using u32_at [of "word_of_nat (length s)" x B] prefix_order.trans [OF prefix_str(1) assms(1)] assms(2)
    by (simp add: unsigned_of_nat take_bit_nat_eq_self)
  moreover have "dec_take (Suc (length s)) B (length (enc_u32 (word_of_nat (length s)) x)) =
      Inr (s @ zeros 1, length (enc_str s x))"
    using take_at [of "enc_u32 (word_of_nat (length s)) x" "s @ zeros 1" B] assms(1)
    by (simp add: enc_str_def zeros_def)
  ultimately show ?thesis by (simp add: dec_text_def)
qed

lemma byte_at: "prefix (x @ [byte_char w]) B \<Longrightarrow> dec_fixed big 1 B (length x) = Inr (unat w, Suc (length x))"
  using take_at [of x "[byte_char w]" B] unat8 [of w]
  by (simp add: dec_fixed_def dec_align.simps be_value_def byte_char_def of_char_of)

lemma sig_at:
  assumes "prefix (enc_sig s x) B" "length s \<le> 255"
  shows "dec_text big 1 B (length x) = Inr (s, length (enc_sig s x))"
proof -
  have "prefix (x @ [byte_char (word_of_nat (length s))]) (enc_sig s x)" by (simp add: enc_sig_def)
  from byte_at [OF prefix_order.trans [OF this assms(1)]]
  have "dec_fixed big 1 B (length x) = Inr (length s, Suc (length x))"
    using assms(2) by (simp add: unsigned_of_nat take_bit_nat_eq_self)
  moreover have "dec_take (Suc (length s)) B (Suc (length x)) = Inr (s @ zeros 1, length (enc_sig s x))"
    using take_at [of "x @ [byte_char (word_of_nat (length s))]" "s @ zeros 1" B] assms(1)
    by (simp add: enc_sig_def zeros_def)
  ultimately show ?thesis by (simp add: dec_text_def)
qed

lemma prefix_sig: "prefix b (enc_sig v b)"
  by (simp add: enc_sig_def)

section \<open>Signatures\<close>

lemma completeType_bounds:
  "completeType s = Inr n \<Longrightarrow> 1 \<le> n \<and> n \<le> length s"
  "closes x s i = Inr n \<Longrightarrow> i + 1 \<le> n \<and> n \<le> i + length s"
proof (induction s and x s i arbitrary: n and n rule: completeType_closes.induct)
  case 1
  then show ?case by (simp add: completeType.simps)
next
  case (2 c cs)
  then show ?case by (fastforce simp: completeType.simps bind_result_Inr_iff split: if_splits)
next
  case (3 x i)
  then show ?case by (simp add: closes.simps)
next
  case (4 x c cs i)
  show ?case
  proof (cases "c = x")
    case True
    with 4 show ?thesis by (simp add: closes.simps)
  next
    case False
    with 4(3) obtain m where m: "completeType (c # cs) = Inr m" "closes x (drop (m - 1) cs) (i + m) = Inr n"
      by (auto simp: closes.simps bind_result_Inr_iff)
    from 4(1) [OF False m(1)] 4(2) [OF False m(2)] show ?thesis by auto
  qed
qed

text \<open>The types the encoder writes.\<close>

lemma complete_simple [simp]:
  "completeType ''s'' = Inr 1" "completeType ''o'' = Inr 1" "completeType ''g'' = Inr 1" "completeType ''u'' = Inr 1"
  "completeType ''v'' = Inr 1" "completeType ''as'' = Inr 2" "completeType ''(yv)'' = Inr 4" "completeType ''yv'' = Inr 1"
  "completeType (CHR ''s'' # t) = Inr 1" "completeType (CHR ''o'' # t) = Inr 1" "completeType (CHR ''g'' # t) = Inr 1"
  "completeType (CHR ''u'' # t) = Inr 1" "completeType (CHR ''v'' # t) = Inr 1" "completeType (CHR ''a'' # CHR ''s'' # t) = Inr 2"
  by (simp_all add: completeType.simps closes.simps)

section \<open>What was written is read\<close>

text \<open>What a value is when it comes back: a path is a string, a list of strings a list.\<close>

fun seen_value :: "dbus_value \<Rightarrow> dbus_value" where
  "seen_value (DPath x) = DString x"
| "seen_value (DVariant s v) = DVariant s (seen_value v)"
| "seen_value (DStrings xs) = DList (map DString xs)"
| "seen_value v = v"

fun sound_value :: "dbus_value \<Rightarrow> bool" where
  "sound_value (DString x) = True"
| "sound_value (DPath x) = True"
| "sound_value (DSignature x) = (length x \<le> 255)"
| "sound_value (DUint32 x) = True"
| "sound_value (DVariant s v) = (signatureOf v = Inr s \<and> sound_value v)"
| "sound_value (DStrings xs) = True"
| "sound_value _ = False"

fun value_depth :: "dbus_value \<Rightarrow> nat" where
  "value_depth (DVariant s v) = Suc (value_depth v)"
| "value_depth (DStrings xs) = 1"
| "value_depth _ = 0"

fun value_fuel :: "dbus_value \<Rightarrow> nat" where
  "value_fuel (DVariant s v) = Suc (Suc (value_fuel v))"
| "value_fuel (DStrings xs) = length xs + 3"
| "value_fuel _ = 1"

lemma sound_signature: "sound_value v \<Longrightarrow> \<exists>s. signatureOf v = Inr s \<and> s \<in> {''s'', ''o'', ''g'', ''u'', ''v'', ''as''}"
  by (cases v) auto

lemma prefix_fold_str: "prefix b (fold enc_str xs b)"
  by (induction xs arbitrary: b) (auto intro: prefix_order.trans prefix_str(2))

lemma fold_str_length: "length b \<le> length (fold enc_str xs b)"
  by (rule prefix_length_le [OF prefix_fold_str])

lemma strings_at:
  "prefix (fold enc_str xs b) B \<Longrightarrow> length (fold enc_str xs b) < 2 ^ 32 \<Longrightarrow> d \<le> 64 \<Longrightarrow> length xs + 2 \<le> k \<Longrightarrow>
     dbus_decode False B k (DecElements d ''s'' (length (fold enc_str xs b)) acc (length b)) =
       Some (Decoded (DList (acc @ map DString xs)) (length (fold enc_str xs b)))"
proof (induction xs arbitrary: b acc k)
  case Nil
  then obtain j where "k = Suc j" by (cases k) auto
  then show ?case by (simp add: dec_step_def dec_elements_def)
next
  case (Cons x xs)
  then obtain j where k: "k = Suc (Suc j)" by (metis Suc_le_D add_2_eq_Suc' le_SucE length_Cons add_leD2 Suc_1)
  let ?e = "fold enc_str xs (enc_str x b)"
  have px: "prefix (enc_str x b) B" using Cons.prems(1) prefix_order.trans [OF prefix_fold_str] by auto
  have len: "length b < length (enc_str x b)" by (simp add: enc_str_def enc_u32_def enc_align_def zeros_def)
  have more: "length (enc_str x b) \<le> length ?e" by (rule fold_str_length)
  have "length x \<le> length (enc_str x b)" by (simp add: enc_str_def)
  then have "length x < 2 ^ 32" using Cons.prems(2) more by simp
  from str_at [OF px this] Cons.prems(3)
  have head: "dbus_decode False B (Suc j) (DecValue d ''s'' (length b)) = Some (Decoded (DString x) (length (enc_str x b)))"
    by (simp add: dec_step_def dec_value_def)
  have tail: "dbus_decode False B (Suc j) (DecElements d ''s'' (length ?e) (acc @ [DString x]) (length (enc_str x b))) =
      Some (Decoded (DList ((acc @ [DString x]) @ map DString xs)) (length ?e))"
    using Cons.prems k by (intro Cons.IH) auto
  have "dbus_decode False B k (DecElements d ''s'' (length ?e) acc (length b)) =
      dec_elements (dbus_decode False B (Suc j)) d ''s'' (length ?e) acc (length b)"
    unfolding k by (simp add: dec_step_def)
  with head tail len more show ?case by (simp add: dec_elements_def del: dbus_decode.simps)
qed

lemma put_u32_at: "put_u32 (length x) v (x @ le_bytes 4 n @ w) = x @ le_bytes 4 (unat v) @ w"
  by (simp add: put_u32_def)

text \<open>
  The bytes of a list of strings depend on where they begin only by its length, so what is written before
  the length is known is what would be written after it.
\<close>

lemma enc_align_same: "length y = length b \<Longrightarrow> enc_align n y = y @ zeros ((n - length b mod n) mod n)"
  by (simp add: enc_align_def)

lemma fold_str_same: "\<exists>w. \<forall>y. length y = m \<longrightarrow> fold enc_str xs y = y @ w"
proof (induction xs arbitrary: m)
  case Nil
  then show ?case by simp
next
  case (Cons x xs)
  obtain w where w: "\<forall>y. length y = m \<longrightarrow> enc_str x y = y @ w"
    by (auto simp: enc_str_def enc_u32_def enc_align_def)
  from Cons [of "m + length w"] obtain u where "\<forall>y. length y = m + length w \<longrightarrow> fold enc_str xs y = y @ u" by blast
  with w show ?case by (intro exI [of _ "w @ u"]) simp
qed

lemma enc_u32_same: "length (enc_u32 n b) = length (enc_u32 m b)"
  by (simp add: enc_u32_def)

lemma enc_strings:
  assumes "enc_value (DStrings xs) b = Inr b'"
  obtains n where "b' = fold enc_str xs (enc_u32 n b)" "n = word_of_nat (length b' - length (enc_u32 n b))"
proof -
  let ?e = "enc_u32 0 b"
  obtain w where w: "\<forall>y. length y = length ?e \<longrightarrow> fold enc_str xs y = y @ w" using fold_str_same by blast
  let ?n = "word_of_nat (length w) :: 32 word"
  have "put_u32 (length ?e - 4) ?n (?e @ w) = enc_u32 ?n b @ w"
    using put_u32_at [of "enc_align 4 b" ?n "unat (0 :: 32 word)" w] by (simp add: enc_u32_def)
  then have "b' = enc_u32 ?n b @ w" using assms w by (simp add: Let_def)
  moreover have "fold enc_str xs (enc_u32 ?n b) = enc_u32 ?n b @ w" using w enc_u32_same [of ?n b 0] by simp
  ultimately show ?thesis using that [of ?n] by simp
qed

text \<open>Every value: it is appended, and read back at the place it was written.\<close>

lemma value_at:
  "sound_value v \<Longrightarrow> signatureOf v = Inr s \<Longrightarrow> enc_value v b = Inr b' \<Longrightarrow> prefix b' B \<Longrightarrow> length b' < 2 ^ 32 \<Longrightarrow>
     d + value_depth v \<le> 64 \<Longrightarrow> value_fuel v \<le> k \<Longrightarrow>
     prefix b b' \<and> length b < length b' \<and>
     dbus_decode False B k (DecValue d s (length b)) = Some (Decoded (seen_value v) (length b'))"
proof (induction v arbitrary: s b b' d k)
  case (DString x)
  obtain j where k: "k = Suc j" using DString.prems(7) by (cases k) auto
  have b': "b' = enc_str x b" "s = ''s''" using DString.prems by simp_all
  have "length x \<le> length b'" unfolding b' by (simp add: enc_str_def)
  then have "length x < 2 ^ 32" using DString.prems(5) by simp
  from str_at [OF _ this, of b B] DString.prems(4,6) k b' prefix_str(2) [of b x] show ?case
    by (simp add: dec_step_def dec_value_def) (simp add: enc_str_def enc_u32_def enc_align_def zeros_def)
next
  case (DPath x)
  obtain j where k: "k = Suc j" using DPath.prems(7) by (cases k) auto
  have b': "b' = enc_str x b" "s = ''o''" using DPath.prems by simp_all
  have "length x \<le> length b'" unfolding b' by (simp add: enc_str_def)
  then have "length x < 2 ^ 32" using DPath.prems(5) by simp
  from str_at [OF _ this, of b B] DPath.prems(4,6) k b' prefix_str(2) [of b x] show ?case
    by (simp add: dec_step_def dec_value_def) (simp add: enc_str_def enc_u32_def enc_align_def zeros_def)
next
  case (DSignature x)
  obtain j where k: "k = Suc j" using DSignature.prems(7) by (cases k) auto
  have b': "b' = enc_sig x b" "s = ''g''" using DSignature.prems by simp_all
  from sig_at [of x b B False] DSignature.prems(1,4,6) k b' prefix_sig [of b x] show ?case
    by (simp add: dec_step_def dec_value_def) (simp add: enc_sig_def)
next
  case (DUint32 x)
  obtain j where k: "k = Suc j" using DUint32.prems(7) by (cases k) auto
  have b': "b' = enc_u32 x b" "s = ''u''" using DUint32.prems by simp_all
  from u32_at [of x b B] DUint32.prems(4,6) k b' prefix_u32 [of b x] show ?case
    by (simp add: dec_step_def dec_value_def dec_number_def number_type_def) (simp add: enc_u32_def enc_align_def)
next
  case (DVariant t v)
  obtain j where k: "k = Suc (Suc j)" "value_fuel v \<le> Suc j" using DVariant.prems(7) by (cases k; cases "k - 1") auto
  have t: "signatureOf v = Inr t" "sound_value v" and s: "s = ''v''" and b': "enc_value v (enc_sig t b) = Inr b'"
    using DVariant.prems(1-3) by simp_all
  have depth: "Suc d + value_depth v \<le> 64" using DVariant.prems(6) by simp
  from DVariant.IH [OF t(2,1) b' DVariant.prems(4,5) depth k(2)]
  have ih: "prefix (enc_sig t b) b'" "length (enc_sig t b) < length b'"
    "dbus_decode False B (Suc j) (DecValue (Suc d) t (length (enc_sig t b))) = Some (Decoded (seen_value v) (length b'))"
    by blast+
  have tt: "length t \<le> 255" "completeType t = Inr (length t)" using sound_signature [OF t(2)] t(1) by auto
  have "dbus_decode False B (Suc j) (DecValue (Suc d) ''g'' (length b)) = Some (Decoded (DSignature t) (length (enc_sig t b)))"
    using sig_at [OF prefix_order.trans [OF ih(1) DVariant.prems(4)] tt(1), of False] depth
    by (simp add: dec_step_def dec_value_def)
  then have "dbus_decode False B k (DecValue d s (length b)) = Some (Decoded (DVariant t (seen_value v)) (length b'))"
    unfolding k(1) s dbus_decode.simps(2) [of _ _ "Suc j"] using ih(3) tt(2) depth
    by (simp add: dec_step_def [of _ _ _ "DecValue _ _ _"] dec_value_def dec_variant_def Let_def del: dbus_decode.simps)
  moreover have "prefix b b'" "length b < length b'"
    using ih(1,2) prefix_sig [of b t] prefix_length_le [OF prefix_sig [of b t]] by (auto intro: prefix_order.trans)
  ultimately show ?case by simp
next
  case (DStrings xs)
  have s: "s = ''as''" using DStrings.prems(2) by simp
  obtain n where n: "b' = fold enc_str xs (enc_u32 n b)" "n = word_of_nat (length b' - length (enc_u32 n b))"
    by (rule enc_strings [OF DStrings.prems(3)])
  obtain j where k: "k = Suc j" "length xs + 2 \<le> j" using DStrings.prems(7) by (cases k) auto
  let ?e = "enc_u32 n b"
  have pre: "prefix ?e b'" unfolding n(1) by (rule prefix_fold_str)
  have un: "unat n = length b' - length ?e"
    using DStrings.prems(5) by (subst n(2)) (simp add: unsigned_of_nat take_bit_nat_eq_self)
  have fx: "dec_fixed False 4 B (length b) = Inr (unat n, length ?e)"
    by (rule u32_at [OF prefix_order.trans [OF pre DStrings.prems(4)]])
  have al: "length ?e mod 4 = 0" using enc_align_mod [of 4 b] by (simp add: enc_u32_def mod_add_self2)
  then have da: "dec_align (alignment CHR ''s'') B (length ?e) = Inr (length ?e)"
    by (subst dec_align.simps) (simp add: alignment_def)
  have le: "length ?e \<le> length b'" by (rule prefix_length_le [OF pre])
  have fits: "\<not> length B < length ?e + unat n" using prefix_length_le [OF DStrings.prems(4)] un le by simp
  have loop: "dbus_decode False B j (DecElements (Suc d) ''s'' (length b') [] (length ?e)) =
      Some (Decoded (DList (map DString xs)) (length b'))"
    using strings_at [of xs ?e B "Suc d" j "[]"] DStrings.prems(4-6) n(1) k(2) by simp
  have "dbus_decode False B k (DecValue d s (length b)) = Some (Decoded (DList (map DString xs)) (length b'))"
    unfolding k(1) s using fx da fits loop un le DStrings.prems(6)
    by (simp add: dec_step_def dec_value_def dec_array_def Let_def)
  moreover have "prefix b b'" using prefix_order.trans [OF prefix_u32 pre] .
  moreover have "length b < length b'" using le by (simp add: enc_u32_def enc_align_def)
  ultimately show ?case by simp
qed simp_all

section \<open>Messages\<close>

text \<open>A header field, and the sequence of fields.\<close>

definition field_seen :: "dbus_field \<times> dbus_value \<Rightarrow> dbus_value" where
  "field_seen fv = (case fv of (f, v) \<Rightarrow>
     DList [DByte (field_code f), DVariant (case signatureOf v of Inr s \<Rightarrow> s | Inl _ \<Rightarrow> []) (seen_value v)])"

fun plain_value :: "dbus_value \<Rightarrow> bool" where
  "plain_value (DString x) = True"
| "plain_value (DPath x) = True"
| "plain_value (DSignature x) = (length x \<le> 255)"
| "plain_value (DUint32 x) = True"
| "plain_value _ = False"

lemma plain_sound: "plain_value v \<Longrightarrow> sound_value v \<and> value_depth v = 0 \<and> value_fuel v = 1 \<and> (\<forall>b. \<exists>b'. enc_value v b = Inr b')"
  by (cases v) auto

lemma field_at:
  assumes "plain_value v" "prefix (enc_field f v b) B" "length (enc_field f v b) < 2 ^ 32" "d + 3 \<le> 64" "7 \<le> k"
  shows "prefix b (enc_field f v b) \<and> length b < length (enc_field f v b) \<and>
    dbus_decode False B k (DecValue d ''(yv)'' (length b)) = Some (Decoded (field_seen (f, v)) (length (enc_field f v b)))"
proof -
  obtain s where s: "signatureOf v = Inr s" using sound_signature plain_sound [OF assms(1)] by blast
  obtain j where "k = 7 + j" using assms(5) le_Suc_ex by blast
  then have k: "k = Suc (Suc (Suc (Suc (Suc (Suc (Suc j))))))" by simp
  let ?a = "enc_align 8 b" and ?y = "enc_align 8 b @ [byte_char (field_code f)]"
  obtain b' where b': "enc_value (DVariant s v) ?y = Inr b'" using plain_sound [OF assms(1)] by auto
  have e: "enc_field f v b = b'" using b' s by (simp add: enc_field_def Let_def)
  have sv: "sound_value (DVariant s v)" using s plain_sound [OF assms(1)] by simp
  have "Suc d + value_depth (DVariant s v) \<le> 64" "value_fuel (DVariant s v) \<le> Suc (Suc (Suc (Suc j)))"
    using plain_sound [OF assms(1)] assms(4) by simp_all
  from value_at [OF sv _ b' _ _ this] assms(2,3) e
  have V: "prefix ?y b'" "length ?y < length b'"
    "dbus_decode False B (Suc (Suc (Suc (Suc j)))) (DecValue (Suc d) ''v'' (length ?y)) = Some (Decoded (DVariant s (seen_value v)) (length b'))"
    by simp_all
  have yB: "prefix ?y B" using V(1) assms(2) e prefix_order.trans by metis
  then have aB: "prefix ?a B" by (rule append_prefixD)
  have y: "dbus_decode False B (Suc (Suc (Suc (Suc (Suc j))))) (DecValue (Suc d) ''y'' (length ?a)) = Some (Decoded (DByte (field_code f)) (length ?y))"
    using byte_at [OF yB, of False] assms(4) by (simp add: dec_step_def dec_value_def dec_number_def number_type_def)
  have m3: "dbus_decode False B (Suc (Suc (Suc (Suc j)))) (DecMembers (Suc d) [] acc off) = Some (Decoded (DList acc) off)" for acc off
    by (simp add: dec_step_def dec_members_def)
  have m2: "dbus_decode False B (Suc (Suc (Suc (Suc (Suc j))))) (DecMembers (Suc d) ''v'' [DByte (field_code f)] (length ?y)) =
      Some (Decoded (DList [DByte (field_code f), DVariant s (seen_value v)]) (length b'))"
  proof -
    have "dbus_decode False B (Suc (Suc (Suc (Suc (Suc j))))) (DecMembers (Suc d) ''v'' [DByte (field_code f)] (length ?y)) =
      dec_members (dbus_decode False B (Suc (Suc (Suc (Suc j))))) (Suc d) ''v'' [DByte (field_code f)] (length ?y)"
      by (simp add: dec_step_def)
    with V(3) m3 show ?thesis by (simp add: dec_members_def del: dbus_decode.simps length_append)
  qed
  have m1: "dbus_decode False B (Suc (Suc (Suc (Suc (Suc (Suc j)))))) (DecMembers (Suc d) ''yv'' [] (length ?a)) =
      Some (Decoded (DList [DByte (field_code f), DVariant s (seen_value v)]) (length b'))"
  proof -
    have "dbus_decode False B (Suc (Suc (Suc (Suc (Suc (Suc j)))))) (DecMembers (Suc d) ''yv'' [] (length ?a)) =
      dec_members (dbus_decode False B (Suc (Suc (Suc (Suc (Suc j)))))) (Suc d) ''yv'' [] (length ?a)"
      by (simp add: dec_step_def)
    with y m2 show ?thesis by (simp add: dec_members_def del: dbus_decode.simps length_append)
  qed
  have "dbus_decode False B k (DecValue d ''(yv)'' (length b)) =
      dec_value (dbus_decode False B (Suc (Suc (Suc (Suc (Suc (Suc j))))))) False B d ''(yv)'' (length b)"
    unfolding k by (simp add: dec_step_def)
  also have "\<dots> = Some (Decoded (field_seen (f, v)) (length b'))"
    using align_at [OF aB] m1 assms(4) s by (simp add: dec_value_def dec_struct_def field_seen_def del: dbus_decode.simps)
  finally have D: "dbus_decode False B k (DecValue d ''(yv)'' (length b)) = Some (Decoded (field_seen (f, v)) (length b'))" .
  have "prefix b b'" using prefix_order.trans [OF prefix_enc_align append_prefixD [OF V(1)]] .
  moreover have "length b < length b'" using V(2) length_enc_align_le [of b 8] by simp
  ultimately show ?thesis using D e by simp
qed

lemma fields_at:
  "list_all (\<lambda>(f, v). plain_value v) fs \<Longrightarrow> prefix (fold (\<lambda>(f, v). enc_field f v) fs b) B \<Longrightarrow>
     length (fold (\<lambda>(f, v). enc_field f v) fs b) < 2 ^ 32 \<Longrightarrow> d + 3 \<le> 64 \<Longrightarrow> length fs + 8 \<le> k \<Longrightarrow>
     prefix b (fold (\<lambda>(f, v). enc_field f v) fs b) \<and>
     dbus_decode False B k (DecElements d ''(yv)'' (length (fold (\<lambda>(f, v). enc_field f v) fs b)) acc (length b)) =
       Some (Decoded (DList (acc @ map field_seen fs)) (length (fold (\<lambda>(f, v). enc_field f v) fs b)))"
proof (induction fs arbitrary: b acc k)
  case Nil
  then obtain j where "k = Suc j" by (cases k) auto
  then show ?case by (simp add: dec_step_def dec_elements_def)
next
  case (Cons fv fs)
  obtain f v where fv: "fv = (f, v)" by (cases fv)
  obtain j where k: "k = Suc j" "length fs + 8 \<le> j" using Cons.prems(5) by (cases k) auto
  let ?b1 = "enc_field f v b" and ?e = "fold (\<lambda>(f, v). enc_field f v) fs (enc_field f v b)"
  have IH: "prefix ?b1 ?e \<and>
     dbus_decode False B j (DecElements d ''(yv)'' (length ?e) (acc @ [field_seen fv]) (length ?b1)) =
       Some (Decoded (DList ((acc @ [field_seen fv]) @ map field_seen fs)) (length ?e))"
    using Cons.prems k fv by (intro Cons.IH) auto
  have v: "plain_value v" using Cons.prems(1) fv by simp
  have pre: "prefix ?b1 B" using IH Cons.prems(2) fv prefix_order.trans by fastforce
  have len: "length ?b1 < 2 ^ 32" using IH Cons.prems(3) fv prefix_length_le [of ?b1 ?e] by simp
  from field_at [OF v pre len Cons.prems(4), of j] k(2)
  have F: "prefix b ?b1" "length b < length ?b1"
    "dbus_decode False B j (DecValue d ''(yv)'' (length b)) = Some (Decoded (field_seen fv) (length ?b1))" using fv by simp_all
  have "length b < length ?e" using F(2) IH prefix_length_le [of ?b1 ?e] by simp
  then have "dbus_decode False B k (DecElements d ''(yv)'' (length ?e) acc (length b)) =
      Some (Decoded (DList ((acc @ [field_seen fv]) @ map field_seen fs)) (length ?e))"
    unfolding k(1) using F(3) IH by (simp add: dec_step_def dec_elements_def)
  then show ?case using F(1) IH fv by (auto intro: prefix_order.trans)
qed

text \<open>The fields fold back into the message they came from.\<close>

definition plain_message :: "dbus_message \<Rightarrow> bool" where
  "plain_message m \<longleftrightarrow> list_all sound_value (dm_body m) \<and> list_all (\<lambda>v. value_depth v \<le> 62) (dm_body m)"

fun body_signature :: "dbus_value list \<Rightarrow> string" where
  "body_signature [] = []"
| "body_signature (v # vs) = (case signatureOf v of Inr s \<Rightarrow> s | Inl _ \<Rightarrow> []) @ body_signature vs"

lemma header_plain: "length sig \<le> 255 \<Longrightarrow> list_all (\<lambda>(f, v). plain_value v) (header_fields m sig)"
  by (simp add: header_fields_def)

lemma fold_field:
  "fold (set_field other) (map field_seen (if c then [(f, v)] else [])) m = (if c then set_field other (field_seen (f, v)) m else m)"
  by simp

text \<open>Leaving a field out is setting it to what it is when it is not set.\<close>

lemma unset_field:
  "dm_path m = [] \<Longrightarrow> (if p \<noteq> [] then m\<lparr>dm_path := p\<rparr> else m) = m\<lparr>dm_path := p\<rparr>"
  "dm_interface m = [] \<Longrightarrow> (if p \<noteq> [] then m\<lparr>dm_interface := p\<rparr> else m) = m\<lparr>dm_interface := p\<rparr>"
  "dm_member m = [] \<Longrightarrow> (if p \<noteq> [] then m\<lparr>dm_member := p\<rparr> else m) = m\<lparr>dm_member := p\<rparr>"
  "dm_error m = [] \<Longrightarrow> (if p \<noteq> [] then m\<lparr>dm_error := p\<rparr> else m) = m\<lparr>dm_error := p\<rparr>"
  "dm_reply m = 0 \<Longrightarrow> (if w \<noteq> 0 then m\<lparr>dm_reply := w\<rparr> else m) = m\<lparr>dm_reply := w\<rparr>"
  "dm_destination m = [] \<Longrightarrow> (if p \<noteq> [] then m\<lparr>dm_destination := p\<rparr> else m) = m\<lparr>dm_destination := p\<rparr>"
  "dm_sender m = [] \<Longrightarrow> (if p \<noteq> [] then m\<lparr>dm_sender := p\<rparr> else m) = m\<lparr>dm_sender := p\<rparr>"
  "dm_signature m = [] \<Longrightarrow> (if p \<noteq> [] then m\<lparr>dm_signature := p\<rparr> else m) = m\<lparr>dm_signature := p\<rparr>"
  by simp_all

lemma set_fields:
  "set_field other (field_seen (FieldPath, DPath p)) m = m\<lparr>dm_path := p\<rparr>"
  "set_field other (field_seen (FieldInterface, DString p)) m = m\<lparr>dm_interface := p\<rparr>"
  "set_field other (field_seen (FieldMember, DString p)) m = m\<lparr>dm_member := p\<rparr>"
  "set_field other (field_seen (FieldErrorName, DString p)) m = m\<lparr>dm_error := p\<rparr>"
  "set_field other (field_seen (FieldReplySerial, DUint32 w)) m = m\<lparr>dm_reply := w\<rparr>"
  "set_field other (field_seen (FieldDestination, DString p)) m = m\<lparr>dm_destination := p\<rparr>"
  "set_field other (field_seen (FieldSender, DString p)) m = m\<lparr>dm_sender := p\<rparr>"
  "set_field other (field_seen (FieldSignature, DSignature p)) m = m\<lparr>dm_signature := p\<rparr>"
  by (simp_all add: field_seen_def set_field_def Let_def)

lemma header_read:
  "fold (set_field other) (map field_seen (header_fields m sig))
     \<lparr>dm_type = t, dm_serial = s, dm_path = [], dm_interface = [], dm_member = [], dm_error = [], dm_reply = 0,
      dm_destination = [], dm_sender = [], dm_signature = [], dm_body = []\<rparr> =
   m\<lparr>dm_type := t, dm_serial := s, dm_signature := sig, dm_body := []\<rparr>"
  unfolding header_fields_def map_append fold_append comp_def fold_field set_fields
  by (simp add: unset_field del: if_split)

lemma enc_body_wire:
  "enc_body vs sig b = Inr (sg, b') \<Longrightarrow> sg = sig @ body_signature vs"
  by (induction vs arbitrary: sig b) (fastforce simp: bind_result_Inr_iff)+

lemma body_at:
  "list_all sound_value vs \<Longrightarrow> enc_body vs sig b = Inr (sg, b') \<Longrightarrow> prefix b' B \<Longrightarrow> length b' < 2 ^ 32 \<Longrightarrow>
     list_all (\<lambda>v. value_depth v \<le> 62) vs \<Longrightarrow> sum_list (map value_fuel vs) + length vs + 1 \<le> k \<Longrightarrow>
     prefix b b' \<and> dec_body False B k (body_signature vs) acc (length b) = Some (Decoded (acc @ map seen_value vs) (length b'))"
proof (induction vs arbitrary: sig b acc k)
  case Nil
  then obtain j where "k = Suc j" by (cases k) auto
  with Nil show ?case by simp
next
  case (Cons v vs)
  obtain s b1 where s: "signatureOf v = Inr s" and b1: "enc_value v b = Inr b1" and rest: "enc_body vs (sig @ s) b1 = Inr (sg, b')"
    using Cons.prems(2) by (auto simp: bind_result_Inr_iff)
  obtain j where k: "k = Suc j" "sum_list (map value_fuel vs) + length vs + 1 \<le> j" "value_fuel v \<le> j"
    using Cons.prems(6) by (cases k) auto
  from Cons.IH [OF _ rest Cons.prems(3,4) _ k(2), of "acc @ [seen_value v]"] Cons.prems(1,5)
  have IH: "prefix b1 b'" "dec_body False B j (body_signature vs) (acc @ [seen_value v]) (length b1) =
      Some (Decoded ((acc @ [seen_value v]) @ map seen_value vs) (length b'))" by simp_all
  have sv: "sound_value v" "0 + value_depth v \<le> 64" using Cons.prems(1,5) by simp_all
  have len: "length b1 < 2 ^ 32" using prefix_length_le [OF IH(1)] Cons.prems(4) by simp
  from value_at [OF sv(1) s b1 prefix_order.trans [OF IH(1) Cons.prems(3)] len sv(2) k(3)]
  have V: "prefix b b1" "dbus_decode False B j (DecValue 0 s (length b)) = Some (Decoded (seen_value v) (length b1))" by simp_all
  have ct: "completeType (s @ body_signature vs) = Inr (length s)" "s \<noteq> []"
    using sound_signature [OF sv(1)] s by auto
  show ?case using V IH ct s k(1) by (auto intro: prefix_order.trans)
qed

text \<open>
  A message as the encoder leaves it: the sixteen bytes whose layout is fixed, the fields from there on,
  the padding and the body.
\<close>

definition message_head :: "dbus_message \<Rightarrow> 32 word \<Rightarrow> 32 word \<Rightarrow> string" where
  "message_head m bl fl = [CHR ''l'', byte_char (dm_type m), byte_char 0, byte_char 1] @
     le_bytes 4 (unat bl) @ le_bytes 4 (unat (dm_serial m)) @ le_bytes 4 (unat fl)"

lemma length_message_head [simp]: "length (message_head m bl fl) = 16"
  by (simp add: message_head_def)

definition appends :: "(string \<Rightarrow> string) \<Rightarrow> bool" where
  "appends g \<longleftrightarrow> (\<forall>n. \<exists>w. \<forall>y. length y = n \<longrightarrow> g y = y @ w)"

lemma appends_after: "appends h \<Longrightarrow> appends g \<Longrightarrow> appends (\<lambda>y. h (g y))"
  unfolding appends_def
proof
  fix n
  assume h: "\<forall>n. \<exists>w. \<forall>y. length y = n \<longrightarrow> h y = y @ w" and g: "\<forall>n. \<exists>w. \<forall>y. length y = n \<longrightarrow> g y = y @ w"
  obtain w where w: "\<forall>y. length y = n \<longrightarrow> g y = y @ w" using g by blast
  obtain u where "\<forall>y. length y = n + length w \<longrightarrow> h y = y @ u" using h by blast
  with w show "\<exists>w. \<forall>y. length y = n \<longrightarrow> h (g y) = y @ w" by (intro exI [of _ "w @ u"]) simp
qed

lemma appends_basic: "appends (\<lambda>y. y @ c)" "appends (enc_align k)"
  by (auto simp: appends_def enc_align_def)

lemma appends_words: "appends (enc_u32 v)" "appends (enc_sig s)"
  using appends_after [OF appends_basic(1) appends_basic(2)] appends_basic(1) by (simp_all add: enc_u32_def [abs_def] enc_sig_def [abs_def])

lemma appends_str: "appends (enc_str s)"
  using appends_after [OF appends_basic(1) appends_words(1)] by (simp add: enc_str_def [abs_def])

lemma enc_field_appends:
  assumes "plain_value v"
  shows "appends (enc_field f v)"
proof -
  obtain g where g: "appends g" "\<And>b. enc_value v b = Inr (g b)"
    using assms appends_str appends_words by (cases v) auto
  have "appends (\<lambda>b. enc_sig s (enc_align 8 b @ [byte_char (field_code f)]))" for s
    by (intro appends_after [OF appends_words(2)] appends_after [OF appends_basic(1)] appends_basic(2))
  from appends_after [OF g(1) this] g(2) show ?thesis by (simp add: enc_field_def [abs_def] Let_def)
qed

lemma enc_field_same: "plain_value v \<Longrightarrow> \<exists>w. \<forall>y. length y = n \<longrightarrow> enc_field f v y = y @ w"
  using enc_field_appends by (simp add: appends_def)

lemma fields_same:
  "list_all (\<lambda>(f, v). plain_value v) fs \<Longrightarrow> \<exists>w. \<forall>y. length y = n \<longrightarrow> fold (\<lambda>(f, v). enc_field f v) fs y = y @ w"
proof (induction fs arbitrary: n)
  case Nil
  then show ?case by simp
next
  case (Cons fv fs)
  obtain f v where fv: "fv = (f, v)" by (cases fv)
  obtain w where w: "\<forall>y. length y = n \<longrightarrow> enc_field f v y = y @ w" using enc_field_same [of v n f] Cons.prems fv by auto
  from Cons.IH [of "n + length w"] Cons.prems obtain u where
    "\<forall>y. length y = n + length w \<longrightarrow> fold (\<lambda>(f, v). enc_field f v) fs y = y @ u" by auto
  with w fv show ?case by (intro exI [of _ "w @ u"]) simp
qed

lemma encoded_message:
  assumes "encodeMessage m = Inr wire" "length (body_signature (dm_body m)) \<le> 255"
  obtains body e fl where "enc_body (dm_body m) [] [] = Inr (body_signature (dm_body m), body)"
    "e = fold (\<lambda>(f, v). enc_field f v) (header_fields m (body_signature (dm_body m))) (message_head m (word_of_nat (length body)) fl)"
    "fl = word_of_nat (length e - 16)" "wire = enc_align 8 e @ body"
proof -
  let ?sig = "body_signature (dm_body m)" and ?add = "\<lambda>(f, v). enc_field f v"
  obtain sg body where b: "enc_body (dm_body m) [] [] = Inr (sg, body)" using assms(1)
    by (auto simp: encodeMessage_def bind_result_Inr_iff)
  then have sg: "sg = ?sig" using enc_body_wire by fastforce
  let ?h = "message_head m (word_of_nat (length body))"
  have h0: "enc_u32 0 (enc_u32 (dm_serial m) (enc_u32 (word_of_nat (length body)) [CHR ''l'', byte_char (dm_type m), byte_char 0, byte_char 1])) = ?h 0"
    by (simp add: enc_u32_def enc_align_def zeros_def message_head_def)
  have al: "enc_align 8 (?h n) = ?h n" for n by (rule enc_align_aligned) simp
  obtain w where w: "\<forall>y. length y = 16 \<longrightarrow> fold ?add (header_fields m ?sig) y = y @ w"
    using fields_same [OF header_plain [OF assms(2)]] by blast
  let ?fl = "word_of_nat (length w) :: 32 word"
  have put: "put_u32 12 ?fl (?h 0 @ w) = ?h ?fl @ w"
    using put_u32_at [of "[CHR ''l'', byte_char (dm_type m), byte_char 0, byte_char 1] @
      le_bytes 4 (unat (word_of_nat (length body) :: 32 word)) @ le_bytes 4 (unat (dm_serial m))" ?fl "unat (0 :: 32 word)" w]
    by (simp add: message_head_def)
  have f: "fold ?add (header_fields m ?sig) (?h n) = ?h n @ w" for n using w by simp
  have "wire = enc_align 8 (?h ?fl @ w) @ body"
    using assms(1) b sg put by (simp add: encodeMessage_def Let_def h0 al f)
  with f [of ?fl] show ?thesis using b sg by (intro that [of body "?h ?fl @ w" ?fl]) simp_all
qed

lemma head_numbers:
  "take 4 (drop 4 (message_head m bl fl @ t)) = le_bytes 4 (unat bl)"
  "take 4 (drop 8 (message_head m bl fl @ t)) = le_bytes 4 (unat (dm_serial m))"
  "take 4 (drop 12 (message_head m bl fl @ t)) = le_bytes 4 (unat fl)"
  "hd (message_head m bl fl @ t) = CHR ''l''" "(message_head m bl fl @ t) ! 1 = byte_char (dm_type m)"
  by (simp_all add: message_head_def)

lemma of_byte_char: "word_of_nat (of_char (byte_char w)) = w"
  using unat8 [of w] by (simp add: byte_char_def of_char_of)

lemma header_fields_length: "length (header_fields m sig) \<le> 8"
  by (simp add: header_fields_def)

definition message_fuel :: "dbus_message \<Rightarrow> nat" where
  "message_fuel m = sum_list (map value_fuel (dm_body m)) + length (dm_body m) + 20"

text \<open>What the encoder wrote comes back, and the bytes behind it are left for the next message.\<close>

theorem read_written:
  assumes "encodeMessage m = Inr wire" "plain_message m" "length (body_signature (dm_body m)) \<le> 255"
    and "length wire \<le> dbusMaxMessage" "message_fuel m \<le> k"
  shows "readMessage other short k (wire @ rest) =
    Some (Decoded (m\<lparr>dm_signature := body_signature (dm_body m), dm_body := map seen_value (dm_body m)\<rparr>, rest) 0)"
proof -
  let ?sig = "body_signature (dm_body m)" and ?fs = "header_fields m (body_signature (dm_body m))"
  let ?r = "wire @ rest"
  obtain body e fl where B: "enc_body (dm_body m) [] [] = Inr (?sig, body)"
    and e: "e = fold (\<lambda>(f, v). enc_field f v) ?fs (message_head m (word_of_nat (length body)) fl)"
    and fl: "fl = word_of_nat (length e - 16)" and wire: "wire = enc_align 8 e @ body"
    by (rule encoded_message [OF assms(1,3)])
  let ?h = "message_head m (word_of_nat (length body)) fl"
  have bound: "length wire < 2 ^ 24 + 1" using assms(4) by (simp add: dbusMaxMessage_def)
  have le: "length e \<le> length wire" "length body \<le> length wire" using wire length_enc_align_le [of e 8] by simp_all
  have fuel: "length ?fs + 8 \<le> k - 1" "sum_list (map value_fuel (dm_body m)) + length (dm_body m) + 1 \<le> k"
    using assms(5) header_fields_length [of m ?sig] by (simp_all add: message_fuel_def)
  have elen: "length e < 2 ^ 32" using le bound by simp
  have F: "prefix ?h e" "dbus_decode False e (k - 1) (DecElements 1 ''(yv)'' (length e) [] 16) =
      Some (Decoded (DList (map field_seen ?fs)) (length e))"
    using fields_at [OF header_plain [OF assms(3)], where b = ?h and B = e and d = 1 and k = "k - 1" and acc = "[]"] e elen fuel(1)
    by simp_all
  have e16: "16 \<le> length e" using prefix_length_le [OF F(1)] by simp
  have ufl: "unat fl = length e - 16" using elen by (simp add: fl unsigned_of_nat take_bit_nat_eq_self)
  have ubl: "unat (word_of_nat (length body) :: 32 word) = length body"
    using le bound by (simp add: unsigned_of_nat take_bit_nat_eq_self)
  obtain t where t: "?r = ?h @ t" using F(1) wire prefix_enc_align [of e 8] by (auto simp: prefix_def)
  have num: "le_value (take 4 (drop 4 ?r)) = length body" "le_value (take 4 (drop 8 ?r)) = unat (dm_serial m)"
    "le_value (take 4 (drop 12 ?r)) = length e - 16"
    unfolding t head_numbers le_value_word using ufl ubl by simp_all
  have hd: "hd ?r = CHR ''l''" "?r ! 1 = byte_char (dm_type m)" unfolding t head_numbers by simp_all
  have padded: "16 + (length e - 16) + (8 - (16 + (length e - 16)) mod 8) mod 8 = length (enc_align 8 e)"
    using e16 by (simp add: enc_align_def zeros_def)
  have whole: "take (length (enc_align 8 e) + length body) ?r = wire" "drop (length (enc_align 8 e) + length body) ?r = rest"
    using wire by simp_all
  have fields: "take (16 + (length e - 16)) wire = e" using wire prefix_enc_align [of e 8] e16 by (auto simp: prefix_def)
  have start: "dbus_decode False e k (DecValue 0 ''a(yv)'' 12) = Some (Decoded (DList (map field_seen ?fs)) (length e))"
  proof -
    obtain j where k: "k = Suc j" using fuel(1) by (cases k) auto
    have "take 4 (drop 12 e) = le_bytes 4 (unat fl)" using F(1) head_numbers(3) by (metis prefix_def)
    then have "le_value (take 4 (drop 12 e)) = unat fl" by (simp only: le_value_word)
    then have "le_value (take 4 (drop 12 e)) = length e - 16" using ufl by (rule trans)
    then have fx: "dec_fixed False 4 e 12 = Inr (length e - 16, 16)"
      using e16 by (simp add: dec_fixed_def dec_align.simps dec_take_def)
    have al: "dec_align (alignment CHR ''('') e 16 = Inr 16" by (simp add: dec_align.simps alignment_def)
    have "dbus_decode False e k (DecValue 0 ''a(yv)'' 12) = dec_array (dbus_decode False e j) False e 0 ''(yv)'' 12"
      unfolding k by (simp add: dec_step_def dec_value_def)
    also have "\<dots> = dbus_decode False e j (DecElements 1 ''(yv)'' (length e) [] 16)"
      using fx al e16 by (simp add: dec_array_def)
    finally show ?thesis using F(2) k by simp
  qed
  have bd: "dec_body False body k ?sig [] 0 = Some (Decoded (map seen_value (dm_body m)) (length body))"
    using body_at [OF _ B, of body k "[]"] assms(2) fuel(2) le bound by (simp add: plain_message_def)
  have small: "\<not> dbusMaxMessage < length e - 16" "\<not> dbusMaxMessage < length body"
    "\<not> dbusMaxMessage < length (enc_align 8 e) + length body" "\<not> length ?r < length (enc_align 8 e) + length body"
    using assms(4) le wire by simp_all
  have enough: "\<not> length ?r < 16" using t by simp
  have drop_body: "drop (length (enc_align 8 e)) wire = body" using wire by simp
  let ?m0 = "\<lparr>dm_type = dm_type m, dm_serial = dm_serial m, dm_path = [], dm_interface = [], dm_member = [],
      dm_error = [], dm_reply = 0, dm_destination = [], dm_sender = [], dm_signature = [], dm_body = []\<rparr>"
  have parts: "message_parts other k False e body ?m0 =
      Some (Decoded (m\<lparr>dm_signature := ?sig, dm_body := map seen_value (dm_body m)\<rparr>) 0)"
    using start bd by (simp add: message_parts_def header_read)
  have order: "\<not> (CHR ''l'' \<noteq> CHR ''l'' \<and> CHR ''l'' \<noteq> CHR ''B'')" "(CHR ''l'' = CHR ''B'') = False" by simp_all
  show ?thesis
    unfolding readMessage_def Let_def hd order num padded whole fields drop_body of_byte_char if_False
    using enough small parts by (simp add: of_byte_char num whole fields drop_body)
qed

section \<open>Fuel\<close>

text \<open>More fuel never changes an answer.\<close>

definition extends :: "decoder \<Rightarrow> decoder \<Rightarrow> bool" where
  "extends r r' \<longleftrightarrow> (\<forall>job x. r job = Some x \<longrightarrow> r' job = Some x)"

lemma then_decode_more:
  "then_decode m f = Some x \<Longrightarrow> (\<And>y. m = Some y \<Longrightarrow> m' = Some y) \<Longrightarrow>
     (\<And>v off y. f v off = Some y \<Longrightarrow> f' v off = Some y) \<Longrightarrow> then_decode m' f' = Some x"
  by (auto simp: then_decode_def split: option.splits decoded.splits)

lemma decode_step_more:
  "decode_step m f = Some x \<Longrightarrow> (\<And>v off y. f v off = Some y \<Longrightarrow> f' v off = Some y) \<Longrightarrow> decode_step m f' = Some x"
  by (auto simp: decode_step_def split: sum.splits prod.splits)

lemma dec_variant_more: "extends r r' \<Longrightarrow> dec_variant r d off = Some x \<Longrightarrow> dec_variant r' d off = Some x"
  unfolding dec_variant_def
  by (erule then_decode_more) (auto simp: extends_def Let_def split: if_splits elim!: then_decode_more)

lemma dec_array_more: "extends r r' \<Longrightarrow> dec_array r big b d cs off = Some x \<Longrightarrow> dec_array r' big b d cs off = Some x"
  unfolding dec_array_def
  by (erule decode_step_more) (auto simp: extends_def Let_def split: if_splits sum.splits)

lemma dec_struct_more: "extends r r' \<Longrightarrow> dec_struct r b d s off = Some x \<Longrightarrow> dec_struct r' b d s off = Some x"
  by (auto simp: dec_struct_def extends_def split: sum.splits)

text \<open>The types whose decoding asks the decoder again, and the others.\<close>

lemma dec_value_deep [simp]: "64 < d \<Longrightarrow> dec_value r big b d s off = Some (Refused_msg (Plain ''dbus: nesting too deep''))"
  and dec_value_empty [simp]: "\<not> 64 < d \<Longrightarrow> dec_value r big b d [] off = Some Panics"
  and dec_value_v [simp]: "\<not> 64 < d \<Longrightarrow> dec_value r big b d (CHR ''v'' # cs) off = dec_variant r d off"
  and dec_value_a [simp]: "\<not> 64 < d \<Longrightarrow> dec_value r big b d (CHR ''a'' # cs) off = dec_array r big b d cs off"
  and dec_value_struct [simp]: "\<not> 64 < d \<Longrightarrow> dec_value r big b d (CHR ''('' # cs) off = dec_struct r b d (CHR ''('' # cs) off"
    "\<not> 64 < d \<Longrightarrow> dec_value r big b d (CHR ''{'' # cs) off = dec_struct r b d (CHR ''{'' # cs) off"
  by (simp_all add: dec_value_def)

definition deep_type :: "char \<Rightarrow> bool" where
  "deep_type c \<longleftrightarrow> c = CHR ''v'' \<or> c = CHR ''a'' \<or> c = CHR ''('' \<or> c = CHR ''{''"

definition dec_leaf :: "bool \<Rightarrow> string \<Rightarrow> char \<Rightarrow> nat \<Rightarrow> dbus_value decoded option" where
  "dec_leaf big b c off =
     (if c = CHR ''s'' \<or> c = CHR ''o'' then decode_step (dec_text big 4 b off) (\<lambda>x off. Some (Decoded (DString x) off))
      else if c = CHR ''g'' then decode_step (dec_text big 1 b off) (\<lambda>x off. Some (Decoded (DSignature x) off))
      else dec_number big c b off)"

lemma dec_value_leaf: "\<not> 64 < d \<Longrightarrow> \<not> deep_type c \<Longrightarrow> dec_value r big b d (c # cs) off = dec_leaf big b c off"
  by (simp add: dec_value_def deep_type_def dec_leaf_def)

lemma dec_value_cases:
  fixes d :: nat
  obtains (deep) "64 < d" | (empty) "\<not> 64 < d" "s = []" | (variant) cs where "\<not> 64 < d" "s = CHR ''v'' # cs"
    | (array) cs where "\<not> 64 < d" "s = CHR ''a'' # cs" | (struct) cs where "\<not> 64 < d" "s = CHR ''('' # cs \<or> s = CHR ''{'' # cs"
    | (leaf) c cs where "\<not> 64 < d" "s = c # cs" "\<not> deep_type c"
  unfolding deep_type_def by (cases s) blast+

lemma dec_value_more:
  assumes "extends r r'" "dec_value r big b d s off = Some x"
  shows "dec_value r' big b d s off = Some x"
proof (cases rule: dec_value_cases [where d = d and s = s])
  case struct
  with assms dec_struct_more [OF assms(1)] show ?thesis by auto
qed (use assms dec_variant_more [OF assms(1)] dec_array_more [OF assms(1)] dec_value_leaf in \<open>simp_all\<close>)

lemma dec_elements_more: "extends r r' \<Longrightarrow> dec_elements r d s en acc off = Some x \<Longrightarrow> dec_elements r' d s en acc off = Some x"
  by (auto simp: dec_elements_def extends_def split: if_splits elim!: then_decode_more)

lemma dec_entries_more:
  assumes "extends r r'" "dec_entries r d s en acc off = Some x"
  shows "dec_entries r' d s en acc off = Some x"
proof (cases "off < en")
  case True
  show ?thesis unfolding dec_entries_def if_P [OF True]
    by (rule then_decode_more [OF assms(2) [unfolded dec_entries_def if_P [OF True]]]) (use assms(1) in \<open>auto simp: extends_def split: option.splits\<close>)
next
  case False
  with assms(2) show ?thesis by (simp add: dec_entries_def)
qed

lemma dec_members_more: "extends r r' \<Longrightarrow> dec_members r d s acc off = Some x \<Longrightarrow> dec_members r' d s acc off = Some x"
  by (auto simp: dec_members_def extends_def split: if_splits sum.splits elim!: then_decode_more)

lemma dec_step_more: "extends r r' \<Longrightarrow> extends (dec_step r big b) (dec_step r' big b)"
  unfolding extends_def [of "dec_step r big b"]
  by (auto simp: dec_step_def dec_value_more dec_elements_more dec_entries_more dec_members_more split: dec_job.splits)

lemma dbus_decode_Suc: "extends (dbus_decode big b k) (dbus_decode big b (Suc k))"
proof (induction k)
  case 0
  then show ?case by (simp add: extends_def)
next
  case (Suc k)
  then show ?case using dec_step_more by simp
qed

lemma dbus_decode_more: "dbus_decode big b k job = Some x \<Longrightarrow> k \<le> j \<Longrightarrow> dbus_decode big b j job = Some x"
proof (induction j)
  case 0
  then show ?case by simp
next
  case (Suc j)
  then show ?case using dbus_decode_Suc [of big b j] by (cases "k = Suc j") (auto simp: extends_def)
qed

section \<open>The buffer\<close>

fun job_offset :: "dec_job \<Rightarrow> nat" where
  "job_offset (DecValue d s off) = off"
| "job_offset (DecElements d s en acc off) = off"
| "job_offset (DecEntries d s en acc off) = off"
| "job_offset (DecMembers d s acc off) = off"

lemma dec_align_bounds: "dec_align n b off = Inr m \<Longrightarrow> off \<le> length b \<Longrightarrow> off \<le> m \<and> m \<le> length b"
proof (induction n b off rule: dec_align.induct)
  case (1 n b off)
  show ?case
  proof (cases "off mod n = 0 \<or> length b \<le> off")
    case True
    with 1 show ?thesis by (auto simp: dec_align.simps [of n b off] split: if_splits)
  next
    case False
    then have "dec_align n b (Suc off) = Inr m" using 1(2) by (simp add: dec_align.simps [of n b off])
    from 1(1) [OF _ _ this] False show ?thesis by simp
  qed
qed

lemma dec_fixed_bounds: "dec_fixed big n b off = Inr (v, m) \<Longrightarrow> off \<le> length b \<Longrightarrow> off \<le> m \<and> m \<le> length b"
  by (auto simp: dec_fixed_def dec_take_def bind_result_Inr_iff dest!: dec_align_bounds split: if_splits)

lemma dec_text_bounds:
  assumes "dec_text big n b off = Inr (v, m)" "off \<le> length b"
  shows "off \<le> m \<and> m \<le> length b"
proof -
  from assms(1) obtain l o1 p where "dec_fixed big n b off = Inr (l, o1)" "dec_take (l + 1) b o1 = Inr (p, m)"
    by (auto simp: dec_text_def bind_result_Inr_iff)
  with dec_fixed_bounds [OF this(1) assms(2)] show ?thesis by (auto simp: dec_take_def split: if_splits)
qed

definition inside :: "string \<Rightarrow> decoder \<Rightarrow> bool" where
  "inside b r \<longleftrightarrow> (\<forall>job v m. r job = Some (Decoded v m) \<longrightarrow> job_offset job \<le> length b \<longrightarrow> job_offset job \<le> m \<and> m \<le> length b)"

lemma insideD: "inside b r \<Longrightarrow> r job = Some (Decoded v m) \<Longrightarrow> job_offset job \<le> length b \<Longrightarrow> job_offset job \<le> m \<and> m \<le> length b"
  unfolding inside_def by blast

lemma then_decode_Decoded:
  "then_decode m f = Some (Decoded v off') \<longleftrightarrow> (\<exists>x off. m = Some (Decoded x off) \<and> f x off = Some (Decoded v off'))"
  by (auto simp: then_decode_def split: option.splits decoded.splits)

lemma decode_step_Decoded:
  "decode_step m f = Some (Decoded v off') \<longleftrightarrow> (\<exists>x off. m = Inr (x, off) \<and> f x off = Some (Decoded v off'))"
  by (auto simp: decode_step_def split: sum.splits prod.splits)

lemma dec_number_inside: "dec_number big c b off = Some (Decoded v m) \<Longrightarrow> off \<le> length b \<Longrightarrow> off \<le> m \<and> m \<le> length b"
  by (auto simp: dec_number_def decode_step_Decoded dest: dec_fixed_bounds split: option.splits)

lemma dec_variant_inside:
  assumes "inside b r" "dec_variant r d off = Some (Decoded v m)" "off \<le> length b"
  shows "off \<le> m \<and> m \<le> length b"
proof -
  obtain s o1 x o2 where "r (DecValue (Suc d) ''g'' off) = Some (Decoded s o1)"
    "r (DecValue (Suc d) (case s of DSignature x \<Rightarrow> x | _ \<Rightarrow> []) o1) = Some (Decoded x o2)" "m = o2"
    using assms(2) by (auto simp: dec_variant_def then_decode_Decoded Let_def split: if_splits)
  with insideD [OF assms(1) this(1)] insideD [OF assms(1) this(2)] assms(3) show ?thesis by simp
qed

lemma dec_array_inside:
  assumes "inside b r" "dec_array r big b d cs off = Some (Decoded v m)" "off \<le> length b"
  shows "off \<le> m \<and> m \<le> length b"
proof -
  obtain n o1 where f: "dec_fixed big 4 b off = Inr (n, o1)"
    using assms(2) by (cases "dec_fixed big 4 b off") (auto simp: dec_array_def)
  obtain z where z: "completeType cs = Inr z" using assms(2) f by (cases "completeType cs") (auto simp: dec_array_def)
  let ?e = "take z cs"
  obtain o2 where al: "dec_align (alignment (hd ?e)) b o1 = Inr o2"
    using assms(2) f z by (cases "dec_align (alignment (hd ?e)) b o1") (simp_all add: dec_array_def Let_def del: hd_take)
  have run: "(if length b < o2 + n then Some (Refused_msg errDBusShort)
      else if hd ?e = CHR ''{'' then r (DecEntries (Suc d) ?e (o2 + n) [] o2)
      else r (DecElements (Suc d) ?e (o2 + n) [] o2)) = Some (Decoded v m)"
    using assms(2) f z al by (simp add: dec_array_def Let_def del: hd_take)
  obtain job where job: "r job = Some (Decoded v m)" "job_offset job = o2"
  proof (cases "hd ?e = CHR ''{''")
    case True
    with run show ?thesis by (intro that [of "DecEntries (Suc d) ?e (o2 + n) [] o2"]) (simp_all del: hd_take split: if_splits)
  next
    case False
    with run show ?thesis by (intro that [of "DecElements (Suc d) ?e (o2 + n) [] o2"]) (simp_all del: hd_take split: if_splits)
  qed
  note j = f al job
  from dec_fixed_bounds [OF j(1) assms(3)] have "off \<le> o1" "o1 \<le> length b" by simp_all
  moreover from dec_align_bounds [OF j(2) this(2)] have "o1 \<le> o2" "o2 \<le> length b" by simp_all
  moreover from insideD [OF assms(1) j(3)] j(4) this(2) have "o2 \<le> m" "m \<le> length b" by simp_all
  ultimately show ?thesis by simp
qed

lemma dec_struct_inside:
  assumes "inside b r" "dec_struct r b d s off = Some (Decoded v m)" "off \<le> length b"
  shows "off \<le> m \<and> m \<le> length b"
proof -
  obtain o1 n where j: "dec_align 8 b off = Inr o1" "r (DecMembers (Suc d) (take (n - 2) (tl s)) [] o1) = Some (Decoded v m)"
    using assms(2) by (auto simp: dec_struct_def split: sum.splits)
  from dec_align_bounds [OF j(1) assms(3)] insideD [OF assms(1) j(2)] show ?thesis by simp
qed

lemma dec_leaf_inside: "dec_leaf big b c off = Some (Decoded v m) \<Longrightarrow> off \<le> length b \<Longrightarrow> off \<le> m \<and> m \<le> length b"
  by (auto simp: dec_leaf_def decode_step_Decoded dest: dec_text_bounds dec_number_inside split: if_splits)

lemma dec_value_inside:
  assumes "inside b r" "dec_value r big b d s off = Some (Decoded v m)" "off \<le> length b"
  shows "off \<le> m \<and> m \<le> length b"
proof (cases rule: dec_value_cases [where d = d and s = s])
  case struct
  with assms(2) have "\<exists>s. dec_struct r b d s off = Some (Decoded v m)" by auto
  with dec_struct_inside [OF assms(1) _ assms(3)] show ?thesis by blast
next
  case leaf
  with assms(2,3) dec_leaf_inside dec_value_leaf show ?thesis by metis
qed (use assms dec_variant_inside [OF assms(1) _ assms(3)] dec_array_inside [OF assms(1) _ assms(3)] in \<open>simp_all\<close>)

lemma dec_elements_inside:
  assumes "inside b r" "dec_elements r d s en acc off = Some (Decoded v m)" "off \<le> length b"
  shows "off \<le> m \<and> m \<le> length b"
proof (cases "off < en")
  case True
  with assms(2) obtain x o1 where j: "r (DecValue d s off) = Some (Decoded x o1)" "r (DecElements d s en (acc @ [x]) o1) = Some (Decoded v m)"
    by (auto simp: dec_elements_def then_decode_Decoded)
  from insideD [OF assms(1) j(1)] insideD [OF assms(1) j(2)] assms(3) show ?thesis by simp
next
  case False
  with assms(2,3) show ?thesis by (simp add: dec_elements_def)
qed

lemma dec_entries_inside:
  assumes "inside b r" "dec_entries r d s en acc off = Some (Decoded v m)" "off \<le> length b"
  shows "off \<le> m \<and> m \<le> length b"
proof (cases "off < en")
  case True
  with assms(2) obtain x o1 acc' where j: "r (DecValue d s off) = Some (Decoded x o1)" "r (DecEntries d s en acc' o1) = Some (Decoded v m)"
    by (auto simp: dec_entries_def then_decode_Decoded split: option.splits)
  from insideD [OF assms(1) j(1)] insideD [OF assms(1) j(2)] assms(3) show ?thesis by simp
next
  case False
  with assms(2,3) show ?thesis by (simp add: dec_entries_def)
qed

lemma dec_members_inside:
  assumes "inside b r" "dec_members r d s acc off = Some (Decoded v m)" "off \<le> length b"
  shows "off \<le> m \<and> m \<le> length b"
proof (cases "s = []")
  case False
  with assms(2) obtain x o1 n where j: "r (DecValue d (take n s) off) = Some (Decoded x o1)"
    "r (DecMembers d (drop n s) (acc @ [x]) o1) = Some (Decoded v m)"
    by (auto simp: dec_members_def then_decode_Decoded split: sum.splits)
  from insideD [OF assms(1) j(1)] insideD [OF assms(1) j(2)] assms(3) show ?thesis by simp
next
  case True
  with assms(2,3) show ?thesis by (simp add: dec_members_def)
qed

lemma dbus_decode_inside: "inside b (dbus_decode big b k)"
proof (induction k)
  case 0
  then show ?case by (simp add: inside_def)
next
  case (Suc k)
  show ?case
    unfolding inside_def
  proof (intro allI impI)
    fix job v m
    assume run: "dbus_decode big b (Suc k) job = Some (Decoded v m)" and off: "job_offset job \<le> length b"
    show "job_offset job \<le> m \<and> m \<le> length b"
    proof (cases job)
      case (DecValue d s off)
      with run off show ?thesis using dec_value_inside [OF Suc, of big d s off v m] by (simp add: dec_step_def)
    next
      case (DecElements d s en acc off)
      with run off show ?thesis using dec_elements_inside [OF Suc, of d s en acc off v m] by (simp add: dec_step_def)
    next
      case (DecEntries d s en acc off)
      with run off show ?thesis using dec_entries_inside [OF Suc, of d s en acc off v m] by (simp add: dec_step_def)
    next
      case (DecMembers d s acc off)
      with run off show ?thesis using dec_members_inside [OF Suc, of d s acc off v m] by (simp add: dec_step_def)
    qed
  qed
qed

section \<open>Messages the decoder does not survive\<close>

text \<open>An array whose elements take no bytes: no number of steps comes to its end.\<close>

lemma no_progress:
  assumes "off < en" "\<And>k. dbus_decode big b k (DecValue d s off) \<in> {None, Some (Decoded v off)}"
  shows "dbus_decode big b k (DecElements d s en acc off) = None"
proof (induction k arbitrary: acc)
  case 0
  then show ?case by simp
next
  case (Suc k)
  show ?case
  proof (cases "dbus_decode big b k (DecValue d s off)")
    case None
    with assms(1) show ?thesis by (simp add: dec_step_def dec_elements_def)
  next
    case (Some y)
    with assms(2) [of k] have "dbus_decode big b k (DecValue d s off) = Some (Decoded v off)" by auto
    with assms(1) Suc show ?thesis by (simp add: dec_step_def dec_elements_def)
  qed
qed

lemma empty_struct:
  assumes "off mod 8 = 0" "d \<le> 64"
  shows "dbus_decode big b k (DecValue d ''()'' off) \<in> {None, Some (Decoded (DList []) off)}"
proof (cases k)
  case (Suc j)
  have "completeType ''()'' = Inr 2" by (simp add: completeType.simps closes.simps)
  with Suc assms show ?thesis
    by (cases j) (simp_all add: dec_step_def dec_value_def dec_struct_def dec_align.simps dec_members_def)
qed simp

lemma empty_struct_array_hangs:
  assumes "off mod 8 = 0" "off < en" "d \<le> 64"
  shows "dbus_decode big b k (DecElements d ''()'' en acc off) = None"
  by (rule no_progress [OF assms(2) empty_struct [OF assms(1,3)]])

text \<open>Forty bytes, one header field: an array of empty structs of eight bytes, or a dictionary without key.\<close>

definition poison :: "string \<Rightarrow> string" where
  "poison sig = [CHR ''l'', CHR 0x04, CHR 0x00, CHR 0x01, CHR 0x00, CHR 0x00, CHR 0x00, CHR 0x00,
     CHR 0x01, CHR 0x00, CHR 0x00, CHR 0x00, CHR 0x18, CHR 0x00, CHR 0x00, CHR 0x00, CHR 0x01, CHR 0x03] @ sig @
     [CHR 0x00, CHR 0x00, CHR 0x00, CHR 0x08, CHR 0x00, CHR 0x00, CHR 0x00,
     CHR 0x00, CHR 0x00, CHR 0x00, CHR 0x00, CHR 0x00, CHR 0x00, CHR 0x00, CHR 0x00, CHR 0x00, CHR 0x00, CHR 0x00, CHR 0x00]"

lemma poison_shape [simp]: "length sig = 3 \<Longrightarrow> length (poison sig) = 40"
  by (simp add: poison_def)

lemma three_chars: "length s = 3 \<Longrightarrow> \<exists>a b c. s = [a, b, c]"
  by (auto simp: length_Suc_conv numeral_3_eq_3)

lemma poison_bytes:
  assumes "length sig = 3"
  shows "dec_fixed False 4 (poison sig) 12 = Inr (24, 16)" "dec_fixed False 1 (poison sig) 16 = Inr (1, 17)"
    "dec_text False 1 (poison sig) 17 = Inr (sig, 22)" "dec_fixed False 4 (poison sig) 22 = Inr (8, 28)"
    "dec_align 8 (poison sig) 16 = Inr 16" "dec_align 8 (poison sig) 28 = Inr 32"
proof -
  obtain a b c where sig: "sig = [a, b, c]" using three_chars [OF assms] by blast
  have "take 4 (drop 12 (poison sig)) = [CHR 0x18, CHR 0x00, CHR 0x00, CHR 0x00]" "take 1 (drop 16 (poison sig)) = [CHR 0x01]"
    "take 1 (drop 17 (poison sig)) = [CHR 0x03]" "take 4 (drop 18 (poison sig)) = sig @ [CHR 0x00]"
    "take (Suc (Suc (Suc 0))) (drop 18 (poison sig)) = sig" "take 4 (drop 24 (poison sig)) = [CHR 0x08, CHR 0x00, CHR 0x00, CHR 0x00]"
    by (simp_all add: sig poison_def)
  note bytes = this
  show "dec_fixed False 4 (poison sig) 12 = Inr (24, 16)" "dec_fixed False 1 (poison sig) 16 = Inr (1, 17)"
    "dec_text False 1 (poison sig) 17 = Inr (sig, 22)" "dec_fixed False 4 (poison sig) 22 = Inr (8, 28)"
    "dec_align 8 (poison sig) 16 = Inr 16" "dec_align 8 (poison sig) 28 = Inr 32"
    using bytes assms by (simp_all add: dec_fixed_def dec_text_def dec_take_def dec_align.simps)
qed

text \<open>What becomes of the value in the field becomes of the message.\<close>

lemma poison_spreads:
  assumes "length sig = 3" "completeType sig = Inr 3"
    and "dbus_decode False (poison sig) k (DecValue 3 sig 22) = x" "x = None \<or> x = Some Panics"
  shows "dbus_decode False (poison sig) (k + 6) (DecValue 0 ''a(yv)'' 12) = x"
proof -
  let ?D = "dbus_decode False (poison sig)"
  note bytes = poison_bytes [OF assms(1)] and len = poison_shape [OF assms(1)]
  have x: "then_decode x f = x" for f :: "dbus_value \<Rightarrow> nat \<Rightarrow> dbus_value decoded option" using assms(4) by auto
  have str: "?D (Suc n) (DecValue 3 ''g'' 17) = Some (Decoded (DSignature sig) 22)" for n
    using bytes(3) by (simp add: dec_step_def dec_value_leaf deep_type_def dec_leaf_def)
  have var: "?D (Suc k) (DecValue 2 ''v'' 17) = x"
  proof (cases k)
    case 0
    with assms(3) show ?thesis by (simp add: dec_step_def dec_variant_def)
  next
    case (Suc n)
    have "?D (Suc k) (DecValue 2 ''v'' 17) = dec_variant (?D k) 2 17" by (simp add: dec_step_def)
    with str [of n] Suc assms(1,2,3) x show ?thesis by (simp add: dec_variant_def Let_def numeral_3_eq_3 [symmetric] del: dbus_decode.simps)
  qed
  have "?D (Suc (Suc k)) (DecMembers 2 ''v'' [DByte 1] 17) = dec_members (?D (Suc k)) 2 ''v'' [DByte 1] 17" by (simp add: dec_step_def)
  with var x have m2: "?D (Suc (Suc k)) (DecMembers 2 ''v'' [DByte 1] 17) = x" by (simp add: dec_members_def del: dbus_decode.simps)
  have y: "?D (Suc (Suc k)) (DecValue 2 ''y'' 16) = Some (Decoded (DByte 1) 17)"
    using bytes(2) by (simp add: dec_step_def dec_value_leaf deep_type_def dec_leaf_def dec_number_def number_type_def)
  have "?D (Suc (Suc (Suc k))) (DecMembers 2 ''yv'' [] 16) = dec_members (?D (Suc (Suc k))) 2 ''yv'' [] 16" by (simp add: dec_step_def)
  with y m2 have m1: "?D (Suc (Suc (Suc k))) (DecMembers 2 ''yv'' [] 16) = x" by (simp add: dec_members_def del: dbus_decode.simps)
  have "?D (Suc (Suc (Suc (Suc k)))) (DecValue 1 ''(yv)'' 16) = dec_struct (?D (Suc (Suc (Suc k)))) (poison sig) 1 ''(yv)'' 16"
    by (simp add: dec_step_def)
  with bytes(5) m1 have st: "?D (Suc (Suc (Suc (Suc k)))) (DecValue 1 ''(yv)'' 16) = x"
    by (simp add: dec_struct_def numeral_2_eq_2 [symmetric] del: dbus_decode.simps)
  have "?D (Suc (Suc (Suc (Suc (Suc k))))) (DecElements 1 ''(yv)'' 40 [] 16) = dec_elements (?D (Suc (Suc (Suc (Suc k))))) 1 ''(yv)'' 40 [] 16"
    by (simp add: dec_step_def)
  with st x have el: "?D (Suc (Suc (Suc (Suc (Suc k))))) (DecElements 1 ''(yv)'' 40 [] 16) = x"
    by (simp add: dec_elements_def del: dbus_decode.simps)
  have "?D (Suc (Suc (Suc (Suc (Suc (Suc k)))))) (DecValue 0 ''a(yv)'' 12) =
      dec_array (?D (Suc (Suc (Suc (Suc (Suc k)))))) False (poison sig) 0 ''(yv)'' 12"
    by (simp add: dec_step_def)
  also have "\<dots> = x"
  proof -
    have al: "dec_align (alignment (hd (take 4 ''(yv)''))) (poison sig) 16 = Inr 16" using bytes(5) by (simp add: alignment_def)
    show ?thesis unfolding dec_array_def bytes(1) decode_step_simps complete_simple(7) sum.case Let_def al
      using el len by (simp del: dbus_decode.simps)
  qed
  finally show ?thesis by (simp add: add.commute [of k] eval_nat_numeral del: dbus_decode.simps)
qed

lemma poison_types: "completeType ''a()'' = Inr 3" "completeType ''a{}'' = Inr 3" "completeType ''()'' = Inr 2" "completeType ''{}'' = Inr 2"
  by (simp_all add: completeType.simps closes.simps)

text \<open>A dictionary whose entries have no key: the entry is an empty list and \<open>pair[0]\<close> panics.\<close>

lemma poison_dict: "dbus_decode False (poison ''a{}'') (Suc (Suc (Suc (Suc 0)))) (DecValue 3 ''a{}'' 22) = Some Panics"
proof -
  let ?B = "poison ''a{}''"
  note bytes = poison_bytes [of "''a{}''", simplified] and len = poison_shape [of "''a{}''", simplified]
  let ?two = "Suc (Suc 0)"
  have v: "dbus_decode False ?B ?two (DecValue 4 ''{}'' 32) = Some (Decoded (DList []) 32)"
    using poison_types(4) by (simp add: dec_step_def dec_struct_def dec_align.simps dec_members_def)
  have "dbus_decode False ?B (Suc ?two) (DecEntries 4 ''{}'' 40 [] 32) = dec_entries (dbus_decode False ?B ?two) 4 ''{}'' 40 [] 32"
    by (simp add: dec_step_def)
  with v have e: "dbus_decode False ?B (Suc ?two) (DecEntries 4 ''{}'' 40 [] 32) = Some Panics"
    by (simp add: dec_entries_def entry_pair_def del: dbus_decode.simps)
  have "dbus_decode False ?B (Suc (Suc ?two)) (DecValue 3 ''a{}'' 22) = dec_array (dbus_decode False ?B (Suc ?two)) False ?B 3 ''{}'' 22"
    by (simp add: dec_step_def)
  with bytes(4,6) e len poison_types(4) show ?thesis by (simp add: dec_array_def Let_def alignment_def del: dbus_decode.simps)
qed

lemma poison_array: "dbus_decode False (poison ''a()'') k (DecValue 3 ''a()'' 22) = None"
proof (cases k)
  case (Suc n)
  let ?B = "poison ''a()''"
  note bytes = poison_bytes [of "''a()''", simplified] and len = poison_shape [of "''a()''", simplified]
  have e: "dbus_decode False ?B n (DecElements 4 ''()'' 40 [] 32) = None" by (rule empty_struct_array_hangs) simp_all
  have "dbus_decode False ?B (Suc n) (DecValue 3 ''a()'' 22) = dec_array (dbus_decode False ?B n) False ?B 3 ''()'' 22"
    by (simp add: dec_step_def)
  with Suc bytes(4,6) e len poison_types(3) show ?thesis by (simp add: dec_array_def Let_def alignment_def)
qed simp

lemma poison_header:
  assumes "length sig = 3"
  shows "readMessage other short k (poison sig @ rest) = then_decode (message_parts other k False (poison sig) []
     \<lparr>dm_type = 4, dm_serial = 1, dm_path = [], dm_interface = [], dm_member = [], dm_error = [], dm_reply = 0,
      dm_destination = [], dm_sender = [], dm_signature = [], dm_body = []\<rparr>) (\<lambda>m _. Some (Decoded (m, rest) 0))"
proof -
  obtain a b c where sig: "sig = [a, b, c]" using three_chars [OF assms] by blast
  let ?r = "poison sig @ rest"
  have len: "length (poison sig) = 40" by (rule poison_shape [OF assms])
  have nums: "take 4 (drop 4 ?r) = [CHR 0x00, CHR 0x00, CHR 0x00, CHR 0x00]" "take 4 (drop 8 ?r) = [CHR 0x01, CHR 0x00, CHR 0x00, CHR 0x00]"
    "take 4 (drop 12 ?r) = [CHR 0x18, CHR 0x00, CHR 0x00, CHR 0x00]" "hd ?r = CHR ''l''" "?r ! 1 = CHR 0x04"
    by (simp_all add: sig poison_def)
  have vals: "le_value [CHR 0x00, CHR 0x00, CHR 0x00, CHR 0x00] = 0" "le_value [CHR 0x01, CHR 0x00, CHR 0x00, CHR 0x00] = 1"
    "le_value [CHR 0x18, CHR 0x00, CHR 0x00, CHR 0x00] = 24" "word_of_nat (of_char (CHR 0x04)) = (4 :: 8 word)" by simp_all
  have order: "\<not> (CHR ''l'' \<noteq> CHR ''l'' \<and> CHR ''l'' \<noteq> CHR ''B'')" "(CHR ''l'' = CHR ''B'') = False" by simp_all
  have parts: "take 40 ?r = poison sig" "drop 40 ?r = rest" "drop 40 (poison sig) = []" "take 40 (poison sig) = poison sig" using len by simp_all
  have small: "\<not> length ?r < 16" "\<not> length ?r < 40" using len by simp_all
  show ?thesis unfolding readMessage_def Let_def nums order if_False vals
    using small parts len by (simp add: dbusMaxMessage_def)
qed

text \<open>The first panics in the goroutine that reads the bus, the second never comes back to it.\<close>

lemma poison_panics:
  assumes "10 \<le> k"
  shows "readMessage other short k (poison ''a{}'' @ rest) = Some Panics"
proof -
  have "dbus_decode False (poison ''a{}'') (Suc (Suc (Suc (Suc 0))) + 6) (DecValue 0 ''a(yv)'' 12) = Some Panics"
    by (rule poison_spreads [OF _ _ poison_dict]) (simp_all add: poison_types)
  then have "dbus_decode False (poison ''a{}'') k (DecValue 0 ''a(yv)'' 12) = Some Panics"
    by (rule dbus_decode_more) (use assms in simp)
  then show ?thesis by (simp add: poison_header message_parts_def)
qed

lemma poison_hangs: "readMessage other short k (poison ''a()'' @ rest) = None"
proof -
  have "dbus_decode False (poison ''a()'') (k + 6) (DecValue 0 ''a(yv)'' 12) = None"
    by (rule poison_spreads [OF _ _ poison_array]) (simp_all add: poison_types)
  then have "dbus_decode False (poison ''a()'') k (DecValue 0 ''a(yv)'' 12) = None"
    using dbus_decode_more [of False "poison ''a()''" k "DecValue 0 ''a(yv)'' 12" _ "k + 6"]
    by (cases "dbus_decode False (poison ''a()'') k (DecValue 0 ''a(yv)'' 12)") simp_all
  then show ?thesis by (simp add: poison_header message_parts_def)
qed

section \<open>How long a message can be\<close>

lemma enc_length:
  "0 < n \<Longrightarrow> length (enc_align n b) \<le> length b + n"
  "length (enc_u32 v b) \<le> length b + 8"
  "length (enc_str x b) \<le> length b + length x + 9"
  "length (enc_sig x b) = length b + length x + 2"
  "length (put_u32 k v b) \<le> length b + 4"
proof -
  show a: "0 < n \<Longrightarrow> length (enc_align n b) \<le> length b + n" for n b by (simp add: enc_align_def zeros_def less_imp_le)
  show u: "length (enc_u32 v b) \<le> length b + 8" for v b using a [of 4 b] by (simp add: enc_u32_def)
  show "length (enc_str x b) \<le> length b + length x + 9" using u [of "word_of_nat (length x)" b] by (simp add: enc_str_def zeros_def)
qed (simp_all add: enc_sig_def put_u32_def zeros_def)

fun text_length :: "dbus_value \<Rightarrow> nat" where
  "text_length (DString x) = length x"
| "text_length (DPath x) = length x"
| "text_length (DSignature x) = length x"
| "text_length _ = 0"

lemma enc_field_length:
  assumes "plain_value v"
  shows "length (enc_field f v b) \<le> length b + text_length v + 21"
proof -
  let ?b = "enc_align 8 b @ [byte_char (field_code f)]"
  have b: "length ?b \<le> length b + 9" using enc_length(1) [of 8 b] by simp
  have s: "length (enc_sig [c] ?b) \<le> length b + 12" for c using b by (simp add: enc_length(4))
  have str: "length (enc_str x (enc_sig [c] ?b)) \<le> length b + length x + 21" for x c
    using enc_length(3) [of x "enc_sig [c] ?b"] s [of c] by linarith
  have sig: "length (enc_sig x (enc_sig [c] ?b)) \<le> length b + length x + 21" for x c
    using enc_length(4) [of x "enc_sig [c] ?b"] s [of c] by linarith
  have num: "length (enc_u32 w (enc_sig [c] ?b)) \<le> length b + 21" for w c
    using enc_length(2) [of w "enc_sig [c] ?b"] s [of c] by linarith
  show ?thesis using assms
    by (cases v) (simp_all only: enc_field_def Let_def signatureOf.simps enc_value.simps sum.case text_length.simps plain_value.simps
        str sig num add_0_right)
qed

lemma fold_field_length:
  "list_all (\<lambda>(f, v). plain_value v) fs \<Longrightarrow>
     length (fold (\<lambda>(f, v). enc_field f v) fs b) \<le> length b + (\<Sum>(f, v)\<leftarrow>fs. text_length v + 21)"
proof (induction fs arbitrary: b)
  case (Cons x fs)
  obtain f v where x: "x = (f, v)" by (cases x)
  with Cons.prems enc_field_length [of v f b] Cons.IH [of "enc_field f v b"] show ?case by simp
qed simp

lemma encoded_length:
  assumes "encodeMessage m = Inr wire" "enc_body (dm_body m) [] [] = Inr (sig, body)" "length sig \<le> 255" "body_signature (dm_body m) = sig"
  shows "length wire \<le> length body + 24 + (\<Sum>(f, v)\<leftarrow>header_fields m sig. text_length v + 21)"
proof -
  obtain body' e fl where B: "enc_body (dm_body m) [] [] = Inr (sig, body')"
    and e: "e = fold (\<lambda>(f, v). enc_field f v) (header_fields m sig) (message_head m (word_of_nat (length body')) fl)"
    and w: "wire = enc_align 8 e @ body'"
    using encoded_message [OF assms(1)] assms(3,4) by metis
  have "body' = body" using B assms(2) by simp
  moreover have "length e \<le> 16 + (\<Sum>(f, v)\<leftarrow>header_fields m sig. text_length v + 21)"
    using fold_field_length [OF header_plain [OF assms(3)], of m "message_head m (word_of_nat (length body')) fl"] unfolding e by simp
  moreover have "length (enc_align 8 e) \<le> length e + 8" by (rule enc_length(1)) simp
  ultimately show ?thesis unfolding w length_append by simp
qed

end
