(* ===== verification/Network_Manager.thy ===== *)
theory Network_Manager
  imports Dbus Network_Gate Go_Text
begin

text \<open>
  The connection to the bus and the Linux cost source on it (\<open>go/netcost/dbus.go\<close>, second half): calls
  that wait for their reply, the goroutine that reads, and NetworkManager's \<open>Metered\<close> property.

  \<open>'w\<close> is what the callbacks of the connection change. The lock of the connection makes each of the steps
  below one step; what the bus sends while a call waits is an argument. The lemmas show that no call is
  left waiting on a connection that has ended, and that the cost is the last one the bus reported.
\<close>

section \<open>One connection\<close>

text \<open>A call that waits: what its reply does before the next message is read.\<close>

type_synonym 'w pending_call = "(dbus_message \<Rightarrow> 'w \<Rightarrow> 'w) option"

record 'w dbus_conn =
  cn_serial :: "32 word"
  cn_pending :: "32 word \<Rightarrow> 'w pending_call option"
  cn_err :: "err option"
  cn_replies :: "32 word \<Rightarrow> dbus_message option list"
  cn_done :: bool
  cn_world :: 'w

definition new_conn :: "'w \<Rightarrow> 'w dbus_conn" where
  "new_conn w = \<lparr>cn_serial = 0, cn_pending = (\<lambda>_. None), cn_err = None, cn_replies = (\<lambda>_. []), cn_done = False, cn_world = w\<rparr>"

text \<open>\<open>dbusAuthenticate\<close>: what is sent, and the answer to the line that comes back.\<close>

definition hex_digits_of :: "string \<Rightarrow> string" where
  "hex_digits_of s = concat (map (\<lambda>c. [hex_digits ! (byte_of c div 16), hex_digits ! (byte_of c mod 16)]) s)"

definition auth_request :: "int \<Rightarrow> string" where
  "auth_request uid = CHR 0x00 # ''AUTH EXTERNAL '' @ hex_digits_of (fmt_int uid) @ [CHR 0x0D, CHR 0x0A]"

definition auth_answer :: "err + string \<Rightarrow> err option" where
  "auth_answer line =
     (case line of
        Inl e \<Rightarrow> Some e
      | Inr x \<Rightarrow> if prefix ''OK '' x then None
          else Some (Errorf [Lit ''dbus: authentication refused: '', Str (trim_space x)]))"

text \<open>One message in \<open>read\<close>; the end of \<open>read\<close>.\<close>

definition conn_message :: "(dbus_message \<Rightarrow> 'w \<Rightarrow> 'w) option \<Rightarrow> dbus_message \<Rightarrow> 'w dbus_conn \<Rightarrow> 'w dbus_conn" where
  "conn_message signal m c =
     (if dm_type m = dbusMethodReturn \<or> dm_type m = dbusError then
        (case cn_pending c (dm_reply m) of
           None \<Rightarrow> c
         | Some apply \<Rightarrow>
             let w = (case apply of Some f \<Rightarrow> if dm_type m = dbusMethodReturn then f m (cn_world c) else cn_world c
                      | None \<Rightarrow> cn_world c)
             in c\<lparr>cn_pending := (cn_pending c)(dm_reply m := None), cn_world := w,
                  cn_replies := (cn_replies c)(dm_reply m := cn_replies c (dm_reply m) @ [Some m])\<rparr>)
      else if dm_type m = dbusSignal then
        (case signal of Some f \<Rightarrow> c\<lparr>cn_world := f m (cn_world c)\<rparr> | None \<Rightarrow> c)
      else c)"

definition conn_ends :: "err \<Rightarrow> 'w dbus_conn \<Rightarrow> 'w dbus_conn" where
  "conn_ends e c =
     c\<lparr>cn_err := Some e, cn_pending := (\<lambda>_. None), cn_done := True,
       cn_replies := (\<lambda>s. if cn_pending c s \<noteq> None then cn_replies c s @ [None] else cn_replies c s)\<rparr>"

text \<open>\<open>callApplying\<close> up to the write: the serial of the call, or the error the connection ended with.\<close>

definition call_begins :: "'w pending_call \<Rightarrow> 'w dbus_conn \<Rightarrow> (err + 32 word) \<times> 'w dbus_conn" where
  "call_begins apply c =
     (case cn_err c of
        Some e \<Rightarrow> (Inl e, c)
      | None \<Rightarrow>
          let serial = cn_serial c + 1 in
          (Inr serial, c\<lparr>cn_serial := serial, cn_pending := (cn_pending c)(serial \<mapsto> apply)\<rparr>))"

definition call_forgotten :: "32 word \<Rightarrow> 'w dbus_conn \<Rightarrow> 'w dbus_conn" where
  "call_forgotten serial c = c\<lparr>cn_pending := (cn_pending c)(serial := None)\<rparr>"

definition call_message :: "32 word \<Rightarrow> string \<Rightarrow> string \<Rightarrow> string \<Rightarrow> string \<Rightarrow> dbus_value list \<Rightarrow> dbus_message" where
  "call_message serial dest path iface member body =
     \<lparr>dm_type = dbusMethodCall, dm_serial = serial, dm_path = path, dm_interface = iface, dm_member = member,
      dm_error = [], dm_reply = 0, dm_destination = dest, dm_sender = [], dm_signature = [], dm_body = body\<rparr>"

definition call_answer :: "(dbus_value \<Rightarrow> string) \<Rightarrow> err option \<Rightarrow> dbus_message option \<Rightarrow> err + dbus_message" where
  "call_answer other conn_err ans =
     (case ans of
        None \<Rightarrow> Inl (Errorf [Lit ''dbus: connection closed: '', Err (case conn_err of Some e \<Rightarrow> e | None \<Rightarrow> Plain [])])
      | Some m \<Rightarrow>
          if dm_type m = dbusError then
            Inl (Errorf [Lit ''dbus: '', Str (dm_error m), Lit '': '',
              Str (case dm_body m of [] \<Rightarrow> [] | v # _ \<Rightarrow> sprint_value other v)])
          else Inr m)"

text \<open>
  What happens to a call on the wire: the write fails; or it is written, the reader handles some messages,
  and if none of them answers the call the connection breaks or the caller's context ends.
\<close>

datatype call_ending = Breaks err | Abandoned err

datatype call_fate = WriteFails err | Written "dbus_message list" call_ending

definition conn_call :: "(dbus_value \<Rightarrow> string) \<Rightarrow> (dbus_message \<Rightarrow> 'w \<Rightarrow> 'w) option \<Rightarrow> call_fate \<Rightarrow> 'w pending_call \<Rightarrow>
    string \<Rightarrow> string \<Rightarrow> string \<Rightarrow> string \<Rightarrow> dbus_value list \<Rightarrow> 'w dbus_conn \<Rightarrow> (err + dbus_message) \<times> 'w dbus_conn" where
  "conn_call other signal fate apply dest path iface member body c =
     (case call_begins apply c of
        (Inl e, c) \<Rightarrow> (Inl e, c)
      | (Inr serial, c) \<Rightarrow>
          (case encodeMessage (call_message serial dest path iface member body) of
             Inl e \<Rightarrow> (Inl e, call_forgotten serial c)
           | Inr _ \<Rightarrow>
               (case fate of
                  WriteFails e \<Rightarrow> (Inl e, call_forgotten serial c)
                | Written ms ending \<Rightarrow>
                    let c = fold (conn_message signal) ms c in
                    (case cn_replies c serial of
                       ans # _ \<Rightarrow> (call_answer other (cn_err c) ans, c)
                     | [] \<Rightarrow>
                         (case ending of
                            Breaks e \<Rightarrow> let c = conn_ends e c in (call_answer other (cn_err c) None, c)
                          | Abandoned e \<Rightarrow> (Inl e, call_forgotten serial c))))))"

section \<open>NetworkManager\<close>

definition classifyNM :: "32 word \<Rightarrow> cost" where
  "classifyNM v = (if v = 1 \<or> v = 3 then Metered else if v = 2 \<or> v = 4 then Unmetered else Unknown)"

definition nmName :: string where "nmName = ''org.freedesktop.NetworkManager''"
definition nmPath :: string where "nmPath = ''/org/freedesktop/NetworkManager''"
definition dbusName :: string where "dbusName = ''org.freedesktop.DBus''"
definition dbusPath :: string where "dbusPath = ''/org/freedesktop/DBus''"
definition dbusProps :: string where "dbusProps = ''org.freedesktop.DBus.Properties''"

definition variant_u32 :: "dbus_value option \<Rightarrow> 32 word option" where
  "variant_u32 v = (case v of Some (DVariant _ (DUint32 w)) \<Rightarrow> Some w | _ \<Rightarrow> None)"

definition meteredChange :: "dbus_message \<Rightarrow> 32 word option" where
  "meteredChange m =
     (if dm_path m \<noteq> nmPath then None
      else case (if dm_interface m = dbusProps \<and> dm_member m = ''PropertiesChanged'' \<and> 2 \<le> length (dm_body m) \<and>
                    dm_body m ! 0 = DString nmName then Some (dm_body m ! 1)
                 else if dm_interface m = nmName \<and> dm_member m = ''PropertiesChanged'' \<and> 1 \<le> length (dm_body m) then
                    Some (dm_body m ! 0)
                 else None) of
        Some (DDict values) \<Rightarrow> variant_u32 (map_of values (DString ''Metered''))
      | _ \<Rightarrow> None)"

text \<open>What the callbacks of the source change: the hub, and whether \<open>Metered\<close> was read.\<close>

record nm_world =
  nm_hub :: hub
  nm_read :: bool

definition nm_signal :: "dbus_message \<Rightarrow> nm_world \<Rightarrow> nm_world" where
  "nm_signal m w = (case meteredChange m of Some v \<Rightarrow> w\<lparr>nm_hub := hub_set (classifyNM v) (nm_hub w)\<rparr> | None \<Rightarrow> w)"

definition read_metered :: "dbus_message \<Rightarrow> 32 word option" where
  "read_metered m = (case dm_body m of [v] \<Rightarrow> variant_u32 (Some v) | _ \<Rightarrow> None)"

definition nm_apply :: "dbus_message \<Rightarrow> nm_world \<Rightarrow> nm_world" where
  "nm_apply m w = (case read_metered m of
     Some v \<Rightarrow> w\<lparr>nm_hub := hub_set (classifyNM v) (nm_hub w), nm_read := True\<rparr> | None \<Rightarrow> w)"

definition nm_rule :: "string \<Rightarrow> string" where
  "nm_rule iface = ''type='' @ [CHR 0x27] @ ''signal'' @ [CHR 0x27] @ '',sender='' @ [CHR 0x27] @ nmName @ [CHR 0x27] @
     '',path='' @ [CHR 0x27] @ nmPath @ [CHR 0x27] @ '',interface='' @ [CHR 0x27] @ iface @ [CHR 0x27] @
     '',member='' @ [CHR 0x27] @ ''PropertiesChanged'' @ [CHR 0x27]"

text \<open>\<open>fail\<close>: the connection is closed and the source is unavailable.\<close>

definition nm_fail :: "err \<Rightarrow> nm_world dbus_conn \<Rightarrow> (err + 'a) \<times> nm_world dbus_conn" where
  "nm_fail e c = (Inl (Errorf [Err (Plain ''netcost: no network cost source on this host''), Lit '': '', Shown e]),
     conn_ends (Plain ''use of closed network connection'') c)"

text \<open>\<open>openNetworkManager\<close> on an authenticated connection; \<open>fate k\<close> is what becomes of its \<open>k\<close>-th call.\<close>

definition openNetworkManager :: "(dbus_value \<Rightarrow> string) \<Rightarrow> (nat \<Rightarrow> call_fate) \<Rightarrow> (err + unit) \<times> nm_world dbus_conn" where
  "openNetworkManager other fate =
     (let sig = Some nm_signal; c = new_conn \<lparr>nm_hub = newHub Unknown, nm_read = False\<rparr> in
      case conn_call other sig (fate 0) None dbusName dbusPath dbusName ''Hello'' [] c of
        (Inl e, c) \<Rightarrow> nm_fail e c
      | (Inr _, c) \<Rightarrow>
      (case conn_call other sig (fate 1) None dbusName dbusPath dbusName ''AddMatch'' [DString (nm_rule dbusProps)] c of
        (Inl e, c) \<Rightarrow> nm_fail e c
      | (Inr _, c) \<Rightarrow>
      (case conn_call other sig (fate 2) None dbusName dbusPath dbusName ''AddMatch'' [DString (nm_rule nmName)] c of
        (Inl e, c) \<Rightarrow> nm_fail e c
      | (Inr _, c) \<Rightarrow>
      (case conn_call other sig (fate 3) (Some nm_apply) nmName nmPath dbusProps ''Get'' [DString nmName, DString ''Metered''] c of
        (Inl e, c) \<Rightarrow> nm_fail e c
      | (Inr _, c) \<Rightarrow>
          if nm_read (cn_world c) then (Inr (), c)
          else nm_fail (Plain ''NetworkManager Metered is not a uint32'') c))))"

section \<open>A connection leaves nobody waiting\<close>

inductive conn_step :: "(dbus_message \<Rightarrow> 'w \<Rightarrow> 'w) option \<Rightarrow> 'w dbus_conn \<Rightarrow> 'w dbus_conn \<Rightarrow> bool" for sig where
  calls: "conn_step sig c (snd (call_begins ap c))"
| gives_up: "conn_step sig c (call_forgotten s c)"
| hears: "\<not> cn_done c \<Longrightarrow> conn_step sig c (conn_message sig m c)"
| ends: "\<not> cn_done c \<Longrightarrow> conn_step sig c (conn_ends e c)"

inductive_cases conn_stepE: "conn_step sig c c'"

definition conn_ok :: "'w dbus_conn \<Rightarrow> bool" where
  "conn_ok c \<longleftrightarrow> (cn_err c \<noteq> None \<longrightarrow> cn_pending c = (\<lambda>_. None)) \<and> (cn_done c \<longleftrightarrow> cn_err c \<noteq> None)"

lemma conn_ok_new [simp]: "conn_ok (new_conn w)"
  by (simp add: conn_ok_def new_conn_def)

lemma conn_message_keeps [simp]:
  "cn_err (conn_message sig m c) = cn_err c" "cn_done (conn_message sig m c) = cn_done c"
  "cn_serial (conn_message sig m c) = cn_serial c"
  by (simp_all add: conn_message_def Let_def split: option.split)

lemma conn_message_pending: "cn_pending (conn_message sig m c) s \<noteq> None \<Longrightarrow> cn_pending c s \<noteq> None"
  by (auto simp: conn_message_def Let_def split: option.splits if_splits)

lemma conn_ok_step: "conn_step sig c c' \<Longrightarrow> conn_ok c \<Longrightarrow> conn_ok c'"
proof (erule conn_stepE)
  fix m
  assume c': "c' = conn_message sig m c" and ok: "conn_ok c" and "\<not> cn_done c"
  then have "cn_err c = None" by (simp add: conn_ok_def)
  with c' ok show "conn_ok c'" by (simp add: conn_ok_def)
qed (auto simp: conn_ok_def call_begins_def call_forgotten_def conn_ends_def Let_def split: option.splits)

lemma conn_ok_reachable: "(conn_step sig)\<^sup>*\<^sup>* c c' \<Longrightarrow> conn_ok c \<Longrightarrow> conn_ok c'"
  by (induction rule: rtranclp_induct) (auto intro: conn_ok_step)

text \<open>A call that is pending waits until one step answers it, gives it up, or ends the connection.\<close>

lemma pending_answered:
  assumes "conn_step sig c c'" "cn_pending c s \<noteq> None" "cn_pending c' s = None"
  shows "(\<exists>x. cn_replies c' s = cn_replies c s @ [x]) \<or> c' = call_forgotten s c"
  using assms(1)
proof (cases rule: conn_step.cases)
  case (calls ap)
  with assms(2,3) show ?thesis by (auto simp: call_begins_def Let_def split: option.splits if_splits)
next
  case (gives_up t)
  with assms(2,3) show ?thesis by (cases "t = s") (auto simp: call_forgotten_def)
next
  case (hears m)
  with assms(2,3) show ?thesis by (auto simp: conn_message_def Let_def split: option.splits if_splits)
next
  case (ends e)
  with assms(2) show ?thesis by (simp add: conn_ends_def)
qed

section \<open>The cost is the last one reported\<close>

text \<open>The values the signals of a sequence carry.\<close>

definition reported_costs :: "dbus_message list \<Rightarrow> cost list" where
  "reported_costs ms = map (\<lambda>m. classifyNM (the (meteredChange m)))
     (filter (\<lambda>m. dm_type m = dbusSignal \<and> meteredChange m \<noteq> None) ms)"

lemma message_types [simp]: "dbusSignal \<noteq> dbusMethodReturn" "dbusSignal \<noteq> dbusError" "dbusMethodReturn \<noteq> dbusError"
  "dbusMethodReturn \<noteq> dbusSignal" "dbusError \<noteq> dbusSignal" "dbusError \<noteq> dbusMethodReturn"
  by (simp_all add: dbusSignal_def dbusMethodReturn_def dbusError_def)

definition hub_open :: "nm_world dbus_conn \<Rightarrow> bool" where
  "hub_open c \<longleftrightarrow> \<not> hu_closed (nm_hub (cn_world c))"

definition nm_cost :: "nm_world dbus_conn \<Rightarrow> cost" where
  "nm_cost c = hu_cost (nm_hub (cn_world c))"

lemma hub_set_open: "\<not> hu_closed h \<Longrightarrow> \<not> hu_closed (hub_set v h) \<and> hu_cost (hub_set v h) = v"
  by (simp add: hub_set_def Let_def)

definition quiet_pending :: "nm_world dbus_conn \<Rightarrow> bool" where
  "quiet_pending c \<longleftrightarrow> (\<forall>s f. cn_pending c s \<noteq> Some (Some f))"

lemma quiet_message:
  assumes "quiet_pending c" "hub_open c"
  shows "quiet_pending (conn_message (Some nm_signal) m c) \<and> hub_open (conn_message (Some nm_signal) m c) \<and>
    nm_cost (conn_message (Some nm_signal) m c) = last (nm_cost c # reported_costs [m]) \<and>
    nm_read (cn_world (conn_message (Some nm_signal) m c)) = nm_read (cn_world c)"
proof (cases "dm_type m = dbusMethodReturn \<or> dm_type m = dbusError")
  case True
  then have "dm_type m \<noteq> dbusSignal" by auto
  moreover have "cn_pending c (dm_reply m) = None \<or> cn_pending c (dm_reply m) = Some None"
    using assms(1) unfolding quiet_pending_def by (metis not_None_eq)
  ultimately show ?thesis
    using True assms
    by (auto simp: conn_message_def quiet_pending_def hub_open_def nm_cost_def reported_costs_def Let_def split: if_splits)
next
  case False
  with assms show ?thesis
    by (auto simp: conn_message_def quiet_pending_def hub_open_def nm_cost_def reported_costs_def nm_signal_def hub_set_open
        split: option.split)
qed

lemma reported_costs_Cons: "reported_costs (m # ms) = reported_costs [m] @ reported_costs ms"
  by (simp add: reported_costs_def)

lemma last_append_Cons: "last (last (x # xs) # ys) = last (x # xs @ ys)"
  by (induction xs arbitrary: x) auto

lemma quiet_messages:
  "quiet_pending c \<Longrightarrow> hub_open c \<Longrightarrow>
     quiet_pending (fold (conn_message (Some nm_signal)) ms c) \<and> hub_open (fold (conn_message (Some nm_signal)) ms c) \<and>
     nm_cost (fold (conn_message (Some nm_signal)) ms c) = last (nm_cost c # reported_costs ms) \<and>
     nm_read (cn_world (fold (conn_message (Some nm_signal)) ms c)) = nm_read (cn_world c)"
proof (induction ms arbitrary: c)
  case Nil
  then show ?case by (simp add: reported_costs_def)
next
  case (Cons m ms)
  note q = quiet_message [OF Cons.prems, of m]
  from Cons.IH [of "conn_message (Some nm_signal) m c"] q show ?case
    by (simp only: fold.simps o_apply reported_costs_Cons [of m ms]) (metis last_append_Cons)
qed

text \<open>While \<open>Get\<close> waits, its reply is applied where it stands among the signals.\<close>

definition answers_call :: "32 word \<Rightarrow> dbus_message \<Rightarrow> bool" where
  "answers_call s m \<longleftrightarrow> (dm_type m = dbusMethodReturn \<or> dm_type m = dbusError) \<and> dm_reply m = s"

definition get_waits :: "32 word \<Rightarrow> nm_world dbus_conn \<Rightarrow> bool" where
  "get_waits s c \<longleftrightarrow> cn_pending c s = Some (Some nm_apply) \<and> (\<forall>t f. t \<noteq> s \<longrightarrow> cn_pending c t \<noteq> Some (Some f)) \<and>
     cn_replies c s = [] \<and> hub_open c"

lemma get_other_message:
  assumes "get_waits s c" "\<not> answers_call s m"
  shows "get_waits s (conn_message (Some nm_signal) m c) \<and>
    nm_read (cn_world (conn_message (Some nm_signal) m c)) = nm_read (cn_world c)"
proof (cases "dm_type m = dbusMethodReturn \<or> dm_type m = dbusError")
  case True
  then have "dm_reply m \<noteq> s" using assms(2) by (simp add: answers_call_def)
  moreover from this have "cn_pending c (dm_reply m) = None \<or> cn_pending c (dm_reply m) = Some None"
    using assms(1) unfolding get_waits_def by (metis not_None_eq)
  ultimately show ?thesis using True assms(1) by (auto simp: conn_message_def get_waits_def hub_open_def Let_def split: if_splits)
next
  case False
  with assms(1) show ?thesis
    by (auto simp: conn_message_def get_waits_def hub_open_def nm_signal_def hub_set_open split: option.split)
qed

lemma get_reply:
  assumes "get_waits s c" "answers_call s m"
  shows "let c' = conn_message (Some nm_signal) m c in quiet_pending c' \<and> hub_open c' \<and> cn_replies c' s = [Some m] \<and>
    (dm_type m = dbusMethodReturn \<longrightarrow> (\<forall>v. read_metered m = Some v \<longrightarrow> nm_cost c' = classifyNM v)) \<and>
    (nm_read (cn_world c') \<longrightarrow> nm_read (cn_world c) \<or> dm_type m = dbusMethodReturn \<and> read_metered m \<noteq> None)"
  using assms
  by (auto simp: conn_message_def get_waits_def answers_call_def Let_def quiet_pending_def hub_open_def nm_cost_def nm_apply_def
      hub_set_open split: option.split)

lemma replies_grow: "\<exists>l. cn_replies (fold (conn_message sig) ms c) s = cn_replies c s @ l"
proof (induction ms arbitrary: c)
  case Nil
  then show ?case by simp
next
  case (Cons m ms)
  have "\<exists>l. cn_replies (conn_message sig m c) s = cn_replies c s @ l"
    by (auto simp: conn_message_def Let_def split: option.splits)
  with Cons [of "conn_message sig m c"] show ?case by (metis append_assoc fold_simps(2))
qed

lemma get_messages:
  "get_waits s c \<Longrightarrow> \<not> nm_read (cn_world c) \<Longrightarrow> c' = fold (conn_message (Some nm_signal)) ms c \<Longrightarrow>
     get_waits s c' \<and> \<not> nm_read (cn_world c') \<or>
     (\<exists>pre m post. ms = pre @ m # post \<and> answers_call s m \<and> (\<exists>l. cn_replies c' s = Some m # l) \<and> hub_open c' \<and>
        (nm_read (cn_world c') \<longrightarrow> dm_type m = dbusMethodReturn \<and>
           (\<exists>v. read_metered m = Some v \<and> nm_cost c' = last (classifyNM v # reported_costs post))))"
proof (induction ms arbitrary: c)
  case Nil
  then show ?case by simp
next
  case (Cons m ms)
  let ?c1 = "conn_message (Some nm_signal) m c"
  show ?case
  proof (cases "answers_call s m")
    case False
    from get_other_message [OF Cons.prems(1) False] Cons.prems(2)
    have c1: "get_waits s ?c1" "\<not> nm_read (cn_world ?c1)" by simp_all
    have "c' = fold (conn_message (Some nm_signal)) ms ?c1" using Cons.prems(3) by simp
    from Cons.IH [OF c1 this] show ?thesis by (metis append_Cons)
  next
    case True
    note r = get_reply [OF Cons.prems(1) True, unfolded Let_def]
    have c': "c' = fold (conn_message (Some nm_signal)) ms ?c1" using Cons.prems(3) by simp
    have q: "hub_open c' \<and> nm_cost c' = last (nm_cost ?c1 # reported_costs ms) \<and> nm_read (cn_world c') = nm_read (cn_world ?c1)"
      unfolding c' using quiet_messages [of ?c1 ms] r by blast
    obtain l where l: "cn_replies c' s = Some m # l" using replies_grow [of "Some nm_signal" ms ?c1 s] r c' by auto
    have "nm_read (cn_world c') \<longrightarrow> dm_type m = dbusMethodReturn \<and>
        (\<exists>v. read_metered m = Some v \<and> nm_cost c' = last (classifyNM v # reported_costs ms))"
      using q r Cons.prems(2) by auto
    with True l q show ?thesis by (intro disjI2 exI [of _ "[]"] exI [of _ m] exI [of _ ms]) auto
  qed
qed

text \<open>The calls before it.\<close>

definition calls_made :: "nat \<Rightarrow> nm_world dbus_conn \<Rightarrow> bool" where
  "calls_made n c \<longleftrightarrow> cn_serial c = word_of_nat n \<and> quiet_pending c \<and> hub_open c \<and> \<not> nm_read (cn_world c) \<and>
     (\<forall>t. n < unat t \<longrightarrow> cn_replies c t = [] \<and> cn_pending c t = None)"

lemma fresh_message:
  assumes "cn_pending c t = None" "cn_replies c t = []"
  shows "cn_pending (conn_message sig m c) t = None \<and> cn_replies (conn_message sig m c) t = []"
  using assms by (auto simp: conn_message_def Let_def split: option.split)

lemma fresh_messages:
  "cn_pending c t = None \<Longrightarrow> cn_replies c t = [] \<Longrightarrow>
     cn_pending (fold (conn_message sig) ms c) t = None \<and> cn_replies (fold (conn_message sig) ms c) t = []"
  by (induction ms arbitrary: c) (simp_all add: fresh_message)

lemma serial_messages: "cn_serial (fold (conn_message sig) ms c) = cn_serial c"
  by (induction ms arbitrary: c) simp_all

lemma conn_call_Inr:
  assumes "conn_call other sig fate ap dest path iface member body c = (Inr m, c')"
  obtains ms l where "cn_err c = None"
    "c' = fold (conn_message sig) ms (c\<lparr>cn_serial := cn_serial c + 1, cn_pending := (cn_pending c)(cn_serial c + 1 \<mapsto> ap)\<rparr>)"
    "cn_replies c' (cn_serial c + 1) = Some m # l" "dm_type m \<noteq> dbusError" "\<exists>e. fate = Written ms e"
  using assms
  by (auto simp: conn_call_def call_begins_def call_answer_def Let_def
      split: option.splits sum.splits call_fate.splits list.splits call_ending.splits if_splits)


lemma quiet_begins:
  assumes "calls_made n c" "n < 1000"
  defines "c1 \<equiv> c\<lparr>cn_serial := cn_serial c + 1, cn_pending := (cn_pending c)(cn_serial c + 1 \<mapsto> None)\<rparr>"
  shows "quiet_pending c1 \<and> hub_open c1 \<and> \<not> nm_read (cn_world c1) \<and> cn_serial c1 = word_of_nat (n + 1) \<and>
    (\<forall>t. n + 1 < unat t \<longrightarrow> cn_replies c1 t = [] \<and> cn_pending c1 t = None)"
proof -
  have s: "cn_serial c + 1 = word_of_nat (n + 1)" using assms(1) by (simp add: calls_made_def)
  have "unat (word_of_nat (n + 1) :: 32 word) = n + 1"
    using assms(2) by (simp only: unsigned_of_nat) (simp add: take_bit_nat_eq_self)
  then have new: "t \<noteq> word_of_nat (n + 1)" if "n + 1 < unat t" for t :: "32 word"
    using that by (metis less_irrefl)
  show ?thesis
    unfolding c1_def s using assms(1) new by (auto simp: calls_made_def quiet_pending_def hub_open_def simp del: of_nat_add)
qed

lemma quiet_call:
  assumes "calls_made n c" "n < 1000" "conn_call other (Some nm_signal) fate None dest path iface member body c = (Inr m, c')"
  shows "calls_made (n + 1) c'"
proof -
  let ?c1 = "c\<lparr>cn_serial := cn_serial c + 1, cn_pending := (cn_pending c)(cn_serial c + 1 \<mapsto> None)\<rparr>"
  obtain ms l where c': "c' = fold (conn_message (Some nm_signal)) ms ?c1"
    using conn_call_Inr [OF assms(3)] by metis
  note q = quiet_begins [OF assms(1,2)]
  have "quiet_pending c' \<and> hub_open c' \<and> \<not> nm_read (cn_world c')"
    unfolding c' using quiet_messages [of ?c1 ms] q by blast
  moreover have "cn_serial c' = word_of_nat (n + 1)" unfolding c' serial_messages using q by blast
  moreover have "\<forall>t. n + 1 < unat t \<longrightarrow> cn_replies c' t = [] \<and> cn_pending c' t = None"
    unfolding c' using q fresh_messages [of ?c1] by blast
  ultimately show ?thesis by (simp add: calls_made_def)
qed

text \<open>
  An opened source: its \<open>Get\<close> was answered with a cost, and the cost it has is the one the last signal behind
  that answer reported, or the answer's where none did.
\<close>

lemma openNetworkManager_cost:
  assumes "openNetworkManager other fate = (Inr (), c)"
  shows "\<exists>pre m post v e. fate 3 = Written (pre @ m # post) e \<and> dm_type m = dbusMethodReturn \<and> dm_reply m = 4 \<and>
    read_metered m = Some v \<and> nm_cost c = last (classifyNM v # reported_costs post) \<and> hub_open c"
proof -
  let ?c0 = "new_conn \<lparr>nm_hub = newHub Unknown, nm_read = False\<rparr>" and ?s = "Some nm_signal"
  have c0: "calls_made 0 ?c0"
    by (simp add: calls_made_def new_conn_def quiet_pending_def hub_open_def newHub_def)
  obtain m1 c1 where r1: "conn_call other ?s (fate 0) None dbusName dbusPath dbusName ''Hello'' [] ?c0 = (Inr m1, c1)"
    using assms by (auto simp: openNetworkManager_def nm_fail_def Let_def split: prod.splits sum.splits)
  obtain m2 c2 where r2: "conn_call other ?s (fate 1) None dbusName dbusPath dbusName ''AddMatch'' [DString (nm_rule dbusProps)] c1 = (Inr m2, c2)"
    using assms r1 by (auto simp: openNetworkManager_def nm_fail_def Let_def split: prod.splits sum.splits)
  obtain m3 c3 where r3: "conn_call other ?s (fate 2) None dbusName dbusPath dbusName ''AddMatch'' [DString (nm_rule nmName)] c2 = (Inr m3, c3)"
    using assms r1 r2 by (auto simp: openNetworkManager_def nm_fail_def Let_def split: prod.splits sum.splits)
  obtain m4 where r4: "conn_call other ?s (fate 3) (Some nm_apply) nmName nmPath dbusProps ''Get'' [DString nmName, DString ''Metered''] c3 = (Inr m4, c)"
    and rd: "nm_read (cn_world c)"
    using assms r1 r2 r3 by (auto simp: openNetworkManager_def nm_fail_def Let_def split: prod.splits sum.splits if_splits)
  have "calls_made 1 c1" "calls_made 2 c2" "calls_made 3 c3"
    using quiet_call [OF c0 _ r1] quiet_call [OF _ _ r2, of 1] quiet_call [OF _ _ r3, of 2] by (simp_all add: numeral_2_eq_2 numeral_3_eq_3)
  then have c3: "calls_made 3 c3" by simp
  let ?c = "c3\<lparr>cn_serial := cn_serial c3 + 1, cn_pending := (cn_pending c3)(cn_serial c3 + 1 \<mapsto> Some nm_apply)\<rparr>"
  have four: "cn_serial c3 + 1 = 4" using c3 by (simp add: calls_made_def)
  have w: "get_waits 4 ?c" "\<not> nm_read (cn_world ?c)"
    using c3 unfolding four by (auto simp: calls_made_def get_waits_def quiet_pending_def hub_open_def)
  obtain ms l e where run: "c = fold (conn_message ?s) ms ?c" "cn_replies c 4 = Some m4 # l" "fate 3 = Written ms e"
    using conn_call_Inr [OF r4] unfolding four by metis
  from get_messages [OF w run(1)] run(2) have "\<not> get_waits 4 c" by (simp add: get_waits_def)
  with get_messages [OF w run(1)] obtain pre m post where g: "ms = pre @ m # post" "answers_call 4 m" "hub_open c"
    "nm_read (cn_world c) \<longrightarrow> dm_type m = dbusMethodReturn \<and>
       (\<exists>v. read_metered m = Some v \<and> nm_cost c = last (classifyNM v # reported_costs post))" by blast
  then obtain v where v: "dm_type m = dbusMethodReturn" "read_metered m = Some v" "nm_cost c = last (classifyNM v # reported_costs post)"
    using rd by blast
  have "dm_reply m = 4" using g(2) by (simp add: answers_call_def)
  with v g(1,3) run(3) show ?thesis by blast
qed

text \<open>After that every message of the bus is applied as it comes.\<close>

lemma opened_follows:
  assumes "quiet_pending c" "hub_open c"
  shows "nm_cost (fold (conn_message (Some nm_signal)) ms c) = last (nm_cost c # reported_costs ms)"
  using quiet_messages [OF assms] by blast

end
