(* ===== verification/Bus_Demonstration.thy ===== *)
theory Bus_Demonstration
  imports Dbus_Laws Network_Manager
begin

text \<open>
  A message and a bus for the witnesses: a call with a string and a variant, and a bus that answers every
  call of \<open>openNetworkManager\<close>, with a property change before and one behind its last answer.
\<close>

section \<open>A message\<close>

definition hello_message :: dbus_message where
  "hello_message = call_message 7 dbusName dbusPath dbusName ''Get'' [DString nmName, DVariant ''u'' (DUint32 4)]"

lemma hello_small: "encodeMessage hello_message = Inr wire \<Longrightarrow> length wire \<le> 1000"
proof -
  let ?b = "enc_u32 4 (enc_sig ''u'' (enc_str nmName []))"
  have "enc_body (dm_body hello_message) [] [] = Inr (''sv'', ?b)" by (simp add: hello_message_def call_message_def)
  moreover have "body_signature (dm_body hello_message) = ''sv''" by (simp add: hello_message_def call_message_def)
  moreover assume "encodeMessage hello_message = Inr wire"
  moreover have "length ?b \<le> 100"
    using enc_length(2) [of 4 "enc_sig ''u'' (enc_str nmName [])"] enc_length(3) [of nmName "[]"]
    by (simp add: enc_length(4) nmName_def)
  ultimately show ?thesis
    using encoded_length [of hello_message wire "''sv''" ?b]
    by (simp add: hello_message_def call_message_def header_fields_def dbusName_def dbusPath_def)
qed
section \<open>A bus that answers\<close>

definition bus_reply :: "32 word \<Rightarrow> dbus_value list \<Rightarrow> dbus_message" where
  "bus_reply serial body = (call_message 1 [] [] [] [] body)\<lparr>dm_type := dbusMethodReturn, dm_reply := serial\<rparr>"

definition bus_change :: "32 word \<Rightarrow> dbus_message" where
  "bus_change v = (call_message 1 [] nmPath nmName ''PropertiesChanged'' [DDict [(DString ''Metered'', DVariant ''u'' (DUint32 v))]])\<lparr>dm_type := dbusSignal\<rparr>"

definition bus_fate :: "nat \<Rightarrow> call_fate" where
  "bus_fate k = Written (if k = 3 then [bus_change 2, bus_reply 4 [DVariant ''u'' (DUint32 2)], bus_change 1]
     else [bus_reply (word_of_nat (k + 1)) []]) (Breaks (Plain ''EOF''))"

lemma bus_fields [simp]:
  "dm_body (call_message serial dest path iface member body) = body" "dm_type (bus_reply serial body) = dbusMethodReturn"
  "dm_reply (bus_reply serial body) = serial" "dm_body (bus_reply serial body) = body" "dm_type (bus_change v) = dbusSignal"
  by (simp_all add: call_message_def bus_reply_def bus_change_def)

lemma encodes_plain_body: "enc_body (dm_body m) [] [] = Inr x \<Longrightarrow> \<exists>w. encodeMessage m = Inr w"
  by (cases x) (simp add: encodeMessage_def Let_def)

lemma conn_call_quiet:
  assumes "n = cn_serial c + 1" "cn_err c = None" "cn_pending c n = None" "cn_replies c n = []" "enc_body body [] [] = Inr x"
  shows "conn_call other sig (Written [bus_reply n []] e) None dest path iface member body c =
    (Inr (bus_reply n []), c\<lparr>cn_serial := n, cn_pending := (cn_pending c)(n := None),
       cn_replies := (cn_replies c)(n := [Some (bus_reply n [])])\<rparr>)"
proof -
  obtain w where w: "encodeMessage (call_message n dest path iface member body) = Inr w"
    using encodes_plain_body [of "call_message n dest path iface member body" x] assms(5) by auto
  show ?thesis using assms(2-4)
    by (simp add: conn_call_def call_begins_def w conn_message_def call_answer_def Let_def assms(1) [symmetric])
qed

lemma bus_opens: "\<exists>c. openNetworkManager (\<lambda>_. []) bus_fate = (Inr (), c)"
proof -
  obtain w where w: "encodeMessage (call_message 4 nmName nmPath dbusProps ''Get'' [DString nmName, DString ''Metered'']) = Inr w"
    using encodes_plain_body [of "call_message 4 nmName nmPath dbusProps ''Get'' [DString nmName, DString ''Metered'']"] by (auto simp: call_message_def)
  have n1: "bus_fate 0 = Written [bus_reply 1 []] (Breaks (Plain ''EOF''))" "bus_fate 1 = Written [bus_reply 2 []] (Breaks (Plain ''EOF''))"
    "bus_fate (Suc 0) = Written [bus_reply 2 []] (Breaks (Plain ''EOF''))"
    "bus_fate 2 = Written [bus_reply 3 []] (Breaks (Plain ''EOF''))"
    "bus_fate 3 = Written [bus_change 2, bus_reply 4 [DVariant ''u'' (DUint32 2)], bus_change 1] (Breaks (Plain ''EOF''))"
    by (simp_all add: bus_fate_def)
  have r: "\<exists>c. conn_call (\<lambda>_. []) (Some nm_signal) (bus_fate 3) (Some nm_apply) nmName nmPath dbusProps ''Get'' [DString nmName, DString ''Metered''] c0
       = (Inr (bus_reply 4 [DVariant ''u'' (DUint32 2)]), c) \<and> nm_read (cn_world c)"
    if "cn_err c0 = None" "cn_serial c0 = 3" "cn_replies c0 4 = []" for c0
    using that unfolding n1
    by (simp add: conn_call_def call_begins_def w conn_message_def call_answer_def Let_def
      nm_apply_def read_metered_def variant_u32_def nm_signal_def split: option.split)
  show ?thesis
    using r [of "\<lparr>cn_serial = 3, cn_pending = \<lambda>_. None, cn_err = None,
      cn_replies = (\<lambda>_. [])(1 := [Some (bus_reply 1 [])], 2 := [Some (bus_reply 2 [])], 3 := [Some (bus_reply 3 [])]),
      cn_done = False, cn_world = \<lparr>nm_hub = newHub Unknown, nm_read = False\<rparr>\<rparr>"]
    by (auto simp: openNetworkManager_def n1 Let_def new_conn_def conn_call_quiet)
qed

end
