(* ===== verification/Nas_Find.thy ===== *)
theory Nas_Find
  imports Nas Http_Answers "HOL-Library.List_Lexorder" "HOL-Library.Char_ord" "HOL-Library.Product_Lexorder" "HOL-Library.Word"
begin

unbundle bit_operations_syntax

text \<open>
  Finding a shared store on the network (\<open>go/nas/find.go\<close>): what the answers to two multicast questions
  are taken for, how hosts are put in order, and the path of a share. The datagrams that arrive, with
  the address each came from, the platform's share browser, the resolver and \<open>net.ParseIP\<close> are
  arguments. The sockets themselves are not modelled.

  The lemmas show that a host is where its datagram came from, that what a device says is short and
  printable when it is shown, that reading a name ends inside the message, and that a path never leaves
  the share a person chose.
\<close>

section \<open>Text a device sends\<close>

text \<open>The runes of a \<open>range\<close> over a string: a byte that begins no character is U+FFFD.\<close>

definition next_rune :: "char \<Rightarrow> string \<Rightarrow> nat \<times> string" where
  "next_rune c cs =
     (if byte_of c < 128 then (byte_of c, cs)
      else case utf8_lead (byte_of c) of
        None \<Rightarrow> (65533, cs)
      | Some (n, cp0, lowest) \<Rightarrow>
          if length cs < n - 1 then (65533, cs)
          else (case utf8_tail cp0 (take (n - 1) cs) of
             None \<Rightarrow> (65533, cs)
           | Some cp \<Rightarrow>
               if lowest \<le> cp \<and> cp \<le> 1114111 \<and> \<not> (55296 \<le> cp \<and> cp \<le> 57343) then (cp, drop (n - 1) cs)
               else (65533, cs)))"

lemma next_rune_shorter: "length (snd (next_rune c cs)) \<le> length cs"
  by (auto simp: next_rune_def split: option.split)

function go_runes :: "string \<Rightarrow> nat list" where
  "go_runes [] = []"
| "go_runes (c # cs) = fst (next_rune c cs) # go_runes (snd (next_rune c cs))"
  by pat_completeness auto
termination
  by (relation "measure length") (auto simp: le_imp_less_Suc next_rune_shorter)

definition printable_loop :: "nat list \<Rightarrow> string" where
  "printable_loop rs = fold (\<lambda>r b. if 32 \<le> r \<and> r \<noteq> 127 \<and> length b < 80 then append_rune b r else b) rs []"

definition printable :: "string \<Rightarrow> string" where
  "printable s = trim_space (printable_loop (go_runes s))"

definition crlf :: string where "crlf = [CHR 0x0D, CHR 0x0A]"

text \<open>\<open>strings.Split\<close> at a separator that is not empty.\<close>

function str_split :: "string \<Rightarrow> string \<Rightarrow> string list" where
  "str_split sep s = (case str_cut sep s of (a, b, True) \<Rightarrow> if length b < length s then a # str_split sep b else [s] | _ \<Rightarrow> [s])"
  by pat_completeness auto
termination
  by (relation "measure (\<lambda>(sep, s). length s)") auto

declare str_split.simps [simp del]

definition serverHeader :: "(string \<Rightarrow> string \<Rightarrow> bool) \<Rightarrow> string \<Rightarrow> string" where
  "serverHeader uf body =
     (case find (\<lambda>line. case str_cut '':'' line of (k, v, f) \<Rightarrow> f \<and> equal_fold uf (trim_space k) ''server'') (str_split crlf body) of
        Some line \<Rightarrow> (case str_cut '':'' line of (k, v, f) \<Rightarrow> printable (trim_space v))
      | None \<Rightarrow> [])"

definition mSearch :: string where
  "mSearch = ''M-SEARCH * HTTP/1.1'' @ crlf @ ''HOST: 239.255.255.250:1900'' @ crlf @
     ''MAN: '' @ [CHR 0x22] @ ''ssdp:discover'' @ [CHR 0x22] @ crlf @ ''MX: 1'' @ crlf @ ''ST: ssdp:all'' @ crlf @ crlf"

section \<open>DNS messages\<close>

definition byte_at :: "string \<Rightarrow> nat \<Rightarrow> nat" where
  "byte_at m i = byte_of (m ! i)"

text \<open>
  \<open>readName\<close> with the hops that are left: the name, and where it ended in the message; \<open>next\<close> is zero until
  that is known.
\<close>

fun read_name :: "nat \<Rightarrow> string \<Rightarrow> nat \<Rightarrow> string list \<Rightarrow> nat \<Rightarrow> (string \<times> nat) option" where
  "read_name 0 m i labels nxt = None"
| "read_name (Suc hops) m i labels nxt =
     (if length m \<le> i then None
      else let n = byte_at m i in
      if n = 0 then Some (str_join ''.'' labels, if nxt = 0 then i + 1 else nxt)
      else if n div 64 = 3 then
        (if length m \<le> i + 1 then None
         else read_name hops m (n mod 64 * 256 + byte_at m (i + 1)) labels (if nxt = 0 then i + 2 else nxt))
      else if length m < i + 1 + n then None
      else read_name hops m (i + 1 + n) (labels @ [take n (drop (i + 1) m)]) nxt)"

definition readName :: "string \<Rightarrow> nat \<Rightarrow> (string \<times> nat) option" where
  "readName m i = read_name 24 m i [] 0"

fun skip_questions :: "nat \<Rightarrow> string \<Rightarrow> nat \<Rightarrow> nat option" where
  "skip_questions 0 m i = Some i"
| "skip_questions (Suc k) m i = (case readName m i of None \<Rightarrow> None | Some (_, nxt) \<Rightarrow> skip_questions k m (nxt + 4))"

text \<open>
  The walk over the answers; \<open>past rdata hi lo\<close> is where the code goes on behind an answer whose data begins at
  \<open>rdata\<close> and has the two length bytes \<open>hi\<close> and \<open>lo\<close>.
\<close>

fun first_pointer :: "(nat \<Rightarrow> nat \<Rightarrow> nat \<Rightarrow> nat) \<Rightarrow> nat \<Rightarrow> string \<Rightarrow> nat \<Rightarrow> string" where
  "first_pointer past 0 m i = []"
| "first_pointer past (Suc k) m i =
     (case readName m i of
        None \<Rightarrow> []
      | Some (_, nxt) \<Rightarrow>
          if length m < nxt + 10 then []
          else let rdata = nxt + 10;
                   go_on = first_pointer past k m (past rdata (byte_at m (nxt + 8)) (byte_at m (nxt + 9)))
               in if byte_at m nxt * 256 + byte_at m (nxt + 1) = 12 then
                    (case readName m rdata of
                       Some (target, _) \<Rightarrow> printable (fst (str_cut ''.'' target))
                     | None \<Rightarrow> go_on)
                  else go_on)"

text \<open>In Go \<open>+\<close> and \<open>|\<close> bind alike and to the left: \<open>rdata + hi<<8 | lo\<close> is \<open>(rdata + hi<<8) | lo\<close>.\<close>

definition past_answer :: "nat \<Rightarrow> nat \<Rightarrow> nat \<Rightarrow> nat" where
  "past_answer rdata hi lo = (rdata + hi * 256) OR lo"

definition instance_name :: "(nat \<Rightarrow> nat \<Rightarrow> nat \<Rightarrow> nat) \<Rightarrow> string \<Rightarrow> string" where
  "instance_name past m =
     (if length m < 12 then []
      else case skip_questions (byte_at m 4 * 256 + byte_at m 5) m 12 of
        None \<Rightarrow> []
      | Some i \<Rightarrow> first_pointer past (byte_at m 6 * 256 + byte_at m 7) m i)"

definition instanceName :: "string \<Rightarrow> string" where
  "instanceName m = instance_name past_answer m"

definition nul :: char where "nul = CHR 0x00"

definition ptr_label :: "string \<Rightarrow> string" where
  "ptr_label l = char_of (length l mod 256) # l"

definition ptrQuery :: "string list \<Rightarrow> string" where
  "ptrQuery labels =
     [nul, nul, nul, nul, nul, CHR 0x01, nul, nul, nul, nul, nul, nul] @ concat (map ptr_label labels) @
     [nul, nul, CHR 0x0C, nul, CHR 0x01]"

section \<open>Hosts\<close>

record found =
  fo_address :: string
  fo_name :: string
  fo_says :: string
  fo_shares :: "string list"
  fo_unknown :: string
  fo_how :: "string list"

text \<open>\<open>note\<close> for one datagram: its source, the question it answers, what it says and what it is called.\<close>

definition note_host :: "string \<Rightarrow> string \<Rightarrow> string \<Rightarrow> string \<Rightarrow> found list \<Rightarrow> found list" where
  "note_host ip how says calls seen =
     (let seen = (if list_ex (\<lambda>f. fo_address f = ip) seen then seen
                  else seen @ [\<lparr>fo_address = ip, fo_name = [], fo_says = [], fo_shares = [], fo_unknown = [], fo_how = []\<rparr>])
      in map (\<lambda>f. if fo_address f \<noteq> ip then f
         else f\<lparr>fo_how := (if how \<in> set (fo_how f) then fo_how f else fo_how f @ [how]),
                fo_says := (if says \<noteq> [] \<and> fo_says f = [] then says else fo_says f),
                fo_name := (if calls \<noteq> [] \<and> fo_name f = [] then calls else fo_name f)\<rparr>) seen)"

text \<open>The two questions and how their answers are read.\<close>

datatype multicast = Upnp | Smb

fun question :: "multicast \<Rightarrow> string" where
  "question Upnp = ''upnp''"
| "question Smb = ''smb''"

definition note_reply :: "(string \<Rightarrow> string \<Rightarrow> bool) \<Rightarrow> multicast \<times> string \<times> string \<Rightarrow> found list \<Rightarrow> found list" where
  "note_reply uf d seen =
     (case d of (q, ip, body) \<Rightarrow>
        note_host ip (question q) (if q = Upnp then serverHeader uf body else []) (if q = Smb then instanceName body else []) seen)"

definition host_name :: "err + string list \<Rightarrow> string \<Rightarrow> string \<Rightarrow> string" where
  "host_name names addr says =
     (case names of
        Inr (n # _) \<Rightarrow> trim_suffix ''.local'' (trim_suffix ''.'' n)
      | _ \<Rightarrow> (case str_cut ''/'' says of (vendor, _, ok) \<Rightarrow> if ok \<and> vendor \<noteq> [] then vendor else addr))"

definition fill_host :: "(err \<Rightarrow> string) \<Rightarrow> (string \<Rightarrow> string list \<times> err option) \<Rightarrow> (string \<Rightarrow> err + string list) \<Rightarrow> found \<Rightarrow> found" where
  "fill_host txt shares resolve_ip f =
     (case shares (fo_address f) of (names, e) \<Rightarrow>
      let f = f\<lparr>fo_unknown := (case e of Some x \<Rightarrow> txt x | None \<Rightarrow> fo_unknown f), fo_shares := names,
                fo_how := (if names \<noteq> [] \<and> ''smb'' \<notin> set (fo_how f) then fo_how f @ [''smb''] else fo_how f)\<rparr>
      in if fo_name f = [] then f\<lparr>fo_name := host_name (resolve_ip (fo_address f)) (fo_address f) (fo_says f)\<rparr> else f)"

definition host_order :: "found \<Rightarrow> int \<times> string" where
  "host_order f = (- int (length (fo_shares f)), fo_address f)"

definition Find :: "(string \<Rightarrow> string \<Rightarrow> bool) \<Rightarrow> (err \<Rightarrow> string) \<Rightarrow> (string \<Rightarrow> string list \<times> err option) \<Rightarrow>
    (string \<Rightarrow> err + string list) \<Rightarrow> (multicast \<times> string \<times> string) list \<Rightarrow> found list" where
  "Find uf txt shares resolve_ip replies =
     sort_key host_order (map (fill_host txt shares resolve_ip) (fold (note_reply uf) replies []))"

section \<open>A store on a host\<close>

definition bad_in_folder :: "char list" where
  "bad_in_folder = [backslash, slash, CHR '':'', CHR ''*'', CHR ''?'', CHR 0x22, CHR ''<'', CHR ''>'', CHR ''|'']"

fun path_segments :: "string list \<Rightarrow> err + string list" where
  "path_segments [] = Inr []"
| "path_segments (x # xs) =
     (let seg = trim_space x in
      if seg = [] then path_segments xs
      else if seg = ''.'' \<or> seg = ''..'' \<or> list_ex (\<lambda>c. c \<in> set bad_in_folder) seg then
        Inl (Errorf [Lit ''nas: '', Quoted seg, Lit '' is not a folder name''])
      else bind_result (path_segments xs) (\<lambda>ss. Inr (seg # ss)))"

definition nas_Path :: "(string \<Rightarrow> bool) \<Rightarrow> string \<Rightarrow> string \<Rightarrow> string \<Rightarrow> err + string" where
  "nas_Path is_ip address share dir =
     (if \<not> is_ip address then Inl (Errorf [Lit ''nas: '', Quoted address, Lit '' is not an address this machine found''])
      else bind_result (path_segments (share # split_on slash dir)) (\<lambda>segs.
        if segs = [] then Inl (Errorf [Lit ''nas: no share named on '', Str address])
        else Inr ([slash, slash] @ str_join [slash] (address # segs))))"

text \<open>
  \<open>Check\<close> of a store that is open: a byte is written, read back and removed. What the write answers and what is
  read back are arguments.
\<close>

definition nas_Check :: "('s, 'd) nas_conf \<Rightarrow> int \<Rightarrow> (string \<Rightarrow> err option) \<Rightarrow> (string \<Rightarrow> err + string) \<Rightarrow>
    (string \<Rightarrow> string option) \<Rightarrow> err option \<times> (string \<Rightarrow> string option)" where
  "nas_Check N stamp wr rd files =
     (case Available N of
        Some e \<Rightarrow> (Some e, files)
      | None \<Rightarrow>
          let probe = path_join (path_join (na_root N) ''jobs'') (''.writable-'' @ fmt_int stamp) in
          (case wr probe of
             Some e \<Rightarrow> (Some (Errorf [Lit ''nas: '', Str (na_root N), Lit '' is reachable but not writable: '', Err e]), files)
           | None \<Rightarrow>
               (case rd probe of
                  Inl e \<Rightarrow> Some (Errorf [Lit ''nas: '', Str (na_root N), Lit '' took the write and would not read it back: '', Err e])
                | Inr got \<Rightarrow> if got \<noteq> probe then Some (Errorf [Lit ''nas: '', Str (na_root N), Lit '' read back something else'']) else None,
                files(probe := None))))"

section \<open>What is shown of a device\<close>

definition harmless :: "string \<Rightarrow> bool" where
  "harmless s \<longleftrightarrow> list_all (\<lambda>c. 32 \<le> byte_of c \<and> byte_of c \<noteq> 127) s"

lemma trim_left_suffix: "suffix (trim_left s) s"
proof (induction s rule: trim_left.induct)
  case (1 s)
  show ?case
  proof (cases "s = []")
    case False
    note simp = trim_left.simps [of s]
    show ?thesis
    proof (cases "find (\<lambda>p. prefix p s) space_encodings")
      case None
      with False simp show ?thesis by simp
    next
      case (Some p)
      from 1 [OF False Some] have "suffix (trim_left (drop (length p) s)) s" using suffix_drop suffix_order.trans by blast
      with False Some simp show ?thesis by simp
    qed
  qed simp
qed

lemma trim_right_prefix: "prefix (trim_right s) s"
proof (induction s rule: trim_right.induct)
  case (1 s)
  show ?case
  proof (cases "s = []")
    case False
    note simp = trim_right.simps [of s]
    show ?thesis
    proof (cases "find (\<lambda>p. suffix p s) space_encodings")
      case None
      with False simp show ?thesis by simp
    next
      case (Some p)
      from 1 [OF False Some] have "prefix (trim_right (take (length s - length p) s)) s"
        using take_is_prefix prefix_order.trans by blast
      with False Some simp show ?thesis by simp
    qed
  qed simp
qed

lemma trim_space_part: "set (trim_space s) \<subseteq> set s" "length (trim_space s) \<le> length s"
proof -
  note l = trim_left_suffix [of s] and r = trim_right_prefix [of "trim_left s"]
  show "set (trim_space s) \<subseteq> set s"
    unfolding trim_space_def using set_mono_prefix [OF r] set_mono_suffix [OF l] by blast
  show "length (trim_space s) \<le> length s"
    unfolding trim_space_def using prefix_length_le [OF r] suffix_length_le [OF l] by simp
qed

lemma append_rune_harmless:
  "harmless b \<Longrightarrow> 32 \<le> r \<Longrightarrow> r \<noteq> 127 \<Longrightarrow> r \<le> 1114111 \<Longrightarrow> harmless (append_rune b r) \<and> length (append_rune b r) \<le> length b + 4"
  by (auto simp: append_rune_def harmless_def of_char_of)

lemma next_rune_bound: "fst (next_rune c cs) \<le> 1114111"
  by (auto simp: next_rune_def split: option.split)

lemma go_runes_bound: "r \<in> set (go_runes s) \<Longrightarrow> r \<le> 1114111"
  by (induction s rule: go_runes.induct) (auto simp: next_rune_bound)

lemma printable_loop_bound:
  "\<forall>r\<in>set rs. r \<le> 1114111 \<Longrightarrow> harmless b \<Longrightarrow> length b \<le> 83 \<Longrightarrow>
     (let out = fold (\<lambda>r b. if 32 \<le> r \<and> r \<noteq> 127 \<and> length b < 80 then append_rune b r else b) rs b
      in harmless out \<and> length out \<le> 83)"
proof (induction rs arbitrary: b)
  case Nil
  then show ?case by simp
next
  case (Cons r rs)
  let ?b = "if 32 \<le> r \<and> r \<noteq> 127 \<and> length b < 80 then append_rune b r else b"
  have "harmless ?b \<and> length ?b \<le> 83" using append_rune_harmless [of b r] Cons.prems by auto
  with Cons.IH [of ?b] Cons.prems(1) show ?case by (simp add: Let_def)
qed

lemma printable_bound: "harmless (printable s) \<and> length (printable s) \<le> 83"
proof -
  let ?l = "printable_loop (go_runes s)"
  have l: "harmless ?l" "length ?l \<le> 83"
    using printable_loop_bound [of "go_runes s" "[]"] go_runes_bound [of _ s] by (auto simp: printable_loop_def harmless_def Let_def)
  with trim_space_part [of ?l] show ?thesis by (auto simp: printable_def harmless_def list_all_iff)
qed

section \<open>Names end inside the message\<close>

lemma read_name_bound:
  "read_name k m i labels nxt = Some (name, e) \<Longrightarrow> nxt \<le> length m \<Longrightarrow> (nxt = 0 \<longrightarrow> i < e) \<and> (nxt \<noteq> 0 \<longrightarrow> e = nxt) \<and> e \<le> length m"
proof (induction k m i labels nxt rule: read_name.induct)
  case (1 m i labels nxt)
  then show ?case by simp
next
  case (2 hops m i labels nxt)
  let ?n = "byte_at m i"
  consider (stop) "\<not> length m \<le> i" "?n = 0" | (pointer) "\<not> length m \<le> i" "?n \<noteq> 0" "?n div 64 = 3" "\<not> length m \<le> i + 1"
    | (label) "\<not> length m \<le> i" "?n \<noteq> 0" "?n div 64 \<noteq> 3" "\<not> length m < i + 1 + ?n"
    using 2(3) by (auto simp: Let_def split: if_splits)
  then show ?case
  proof cases
    case stop
    with 2(3,4) show ?thesis by (auto split: if_splits)
  next
    case pointer
    have run: "read_name hops m (?n mod 64 * 256 + byte_at m (i + 1)) labels (if nxt = 0 then i + 2 else nxt) = Some (name, e)"
      using 2(3) pointer by (simp add: Let_def)
    have "(if nxt = 0 then i + 2 else nxt) \<le> length m" using pointer(4) 2(4) by simp
    from 2(1) [OF _ _ _ _ _ run this] pointer show ?thesis by (auto split: if_splits)
  next
    case label
    have run: "read_name hops m (i + 1 + ?n) (labels @ [take ?n (drop (i + 1) m)]) nxt = Some (name, e)"
      using 2(3) label by (simp add: Let_def)
    from 2(2) [OF _ _ _ _ _ run 2(4)] label show ?thesis by auto
  qed
qed

lemma readName_bound: "readName m i = Some (name, e) \<Longrightarrow> i < e \<and> e \<le> length m"
  using read_name_bound [of 24 m i "[]" 0 name e] by (simp add: readName_def)

text \<open>A name that was written label by label is read back, whatever stands before and behind it.\<close>

lemma labels_read:
  "list_all (\<lambda>l. l \<noteq> [] \<and> length l < 64) ls \<Longrightarrow> length ls < k \<Longrightarrow>
     read_name k (pre @ concat (map ptr_label ls) @ nul # rest) (length pre) labels 0 =
       Some (str_join ''.'' (labels @ ls), length pre + length (concat (map ptr_label ls)) + 1)"
proof (induction ls arbitrary: pre labels k)
  case Nil
  then obtain j where "k = Suc j" by (cases k) auto
  then show ?case by (simp add: byte_at_def nth_append nul_def)
next
  case (Cons l ls)
  obtain j where k: "k = Suc j" "length ls < j" using Cons.prems(2) by (cases k) auto
  let ?m = "pre @ concat (map ptr_label (l # ls)) @ nul # rest"
  have l: "length l < 64" "l \<noteq> []" using Cons.prems(1) by simp_all
  then have n: "byte_at ?m (length pre) = length l" by (simp add: byte_at_def ptr_label_def nth_append byte_of_char_of)
  have tk: "take (length l) (drop (length pre + 1) ?m) = l" by (simp add: ptr_label_def)
  have ih: "read_name j ((pre @ ptr_label l) @ concat (map ptr_label ls) @ nul # rest) (length (pre @ ptr_label l)) (labels @ [l]) 0 =
      Some (str_join ''.'' ((labels @ [l]) @ ls), length (pre @ ptr_label l) + length (concat (map ptr_label ls)) + 1)"
    using Cons.prems(1) k(2) by (intro Cons.IH) auto
  have "length (pre @ ptr_label l) = length pre + 1 + length l" by (simp add: ptr_label_def)
  then have step: "read_name k ?m (length pre) labels 0 = read_name j ?m (length (pre @ ptr_label l)) (labels @ [l]) 0"
    using n tk l k(1) by (simp add: Let_def ptr_label_def)
  have len: "length (ptr_label l) = Suc (length l)" by (simp add: ptr_label_def)
  show ?case unfolding step using ih by (simp add: len)
qed

lemma ptrQuery_read:
  assumes "list_all (\<lambda>l. l \<noteq> [] \<and> length l < 64) ls" "length ls < 24"
  shows "readName (ptrQuery ls) 12 = Some (str_join ''.'' ls, length (ptrQuery ls) - 4)"
proof -
  let ?h = "[nul, nul, nul, nul, nul, CHR 0x01, nul, nul, nul, nul, nul, nul]"
  have q: "ptrQuery ls = ?h @ concat (map ptr_label ls) @ nul # [nul, CHR 0x0C, nul, CHR 0x01]" by (simp add: ptrQuery_def)
  have h: "length ?h = 12" by simp
  have "readName (ptrQuery ls) (length ?h) = Some (str_join ''.'' ([] @ ls), length ?h + length (concat (map ptr_label ls)) + 1)"
    unfolding readName_def q by (rule labels_read [OF assms])
  moreover have "length ?h + length (concat (map ptr_label ls)) + 1 = length (ptrQuery ls) - 4" unfolding q by simp
  ultimately show ?thesis unfolding h by simp
qed

text \<open>
  Where the bits of the two numbers overlap the walk goes on at the wrong place: the answers behind the first
  are then read from inside its data. Written with the sum it would not be.
\<close>

lemma and_or_sum: "(a AND b) + (a OR b) = a + (b :: nat)"
proof -
  have "int ((a AND b) + (a OR b)) = int (a + b)"
    using plus_and_or [of "int a" "int b"] by (simp add: of_nat_and_eq of_nat_or_eq)
  then show ?thesis by (simp only: of_nat_eq_iff)
qed

lemma past_answer_right: "past_answer rdata hi lo = rdata + hi * 256 + lo \<longleftrightarrow> (rdata + hi * 256) AND lo = 0"
proof -
  have "(rdata + hi * 256) + lo = ((rdata + hi * 256) OR lo) + ((rdata + hi * 256) AND lo)"
    using and_or_sum [of "rdata + hi * 256" lo] by simp
  then show ?thesis by (simp add: past_answer_def)
qed

definition two_records :: string where
  "two_records = [nul, nul, nul, nul, nul, nul, nul, CHR 0x02, nul, nul, nul, nul,
     nul, nul, CHR 0x01, nul, CHR 0x01, nul, nul, nul, nul, nul, CHR 0x04, CHR 0xC0, CHR 0xA8, CHR 0x01, CHR 0x05,
     nul, nul, CHR 0x0C, nul, CHR 0x01, nul, nul, nul, nul, nul, CHR 0x05, CHR 0x03] @ ''NAS'' @ [nul]"

lemma two_records_read:
  "instanceName two_records = []" "instance_name (\<lambda>rdata hi lo. rdata + hi * 256 + lo) two_records = ''NAS''"
  by code_simp+

section \<open>Hosts are where their datagrams came from\<close>

lemma note_host_addresses:
  "distinct (map fo_address seen) \<Longrightarrow> distinct (map fo_address (note_host ip how says calls seen)) \<and>
     set (map fo_address (note_host ip how says calls seen)) = insert ip (set (map fo_address seen))"
proof -
  let ?seen = "if list_ex (\<lambda>f. fo_address f = ip) seen then seen
    else seen @ [\<lparr>fo_address = ip, fo_name = [], fo_says = [], fo_shares = [], fo_unknown = [], fo_how = []\<rparr>]"
  assume d: "distinct (map fo_address seen)"
  have "map fo_address (note_host ip how says calls seen) = map fo_address ?seen"
    unfolding note_host_def Let_def map_map by (rule map_cong [OF refl]) simp
  moreover have "distinct (map fo_address ?seen) \<and> set (map fo_address ?seen) = insert ip (set (map fo_address seen))"
    using d by (auto simp: list_ex_iff)
  ultimately show ?thesis by simp
qed

lemma note_replies_addresses:
  "distinct (map fo_address seen) \<Longrightarrow>
     distinct (map fo_address (fold (note_reply uf) rs seen)) \<and>
     set (map fo_address (fold (note_reply uf) rs seen)) = set (map fo_address seen) \<union> (\<lambda>(q, ip, b). ip) ` set rs"
proof (induction rs arbitrary: seen)
  case Nil
  then show ?case by simp
next
  case (Cons r rs)
  obtain q ip b where r: "r = (q, ip, b)" by (cases r)
  note n = note_host_addresses [OF Cons.prems, of ip "question q"]
  show ?case using Cons.IH [of "note_reply uf r seen"] n by (simp add: r note_reply_def)
qed

lemma fill_host_address [simp]: "fo_address (fill_host txt shares resolve_ip f) = fo_address f"
  by (simp add: fill_host_def Let_def split: prod.split)

lemma Find_spec:
  "distinct (map fo_address (Find uf txt shares resolve_ip rs)) \<and>
   fo_address ` set (Find uf txt shares resolve_ip rs) = (\<lambda>(q, ip, b). ip) ` set rs \<and>
   sorted (map host_order (Find uf txt shares resolve_ip rs))"
proof -
  let ?hs = "map (fill_host txt shares resolve_ip) (fold (note_reply uf) rs [])"
  have "map fo_address ?hs = map fo_address (fold (note_reply uf) rs [])" by simp
  then have a: "distinct (map fo_address ?hs)" "fo_address ` set ?hs = (\<lambda>(q, ip, b). ip) ` set rs"
    using note_replies_addresses [of "[]" uf rs] by (simp_all only: set_map [symmetric]) simp_all
  have "distinct (map fo_address xs) \<Longrightarrow> distinct (map fo_address (sort_key host_order xs))" for xs
    by (simp add: distinct_map)
  from this [OF a(1)] have "distinct (map fo_address (sort_key host_order ?hs))" .
  with a show ?thesis unfolding Find_def by simp
qed

section \<open>A path stays in the share\<close>

lemma path_segments_ok:
  "path_segments xs = Inr segs \<Longrightarrow> s \<in> set segs \<Longrightarrow>
     s \<noteq> [] \<and> s \<noteq> ''.'' \<and> s \<noteq> ''..'' \<and> (\<forall>c\<in>set s. c \<notin> set bad_in_folder)"
  by (induction xs arbitrary: segs) (auto simp: Let_def bind_result_Inr_iff list_ex_iff split: if_splits)

lemma nas_Path_spec:
  assumes "nas_Path is_ip address share dir = Inr p" "slash \<notin> set address"
  shows "is_ip address \<and> (\<exists>segs. segs \<noteq> [] \<and> p = [slash, slash] @ str_join [slash] (address # segs) \<and>
    split_on slash (drop 2 p) = address # segs \<and>
    (\<forall>s\<in>set segs. s \<noteq> [] \<and> s \<noteq> ''.'' \<and> s \<noteq> ''..'' \<and> (\<forall>c\<in>set s. c \<notin> set bad_in_folder)))"
proof -
  obtain segs where s: "is_ip address" "path_segments (share # split_on slash dir) = Inr segs" "segs \<noteq> []"
    "p = [slash, slash] @ str_join [slash] (address # segs)"
    using assms(1) by (auto simp: nas_Path_def bind_result_Inr_iff simp del: path_segments.simps split: if_splits)
  have ok: "\<forall>s\<in>set segs. s \<noteq> [] \<and> s \<noteq> ''.'' \<and> s \<noteq> ''..'' \<and> (\<forall>c\<in>set s. c \<notin> set bad_in_folder)"
    using path_segments_ok [OF s(2)] by blast
  then have "\<forall>w\<in>set (address # segs). slash \<notin> set w" using assms(2) by (auto simp: bad_in_folder_def)
  then have "split_on slash (drop 2 p) = address # segs" unfolding s(4) by (simp add: split_join)
  with s ok show ?thesis by blast
qed

text \<open>Without a share the first folder is taken for one.\<close>

lemma folder_becomes_share: "nas_Path (\<lambda>_. True) ''10.0.0.2'' [] ''store/jobs'' = Inr ''//10.0.0.2/store/jobs''"
  by code_simp

text \<open>A check that passes has written a byte, read it back and left nothing.\<close>

lemma nas_Check_passes:
  assumes "nas_Check N stamp wr rd files = (None, files')"
  defines "probe \<equiv> path_join (path_join (na_root N) ''jobs'') (''.writable-'' @ fmt_int stamp)"
  shows "Available N = None \<and> wr probe = None \<and> rd probe = Inr probe \<and> files' = files(probe := None)"
  using assms by (auto simp: nas_Check_def Let_def split: option.splits sum.splits if_splits)

end
