(* ===== verification/Spec2Isabelle.thy ===== *)
theory Spec2Isabelle
  imports Nesting Range_Progress Client_Demonstration Slice_Laws Tiers Bus_Demonstration Nas_Find
begin

text \<open>
  A verification library for the Go implementation of \<open>abstraction-download\<close> (\<open>src/go\<close>), which keeps
  every download as a durable record in a job store, so that any process of any machine can continue what
  another one began.

  \<^bold>\<open>The program.\<close> A \<^emph>\<open>client\<close> (\<open>client.go\<close>, \<open>resume.go\<close>) turns a request into a record, or finds the record
  that already is this work. A \<^emph>\<open>runner\<close> (\<open>runner.go\<close>) claims a record under a lease, continues from what the
  checkpoint proves (\<open>resumepoint.go\<close>, \<open>ranges.go\<close>), lets fetchers (\<open>fetchers.go\<close>) bring the bytes over one
  stream or many ranges (\<open>parallel.go\<close>), verifies and delivers them. A \<^emph>\<open>delegator\<close> (\<open>delegator.go\<close>,
  \<open>nas/nas.go\<close>) hands the record to another system and later reconciles what became of it. Sweeps adopt
  what nobody works on; a \<^emph>\<open>drop folder\<close> (\<open>wanted.go\<close>) lets a person ask with a text file. The network
  constraint (\<open>network.go\<close>, \<open>netcost\<close>) may make a run wait.

  \<^bold>\<open>Conventions.\<close> A struct is a \<open>record\<close>, an enumeration a \<open>datatype\<close>, an error a value of \<open>Failures.err\<close>, a
  result \<open>err + 'a\<close>, an error that may be nil \<open>err option\<close>. Strings are lists of bytes. Counters and offsets
  are \<open>int\<close>; where the code can pass 64 bits, \<open>wrap64\<close> is written out. The world of a run is its files and the
  state of the store. What the program calls and the repository does not hold - the job layer's store, ranges
  and documents, the platform, the clock, a peer - is an argument, and what is relied on of it is a locale:
  \<open>range_layer\<close> and \<open>checkpoint_layer\<close> (\<open>Job_Layer\<close>, \<open>Checkpoints\<close>), \<open>store_layer\<close> (\<open>Store_Seat\<close>), \<open>record_layer\<close>,
  \<open>run_layer\<close>, \<open>sweep_layer\<close>, \<open>delegates\<close> and \<open>handoff\<close>, \<open>nas_layer\<close>, \<open>volume\<close> (\<open>Same_Path\<close>), \<open>submission\<close>
  (\<open>Client_Laws\<close>), \<open>serving_ranges\<close> and \<open>answering_ranges\<close> (\<open>Slice_Laws\<close>). Every one is interpreted: on a reference algebra of ranges, on documents of this library, on
  a store kept in a map, on the network store tier and the file fetcher of the model.

  \<^bold>\<open>Theories and sources.\<close>
  \<^item> \<open>Prelude\<close>, \<open>Go_Text\<close>, \<open>Go_Path\<close>: 64-bit arithmetic, the parts of \<open>strings\<close>, \<open>strconv\<close>, \<open>unicode/utf8\<close> and
    \<open>path/filepath\<close> (on POSIX) that the sources use.
  \<^item> \<open>Failure_Codec\<close> (\<open>rec/rec.go\<close>), \<open>Failures\<close>, \<open>Record_State\<close> (\<open>fetcher.go\<close>, \<open>network.go\<close>): the payload of a failure,
    errors and their class, what a record says of its last attempt. Round trip, class kept across the record.
  \<^item> \<open>Spec_Paths\<close>, \<open>Nesting\<close> (\<open>spec.go\<close>, \<open>reserved.go\<close>, \<open>local.go\<close>, \<open>nesting.go\<close>): specs, sinks, containment, digests, the
    nesting bound. A sink that resolves lies below its root.
  \<^item> \<open>Job_Layer\<close>, \<open>Checkpoints\<close>, \<open>Resume_Plan\<close> (\<open>ranges.go\<close>, \<open>resumepoint.go\<close>): records, checkpoints, where a
    transfer resumes. Nothing is trusted that the checkpoint does not claim and the file does not hold.
  \<^item> \<open>Range_Plan\<close>, \<open>Fetch_Registry\<close>, \<open>Range_Progress\<close> (\<open>parallel.go\<close>, \<open>fetcher.go\<close>): cutting an artifact, who can
    fetch, connections filling one file as a step relation. Every missing byte is asked for once; the record never
    claims a byte that was not flushed.
  \<^item> \<open>Http_Answers\<close>, \<open>Http_Transport\<close>, \<open>Reach_Credentials\<close> (\<open>validators.go\<close>, \<open>fetchers.go\<close>, \<open>reach.go\<close>, \<open>credentials.go\<close>,
    \<open>trust.go\<close>): answers, requests, redirects, hosts and secrets. A body belongs at the offset it is written at.
  \<^item> \<open>Store_Seat\<close>, \<open>Streaming\<close>, \<open>Network_Gate\<close>, \<open>Runner\<close>, \<open>Adoption\<close>, \<open>Record_Invariant\<close> (\<open>runner.go\<close>, \<open>network.go\<close>,
    \<open>netcost/netcost.go\<close>): a run from claim to release, sweeps, the resume point kept readable by every write.
  \<^item> \<open>Declarations\<close>, \<open>Keeper\<close>, \<open>Delegation\<close>, \<open>Reconciliation\<close>, \<open>Delegated_Delivery\<close>, \<open>Handoff_Endings\<close>, \<open>Nas\<close>
    (\<open>delegator.go\<close>, \<open>tiers.go\<close>, \<open>keeper.go\<close>, \<open>intent_watch.go\<close>, \<open>nas/nas.go\<close>): handing over, reconciling, and in
    which sense the network store tier keeps the contract of a delegate.
  \<^item> \<open>Same_Path\<close>, \<open>Drop_Folder\<close>, \<open>Drop_Folder_Laws\<close> (\<open>samepath.go\<close>, \<open>wanted.go\<close>): two paths for one file, the drop folder.
  \<^item> \<open>Client\<close>, \<open>Destinations\<close>, \<open>Client_Laws\<close> (\<open>client.go\<close>, \<open>store.go\<close>, \<open>handle.go\<close>, \<open>resume.go\<close>): the client.
  \<^item> \<open>Slices\<close>, \<open>Slice_Laws\<close> (\<open>slice.go\<close>): reading part of an artifact over ranges. Whatever walks it sees the file.
  \<^item> \<open>Tiers\<close> (\<open>tiers.go\<close>): the registry of tiers as one state, probing, what is offered. One tier per name.
  \<^item> \<open>Dbus\<close>, \<open>Dbus_Laws\<close> (\<open>netcost/dbus.go\<close>): the codec of the bus. Round trip, a decoder that stays inside its buffer,
    two messages it does not survive. \<open>Network_Manager\<close> (\<open>netcost/dbus.go\<close>): calls and signals on one connection; the
    cost is the last one reported.
  \<^item> \<open>Nas_Find\<close> (\<open>nas/find.go\<close>): datagrams to hosts, and the path of a share, which never leaves it.
  \<^item> \<open>Demonstration\<close>, \<open>Client_Demonstration\<close>, \<open>Bus_Demonstration\<close>: the concrete machines, clients, folders and buses of the witnesses.

  \<^bold>\<open>Loops and bounds.\<close> A loop over data is structural recursion or has a measure. A loop that may run forever is
  a \<open>partial_function (option)\<close>, and that it returns is proved as such (\<open>worker_gives_up\<close>, \<open>grid_plan_ends\<close>), or that it
  does not (\<open>grid_plan_diverges\<close>). The decoder of the bus takes fuel: \<open>message_fuel\<close>, linear in the body, is enough for what
  the encoder writes (\<open>dbus_round_trip\<close>), more fuel changes no answer (\<open>dbus_decode_more\<close>), and for one message none is
  enough (\<open>poison_messages\<close>). A loop fed by the environment - callbacks of a fetcher, ticks and looks of a
  watcher, notices of a watch - recurses over the list of what happens. Interleavings are step relations
  (\<open>pstep\<close>, \<open>gate_step\<close>, \<open>client_step\<close>) with invariants by rule induction over the reachable states.

  \<^bold>\<open>This theory\<close> states the properties. Each stands under its claim with a witness that applies it where its
  hypotheses hold. The last section holds further facts of the same kind.

  \<^bold>\<open>Not modelled.\<close> The request codec (\<open>abstraction/download/request/rec.go\<close>, generated); the endpoints of the provider
  runtime (\<open>serve\<close>), which serve a library outside the repository; the BITS tier, COM calls into a Windows service; the
  cost sources of Windows and macOS; the sockets of the search for a shared store and the share browser of the
  platform; the probe of the trust store and the writer that reports progress into it; the test drivers and the
  registration of tiers; the bindings in other languages.
\<close>

section \<open>A run\<close>

text \<open>
  C1. The promise of the whole layer. Whatever the fetchers send, whatever is resumed and however the
  bytes arrive - one stream or many ranges - a run that ends without an error, and that nobody asked to
  stop, has put at the record's final path a file with the digest the spec names, and has left the
  record transferred. What is relied on is named: the laws of the store, of the two stored documents
  and of the range arithmetic, that the record claimed holds a readable checkpoint, that a fetcher
  counts the bytes it wrote, and that renaming a file to its own name does not fail.
\<close>

theorem run_delivers:
  assumes "run_layer R D J" "en_ranges E = R" "en_docs E = D" "en_store E = J"
    and "so_claim J (en_id E) who (w_store w) = (Inr rec, s)"
    and "\<And>cp. CheckpointOf R D rec = Inr cp \<Longrightarrow> checkpoint_wf cp"
    and "\<And>j. honest_fetchers (mc_opens mc j)"
    and "SpecOf D rec = Inr sp" "a_digest (sp_artifact sp) \<noteq> []"
    and "\<And>p. LocalSink (rc_names C) (rc_root C) (j_id rec) (sp_sink sp) = Inr (p, p) \<Longrightarrow> dv_rename (mc_deliver mc) = None"
    and "j_want rec = WantRun" "asked_during C (E\<lparr>en_epoch := l_epoch (j_lease rec)\<rparr>) mc rec (w\<lparr>w_store := s\<rparr>) = None"
    and "Run C E mc who w = Some (None, w')"
  shows "\<exists>partial final c r. LocalSink (rc_names C) (rc_root C) (j_id rec) (sp_sink sp) = Inr (partial, final) \<and>
    w_files w' final = Some (File c) \<and> sameDigest (rc_low C) (''sha256:'' @ mc_sha mc c) (a_digest (sp_artifact sp)) \<and>
    so_load J (en_id E) (w_store w') = Inr r \<and> j_state r = StateTransferred \<and> LastFailure r = None"
  by (rule run_layer.Run_delivers [OF assms])

lemma run_delivers_witness:
  "\<exists>c r. w_files (snd (the (demo_run None demo_machine))) ''/srv/a'' = Some (File c) \<and>
    sameDigest id (''sha256:'' @ demo_sha c) (''sha256:'' @ replicate 64 (CHR ''a'')) \<and>
    so_load map_ops ''j1'' (w_store (snd (the (demo_run None demo_machine)))) = Inr r \<and> j_state r = StateTransferred"
proof -
  let ?C = "demo_conf None" and ?w = "demo_world None"
  let ?s = "snd (so_claim map_ops ''j1'' ''o'' (w_store ?w))"
  have claim: "so_claim map_ops (en_id demo_env) ''o'' (w_store ?w) = (Inr (demo_claimed None), ?s)"
    by (simp add: map_ops_def demo_env_def demo_world_def demo_record_def demo_claimed_def claimed_state_def Let_def)
  have wf: "CheckpointOf ref_ranges ref_docs (demo_claimed None) = Inr cp \<Longrightarrow> checkpoint_wf cp" for cp
    by (auto simp: CheckpointOf_def demo_claimed_def demo_record_def ref_docs_def checkpoint_wf_def bind_result_Inr_iff)
  have honest: "honest_fetchers (mc_opens demo_machine j)" for j
    by (simp add: demo_machine_def demo_open_def demo_fetcher_def honest_fetchers_def honest_script_def)
  have sp: "SpecOf ref_docs (demo_claimed None) = Inr (demo_spec None)"
    by (simp add: SpecOf_def demo_claimed_def demo_record_def ref_docs_def)
  have sink: "LocalSink (rc_names ?C) (rc_root ?C) ''j1'' (sp_sink (demo_spec None)) = Inr (''/srv/work/j1'', ''/srv/a'')"
    by code_simp
  have ok: "map_option (\<lambda>x. fst x = None) (demo_run None demo_machine) = Some True" by code_simp
  then obtain w' where run: "demo_run None demo_machine = Some (None, w')" by auto
  have quiet: "asked_during ?C (demo_env\<lparr>en_epoch := l_epoch (j_lease (demo_claimed None))\<rparr>) demo_machine
      (demo_claimed None) (?w\<lparr>w_store := ?s\<rparr>) = None" by code_simp
  have "\<exists>partial final c r. LocalSink (rc_names ?C) (rc_root ?C) (j_id (demo_claimed None)) (sp_sink (demo_spec None)) =
        Inr (partial, final) \<and> w_files w' final = Some (File c) \<and>
      sameDigest (rc_low ?C) (''sha256:'' @ mc_sha demo_machine c) (a_digest (sp_artifact (demo_spec None))) \<and>
      so_load map_ops (en_id demo_env) (w_store w') = Inr r \<and> j_state r = StateTransferred \<and> LastFailure r = None"
    by (rule run_delivers [OF run_layer_ref _ _ _ claim wf honest sp _ _ _ quiet])
      (use run in \<open>simp_all add: demo_env_def demo_machine_def demo_claimed_def demo_record_def demo_spec_def demo_run_def demo_deliver_def\<close>)
  with sink run show ?thesis
    by (auto simp: demo_env_def demo_machine_def demo_claimed_def demo_record_def demo_spec_def demo_conf_def)
qed



section \<open>Handing work over\<close>

text \<open>
  C3. No transfer runs that no record names. For delegates that keep their contract (the locale
  \<open>delegates\<close>: what a handle and an empty answer of \<open>Locate\<close> mean), and a request they have not seen: whatever
  \<open>Start\<close> lost on its way back, and whichever write the store refused, a delegate that ends up holding the
  work is the one the record names, unless the last thing done was an abandon that it refused. The
  witness hands the demonstration job to the network store tier, which meets the contract.
\<close>

theorem handed_work_is_named:
  assumes "handoff J ds holds handle fresh" "en_store (ha_env A) = J" "ha_tiers A = ds" "fresh (en_id (ha_env A)) x"
    and "Delegate A who w x = (e, w', x')" "holds sys (en_id (ha_env A)) x'"
  shows "names_delegate (ha_env A) sys w' \<or> abandon_refused ds sys x'"
  by (rule handoff.Delegate_named [OF assms])

lemma handed_work_is_named_witness:
  "names_delegate demo_env ''nas'' (fst (snd demo_handing)) \<or> abandon_refused [nas_tier map_nas] ''nas'' (snd (snd demo_handing))"
proof -
  have run: "Delegate demo_hand ''o'' (demo_world None) (far_world []) = (fst demo_handing, fst (snd demo_handing), snd (snd demo_handing))"
    by (simp add: demo_handing_def)
  have "shared_sane (w_store (far_world []))" "\<And>k. ms_records (fst (w_store (far_world []))) k = None"
    by (simp_all add: far_world_def shared_sane_def)
  then have fresh: "nas_layer.nas_fresh shared_ops map_nas shared_sane (en_id (ha_env demo_hand)) (far_world [])"
    by (simp add: map_nas.nas_fresh_def map_nas.asked_def shared_load)
  obtain w where d: "demo_handing = (None, w, far_world [(''r'', asked_record)])" using demo_handed by blast
  have "so_load shared_ops ''r'' (w_store (snd (snd demo_handing))) = Inr asked_record"
    by (simp add: d far_world_def shared_load)
  moreover have "\<not> terminal_state (j_state asked_record)" "asks_for ref_docs ''j1'' asked_record"
    by (simp_all add: asked_record_def new_record_def asks_for_def SpecOf_def ref_docs_def demo_job_def)
  ultimately have "nas_layer.nas_holds shared_ops map_nas ''nas'' (en_id (ha_env demo_hand)) (snd (snd demo_handing))"
    by (auto simp: map_nas.nas_holds_def map_nas.asked_open_def)
  from handed_work_is_named [OF handoff_nas _ _ fresh run this] show ?thesis
    by (simp add: demo_hand_def demo_env_def)
qed

text \<open>
  C4. A delegate that says it is finished is not believed. A record that was not transferred before a sweep
  and is afterwards has, at the path its spec resolves to on this machine, a file that was read here from
  first byte to last and whose digest is the one asked for; its progress is the length of that file, and
  it carries no failure. What the delegate answers is arbitrary, and so is what others write meanwhile, as
  long as nobody else calls this record transferred.
\<close>

theorem delegated_file_is_verified:
  assumes "sweep_layer R D J S" "Reconcile A S F jid sc = (e, sc')"
    and "en_store (ha_env A) = J" "en_ranges (ha_env A) = R" "en_docs (ha_env A) = D"
    and "so_load J jid (w_store (sc_world sc)) = Inr rec" "j_id rec = jid" "j_state rec \<noteq> StateTransferred"
    and "\<forall>f\<in>elsewhere F. \<forall>s. open_at J jid s \<longrightarrow> open_at J jid (f s)"
    and "so_load J jid (w_store (sc_world sc')) = Inr r'" "j_state r' = StateTransferred"
  shows "\<exists>sp partial final c. SpecOf D rec = Inr sp \<and>
    LocalSink (rc_names (ha_conf A)) (rc_root (ha_conf A)) jid (sp_sink sp) = Inr (partial, final) \<and>
    w_files (sc_world sc') final = Some (File c) \<and>
    (a_digest (sp_artifact sp) \<noteq> [] \<longrightarrow> sameDigest (rc_low (ha_conf A)) (''sha256:'' @ sv_hex S c) (a_digest (sp_artifact sp))) \<and>
    p_done (j_progress r') = int (length c) \<and> LastFailure r' = None"
proof -
  have ours: "sweep_layer.our_hand R D J A" using assms(3-5) by (simp add: sweep_layer.our_hand_def [OF assms(1)])
  have "sweep_layer.verified D J S A rec (sc_world sc')"
    by (rule sweep_layer.Reconcile_verifies [OF assms(1,2) ours assms(6-8) _ assms(10,11)]) (use assms(9) in blast)
  with assms(7,10) show ?thesis
    by (auto simp: sweep_layer.verified_def [OF assms(1)])
qed

lemma delegated_file_is_verified_witness:
  "\<exists>c r'. w_files (sc_world (snd (box_sweep arrived (handed_record ''r'')))) ''/srv/a'' = Some (File c) \<and>
    sameDigest id (''sha256:'' @ demo_sha c) (''sha256:'' @ replicate 64 (CHR ''a'')) \<and>
    so_load map_ops ''j1'' (w_store (sc_world (snd (box_sweep arrived (handed_record ''r''))))) = Inr r' \<and> j_state r' = StateTransferred"
proof -
  let ?x = "box_sweep arrived (handed_record ''r'')"
  have run: "Reconcile (box_hand arrived) demo_sup quiet_finish ''j1'' (box_scene (handed_record ''r'')) = (fst ?x, snd ?x)"
    by (simp add: box_sweep_def)
  have none: "\<forall>f\<in>elsewhere quiet_finish. \<forall>s. open_at map_ops ''j1'' s \<longrightarrow> open_at map_ops ''j1'' (f s)"
    by (auto simp: elsewhere_def quiet_finish_def)
  have at: "so_load map_ops ''j1'' (w_store (sc_world (box_scene (handed_record ''r'')))) = Inr (handed_record ''r'')"
    "j_id (handed_record ''r'') = ''j1''" "j_state (handed_record ''r'') \<noteq> StateTransferred" "SpecOf ref_docs (handed_record ''r'') = Inr (demo_spec None)"
    by (simp_all add: box_scene_def map_ops_def handed_record_def demo_record_def SpecOf_def ref_docs_def)
  have "case so_load map_ops ''j1'' (w_store (sc_world (snd ?x))) of Inl _ \<Rightarrow> False | Inr r \<Rightarrow> j_state r = StateTransferred"
    by code_simp
  then obtain r' where r: "so_load map_ops ''j1'' (w_store (sc_world (snd ?x))) = Inr r'" "j_state r' = StateTransferred"
    by (auto split: sum.splits)
  from delegated_file_is_verified [OF demo_layer run _ _ _ at(1-3) none r] at(4) demo_sink r show ?thesis
    by (auto simp: demo_conf_def demo_sup_def demo_spec_def)
qed

text \<open>
  C5. A handoff whose answer was lost is settled by asking, never by guessing: as long as the delegate cannot
  say, or cannot be asked, the sweep reports the unknown outcome and leaves the store alone; and a record
  in that state is not one that the sweep for orphans runs on this machine, so nothing is fetched twice.
\<close>

theorem lost_answer_is_not_refetched:
  assumes "so_load (en_store (ha_env A)) jid (w_store (sc_world sc)) = Inr rec" "j_delegation rec = Some dl"
    and "d_external dl = j_id rec" "BySystem (ha_tiers A) (d_system dl) = Some d"
    and "\<And>f. dg_locate d = Some f \<Longrightarrow> \<exists>why x. f (j_id rec) (sc_ext sc) = (Inl why, x)"
    and "Reconcile A S F jid sc = (e, sc')"
  shows "(\<exists>x. e = Some x \<and> err_is x ErrOutcomeUnknown) \<and> sc_world sc' = sc_world sc \<and>
    \<not> adoptable C D network now updated rec"
  by (rule Reconcile_unknown [OF assms(1-4) _ assms(6)], rule assms(5))

lemma lost_answer_is_not_refetched_witness:
  "\<exists>x. fst (box_sweep arrived (handed_record ''j1'')) = Some x \<and> err_is x ErrOutcomeUnknown"
proof -
  let ?x = "box_sweep arrived (handed_record ''j1'')"
  have run: "Reconcile (box_hand arrived) demo_sup quiet_finish ''j1'' (box_scene (handed_record ''j1'')) = (fst ?x, snd ?x)"
    by (simp add: box_sweep_def)
  have at: "so_load map_ops ''j1'' (w_store (sc_world (box_scene (handed_record ''j1'')))) = Inr (handed_record ''j1'')"
    "j_delegation (handed_record ''j1'') = Some \<lparr>d_system = ''nas'', d_external = ''j1'', d_delivered = False\<rparr>" "j_id (handed_record ''j1'') = ''j1''"
    by (simp_all add: box_scene_def map_ops_def handed_record_def demo_record_def)
  have "(\<exists>x. fst ?x = Some x \<and> err_is x ErrOutcomeUnknown) \<and> sc_world (snd ?x) = sc_world (box_scene (handed_record ''j1'')) \<and>
      \<not> adoptable (demo_conf None) ref_docs None 0 0 (handed_record ''j1'')"
    by (rule lost_answer_is_not_refetched [OF _ at(2) _ _ _ run, of "box_tier arrived"])
      (simp_all add: at BySystem_def box_tier_def)
  then show ?thesis by blast
qed

text \<open>
  C6. A lease renewed by a timer alone could be held for ever. The keeper does not count a renewal as a sign of
  life: whatever ticks came before, the first tick at or after the silence budget, and every tick after
  it, leaves the store as it was, and the loop has ended.
\<close>

theorem silent_owner_lets_go:
  assumes "while_held J dur (map Tick ts) (keepWatching silence ttl jid epoch start, s) = (k1, s1)"
    and "start + (if silence \<le> 0 then DefaultSilenceBudget else silence) \<le> t"
    and "while_held J dur (map Tick (t # us)) (k1, s1) = (k2, s2)"
  shows "s2 = s1 \<and> \<not> kp_held k2"
  by (rule ticks_bounded [OF assms(1) _ assms(3)]) (use assms(2) in \<open>simp add: keepWatching_def\<close>)

lemma silent_owner_lets_go_witness:
  "\<not> kp_held (fst (while_held map_ops (\<lambda>_. ''5m'') [Tick (301 * second), Tick (400 * second)]
      (while_held map_ops (\<lambda>_. ''5m'') [Tick 5, Tick (10 * second)] (keepWatching 0 0 ''j1'' 1 0, w_store demo_claimed_world))))"
proof -
  obtain k1 s1 where 1: "while_held map_ops (\<lambda>_. ''5m'') (map Tick [5, 10 * second]) (keepWatching 0 0 ''j1'' 1 0, w_store demo_claimed_world) = (k1, s1)"
    by (rule prod.exhaust)
  obtain k2 s2 where 2: "while_held map_ops (\<lambda>_. ''5m'') (map Tick (301 * second # [400 * second])) (k1, s1) = (k2, s2)" by (rule prod.exhaust)
  have "\<not> kp_held k2" using silent_owner_lets_go [OF 1 _ 2] by (simp add: DefaultSilenceBudget_def second_def)
  with 1 2 show ?thesis by simp
qed





section \<open>A client\<close>

text \<open>
  C8. Two callers who race for one destination produce one record. Whatever identity the first caller of
  \<open>claimDestination\<close> came away with, however many earlier generations of the destination are spent, and
  whatever happens to the store in between, as long as what was spent stays spent and the record is still
  unfinished: the second caller gets the same identity, is told that it did not create it, and changes no
  record. The store is any that gives an identity once (\<open>submission\<close>).
\<close>

theorem racing_callers_share_one_record:
  assumes "submission J X" "cl_more K = X" "cl_store K = J"
    and "claimDestination K dest sp requires s = (Inr (jid, created), s1)"
    and "\<And>k. spent_record J k s1 \<Longrightarrow> spent_record J k s2" "unfinished_record J jid s2"
  shows "\<exists>s3. claimDestination K dest sp' requires' s2 = (Inr (jid, False), s3) \<and> (\<forall>k. so_load J k s3 = so_load J k s2)"
  by (rule submission.claimDestination_race [OF assms])

lemma racing_callers_share_one_record_witness:
  "\<exists>s1 s3. claimDestination (demo_client ExecuteHere) ''/srv/a'' (want_spec ''/srv/a'') [] (ct_store (new_client (\<lambda>_. None) []))
       = (Inr (''dest-aaaaaaaaaaaaaaaa'', True), s1) \<and>
     claimDestination (demo_client ExecuteHere) ''/srv/a'' (want_spec ''/srv/b'') [] s1 = (Inr (''dest-aaaaaaaaaaaaaaaa'', False), s3)"
proof -
  let ?run = "claimDestination (demo_client ExecuteHere) ''/srv/a'' (want_spec ''/srv/a'') [] (ct_store (new_client (\<lambda>_. None) []))"
  obtain s1 where run: "?run = (Inr (''dest-aaaaaaaaaaaaaaaa'', True), s1)"
  proof -
    have "fst ?run = Inr (''dest-aaaaaaaaaaaaaaaa'', True)" by code_simp
    then show ?thesis using that by (cases ?run) simp
  qed
  have "unfinished_record shared_ops ''dest-aaaaaaaaaaaaaaaa'' s1"
    using shared_submission.claim_from_Inr [OF _ _ run [unfolded claimDestination_def]] by auto
  from racing_callers_share_one_record [OF shared_submission _ _ run _ this, of "want_spec ''/srv/b''" "[]"] run show ?thesis by auto
qed

section \<open>A client\<close>



section \<open>A client\<close>



section \<open>A client\<close>



section \<open>A client\<close>

text \<open>
  C12. The worker that waits out another owner's lease gives up: if every attempt ends and each takes at least the second
  it sleeps, \<open>runHere\<close> returns after at most \<open>2 * ttl + 7\<close> attempts, and the job is free for a new worker.
  The loop is a partial function, so that it returns is part of the statement.
\<close>

theorem worker_gives_up:
  assumes "\<And>k w. go k w \<noteq> None" "\<And>k. start + int k \<le> now k" "0 \<le> ttl"
  shows "\<exists>n c'. runHere K go ttl now start jid c = Some (n, c') \<and> int n \<le> patience ttl + 2 \<and> jid \<notin> ct_running c'"
  by (rule runHere_ends [OF assms])

lemma worker_gives_up_witness:
  "\<exists>n c'. runHere (demo_client ExecuteHere) (\<lambda>k w. Some (Some lease_held, w)) 30 int 0 ''j''
      (new_client (\<lambda>_. None) [at_final StateRunning ''j'' ''/srv/a.part'' ''/srv/a'']) = Some (n, c') \<and> int n \<le> patience 30 + 2"
  using worker_gives_up [of "\<lambda>k w. Some (Some lease_held, w)" 0 int 30 "demo_client ExecuteHere" "''j''"
      "new_client (\<lambda>_. None) [at_final StateRunning ''j'' ''/srv/a.part'' ''/srv/a'']"] by auto

section \<open>The drop folder\<close>



section \<open>The drop folder\<close>



section \<open>The drop folder\<close>



section \<open>Part of an artifact\<close>

text \<open>
  C16. A remote archive is the file. Whatever program reads a directory through \<open>io.ReaderAt\<close> - any offsets, in any
  order, past the end as well - it ends the same over ranges as over the whole file: the window that is
  read ahead, its doubling and the reads that fall inside it change the cost and never the answer. The
  source is any that serves ranges of the artifact and answers (\<open>answering_ranges\<close>); the slice may have
  been used before.
\<close>

theorem remote_archive_is_the_file:
  assumes "answering_ranges content F" "content \<noteq> []" "slice_wf content s"
    and "int (length content) + int m \<le> max_int64" "walk_small m (reader (int (length content)))"
  shows "\<exists>s'. slice_Zip F reader s =
    (Some (case walk_whole content (reader (int (length content))) of
       Inl e \<Rightarrow> Inl (Errorf [Err (Var ErrUnindexable), Lit '': '', Str (s_locator (sl_source s)), Lit '': '', Shown e])
     | Inr es \<Rightarrow> Inr es), s')"
  using answering_ranges.Zip_same [where reader = reader, OF assms] by blast

definition locator_source :: "string \<Rightarrow> source" where
  "locator_source loc = \<lparr>s_scheme = [], s_locator = loc, s_attrs = [], s_headers = [], s_priority = 0\<rparr>"

definition tail_reader :: "int \<Rightarrow> (err + zip_entry list) walk" where
  "tail_reader sz = AskAt (sz - 2) 2 (\<lambda>(b, e). AskAt 0 4 (\<lambda>(c, e).
     Walked (Inr [\<lparr>ze_name = b @ c, ze_declared = 1, ze_open = Inr \<lparr>bd_chunks = [''x''], bd_end = None\<rparr>\<rparr>])))"

lemma remote_archive_is_the_file_witness:
  "\<exists>es s'. slice_Zip (file_service (\<lambda>_. Inr (''abcdef'', True))) tail_reader (new_slice (locator_source ''/srv/a''))
     = (Some (Inr es), s') \<and> map ze_name es = [''efabcd'']"
proof -
  let ?e = "\<lparr>ze_name = ''efabcd'', ze_declared = 1, ze_open = Inr \<lparr>bd_chunks = [''x''], bd_end = None\<rparr>\<rparr>"
  have w: "walk_whole ''abcdef'' (tail_reader (int (length ''abcdef''))) = Inr [?e]"
    by (simp add: tail_reader_def whole_ReadAt_def)
  have "\<exists>s'. slice_Zip (file_service (\<lambda>_. Inr (''abcdef'', True))) tail_reader (new_slice (locator_source ''/srv/a'')) = (Some (Inr [?e]), s')"
    using remote_archive_is_the_file [where reader = tail_reader and m = 4, OF file_slice.answering_ranges_axioms
        [of "''abcdef''"], of "new_slice (locator_source ''/srv/a'')", unfolded w]
    by (simp add: tail_reader_def max_int64_def)
  then show ?thesis by fastforce
qed

text \<open>
  C17. A read through a slice over HTTP never lies. If the bodies of an honest server are the bytes their
  \<open>Content-Range\<close> names, \<open>ReadAt\<close> answers exactly what the artifact holds at the offset, or nothing and an
  error, does not panic, and costs at most one request for a piece that begins at the offset and is no longer
  than the read or the largest window. The state it leaves is one it may be called in again.
\<close>

theorem remote_read_never_lies:
  assumes "honest_server content N" "slice_wf content s" "at_wf content a" "int (length content) + int n \<le> max_int64"
    and "at_ReadAt (http_service N) n off (s, a) = (x, s', a')"
  shows "slice_wf content s' \<and> at_wf content a' \<and>
    (\<exists>ans. x = Some ans \<and> (ans = whole_ReadAt content n off \<or> (\<exists>e. ans = ([], Some e)))) \<and>
    (sl_read s' = sl_read s \<or>
     (\<exists>stop. sl_read s' = sl_read s @ [Range off stop] \<and> stop - off \<le> max (int n) maxWindow))"
  by (rule serving_ranges.ReadAt_spec [OF http_serving [OF assms(1)] assms(5,2,3,4)])

definition four_bytes_server :: network where
  "four_bytes_server = \<lparr>nw_url = (\<lambda>_. None),
     nw_send = (\<lambda>n _. Inr (\<lparr>rs_status = 206, rs_line = ''206'', rs_length = 4, rs_header = lookup [(''Content-Range'', content_range 0 3 4)]\<rparr>,
       \<lparr>bd_chunks = [''da'', ''ta''], bd_end = None\<rparr>)), nw_fold = (\<lambda>_ _. False), nw_lower = id\<rparr>"

lemma four_bytes_honest: "honest_server ''data'' (\<lambda>_. four_bytes_server)"
proof -
  let ?h = "content_range 0 3 4"
  have i: "is_int64 0" "is_int64 3" by (simp_all add: is_int64_def min_int64_def max_int64_def)
  have n: "namesRange ?h r \<longleftrightarrow> r = Range 0 4" for r
    using namesRange_reads [of 0 3 4 r] i by simp
  have z: "sizeFromContentRange ?h = 4" by code_simp
  have h: "resp = \<lparr>rs_status = 206, rs_line = ''206'', rs_length = 4, rs_header = lookup [(''Content-Range'', ?h)]\<rparr> \<and>
      b = \<lparr>bd_chunks = [''da'', ''ta''], bd_end = None\<rparr>" if "nw_send four_bytes_server k rq = Inr (resp, b)" for k rq resp b
    using that by (simp add: four_bytes_server_def)
  have l: "lookup [(''Content-Range'', ?h)] ''Content-Range'' = ?h" by (simp add: lookup_def)
  show ?thesis unfolding honest_server_def
  proof (intro conjI allI impI)
    fix k src hs resp b
    assume "nw_send four_bytes_server 0 (probe_request src hs) = Inr (resp, b)"
    from h [OF this] show "sizeFromContentRange (rs_header resp ''Content-Range'') \<le> 0 \<or>
        sizeFromContentRange (rs_header resp ''Content-Range'') = int (length ''data'')" by (simp add: l z)
  next
    fix k rq resp b
    assume "nw_send four_bytes_server 0 (range_request_of rq) = Inr (resp, b)" and "namesRange (rs_header resp ''Content-Range'') (rr_range rq)"
    with h [OF this(1)] have "rr_range rq = Range 0 4" "concat (bd_chunks b) = ''data''" by (simp_all add: l n)
    then show "take (nat (r_end (rr_range rq) - r_start (rr_range rq))) (concat (bd_chunks b)) =
        piece ''data'' (r_start (rr_range rq)) (r_end (rr_range rq))" by (simp add: piece_def)
  qed
qed

lemma remote_read_never_lies_witness:
  "\<exists>s' a'. at_ReadAt (http_service (\<lambda>_. four_bytes_server)) 3 1 (new_slice (locator_source ''https://h/a''), slice_At) =
     (Some (''ata'', None), s', a') \<or>
   (\<exists>e. at_ReadAt (http_service (\<lambda>_. four_bytes_server)) 3 1 (new_slice (locator_source ''https://h/a''), slice_At) = (Some ([], Some e), s', a'))"
proof -
  obtain x s' a' where run: "at_ReadAt (http_service (\<lambda>_. four_bytes_server)) 3 1
     (new_slice (locator_source ''https://h/a''), slice_At) = (x, s', a')" by (metis prod_cases3)
  have "whole_ReadAt ''data'' 3 1 = (''ata'', None)" by (simp add: whole_ReadAt_def)
  with remote_read_never_lies [OF four_bytes_honest slice_wf_new at_wf_new _ run] run show ?thesis by (auto simp: max_int64_def)
qed

text \<open>
  C18. "A parse retried four times still costs one copy of the header." A new prefix, grown to any sizes in any
  order, over any source that serves ranges of the artifact, with failures in between: it holds the front
  of the artifact, and the ranges that were read for it are together exactly as long as it is.
\<close>

theorem prefix_pays_once:
  assumes "serving_ranges content F" "int (length content) \<le> max_int64" "\<forall>n\<in>set ns. 0 \<le> n"
    and "grow_all F ns ([], new_slice src) = (buf, s)"
  shows "buf = take (length buf) content \<and> (\<Sum>r\<leftarrow>sl_read s. r_end r - r_start r) = int (length buf)"
  using grow_all_spec [OF assms(1,2,4,3) slice_wf_new] by (simp add: piece_def range_bytes_def new_slice_def)

lemma prefix_pays_once_witness:
  "\<exists>s. grow_all (file_service (\<lambda>_. Inr (''abcdef'', True))) [2, 4, 1] ([], new_slice (locator_source ''/srv/a''))
     = (''abcd'', s) \<and> (\<Sum>r\<leftarrow>sl_read s. r_end r - r_start r) = 4"
proof -
  let ?run = "grow_all (file_service (\<lambda>_. Inr (''abcdef'', True))) [2, 4, 1] ([], new_slice (locator_source ''/srv/a''))"
  have f: "fst ?run = ''abcd''" by code_simp
  obtain s where r: "?run = (''abcd'', s)" using f by (metis prod.collapse)
  show ?thesis
    using prefix_pays_once [OF file_slice.serving_ranges_axioms _ _ r] r by (simp add: max_int64_def)
qed

text \<open>
  C19. A member never gets past what its caller accepts. For a limit below the largest number, \<open>Member\<close> writes at
  most one byte more than the limit, whatever the archive holds and the archive library lets through; it
  writes nothing of a member that declares more; what it wrote is the front of the member; and it answers
  without an error only if the whole member was written and is no longer than the limit.
\<close>

theorem member_within_limit:
  assumes "archive_Member loc es out name lim = ((n, e), got)" "lim < max_int64"
  shows "n = int (length got) \<and> (got \<noteq> [] \<longrightarrow> n \<le> lim + 1) \<and>
    (got \<noteq> [] \<or> e = None \<longrightarrow> (\<exists>f b. archive_find loc es name = Inr f \<and> ze_declared f \<le> lim \<and> ze_open f = Inr b \<and>
      got = take (length got) (concat (bd_chunks b)) \<and>
      (e = None \<longrightarrow> got = concat (bd_chunks b) \<and> bd_end b = None \<and> n \<le> lim) \<and>
      (lim < int (length (concat (bd_chunks b))) \<longrightarrow> e \<noteq> None)))"
  by (rule Member_spec [OF assms])

definition bomb :: "zip_entry list" where
  "bomb = [\<lparr>ze_name = ''a'', ze_declared = 3, ze_open = Inr \<lparr>bd_chunks = [''abcd'', ''efgh''], bd_end = None\<rparr>\<rparr>]"

lemma member_within_limit_witness:
  "snd (archive_Member ''/z'' bomb (\<lambda>_ c. (length c, None)) ''a'' 5) = ''abcdef'' \<and>
   snd (fst (archive_Member ''/z'' bomb (\<lambda>_ c. (length c, None)) ''a'' 5)) \<noteq> None"
proof -
  obtain n e got where run: "archive_Member ''/z'' bomb (\<lambda>_ c. (length c, None)) ''a'' 5 = ((n, e), got)" by (metis prod.exhaust)
  have g: "snd (archive_Member ''/z'' bomb (\<lambda>_ c. (length c, None)) ''a'' 5) = ''abcdef''" by code_simp
  then have "got = ''abcdef''" using run by simp
  moreover have "archive_find ''/z'' bomb ''a'' = Inr (hd bomb)" by (simp add: archive_find_def bomb_def)
  ultimately have "e \<noteq> None" using member_within_limit [OF run] by (auto simp: bomb_def max_int64_def)
  with g run show ?thesis by simp
qed

section \<open>Tiers\<close>

text \<open>
  C20. A stored handle has one interpreter. In every state the registry can reach, names are distinct and tiers are in
  order of priority; registering a tier puts it there, removes only what was registered under its name, and
  asks tiers of one priority in the order they came; unregistering removes exactly the name.
\<close>

theorem one_tier_per_name:
  assumes "registry_step\<^sup>*\<^sup>* no_tiers s"
  shows "distinct (RegisteredTiers s) \<and> sorted (map tr_priority (tt_tiers s)) \<and>
    set (tt_tiers (RegisterTier t s)) = insert t {x \<in> set (tt_tiers s). tr_name x \<noteq> tr_name t} \<and>
    (tr_name t \<notin> set (RegisteredTiers s) \<longrightarrow> filter (\<lambda>x. tr_priority x = p) (tt_tiers (RegisterTier t s)) =
      filter (\<lambda>x. tr_priority x = p) (tt_tiers s) @ (if tr_priority t = p then [t] else [])) \<and>
    tt_tiers (snd (UnregisterTier n s)) = filter (\<lambda>x. tr_name x \<noteq> n) (tt_tiers s)"
proof -
  have ok: "registry_ok s" using registry_ok_reachable [OF assms] by (simp add: registry_ok_def no_tiers_def)
  then show ?thesis
    using RegisterTier_tiers(2) [OF ok] RegisterTier_stable [OF ok] UnregisterTier_tiers(2) [OF ok]
    by (simp add: registry_ok_def RegisteredTiers_def)
qed

definition demo_registration :: "string \<Rightarrow> int \<Rightarrow> registration" where
  "demo_registration n p = \<lparr>tr_name = n, tr_publisher = \<lparr>pb_name = [], pb_proof = []\<rparr>, tr_over = OverOurs, tr_facility = [], tr_priority = p\<rparr>"

lemma one_tier_per_name_witness:
  "RegisteredTiers (RegisterTier (demo_registration ''nas'' 5)
      (RegisterTier (demo_registration ''bits'' 2) (RegisterTier (demo_registration ''nas'' 1) no_tiers))) = [''bits'', ''nas''] \<and>
   distinct (RegisteredTiers (RegisterTier (demo_registration ''nas'' 1) no_tiers))"
proof
  show "RegisteredTiers (RegisterTier (demo_registration ''nas'' 5)
      (RegisterTier (demo_registration ''bits'' 2) (RegisterTier (demo_registration ''nas'' 1) no_tiers))) = [''bits'', ''nas'']" by code_simp
  show "distinct (RegisteredTiers (RegisterTier (demo_registration ''nas'' 1) no_tiers))"
    using one_tier_per_name [OF r_into_rtranclp [of registry_step, OF registers [of no_tiers "demo_registration ''nas'' 1"]]] by blast
qed

text \<open>
  C21. A refutation is not laundered. Once a tier did the opposite of what it claims, the claim is listed as refuted
  after any number of registrations (under its own name as well), refutations, probes and removals of
  other tiers; unregistering its name is the one thing that makes it believed again.
\<close>

theorem refuted_claims_last:
  assumes "(registry_step_but n)\<^sup>*\<^sup>* (disbelieve_tier n c s) s'"
  shows "c \<in> set (Disbelieved n s') \<and> Disbelieved n (snd (UnregisterTier n s')) = []"
proof
  have "disbelieves (tt_refuted (disbelieve_tier n c s)) n c" by (simp add: disbelieve_tier_def disbelieves_def Disbelieve_def)
  from refuted_stays [OF assms this] show "c \<in> set (Disbelieved n s')" by (simp add: Disbelieved_set)
  have "set (Disbelieved n (snd (UnregisterTier n s'))) = {}" unfolding Disbelieved_set using unregistered_is_believed by blast
  then show "Disbelieved n (snd (UnregisterTier n s')) = []" by simp
qed

lemma refuted_claims_last_witness:
  "''resume'' \<in> set (Disbelieved ''nas'' (RegisterTier (demo_registration ''nas'' 7)
     (disbelieve_tier ''nas'' ''resume'' (RegisterTier (demo_registration ''nas'' 1) no_tiers))))"
  using refuted_claims_last [OF r_into_rtranclp [of "registry_step_but ''nas''", OF but_registers]] by blast

text \<open>
  C22. What is offered is what answered. With no probe outstanding the report has every registered tier, in the order of
  the registry; a tier is reported usable exactly when nobody switched it off and its \<open>New\<close> answered within
  the budget with a delegator whose declaration this package can read; and \<open>available\<close> hands out exactly
  those delegators, in that order.
\<close>

theorem offers_are_what_answered:
  assumes "registry_step\<^sup>*\<^sup>* no_tiers s" "tt_probing s = []" "tier_offers us txt off budget new s = (xs, ds, cls, s')"
  shows "map of_system xs = RegisteredTiers s \<and> fst (available us txt off budget new s) = ds \<and>
    ds = List.map_filter (\<lambda>t. case new t of
      Answers (Inr (Some d)) \<Rightarrow> if off (tr_name t) = None \<and> Valid (declaredBy d) = None then Some d else None | _ \<Rightarrow> None) (tt_tiers s) \<and>
    map of_usable xs = map (\<lambda>t. off (tr_name t) = None \<and>
      (\<exists>d. new t = Answers (Inr (Some d)) \<and> Valid (declaredBy d) = None)) (tt_tiers s)"
proof -
  have "distinct (map tr_name (tt_tiers s))"
    using registry_ok_reachable [OF assms(1)] by (simp add: registry_ok_def no_tiers_def)
  from offers_from_spec [OF assms(3) [unfolded tier_offers_def] this] assms(2,3)
  show ?thesis by (simp add: RegisteredTiers_def available_def)
qed

lemma offers_are_what_answered_witness:
  "\<exists>xs ds cls s'. tier_offers (tr_publisher (demo_registration [] 0)) (\<lambda>_. ''gone'') (\<lambda>_. None) ''5s''
      (\<lambda>t. if tr_name t = ''nas'' then Answers (Inr None) else NeverAnswers :: unit new_tier)
      (RegisterTier (demo_registration ''nas'' 1) no_tiers) = (xs, ds, cls, s') \<and>
    map of_system xs = [''nas''] \<and> map of_usable xs = [False] \<and> ds = []"
proof -
  let ?s = "RegisterTier (demo_registration ''nas'' 1) no_tiers"
  have t: "tt_tiers ?s = [demo_registration ''nas'' 1]" "tt_probing ?s = []" by (simp_all add: RegisterTier_def no_tiers_def tier_order_def)
  obtain xs ds cls s' where run: "tier_offers (tr_publisher (demo_registration [] 0)) (\<lambda>_. ''gone'') (\<lambda>_. None) ''5s''
      (\<lambda>t. if tr_name t = ''nas'' then Answers (Inr None) else NeverAnswers :: unit new_tier) ?s = (xs, ds, cls, s')" by (metis prod_cases4)
  from offers_are_what_answered [OF r_into_rtranclp [of registry_step, OF registers] t(2) run] run
  show ?thesis by (simp add: t RegisteredTiers_def List.map_filter_def) (simp add: demo_registration_def)
qed

section \<open>The bus\<close>

text \<open>
  C23. What is written is read back. A message with any header fields and a body of strings, paths, signatures, numbers,
  lists of strings and variants of them nested to depth 62, whose encoding is within the size limit, is
  decoded to itself - paths come back as strings and lists of strings as lists, as the decoder makes
  them - and the bytes behind it stay for the next message. The fuel that is enough is stated.
\<close>

theorem dbus_round_trip:
  assumes "encodeMessage m = Inr wire" "plain_message m" "length (body_signature (dm_body m)) \<le> 255"
    and "length wire \<le> dbusMaxMessage" "message_fuel m \<le> k"
  shows "readMessage other short k (wire @ rest) =
    Some (Decoded (m\<lparr>dm_signature := body_signature (dm_body m), dm_body := map seen_value (dm_body m)\<rparr>, rest) 0)"
  by (rule read_written [OF assms])

lemma dbus_round_trip_witness:
  "\<exists>wire. encodeMessage hello_message = Inr wire \<and>
     readMessage (\<lambda>_. []) (\<lambda>_. Plain ''EOF'') 40 (wire @ ''next'') = Some (Decoded (hello_message\<lparr>dm_signature := ''sv''\<rparr>, ''next'') 0)"
proof -
  obtain wire where w: "encodeMessage hello_message = Inr wire"
    using encodes_plain_body [of hello_message] by (auto simp: hello_message_def)
  have p: "plain_message hello_message" "length (body_signature (dm_body hello_message)) \<le> 255" "message_fuel hello_message \<le> 40"
    "body_signature (dm_body hello_message) = ''sv''" "map seen_value (dm_body hello_message) = dm_body hello_message"
    by (simp_all add: hello_message_def call_message_def plain_message_def message_fuel_def)
  have "length wire \<le> dbusMaxMessage" using hello_small [OF w] by (simp add: dbusMaxMessage_def)
  from dbus_round_trip [OF w p(1,2) this p(3)] w show ?thesis by (simp add: p(4,5))
qed

text \<open>
  C24. The decoder stays inside its buffer. For any bytes - lengths that lie, nested types, either byte order - a value
  that is decoded without an error ends no earlier than it began and no later than the buffer.
\<close>

theorem decoder_stays_inside:
  assumes "dbus_decode big b k (DecValue depth sig off) = Some (Decoded v off')" "off \<le> length b"
  shows "off \<le> off' \<and> off' \<le> length b"
  using insideD [OF dbus_decode_inside assms(1)] assms(2) by simp

lemma decoder_stays_inside_witness:
  "\<exists>v off. dbus_decode False [CHR 0x02, CHR 0x00, CHR 0x00, CHR 0x00, CHR ''h'', CHR ''i'', CHR 0x00] 3 (DecValue 0 ''s'' 0) = Some (Decoded v off) \<and> off \<le> 7"
proof -
  let ?r = "dbus_decode False [CHR 0x02, CHR 0x00, CHR 0x00, CHR 0x00, CHR ''h'', CHR ''i'', CHR 0x00] 3 (DecValue 0 ''s'' 0)"
  have "case ?r of Some (Decoded v off) \<Rightarrow> True | _ \<Rightarrow> False" by code_simp
  then obtain v off where r: "?r = Some (Decoded v off)" by (auto split: option.splits decoded.splits)
  from decoder_stays_inside [OF r] r show ?thesis by simp
qed

text \<open>
  C25. Two messages the reader does not survive. A header field that is a variant of type \<open>a{}\<close> makes it panic - the
  entry has no key to store under - and one of type \<open>a()\<close> keeps it in the loop over elements that take no
  bytes, so that no fuel is enough. Either is forty bytes of well formed header.
\<close>

theorem poison_messages:
  "readMessage other short (10 + k) (poison ''a{}'' @ rest) = Some Panics \<and>
   readMessage other short k (poison ''a()'' @ rest) = None"
  using poison_panics [of "10 + k"] poison_hangs by simp

text \<open>
  C26. The answer and the signals are applied in the order the bus sent them. If \<open>openNetworkManager\<close> succeeds, its
  fourth call was answered by a method return that carries a cost, and the cost the source reports is the one
  of the last property change behind that answer, or the answer's own where none follows: a change that
  overtook the answer is never lost and a stale answer never wins.
\<close>

theorem cost_is_the_last_reported:
  assumes "openNetworkManager other fate = (Inr (), c)"
  shows "\<exists>pre m post v e. fate 3 = Written (pre @ m # post) e \<and> dm_type m = dbusMethodReturn \<and> dm_reply m = 4 \<and>
    read_metered m = Some v \<and> nm_cost c = last (classifyNM v # reported_costs post) \<and> hub_open c"
  by (rule openNetworkManager_cost [OF assms])

lemma cost_is_the_last_reported_witness:
  "\<exists>c. openNetworkManager (\<lambda>_. []) bus_fate = (Inr (), c) \<and> nm_cost c \<in> {Metered, Unmetered}"
proof -
  obtain c where r: "openNetworkManager (\<lambda>_. []) bus_fate = (Inr (), c)" using bus_opens by blast
  from cost_is_the_last_reported [OF r] have "nm_cost c \<in> {Metered, Unmetered}"
    by (auto simp: bus_fate_def Cons_eq_append_conv bus_reply_def bus_change_def reported_costs_def meteredChange_def classifyNM_def
        read_metered_def variant_u32_def call_message_def nmName_def dbusProps_def)
  with r show ?thesis by blast
qed

text \<open>
  C27. Nobody waits for a reply that cannot come. In every state a connection can reach, an ended one has no pending call
  and a call made on it is refused at once; and a call that stops being pending has exactly one more answer
  in its channel, a message or the end of the connection, unless its own caller gave it up.
\<close>

theorem no_call_left_waiting:
  assumes "(conn_step sig)\<^sup>*\<^sup>* (new_conn w) c"
  shows "(cn_done c \<longrightarrow> cn_pending c s = None \<and> (\<exists>e. call_begins ap c = (Inl e, c))) \<and>
    (conn_step sig c c' \<and> cn_pending c s \<noteq> None \<and> cn_pending c' s = None \<longrightarrow>
       (\<exists>x. cn_replies c' s = cn_replies c s @ [x]) \<or> c' = call_forgotten s c)"
  using conn_ok_reachable [OF assms conn_ok_new] pending_answered [of sig c c' s]
  by (auto simp: conn_ok_def call_begins_def)

lemma no_call_left_waiting_witness:
  "\<exists>e. call_begins None (conn_ends (Plain ''EOF'') (snd (call_begins None (new_conn ())))) =
     (Inl e, conn_ends (Plain ''EOF'') (snd (call_begins None (new_conn ()))))"
proof -
  let ?c = "snd (call_begins None (new_conn ()))"
  have "\<not> cn_done ?c" by (simp add: call_begins_def new_conn_def Let_def)
  then have "(conn_step None)\<^sup>*\<^sup>* (new_conn ()) (conn_ends (Plain ''EOF'') ?c)"
    by (meson calls ends r_into_rtranclp rtranclp.rtrancl_into_rtrancl)
  from no_call_left_waiting [OF this] show ?thesis by (simp add: conn_ends_def)
qed

section \<open>Shared stores\<close>

text \<open>
  C28. A caller may route by address. Whatever the bodies of the datagrams claim, the addresses \<open>Find\<close> lists are exactly
  those the datagrams came from, each once, hosts that list more shares first; and what it shows of a
  device's own words has no control character and at most 83 bytes.
\<close>

theorem hosts_are_where_they_answered:
  "distinct (map fo_address (Find uf txt shares resolve_ip rs)) \<and>
   fo_address ` set (Find uf txt shares resolve_ip rs) = (\<lambda>(q, ip, b). ip) ` set rs \<and>
   sorted (map host_order (Find uf txt shares resolve_ip rs)) \<and>
   harmless (printable body) \<and> length (printable body) \<le> 83"
  using Find_spec printable_bound by blast

text \<open>
  C29. A path never leaves the share a person chose. Whatever is given as share and directory, a path that is built
  begins with the address, an address this machine can parse, and goes on with folder names only: none is
  empty, a dot or two dots, and none holds a separator of any system.
\<close>

theorem store_path_stays_in_share:
  assumes "nas_Path is_ip address share dir = Inr p" "slash \<notin> set address"
  shows "is_ip address \<and> (\<exists>segs. segs \<noteq> [] \<and> p = [slash, slash] @ str_join [slash] (address # segs) \<and>
    split_on slash (drop 2 p) = address # segs \<and>
    (\<forall>s\<in>set segs. s \<noteq> [] \<and> s \<noteq> ''.'' \<and> s \<noteq> ''..'' \<and> (\<forall>c\<in>set s. c \<notin> set bad_in_folder)))"
  by (rule nas_Path_spec [OF assms])

lemma store_path_stays_in_share_witness:
  "\<exists>segs. nas_Path (\<lambda>a. a = ''10.0.0.2'') ''10.0.0.2'' ''media'' ''store/jobs'' = Inr ([slash, slash] @ str_join [slash] (''10.0.0.2'' # segs)) \<and>
     segs \<noteq> []"
proof -
  have r: "nas_Path (\<lambda>a. a = ''10.0.0.2'') ''10.0.0.2'' ''media'' ''store/jobs'' = Inr ''//10.0.0.2/media/store/jobs''" by code_simp
  have "slash \<notin> set ''10.0.0.2''" by (simp add: slash_def)
  from store_path_stays_in_share [OF r this] obtain segs where
    "segs \<noteq> []" "''//10.0.0.2/media/store/jobs'' = [slash, slash] @ str_join [slash] (''10.0.0.2'' # segs)" by blast
  with r show ?thesis by metis
qed

text \<open>
  C30. A wait is not a failure. On a metered path, or a source that has not answered, a run of a job wanting an
  unmetered one opens nothing and writes no file, and its record keeps its state, its progress and the
  failure it had. The word it waits with holds it back in a sweep exactly while the source reports what
  it reported: on any other notice the job moves.
\<close>

theorem metered_path_waits:
  assumes "run_layer R D J" "en_store E = J" "en_docs E = D"
    and "so_claim J (en_id E) who (w_store w) = (Inr rec, s)" "j_want rec = WantRun"
    and "SpecOf D rec = Inr sp" "WantsUnmetered sp" "CapRecoverableSubmission \<notin> set (j_requires rec)"
    and "rc_network C = Some (Inr c)" "c = Metered \<or> c = CostUnavailable"
    and "Run C E mc who w = Some (e, w')"
  shows "w_files w' = w_files w \<and> e \<noteq> None \<and>
    (e = Some (Var (if c = Metered then ErrWaiting else ErrNetworkUnavailable)) \<longrightarrow>
      (\<exists>r'. so_load J (en_id E) (w_store w') = Inr r' \<and> j_state r' = j_state rec \<and> j_progress r' = j_progress rec \<and>
        LastFailure r' = LastFailure rec \<and>
        (\<forall>c'. networkHolds (rc_dec C) (Some c') (Inr sp) r' \<longleftrightarrow> c' = c)))"
  by (rule run_layer.metered_run_waits [OF assms])

lemma metered_path_waits_witness:
  "\<exists>r. so_load map_ops ''j1'' (w_store (snd (the (Run (demo_conf (Some Metered)) demo_env demo_machine ''o''
      (demo_world (Some NetworkUnmetered)))))) = Inr r \<and> LastFailure r = None \<and>
    networkHolds (\<lambda>_. None) (Some Metered) (Inr (demo_spec (Some NetworkUnmetered))) r \<and>
    \<not> networkHolds (\<lambda>_. None) (Some Unmetered) (Inr (demo_spec (Some NetworkUnmetered))) r"
proof -
  let ?n = "Some NetworkUnmetered" and ?C = "demo_conf (Some Metered)"
  let ?w = "demo_world ?n" let ?s = "snd (so_claim map_ops ''j1'' ''o'' (w_store ?w))"
  have claim: "so_claim map_ops (en_id demo_env) ''o'' (w_store ?w) = (Inr (demo_claimed ?n), ?s)"
    by (simp add: map_ops_def demo_env_def demo_world_def demo_record_def demo_claimed_def claimed_state_def Let_def)
  have sp: "SpecOf ref_docs (demo_claimed ?n) = Inr (demo_spec ?n)" "WantsUnmetered (demo_spec ?n)"
    by (simp_all add: SpecOf_def demo_claimed_def demo_record_def ref_docs_def demo_spec_def WantsUnmetered_def)
  have ok: "map_option (\<lambda>x. fst x = Some (Var ErrWaiting)) (Run ?C demo_env demo_machine ''o'' ?w) = Some True" by code_simp
  then obtain w' where run: "Run ?C demo_env demo_machine ''o'' ?w = Some (Some (Var ErrWaiting), w')" by auto
  have "LastFailure (demo_claimed ?n) = None" by code_simp
  with metered_path_waits [OF run_layer_ref _ _ claim _ sp _ _ _ run, of Metered] run show ?thesis
    by (auto simp: demo_env_def demo_conf_def demo_claimed_def demo_record_def)
qed

text \<open>
  C31. The resume point is never left unreadable. Start from a record whose checkpoint decodes to valid ranges
  and let the callbacks come in any order, writes and reports be cut short, the stream restart, the
  digest fail or the store refuse: the record a run leaves again has a checkpoint that decodes to
  valid ranges. Others' writes and the parallel path are only asked to keep the same.
\<close>

theorem run_keeps_resume_point:
  assumes "record_layer R D J" "en_ranges E = R" "en_docs E = D" "en_store E = J"
    and "\<exists>r. so_load J (en_id E) (w_store w) = Inr r \<and> readable_point R D r"
    and "\<And>s. \<exists>r. so_load J (en_id E) s = Inr r \<and> readable_point R D r \<Longrightarrow>
      \<exists>r. so_load J (en_id E) (rv_others (mc_events mc) s) = Inr r \<and> readable_point R D r"
    and "\<And>sv p hv w g w' a. mc_parallel mc sv p hv w = (g, w', a) \<Longrightarrow>
      \<exists>r. so_load J (en_id E) (w_store w) = Inr r \<and> readable_point R D r \<Longrightarrow>
      \<exists>r. so_load J (en_id E) (w_store w') = Inr r \<and> readable_point R D r"
    and "Run C E mc who w = Some (x, w')"
  shows "\<exists>r. so_load J (en_id E) (w_store w') = Inr r \<and> readable_point R D r"
  using record_layer.Run_good [OF assms(1), of E w mc C who x w'] assms(2-)
  unfolding record_layer.store_good_def [OF assms(1)] record_layer.our_env_def [OF assms(1)] by blast

lemma run_keeps_resume_point_witness:
  "\<exists>r. so_load map_ops ''j1'' (w_store (snd (the (demo_run None demo_machine)))) = Inr r \<and> readable_point ref_ranges ref_docs r"
proof -
  have start: "\<exists>r. so_load map_ops (en_id demo_env) (w_store (demo_world None)) = Inr r \<and> readable_point ref_ranges ref_docs r"
    by (simp add: map_ops_def demo_env_def demo_world_def demo_record_def readable_point_def CheckpointOf_def ref_docs_def
        checkpoint_wf_def)
  have "map_option (\<lambda>x. fst x = None) (demo_run None demo_machine) = Some True" by code_simp
  then obtain w' where "Run (demo_conf None) demo_env demo_machine ''o'' (demo_world None) = Some (None, w')"
    by (auto simp: demo_run_def)
  from run_keeps_resume_point [OF record_layer_ref _ _ _ start _ _ this] this show ?thesis
    by (simp add: demo_env_def demo_machine_def demo_events_def demo_run_def)
qed

section \<open>Sweeps and the network\<close>

text \<open>
  C32. The hub of the cost source implements the account of its notices. Over any sequence of operations, it
  reports the last notice taken, its stamp is the number of changes among them, and what each
  subscription was posted is what the account says its watcher is told: the cost at its start, then every
  change once, and nothing after it is closed.
\<close>

theorem cost_hub_refines:
  "let h = fold hub_run ops (newHub c); n = fold spec_run ops (spec_new c) in
     hu_cost h = last (no_costs n) \<and> Suc (hu_stamp h) = length (remdups_adj (no_costs n)) \<and>
     hu_subs h = no_live n \<and> hu_closed h = (\<not> no_open n) \<and> (\<forall>i. map fst (hu_posts h i) = no_seen n i)"
  using hub_refines [of ops c] by (simp add: hub_abs_def Let_def)

text \<open>
  C33. A failure payload is read back as it was written exactly when the two texts it carries are
  valid UTF-8; otherwise the reader refuses it with the word \<open>bad_string\<close>.
\<close>

theorem failure_roundtrip:
  "if valid_utf8 (f_error v) \<and> valid_utf8 (f_cause v) then decode_failure (encode_failure v) = Inr v
   else \<exists>n. decode_failure (encode_failure v) = Inl (Refusal bad_string n)"
  using decode_encode_failure [of v] by (auto simp: bad_text_def)

section \<open>Paths\<close>

text \<open>
  C34. Containment. Whatever a submitted sink path spells, dots, repeated separators and backslashes
  included, if \<open>resolveUnder\<close> accepts it under an absolute root the elements of the result start with
  the elements of the root.
\<close>

theorem sink_stays_under_root:
  assumes "resolveUnder root p = Inr q" "plain_root root" "relativeEverywhere p" "p \<noteq> []"
  shows "prefix (abs_elems root) (abs_elems q)"
  using resolveUnder_contained [OF assms] .

lemma sink_stays_under_root_witness:
  "prefix (abs_elems ''/srv/dl'') (abs_elems ''/srv/dl/b'')"
proof (rule sink_stays_under_root)
  show "resolveUnder ''/srv/dl'' ''a/../b'' = Inr ''/srv/dl/b''" by code_simp
  show "plain_root ''/srv/dl''" by code_simp
  show "relativeEverywhere ''a/../b''" by code_simp
qed simp

section \<open>Many connections\<close>



text \<open>
  C36. The queue is exact. Every byte of the artifact that is not proven lies in exactly one queued range, a
  proven byte or one outside the artifact in none, and no queued range straddles a cut of the plan.
\<close>

theorem every_missing_byte_once:
  assumes "range_layer R" "canonical hv" "0 \<le> pl_size p"
  shows "asked (todo_ranges R p hv) b = (if 0 \<le> b \<and> b < pl_size p \<and> b \<notin> bytes_of hv then 1 else 0) \<and>
    (sorted_wrt (<) (pl_cuts p) \<longrightarrow>
      (\<forall>r\<in>set (todo_ranges R p hv). \<forall>c\<in>set (pl_cuts p). \<not> (r_start r < c \<and> c < r_end r)))"
proof -
  have "\<not> (r_start r < c \<and> c < r_end r)"
    if "r \<in> set (todo_ranges R p hv)" "c \<in> set (pl_cuts p)" "sorted_wrt (<) (pl_cuts p)" for r c
    using that ranges_from_straddle [OF that(3)] by (auto simp: todo_ranges_def rangesOf_def)
  with range_layer.todo_asked [OF assms] show ?thesis by blast
qed

lemma every_missing_byte_once_witness:
  "asked (todo_ranges ref_ranges \<lparr>pl_size = 30, pl_cuts = [10, 20]\<rparr> [Range 0 4, Range 12 15]) 13 = 0 \<and>
   asked (todo_ranges ref_ranges \<lparr>pl_size = 30, pl_cuts = [10, 20]\<rparr> [Range 0 4, Range 12 15]) 16 = 1"
  using every_missing_byte_once [OF range_layer_ref, of "[Range 0 4, Range 12 15]" "\<lparr>pl_size = 30, pl_cuts = [10, 20]\<rparr>" 13]
    every_missing_byte_once [OF range_layer_ref, of "[Range 0 4, Range 12 15]" "\<lparr>pl_size = 30, pl_cuts = [10, 20]\<rparr>" 16]
  by simp

text \<open>
  C37. Durability comes before the claim. From the start of a parallel transfer, along every interleaving of
  connections, landing timer, syncs and refused updates, the record claims only bytes that were
  flushed to disk, apart from what it already claimed, and the proven set in memory is on disk too.
\<close>

theorem durable_before_claimed:
  assumes "checkpoint_layer R D" "canonical h" "0 \<le> pl_size p" "bytes_of h \<subseteq> {0..<min len (pl_size p)}"
    and "(pstep R D)\<^sup>*\<^sup>* (parallel_start R p vs len h r) s"
  shows "record_claims D (ps_record s) \<subseteq> ps_durable s \<union> record_claims D r \<and>
    bytes_of (ps_have s) \<subseteq> ps_durable s"
proof -
  have "range_layer R" using assms(1) by (simp add: checkpoint_layer_def)
  then have "pinv D (record_claims D r) (parallel_start R p vs len h r)"
    using checkpoint_layer.pinv_start [OF assms(1,2,3,4)] by blast
  from checkpoint_layer.pinv_reachable [OF assms(1,5) this] show ?thesis by (simp add: pinv_def)
qed

definition blank_ref :: "ref_doc job_record" where
  "blank_ref = \<lparr>j_id = ''j1'', j_kind = ''download'', j_state = StateRunning, j_requires = [],
     j_spec = NoDoc, j_checkpoint = NoDoc, j_content = [],
     j_progress = \<lparr>p_done = 0, p_total = 0, p_updated = 0, p_step = None\<rparr>,
     j_lease = \<lparr>l_owner = ''o'', l_epoch = 1, l_expires = 10\<rparr>, j_delegation = None,
     j_want = WantRun, j_error = [], j_extensions = (\<lambda>k. None)\<rparr>"

lemma durable_before_claimed_witness:
  "record_claims ref_docs blank_ref \<subseteq> {0..<(4::int)} \<union> record_claims ref_docs blank_ref"
  using durable_before_claimed [OF checkpoint_layer_ref, of "[]" "\<lparr>pl_size = 30, pl_cuts = [10]\<rparr>" 4
      no_validators blank_ref "parallel_start ref_ranges \<lparr>pl_size = 30, pl_cuts = [10]\<rparr> no_validators 4 [] blank_ref"]
  by (simp add: parallel_start_def)

section \<open>Http\<close>

text \<open>
  C38. No splicing. When \<open>HTTP.Fetch\<close> goes on to copy a body, either the caller was rewound, the answer is
  a whole artifact and is written from zero, or the answer is a 206 whose \<open>Content-Range\<close> names the
  offset that was asked for, or a 200 to a request that asked for no range.
\<close>

theorem body_belongs_at_offset:
  assumes "http_answer N rq = (w, Inr f)"
  shows "if w then ft_from f = 0 \<and> rs_status (ft_response f) = 200 \<and> rq_restart rq = Some None
    else ft_from f = rq_from rq \<and>
      (rs_status (ft_response f) = 206 \<and>
         contentRangeStart (nw_fold N) (rs_header (ft_response f) ''Content-Range'') = Inr (rq_from rq) \<or>
       rs_status (ft_response f) = 200 \<and> \<not> (0 < rq_from rq \<or> 0 < rq_to rq))"
proof -
  obtain resp b where "choose_answer N rq (resp, b) = (w, Inr f)"
    using http_answer_choose [OF assms] by blast
  from choose_answer_offset [OF this] show ?thesis by (cases w) auto
qed

definition boundary_source :: source where
  "boundary_source = \<lparr>s_scheme = ''https'', s_locator = ''https://h/x'',
     s_attrs = [(''boundaries'', ''100, 200'')], s_headers = [], s_priority = 0\<rparr>"

definition sample_request :: request where
  "sample_request = \<lparr>rq_source = boundary_source, rq_from = 100, rq_to = 0,
     rq_validators = \<lparr>v_etag = [quote, CHR ''a'', quote], v_modified = []\<rparr>, rq_headers = [], rq_restart = Some None\<rparr>"

definition sample_response :: "int \<Rightarrow> (string \<times> string) list \<Rightarrow> response" where
  "sample_response status hs = \<lparr>rs_status = status, rs_line = fmt_int status, rs_length = 4, rs_header = lookup hs\<rparr>"

definition two_answers :: "response \<Rightarrow> response \<Rightarrow> network" where
  "two_answers a b = \<lparr>nw_url = (\<lambda>_. None),
     nw_send = (\<lambda>n _. Inr (if n = 0 then a else b, \<lparr>bd_chunks = [''data''], bd_end = None\<rparr>)),
     nw_fold = (\<lambda>_ _. False), nw_lower = id\<rparr>"

lemma body_belongs_at_offset_witness:
  "contentRangeStart (\<lambda>_ _. False) ''bytes 100-103/104'' = Inr 100"
proof -
  let ?r = "sample_response 206 [(''Content-Range'', ''bytes 100-103/104'')]"
  let ?f = "\<lparr>ft_response = ?r, ft_body = \<lparr>bd_chunks = [''data''], bd_end = None\<rparr>, ft_from = 100\<rparr>"
  have "unwantedCoding (\<lambda>_ _. False) ?r = []" "answersFrom id (\<lambda>_ _. False) ?r 100 = None"
    by code_simp+
  then have "http_answer (two_answers ?r ?r) sample_request = (False, Inr ?f)"
    by (simp add: http_answer_def http_get_def two_answers_def choose_answer_def sample_request_def
        sample_response_def)
  from body_belongs_at_offset [OF this] show ?thesis
    by (simp add: two_answers_def sample_response_def sample_request_def lookup_def)
qed

text \<open>
  C39. A bounded fetch is bounded by construction. Whatever body arrives, no byte outside the range changes;
  and when \<open>FetchRange\<close> returns no error, the server named exactly this range and the range holds the
  body's own bytes.
\<close>

theorem range_stays_in_its_range:
  assumes "writer_contract wr" "0 \<le> r_start rng" "r_start rng \<le> r_end rng" "r_end rng \<le> max_int64"
    and "rng = rr_range rq" "http_FetchRange N wr ctx rq f = (e, f')"
  shows "(\<forall>i. i < r_start rng \<or> r_end rng \<le> i \<longrightarrow> f' i = f i) \<and>
    (e = None \<longrightarrow> (\<exists>resp b. nw_send N 0 (range_request_of rq) = Inr (resp, b) \<and> rs_status resp = 206 \<and>
       namesRange (rs_header resp ''Content-Range'') rng \<and>
       f' = write_at (r_start rng) (take (nat (r_end rng - r_start rng)) (concat (bd_chunks b))) f \<and>
       r_end rng - r_start rng \<le> int (length (concat (bd_chunks b)))))"
proof (cases "range_answer N rq")
  case (Inl x)
  with assms(6) show ?thesis by (auto simp: http_FetchRange_def)
next
  case (Inr b)
  then obtain w where w: "copyRange wr ctx rng b f = (e, w)" "f' = rw_file w"
    using assms(5,6) by (auto simp: http_FetchRange_def split: prod.splits)
  obtain resp where r: "nw_send N 0 (range_request_of rq) = Inr (resp, b)" "rs_status resp = 206"
    "namesRange (rs_header resp ''Content-Range'') rng"
    using range_answer_named [OF Inr] assms(5) by blast
  show ?thesis using copyRange_spec [OF w(1) assms(1-4)] r w(2) by blast
qed

definition sample_range :: range_request where
  "sample_range = \<lparr>rr_source = boundary_source, rr_range = Range 100 104, rr_headers = [], rr_validators = no_validators\<rparr>"

lemma range_stays_in_its_range_witness:
  "snd (http_FetchRange (two_answers (sample_response 206 [(''Content-Range'', ''bytes 100-103/104'')]) (sample_response 500 []))
     full_writer (\<lambda>_. None) sample_range (\<lambda>_. None)) 99 = None"
proof -
  let ?N = "two_answers (sample_response 206 [(''Content-Range'', ''bytes 100-103/104'')]) (sample_response 500 [])"
  define p where "p = http_FetchRange ?N full_writer (\<lambda>_. None) sample_range (\<lambda>_. None)"
  have e: "Range 100 104 = rr_range sample_range" by (simp add: sample_range_def)
  have bounds: "0 \<le> r_start (Range 100 104)" "r_start (Range 100 104) \<le> r_end (Range 100 104)"
    "r_end (Range 100 104) \<le> max_int64" by (simp_all add: max_int64_def)
  have "http_FetchRange ?N full_writer (\<lambda>_. None) sample_range (\<lambda>_. None) = (fst p, snd p)"
    by (simp add: p_def)
  from range_stays_in_its_range [OF full_writer_contract bounds e this] have "snd p 99 = None"
    by (simp del: split_paired_Ex)
  then show ?thesis by (simp add: p_def)
qed





section \<open>Further facts\<close>

text \<open>
  A delegate disappearing is a reason to do the work here, not a reason to lose it: the record is pending
  again with its sources, its requirements and its checkpoint. A handle that evaporated without a word
  leaves the last failure as it was; a delegate that tried and said why leaves that failure, permanent
  exactly if the delegate called it so.
\<close>

theorem lost_handle_returns:
  assumes "sweep_layer R D J S" "Reconcile A S F jid sc = (None, sc')"
    and "en_store (ha_env A) = J" "en_ranges (ha_env A) = R" "en_docs (ha_env A) = D"
    and "so_load J jid (w_store (sc_world sc)) = Inr rec" "j_id rec = jid"
    and "j_delegation rec = Some dl" "d_external dl \<noteq> jid" "\<not> d_delivered dl"
    and "\<not> terminal_state (j_state rec)" "j_state rec \<noteq> StateTransferred" "j_want rec = WantRun"
    and "BySystem (ha_tiers A) (d_system dl) = Some d" "dg_poll d (d_external dl) (sc_ext sc) = (Inr su, x)"
    and "su_state su = DelegateFailed \<or> su_state su = DelegateGone" "\<not> su_suspended su"
    and "CheckpointOf R D rec = Inr cp" "\<not> (0 < su_done su \<and> su_done su < c_prefix cp)"
  shows "\<exists>r'. so_load J jid (w_store (sc_world sc')) = Inr r' \<and> j_delegation r' = None \<and> j_state r' = StatePending \<and>
    j_spec r' = j_spec rec \<and> j_requires r' = j_requires rec \<and> CheckpointOf R D r' = CheckpointOf R D rec \<and>
    (su_state su = DelegateGone \<and> su_err su = [] \<longrightarrow> LastFailure r' = LastFailure rec) \<and>
    (su_err su \<noteq> [] \<and> valid_utf8 (su_err su) \<longrightarrow>
       LastFailure r' = Some (if su_permanent su then Perm (Plain (su_err su)) else Plain (su_err su)))"
proof -
  have ours: "sweep_layer.our_hand R D J A" using assms(3-5) by (simp add: sweep_layer.our_hand_def [OF assms(1)])
  show ?thesis by (rule sweep_layer.Reconcile_returns [OF assms(1,2) ours assms(6-19)])
qed

lemma lost_handle_returns_witness:
  "\<exists>r'. so_load map_ops ''j1'' (w_store (sc_world (snd (box_sweep gave_up (handed_record ''r''))))) = Inr r' \<and>
    j_state r' = StatePending \<and> j_delegation r' = None \<and> LastFailure r' = Some (Perm (Plain ''no such file''))"
proof -
  let ?x = "box_sweep gave_up (handed_record ''r'')"
  have "fst ?x = None" by code_simp
  then have run: "Reconcile (box_hand gave_up) demo_sup quiet_finish ''j1'' (box_scene (handed_record ''r'')) = (None, snd ?x)"
    by (simp add: box_sweep_def prod_eq_iff)
  have at: "so_load map_ops ''j1'' (w_store (sc_world (box_scene (handed_record ''r'')))) = Inr (handed_record ''r'')"
    "j_id (handed_record ''r'') = ''j1''" "j_delegation (handed_record ''r'') = Some \<lparr>d_system = ''nas'', d_external = ''r'', d_delivered = False\<rparr>"
    "\<not> terminal_state (j_state (handed_record ''r''))" "j_state (handed_record ''r'') \<noteq> StateTransferred" "j_want (handed_record ''r'') = WantRun"
    by (simp_all add: box_scene_def map_ops_def handed_record_def demo_record_def)
  have cp: "CheckpointOf ref_ranges ref_docs (handed_record ''r'') = Inr no_checkpoint" by code_simp
  have u: "valid_utf8 ''no such file''" by code_simp
  from lost_handle_returns [OF demo_layer run _ _ _ at(1-3) _ _ at(4-6) _ _ _ _ cp, of "box_tier gave_up" gave_up "()"] u show ?thesis
    by (fastforce simp: BySystem_def box_tier_def gave_up_def no_checkpoint_def)
qed

text \<open>
  Between asking a delegate and acting on its answer, anybody may have claimed the record, taken it back and
  handed it over again. A claim that succeeds proves that nothing of the kind happened: the stored record
  had the epoch and the delegation that were seen, even for a store whose claim says nothing about it.
\<close>

theorem observation_bound_to_handoff:
  assumes "sweep_layer R D J S" "claimDelegation S J seen w = (Inr mine, w')"
  shows "w_files w' = w_files w \<and> j_delegation mine = j_delegation seen \<and> j_delegation seen \<noteq> None \<and>
    (\<exists>r. so_load J (j_id seen) (w_store w) = Inr r \<and> \<not> terminal_state (j_state r) \<and>
      l_epoch (j_lease r) = l_epoch (j_lease seen) \<and> j_delegation r = j_delegation seen \<and>
      mine = r\<lparr>j_lease := j_lease mine, j_state := claimed_state (j_state r)\<rparr> \<and>
      l_epoch (j_lease mine) = l_epoch (j_lease seen) + 1 \<and> so_load J (j_id seen) (w_store w') = Inr mine)"
  using sweep_layer.observed [OF assms] by blast

lemma observation_bound_to_handoff_witness:
  "case claimDelegation demo_sup map_ops (handed_record ''r'') (sc_world (box_scene (handed_record ''r''))) of
     (Inl _, _) \<Rightarrow> False
   | (Inr mine, _) \<Rightarrow> j_delegation mine = Some \<lparr>d_system = ''nas'', d_external = ''r'', d_delivered = False\<rparr> \<and> l_epoch (j_lease mine) = 1"
proof -
  let ?w = "sc_world (box_scene (handed_record ''r''))"
  have ok: "case claimDelegation demo_sup map_ops (handed_record ''r'') ?w of (Inl _, _) \<Rightarrow> False | (Inr _, _) \<Rightarrow> True" by code_simp
  then obtain mine w' where c: "claimDelegation demo_sup map_ops (handed_record ''r'') ?w = (Inr mine, w')"
    by (auto split: prod.splits sum.splits)
  with observation_bound_to_handoff [OF demo_layer c] show ?thesis by (auto simp: handed_record_def demo_record_def)
qed

text \<open>
  Bytes a delegate delivered are as wrong as bytes fetched here. When the digest of the delivered file is not
  the one asked for, the sweep answers with the mismatch, and either the store refused the write or the
  record has lost its delegation, claims no byte as proven, and is failed exactly when the owner calls a
  mismatch permanent, so that the same delegate is not asked for the same wrong file for ever.
\<close>

theorem wrong_delivery_starts_over:
  assumes "sweep_layer R D J S" "settle_file A E F sp whole digest w = (e, w')"
    and "en_store E = J" "en_ranges E = R" "en_docs E = D"
    and "a_digest (sp_artifact sp) \<noteq> []" "\<not> sameDigest (rc_low (ha_conf A)) digest (a_digest (sp_artifact sp))"
  shows "e \<noteq> None \<and> w_files w' = w_files w \<and>
    (so_load J (en_id E) (w_store w') = so_load J (en_id E) (w_store w) \<or>
     (\<exists>r' m cp. so_load J (en_id E) (w_store w') = Inr r' \<and> e = Some m \<and> err_is m ErrDigestMismatch \<and>
        j_delegation r' = None \<and> j_state r' = (if Permanent m then StateFailed else StatePending) \<and>
        CheckpointOf R D r' = Inr cp \<and> claimed cp = {}))"
  by (rule sweep_layer.settle_mismatch [OF assms])

lemma wrong_delivery_starts_over_witness:
  "\<exists>m. fst (settle_file (box_hand arrived) demo_env quiet_finish (demo_spec None) 3 (''sha256:'' @ replicate 64 (CHR ''b''))
      demo_claimed_world) = Some m"
proof -
  let ?d = "''sha256:'' @ replicate 64 (CHR ''b'')"
  let ?x = "settle_file (box_hand arrived) demo_env quiet_finish (demo_spec None) 3 ?d demo_claimed_world"
  have s: "?x = (fst ?x, snd ?x)" by simp
  have bad: "a_digest (sp_artifact (demo_spec None)) \<noteq> []" "\<not> sameDigest (rc_low (ha_conf (box_hand arrived))) ?d (a_digest (sp_artifact (demo_spec None)))"
    by code_simp+
  from wrong_delivery_starts_over [OF demo_layer s _ _ _ bad] show ?thesis by simp
qed

definition caught_demo :: "err option \<times> (ref_doc map_store, unit) scene" where
  "caught_demo = restarted (box_hand arrived) demo_sup (handed_record ''r'')
     \<lparr>d_system = ''nas'', d_external = ''r'', d_delivered = False\<rparr> (box_tier arrived) 2 1 (box_scene (handed_record ''r''))"

definition demo_source :: source where "demo_source = hd (sp_sources (demo_spec None))"

text \<open>
  Catching a delegate that restarted costs no byte: the record keeps the checkpoint that says which bytes are
  proven, whether the claim of the record succeeded or not, the sweep reports the falsified claim, and no
  tier of that name is chosen again for work that requires resuming.
\<close>

theorem refuted_resume_keeps_bytes:
  assumes "sweep_layer R D J S" "en_store (ha_env A) = J" "en_ranges (ha_env A) = R" "en_docs (ha_env A) = D"
    and "so_load J (j_id rec) (w_store (sc_world sc)) = Inr rec" "restarted A S rec dl d n m sc = (e, sc')"
    and "CapResume \<in> set requires"
  shows "e \<noteq> None \<and> (\<exists>r'. so_load J (j_id rec) (w_store (sc_world sc')) = Inr r' \<and> CheckpointOf R D r' = CheckpointOf R D rec) \<and>
    (\<forall>d'. ForSpec H (sc_refuted sc') ds sp src requires = Some d' \<longrightarrow> dg_system d' \<noteq> d_system dl)"
proof -
  have ours: "sweep_layer.our_hand R D J A" using assms(2-4) by (simp add: sweep_layer.our_hand_def [OF assms(1)])
  have k: "e \<noteq> None \<and> (\<exists>r'. so_load J (j_id rec) (w_store (sc_world sc')) = Inr r' \<and> CheckpointOf R D r' = CheckpointOf R D rec) \<and>
      (dg_system d' = d_system dl \<longrightarrow> \<not> eligible H (sc_refuted sc') d' sp src requires)" for d'
    using sweep_layer.restarted_keeps_bytes [OF assms(1) ours assms(5,6)] assms(7) by blast
  with ForSpec_Some [of H "sc_refuted sc'" ds sp src requires] show ?thesis by blast
qed

lemma refuted_resume_keeps_bytes_witness:
  "\<exists>r'. so_load map_ops ''j1'' (w_store (sc_world (snd caught_demo))) = Inr r' \<and>
    CheckpointOf ref_ranges ref_docs r' = CheckpointOf ref_ranges ref_docs (handed_record ''r'') \<and>
    ForSpec (na_hosts map_nas) (sc_refuted (snd caught_demo)) [box_tier arrived] (demo_spec None) demo_source [CapResume] = None"
proof -
  have s: "restarted (box_hand arrived) demo_sup (handed_record ''r'') \<lparr>d_system = ''nas'', d_external = ''r'', d_delivered = False\<rparr>
      (box_tier arrived) 2 1 (box_scene (handed_record ''r'')) = (fst caught_demo, snd caught_demo)" by (simp add: caught_demo_def)
  have at: "so_load map_ops (j_id (handed_record ''r'')) (w_store (sc_world (box_scene (handed_record ''r'')))) = Inr (handed_record ''r'')"
    "j_id (handed_record ''r'') = ''j1''"
    by (simp_all add: box_scene_def map_ops_def handed_record_def demo_record_def)
  have "e \<noteq> None \<and> (\<exists>r'. so_load map_ops (j_id (handed_record ''r'')) (w_store (sc_world (snd caught_demo))) = Inr r' \<and>
       CheckpointOf ref_ranges ref_docs r' = CheckpointOf ref_ranges ref_docs (handed_record ''r'')) \<and>
    (\<forall>d'. ForSpec (na_hosts map_nas) (sc_refuted (snd caught_demo)) [box_tier arrived] (demo_spec None) demo_source [CapResume] = Some d' \<longrightarrow>
       dg_system d' \<noteq> ''nas'')" if "e = fst caught_demo" for e
    using refuted_resume_keeps_bytes [OF demo_layer _ _ _ at(1) s, of "[CapResume]" "na_hosts map_nas" "[box_tier arrived]" "demo_spec None" demo_source] that
    by simp
  moreover have "d' = box_tier arrived \<Longrightarrow> dg_system d' = ''nas''" for d' by (simp add: box_tier_def)
  ultimately show ?thesis using ForSpec_Some [of "na_hosts map_nas" _ "[box_tier arrived]"] at(2)
    by (metis (no_types, opaque_lifting) empty_iff empty_set not_None_eq set_ConsD)
qed

text \<open>
  Two parties declare what a delegate may be given: the person who installed it and the delegate itself.
  Whenever \<open>And\<close> yields a declaration, that one permits exactly the jobs both permit, on every axis at once:
  neither party can loosen the other, and nothing that both allow is lost.
\<close>

theorem both_declarations_bind:
  assumes "And shown d od = (r, None)"
  shows "permits H r sp \<longleftrightarrow> permits H d sp \<and> permits H od sp"
  by (rule And_permits [OF assms])

lemma both_declarations_bind_witness:
  "\<exists>r. And concat \<lparr>dc_hosts = HostAny, dc_min = 0, dc_max = 10, dc_digests = [''sha256'', ''sha512'']\<rparr>
        \<lparr>dc_hosts = HostRoutable, dc_min = 1, dc_max = 0, dc_digests = [''sha256'']\<rparr> = (r, None) \<and>
      permits (na_hosts map_nas) r (demo_spec None)"
proof -
  let ?d = "\<lparr>dc_hosts = HostAny, dc_min = 0, dc_max = 10, dc_digests = [''sha256'', ''sha512'']\<rparr>"
  let ?o = "\<lparr>dc_hosts = HostRoutable, dc_min = 1, dc_max = 0, dc_digests = [''sha256'']\<rparr>"
  have "snd (And concat ?d ?o) = None" by code_simp
  then obtain r where r: "And concat ?d ?o = (r, None)" by (metis prod.collapse)
  have s: "a_size (sp_artifact (demo_spec None)) = 3" "takeWhile (\<lambda>c. c \<noteq> CHR '':'') (a_digest (sp_artifact (demo_spec None))) = ''sha256''"
    by code_simp+
  then have "permits (na_hosts map_nas) ?d (demo_spec None)" "permits (na_hosts map_nas) ?o (demo_spec None)"
    by (simp_all add: permits_def HostAny_def HostRoutable_def ThisMachine_def list_ex_iff)
  with both_declarations_bind [OF r] r show ?thesis by blast
qed

text \<open>
  The choice of a delegate and the explanation of a refusal are two walks over the same list, and they
  agree: every delegate that offers the scheme and was passed over is named with a reason, no eligible
  one is, and the choice fails only when there is nobody to choose.
\<close>

theorem passed_over_for_a_reason:
  "map fst (WhyNot H db ds sp src requires) =
     map dg_system (filter (\<lambda>x. s_scheme src \<in> set (dg_schemes x) \<and> \<not> eligible H db x sp src requires) ds) \<and>
   list_all (\<lambda>r. snd r \<noteq> []) (WhyNot H db ds sp src requires) \<and>
   (ForSpec H db ds sp src requires = None \<longleftrightarrow> \<not> list_ex (\<lambda>d. eligible H db d sp src requires) ds)"
proof (intro conjI)
  show "list_all (\<lambda>r. snd r \<noteq> []) (WhyNot H db ds sp src requires)"
    by (auto simp: list_all_iff WhyNot_def Let_def split: if_splits)
qed (auto simp: WhyNot_systems ForSpec_None_iff list_ex_iff)

text \<open>
  One unreachable delegate must not stop the others, and must not vanish. The sweep visits every delegated
  download that was not delivered, once and in order, terminal or not; it counts the ones that came to no
  error and reports the others by name. A job whose delegate is not of this program is neither counted nor
  reported, for its record already says so.
\<close>

theorem reconcile_sweep_reports:
  assumes "readable answer = (rs, unread, None)" "xs = chosen (\<lambda>_. undelivered) 0 rs"
  shows "ReconcileAll (noted ans) answer [] =
     ((length (filter (\<lambda>x. ans (fst x) = None) xs),
       join_errs (unread # map (sweep_error ans) (filter (\<lambda>x. is_report (ans (fst x))) xs))), map snd xs)"
  by (rule ReconcileAll_noted [OF assms])

lemma reconcile_sweep_reports_witness:
  "ReconcileAll (noted (\<lambda>k. if k = 1 then Some (Var ErrRefused) else if k = 2 then Some (Var ErrStrandedHere) else None))
     ([demo_record None, handed_record ''r'', (handed_record ''s'')\<lparr>j_id := ''j2''\<rparr>, (handed_record ''t'')\<lparr>j_id := ''j3''\<rparr>], None) [] =
   ((1, Some (Joined [Errorf [Str ''j1'', Lit '': '', Err (Var ErrRefused)]])), [''j1'', ''j2'', ''j3''])"
proof -
  let ?rs = "[demo_record None, handed_record ''r'', (handed_record ''s'')\<lparr>j_id := ''j2''\<rparr>, (handed_record ''t'')\<lparr>j_id := ''j3''\<rparr>]"
  have c: "[(1, ''j1''), (2, ''j2''), (3, ''j3'')] = chosen (\<lambda>_. undelivered) 0 ?rs" by code_simp
  have r: "readable (?rs, None) = (?rs, None, None)" by (simp add: readable_def)
  from reconcile_sweep_reports [OF r c, of "\<lambda>k. if k = 1 then Some (Var ErrRefused) else if k = 2 then Some (Var ErrStrandedHere) else None"]
  show ?thesis by (simp add: join_errs_def sweep_error_def is_report_def)
qed

text \<open>
  What the code does where its comment promises more. Cancelling a job that the machine behind the share is
  working on cannot claim the record there, for that machine holds its lease; the delegate then answers that
  the work is abandoned, and nothing in the shared store has changed: the record there is neither cancelled
  nor asked to stop. The files of the job have been removed under it.
\<close>

theorem cancel_leaves_the_share_running:
  assumes "so_load (na_store N) ext (w_store x) = Inr rec" "\<not> terminal_state (j_state rec)"
    and "so_claim (na_store N) ext (na_owner N) (w_store x) = (Inl y, w_store x)"
  shows "fst (nas_abandon N ext x) = None \<and> so_load (na_store N) ext (w_store (snd (nas_abandon N ext x))) = Inr rec"
  using nas_abandon_leased [OF assms] assms(1) by auto

lemma cancel_leaves_the_share_running_witness:
  "fst (nas_abandon map_nas ''r'' (far_world [(''r'', far_record StateRunning)])) = None \<and>
    so_load shared_ops ''r'' (w_store (snd (nas_abandon map_nas ''r'' (far_world [(''r'', far_record StateRunning)])))) = Inr (far_record StateRunning)"
proof -
  let ?x = "far_world [(''r'', far_record StateRunning)]"
  have l: "so_load (na_store map_nas) ''r'' (w_store ?x) = Inr (far_record StateRunning)"
    by (simp add: far_world_def shared_load)
  have c: "so_claim (na_store map_nas) ''r'' (na_owner map_nas) (w_store ?x) = (Inl lease_held, w_store ?x)"
    by (simp add: far_world_def shared_ops_def on_map_def map_ops_def far_record_def demo_record_def)
  from cancel_leaves_the_share_running [OF l _ c] show ?thesis by (simp add: far_record_def)
qed

text \<open>
  Repeating a command is one piece of work. Where the list holds an unfinished download of the same destination
  and first source, \<open>Submit\<close> creates no record, and if it answers a handle it is for the finished record that
  already delivered these bytes there, or for listed work that is the same.
\<close>

theorem submit_joins_work_in_flight:
  assumes "submission J X" "cl_store K = J" "client_Submit K sp requires c = (x, c')" "intoStorage K sp = Inr sp1"
    and "inFlight K (ct_world c) (alreadyHere K (ct_world c) sp1) \<noteq> []"
  shows "(recorded J k (ct_store c') \<longrightarrow> recorded J k (ct_store c)) \<and>
    (x = Inr jid \<longrightarrow> jid = delivered K (ct_world c) (alreadyHere K (ct_world c) sp1) \<or>
      (\<exists>rec\<in>set (fst (cl_listed K (ct_store c))). same_work K (cl_volume K (ct_files c)) (alreadyHere K (ct_world c) sp1) rec \<and> j_id rec = jid))"
  using submission.Submit_in_flight [OF assms] inFlight_finds [OF refl assms(5)] by blast

lemma submit_joins_work_in_flight_witness:
  "\<exists>rec\<in>set (fst (cl_listed (demo_client ExecuteHere) (ct_store (new_client (\<lambda>_. None) [at_final StateRunning ''j'' ''/srv/a.part'' ''/srv/a''])))).
    j_id rec = ''j'' \<and> fst (client_Submit (demo_client ExecuteHere) (want_spec ''/srv/a'') [] (new_client (\<lambda>_. None) [at_final StateRunning ''j'' ''/srv/a.part'' ''/srv/a''])) = Inr ''j''"
proof -
  let ?K = "demo_client ExecuteHere" and ?c = "new_client (\<lambda>_. None) [at_final StateRunning ''j'' ''/srv/a.part'' ''/srv/a'']"
  obtain x c' where r: "client_Submit ?K (want_spec ''/srv/a'') [] ?c = (x, c')" by (rule prod.exhaust)
  have "fst (client_Submit ?K (want_spec ''/srv/a'') [] ?c) = Inr ''j''" by code_simp
  with r have x: "x = Inr ''j''" by simp
  have here: "intoStorage ?K (want_spec ''/srv/a'') = Inr (want_spec ''/srv/a'')" by (simp add: intoStorage_def demo_client_def)
  have same: "alreadyHere ?K (ct_world ?c) (want_spec ''/srv/a'') = want_spec ''/srv/a''"
    by (simp add: alreadyHere_def want_spec_def plain_spec_def)
  have busy: "inFlight ?K (ct_world ?c) (want_spec ''/srv/a'') \<noteq> []" and del: "delivered ?K (ct_world ?c) (want_spec ''/srv/a'') \<noteq> ''j''"
    by code_simp+
  from submit_joins_work_in_flight [OF shared_submission _ r here, of "[]" "''j''"] busy del x r show ?thesis by (auto simp: same)
qed

text \<open>
  A wait without an error is good news or a cancellation: the record it hands back is the one stored at that
  moment, and it is complete, cancelled, or transferred with its delivery taken by somebody else. A failed or
  abandoned job is never an answer without an error.
\<close>

theorem wait_reports_what_is_stored:
  assumes "store_layer J" "cl_store K = J" "Deliver K jid ns s = Some ((shown, None), s')"
  shows "\<exists>rec. shown = Some rec \<and> so_load J jid s' = Inr rec \<and> j_state rec \<in> {StateComplete, StateTransferred, StateCancelled}"
  by (rule store_layer.Deliver_Inr [OF assms])

lemma wait_reports_what_is_stored_witness:
  "\<exists>rec s'. Deliver (demo_client ExecuteHere) ''j'' [(Inr False, \<lambda>s. s)]
      (ct_store (new_client (\<lambda>_. None) [at_final StateTransferred ''j'' ''/srv/a.part'' ''/srv/a''])) = Some ((Some rec, None), s') \<and>
    so_load shared_ops ''j'' s' = Inr rec \<and> j_state rec \<in> {StateComplete, StateTransferred, StateCancelled}"
proof -
  let ?run = "Deliver (demo_client ExecuteHere) ''j'' [(Inr False, \<lambda>s. s)]
      (ct_store (new_client (\<lambda>_. None) [at_final StateTransferred ''j'' ''/srv/a.part'' ''/srv/a'']))"
  have "map_option (snd \<circ> fst) ?run = Some None" by code_simp
  then obtain shown s' where r: "?run = Some ((shown, None), s')" by (cases ?run) auto
  from wait_reports_what_is_stored [OF shared_store_layer _ r] r show ?thesis by auto
qed

text \<open>
  What a person is told before a transfer continues. If any bytes are reported as held, the partial file is there;
  every byte before the offset announced is claimed by the checkpoint and inside the file; the bytes held
  are exactly the claimed ones inside the file; and what is discarded is part of the file.
\<close>

theorem resume_numbers_are_honest:
  assumes "range_layer (cl_ranges K)" "SpecOf (cl_docs K) rec = Inr sp" "CheckpointOf (cl_ranges K) (cl_docs K) rec = Inr cp" "checkpoint_wf cp"
    and "resumeFrom K fs rec = (from, kept, discarded)" "0 < kept"
  shows "\<exists>content. fs (partial_for K (j_id rec) (sp_sink sp)) = Some (File content) \<and>
    {0..<from} \<subseteq> claimed cp \<inter> {..<int (length content)} \<and> kept = int (card (claimed cp \<inter> {..<int (length content)})) \<and>
    from \<le> kept \<and> 0 \<le> discarded \<and> discarded \<le> int (length content)"
  by (rule range_layer.resumeFrom_honest [OF assms(1) refl assms(2-6)])

lemma resume_numbers_are_honest_witness:
  "\<exists>rec sp from kept discarded content. SpecOf ref_docs rec = Inr sp \<and>
     resumeFrom (demo_client ExecuteHere) [''/srv/a.part'' \<mapsto> File ''abcde''] rec = (from, kept, discarded) \<and> (from, kept, discarded) = (0, 2, 1) \<and>
     [''/srv/a.part'' \<mapsto> File ''abcde''] (partial_for (demo_client ExecuteHere) (j_id rec) (sp_sink sp)) = Some (File content) \<and> discarded \<le> int (length content)"
proof -
  let ?rec = "(at_final StateRunning ''j'' ''/srv/a.part'' ''/srv/a'')\<lparr>j_checkpoint := CkDoc 0 no_validators (Some [Range 2 4]), j_content := [ref_feature]\<rparr>"
  let ?sp = "(want_spec ''/srv/a'')\<lparr>sp_sink := \<lparr>k_partial = ''/srv/a.part'', k_final = ''/srv/a''\<rparr>\<rparr>"
  let ?cp = "\<lparr>c_prefix = 0, c_validators = no_validators, c_verified = [Range 2 4]\<rparr>"
  let ?K = "demo_client ExecuteHere"
  have layer: "range_layer (cl_ranges ?K)" by (simp add: range_layer_ref)
  have sp: "SpecOf (cl_docs ?K) ?rec = Inr ?sp" by (simp add: SpecOf_def at_final_def new_record_def ref_docs_def)
  have cp: "CheckpointOf (cl_ranges ?K) (cl_docs ?K) ?rec = Inr ?cp" by code_simp
  have wf: "checkpoint_wf ?cp" by (simp add: checkpoint_wf_def)
  have run: "resumeFrom ?K [''/srv/a.part'' \<mapsto> File ''abcde''] ?rec = (0, 2, 1)" by code_simp
  have "0 < (2::int)" by simp
  from resume_numbers_are_honest [OF layer sp cp wf run this] obtain content where
    "[''/srv/a.part'' \<mapsto> File ''abcde''] (partial_for ?K (j_id ?rec) (sp_sink ?sp)) = Some (File content)" "1 \<le> int (length content)"
    by (elim exE conjE) (rule that)
  moreover have "SpecOf ref_docs ?rec = Inr ?sp" using sp by (simp only: demo_client_fields)
  ultimately show ?thesis using run by (intro exI conjI) (assumption | rule refl)+
qed

text \<open>
  The scan by destination is blind inside the store. It resolves the sink of every record on behalf of no job, and
  the work area, where \<open>PartialFor\<close> puts the partial of a relative destination, is reserved against no job:
  no such record is found, unfinished or complete. The witness shows what follows: the file of a
  complete record is there, and a second download of it is started.
\<close>

theorem relative_destinations_are_missed:
  assumes "\<forall>rec\<in>set (fst (cl_listed K (w_store w))). \<exists>sp. SpecOf (cl_docs K) rec = Inr sp \<and>
      (\<exists>jid. k_partial (sp_sink sp) = ''work/'' @ jid \<and> nm_reserved (cl_names K) [] (''work/'' @ jid))"
    and "final_for K [] sk \<noteq> []"
  shows "recordsFor K w sk = (None, None)"
  by (rule recordsFor_work [OF assms])

lemma relative_destinations_are_missed_witness:
  "let c = new_client [''/srv/a'' \<mapsto> File ''abc''] [at_final StateComplete ''j'' ''work/j'' ''a''] in
    recordsFor (demo_client ExecuteHere) (ct_world c) (sp_sink (want_spec ''a'')) = (None, None) \<and>
    destinationExists (demo_client ExecuteHere) (ct_files c) (at_final StateComplete ''j'' ''work/j'' ''a'') \<and>
    map_sum id (\<lambda>x. (fst x, oc_decision (snd x))) (fst (ResumeOrSubmit (demo_client ExecuteHere) (want_spec ''a'') [] c))
      = Inr (''dest-aaaaaaaaaaaaaaaa'', Submitted)"
proof -
  let ?c = "new_client [''/srv/a'' \<mapsto> File ''abc''] [at_final StateComplete ''j'' ''work/j'' ''a'']"
  have "\<forall>rec\<in>set (fst (cl_listed (demo_client ExecuteHere) (ct_store ?c))). \<exists>sp. SpecOf (cl_docs (demo_client ExecuteHere)) rec = Inr sp \<and>
      (\<exists>jid. k_partial (sp_sink sp) = ''work/'' @ jid \<and> nm_reserved (rc_names (cl_conf (demo_client ExecuteHere))) [] (''work/'' @ jid))"
    by (simp add: demo_client_def new_client_def at_final_def new_record_def SpecOf_def ref_docs_def shared_conf_def work_names_def)
  moreover have "final_for (demo_client ExecuteHere) [] (sp_sink (want_spec ''a'')) \<noteq> []" by code_simp
  ultimately have "recordsFor (demo_client ExecuteHere) (ct_world ?c) (sp_sink (want_spec ''a'')) = (None, None)"
    by (rule relative_destinations_are_missed)
  moreover have "destinationExists (demo_client ExecuteHere) (ct_files ?c) (at_final StateComplete ''j'' ''work/j'' ''a'')" by code_simp
  moreover have "map_sum id (\<lambda>x. (fst x, oc_decision (snd x))) (fst (ResumeOrSubmit (demo_client ExecuteHere) (want_spec ''a'') [] ?c))
      = Inr (''dest-aaaaaaaaaaaaaaaa'', Submitted)" by code_simp
  ultimately show ?thesis by (simp add: Let_def)
qed

text \<open>
  \<open>SamePath\<close> asks the directory to demonstrate its folding only for names that could fold. For a volume on which
  names are one when their keys are, and ASCII names only by the case of their letters, the answer is the same
  as asking about every pair of names.
\<close>

theorem path_filter_is_harmless: "volume F name_key \<Longrightarrow> same_up F da db = plain_up F da db"
  by (rule volume.same_up_plain)

lemma path_filter_is_harmless_witness:
  "SamePath folding_fs ''a/B'' ''A/b'' \<and> same_up folding_fs [''B'', ''a'', ''home''] [''b'', ''A'', ''home''] = plain_up folding_fs [''B'', ''a'', ''home''] [''b'', ''A'', ''home'']"
proof
  show "SamePath folding_fs ''a/B'' ''A/b''" by code_simp
  show "same_up folding_fs [''B'', ''a'', ''home''] [''b'', ''A'', ''home''] = plain_up folding_fs [''B'', ''a'', ''home''] [''b'', ''A'', ''home'']"
    by (rule path_filter_is_harmless [OF folding_volume])
qed

text \<open>
  The limit plus one is computed in 64 bits. With the largest limit the sum is negative, the reader it bounds
  ends at once, and every member that can be opened is reported as written, with no error, nothing having
  been delivered.
\<close>

theorem largest_limit_delivers_nothing:
  assumes "archive_find loc es name = Inr f" "ze_declared f \<le> max_int64" "ze_open f = Inr b"
  shows "archive_Member loc es out name max_int64 = ((0, None), [])"
  by (rule Member_largest_limit [OF assms])

lemma largest_limit_delivers_nothing_witness:
  "archive_Member ''/z'' bomb (\<lambda>_ c. (length c, None)) ''a'' max_int64 = ((0, None), [])"
  by (rule largest_limit_delivers_nothing [of _ _ _ "hd bomb" "\<lparr>bd_chunks = [''abcd'', ''efgh''], bd_end = None\<rparr>"])
    (simp_all add: archive_find_def bomb_def max_int64_def)

definition demo_mismatch :: "err option \<times> ref_doc map_store world" where
  "demo_mismatch = run_end (demo_conf None) demo_env demo_io demo_deliver demo_events (demo_claimed None)
     (demo_spec None, ''/srv/work/j1'', ''/srv/a'', False)
     ((3, ''sha256:'' @ replicate 64 (CHR ''b''), no_validators, None),
      demo_claimed_world\<lparr>w_files := [''/srv/work/j1'' \<mapsto> File ''xyz'']\<rparr>, None)"

text \<open>
  Wrong bytes are neither delivered nor resumed onto. A transfer of the right length with the wrong digest
  ends in \<open>ErrDigestMismatch\<close> and leaves the final path alone; where nothing refused the withdrawal, the
  partial is gone, the record claims no byte, and whatever file a successor finds it plans from zero.
\<close>

theorem wrong_bytes_restart:
  assumes "run_layer R D J" "en_ranges E = R" "en_docs E = D" "en_store E = J"
    and "rv_fence ev = None" "asked_of ev asks = None"
    and "a_size (sp_artifact sp) \<le> 0 \<or> whole = a_size (sp_artifact sp)"
    and "a_digest (sp_artifact sp) \<noteq> []" "\<not> sameDigest (rc_low C) dg (a_digest (sp_artifact sp))"
    and "run_end C E io dv ev rec (sp, partial, final, gate) ((whole, dg, seen, None), w, asks) = (e, w')"
  shows "(\<exists>y. e = Some y \<and> err_is y ErrDigestMismatch) \<and> (final \<noteq> partial \<longrightarrow> w_files w' final = w_files w final) \<and>
    (e = Some (Joined [mismatch (0 < p_done (j_progress rec)) dg (a_digest (sp_artifact sp))]) \<longrightarrow>
      w_files w' partial = None \<and>
      (\<exists>r. so_load J (en_id E) (w_store w') = Inr r \<and> p_done (j_progress r) = 0 \<and> CheckpointOf R D r = Inr no_checkpoint \<and>
        (\<forall>st sz. planResume R partial st no_checkpoint sz = Inr (fresh_plan R sz))))"
  using run_layer.mismatch_restarts [OF assms] by blast

lemma wrong_bytes_restart_witness:
  "\<exists>r. so_load map_ops ''j1'' (w_store (snd demo_mismatch)) = Inr r \<and> CheckpointOf ref_ranges ref_docs r = Inr no_checkpoint \<and>
    w_files (snd demo_mismatch) ''/srv/work/j1'' = None \<and> w_files (snd demo_mismatch) ''/srv/a'' = None"
proof -
  let ?dg = "''sha256:'' @ replicate 64 (CHR ''b'')"
  have bad: "\<not> sameDigest (rc_low (demo_conf None)) ?dg (a_digest (sp_artifact (demo_spec None)))" by code_simp
  have e: "fst demo_mismatch = Some (Joined [mismatch False ?dg (a_digest (sp_artifact (demo_spec None)))])" by code_simp
  have f: "w_files (snd demo_mismatch) ''/srv/a'' = None" by code_simp
  have r: "run_end (demo_conf None) demo_env demo_io demo_deliver demo_events (demo_claimed None)
      (demo_spec None, ''/srv/work/j1'', ''/srv/a'', False)
      ((3, ?dg, no_validators, None), demo_claimed_world\<lparr>w_files := [''/srv/work/j1'' \<mapsto> File ''xyz'']\<rparr>, None) =
      (fst demo_mismatch, snd demo_mismatch)" by (simp add: demo_mismatch_def)
  from wrong_bytes_restart [OF run_layer_ref _ _ _ _ _ _ _ bad r] e f show ?thesis
    by (auto simp: demo_env_def demo_events_def asked_of_def demo_spec_def demo_claimed_def demo_record_def)
qed

text \<open>
  What a failed attempt reached is kept and never taken back: after \<open>keepProven\<close> the record's progress is at
  least what it was, and if it moved, it is the prefix offered and the checkpoint claims exactly its
  bytes.
\<close>

theorem kept_prefix_never_shrinks:
  assumes "run_layer R D J" "so_load J jid s = Inr r" "l_epoch (j_lease r) = ep"
  shows "\<exists>r'. so_load J jid (keepProven R D J now jid ep prefx seen s) = Inr r' \<and>
    p_done (j_progress r) \<le> p_done (j_progress r') \<and> j_state r' = j_state r \<and>
    (r' = r \<or> p_done (j_progress r') = prefx \<and>
      (\<exists>rs. CheckpointOf R D r' = Inr \<lparr>c_prefix = ro_prefix R rs, c_validators = seen, c_verified = rs\<rparr> \<and> bytes_of rs = {0..<prefx}))"
  by (rule run_layer.keepProven_record [OF assms])

lemma kept_prefix_never_shrinks_witness:
  "\<exists>r. so_load map_ops ''j1'' (keepProven ref_ranges ref_docs map_ops 9 ''j1'' 1 7 no_validators (w_store demo_claimed_world)) = Inr r \<and>
    p_done (j_progress r) = 7"
proof -
  have l: "so_load map_ops ''j1'' (w_store demo_claimed_world) = Inr (demo_claimed None)"
    by (simp add: map_ops_def demo_claimed_world_def)
  have e: "l_epoch (j_lease (demo_claimed None)) = 1" by (simp add: demo_claimed_def)
  have n: "(case so_load map_ops ''j1'' (keepProven ref_ranges ref_docs map_ops 9 ''j1'' 1 7 no_validators (w_store demo_claimed_world)) of
      Inr r \<Rightarrow> p_done (j_progress r) = 7 | Inl _ \<Rightarrow> False)" by code_simp
  from kept_prefix_never_shrinks [OF run_layer_ref l e, of 9 7 no_validators] n show ?thesis by auto
qed

text \<open>
  A source nobody here can fetch ends the job for a mirror that merely dropped the connection. \<open>fetch\<close> keeps
  the earlier error where a later refusal would hide a failure that may pass (\<open>preferred\<close>), but not where
  the later source has no fetcher: then the answer is permanent, whatever came before.
\<close>

theorem unserved_source_hides_retryable:
  assumes "op_allows V k = None" "For (op_fetchers V) src (op_requires V) = None" "\<not> Permanent old"
  shows "\<exists>e. snd (snd (fst (fetch_from E V seek rolling k [src] (Some old) x))) = Some e \<and> Permanent e \<and>
    preferred (Some old) e = Some old"
  using assms noFetcherFor_class by (auto simp: stopped_def preferred_def)

definition demo_broken :: "fetch_fun open_env" where
  "demo_broken = (demo_open [])\<lparr>op_fetchers := [(demo_fetcher [])\<lparr>fe_fetch := (\<lambda>k rq. ([], 0, Some (Plain ''connection reset'')))\<rparr>]\<rparr>"

definition demo_mirrors :: "source list" where
  "demo_mirrors = [\<lparr>s_scheme = ''https'', s_locator = ''https://h/a'', s_attrs = [], s_headers = [], s_priority = 0\<rparr>,
     \<lparr>s_scheme = ''ftp'', s_locator = ''ftp://h/a'', s_attrs = [], s_headers = [], s_priority = 1\<rparr>]"

lemma unserved_source_hides_retryable_witness:
  "\<exists>e. snd (snd (fst (fetch_from demo_env demo_broken (\<lambda>_. None) True 0 demo_mirrors None
      (start_xfer [] [] (fresh_plan ref_ranges 3) (w_store demo_claimed_world))))) = Some e \<and> Permanent e"
proof -
  let ?x = "start_xfer [] [] (fresh_plan ref_ranges 3) (w_store demo_claimed_world)"
  let ?y = "fold_landed demo_env 0 (callbacks demo_env True [] (open_source ?x))"
  let ?old = "Errorf [Lit ''source '', Str ''https'', Lit '': '', Err (Plain ''connection reset'')]"
  have lost: "x_lost ?y = None" by (simp add: callbacks_def open_source_def start_xfer_def fold_landed_def split: sum.split)
  have step: "fetch_from demo_env demo_broken (\<lambda>_. None) True 0 demo_mirrors None ?x =
      fetch_from demo_env demo_broken (\<lambda>_. None) True (Suc 0) [demo_mirrors ! 1] (Some ?old) ?y"
    using lost by (simp add: demo_mirrors_def demo_broken_def demo_open_def demo_fetcher_def For_def serves_def hasAll_def
        is_cancel_def err_is_foreign_def preferred_def Let_def del: fetch_from.simps(1))
  have "For (op_fetchers demo_broken) (demo_mirrors ! 1) (op_requires demo_broken) = None" "op_allows demo_broken (Suc 0) = None"
    by (simp_all add: demo_mirrors_def demo_broken_def demo_open_def demo_fetcher_def For_def serves_def)
  from unserved_source_hides_retryable [OF this(2,1), of ?old demo_env "\<lambda>_. None" True ?y]
  show ?thesis unfolding step by (auto simp: Permanent_Errorf)
qed

text \<open>
  Only a recorded failure waits, and its wait is bounded: fifteen seconds after the first claim, doubled by
  every further one, up to fifteen minutes and never past them.
\<close>

theorem failure_backs_off:
  "case RetryAfter r t of
     None \<Rightarrow> LastFailure r = None
   | Some u \<Rightarrow> LastFailure r \<noteq> None \<and> u = t + min RetryMax (RetryDelay * 2 ^ nat (l_epoch (j_lease r) - 1)) \<and>
       t + RetryDelay \<le> u \<and> u \<le> t + RetryMax"
  using retry_bounds [of "nat (l_epoch (j_lease r) - 1)"] by (simp add: RetryAfter_wait)

text \<open>
  One bad job does not stop the rest and does not disappear. A sweep runs every record it may adopt, once
  and in the order of the list, whatever the runs before it came to; it counts those that ended without
  an error, and returns the failure of every other one under the name of its job. A wait is neither.
\<close>

theorem sweep_runs_each_once:
  assumes "readable answer = (rs, unread, None)"
    and "xs = chosen (\<lambda>k r. adoptable C D (network k) (now k) (updated r) r) 0 rs"
  shows "Adopt C D network now updated (logged ans) answer [] =
     Some ((length (filter (\<lambda>x. ans (fst x) = None) xs),
       join_errs (unread # map (sweep_error ans) (filter (\<lambda>x. is_failure (ans (fst x))) xs))), map snd xs)"
  by (rule Adopt_logged [OF assms])

definition demo_delegated :: "ref_doc job_record" where
  "demo_delegated = (demo_record None)\<lparr>j_id := ''j2'', j_delegation := Some \<lparr>d_system = ''nas'', d_external = ''7'', d_delivered = False\<rparr>\<rparr>"

lemma sweep_runs_each_once_witness:
  "Adopt (demo_conf None) ref_docs (\<lambda>_. None) (\<lambda>_. 0) (\<lambda>_. 0) (logged (\<lambda>k. if k = 0 then Some (Var ErrRefused) else None))
     ([demo_record None, demo_delegated, (demo_record None)\<lparr>j_id := ''j3''\<rparr>], None) [] =
   Some ((1, Some (Joined [Errorf [Str ''j1'', Lit '': '', Err (Var ErrRefused)]])), [''j1'', ''j3''])"
proof -
  let ?rs = "[demo_record None, demo_delegated, (demo_record None)\<lparr>j_id := ''j3''\<rparr>]"
  have c: "[(0, ''j1''), (2, ''j3'')] =
      chosen (\<lambda>k r. adoptable (demo_conf None) ref_docs ((\<lambda>_. None) k) ((\<lambda>_. 0) k) ((\<lambda>_. 0) r) r) 0 ?rs" by code_simp
  have r: "readable (?rs, None) = (?rs, None, None)" by (simp add: readable_def)
  from sweep_runs_each_once [OF r c, of "\<lambda>k. if k = 0 then Some (Var ErrRefused) else None"] show ?thesis
    by (simp add: join_errs_def sweep_error_def is_failure_def)
qed

text \<open>
  A sweep acknowledges and does nothing else. No record is touched whose file has the wrong size or whose bytes
  a delegate still holds; of those it takes, only the state moves, from transferred to complete, and the
  lease; no file is touched.
\<close>

theorem sweep_takes_what_arrived:
  assumes "store_layer J" "readable listed = (rs, unread, None)"
    and "TakeDeliveryAll C D J who listed w = ((n, e), w')"
  shows "(\<forall>k. (\<forall>r\<in>set rs. takeable C D (w_files w) r \<longrightarrow> j_id r \<noteq> k) \<longrightarrow> so_load J k (w_store w') = so_load J k (w_store w)) \<and>
    (\<forall>k r. so_load J k (w_store w) = Inr r \<longrightarrow>
      (\<exists>l st. so_load J k (w_store w') = Inr (r\<lparr>j_state := st, j_lease := l\<rparr>) \<and>
        (st = j_state r \<or> j_state r = StateTransferred \<and> st = StateComplete))) \<and>
    n \<le> length (filter (takeable C D (w_files w)) rs) \<and> w_files w' = w_files w"
proof -
  obtain s' where t: "take_from C D J who (w_files w) rs 0 (w_store w) = (n, s')" "w' = w\<lparr>w_store := s'\<rparr>"
    using assms(2,3) by (auto simp: TakeDeliveryAll_def split: prod.splits)
  show ?thesis
    using store_layer.take_from_frame [OF assms(1) t(1)] store_layer.take_from_state [OF assms(1) t(1)] t(2)
    by (intro conjI allI impI) simp_all
qed

definition demo_arrived :: "ref_doc map_store world" where
  "demo_arrived = \<lparr>w_files = [''/srv/a'' \<mapsto> File ''abc''],
     w_store = \<lparr>ms_records = (\<lambda>_. None)(''j1'' \<mapsto> (demo_record None)\<lparr>j_state := StateTransferred\<rparr>), ms_now = 1\<rparr>\<rparr>"

lemma sweep_takes_what_arrived_witness:
  "\<exists>l st. so_load map_ops ''j1'' (w_store (snd (TakeDeliveryAll (demo_conf None) ref_docs map_ops ''me''
      ([(demo_record None)\<lparr>j_state := StateTransferred\<rparr>], None) demo_arrived))) =
    Inr ((demo_record None)\<lparr>j_state := st, j_lease := l\<rparr>) \<and> st \<in> {StateTransferred, StateComplete}"
proof -
  let ?rs = "[(demo_record None)\<lparr>j_state := StateTransferred\<rparr>]"
  let ?x = "TakeDeliveryAll (demo_conf None) ref_docs map_ops ''me'' (?rs, None) demo_arrived"
  have r: "readable (?rs, None) = (?rs, None, None)" by (simp add: readable_def)
  have l: "so_load map_ops ''j1'' (w_store demo_arrived) = Inr ((demo_record None)\<lparr>j_state := StateTransferred\<rparr>)"
    by (simp add: map_ops_def demo_arrived_def)
  have x: "?x = ((fst (fst ?x), snd (fst ?x)), snd ?x)" by simp
  from sweep_takes_what_arrived [OF map_store_layer r x] l show ?thesis by fastforce
qed

text \<open>
  The gate keeps its constraint under every interleaving of notices, opens and the watcher: no open was
  allowed while the source reported a metered path, a tripped gate has cancelled the run, and from then
  on every open is refused, also after the path is free again.
\<close>

theorem tripped_gate_stays_shut:
  assumes "gate_step\<^sup>*\<^sup>* (gate_start c) g" "gate_step\<^sup>*\<^sup>* g g'"
  shows "Metered \<notin> set (gt_opened g') \<and> (gate_held (Some g) \<longrightarrow>
    gt_cancelled g \<and> gt_opened g' = gt_opened g \<and> fst (networkAllows (Some g')) = Some (Var ErrWaiting))"
proof -
  have "gate_inv g" "gate_inv g'"
    using gate_run_inv [OF assms(1) gate_inv_start] gate_run_inv [OF assms(2)] by blast+
  then show ?thesis
    using gate_shut [OF assms(2)] by (auto simp: gate_inv_def gate_held_def networkAllows_def)
qed

lemma tripped_gate_stays_shut_witness:
  "\<exists>g'. gate_step\<^sup>*\<^sup>* (gate_start Unmetered) g' \<and> fst (networkAllows (Some g')) = Some (Var ErrWaiting) \<and> gt_cost g' = Unmetered"
proof -
  let ?g = "(trip (gate_start Unmetered))\<lparr>gt_watching := False\<rparr>"
  have 1: "gate_step (gate_start Unmetered) ?g"
    using gate_step.told [of "gate_start Unmetered" Metered] by (simp add: gate_start_def)
  then have "gate_step\<^sup>*\<^sup>* (gate_start Unmetered) ?g" by blast
  from tripped_gate_stays_shut [OF this, of ?g] this show ?thesis
    by (intro exI [of _ ?g]) (simp add: gate_held_def trip_def gate_start_def)
qed

text \<open>
  What a caller branches on survives the record: after \<open>setFailure\<close> with an error whose text is
  UTF-8, \<open>LastFailure\<close> yields an error of the same class and the same text.
\<close>

theorem class_crosses_record:
  assumes "valid_utf8 (err_text qt e)"
  shows "\<exists>e'. LastFailure (setFailure qt (Some e) rr) = Some e' \<and> Permanent e' = Permanent e \<and>
    err_text qt e' = err_text qt e"
  using LastFailure_set [OF assms, of rr] by (cases "Permanent e") auto

lemma class_crosses_record_witness:
  "\<exists>e'. LastFailure (setFailure id (Some (Errorf [Err (Var ErrRefused), Lit '': gone''])) blank_record) = Some e' \<and>
    Permanent e' \<and> err_text id e' = ''download: the source refused: gone''"
  using class_crosses_record [of id "Errorf [Err (Var ErrRefused), Lit '': gone'']" blank_record]
  by (simp add: valid_utf8_ascii is_ascii_def Permanent_Errorf forever_def)

text \<open>
  The two endings do not survive a text that is not UTF-8. \<open>setFailure\<close> writes the bytes of the
  error into the payload, the reader refuses them, and \<open>LastFailure\<close> falls back to the bare sentence:
  a refusal this layer declares forever is read back as one worth trying again.
\<close>

theorem lossy_text_loses_class:
  assumes "\<not> valid_utf8 (err_text qt e)" "Permanent e"
  shows "\<exists>e'. LastFailure (setFailure qt (Some e) rr) = Some e' \<and> \<not> Permanent e'"
  using LastFailure_set_bad [OF assms(1), of rr] by simp

definition latin1_refusal :: err where
  "latin1_refusal = StatusError 404 True [Lit ''download: /caf'', Str [CHR 0xE9], Lit '': 404 Not Found'']"

lemma lossy_text_loses_class_witness:
  "\<exists>e'. LastFailure (setFailure id (Some latin1_refusal) blank_record) = Some e' \<and> \<not> Permanent e'"
proof (rule lossy_text_loses_class)
  show "\<not> valid_utf8 (err_text id latin1_refusal)"
    unfolding latin1_refusal_def err_text.simps by code_simp
qed (simp add: latin1_refusal_def)

text \<open>
  The class of an error is the class of what it wraps. A formatted error is permanent exactly when one
  of its \<open>%w\<close> operands is, a joined one when one of its members is; \<open>Terminal\<close> makes every error
  permanent without changing its cause's vocabulary; and the cause of any error is one of ten words.
\<close>

theorem wrapping_keeps_class:
  "(Permanent (Errorf ps) \<longleftrightarrow> (\<exists>p\<in>set ps. \<exists>e. part_err p = Some e \<and> Permanent e)) \<and>
   (Permanent (Joined es) \<longleftrightarrow> (\<exists>e\<in>set es. Permanent e)) \<and>
   (\<exists>t. Terminal (Some err0) = Some t \<and> Permanent t \<and> err_text qt t = err_text qt err0) \<and>
   CauseOf (Some err0) \<in> {''credential'', ''digest_mismatch'', ''oversize'', ''short_transfer'',
     ''unauthorized'', ''not_found'', ''refused'', ''server_error'', ''transport'', ''other''}"
  using Permanent_Errorf Permanent_Joined CauseOf_vocabulary [of err0] by (simp add: Terminal_def)

text \<open>
  A credential that was refused ends the job, and one whose applier could not answer does not:
  \<open>CredentialRefusal\<close> is permanent unless the outcome is \<open>unavailable\<close>, wrapped in anything, and its
  cause is \<open>credential\<close> either way.
\<close>

theorem credential_outcome_class:
  "(Permanent (CredentialRefusal n outcome) \<longleftrightarrow> outcome \<noteq> ''unavailable'') \<and>
   CauseOf (Some (CredentialRefusal n outcome)) = ''credential''"
  using CredentialRefusal_class CredentialRefusal_cause by simp

text \<open>
  The other half of containment: a relative path whose dots never climb above its start resolves under
  every absolute root, and to exactly the root followed by its cleaned elements.
\<close>

theorem inside_paths_resolve:
  assumes "plain_root root" "stays_from 0 (split_on slash (replace_char backslash slash p))"
    and "relativeEverywhere p" "p \<noteq> []"
  shows "\<exists>q. resolveUnder root p = Inr q \<and>
    abs_elems q = abs_elems root @ clean_elems True (split_on slash (replace_char backslash slash p))"
  using resolveUnder_stays [OF assms] .

lemma inside_paths_resolve_witness:
  "\<exists>q. resolveUnder ''/srv/dl'' ''a/../b'' = Inr q \<and>
    abs_elems q = abs_elems ''/srv/dl'' @ clean_elems True (split_on slash (replace_char backslash slash ''a/../b''))"
  by (rule inside_paths_resolve) code_simp+

text \<open>
  \<open>EscapesRoot\<close> is asked before a root is known and answers for one particular root. It accepts
  \<open>../probe/x\<close>, which every store whose directory is not called \<open>probe\<close> refuses, and rejects
  \<open>../store/x\<close>, which a store at \<open>/store\<close> accepts.
\<close>

theorem escape_check_depends_on_root:
  "EscapesRoot ''../probe/x'' = None \<and> (case resolveUnder ''/store'' ''../probe/x'' of Inl e \<Rightarrow> err_is e ErrEscapesRoot | Inr _ \<Rightarrow> False) \<and>
   EscapesRoot ''../store/x'' \<noteq> None \<and> resolveUnder ''/store'' ''../store/x'' = Inr ''/store/x''"
  by code_simp

text \<open>
  What \<open>MemberPath\<close> lets through: a relative name, not one of the store's own, whose cleaned form
  climbs nowhere, except for the names that climb and come back down through a directory called
  \<open>probe\<close>.
\<close>

theorem member_path_shape:
  assumes "MemberPath nm owner name = Inr q"
  shows "\<exists>k rest. clean_elems False (split_on slash (replace_char backslash slash (trim_suffix [slash]
        (replace_char backslash slash name)))) = replicate k dotdot @ rest \<and>
      (\<forall>w\<in>set rest. plain_elem w) \<and> (k = 0 \<or> (\<exists>rest'. rest = ''probe'' # rest'))"
  using MemberPath_Inr(1-3) [OF assms] EscapesRoot_shape by blast

lemma member_path_shape_witness:
  "\<exists>k rest. clean_elems False (split_on slash (replace_char backslash slash (trim_suffix [slash]
        (replace_char backslash slash ''docs/a.txt'')))) = replicate k dotdot @ rest \<and>
      (\<forall>w\<in>set rest. plain_elem w) \<and> (k = 0 \<or> (\<exists>rest'. rest = ''probe'' # rest'))"
proof (rule member_path_shape)
  show "MemberPath plain_names ''runner'' ''docs/a.txt'' = Inr ''docs/a.txt''" by code_simp
qed

text \<open>
  \<open>MemberPath\<close> returns a climbing path for a member called \<open>../probe/evil\<close>: joined to a directory, it
  names a place outside it. It also returns the drive-qualified \<open>C:/x\<close> for \<open>./C:/x\<close>.
\<close>

theorem member_path_escapes:
  "MemberPath plain_names ''runner'' ''../probe/evil'' = Inr ''../probe/evil'' \<and>
   path_clean (''/srv/out/'' @ ''../probe/evil'') = ''/srv/probe/evil'' \<and>
   MemberPath plain_names ''runner'' ''./C:/x'' = Inr ''C:/x''"
  by code_simp

text \<open>
  A submitted sink is stored in its portable spelling: the rewriting is idempotent, it never changes
  whether a path is relative or where a relative path resolves, and the partial beside it is relative
  exactly when the final is. The spec \<open>submitAs\<close> stores holds these spellings.
\<close>

theorem portable_spelling:
  "Portable (Portable p) = Portable p \<and> relativeEverywhere (Portable p) = relativeEverywhere p \<and>
   relativeEverywhere (PartialFor (Portable p) jid) = relativeEverywhere p \<and>
   (relativeEverywhere p \<longrightarrow> (resolveUnder root (Portable p) = Inr q \<longleftrightarrow> resolveUnder root p = Inr q)) \<and>
   (submitAs uni nm jid s = Inr (s', n) \<longrightarrow> k_final (sp_sink s') = Portable (k_final (sp_sink s)))"
  using Portable_idem relative_Portable relative_PartialFor resolveUnder_Portable submitAs_sink by simp

lemma portable_spelling_witness:
  "resolveUnder ''/srv'' (Portable (''a'' @ [backslash] @ ''b'')) = Inr ''/srv/a/b''"
  using portable_spelling [of "(''a'' @ [backslash] @ ''b'')" "[]" "''/srv''" "''/srv/a/b''"]
  by code_simp

text \<open>
  Digests are compared by what they mean: two spellings are the same digest exactly when their normal
  spellings agree and are not empty. Normalising twice is normalising once and changes no digest.
\<close>

theorem digests_by_meaning:
  "(sameDigest uni a b \<longleftrightarrow> NormalDigest uni a \<noteq> [] \<and> NormalDigest uni a = NormalDigest uni b) \<and>
   NormalDigest uni (NormalDigest uni a) = NormalDigest uni a \<and>
   bareHex uni (NormalDigest uni a) = bareHex uni a"
  using sameDigest_Normal NormalDigest_idem bareHex_Normal by blast

text \<open>
  \<open>RefuseDeepNesting\<close> counts brackets over bytes and never parses. On the text of any JSON value,
  brackets and escapes inside its strings included, it refuses exactly the values nested deeper than
  the limit.
\<close>

theorem nesting_is_depth:
  assumes "json_wf j"
  shows "RefuseDeepNesting (json_print j) = (if json_depth j \<le> SpecDepthLimit then None else Some (Var ErrNestedTooDeep))"
  using RefuseDeepNesting_print [OF assms] .

lemma nesting_is_depth_witness:
  "RefuseDeepNesting (json_print (JArray [JString (''[['' @ [quote] @ '']'')])) = None"
  using nesting_is_depth [of "JArray [JString (''[['' @ [quote] @ '']'')]"] by code_simp

text \<open>
  A checkpoint survives the record. Whatever mixture of a prefix and ranges it is written as,
  \<open>setCheckpoint\<close> succeeds, touches only the checkpoint and the record's list of content models, and
  \<open>CheckpointOf\<close> reads back the same bytes in canonical form with the same validators.
\<close>

theorem checkpoint_reads_back:
  assumes "checkpoint_layer R D" "checkpoint_wf cp"
  shows "\<exists>rs r' doc names. setCheckpoint R D cp r = Inr r' \<and> r' = r\<lparr>j_checkpoint := doc, j_content := names\<rparr> \<and>
    CheckpointOf R D r' = Inr \<lparr>c_prefix = ro_prefix R rs, c_validators = c_validators cp, c_verified = rs\<rparr> \<and>
    canonical rs \<and> bytes_of rs = claimed cp"
  using checkpoint_layer.setCheckpoint_reads_back [OF assms, of r] by blast

definition two_ranges :: checkpoint where
  "two_ranges = \<lparr>c_prefix = 4, c_validators = no_validators, c_verified = [Range 8 12]\<rparr>"

lemma checkpoint_reads_back_witness:
  "\<exists>rs r' doc names. setCheckpoint ref_ranges ref_docs two_ranges blank_ref = Inr r' \<and>
    r' = blank_ref\<lparr>j_checkpoint := doc, j_content := names\<rparr> \<and>
    CheckpointOf ref_ranges ref_docs r' =
      Inr \<lparr>c_prefix = ro_prefix ref_ranges rs, c_validators = c_validators two_ranges, c_verified = rs\<rparr> \<and>
    canonical rs \<and> bytes_of rs = claimed two_ranges"
  by (rule checkpoint_reads_back [OF checkpoint_layer_ref])
    (simp add: checkpoint_wf_def two_ranges_def)

text \<open>
  Nothing is fetched twice and nothing is left out: for an artifact of known size whose proven bytes
  lie inside it, the bytes a plan keeps and the bytes of its requests are a partition of the artifact.
\<close>

theorem resume_partitions:
  assumes "range_layer R" "planResume R partial st cp sz = Inr p" "checkpoint_wf cp" "0 < sz"
    and "rp_have p = [] \<or> r_end (last (rp_have p)) \<le> sz"
  shows "bytes_of (rp_have p) \<union> gaps_bytes sz (rp_gaps p) = {0..<sz} \<and>
    bytes_of (rp_have p) \<inter> gaps_bytes sz (rp_gaps p) = {}"
  using range_layer.planResume_partition [OF assms] by blast

lemma resume_partitions_witness:
  "bytes_of [Range 0 4, Range 8 10] \<union> gaps_bytes 20 [\<lparr>g_from = 4, g_to = 8\<rparr>, \<lparr>g_from = 10, g_to = 0\<rparr>] = {0..<20} \<and>
   bytes_of [Range 0 4, Range 8 10] \<inter> gaps_bytes 20 [\<lparr>g_from = 4, g_to = 8\<rparr>, \<lparr>g_from = 10, g_to = 0\<rparr>] = {}"
proof -
  have "planResume ref_ranges ''p'' (IsFile 10) two_ranges 20 = Inr \<lparr>rp_have = [Range 0 4, Range 8 10],
      rp_gaps = [\<lparr>g_from = 4, g_to = 8\<rparr>, \<lparr>g_from = 10, g_to = 0\<rparr>], rp_trim = 10, rp_discarded = 0,
      rp_validators = no_validators\<rparr>" by code_simp
  from resume_partitions [OF range_layer_ref this] show ?thesis
    by (simp add: checkpoint_wf_def two_ranges_def)
qed

text \<open>
  A record never makes bytes out of nothing: the bytes a plan keeps are proven by the checkpoint and
  present in the partial, all of those when any is kept, and the plan trims the partial right behind
  the last of them.
\<close>

theorem resume_trusts_the_file:
  assumes "range_layer R" "planResume R partial st cp sz = Inr p" "checkpoint_wf cp"
  shows "bytes_of (rp_have p) \<subseteq> claimed cp \<and> (\<forall>b\<in>bytes_of (rp_have p). b < rp_trim p) \<and>
    (rp_have p \<noteq> [] \<longrightarrow> (\<exists>len. st = IsFile len \<and> bytes_of (rp_have p) = claimed cp \<inter> {..<len} \<and>
       rp_trim p \<le> len \<and> rp_discarded p = len - rp_trim p))"
  using range_layer.planResume_trusts [OF assms] by blast

lemma resume_trusts_the_file_witness:
  "bytes_of [Range 0 4, Range 8 10] \<subseteq> claimed two_ranges"
proof -
  have "planResume ref_ranges ''p'' (IsFile 10) two_ranges 20 = Inr \<lparr>rp_have = [Range 0 4, Range 8 10],
      rp_gaps = [\<lparr>g_from = 4, g_to = 8\<rparr>, \<lparr>g_from = 10, g_to = 0\<rparr>], rp_trim = 10, rp_discarded = 0,
      rp_validators = no_validators\<rparr>" by code_simp
  from resume_trusts_the_file [OF range_layer_ref this] show ?thesis
    by (simp add: checkpoint_wf_def two_ranges_def)
qed

text \<open>
  A rolling hash is only continued where that is sound: when a plan is one stream, the bytes it keeps
  are exactly the prefix before the offset it continues from, and the partial is trimmed to it.
\<close>

theorem one_stream_appends:
  assumes "range_layer R" "planResume R partial st cp sz = Inr p" "checkpoint_wf cp" "oneStream p"
  shows "bytes_of (rp_have p) = {0..<plan_from p} \<and> rp_trim p = plan_from p"
  using range_layer.oneStream_appends [OF assms] by blast

lemma one_stream_appends_witness:
  "bytes_of [Range 0 4] = {0..<4} \<and> (4::int) = plan_from \<lparr>rp_have = [Range 0 4], rp_gaps = [\<lparr>g_from = 4, g_to = 0\<rparr>],
     rp_trim = 4, rp_discarded = 3, rp_validators = no_validators\<rparr>"
proof -
  let ?p = "\<lparr>rp_have = [Range 0 4], rp_gaps = [\<lparr>g_from = 4, g_to = 0\<rparr>],
     rp_trim = 4, rp_discarded = 3, rp_validators = no_validators\<rparr>"
  let ?c = "\<lparr>c_prefix = 4, c_validators = no_validators, c_verified = []\<rparr>"
  have "planResume ref_ranges ''p'' (IsFile 7) ?c 20 = Inr ?p" by code_simp
  moreover have "oneStream ?p" by code_simp
  moreover have "plan_from ?p = 4" by code_simp
  ultimately show ?thesis
    using one_stream_appends [OF range_layer_ref, of "''p''" "IsFile 7" ?c 20 ?p] by (simp add: checkpoint_wf_def)
qed

text \<open>
  A source that claims the largest 64-bit length hangs the planner: the offset wraps below zero, stays
  on the grid, and the loop of \<open>gridPlan\<close> never reaches the size.
\<close>

theorem grid_plan_diverges: "gridPlan max_int64 = None"
  using gridPlan_diverges .

text \<open>
  A plan that came from a source is input. One that is accepted has fewer than 512 cuts, ascending
  inside the artifact; coarsening it keeps only cuts the source named and leaves no two of them, and
  no cut and an end of the artifact, closer than the floor.
\<close>

theorem published_plans_are_bounded:
  assumes "publishedPlan src sz = Some p"
  shows "pl_size p = sz \<and> pl_cuts p \<noteq> [] \<and> cuts_inside sz (pl_cuts p) \<and>
    int (length (pl_cuts p)) < maxRanges \<and> set (pl_cuts (coarsened p)) \<subseteq> set (pl_cuts p) \<and>
    cuts_inside sz (pl_cuts (coarsened p)) \<and> spaced (rangeFloor sz) sz 0 (pl_cuts (coarsened p))"
  using publishedPlan_ok [OF assms] coarsened_ok [of p] by auto

lemma published_plans_are_bounded_witness:
  "pl_size \<lparr>pl_size = 300, pl_cuts = [100, 200]\<rparr> = 300 \<and> cuts_inside 300 [100, 200]"
proof -
  have "publishedPlan boundary_source 300 = Some \<lparr>pl_size = 300, pl_cuts = [100, 200]\<rparr>" by code_simp
  from published_plans_are_bounded [OF this] show ?thesis by simp
qed

text \<open>
  Nothing is forgotten: when a parallel run ends with an empty queue, idle connections and no failure,
  every byte of the artifact is in the proven set and on disk.
\<close>

theorem finished_run_is_complete:
  assumes "checkpoint_layer R D" "canonical h" "0 \<le> pl_size p" "bytes_of h \<subseteq> {0..<min len (pl_size p)}"
    and "(pstep R D)\<^sup>*\<^sup>* (parallel_start R p vs len h r) s"
    and "\<not> ps_failed s" "ps_todo s = []" "\<forall>i. ps_workers s i = Idle"
  shows "{0..<pl_size p} \<subseteq> bytes_of (ps_have s) \<and> bytes_of (ps_have s) \<subseteq> ps_durable s"
proof -
  have inv: "pinv D (record_claims D r) (parallel_start R p vs len h r)"
    using checkpoint_layer.pinv_start [OF assms(1-4)] by blast
  have "{0..<ps_size (parallel_start R p vs len h r)} \<subseteq> accounted (parallel_start R p vs len h r)"
    using checkpoint_layer.accounted_start [OF assms(1-3)] by (simp add: parallel_start_def)
  from checkpoint_layer.finished_run_complete [OF assms(1,5) inv assms(6) this assms(7,8)] show ?thesis
    by (simp add: parallel_start_def)
qed

definition small_plan :: plan where
  "small_plan = \<lparr>pl_size = 4, pl_cuts = []\<rparr>"

definition small_start :: "ref_doc progress_state" where
  "small_start = parallel_start ref_ranges small_plan no_validators 0 [] blank_ref"

definition small_record :: "ref_doc job_record" where
  "small_record = (case record_update ref_ranges ref_docs 4 no_validators [Range 0 4] 0 blank_ref of
     Inr r' \<Rightarrow> r' | Inl _ \<Rightarrow> blank_ref)"

definition small_end :: "ref_doc progress_state" where
  "small_end = small_start\<lparr>ps_todo := [], ps_written := {0..<4}, ps_durable := {0..<4},
     ps_have := [Range 0 4], ps_landed := [], ps_record := small_record\<rparr>"

lemma small_run: "(pstep ref_ranges ref_docs)\<^sup>*\<^sup>* small_start small_end"
proof -
  let ?g = "Range 0 4"
  have todo: "todo_ranges ref_ranges small_plan [] = [?g]" by code_simp
  have start: "small_start = \<lparr>ps_size = 4, ps_validators = no_validators, ps_todo = [?g], ps_workers = (\<lambda>_. Idle),
      ps_timer = Quiet, ps_have = [], ps_landed = [], ps_record = blank_ref, ps_failed = False,
      ps_written = {}, ps_durable = {}\<rparr>"
    using todo by (simp add: small_start_def parallel_start_def small_plan_def)
  let ?s1 = "small_start\<lparr>ps_todo := [], ps_workers := (ps_workers small_start)(0 := Writing ?g 0)\<rparr>"
  let ?s2 = "?s1\<lparr>ps_written := ps_written ?s1 \<union> {0..<0 + 4}, ps_workers := (ps_workers ?s1)(0 := Reporting ?g (0 + 4))\<rparr>"
  let ?s3 = "?s2\<lparr>ps_landed := arrival 0 4 (ps_landed ?s2), ps_workers := (ps_workers ?s2)(0 := Writing ?g 4)\<rparr>"
  let ?s4 = "?s3\<lparr>ps_workers := (ps_workers ?s3)(0 := Fetched ?g)\<rparr>"
  let ?s5 = "?s4\<lparr>ps_durable := ps_durable ?s4 \<union> ps_written ?s4, ps_workers := (ps_workers ?s4)(0 := Synced ?g)\<rparr>"
  let ?s6 = "?s5\<lparr>ps_have := [?g], ps_landed := AList.delete 0 (ps_landed ?s5),
     ps_record := small_record, ps_workers := (ps_workers ?s5)(0 := Idle)\<rparr>"
  have p1: "pstep ref_ranges ref_docs small_start ?s1"
    using pstep.take_range [of small_start 0 ?g "[]"] by (simp add: start)
  have p2: "pstep ref_ranges ref_docs ?s1 ?s2"
    using pstep.write_bytes [of ?s1 0 ?g 0 4] by simp
  have p3: "pstep ref_ranges ref_docs ?s2 ?s3"
    using pstep.report_landed [of ?s2 0 ?g 4] by simp
  have p4: "pstep ref_ranges ref_docs ?s3 ?s4"
    using pstep.whole_range [of ?s3 0 ?g] by simp
  have p5: "pstep ref_ranges ref_docs ?s4 ?s5"
    using pstep.sync_range [of ?s4 0 ?g] by simp
  have p6: "pstep ref_ranges ref_docs ?s5 ?s6"
  proof -
    have "ro_add ref_ranges [] 0 4 = Inr [?g]" by code_simp
    moreover have "record_update ref_ranges ref_docs 4 no_validators [?g] 0 blank_ref = Inr small_record"
    proof -
      define c where "c = \<lparr>c_prefix = 0, c_validators = no_validators, c_verified = [?g]\<rparr>"
      have "\<exists>r0. record_update ref_ranges ref_docs 4 no_validators [?g] 0 blank_ref = setCheckpoint ref_ranges ref_docs c r0"
        by (simp add: record_update_def c_def) blast
      moreover have "checkpoint_wf c" by (simp add: checkpoint_wf_def c_def)
      ultimately obtain r' where "record_update ref_ranges ref_docs 4 no_validators [?g] 0 blank_ref = Inr r'"
        using checkpoint_layer.setCheckpoint_reads_back [OF checkpoint_layer_ref] by metis
      then show ?thesis by (simp add: small_record_def)
    qed
    ultimately show ?thesis
      using pstep.record_range [of ?s5 0 ?g ref_ranges "[?g]" ref_docs 0 small_record] by (simp add: start)
  qed
  have e: "?s6 = small_end"
    by (simp add: small_end_def start arrival_def fun_eq_iff)
  show ?thesis using r_into_rtranclp [of "pstep ref_ranges ref_docs", OF p1] p2 p3 p4 p5 p6
    unfolding e by (meson rtranclp.rtrancl_into_rtrancl)
qed

lemma finished_run_is_complete_witness:
  "{0..<4} \<subseteq> bytes_of (ps_have small_end) \<and> bytes_of (ps_have small_end) \<subseteq> ps_durable small_end"
  using finished_run_is_complete [OF checkpoint_layer_ref, of "[]" small_plan 0 no_validators blank_ref small_end]
    small_run
  by (simp add: small_end_def small_start_def parallel_start_def small_plan_def)

text \<open>
  The check that the server left the bytes alone is made on the first answer only. A server that answers
  416, and then sends the whole artifact compressed, has its compressed bytes written as the artifact.
\<close>

theorem restart_ignores_coding:
  "\<exists>N f. http_answer N sample_request = (True, Inr f) \<and> unwantedCoding (nw_fold N) (ft_response f) \<noteq> []"
proof -
  let ?a = "sample_response 416 []" and ?b = "sample_response 200 [(''Content-Encoding'', ''gzip'')]"
  let ?f = "\<lparr>ft_response = ?b, ft_body = \<lparr>bd_chunks = [''data''], bd_end = None\<rparr>, ft_from = 0\<rparr>"
  have "unwantedCoding (\<lambda>_ _. False) ?a = []" by code_simp
  then have "http_answer (two_answers ?a ?b) sample_request = (True, Inr ?f)"
    by (simp add: http_answer_def http_get_def two_answers_def choose_answer_def sample_request_def
        sample_response_def restartWhole_def)
  moreover have "unwantedCoding (\<lambda>_ _. False) ?b \<noteq> []" by code_simp
  ultimately show ?thesis by (intro exI [of _ "two_answers ?a ?b"] exI [of _ ?f]) (simp add: two_answers_def)
qed

text \<open>
  What a fetch sends: identity coding always, the range it wants when it wants one, and the version the
  bytes on disk came from when one is recorded. The bounded request of \<open>FetchRange\<close> carries no
  \<open>Accept-Encoding\<close> of its own.
\<close>

theorem fetch_request_headers:
  "hq_header (request_of rq) ''Accept-Encoding'' = Some ''identity'' \<and>
   (0 < rq_from rq \<or> 0 < rq_to rq \<longrightarrow>
      hq_header (request_of rq) ''Range'' = Some (byte_range (rq_from rq) (rq_to rq)) \<and>
      (IfRange (rq_validators rq) \<noteq> [] \<longrightarrow>
         hq_header (request_of rq) ''If-Range'' = Some (IfRange (rq_validators rq)))) \<and>
   (rr_headers rg = [] \<longrightarrow> hq_header (range_request_of rg) ''Accept-Encoding'' = None)"
  using request_headers [of rq] range_request_no_coding [of rg] by blast

lemma fetch_request_headers_witness:
  "hq_header (request_of sample_request) ''Range'' = Some ''bytes=100-''"
  using fetch_request_headers [of sample_request] by (simp add: sample_request_def byte_range_def) code_simp

text \<open>
  Ranges compose. Fetching several ranges of one artifact into one file, in any order and overlapping or
  not, leaves every byte of every range in place when none of them failed.
\<close>

theorem ranges_fill_the_file:
  assumes "\<forall>q\<in>set qs. valid_range (rr_range q) \<and> r_end (rr_range q) \<le> max_int64"
    and "http_ranges.fetch_all N ctx qs f = (None, f')"
  shows "\<forall>i. f i \<noteq> None \<or> i \<in> bytes_of (map rr_range qs) \<longrightarrow> f' i \<noteq> None"
  using http_ranges.fetch_all_filled [OF assms] .

lemma ranges_fill_the_file_witness:
  "\<exists>f'. http_ranges.fetch_all (two_answers (sample_response 206 [(''Content-Range'', ''bytes 100-103/104'')]) (sample_response 500 []))
     (\<lambda>_. None) [sample_range] (\<lambda>_. None) = (None, f') \<and> f' 102 \<noteq> None"
proof -
  let ?N = "two_answers (sample_response 206 [(''Content-Range'', ''bytes 100-103/104'')]) (sample_response 500 [])"
  have named: "namesRange ''bytes 100-103/104'' (Range 100 104)" by code_simp
  let ?b = "\<lparr>bd_chunks = [''data''], bd_end = None\<rparr>"
  have "range_answer ?N sample_range = Inr ?b"
    using named by (simp add: range_answer_def two_answers_def sample_response_def sample_range_def lookup_def)
  moreover have "fst (copyRange full_writer (\<lambda>_. None) (Range 100 104) ?b (\<lambda>_. None)) = None" by code_simp
  ultimately have "fst (http_FetchRange ?N full_writer (\<lambda>_. None) sample_range (\<lambda>_. None)) = None"
    by (cases "copyRange full_writer (\<lambda>_. None) (Range 100 104) ?b (\<lambda>_. None)")
      (simp add: http_FetchRange_def sample_range_def)
  then obtain f' where r: "http_ranges.fetch_all ?N (\<lambda>_. None) [sample_range] (\<lambda>_. None) = (None, f')"
    by (cases "http_FetchRange ?N full_writer (\<lambda>_. None) sample_range (\<lambda>_. None)") simp
  have "\<forall>q\<in>set [sample_range]. valid_range (rr_range q) \<and> r_end (rr_range q) \<le> max_int64"
    by (simp add: sample_range_def valid_range_def max_int64_def)
  from ranges_fill_the_file [OF this r] r show ?thesis by (auto simp: sample_range_def)
qed

text \<open>
  A server's refusal ends the job and anything else leaves it open: the error of a status is permanent
  exactly for the statuses \<open>refused\<close> lists, and its cause is the status's own.
\<close>

theorem status_class:
  "(Permanent (statusError l resp) \<longleftrightarrow> refused (rs_status resp)) \<and>
   CauseOf (Some (statusError l resp)) = status_cause (rs_status resp) (refused (rs_status resp))"
  using statusError_class statusError_cause by blast

text \<open>
  The three readers of \<open>Content-Range\<close> agree with the header a server writes: the start and the total
  come back, and \<open>namesRange\<close> answers yes for exactly the range that was sent.
\<close>

theorem content_range_round_trip:
  assumes "0 \<le> a" "0 \<le> b" "0 < c" "is_int64 a" "is_int64 b" "is_int64 c"
  shows "contentRangeStart uf (content_range a b c) = Inr a \<and> contentRangeTotal (content_range a b c) = c \<and>
    (namesRange (content_range a b c) want \<longleftrightarrow> want = Range a (b + 1))"
  using contentRangeStart_reads [of a b uf c] contentRangeTotal_reads [of a b c] namesRange_reads [of a b c want] assms
  by simp

lemma content_range_round_trip_witness:
  "namesRange (content_range 100 103 104) (Range 100 104)"
  using content_range_round_trip [of 100 103 104 "\<lambda>_ _. False" "Range 100 104"] by (simp add: is_int64_def max_int64_def min_int64_def)

text \<open>
  Refusing a host works. After \<open>Refuse\<close> on a readable list, \<open>Check\<close> refuses that host and every host
  below it, and answers as before for every other.
\<close>

theorem refusal_covers_subdomains:
  assumes "file_good f" "host_key n" "host_key h"
  shows "\<exists>f'. refusals_Refuse uni n why f = Inr f' \<and> file_good f' \<and>
    (refusals_Check uni [] f' h \<noteq> None \<longleftrightarrow> refusals_Check uni [] f h \<noteq> None \<or> covers n h)"
proof -
  obtain f' where f': "file_refuse uni why n f = Some f'" "file_good f'"
    using refusals.refuse_good [OF assms(1,2)] by blast
  then have "refusals_Refuse uni n why f = Inr f'" by (simp add: file_refuse_def split: sum.splits)
  with f'(2) refusals.refuse_covers [OF assms(1,2) f'(1) assms(3)] show ?thesis by (auto simp: file_refuses_def)
qed

lemma refusal_covers_subdomains_witness:
  "\<exists>f'. refusals_Refuse id ''example.com'' ''no'' NoFile = Inr f' \<and>
    (refusals_Check id [] f' ''cdn.example.com'' \<noteq> None \<longleftrightarrow> refusals_Check id [] NoFile ''cdn.example.com'' \<noteq> None \<or>
      covers ''example.com'' ''cdn.example.com'')"
proof -
  have "host_key ''example.com'' \<and> host_key ''cdn.example.com''" by code_simp
  then show ?thesis
    using refusal_covers_subdomains [of NoFile "''example.com''" "''cdn.example.com''" id "''no''"]
    by (auto simp: file_good_def)
qed

text \<open>
  A redirect that leaves the source's host and its subdomains takes none of the supplied headers along:
  each is gone, or was given again by the credential for the new host.
\<close>

theorem redirect_strips_supplied:
  assumes "on_redirect uni r supplied hop origin vias to (m, names) = Inr (m', names')"
    and "0 < vias" "\<not> sameOrSubdomain uni (u_hostname to) origin" "k \<in> canonical_key ` set supplied"
  shows "m' k = None \<or> (\<exists>hc applied. hop = Some hc \<and> hop_apply hc (u_hostname to) = Inr applied \<and>
    k \<in> canonical_key ` fst ` set applied)"
  using on_redirect_strips [OF assms] .

lemma redirect_strips_supplied_witness:
  "\<exists>m' names'. on_redirect id None [''X-Key''] None ''hub'' 1
       \<lparr>u_user = False, u_scheme = ''https'', u_hostname = ''evil'', u_redacted = []\<rparr>
       (Map.empty (''X-Key'' \<mapsto> ''s3cret''), []) = Inr (m', names') \<and> m' ''X-Key'' = None"
proof -
  let ?to = "\<lparr>u_user = False, u_scheme = ''https'', u_hostname = ''evil'', u_redacted = []\<rparr>"
  have h: "hostOfURL id ?to = Inr ''evil''" by code_simp
  obtain m' names' where red: "on_redirect id None [''X-Key''] None ''hub'' 1 ?to
      (Map.empty (''X-Key'' \<mapsto> ''s3cret''), []) = Inr (m', names')"
    using h by (simp add: on_redirect_def checkURL_def checkHost_def)
  have s: "\<not> sameOrSubdomain id ''evil'' ''hub''" "canonical_key ''X-Key'' = ''X-Key''" by code_simp+
  from redirect_strips_supplied [OF red, of "''X-Key''"] red s show ?thesis by auto
qed

end
